(* ===== verification/Json.thy ===== *)
theory Json
  imports Prelude
begin

text \<open>
  JSON values and the two standard-library calls the ledger uses on them: \<open>json.dumps\<close>
  with \<open>sort_keys=True, separators=(',', ':')\<close> and \<open>json.loads\<close>.

  A value is what the ledger stores: \<open>None\<close>, booleans, integers, strings, lists and
  dictionaries. Strings are sequences of code points below 256. \<open>canonical\<close> is
  \<open>models._canonical\<close>: dictionaries sorted by key at every level; \<open>dumps\<close> prints the
  canonical value, and \<open>loads\<close> is a recursive descent parser for that text (no white
  space, the escapes \<open>dumps\<close> emits). The main result is that \<open>loads\<close> after \<open>dumps\<close> gives
  the canonical value back, hence that \<open>dumps\<close> identifies exactly the values with the
  same canonical form.
\<close>

datatype json =
    JNull
  | JBool bool
  | JInt int
  | JStr string
  | JList "json list"
  | JObj "(string \<times> json) list"

section \<open>Canonical form\<close>

primrec canonical :: "json \<Rightarrow> json" where
  "canonical JNull = JNull"
| "canonical (JBool b) = JBool b"
| "canonical (JInt i) = JInt i"
| "canonical (JStr s) = JStr s"
| "canonical (JList xs) = JList (map canonical xs)"
| "canonical (JObj kvs) = JObj (sort_key fst (map (map_prod id canonical) kvs))"

lemma sort_key_fst_map_snd:
  "sort_key fst (map (map_prod id f) kvs) = map (map_prod id f) (sort_key fst kvs)"
proof -
  have ins: "insort_key fst (map_prod id f p) (map (map_prod id f) qs)
      = map (map_prod id f) (insort_key fst p qs)" for p :: "'a \<times> 'c" and qs
    by (induction qs) auto
  show ?thesis by (induction kvs) (simp_all add: ins[unfolded id_def] id_def)
qed

lemma sort_key_fst_idem: "sort_key fst (sort_key fst xs) = sort_key fst xs"
  by (rule sort_key_sorted) simp

lemma canonical_idem [simp]: "canonical (canonical j) = canonical j"
proof (induction j)
  case (JObj kvs)
  have eq: "map (map_prod id (canonical \<circ> canonical)) kvs = map (map_prod id canonical) kvs"
    using JObj.IH by (intro map_cong) (auto simp: snds.simps)
  have "map (map_prod id canonical) (sort_key fst (map (map_prod id canonical) kvs))
      = sort_key fst (map (map_prod id canonical) (map (map_prod id canonical) kvs))"
    by (rule sort_key_fst_map_snd[symmetric])
  also have "\<dots> = sort_key fst (map (map_prod id (canonical \<circ> canonical)) kvs)"
    by (simp add: map_prod.comp)
  finally show ?case
    by (simp add: eq sort_key_fst_idem)
qed auto

section \<open>Printing\<close>

definition digit_char :: "nat \<Rightarrow> char" where
  "digit_char d = char_of (48 + d)"

fun digits :: "nat \<Rightarrow> string" where
  "digits n = (if n < 10 then [digit_char n] else digits (n div 10) @ [digit_char (n mod 10)])"

declare digits.simps [simp del]

definition show_int :: "int \<Rightarrow> string" where
  "show_int i = (if i < 0 then CHR ''-'' # digits (nat (- i)) else digits (nat i))"

definition quote_char :: char where "quote_char = CHR 0x22"
definition backslash :: char where "backslash = CHR 0x5C"

definition hex_char :: "nat \<Rightarrow> char" where
  "hex_char n = (if n < 10 then char_of (48 + n) else char_of (87 + n))"

text \<open>The two-character escapes of \<open>json.encoder\<close>.\<close>

definition short_escapes :: "(char \<times> char) list" where
  "short_escapes = [(CHR 0x22, CHR 0x22), (CHR 0x5C, CHR 0x5C), (CHR 0x0A, CHR ''n''),
     (CHR 0x0D, CHR ''r''), (CHR 0x09, CHR ''t''), (CHR 0x0C, CHR ''f''), (CHR 0x08, CHR ''b'')]"

definition escape :: "char \<Rightarrow> string" where
  "escape c =
     (case map_of short_escapes c of
        Some e \<Rightarrow> [backslash, e]
      | None \<Rightarrow>
          (if 32 \<le> (of_char c :: nat) \<and> (of_char c :: nat) \<le> 126 then [c]
           else [backslash, CHR ''u'', CHR ''0'', CHR ''0'',
                 hex_char (of_char c div 16), hex_char (of_char c mod 16)]))"

definition show_str :: "string \<Rightarrow> string" where
  "show_str s = quote_char # concat (map escape s) @ [quote_char]"

fun commas :: "string list \<Rightarrow> string" where
  "commas [] = []"
| "commas [x] = x"
| "commas (x # xs) = x @ CHR '','' # commas xs"

primrec render :: "json \<Rightarrow> string" where
  "render JNull = ''null''"
| "render (JBool b) = (if b then ''true'' else ''false'')"
| "render (JInt i) = show_int i"
| "render (JStr s) = show_str s"
| "render (JList xs) = CHR ''['' # commas (map render xs) @ '']''"
| "render (JObj kvs) =
     CHR ''{'' # commas (map (\<lambda>kv. show_str (fst kv) @ CHR '':'' # snd kv)
                            (map (map_prod id render) kvs)) @ ''}''"

definition dumps :: "json \<Rightarrow> string" where
  "dumps j = render (canonical j)"

section \<open>Parsing\<close>

definition is_digit :: "char \<Rightarrow> bool" where
  "is_digit c \<longleftrightarrow> 48 \<le> (of_char c :: nat) \<and> (of_char c :: nat) \<le> 57"

definition digit_val :: "char \<Rightarrow> nat" where
  "digit_val c = of_char c - 48"

definition nat_of :: "string \<Rightarrow> nat" where
  "nat_of s = foldl (\<lambda>n c. 10 * n + digit_val c) 0 s"

definition hex_val :: "char \<Rightarrow> nat" where
  "hex_val c = (if is_digit c then of_char c - 48 else of_char c - 87)"

definition read_char :: "string \<Rightarrow> (char \<times> string) option" where
  "read_char s = (case s of [] \<Rightarrow> None
     | c # cs \<Rightarrow>
         if c \<noteq> backslash then Some (c, cs)
         else (case cs of [] \<Rightarrow> None
           | e # ds \<Rightarrow>
               if e = CHR ''u'' then
                 (case ds of _ # _ # x # y # es \<Rightarrow>
                    Some (char_of (16 * hex_val x + hex_val y), es) | _ \<Rightarrow> None)
               else map_option (\<lambda>c. (c, ds)) (map_of (map prod.swap short_escapes) e)))"

primrec parse_body :: "nat \<Rightarrow> string \<Rightarrow> (string \<times> string) option" where
  "parse_body 0 s = None"
| "parse_body (Suc f) s =
     (if s \<noteq> [] \<and> hd s = quote_char then Some ([], tl s)
      else (case read_char s of None \<Rightarrow> None
        | Some (c, r) \<Rightarrow> map_option (apfst (Cons c)) (parse_body f r)))"

definition strip_word :: "string \<Rightarrow> json \<Rightarrow> string \<Rightarrow> (json \<times> string) option" where
  "strip_word w v s = (if take (length w) s = w then Some (v, drop (length w) s) else None)"

definition parse_nat :: "string \<Rightarrow> (nat \<times> string) option" where
  "parse_nat s = (let ds = takeWhile is_digit s
     in if ds = [] then None else Some (nat_of ds, dropWhile is_digit s))"

definition parse_string :: "string \<Rightarrow> (string \<times> string) option" where
  "parse_string s = (case s of [] \<Rightarrow> None
     | c # cs \<Rightarrow> if c = quote_char then parse_body (Suc (length cs)) cs else None)"

fun parse_val :: "nat \<Rightarrow> string \<Rightarrow> (json \<times> string) option"
  and parse_elems :: "nat \<Rightarrow> string \<Rightarrow> (json list \<times> string) option"
  and parse_members :: "nat \<Rightarrow> string \<Rightarrow> ((string \<times> json) list \<times> string) option" where
  "parse_val 0 s = None"
| "parse_val (Suc f) s = (case s of [] \<Rightarrow> None
     | c # cs \<Rightarrow>
         if c = quote_char then map_option (apfst JStr) (parse_string s)
         else if c = CHR ''['' then
           (if cs \<noteq> [] \<and> hd cs = CHR '']'' then Some (JList [], tl cs)
            else map_option (apfst JList) (parse_elems f cs))
         else if c = CHR ''{'' then
           (if cs \<noteq> [] \<and> hd cs = CHR ''}'' then Some (JObj [], tl cs)
            else map_option (apfst JObj) (parse_members f cs))
         else if c = CHR ''n'' then strip_word ''null'' JNull s
         else if c = CHR ''t'' then strip_word ''true'' (JBool True) s
         else if c = CHR ''f'' then strip_word ''false'' (JBool False) s
         else if c = CHR ''-'' then map_option (apfst (\<lambda>n. JInt (- int n))) (parse_nat cs)
         else map_option (apfst (\<lambda>n. JInt (int n))) (parse_nat s))"
| "parse_elems 0 s = None"
| "parse_elems (Suc f) s = (case parse_val f s of None \<Rightarrow> None
     | Some (v, r) \<Rightarrow>
         (case r of [] \<Rightarrow> None
          | d # ds \<Rightarrow>
              if d = CHR '','' then map_option (apfst (Cons v)) (parse_elems f ds)
              else if d = CHR '']'' then Some ([v], ds) else None))"
| "parse_members 0 s = None"
| "parse_members (Suc f) s = (case parse_string s of None \<Rightarrow> None
     | Some (k, r) \<Rightarrow>
         (case r of [] \<Rightarrow> None
          | colon # r' \<Rightarrow>
              if colon \<noteq> CHR '':'' then None
              else (case parse_val f r' of None \<Rightarrow> None
                | Some (v, q) \<Rightarrow>
                    (case q of [] \<Rightarrow> None
                     | d # ds \<Rightarrow>
                         if d = CHR '','' then map_option (apfst (Cons (k, v))) (parse_members f ds)
                         else if d = CHR ''}'' then Some ([(k, v)], ds) else None))))"

definition loads :: "string \<Rightarrow> json option" where
  "loads s = (case parse_val (2 * length s) s of
      Some (j, []) \<Rightarrow> Some j | _ \<Rightarrow> None)"

section \<open>Round trip\<close>

lemma of_char_digit [simp]: "d < 10 \<Longrightarrow> (of_char (digit_char d) :: nat) = 48 + d"
  by (simp add: digit_char_def)

lemma is_digit_digit_char [simp]: "d < 10 \<Longrightarrow> is_digit (digit_char d)"
  by (simp add: is_digit_def)

lemma digits_all: "c \<in> set (digits n) \<Longrightarrow> is_digit c"
proof (induction n rule: digits.induct)
  case (1 n)
  then show ?case
    by (cases "n < 10") (auto simp: digits.simps[of n])
qed

lemma digits_nonempty: "digits n \<noteq> []"
  by (subst digits.simps) simp

lemma nat_of_snoc: "nat_of (s @ [c]) = 10 * nat_of s + digit_val c"
  by (simp add: nat_of_def)

lemma nat_of_digits [simp]: "nat_of (digits n) = n"
proof (induction n rule: digits.induct)
  case (1 n)
  show ?case
  proof (cases "n < 10")
    case True
    then show ?thesis by (simp add: digits.simps[of n] nat_of_def digit_val_def)
  next
    case False
    then show ?thesis
      using 1 by (simp add: digits.simps[of n] nat_of_snoc digit_val_def)
  qed
qed

text \<open>What may follow a printed value: nothing, or a character that is no digit.\<close>

definition delimited :: "string \<Rightarrow> bool" where
  "delimited r \<longleftrightarrow> (r = [] \<or> \<not> is_digit (hd r))"

lemma parse_nat_digits: "delimited r \<Longrightarrow> parse_nat (digits n @ r) = Some (n, r)"
proof -
  assume r: "delimited r"
  have "takeWhile is_digit (digits n @ r) = digits n"
    using r digits_all by (cases r) (auto simp: delimited_def takeWhile_append2)
  moreover have "dropWhile is_digit (digits n @ r) = r"
    using r digits_all by (cases r) (auto simp: delimited_def dropWhile_append2)
  ultimately show ?thesis
    by (simp add: parse_nat_def digits_nonempty)
qed

lemma hex_roundtrip: "n < 16 \<Longrightarrow> hex_val (hex_char n) = n"
  by (simp add: hex_val_def hex_char_def is_digit_def)

lemma short_escapes_inverse:
  "map_of short_escapes c = Some e
   \<Longrightarrow> e \<noteq> CHR ''u'' \<and> map_of (map prod.swap short_escapes) e = Some c"
  by (auto simp: short_escapes_def split: if_splits)

lemma read_char_escape: "read_char (escape c @ r) = Some (c, r)"
proof (cases "map_of short_escapes c")
  case (Some e)
  then show ?thesis
    using short_escapes_inverse[OF Some] by (simp add: escape_def read_char_def)
next
  case None
  have nb: "c \<noteq> backslash" using None by (auto simp: short_escapes_def backslash_def split: if_splits)
  have lt: "of_char c < (256::nat)" by simp
  have d: "of_char c div 16 < (16::nat)" using lt by (simp add: less_mult_imp_div_less)
  have "char_of (16 * (of_char c div 16) + of_char c mod (16::nat)) = c" by simp
  then show ?thesis
    using None nb d by (auto simp: escape_def read_char_def hex_roundtrip)
qed

lemma escape_hd: "escape c \<noteq> [] \<and> hd (escape c) \<noteq> quote_char"
  by (auto simp: escape_def quote_char_def backslash_def short_escapes_def split: option.splits if_splits)

lemma parse_body_escape:
  "length s < f \<Longrightarrow> parse_body f (concat (map escape s) @ quote_char # r) = Some (s, r)"
proof (induction s arbitrary: f)
  case Nil
  then show ?case by (cases f) auto
next
  case (Cons c s)
  then obtain f' where "f = Suc f'" and "length s < f'" by (cases f) auto
  then show ?case
    using Cons.IH[of f'] escape_hd[of c]
    by (simp add: read_char_escape)
qed

lemma length_concat_escape: "length s \<le> length (concat (map escape s))"
proof (induction s)
  case (Cons c s)
  have "1 \<le> length (escape c)" using escape_hd[of c] by (simp add: Suc_le_eq)
  then show ?case using Cons by simp
qed simp

lemma parse_string_show: "parse_string (show_str s @ r) = Some (s, r)"
  using length_concat_escape[of s]
  by (simp add: parse_string_def show_str_def parse_body_escape del: parse_body.simps)

primrec jcost :: "json \<Rightarrow> nat" where
  "jcost JNull = 1"
| "jcost (JBool b) = 1"
| "jcost (JInt i) = 1"
| "jcost (JStr s) = 1"
| "jcost (JList xs) = 2 + sum_list (map Suc (map jcost xs))"
| "jcost (JObj kvs) = 2 + sum_list (map (\<lambda>p. Suc (snd p)) (map (map_prod id jcost) kvs))"

lemma commas_Cons: "xs \<noteq> [] \<Longrightarrow> commas (x # xs) = x @ CHR '','' # commas xs"
  by (cases xs) auto

lemma delimited_simps [simp]:
  "delimited []" "delimited (CHR '','' # r)" "delimited (CHR '']'' # r)" "delimited (CHR ''}'' # r)"
  by (auto simp: delimited_def is_digit_def)

text \<open>The lists and the members of an object, given that their elements parse back.\<close>

lemma parse_elems_commas:
  assumes "\<And>x f r. x \<in> set xs \<Longrightarrow> jcost x \<le> f \<Longrightarrow> delimited r
             \<Longrightarrow> parse_val f (render x @ r) = Some (x, r)"
    and "xs \<noteq> []" and "sum_list (map Suc (map jcost xs)) \<le> f"
  shows "parse_elems f (commas (map render xs) @ CHR '']'' # r) = Some (xs, r)"
  using assms
proof (induction xs arbitrary: f)
  case (Cons x xs)
  from Cons.prems(3) obtain g where g: "f = Suc g" "jcost x \<le> g"
      "sum_list (map Suc (map jcost xs)) \<le> g"
    by (cases f) auto
  show ?case
  proof (cases "xs = []")
    case True
    then show ?thesis using g Cons.prems(1)[of x g "CHR '']'' # r"] by simp
  next
    case False
    have "parse_elems g (commas (map render xs) @ CHR '']'' # r) = Some (xs, r)"
      by (rule Cons.IH) (use Cons.prems(1) False g in auto)
    then show ?thesis
      using g False Cons.prems(1)[of x g "CHR '','' # commas (map render xs) @ CHR '']'' # r"]
      by (simp add: commas_Cons)
  qed
qed simp

lemma parse_members_commas:
  assumes "\<And>x f r. x \<in> snd ` set kvs \<Longrightarrow> jcost x \<le> f \<Longrightarrow> delimited r
             \<Longrightarrow> parse_val f (render x @ r) = Some (x, r)"
    and "kvs \<noteq> []" and "sum_list (map (\<lambda>p. Suc (jcost (snd p))) kvs) \<le> f"
  shows "parse_members f
           (commas (map (\<lambda>kv. show_str (fst kv) @ CHR '':'' # render (snd kv)) kvs)
              @ CHR ''}'' # r) = Some (kvs, r)"
  using assms
proof (induction kvs arbitrary: f)
  case (Cons p kvs)
  let ?mem = "\<lambda>kv. show_str (fst kv) @ CHR '':'' # render (snd kv)"
  from Cons.prems(3) obtain g where g: "f = Suc g" "jcost (snd p) \<le> g"
      "sum_list (map (\<lambda>p. Suc (jcost (snd p))) kvs) \<le> g"
    by (cases f) auto
  show ?case
  proof (cases "kvs = []")
    case True
    then show ?thesis
      using g Cons.prems(1)[of "snd p" g "CHR ''}'' # r"] by (simp add: parse_string_show)
  next
    case False
    have "parse_members g (commas (map ?mem kvs) @ CHR ''}'' # r) = Some (kvs, r)"
      by (rule Cons.IH) (use Cons.prems(1) False g in auto)
    then show ?thesis
      using g False Cons.prems(1)[of "snd p" g "CHR '','' # commas (map ?mem kvs) @ CHR ''}'' # r"]
      by (simp add: commas_Cons parse_string_show)
  qed
qed simp

lemma hd_digits: "is_digit (hd (digits n))"
  by (metis digits_all digits_nonempty hd_in_set)

lemma render_hd:
  "render x \<noteq> [] \<and> hd (render x) \<noteq> CHR '']''"
proof (cases x)
  case (JInt i)
  have "hd (digits n) \<noteq> CHR '']''" for n
    using hd_digits[of n] by (auto simp: is_digit_def)
  then show ?thesis using JInt by (auto simp: show_int_def digits_nonempty)
qed (auto simp: show_str_def quote_char_def)

lemma commas_hd: "xs \<noteq> [] \<Longrightarrow> hd xs \<noteq> [] \<Longrightarrow> commas xs \<noteq> [] \<and> hd (commas xs) = hd (hd xs)"
  by (cases xs rule: commas.cases) auto

lemma parse_val_int: "delimited r \<Longrightarrow> parse_val (Suc f) (show_int i @ r) = Some (JInt i, r)"
proof (cases "i < 0")
  case True
  then show "delimited r \<Longrightarrow> ?thesis"
    by (simp add: show_int_def parse_nat_digits quote_char_def)
next
  case False
  obtain c cs where c: "digits (nat i) = c # cs" "is_digit c"
    using digits_nonempty[of "nat i"] hd_digits[of "nat i"] by (cases "digits (nat i)") auto
  then have nc: "c \<noteq> quote_char" "c \<notin> set ''[{ntf-''"
    by (auto simp: is_digit_def quote_char_def)
  show "delimited r \<Longrightarrow> ?thesis"
    using False nc parse_nat_digits[of r "nat i"] by (simp add: show_int_def c)
qed

theorem parse_val_render:
  "jcost j \<le> f \<Longrightarrow> delimited r \<Longrightarrow> parse_val f (render j @ r) = Some (j, r)"
proof (induction j arbitrary: f r)
  case JNull
  then show ?case by (cases f) (auto simp: strip_word_def quote_char_def)
next
  case (JBool b)
  then show ?case by (cases f) (auto simp: strip_word_def quote_char_def)
next
  case (JInt i)
  then show ?case by (cases f) (simp_all add: parse_val_int del: parse_val.simps(2))
next
  case (JStr s)
  then show ?case
    using parse_string_show[of s r] by (cases f) (auto simp: show_str_def)
next
  case (JList xs)
  from JList.prems(1) obtain g where g: "f = Suc g" "sum_list (map Suc (map jcost xs)) \<le> g"
    by (cases f) auto
  show ?case
  proof (cases "xs = []")
    case True
    then show ?thesis using g by (simp add: quote_char_def)
  next
    case False
    then have "hd (map render xs) \<noteq> []" "hd (hd (map render xs)) \<noteq> CHR '']''"
      using render_hd[of "hd xs"] by (auto simp: hd_map)
    then have "hd (commas (map render xs)) \<noteq> CHR '']''" "commas (map render xs) \<noteq> []"
      using commas_hd[of "map render xs"] False by auto
    then show ?thesis
      using g parse_elems_commas[OF JList.IH False g(2), of r]
      by (simp add: quote_char_def)
  qed
next
  case (JObj kvs)
  from JObj.prems(1) obtain g where g: "f = Suc g"
      "sum_list (map (\<lambda>p. Suc (jcost (snd p))) kvs) \<le> g"
    by (cases f) (auto simp: comp_def)
  have IH: "parse_val f (render x @ r) = Some (x, r)"
    if "x \<in> snd ` set kvs" "jcost x \<le> f" "delimited r" for x f r
    using JObj.IH that by (force simp: snds.simps)
  let ?mem = "\<lambda>kv. show_str (fst kv) @ CHR '':'' # render (snd kv)"
  show ?case
  proof (cases "kvs = []")
    case True
    then show ?thesis using g by (simp add: quote_char_def)
  next
    case False
    then have "commas (map ?mem kvs) \<noteq> [] \<and> hd (commas (map ?mem kvs)) = quote_char"
      using commas_hd[of "map ?mem kvs"] by (simp add: hd_map show_str_def)
    then have h: "hd (commas (map ?mem kvs)) \<noteq> CHR ''}''" "commas (map ?mem kvs) \<noteq> []"
      by (auto simp: quote_char_def)
    show ?thesis
      using g h parse_members_commas[OF IH False g(2), of r]
      by (simp add: quote_char_def comp_def)
  qed
qed

text \<open>The text is long enough to serve as fuel.\<close>

lemma length_commas: "xs \<noteq> [] \<Longrightarrow> Suc (length (commas xs)) = sum_list (map (Suc \<circ> length) xs)"
  by (induction xs rule: commas.induct) auto

lemma sum_list_le_commas:
  assumes "\<And>x. x \<in> set xs \<Longrightarrow> c x \<le> 2 * length (g x)" and "xs \<noteq> []"
  shows "sum_list (map (\<lambda>x. Suc (c x)) xs) \<le> 2 * Suc (length (commas (map g xs)))"
proof -
  have "sum_list (map (\<lambda>x. Suc (c x)) xs) \<le> sum_list (map (\<lambda>x. 2 * Suc (length (g x))) xs)"
    using assms(1) by (intro sum_list_mono) (simp add: le_SucI)
  also have "\<dots> = 2 * sum_list (map (Suc \<circ> length) (map g xs))"
    by (induction xs) auto
  also have "\<dots> = 2 * Suc (length (commas (map g xs)))"
    using length_commas[of "map g xs"] assms(2) by simp
  finally show ?thesis .
qed

lemma jcost_le_length: "jcost j \<le> 2 * length (render j)"
proof (induction j)
  case (JInt i)
  have "1 \<le> length (digits n)" for n using digits_nonempty[of n] by (cases "digits n") auto
  then have "1 \<le> length (show_int i)" by (simp add: show_int_def)
  then show ?case by simp
next
  case (JList xs)
  show ?case
  proof (cases "xs = []")
    case False
    then show ?thesis
      using sum_list_le_commas[of xs jcost render] JList.IH by (simp add: comp_def)
  qed simp
next
  case (JObj kvs)
  let ?mem = "\<lambda>kv. show_str (fst kv) @ CHR '':'' # render (snd kv)"
  have "jcost (snd p) \<le> 2 * length (?mem p)" if "p \<in> set kvs" for p
    using JObj.IH[of p "snd p"] that by (force simp: snds.simps)
  then show ?case
    using sum_list_le_commas[of kvs "jcost \<circ> snd" ?mem]
    by (cases "kvs = []") (simp_all add: comp_def)
qed (auto simp: show_str_def)

theorem loads_dumps: "loads (dumps j) = Some (canonical j)"
  using parse_val_render[of "canonical j" "2 * length (render (canonical j))" "[]"]
    jcost_le_length[of "canonical j"]
  by (simp add: loads_def dumps_def)

lemma dumps_eq_iff: "dumps a = dumps b \<longleftrightarrow> canonical a = canonical b"
  by (metis loads_dumps dumps_def option.inject)

lemma dumps_canonical [simp]: "dumps (canonical j) = dumps j"
  by (simp add: dumps_def)

end
