(* ===== verification/PyJson.thy ===== *)
theory PyJson
  imports Json
begin

text \<open>
  Python's view of decoded JSON, as the readers of \<open>docker inspect\<close>, \<open>kubectl\<close> and the
  profile use it: truth value, \<open>x.get(key)\<close>, \<open>x or default\<close>, \<open>str\<close>, \<open>int\<close>, iteration.
  A call that raises is \<open>Inl\<close> with the exception's class. \<open>str\<close> of a list or an object is
  Python's \<open>repr\<close>, a parameter. A decoded object has distinct keys.
\<close>

datatype py_error = AttributeError | TypeError | ValueError | KeyError

definition truthy :: "json \<Rightarrow> bool" where
  "truthy v = (case v of JNull \<Rightarrow> False | JBool b \<Rightarrow> b | JInt i \<Rightarrow> i \<noteq> 0
     | JStr s \<Rightarrow> s \<noteq> [] | JList xs \<Rightarrow> xs \<noteq> [] | JObj kvs \<Rightarrow> kvs \<noteq> [])"

definition py_or :: "json \<Rightarrow> json \<Rightarrow> json" where
  "py_or x y = (if truthy x then x else y)"

definition py_get :: "string \<Rightarrow> json \<Rightarrow> py_error + json" where
  "py_get k v = (case v of
     JObj kvs \<Rightarrow> Inr (case dget kvs k of None \<Rightarrow> JNull | Some x \<Rightarrow> x)
   | _ \<Rightarrow> Inl AttributeError)"

text \<open>\<open>(x.get(k) or {})\<close>\<close>

definition py_get_obj :: "string \<Rightarrow> json \<Rightarrow> py_error + json" where
  "py_get_obj k v = bind_err (py_get k v) (\<lambda>x. Inr (py_or x (JObj [])))"

definition py_str :: "(json \<Rightarrow> string) \<Rightarrow> json \<Rightarrow> string" where
  "py_str repr v = (case v of JNull \<Rightarrow> ''None'' | JBool b \<Rightarrow> (if b then ''True'' else ''False'')
     | JInt i \<Rightarrow> show_int i | JStr s \<Rightarrow> s | _ \<Rightarrow> repr v)"

definition py_space :: "char \<Rightarrow> bool" where
  "py_space c \<longleftrightarrow> (of_char c :: nat) \<in> {9, 10, 11, 12, 13, 28, 29, 30, 31, 32, 133, 160}"

definition py_strip :: "string \<Rightarrow> string" where
  "py_strip s = rev (dropWhile py_space (rev (dropWhile py_space s)))"

text \<open>Decimal digits, single underscores between them.\<close>

fun int_digits :: "nat \<Rightarrow> string \<Rightarrow> nat option" where
  "int_digits n [] = Some n"
| "int_digits n (c # s) =
     (if is_digit c then int_digits (10 * n + digit_val c) s
      else if c = CHR ''_'' then
        (case s of [] \<Rightarrow> None
         | d # s' \<Rightarrow> if is_digit d then int_digits (10 * n + digit_val d) s' else None)
      else None)"

definition int_body :: "string \<Rightarrow> nat option" where
  "int_body s = (case s of [] \<Rightarrow> None
     | c # _ \<Rightarrow> if is_digit c then int_digits 0 s else None)"

definition int_of_string :: "string \<Rightarrow> int option" where
  "int_of_string s = (case py_strip s of
      [] \<Rightarrow> None
    | c # rest \<Rightarrow> if c = CHR ''-'' then map_option (\<lambda>n. - int n) (int_body rest)
        else if c = CHR ''+'' then map_option int (int_body rest)
        else map_option int (int_body (c # rest)))"

definition py_int :: "json \<Rightarrow> py_error + int" where
  "py_int v = (case v of JInt i \<Rightarrow> Inr i | JBool b \<Rightarrow> Inr (if b then 1 else 0)
     | JStr s \<Rightarrow> (case int_of_string s of Some i \<Rightarrow> Inr i | None \<Rightarrow> Inl ValueError)
     | _ \<Rightarrow> Inl TypeError)"

definition py_iter :: "json \<Rightarrow> py_error + json list" where
  "py_iter v = (case v of JList xs \<Rightarrow> Inr xs | JStr s \<Rightarrow> Inr (map (\<lambda>c. JStr [c]) s)
     | JObj kvs \<Rightarrow> Inr (map (JStr \<circ> fst) kvs) | _ \<Rightarrow> Inl TypeError)"

definition py_values :: "json \<Rightarrow> py_error + json list" where
  "py_values v = (case v of JObj kvs \<Rightarrow> Inr (dvals kvs) | _ \<Rightarrow> Inl AttributeError)"

definition py_items :: "json \<Rightarrow> py_error + (string \<times> json) list" where
  "py_items v = (case v of JObj kvs \<Rightarrow> Inr kvs | _ \<Rightarrow> Inl AttributeError)"

definition is_obj :: "json \<Rightarrow> bool" where
  "is_obj v \<longleftrightarrow> (case v of JObj _ \<Rightarrow> True | _ \<Rightarrow> False)"

definition json_list :: "json \<Rightarrow> json list option" where
  "json_list v = (case v of JList xs \<Rightarrow> Some xs | _ \<Rightarrow> None)"

text \<open>\<open>k in x\<close> for an object or a list or a string.\<close>

fun is_prefix :: "string \<Rightarrow> string \<Rightarrow> bool" where
  "is_prefix [] s = True"
| "is_prefix (c # p) [] = False"
| "is_prefix (c # p) (d # s) = (c = d \<and> is_prefix p s)"

fun is_substring :: "string \<Rightarrow> string \<Rightarrow> bool" where
  "is_substring p [] = (p = [])"
| "is_substring p (c # s) = (is_prefix p (c # s) \<or> is_substring p s)"

definition py_in :: "string \<Rightarrow> json \<Rightarrow> py_error + bool" where
  "py_in k v = (case v of JObj kvs \<Rightarrow> Inr (k \<in> set (dkeys kvs))
     | JList xs \<Rightarrow> Inr (JStr k \<in> set xs) | JStr s \<Rightarrow> Inr (is_substring k s)
     | _ \<Rightarrow> Inl TypeError)"

definition lower_char :: "char \<Rightarrow> char" where
  "lower_char c = (let n = (of_char c :: nat) in
     if 65 \<le> n \<and> n \<le> 90 \<or> 192 \<le> n \<and> n \<le> 222 \<and> n \<noteq> 215 then char_of (n + 32) else c)"

definition py_lower :: "string \<Rightarrow> string" where
  "py_lower s = map lower_char s"

text \<open>A set of scalars (\<open>True == 1\<close>, the first spelling stays) and its sorted list.\<close>

definition py_key :: "json \<Rightarrow> json" where
  "py_key v = (case v of JBool b \<Rightarrow> JInt (if b then 1 else 0) | _ \<Rightarrow> v)"

definition py_hashable :: "json \<Rightarrow> bool" where
  "py_hashable v \<longleftrightarrow> (case v of JList _ \<Rightarrow> False | JObj _ \<Rightarrow> False | _ \<Rightarrow> True)"

fun py_dedup :: "json list \<Rightarrow> json list" where
  "py_dedup [] = []"
| "py_dedup (x # xs) = x # filter (\<lambda>y. py_key y \<noteq> py_key x) (py_dedup xs)"

definition py_set :: "json list \<Rightarrow> py_error + json list" where
  "py_set xs = (if list_all py_hashable xs then Inr (py_dedup xs) else Inl TypeError)"

definition str_val :: "json \<Rightarrow> string option" where
  "str_val v = (case v of JStr s \<Rightarrow> Some s | _ \<Rightarrow> None)"

definition num_val :: "json \<Rightarrow> int option" where
  "num_val v = (case py_key v of JInt i \<Rightarrow> Some i | _ \<Rightarrow> None)"

definition py_sorted :: "json list \<Rightarrow> py_error + json list" where
  "py_sorted xs =
     (if list_all (\<lambda>v. str_val v \<noteq> None) xs then Inr (sort_key (\<lambda>v. the (str_val v)) xs)
      else if list_all (\<lambda>v. num_val v \<noteq> None) xs then Inr (sort_key (\<lambda>v. the (num_val v)) xs)
      else if length xs \<le> 1 then Inr xs else Inl TypeError)"

text \<open>\<open>sep.join(parts)\<close> and \<open>s.split(c)\<close> for a single character.\<close>

fun join :: "string \<Rightarrow> string list \<Rightarrow> string" where
  "join sep [] = []"
| "join sep [x] = x"
| "join sep (x # xs) = x @ sep @ join sep xs"

fun split_on :: "char \<Rightarrow> string \<Rightarrow> string list" where
  "split_on c [] = [[]]"
| "split_on c (d # s) =
     (if d = c then [] # split_on c s
      else (case split_on c s of [] \<Rightarrow> [[d]] | w # ws \<Rightarrow> (d # w) # ws))"

lemma split_on_nonempty: "split_on c s \<noteq> []"
  by (induction s) (auto split: list.split)

lemma split_on_absent: "c \<notin> set s \<Longrightarrow> split_on c s = [s]"
  by (induction s) auto

lemma split_on_append: "c \<notin> set w \<Longrightarrow> split_on c (w @ c # s) = w # split_on c s"
  by (induction w) auto

lemma split_on_join: "ws \<noteq> [] \<Longrightarrow> \<forall>w \<in> set ws. c \<notin> set w \<Longrightarrow> split_on c (join [c] ws) = ws"
proof (induction ws rule: induct_list012)
  case (3 w v ws)
  then show ?case by (simp add: split_on_append)
qed (simp_all add: split_on_absent)

lemma join_split_on: "join [c] (split_on c s) = s"
proof (induction s)
  case (Cons d s)
  obtain w ws where w: "split_on c s = w # ws" using split_on_nonempty by (cases "split_on c s") auto
  then show ?case using Cons by (cases ws) auto
qed simp

lemma split_on_parts: "w \<in> set (split_on c s) \<Longrightarrow> c \<notin> set w"
proof (induction s arbitrary: w)
  case (Cons d s)
  obtain v ws where "split_on c s = v # ws" using split_on_nonempty by (cases "split_on c s") auto
  then show ?case using Cons by (auto split: if_splits)
qed simp

fun map_err :: "('a \<Rightarrow> 'e + 'b) \<Rightarrow> 'a list \<Rightarrow> 'e + 'b list" where
  "map_err f [] = Inr []"
| "map_err f (x # xs) = bind_err (f x) (\<lambda>y. bind_err (map_err f xs) (\<lambda>ys. Inr (y # ys)))"

lemma map_err_Inr: "map_err f xs = Inr ys \<longleftrightarrow> list_all2 (\<lambda>x y. f x = Inr y) xs ys"
  by (induction xs arbitrary: ys) (auto simp: bind_err_Inr list_all2_Cons1)

end
