(* ===== verification/Residency.thy ===== *)
theory Residency
  imports PyJson
begin

text \<open>
  Strict physical residency (\<open>leasing/residency.py\<close>): which deployment containers exist, on
  which GPUs. The decoded output of \<open>docker inspect\<close> or \<open>kubectl get pods\<close> is the argument
  (\<open>None\<close> for text that is not JSON); a reader returns the snapshot, or \<open>ResidencyUnknown\<close>,
  or the Python exception that a malformed value raises.

  A deployment label is a string in Docker and Kubernetes; the model groups by its \<open>str\<close>.
\<close>

section \<open>Units\<close>

record container =
  c_id :: string
  c_deployment :: string
  c_state :: string
  c_gpus :: "int list"
  c_all_gpus :: bool
  c_service :: string
  c_fingerprint :: string
  c_labelled :: bool
  c_ips :: "string list"
  c_health :: string
  c_restart_count :: int
  c_exit_code :: "int option"
  c_restart_policy :: string
  c_restart_max :: int
  c_reason :: string
  c_message :: string
  c_started :: string
  c_ports :: string

definition warm_states :: "string list" where
  "warm_states = [''running'', ''restarting'', ''paused'']"

definition warm :: "container \<Rightarrow> bool" where
  "warm c \<longleftrightarrow> c_state c \<in> set warm_states"

definition occupies :: "container \<Rightarrow> int \<Rightarrow> bool" where
  "occupies c gpu \<longleftrightarrow> c_all_gpus c \<or> gpu \<in> set (c_gpus c)"

definition will_be_restarted :: "container \<Rightarrow> bool" where
  "will_be_restarted c \<longleftrightarrow>
     (if c_state c \<in> set warm_states then True
      else if c_restart_policy c \<in> {''always'', ''unless-stopped''} then True
      else if c_restart_policy c = ''on-failure''
        then c_restart_max c = 0 \<or> c_restart_count c < c_restart_max c
      else False)"

section \<open>Snapshots\<close>

record residency =
  r_by_deployment :: "(string, container list) dict"
  r_others :: "container list"
  r_replicated :: bool

definition units :: "residency \<Rightarrow> string \<Rightarrow> container list" where
  "units res gid = (case dget (r_by_deployment res) gid of None \<Rightarrow> [] | Some cs \<Rightarrow> cs)"

definition warm_units :: "residency \<Rightarrow> string \<Rightarrow> container list" where
  "warm_units res gid = filter warm (units res gid)"

definition is_conflicted :: "residency \<Rightarrow> string \<Rightarrow> bool" where
  "is_conflicted res gid \<longleftrightarrow> \<not> r_replicated res \<and> length (units res gid) > 1"

definition is_resident :: "residency \<Rightarrow> string \<Rightarrow> bool" where
  "is_resident res gid \<longleftrightarrow> \<not> is_conflicted res gid \<and> warm_units res gid \<noteq> []"

definition unique_unit :: "residency \<Rightarrow> string \<Rightarrow> container option" where
  "unique_unit res gid = (case units res gid of
      [c] \<Rightarrow> if warm c then Some c else None
    | _ \<Rightarrow> None)"

definition resident_gpus :: "residency \<Rightarrow> string \<Rightarrow> int list option" where
  "resident_gpus res gid =
     (if \<not> is_resident res gid then None
      else if list_ex c_all_gpus (warm_units res gid) then None
      else Some (sort (remdups (concat (map c_gpus (warm_units res gid))))))"

definition all_containers :: "residency \<Rightarrow> container list" where
  "all_containers res = concat (dvals (r_by_deployment res)) @ r_others res"

definition occupants :: "residency \<Rightarrow> int \<Rightarrow> container list" where
  "occupants res gpu = filter (\<lambda>c. occupies c gpu) (all_containers res)"

definition deployment_health :: "residency \<Rightarrow> string \<Rightarrow> string option" where
  "deployment_health res gid =
     (let us = units res gid; w = warm_units res gid in
      if us = [] then None
      else if is_conflicted res gid then Some ''conflicted''
      else if list_ex (\<lambda>u. c_state u = ''running'' \<and> c_health u \<notin> {''starting'', ''unhealthy''}) us
        then Some ''up''
      else if list_ex (\<lambda>u. c_state u = ''created''
          \<or> (c_state u = ''running'' \<and> c_health u = ''starting'')) us
        then Some ''starting''
      else if w \<noteq> [] \<and> list_all (\<lambda>u. c_state u = ''restarting'') w then Some ''restarting''
      else Some (join ''/'' (sort (remdups (map c_state us)))))"

section \<open>From docker inspect\<close>

datatype residency_error = ResidencyUnknown string | Crash py_error

definition crash :: "py_error + 'a \<Rightarrow> residency_error + 'a" where
  "crash r = (case r of Inl e \<Rightarrow> Inl (Crash e) | Inr x \<Rightarrow> Inr x)"

text \<open>\<open>(indices, all_gpus)\<close>; anything that is not an index is every GPU.\<close>

fun device_ids :: "(json \<Rightarrow> string) \<Rightarrow> json list \<Rightarrow> int list \<Rightarrow> int list option" where
  "device_ids repr [] acc = Some acc"
| "device_ids repr (raw # rest) acc =
     (case int_of_string (py_str repr raw) of
        None \<Rightarrow> None
      | Some i \<Rightarrow> device_ids repr rest (if i \<in> set acc then acc else acc @ [i]))"

fun device_requests :: "(json \<Rightarrow> string) \<Rightarrow> json list \<Rightarrow> int list \<Rightarrow> py_error + (int list \<times> bool)" where
  "device_requests repr [] acc = Inr (sort acc, False)"
| "device_requests repr (req # rest) acc =
     (if \<not> is_obj req then Inr ([], True)
      else bind_err (py_get ''DeviceIDs'' req) (\<lambda>ids.
           bind_err (py_get ''Count'' req) (\<lambda>count.
             let ids = py_or ids (JList []) in
             if \<not> truthy ids then
               (if truthy (py_or count (JInt 0)) then Inr ([], True) else device_requests repr rest acc)
             else bind_err (py_iter ids) (\<lambda>raws.
               case device_ids repr raws acc of
                 None \<Rightarrow> Inr ([], True)
               | Some acc' \<Rightarrow> device_requests repr rest acc'))))"

definition gpus_from_device_requests :: "(json \<Rightarrow> string) \<Rightarrow> json \<Rightarrow> py_error + (int list \<times> bool)" where
  "gpus_from_device_requests repr requests =
     (if \<not> truthy requests then Inr ([], False)
      else (case requests of JList reqs \<Rightarrow> device_requests repr reqs [] | _ \<Rightarrow> Inr ([], True)))"

definition port_line :: "(json \<Rightarrow> string) \<Rightarrow> string \<times> json \<Rightarrow> py_error + string list" where
  "port_line repr kv =
     bind_err (py_iter (py_or (snd kv) (JList []))) (\<lambda>bs.
     bind_err (map_err (py_get ''HostPort'') bs) (\<lambda>hosts.
     bind_err (py_set (filter truthy hosts)) (\<lambda>hosts.
     bind_err (py_sorted hosts) (\<lambda>hosts.
       Inr (map (\<lambda>h. py_str repr h @ ''->'' @ fst kv) hosts)))))"

definition published_ports :: "(json \<Rightarrow> string) \<Rightarrow> json \<Rightarrow> py_error + string" where
  "published_ports repr ports =
     bind_err (py_items (py_or ports (JObj []))) (\<lambda>items.
     bind_err (map_err (port_line repr) (sort_key fst items)) (\<lambda>ls.
       Inr (join '', '' (concat ls))))"

definition compose_project_label :: string where "compose_project_label = ''com.docker.compose.project''"
definition compose_service_label :: string where "compose_service_label = ''com.docker.compose.service''"
definition deployment_label :: string where "deployment_label = ''infer-stack.deployment''"
definition service_label :: string where "service_label = ''infer-stack.service''"
definition fingerprint_label :: string where "fingerprint_label = ''infer-stack.fingerprint''"

text \<open>One entry: \<open>None\<close> for a container of another project.\<close>

definition inspect_ips :: "(json \<Rightarrow> string) \<Rightarrow> json list \<Rightarrow> string list" where
  "inspect_ips repr nets =
     sort (List.map_filter (\<lambda>n. case n of
         JObj kvs \<Rightarrow> (case dget kvs ''IPAddress'' of
             None \<Rightarrow> None | Some ip \<Rightarrow> if truthy ip then Some (py_str repr ip) else None)
       | _ \<Rightarrow> None) nets)"

definition str_or :: "(json \<Rightarrow> string) \<Rightarrow> json \<Rightarrow> string" where
  "str_or repr v = py_str repr (py_or v (JStr []))"

definition inspect_fields ::
    "(json \<Rightarrow> string) \<Rightarrow> json \<Rightarrow> json \<Rightarrow> json \<Rightarrow> json \<Rightarrow> json \<Rightarrow> py_error + container" where
  "inspect_fields repr item labels state_obj cid state =
     bind_err (py_get deployment_label labels) (\<lambda>dep.
     bind_err (py_get_obj ''HostConfig'' item) (\<lambda>host.
     bind_err (py_get ''DeviceRequests'' host) (\<lambda>requests.
     bind_err (gpus_from_device_requests repr requests) (\<lambda>(gpus, all_gpus).
     bind_err (py_get service_label labels) (\<lambda>service.
     bind_err (py_get compose_service_label labels) (\<lambda>compose_service.
     bind_err (py_get fingerprint_label labels) (\<lambda>fingerprint.
     bind_err (py_get_obj ''Health'' state_obj) (\<lambda>health_obj.
     bind_err (py_get ''Status'' health_obj) (\<lambda>health.
     bind_err (py_get ''RestartCount'' item) (\<lambda>rc.
     bind_err (py_int (py_or rc (JInt 0))) (\<lambda>restart_count.
     bind_err (py_get_obj ''RestartPolicy'' host) (\<lambda>policy.
     bind_err (py_get ''Name'' policy) (\<lambda>policy_name.
     bind_err (py_get ''MaximumRetryCount'' policy) (\<lambda>mx.
     bind_err (py_int (py_or mx (JInt 0))) (\<lambda>restart_max.
     bind_err (py_get ''ExitCode'' state_obj) (\<lambda>ec.
     bind_err (if ec = JNull then Inr None else bind_err (py_int ec) (\<lambda>i. Inr (Some i))) (\<lambda>exit_code.
     bind_err (py_get ''StartedAt'' state_obj) (\<lambda>started.
     bind_err (py_get_obj ''NetworkSettings'' item) (\<lambda>net.
     bind_err (py_get ''Ports'' net) (\<lambda>ports.
     bind_err (published_ports repr ports) (\<lambda>port_text.
     bind_err (py_get_obj ''Networks'' net) (\<lambda>networks.
     bind_err (py_values networks) (\<lambda>nets.
       Inr \<lparr>c_id = py_str repr cid, c_deployment = str_or repr dep, c_state = py_lower (py_str repr state),
         c_gpus = gpus, c_all_gpus = all_gpus,
         c_service = py_str repr (py_or (py_or service compose_service) (JStr [])),
         c_fingerprint = str_or repr fingerprint,
         c_labelled = (truthy service \<and> truthy fingerprint),
         c_ips = inspect_ips repr nets, c_health = str_or repr health,
         c_restart_count = restart_count, c_exit_code = exit_code,
         c_restart_policy = str_or repr policy_name, c_restart_max = restart_max,
         c_reason = [], c_message = [], c_started = str_or repr started,
         c_ports = port_text\<rparr>)))))))))))))))))))))))"

definition inspect_item ::
    "(json \<Rightarrow> string) \<Rightarrow> string \<Rightarrow> json \<Rightarrow> residency_error + container option" where
  "inspect_item repr project item =
     (if \<not> is_obj item then Inl (ResidencyUnknown ''docker inspect returned a non-object entry'')
      else
        bind_err (crash (py_get_obj ''Config'' item)) (\<lambda>config.
        bind_err (crash (py_get_obj ''Labels'' config)) (\<lambda>labels.
        bind_err (crash (py_get compose_project_label labels)) (\<lambda>proj.
          if proj \<noteq> JStr project then Inr None
          else
            bind_err (crash (py_get ''Id'' item)) (\<lambda>cid.
            bind_err (crash (py_get_obj ''State'' item)) (\<lambda>state_obj.
            bind_err (crash (py_get ''Status'' state_obj)) (\<lambda>state.
              if \<not> truthy cid \<or> \<not> truthy state
                then Inl (ResidencyUnknown ''lacks an Id or State.Status'')
              else bind_err (crash (inspect_fields repr item labels state_obj cid state))
                     (\<lambda>c. Inr (Some c)))))))))"

definition add_unit :: "container \<Rightarrow> residency \<Rightarrow> residency" where
  "add_unit c res =
     (if c_deployment c \<noteq> [] then
        res\<lparr>r_by_deployment := dput (c_deployment c) (units res (c_deployment c) @ [c]) (r_by_deployment res)\<rparr>
      else res\<lparr>r_others := r_others res @ [c]\<rparr>)"

definition sorted_units :: "residency \<Rightarrow> residency" where
  "sorted_units res = res\<lparr>r_by_deployment := map (map_prod id (sort_key c_id)) (r_by_deployment res),
     r_others := sort_key c_id (r_others res)\<rparr>"

definition no_units :: "bool \<Rightarrow> residency" where
  "no_units rep = \<lparr>r_by_deployment = [], r_others = [], r_replicated = rep\<rparr>"

definition residency_from_inspect ::
    "(json \<Rightarrow> string) \<Rightarrow> string \<Rightarrow> json option \<Rightarrow> residency_error + residency" where
  "residency_from_inspect repr project data =
     (case data of
        None \<Rightarrow> Inl (ResidencyUnknown ''docker inspect output is not JSON'')
      | Some (JList items) \<Rightarrow>
          bind_err (map_err (inspect_item repr project) items) (\<lambda>found.
            Inr (sorted_units (fold add_unit (List.map_filter id found) (no_units False))))
      | Some _ \<Rightarrow> Inl (ResidencyUnknown ''docker inspect output is not a JSON array''))"

section \<open>From kubectl get pods\<close>

definition pod_deployment_label :: string where "pod_deployment_label = ''infer-stack/deployment''"
definition pod_managed_label :: string where "pod_managed_label = ''infer-stack/managed''"

definition pod_state :: "json \<Rightarrow> json \<Rightarrow> json \<Rightarrow> py_error + string" where
  "pod_state deletion current waiting =
     (if truthy deletion then Inr ''removing''
      else bind_err (py_in ''running'' current) (\<lambda>running.
        if running then Inr ''running''
        else if waiting = JStr ''CrashLoopBackOff'' then Inr ''restarting''
        else bind_err (py_in ''terminated'' current) (\<lambda>terminated.
          Inr (if terminated then ''exited'' else ''created''))))"

text \<open>The first condition whose status is \<open>False\<close> and that has a reason, or the empty object.\<close>

fun failed_condition :: "json list \<Rightarrow> py_error + json" where
  "failed_condition [] = Inr (JObj [])"
| "failed_condition (c # cs) =
     bind_err (py_get ''status'' c) (\<lambda>s.
     bind_err (py_get ''reason'' c) (\<lambda>r.
       if s = JStr ''False'' \<and> truthy r then Inr c else failed_condition cs))"

fun pod_ready :: "json list \<Rightarrow> py_error + bool" where
  "pod_ready [] = Inr False"
| "pod_ready (c # cs) =
     bind_err (py_get ''type'' c) (\<lambda>t.
     bind_err (py_get ''status'' c) (\<lambda>s.
       if t = JStr ''Ready'' \<and> s = JStr ''True'' then Inr True else pod_ready cs))"

definition pod_instance :: "(json \<Rightarrow> string) \<Rightarrow> json \<Rightarrow> py_error + container" where
  "pod_instance repr pod =
     bind_err (py_get_obj ''metadata'' pod) (\<lambda>meta.
     bind_err (py_get_obj ''labels'' meta) (\<lambda>labels.
     bind_err (py_get_obj ''status'' pod) (\<lambda>status.
     bind_err (py_get ''containerStatuses'' status) (\<lambda>sts.
     bind_err (if truthy sts then
         (case sts of JList (x # _) \<Rightarrow> Inr x | JStr (c # _) \<Rightarrow> Inr (JStr [c])
          | JObj _ \<Rightarrow> Inl KeyError | _ \<Rightarrow> Inl TypeError)
       else Inr (JObj [])) (\<lambda>first.
     bind_err (py_get_obj ''state'' first) (\<lambda>current.
     bind_err (py_get_obj ''lastState'' first) (\<lambda>last_state.
     bind_err (py_get_obj ''terminated'' last_state) (\<lambda>last_run.
     bind_err (py_get_obj ''waiting'' current) (\<lambda>waiting_obj.
     bind_err (py_get ''reason'' waiting_obj) (\<lambda>waiting_reason.
       let waiting = py_or waiting_reason (JStr []) in
     bind_err (py_get ''deletionTimestamp'' meta) (\<lambda>deletion.
     bind_err (pod_state deletion current waiting) (\<lambda>state.
     bind_err (py_get ''terminated'' current) (\<lambda>terminated.
       let ended = py_or terminated last_run in
     bind_err (py_get ''conditions'' status) (\<lambda>conds.
     bind_err (py_iter (py_or conds (JList []))) (\<lambda>conditions.
     bind_err (if \<not> truthy waiting \<and> \<not> truthy sts then
         bind_err (failed_condition conditions) (\<lambda>failed.
         bind_err (py_get ''reason'' failed) (\<lambda>r.
         bind_err (py_get ''message'' failed) (\<lambda>m. Inr (JStr (str_or repr r), str_or repr m))))
       else Inr (waiting, [])) (\<lambda>(waiting, message).
     bind_err (pod_ready conditions) (\<lambda>ready.
     bind_err (py_get ''name'' meta) (\<lambda>pod_name.
     bind_err (py_get pod_deployment_label labels) (\<lambda>dep.
     bind_err (py_get ''model'' labels) (\<lambda>model.
     bind_err (py_get pod_managed_label labels) (\<lambda>managed.
     bind_err (py_get ''restartCount'' first) (\<lambda>rc.
     bind_err (py_int (py_or rc (JInt 0))) (\<lambda>restart_count.
     bind_err (py_get ''exitCode'' ended) (\<lambda>ec.
     bind_err (if ec = JNull then Inr None else bind_err (py_int ec) (\<lambda>i. Inr (Some i))) (\<lambda>exit_code.
     bind_err (py_get ''reason'' ended) (\<lambda>ended_reason.
     bind_err (py_get_obj ''running'' current) (\<lambda>running.
     bind_err (py_get ''startedAt'' running) (\<lambda>started.
     bind_err (py_get ''startTime'' status) (\<lambda>start_time.
       Inr \<lparr>c_id = str_or repr pod_name, c_deployment = str_or repr dep, c_state = state,
         c_gpus = [], c_all_gpus = False, c_service = str_or repr model, c_fingerprint = [],
         c_labelled = (managed = JStr ''true''), c_ips = [],
         c_health = (if ready then ''healthy'' else if state = ''running'' then ''starting'' else []),
         c_restart_count = restart_count, c_exit_code = exit_code,
         c_restart_policy = ''always'', c_restart_max = 0,
         c_reason = (if truthy waiting then py_str repr waiting else str_or repr ended_reason),
         c_message = message, c_started = py_str repr (py_or (py_or started start_time) (JStr [])),
         c_ports = []\<rparr>)))))))))))))))))))))))))))))"

definition residency_from_pods :: "(json \<Rightarrow> string) \<Rightarrow> json option \<Rightarrow> residency_error + residency" where
  "residency_from_pods repr data =
     (case data of
        None \<Rightarrow> Inl (ResidencyUnknown ''kubectl get pods output is not JSON'')
      | Some v \<Rightarrow>
          (case (case v of JObj kvs \<Rightarrow> dget kvs ''items'' | _ \<Rightarrow> None) of
             Some (JList pods) \<Rightarrow>
               bind_err (crash (map_err (pod_instance repr) pods)) (\<lambda>found.
                 Inr (fold add_unit found (no_units True)))
           | _ \<Rightarrow> Inl (ResidencyUnknown ''kubectl get pods output has no items list'')))"

section \<open>Nothing is lost\<close>

lemma mset_concat_dput:
  assumes "distinct (dkeys d)"
  shows "mset (concat (dvals (dput k ((case dget d k of None \<Rightarrow> [] | Some cs \<Rightarrow> cs) @ [c]) d)))
    = add_mset c (mset (concat (dvals d)))"
  using assms
proof (induction d)
  case (Cons p d)
  obtain j cs where p: "p = (j, cs)" by (cases p)
  have "dget d k = None" if "j = k" using Cons.prems p that by (simp add: dget_None_iff dkeys_def)
  then show ?case using Cons by (auto simp: p dput_def dvals_def dget_def dkeys_def)
qed (simp add: dput_def dvals_def)

definition grouped :: "residency \<Rightarrow> bool" where
  "grouped res \<longleftrightarrow> distinct (dkeys (r_by_deployment res)) \<and>
     (\<forall>(g, cs) \<in> set (r_by_deployment res). g \<noteq> [] \<and> cs \<noteq> [] \<and> (\<forall>c \<in> set cs. c_deployment c = g))
     \<and> (\<forall>c \<in> set (r_others res). c_deployment c = [])"

lemma units_mem: "c \<in> set (units res g) \<Longrightarrow> c \<in> set (all_containers res)"
proof -
  assume "c \<in> set (units res g)"
  then obtain cs where "dget (r_by_deployment res) g = Some cs" "c \<in> set cs"
    by (cases "dget (r_by_deployment res) g") (auto simp: units_def)
  then show ?thesis using dget_SomeD by (force simp: all_containers_def dvals_def)
qed

lemma grouped_units: "grouped res \<Longrightarrow> c \<in> set (units res g) \<Longrightarrow> c_deployment c = g"
  by (cases "dget (r_by_deployment res) g") (auto simp: grouped_def units_def dest!: dget_SomeD)

lemma add_unit_grouped:
  assumes "grouped res"
  shows "grouped (add_unit c res)"
    and "mset (all_containers (add_unit c res)) = add_mset c (mset (all_containers res))"
    and "g \<noteq> [] \<Longrightarrow> units (add_unit c res) g = units res g @ (if c_deployment c = g then [c] else [])"
    and "r_replicated (add_unit c res) = r_replicated res"
proof -
  have d: "distinct (dkeys (r_by_deployment res))" using assms by (simp add: grouped_def)
  show "grouped (add_unit c res)"
    using assms grouped_units[OF assms, of _ "c_deployment c"] set_dput_distinct[OF d]
    by (auto simp: grouped_def add_unit_def)
  show "mset (all_containers (add_unit c res)) = add_mset c (mset (all_containers res))"
    using mset_concat_dput[OF d, of "c_deployment c" c] by (simp add: add_unit_def all_containers_def units_def)
  show "g \<noteq> [] \<Longrightarrow> units (add_unit c res) g = units res g @ (if c_deployment c = g then [c] else [])"
    by (auto simp: add_unit_def units_def)
  show "r_replicated (add_unit c res) = r_replicated res" by (simp add: add_unit_def)
qed

lemma fold_add_unit:
  "grouped res \<Longrightarrow> grouped (fold add_unit cs res)
    \<and> mset (all_containers (fold add_unit cs res)) = mset cs + mset (all_containers res)
    \<and> (\<forall>g. g \<noteq> [] \<longrightarrow> units (fold add_unit cs res) g = units res g @ filter (\<lambda>c. c_deployment c = g) cs)
    \<and> r_replicated (fold add_unit cs res) = r_replicated res"
proof (induction cs arbitrary: res)
  case (Cons c cs)
  note A = add_unit_grouped[OF Cons.prems]
  show ?case using Cons.IH[OF A(1)] A(2,4) A(3) by auto
qed simp

lemma grouped_no_units [simp]: "grouped (no_units rep)"
  by (simp add: grouped_def no_units_def)

lemma sorted_units_facts:
  "mset (all_containers (sorted_units res)) = mset (all_containers res)"
  "units (sorted_units res) g = sort_key c_id (units res g)"
  "grouped (sorted_units res) = grouped res"
  "r_replicated (sorted_units res) = r_replicated res"
proof -
  have v: "dvals (map (map_prod id f) d) = map f (dvals d)" "dkeys (map (map_prod id f) d) = dkeys d"
    "dget (map (map_prod id f) d) k = map_option f (dget d k)" for f :: "'a \<Rightarrow> 'b" and d :: "('k \<times> 'a) list" and k
    by (induction d) (auto simp: dvals_def dkeys_def dget_def)
  have "mset (concat (map (sort_key c_id) css)) = mset (concat css)" for css by (induction css) auto
  then show "mset (all_containers (sorted_units res)) = mset (all_containers res)"
    by (simp add: all_containers_def sorted_units_def v)
  show "units (sorted_units res) g = sort_key c_id (units res g)"
    by (simp add: units_def sorted_units_def v split: option.split)
  have "sort_key c_id cs = [] \<longleftrightarrow> cs = []" for cs :: "container list" by (metis length_sort length_0_conv)
  then show "grouped (sorted_units res) = grouped res"
    by (simp add: grouped_def sorted_units_def v case_prod_beta)
  show "r_replicated (sorted_units res) = r_replicated res" by (simp add: sorted_units_def)
qed

text \<open>
  A snapshot loses no container. If \<open>docker inspect\<close> is read at all, every container of the
  project appears exactly once in the snapshot (and no container of another project), under its own
  deployment; a deployment is conflicted exactly when two or more of them carry its label.
\<close>

theorem inspect_complete:
  assumes "residency_from_inspect repr project (Some (JList items)) = Inr res"
  shows "\<exists>found. map_err (inspect_item repr project) items = Inr found
    \<and> mset (all_containers res) = mset (List.map_filter id found)
    \<and> (\<forall>g c. c \<in> set (units res g) \<longrightarrow> c_deployment c = g)
    \<and> (\<forall>g. g \<noteq> [] \<longrightarrow> is_conflicted res g
         = (length (filter (\<lambda>c. c_deployment c = g) (List.map_filter id found)) > 1))"
proof -
  obtain found where found: "map_err (inspect_item repr project) items = Inr found"
    and res: "res = sorted_units (fold add_unit (List.map_filter id found) (no_units False))"
    using assms by (auto simp: residency_from_inspect_def bind_err_Inr)
  let ?r = "fold add_unit (List.map_filter id found) (no_units False)"
  note F = fold_add_unit[OF grouped_no_units[of False], of "List.map_filter id found"]
  have 0: "all_containers (no_units False) = []" "units (no_units False) g = []" for g
    by (simp_all add: no_units_def all_containers_def units_def dvals_def)
  have g: "grouped res" unfolding res sorted_units_facts using F by blast
  have m: "mset (all_containers res) = mset (List.map_filter id found)"
    unfolding res sorted_units_facts using F 0 by simp
  have c: "is_conflicted res g = (length (filter (\<lambda>c. c_deployment c = g) (List.map_filter id found)) > 1)"
    if "g \<noteq> []" for g
    using F that 0 by (simp add: is_conflicted_def res sorted_units_facts no_units_def)
  show ?thesis
    by (intro exI[of _ found] conjI allI impI found m) (use grouped_units[OF g] c in blast)+
qed

section \<open>Device reservations\<close>

lemma device_ids_Some:
  assumes "device_ids repr raws acc = Some acc'"
  shows "set acc' = set acc \<union> (\<lambda>raw. the (int_of_string (py_str repr raw))) ` set raws
    \<and> (distinct acc \<longrightarrow> distinct acc') \<and> (\<forall>raw \<in> set raws. int_of_string (py_str repr raw) \<noteq> None)"
  using assms
proof (induction raws arbitrary: acc)
  case (Cons raw raws)
  then obtain i where i: "int_of_string (py_str repr raw) = Some i"
    "device_ids repr raws (if i \<in> set acc then acc else acc @ [i]) = Some acc'"
    by (auto split: option.splits)
  show ?case using Cons.IH[OF i(2)] i(1) by auto
qed simp

text \<open>The indices one device request names, or \<open>None\<close> where it does not name them.\<close>

definition named_gpus :: "(json \<Rightarrow> string) \<Rightarrow> json \<Rightarrow> int set option" where
  "named_gpus repr req =
     (case (py_get ''DeviceIDs'' req, py_get ''Count'' req) of
        (Inr ids, Inr cnt) \<Rightarrow>
          if \<not> truthy ids then (if truthy cnt then None else Some {})
          else (case py_iter ids of
              Inr raws \<Rightarrow> if \<forall>raw \<in> set raws. int_of_string (py_str repr raw) \<noteq> None
                then Some ((\<lambda>raw. the (int_of_string (py_str repr raw))) ` set raws) else None
            | Inl _ \<Rightarrow> None)
      | _ \<Rightarrow> None)"

lemma truthy_py_or [simp]: "truthy (py_or v w) = (truthy v \<or> truthy w)"
  by (simp add: py_or_def)

lemma truthy_empty [simp]: "\<not> truthy (JList [])" "\<not> truthy (JObj [])" "\<not> truthy (JStr [])" "\<not> truthy (JInt 0)" "\<not> truthy JNull"
  by (simp_all add: truthy_def)

lemma device_requests_named:
  assumes "device_requests repr reqs acc = Inr (gs, False)" and "distinct acc"
  shows "sorted gs \<and> distinct gs \<and> (\<forall>req \<in> set reqs. named_gpus repr req \<noteq> None)
    \<and> set gs = set acc \<union> \<Union> ((\<lambda>req. the (named_gpus repr req)) ` set reqs)"
  using assms
proof (induction reqs arbitrary: acc)
  case (Cons req reqs)
  obtain ids cnt where g: "py_get ''DeviceIDs'' req = Inr ids" "py_get ''Count'' req = Inr cnt"
    using Cons.prems(1) by (auto simp: bind_err_Inr split: if_splits)
  show ?case
  proof (cases "truthy ids")
    case False
    then have "\<not> truthy cnt" "device_requests repr reqs acc = Inr (gs, False)"
      using Cons.prems(1) g by (auto simp: Let_def split: if_splits)
    then show ?thesis using Cons.IH[OF _ Cons.prems(2)] g False by (simp add: named_gpus_def)
  next
    case True
    then have o: "py_or ids (JList []) = ids" by (simp add: py_or_def)
    obtain raws acc' where r: "py_iter ids = Inr raws" "device_ids repr raws acc = Some acc'"
      "device_requests repr reqs acc' = Inr (gs, False)"
      using Cons.prems(1) g True by (auto simp: o bind_err_Inr split: if_splits option.splits)
    note d = device_ids_Some[OF r(2)]
    have "distinct acc'" using d Cons.prems(2) by blast
    then show ?thesis using Cons.IH[OF r(3)] d g True r(1) by (auto simp: named_gpus_def)
  qed
qed auto

lemma device_ids_None:
  "device_ids repr raws acc = None \<Longrightarrow> \<exists>raw \<in> set raws. int_of_string (py_str repr raw) = None"
  by (induction raws arbitrary: acc) (auto split: option.splits)

lemma device_requests_unnamed:
  "device_requests repr reqs acc = Inr (gs, True) \<Longrightarrow> gs = [] \<and> (\<exists>req \<in> set reqs. named_gpus repr req = None)"
proof (induction reqs arbitrary: acc)
  case (Cons req reqs)
  show ?case
  proof (cases "is_obj req")
    case False
    then have "named_gpus repr req = None"
      by (cases req) (simp_all add: named_gpus_def py_get_def is_obj_def)
    then show ?thesis using Cons.prems False by simp
  next
    case True
    then obtain ids cnt where g: "py_get ''DeviceIDs'' req = Inr ids" "py_get ''Count'' req = Inr cnt"
      using Cons.prems by (auto simp: bind_err_Inr)
    show ?thesis
    proof (cases "truthy ids")
      case False
      then show ?thesis using Cons True g by (auto simp: Let_def named_gpus_def split: if_splits)
    next
      case t: True
      then have o: "py_or ids (JList []) = ids" by (simp add: py_or_def)
      obtain raws where r: "py_iter ids = Inr raws" using Cons.prems True g t by (auto simp: o bind_err_Inr)
      show ?thesis
      proof (cases "device_ids repr raws acc")
        case None
        then have "named_gpus repr req = None" using device_ids_None[OF None] g t r by (auto simp: named_gpus_def)
        then show ?thesis using Cons.prems True g t o r None by simp
      next
        case (Some acc')
        then have "device_requests repr reqs acc' = Inr (gs, True)" using Cons.prems True g t o r by simp
        from Cons.IH[OF this] show ?thesis by auto
      qed
    qed
  qed
qed simp

text \<open>
  GPUs are never guessed. A device reservation is reported as a list of indices exactly if every
  request in it names its devices by index, and then the list is the sorted set of the named
  indices; otherwise the container is reported as occupying every GPU.
\<close>

theorem device_requests_exact:
  assumes "gpus_from_device_requests repr (JList reqs) = Inr (gs, every)"
  shows "every = (\<exists>req \<in> set reqs. named_gpus repr req = None)
    \<and> (if every then gs = [] else sorted gs \<and> distinct gs
        \<and> set gs = \<Union> ((\<lambda>req. the (named_gpus repr req)) ` set reqs))"
proof (cases "reqs = []")
  case True
  then show ?thesis using assms by (auto simp: gpus_from_device_requests_def)
next
  case False
  then have r: "device_requests repr reqs [] = Inr (gs, every)"
    using assms by (simp add: gpus_from_device_requests_def truthy_def)
  show ?thesis
  proof (cases every)
    case True
    then show ?thesis using device_requests_unnamed[of repr reqs "[]" gs] r by simp
  next
    case False
    then show ?thesis using device_requests_named[of repr reqs "[]" gs] r by simp
  qed
qed

section \<open>Serving and residency\<close>

definition unit_states :: "string list" where
  "unit_states = warm_states @ [''created'', ''exited'', ''removing'', ''dead'']"

lemma join_states:
  assumes "xs \<noteq> []" and "set xs \<subseteq> set unit_states"
  shows "xs = [join ''/'' xs] \<or> CHR ''/'' \<in> set (join ''/'' xs)"
proof (cases xs)
  case (Cons x ys)
  then show ?thesis using assms by (cases ys) auto
qed (use assms in simp)

lemma other_health:
  assumes "us \<noteq> []" and "c_state ` set us \<subseteq> set unit_states" and "\<forall>u \<in> set us. c_state u \<noteq> h"
    and "CHR ''/'' \<notin> set h"
  shows "join ''/'' (sort (remdups (map c_state us))) \<noteq> h"
proof -
  let ?xs = "sort (remdups (map c_state us))"
  have s: "set ?xs = c_state ` set us" by simp
  then have "?xs \<noteq> []" using assms(1) by (metis image_is_empty set_empty)
  from join_states[OF this] s assms(2) have "?xs = [join ''/'' ?xs] \<or> CHR ''/'' \<in> set (join ''/'' ?xs)" by simp
  then show ?thesis
  proof
    assume "?xs = [join ''/'' ?xs]"
    then have "join ''/'' ?xs \<in> c_state ` set us" using s by (metis list.set_intros(1))
    then show ?thesis using assms(3) by auto
  qed (use assms(4) in auto)
qed

text \<open>
  Health agrees with residency. A deployment reported as \<open>up\<close> or \<open>restarting\<close> is resident; it
  is \<open>restarting\<close> only if it has a restarting unit and none that runs and is not unhealthy; and it
  has no health exactly when it has no unit. (Unit states are the seven of Docker, to which the pod
  states are mapped.)
\<close>

theorem health_agrees:
  assumes "c_state ` set (units res g) \<subseteq> set unit_states"
  shows "(deployment_health res g = Some ''up'' \<longrightarrow> is_resident res g)
    \<and> (deployment_health res g = Some ''restarting'' \<longrightarrow> is_resident res g
        \<and> (\<forall>u \<in> set (warm_units res g). c_state u = ''restarting'')
        \<and> (\<exists>u \<in> set (units res g). c_state u = ''restarting''))
    \<and> (deployment_health res g = None \<longleftrightarrow> units res g = [])"
proof -
  let ?us = "units res g" and ?w = "warm_units res g"
  let ?run = "list_ex (\<lambda>u. c_state u = ''running'' \<and> c_health u \<notin> {''starting'', ''unhealthy''}) ?us"
  let ?start = "list_ex (\<lambda>u. c_state u = ''created'' \<or> (c_state u = ''running'' \<and> c_health u = ''starting'')) ?us"
  let ?re = "?w \<noteq> [] \<and> list_all (\<lambda>u. c_state u = ''restarting'') ?w"
  have upst: "''up'' \<notin> set unit_states" by (simp add: unit_states_def warm_states_def)
  have A: "is_resident res g" if "deployment_health res g = Some ''up''"
  proof -
    have ne: "?us \<noteq> []" "\<not> is_conflicted res g"
      using that by (auto simp: deployment_health_def Let_def split: if_splits)
    have "join ''/'' (sort (remdups (map c_state ?us))) \<noteq> ''up''"
      by (rule other_health[OF ne(1) assms]) (use assms upst in auto)
    then have "?run" using that ne by (auto simp: deployment_health_def Let_def split: if_splits)
    then obtain u where "u \<in> set ?us" "c_state u = ''running''" by (auto simp: list_ex_iff)
    then have "u \<in> set ?w" by (simp add: warm_units_def warm_def warm_states_def)
    then show ?thesis using ne(2) by (auto simp: is_resident_def)
  qed
  have B: "is_resident res g \<and> (\<forall>u \<in> set ?w. c_state u = ''restarting'')
      \<and> (\<exists>u \<in> set ?us. c_state u = ''restarting'')" if "deployment_health res g = Some ''restarting''"
  proof -
    have ne: "?us \<noteq> []" "\<not> is_conflicted res g"
      using that by (auto simp: deployment_health_def Let_def split: if_splits)
    have "?re"
    proof (rule ccontr)
      assume n: "\<not> ?re"
      then have e: "join ''/'' (sort (remdups (map c_state ?us))) = ''restarting''" and r: "\<not> ?run" "\<not> ?start"
        using that ne unfolding deployment_health_def Let_def by (auto split: if_splits)
      have "\<exists>u \<in> set ?us. c_state u = ''restarting''"
        using other_health[OF ne(1) assms, of "''restarting''"] e by auto
      then have w: "?w \<noteq> []" by (auto simp: warm_units_def warm_def warm_states_def filter_empty_conv)
      let ?xs = "sort (remdups (map c_state ?us))"
      have xs: "set ?xs = c_state ` set ?us" by simp
      then have "?xs \<noteq> []" using ne(1) by (metis image_is_empty set_empty)
      then have "?xs = [''restarting''] \<or> CHR ''/'' \<in> set ''restarting''"
        using join_states[of ?xs] xs assms e by metis
      then have "c_state ` set ?us = {''restarting''}" using xs by auto
      then have "list_all (\<lambda>u. c_state u = ''restarting'') ?w"
        by (auto simp: list_all_iff warm_units_def)
      then show False using n w by blast
    qed
    then have "?w \<noteq> []" "\<forall>u \<in> set ?w. c_state u = ''restarting''" by (auto simp: list_all_iff)
    moreover have "set ?w \<subseteq> set ?us" by (auto simp: warm_units_def)
    moreover obtain u where "u \<in> set ?w" using \<open>?w \<noteq> []\<close> by (meson hd_in_set)
    ultimately show ?thesis using ne(2) by (auto simp: is_resident_def)
  qed
  have "deployment_health res g = None \<longleftrightarrow> ?us = []" by (simp add: deployment_health_def Let_def)
  then show ?thesis using A B by blast
qed


section \<open>A small host\<close>

text \<open>Two containers of one deployment, one on GPU 1 and one with a counted reservation.\<close>

definition demo_item :: "string \<Rightarrow> string \<Rightarrow> json \<Rightarrow> json" where
  "demo_item cid gid requests = JObj [(''Id'', JStr cid), (''State'', JObj [(''Status'', JStr ''running'')]),
     (''Config'', JObj [(''Labels'', JObj [(compose_project_label, JStr ''p''), (deployment_label, JStr gid)])]),
     (''HostConfig'', JObj [(''DeviceRequests'', requests)])]"

definition demo_requests :: "json list" where
  "demo_requests = [JObj [(''Count'', JInt 0), (''DeviceIDs'', JList [JStr ''1'', JStr ''0''])]]"

definition demo_items :: "json list" where
  "demo_items = [demo_item ''c2'' ''g'' (JList demo_requests),
     demo_item ''c1'' ''g'' (JList [JObj [(''Count'', JInt 2)]])]"

definition demo_residency :: residency where
  "demo_residency = (case residency_from_inspect dumps ''p'' (Some (JList demo_items)) of
     Inr res \<Rightarrow> res | Inl _ \<Rightarrow> no_units False)"

lemma demo_residency: "residency_from_inspect dumps ''p'' (Some (JList demo_items)) = Inr demo_residency"
proof -
  have "\<not> isl (residency_from_inspect dumps ''p'' (Some (JList demo_items)))" by code_simp
  then show ?thesis by (cases "residency_from_inspect dumps ''p'' (Some (JList demo_items))")
    (simp_all add: demo_residency_def)
qed

theorem inspect_complete_witness: "is_conflicted demo_residency ''g''"
proof -
  have "(case map_err (inspect_item dumps ''p'') demo_items of
      Inr found \<Rightarrow> length (filter (\<lambda>c. c_deployment c = ''g'') (List.map_filter id found)) > 1 | Inl _ \<Rightarrow> False)"
    by code_simp
  then show ?thesis using inspect_complete[OF demo_residency] by (auto split: sum.splits)
qed

theorem device_requests_exact_witness: "\<Union> ((\<lambda>req. the (named_gpus dumps req)) ` set demo_requests) = set [0, 1]"
proof -
  have "gpus_from_device_requests dumps (JList demo_requests) = Inr ([0, 1], False)" by code_simp
  from device_requests_exact[OF this] show ?thesis by simp
qed

definition demo_pod :: residency where
  "demo_pod = add_unit (((hd (all_containers demo_residency))\<lparr>c_state := ''restarting''\<rparr>)) (no_units True)"

theorem health_agrees_witness: "is_resident demo_pod ''g''"
proof -
  have "c_state ` set (units demo_pod ''g'') \<subseteq> set unit_states"
    and "deployment_health demo_pod ''g'' = Some ''restarting''" by code_simp+
  then show ?thesis using health_agrees[of demo_pod "''g''"] by blast
qed

end
