(* ===== verification/Models.thy ===== *)
theory Models
  imports Json
begin

text \<open>
  The data model of the ledger (\<open>leasing/models.py\<close>): lease and deployment records, the
  requests a catalog resolves to, structural identity and capacity subsumption.

  A deployment's \<open>spec\<close> is an open dictionary in the code; here it is a record of the keys
  the modelled code reads, an absent key (or \<open>None\<close>) being \<open>None\<close>. \<open>x or d\<close> on an optional
  number treats 0 like \<open>None\<close> (\<open>or_int\<close>, \<open>or_rat\<close>), on an optional string the empty string
  (\<open>or_str\<close>). \<open>hashlib.sha256\<close> is the parameter \<open>sha\<close>: a digest of a text.
\<close>

section \<open>Python truthiness\<close>

definition or_int :: "int option \<Rightarrow> int \<Rightarrow> int" where
  "or_int v d = (case v of None \<Rightarrow> d | Some n \<Rightarrow> if n = 0 then d else n)"

definition or_rat :: "rat option \<Rightarrow> rat \<Rightarrow> rat" where
  "or_rat v d = (case v of None \<Rightarrow> d | Some n \<Rightarrow> if n = 0 then d else n)"

definition or_str :: "string option \<Rightarrow> string \<Rightarrow> string" where
  "or_str v d = (case v of None \<Rightarrow> d | Some s \<Rightarrow> if s = [] then d else s)"

definition or_list :: "'a list option \<Rightarrow> 'a list" where
  "or_list v = (case v of None \<Rightarrow> [] | Some xs \<Rightarrow> xs)"

section \<open>States and policies\<close>

datatype lease_state = Active | Expired | Released

datatype deployment_state = Live | Idle | Reclaiming | Stopped

definition SHARED :: string where "SHARED = ''shared-compatible''"
definition DEDICATED :: string where "DEDICATED = ''dedicated''"
definition RESERVED_ENGINE :: string where "RESERVED_ENGINE = ''reserved''"
definition RESERVED_ENDPOINT :: string where "RESERVED_ENDPOINT = ''reserved-gpu''"

lemma sharing_distinct [simp]: "SHARED \<noteq> DEDICATED" "DEDICATED \<noteq> SHARED"
  by (simp_all add: SHARED_def DEDICATED_def)

section \<open>Records\<close>

record runtime_spec =
  rt_tp :: "int option"
  rt_pp :: "int option"
  rt_dp :: "int option"
  rt_simulator :: bool
  rt_cpu_only :: bool
  rt_gpu_indices :: "int list option"

record placement_spec =
  pl_gpu_indices :: "int list option"
  pl_min_vram :: "rat option"
  pl_floor_vram :: "rat option"
  pl_source :: "string option"

record dep_spec =
  sp_engine :: "string option"
  sp_served_model_name :: "string option"
  sp_host :: "string option"
  sp_reserved_gpu_count :: "int option"
  sp_gpu_indices :: "int list option"
  sp_reclaim :: "string option"
  sp_runtime :: "runtime_spec option"
  sp_placement :: "placement_spec option"

type_synonym capacity = "(string, int) dict"
type_synonym payload = json
type_synonym served = "(string, payload) dict"

record endpoint_request =
  req_endpoint :: string
  req_engine :: string
  req_structural :: json
  req_capacity :: capacity
  req_sharing :: string
  req_spec :: dep_spec
  req_served :: payload
  req_host :: "string option"

record lease =
  lease_id :: string
  lease_owner :: string
  lease_state :: lease_state
  lease_created_at :: rat
  lease_ttl_seconds :: "rat option"
  lease_expires_at :: "rat option"
  lease_heartbeat_at :: rat
  lease_endpoints :: "string list"
  lease_deployment_ids :: "string list"

record deployment =
  dep_id :: string
  dep_compat_key :: string
  dep_engine :: string
  dep_sharing :: string
  dep_capacity :: capacity
  dep_spec :: dep_spec
  dep_served :: served
  dep_state :: deployment_state
  dep_created_at :: rat
  dep_updated_at :: rat
  dep_demand :: nat
  dep_assigned_gpus :: "int list option"

section \<open>Operations\<close>

definition served_name :: "deployment \<Rightarrow> string" where
  "served_name d = or_str (sp_served_model_name (dep_spec d))
     (if dep_served d = [] then dep_id d else hd (sort (dkeys (dep_served d))))"

definition is_reservation_engine :: "string \<Rightarrow> bool" where
  "is_reservation_engine engine \<longleftrightarrow> engine = RESERVED_ENGINE"

definition is_protecting :: "lease \<Rightarrow> rat \<Rightarrow> bool" where
  "is_protecting le now \<longleftrightarrow>
     lease_state le = Active \<and>
     (case lease_expires_at le of None \<Rightarrow> True | Some t \<Rightarrow> now < t)"

text \<open>Structural identity: the payload that is hashed, and the digest.\<close>

definition compat_payload :: "string \<Rightarrow> json \<Rightarrow> json" where
  "compat_payload engine structural =
     JObj [(''engine'', JStr engine), (''structural'', canonical structural)]"

definition compatibility_key :: "(string \<Rightarrow> string) \<Rightarrow> string \<Rightarrow> json \<Rightarrow> string" where
  "compatibility_key sha engine structural = take 16 (sha (dumps (compat_payload engine structural)))"

definition compat_key :: "(string \<Rightarrow> string) \<Rightarrow> endpoint_request \<Rightarrow> string" where
  "compat_key sha r = compatibility_key sha (req_engine r) (req_structural r)"

definition opt_str :: "string option \<Rightarrow> json" where
  "opt_str v = (case v of None \<Rightarrow> JNull | Some s \<Rightarrow> JStr s)"

definition opt_int :: "int option \<Rightarrow> json" where
  "opt_int v = (case v of None \<Rightarrow> JNull | Some i \<Rightarrow> JInt i)"

record vllm_args =
  va_model_ref :: string
  va_revision :: "string option"
  va_quantization :: "string option"
  va_dtype :: "string option"
  va_tp :: int
  va_pp :: int
  va_dp :: int
  va_image :: "string option"
  va_chat_template :: "string option"
  va_trust_remote_code :: bool
  va_lora_adapters :: "string list option"
  va_attention_backend :: "string option"
  va_served_name :: "string option"
  va_gpu_indices :: "int list option"
  va_launch :: "(string, json) dict option"

definition vllm_structural :: "vllm_args \<Rightarrow> json" where
  "vllm_structural a = JObj (
     [(''engine'', JStr ''vllm''),
      (''model_ref'', JStr (va_model_ref a)),
      (''revision'', opt_str (va_revision a)),
      (''quantization'', opt_str (va_quantization a)),
      (''dtype'', opt_str (va_dtype a)),
      (''tensor_parallel_size'', JInt (va_tp a)),
      (''pipeline_parallel_size'', JInt (va_pp a)),
      (''data_parallel_size'', JInt (va_dp a)),
      (''image'', opt_str (va_image a)),
      (''chat_template'', opt_str (va_chat_template a)),
      (''trust_remote_code'', JBool (va_trust_remote_code a)),
      (''lora_adapters'', JList (map JStr (sort (or_list (va_lora_adapters a))))),
      (''attention_backend'', opt_str (va_attention_backend a)),
      (''served_name'', JStr (or_str (va_served_name a) (va_model_ref a)))]
     @ (if or_list (va_gpu_indices a) = [] then []
        else [(''gpu_indices'', JList (map JInt (or_list (va_gpu_indices a))))])
     @ (if or_list (va_launch a) = [] then []
        else [(''launch'', JObj (or_list (va_launch a)))]))"

record ollama_args =
  oa_host :: string
  oa_gpu_indices :: "int list option"
  oa_keep_alive :: "string option"
  oa_num_parallel :: "int option"
  oa_max_loaded_models :: "int option"
  oa_model_store :: "string option"

definition ollama_structural :: "ollama_args \<Rightarrow> json" where
  "ollama_structural a = JObj
     [(''engine'', JStr ''ollama''),
      (''host'', JStr (oa_host a)),
      (''gpu_indices'', JList (map JInt (or_list (oa_gpu_indices a)))),
      (''keep_alive'', opt_str (oa_keep_alive a)),
      (''num_parallel'', opt_int (oa_num_parallel a)),
      (''max_loaded_models'', opt_int (oa_max_loaded_models a)),
      (''model_store'', opt_str (oa_model_store a))]"

fun capacity_satisfies :: "capacity \<Rightarrow> capacity \<Rightarrow> bool" where
  "capacity_satisfies existing [] = True"
| "capacity_satisfies existing ((key, need) # rest) =
     (case dget existing key of
        None \<Rightarrow> False
      | Some have0 \<Rightarrow> if have0 < need then False else capacity_satisfies existing rest)"

definition empty_spec :: dep_spec where
  "empty_spec = \<lparr>sp_engine = None, sp_served_model_name = None, sp_host = None,
     sp_reserved_gpu_count = None, sp_gpu_indices = None, sp_reclaim = None,
     sp_runtime = None, sp_placement = None\<rparr>"

definition reservation_request :: "int \<Rightarrow> string \<Rightarrow> endpoint_request" where
  "reservation_request gpu_count endpoint =
     (let n = max 1 gpu_count in
      \<lparr>req_endpoint = endpoint,
       req_engine = RESERVED_ENGINE,
       req_structural = JObj [(''engine'', JStr RESERVED_ENGINE), (''reserved_gpu_count'', JInt n)],
       req_capacity = [],
       req_sharing = DEDICATED,
       req_spec = empty_spec\<lparr>sp_engine := Some RESERVED_ENGINE,
                             sp_reserved_gpu_count := Some n,
                             sp_reclaim := Some ''reclaim''\<rparr>,
       req_served = JObj [],
       req_host = None\<rparr>)"

section \<open>Capacity subsumption is a preorder\<close>

lemma capacity_satisfies_iff:
  "capacity_satisfies have0 want \<longleftrightarrow>
     (\<forall>(k, need) \<in> set want. \<exists>h. dget have0 k = Some h \<and> need \<le> h)"
  by (induction have0 want rule: capacity_satisfies.induct) (auto split: option.splits)

lemma capacity_satisfies_refl:
  "distinct (dkeys c) \<Longrightarrow> capacity_satisfies c c"
  by (auto simp: capacity_satisfies_iff dget_distinct)

lemma capacity_satisfies_trans:
  assumes "capacity_satisfies a b" and "capacity_satisfies b c"
  shows "capacity_satisfies a c"
  using assms by (fastforce simp: capacity_satisfies_iff dest: dget_SomeD)

section \<open>Canonical objects are compared key by key\<close>

lemma distinct_map_sort_key:
  "distinct (map f (sort_key g xs)) = distinct (map f xs)"
  by (rule mset_eq_imp_distinct_iff) (simp add: mset_map)

lemma map_of_sort_key_fst:
  "distinct (map fst kvs) \<Longrightarrow> map_of (sort_key fst kvs) = map_of kvs"
  by (subst map_of_inject_set) (auto simp: distinct_map_sort_key)

lemma map_fst_map_prod_id [simp]: "map fst (map (map_prod id f) kvs) = map fst kvs"
  by (induction kvs) auto

lemma map_of_map_prod_id: "map_of (map (map_prod id f) kvs) k = map_option f (map_of kvs k)"
  by (induction kvs) auto

lemma canonical_obj_eq_iff:
  assumes a: "distinct (map fst xs)" and b: "distinct (map fst ys)"
  shows "canonical (JObj xs) = canonical (JObj ys) \<longleftrightarrow>
     (\<forall>k. map_option canonical (map_of xs k) = map_option canonical (map_of ys k))"
proof -
  let ?c = "map (map_prod id canonical)"
  have da: "distinct (map fst (?c xs))" and db: "distinct (map fst (?c ys))"
    using a b by (simp_all only: map_fst_map_prod_id)
  have "sort_key fst (?c xs) = sort_key fst (?c ys) \<longleftrightarrow> map_of (?c xs) = map_of (?c ys)"
  proof
    assume "sort_key fst (?c xs) = sort_key fst (?c ys)"
    then show "map_of (?c xs) = map_of (?c ys)"
      using map_of_sort_key_fst[OF da] map_of_sort_key_fst[OF db] by metis
  next
    assume "map_of (?c xs) = map_of (?c ys)"
    then have "set (?c xs) = set (?c ys)" using map_of_inject_set[OF da db] by blast
    then have m: "mset (?c xs) = mset (?c ys)"
      using da db by (metis distinct_map set_eq_iff_mset_eq_distinct)
    show "sort_key fst (?c xs) = sort_key fst (?c ys)"
      by (rule sort_key_eq_sort_key[OF m]) (use da distinct_map in blast)
  qed
  then show ?thesis
    by (simp add: fun_eq_iff map_of_map_prod_id)
qed

section \<open>What the compatibility key distinguishes\<close>

text \<open>The digested text determines the engine and the canonical structure, and is determined by them.\<close>

lemma compat_payload_eq_iff:
  "dumps (compat_payload e1 s1) = dumps (compat_payload e2 s2)
   \<longleftrightarrow> e1 = e2 \<and> canonical s1 = canonical s2"
  unfolding dumps_eq_iff compat_payload_def
  by (subst canonical_obj_eq_iff) (auto simp: all_conj_distrib split: if_splits)

text \<open>
  The fields of a vLLM endpoint that make up its identity. The LoRA adapters count as a
  multiset, a missing served name as the model reference, empty pins and launch
  dictionaries as absent.
\<close>

definition vllm_identity :: "vllm_args \<Rightarrow> _" where
  "vllm_identity a =
     ((va_model_ref a, va_revision a, va_quantization a, va_dtype a),
      (va_tp a, va_pp a, va_dp a, va_image a, va_chat_template a, va_trust_remote_code a),
      mset (or_list (va_lora_adapters a)), va_attention_backend a,
      or_str (va_served_name a) (va_model_ref a),
      or_list (va_gpu_indices a), canonical (JObj (or_list (va_launch a))))"

lemma opt_str_inj [simp]: "opt_str a = opt_str b \<longleftrightarrow> a = b"
  by (auto simp: opt_str_def split: option.splits)

lemma canonical_opt_str [simp]: "canonical (opt_str a) = opt_str a"
  by (simp add: opt_str_def split: option.split)

lemma canonical_map_leaf [simp]:
  "map (canonical \<circ> JStr) ss = map JStr ss" "map (canonical \<circ> JInt) is = map JInt is"
  by (simp_all add: comp_def)

lemma sort_eq_iff_mset: "sort xs = sort ys \<longleftrightarrow> mset xs = mset ys"
  by (metis mset_sort sort_key_eq_sort_key inj_on_id2)

lemma sort_key_Nil_iff [simp]: "sort_key f xs = [] \<longleftrightarrow> xs = []"
  by (metis length_0_conv length_sort)

lemma canonical_JList_leaf [simp]:
  "canonical (JList (map JStr ss)) = JList (map JStr ss)"
  "canonical (JList (map JInt ns)) = JList (map JInt ns)"
  by simp_all

lemma map_JStr_inj [simp]: "map JStr xs = map JStr ys \<longleftrightarrow> xs = ys"
  by (simp add: inj_map_eq_map inj_def)

lemma map_JInt_inj [simp]: "map JInt xs = map JInt ys \<longleftrightarrow> xs = ys"
  by (simp add: inj_map_eq_map inj_def)

lemma vllm_structural_distinct:
  "\<exists>kvs. vllm_structural a = JObj kvs \<and> distinct (map fst kvs)"
  by (simp add: vllm_structural_def)

lemma vllm_canonical_iff:
  "canonical (vllm_structural a) = canonical (vllm_structural b) \<longleftrightarrow>
     vllm_identity a = vllm_identity b" (is "?L \<longleftrightarrow> ?R")
proof
  assume ?R
  then have eqs: "sort (or_list (va_lora_adapters a)) = sort (or_list (va_lora_adapters b))"
    "or_list (va_gpu_indices a) = or_list (va_gpu_indices b)"
    "or_list (va_launch a) = [] \<longleftrightarrow> or_list (va_launch b) = []"
    "canonical (JObj (or_list (va_launch a))) = canonical (JObj (or_list (va_launch b)))"
    by (auto simp: vllm_identity_def sort_eq_iff_mset dest: arg_cong[where f = length])
  show ?L
    unfolding vllm_structural_def
    by (subst canonical_obj_eq_iff)
       (use \<open>?R\<close> eqs in \<open>auto simp: vllm_identity_def simp del: canonical.simps(6)\<close>)
next
  assume ?L
  then have k: "map_option canonical (map_of xs k) = map_option canonical (map_of ys k)"
    if "vllm_structural a = JObj xs" "vllm_structural b = JObj ys" for xs ys k
    using that vllm_structural_distinct canonical_obj_eq_iff
    by (metis json.inject(5))
  note at = k[unfolded vllm_structural_def, OF refl refl]
  show ?R
    using at[of "''model_ref''"] at[of "''revision''"] at[of "''quantization''"] at[of "''dtype''"]
      at[of "''tensor_parallel_size''"] at[of "''pipeline_parallel_size''"]
      at[of "''data_parallel_size''"] at[of "''image''"] at[of "''chat_template''"]
      at[of "''trust_remote_code''"] at[of "''lora_adapters''"] at[of "''attention_backend''"]
      at[of "''served_name''"] at[of "''gpu_indices''"] at[of "''launch''"]
    by (auto simp: vllm_identity_def sort_eq_iff_mset simp del: canonical.simps(6) split: if_splits)
qed

section \<open>Properties\<close>

text \<open>
  Compatibility keys identify structure. For any two vLLM endpoints, the text that
  \<open>compatibility_key\<close> digests is the same exactly when their identity fields agree: model,
  revision, quantization, dtype, parallelism, image, template, remote code, adapters (as a
  multiset), attention backend, effective served name, pinned GPUs and launch recipe (up to
  the order of its keys).
\<close>

theorem vllm_key_identity:
  "dumps (compat_payload ''vllm'' (vllm_structural a)) = dumps (compat_payload ''vllm'' (vllm_structural b))
   \<longleftrightarrow> vllm_identity a = vllm_identity b"
  by (simp add: compat_payload_eq_iff vllm_canonical_iff)

end
