(* ===== verification/Placement.thy ===== *)
theory Placement
  imports Models
begin

text \<open>
  Single-host GPU placement (\<open>leasing/placement.py\<close> and the pool primitives of
  \<open>hardware.py\<close>).

  \<open>plan_placement\<close> runs its loops in the order of the code: the admission pass over
  committed allocations, pinned deployments, explicit placements, first-fit/best-fit, and
  optional residents. Each loop is a recursive function over the deployment list that
  threads the planner's mutable state: the plan under construction and the set of used
  GPUs. Error and warning texts are values that carry the numbers the texts print.
\<close>

section \<open>The inventory\<close>

record gpu =
  gpu_index :: int
  gpu_memory_gib :: "rat option"
  gpu_display_active :: bool

type_synonym inventory = "gpu list"

definition available_gpu_indices :: "inventory \<Rightarrow> bool \<Rightarrow> int list" where
  "available_gpu_indices inventory reserve_display =
     (if reserve_display then map gpu_index (filter (\<lambda>g. \<not> gpu_display_active g) inventory)
      else map gpu_index inventory)"

datatype placement_reason =
    ExplicitFailed "int list" "int list"
  | NeverSatisfied nat rat nat "int list"
  | NotEnoughFree nat rat nat
  | NeedGpus nat nat

definition first_fit :: "int list \<Rightarrow> nat \<Rightarrow> int list \<times> placement_reason option" where
  "first_fit available n =
     (if length available < n then (available, Some (NeedGpus n (length available)))
      else (take n available, None))"

definition available_indices ::
    "inventory \<Rightarrow> int list option \<Rightarrow> int list \<Rightarrow> bool \<Rightarrow> int list" where
  "available_indices inventory allowed_gpus reserved skip_display =
     (let indices = available_gpu_indices inventory skip_display;
          indices = (case allowed_gpus of None \<Rightarrow> indices
                     | Some allowed \<Rightarrow> filter (\<lambda>i. i \<in> set allowed) indices)
      in filter (\<lambda>i. i \<notin> set reserved) indices)"

definition memory_map :: "inventory \<Rightarrow> int \<Rightarrow> rat" where
  "memory_map inventory i =
     (case map_of (rev (map (\<lambda>g. (gpu_index g, or_rat (gpu_memory_gib g) 0)) inventory)) i of
        None \<Rightarrow> 0 | Some m \<Rightarrow> m)"

section \<open>What a deployment needs\<close>

definition OLLAMA :: string where "OLLAMA = ''ollama''"

definition default_runtime :: runtime_spec where
  "default_runtime = \<lparr>rt_tp = None, rt_pp = None, rt_dp = None, rt_simulator = False,
     rt_cpu_only = False, rt_gpu_indices = None\<rparr>"

definition default_placement :: placement_spec where
  "default_placement = \<lparr>pl_gpu_indices = None, pl_min_vram = None, pl_floor_vram = None,
     pl_source = None\<rparr>"

definition runtime_of :: "deployment \<Rightarrow> runtime_spec" where
  "runtime_of d = (case sp_runtime (dep_spec d) of None \<Rightarrow> default_runtime | Some r \<Rightarrow> r)"

definition placement_of :: "deployment \<Rightarrow> placement_spec" where
  "placement_of d = (case sp_placement (dep_spec d) of None \<Rightarrow> default_placement | Some p \<Rightarrow> p)"

definition required_gpu_count :: "deployment \<Rightarrow> nat" where
  "required_gpu_count d =
     (let reserved = or_int (sp_reserved_gpu_count (dep_spec d)) 0 in
      if reserved \<noteq> 0 then nat (max 1 reserved)
      else
        (let runtime = runtime_of d in
         if rt_simulator runtime \<or> rt_cpu_only runtime then 0
         else
           (let tp = or_int (rt_tp runtime) 1;
                pp = or_int (rt_pp runtime) 1;
                dp = or_int (rt_dp runtime) 1
            in nat (max 1 (tp * pp * dp)))))"

definition weight_shard_count :: "deployment \<Rightarrow> nat" where
  "weight_shard_count d =
     (if or_int (sp_reserved_gpu_count (dep_spec d)) 0 \<noteq> 0 then 1
      else
        (let runtime = runtime_of d;
             tp = or_int (rt_tp runtime) 1;
             pp = or_int (rt_pp runtime) 1
         in nat (max 1 (tp * pp))))"

definition explicit_indices :: "deployment \<Rightarrow> int list option" where
  "explicit_indices d =
     (let spec = dep_spec d in
      if sp_engine spec = Some OLLAMA then Some (or_list (sp_gpu_indices spec))
      else if or_list (pl_gpu_indices (placement_of d)) \<noteq> []
        then Some (or_list (pl_gpu_indices (placement_of d)))
      else if or_list (rt_gpu_indices (runtime_of d)) \<noteq> []
        then Some (or_list (rt_gpu_indices (runtime_of d)))
      else None)"

definition declared_min_vram :: "deployment \<Rightarrow> rat" where
  "declared_min_vram d = or_rat (pl_min_vram (placement_of d)) 0"

definition min_vram_per_gpu :: "deployment \<Rightarrow> rat" where
  "min_vram_per_gpu d =
     (let placement = placement_of d;
          floor_gib = or_rat (pl_floor_vram placement) 0 / of_nat (weight_shard_count d);
          measured = or_rat (pl_min_vram placement) 0
      in if pl_source placement = Some ''measured'' \<and> measured > 0 then measured
         else max (declared_min_vram d) floor_gib)"

section \<open>The plan and the planner's state\<close>

datatype honored = Pinned | Explicit

record plan_warning =
  pw_dep :: string
  pw_kind :: honored
  pw_want :: "int list"
  pw_req :: rat
  pw_below :: "(int \<times> rat) list"

type_synonym plan_error = "string \<times> placement_reason"

record gpu_plan =
  gp_assignments :: "(string, int list) dict"
  gp_errors :: "plan_error list"
  gp_warnings :: "plan_warning list"
  gp_degraded :: "string list"
  gp_displaced :: "string list"

record planner =
  pn_plan :: gpu_plan
  pn_used :: "int list"

definition plan_ok :: "gpu_plan \<Rightarrow> bool" where
  "plan_ok p \<longleftrightarrow> gp_errors p = []"

definition empty_plan :: gpu_plan where
  "empty_plan = \<lparr>gp_assignments = [], gp_errors = [], gp_warnings = [], gp_degraded = [],
     gp_displaced = []\<rparr>"

definition assign :: "string \<Rightarrow> int list \<Rightarrow> planner \<Rightarrow> planner" where
  "assign gid want s =
     s\<lparr>pn_plan := (pn_plan s)\<lparr>gp_assignments := dput gid want (gp_assignments (pn_plan s))\<rparr>,
       pn_used := pn_used s @ want\<rparr>"

definition add_error :: "string \<Rightarrow> placement_reason \<Rightarrow> planner \<Rightarrow> planner" where
  "add_error gid why s =
     s\<lparr>pn_plan := (pn_plan s)\<lparr>gp_errors := gp_errors (pn_plan s) @ [(gid, why)]\<rparr>\<rparr>"

definition add_degraded :: "string \<Rightarrow> planner \<Rightarrow> planner" where
  "add_degraded gid s =
     s\<lparr>pn_plan := (pn_plan s)\<lparr>gp_degraded := gp_degraded (pn_plan s) @ [gid]\<rparr>\<rparr>"

definition add_displaced :: "string \<Rightarrow> planner \<Rightarrow> planner" where
  "add_displaced gid s =
     s\<lparr>pn_plan := (pn_plan s)\<lparr>gp_displaced := gp_displaced (pn_plan s) @ [gid]\<rparr>\<rparr>"

definition declaration_warning ::
    "(int \<Rightarrow> rat) \<Rightarrow> deployment \<Rightarrow> int list \<Rightarrow> honored \<Rightarrow> planner \<Rightarrow> planner" where
  "declaration_warning memory d want kind s =
     (let req = min_vram_per_gpu d;
          below = filter (\<lambda>i. memory i < req) want
      in if req > 0 \<and> below \<noteq> [] then
           s\<lparr>pn_plan := (pn_plan s)\<lparr>gp_warnings := gp_warnings (pn_plan s) @
               [\<lparr>pw_dep = dep_id d, pw_kind = kind, pw_want = want, pw_req = req,
                 pw_below = map (\<lambda>i. (i, memory i)) below\<rparr>]\<rparr>\<rparr>
         else s)"

text \<open>\<open>all(i in pin_pool_set for i in want) and not (used & set(want))\<close>\<close>

definition free_in :: "int list \<Rightarrow> int list \<Rightarrow> int list \<Rightarrow> bool" where
  "free_in pin_pool used want \<longleftrightarrow>
     list_all (\<lambda>i. i \<in> set pin_pool) want \<and> list_all (\<lambda>i. i \<notin> set used) want"

definition sorted_deployments :: "deployment list \<Rightarrow> deployment list" where
  "sorted_deployments ds = sort_key (\<lambda>g. (dep_created_at g, dep_id g)) ds"

section \<open>The passes\<close>

text \<open>Admission mode: committed allocations are validated, the rest is classified.\<close>

fun admission_pass ::
    "int list \<Rightarrow> (string, int list) dict \<Rightarrow> string list \<Rightarrow> (string, int list) dict
     \<Rightarrow> deployment list \<Rightarrow> planner \<Rightarrow> planner \<times> deployment list \<times> deployment list" where
  "admission_pass pin_pool hard required_ids hints [] s = (s, [], [])"
| "admission_pass pin_pool hard required_ids hints (d # ds) s =
     (case dget hard (dep_id d) of
        Some want \<Rightarrow>
          (if free_in pin_pool (pn_used s) want
           then admission_pass pin_pool hard required_ids hints ds (assign (dep_id d) want s)
           else admission_pass pin_pool hard required_ids hints ds (add_degraded (dep_id d) s))
      | None \<Rightarrow>
          (case admission_pass pin_pool hard required_ids hints ds s of
             (s', required, optional) \<Rightarrow>
               if dep_id d \<in> set required_ids then (s', d # required, optional)
               else if dep_id d \<in> set (dkeys hints) then (s', required, d # optional)
               else (s', required, optional)))"

fun pinned_pass ::
    "(int \<Rightarrow> rat) \<Rightarrow> int list \<Rightarrow> (string, int list) dict \<Rightarrow> deployment list \<Rightarrow> planner
     \<Rightarrow> planner \<times> deployment list" where
  "pinned_pass memory pin_pool pinned [] s = (s, [])"
| "pinned_pass memory pin_pool pinned (d # ds) s =
     (case dget pinned (dep_id d) of
        None \<Rightarrow> map_prod id (Cons d) (pinned_pass memory pin_pool pinned ds s)
      | Some want \<Rightarrow>
          (if free_in pin_pool (pn_used s) want
           then pinned_pass memory pin_pool pinned ds
                  (declaration_warning memory d want Pinned (assign (dep_id d) want s))
           else map_prod id (Cons d) (pinned_pass memory pin_pool pinned ds s)))"

fun explicit_pass ::
    "(int \<Rightarrow> rat) \<Rightarrow> int list \<Rightarrow> deployment list \<Rightarrow> planner \<Rightarrow> planner \<times> deployment list" where
  "explicit_pass memory pool [] s = (s, [])"
| "explicit_pass memory pool (d # ds) s =
     (case explicit_indices d of
        None \<Rightarrow> map_prod id (Cons d) (explicit_pass memory pool ds s)
      | Some want \<Rightarrow>
          (if want = [] then
             explicit_pass memory pool ds
               (s\<lparr>pn_plan := (pn_plan s)\<lparr>gp_assignments :=
                   dput (dep_id d) [] (gp_assignments (pn_plan s))\<rparr>\<rparr>)
           else
             (let invalid = filter (\<lambda>i. i \<notin> set pool) want;
                  clash = sort (remdups (filter (\<lambda>i. i \<in> set (pn_used s)) want))
              in if invalid \<noteq> [] \<or> clash \<noteq> []
                 then explicit_pass memory pool ds
                        (add_error (dep_id d) (ExplicitFailed invalid clash) s)
                 else explicit_pass memory pool ds
                        (declaration_warning memory d want Explicit (assign (dep_id d) want s)))))"

definition fit_order :: "(int \<Rightarrow> rat) \<Rightarrow> int list \<Rightarrow> deployment \<Rightarrow> nat \<times> rat \<times> string" where
  "fit_order memory pool d =
     (let req = min_vram_per_gpu d;
          n_eligible = length (filter (\<lambda>i. memory i \<ge> req) pool)
      in (n_eligible, dep_created_at d, dep_id d))"

text \<open>One deployment of the third loop: the GPUs it takes, or why it takes none.\<close>

definition fit_one ::
    "(int \<Rightarrow> rat) \<Rightarrow> int list \<Rightarrow> int list \<Rightarrow> deployment \<Rightarrow> placement_reason + int list" where
  "fit_one memory pool used d =
     (let n = required_gpu_count d;
          req = min_vram_per_gpu d
      in if req \<le> 0 then
           (let remaining = filter (\<lambda>i. i \<notin> set used) pool
            in (case first_fit remaining n of
                  (_, Some e) \<Rightarrow> Inl e
                | (indices, None) \<Rightarrow> Inr indices))
         else
           (let eligible = filter (\<lambda>i. memory i \<ge> req) pool
            in if length eligible < n then Inl (NeverSatisfied n req (length eligible) pool)
               else
                 (let free = filter (\<lambda>i. i \<notin> set used) eligible
                  in if length free < n then Inl (NotEnoughFree n req (length free))
                     else if declared_min_vram d > 0 then
                       Inr (sort (take n (sort_key (\<lambda>i. (memory i, i)) free)))
                     else Inr (take n free))))"

fun fit_pass :: "(int \<Rightarrow> rat) \<Rightarrow> int list \<Rightarrow> deployment list \<Rightarrow> planner \<Rightarrow> planner" where
  "fit_pass memory pool [] s = s"
| "fit_pass memory pool (d # ds) s =
     (case fit_one memory pool (pn_used s) d of
        Inl e \<Rightarrow> fit_pass memory pool ds (add_error (dep_id d) e s)
      | Inr indices \<Rightarrow> fit_pass memory pool ds (assign (dep_id d) indices s))"

fun optional_pass ::
    "int list \<Rightarrow> (string, int list) dict \<Rightarrow> deployment list \<Rightarrow> planner \<Rightarrow> planner" where
  "optional_pass pin_pool hints [] s = s"
| "optional_pass pin_pool hints (d # ds) s =
     (case dget hints (dep_id d) of
        None \<Rightarrow> optional_pass pin_pool hints ds s
      | Some want \<Rightarrow>
          (if free_in pin_pool (pn_used s) want
           then optional_pass pin_pool hints ds (assign (dep_id d) want s)
           else optional_pass pin_pool hints ds (add_displaced (dep_id d) s)))"

section \<open>\<open>plan_placement\<close>\<close>

record plan_args =
  pa_allowed_gpus :: "int list option"
  pa_reserved :: "int list"
  pa_pinned :: "(string, int list) dict"
  pa_skip_display :: bool
  pa_required_ids :: "string list option"
  pa_hard :: "(string, int list) dict option"
  pa_hints :: "(string, int list) dict option"

definition admission_mode :: "plan_args \<Rightarrow> bool" where
  "admission_mode a \<longleftrightarrow>
     pa_required_ids a \<noteq> None \<or> pa_hard a \<noteq> None \<or> pa_hints a \<noteq> None"

definition plan_pool :: "inventory \<Rightarrow> plan_args \<Rightarrow> int list" where
  "plan_pool inventory a = available_indices inventory (pa_allowed_gpus a) (pa_reserved a) (pa_skip_display a)"

definition plan_pin_pool :: "inventory \<Rightarrow> plan_args \<Rightarrow> int list" where
  "plan_pin_pool inventory a = available_indices inventory None (pa_reserved a) (pa_skip_display a)"

definition plan_placement :: "deployment list \<Rightarrow> inventory \<Rightarrow> plan_args \<Rightarrow> gpu_plan" where
  "plan_placement deployments inventory a =
     (let pool = plan_pool inventory a;
          pin_pool = plan_pin_pool inventory a;
          memory = memory_map inventory;
          ordered = sorted_deployments deployments;
          start = \<lparr>pn_plan = empty_plan, pn_used = []\<rparr>;
          pinned = (if admission_mode a then [] else pa_pinned a);
          (s0, required, optional) =
            (if admission_mode a
             then admission_pass pin_pool (or_list (pa_hard a)) (or_list (pa_required_ids a))
                    (or_list (pa_hints a)) ordered start
             else (start, ordered, []));
          (s1, deferred) = pinned_pass memory pin_pool pinned required s0;
          (s2, fits) = explicit_pass memory pool deferred s1;
          s3 = fit_pass memory pool (sort_key (fit_order memory pool) fits) s2;
          s4 = optional_pass pin_pool (or_list (pa_hints a)) optional s3
      in pn_plan s4)"

section \<open>Facts about the planner's primitives\<close>

abbreviation asg :: "planner \<Rightarrow> (string, int list) dict" where
  "asg s \<equiv> gp_assignments (pn_plan s)"

lemma assign_simps [simp]:
  "asg (assign gid want s) = dput gid want (asg s)"
  "pn_used (assign gid want s) = pn_used s @ want"
  "gp_errors (pn_plan (assign gid want s)) = gp_errors (pn_plan s)"
  "gp_degraded (pn_plan (assign gid want s)) = gp_degraded (pn_plan s)"
  "gp_displaced (pn_plan (assign gid want s)) = gp_displaced (pn_plan s)"
  by (simp_all add: assign_def)

lemma add_error_simps [simp]:
  "asg (add_error gid why s) = asg s" "pn_used (add_error gid why s) = pn_used s"
  "gp_errors (pn_plan (add_error gid why s)) = gp_errors (pn_plan s) @ [(gid, why)]"
  "gp_degraded (pn_plan (add_error gid why s)) = gp_degraded (pn_plan s)"
  "gp_displaced (pn_plan (add_error gid why s)) = gp_displaced (pn_plan s)"
  by (simp_all add: add_error_def)

lemma add_degraded_simps [simp]:
  "asg (add_degraded gid s) = asg s" "pn_used (add_degraded gid s) = pn_used s"
  "gp_errors (pn_plan (add_degraded gid s)) = gp_errors (pn_plan s)"
  "gp_degraded (pn_plan (add_degraded gid s)) = gp_degraded (pn_plan s) @ [gid]"
  "gp_displaced (pn_plan (add_degraded gid s)) = gp_displaced (pn_plan s)"
  by (simp_all add: add_degraded_def)

lemma add_displaced_simps [simp]:
  "asg (add_displaced gid s) = asg s" "pn_used (add_displaced gid s) = pn_used s"
  "gp_errors (pn_plan (add_displaced gid s)) = gp_errors (pn_plan s)"
  "gp_degraded (pn_plan (add_displaced gid s)) = gp_degraded (pn_plan s)"
  "gp_displaced (pn_plan (add_displaced gid s)) = gp_displaced (pn_plan s) @ [gid]"
  by (simp_all add: add_displaced_def)

lemma declaration_warning_simps [simp]:
  "asg (declaration_warning m d want k s) = asg s"
  "pn_used (declaration_warning m d want k s) = pn_used s"
  "gp_errors (pn_plan (declaration_warning m d want k s)) = gp_errors (pn_plan s)"
  "gp_degraded (pn_plan (declaration_warning m d want k s)) = gp_degraded (pn_plan s)"
  "gp_displaced (pn_plan (declaration_warning m d want k s)) = gp_displaced (pn_plan s)"
  by (simp_all add: declaration_warning_def Let_def)

lemma free_in_iff:
  "free_in P used want \<longleftrightarrow> set want \<subseteq> set P \<and> set want \<inter> set used = {}"
  by (auto simp: free_in_def list_all_iff)

lemma available_indices_subset:
  "set (available_indices inventory allowed reserved skip)
   \<subseteq> set (available_indices inventory None reserved skip)"
  by (auto simp: available_indices_def Let_def split: option.splits)

lemma plan_pool_subset: "set (plan_pool inventory a) \<subseteq> set (plan_pin_pool inventory a)"
  unfolding plan_pool_def plan_pin_pool_def by (rule available_indices_subset)

section \<open>The planner invariant\<close>

text \<open>
  Every used GPU belongs to an assignment, assigned GPUs are physical, and different
  deployments hold different GPUs.
\<close>

definition plan_inv :: "int list \<Rightarrow> planner \<Rightarrow> bool" where
  "plan_inv P s \<longleftrightarrow>
     distinct (dkeys (asg s)) \<and>
     set (pn_used s) = (\<Union>p \<in> set (asg s). set (snd p)) \<and>
     set (pn_used s) \<subseteq> set P \<and>
     (\<forall>p \<in> set (asg s). \<forall>q \<in> set (asg s). fst p \<noteq> fst q \<longrightarrow> set (snd p) \<inter> set (snd q) = {})"

lemma plan_inv_start: "plan_inv P \<lparr>pn_plan = empty_plan, pn_used = []\<rparr>"
  by (simp add: plan_inv_def empty_plan_def)

lemma plan_inv_assign:
  assumes "plan_inv P s" and "gid \<notin> set (dkeys (asg s))"
    and "set want \<subseteq> set P" and "set want \<inter> set (pn_used s) = {}"
  shows "plan_inv P (assign gid want s)"
proof -
  have "asg (assign gid want s) = asg s @ [(gid, want)]"
    using assms(2) by (simp add: dput_new)
  moreover have "gid \<notin> fst ` set (asg s)" using assms(2) by (simp add: dkeys_def)
  ultimately show ?thesis
    using assms unfolding plan_inv_def dkeys_def by (auto; blast)
qed

lemma plan_inv_cong:
  "asg s' = asg s \<Longrightarrow> pn_used s' = pn_used s \<Longrightarrow> plan_inv P s' = plan_inv P s"
  by (simp add: plan_inv_def)

lemma plan_inv_marks [simp]:
  "plan_inv P (add_error gid why s) = plan_inv P s"
  "plan_inv P (add_degraded gid s) = plan_inv P s"
  "plan_inv P (add_displaced gid s) = plan_inv P s"
  "plan_inv P (declaration_warning m d want k s) = plan_inv P s"
  by (simp_all add: plan_inv_def)

lemma plan_inv_assign_nil:
  assumes "plan_inv P s" and "gid \<notin> set (dkeys (asg s))"
  shows "plan_inv P (s\<lparr>pn_plan := (pn_plan s)\<lparr>gp_assignments := dput gid [] (asg s)\<rparr>\<rparr>)"
  using plan_inv_assign[OF assms, of "[]"] by (simp add: assign_def)

text \<open>The deployments still to be placed are new to the plan and pairwise different.\<close>

definition fresh_for :: "planner \<Rightarrow> deployment list \<Rightarrow> bool" where
  "fresh_for s ds \<longleftrightarrow> distinct (map dep_id ds) \<and> set (dkeys (asg s)) \<inter> dep_id ` set ds = {}"

lemma fresh_for_ConsD:
  assumes "fresh_for s (d # ds)"
  shows "dep_id d \<notin> set (dkeys (asg s))" "fresh_for s ds" "fresh_for (assign (dep_id d) want s) ds"
    "dep_id d \<notin> dep_id ` set ds"
  using assms by (auto simp: fresh_for_def)

lemma fresh_for_marks [simp]:
  "fresh_for (add_error gid why s) ds = fresh_for s ds"
  "fresh_for (add_degraded gid s) ds = fresh_for s ds"
  "fresh_for (add_displaced gid s) ds = fresh_for s ds"
  "fresh_for (declaration_warning m d want k s) ds = fresh_for s ds"
  by (simp_all add: fresh_for_def)

lemma fresh_for_mset: "mset ds = mset ds' \<Longrightarrow> fresh_for s ds = fresh_for s ds'"
  unfolding fresh_for_def
  by (metis mset_eq_imp_distinct_iff mset_eq_setD mset_map)

section \<open>The passes keep the invariant\<close>

text \<open>The plan keeps what it has and grows by deployments of a given set of ids.\<close>

definition grows :: "planner \<Rightarrow> planner \<Rightarrow> string set \<Rightarrow> bool" where
  "grows s s' ids \<longleftrightarrow>
     (\<forall>k \<in> set (dkeys (asg s)). dget (asg s') k = dget (asg s) k) \<and>
     set (dkeys (asg s')) \<subseteq> set (dkeys (asg s)) \<union> ids \<and>
     set (pn_used s) \<subseteq> set (pn_used s')"

lemma grows_refl [simp]: "grows s s ids"
  by (simp add: grows_def)

lemma grows_dget: "grows s s' ids \<Longrightarrow> dget (asg s) k = Some w \<Longrightarrow> dget (asg s') k = Some w"
  by (metis dget_in_dkeys grows_def)

lemma grows_keep: "grows s s' ids \<Longrightarrow> k \<in> set (dkeys (asg s)) \<Longrightarrow> dget (asg s') k = dget (asg s) k"
  by (simp add: grows_def)

lemma grows_keys_subset: "grows s s' ids \<Longrightarrow> set (dkeys (asg s)) \<subseteq> set (dkeys (asg s'))"
  by (metis dget_None_iff grows_keep subsetI)

lemma grows_keys:
  assumes "grows s s' ids" and "k \<notin> ids"
  shows "k \<in> set (dkeys (asg s')) \<longleftrightarrow> k \<in> set (dkeys (asg s))"
  using assms grows_keys_subset[OF assms(1)] unfolding grows_def by blast

lemma grows_not_in:
  assumes "grows s s' ids" and "k \<notin> ids"
  shows "dget (asg s') k = dget (asg s) k"
proof (cases "k \<in> set (dkeys (asg s))")
  case True
  then show ?thesis by (rule grows_keep[OF assms(1)])
next
  case False
  then have "k \<notin> set (dkeys (asg s'))" using grows_keys[OF assms] by blast
  with False show ?thesis by (simp add: dget_None_iff[THEN iffD2])
qed

lemma grows_trans:
  assumes "grows s s' A" and "grows s' s'' B" and "A \<union> B \<subseteq> C"
  shows "grows s s'' C"
proof -
  have "dget (asg s'') k = dget (asg s) k" if "k \<in> set (dkeys (asg s))" for k
    using grows_keep[OF assms(1) that] grows_keep[OF assms(2)] grows_keys_subset[OF assms(1)] that
    by auto
  then show ?thesis
    using assms unfolding grows_def by blast
qed

lemma grows_assign:
  "gid \<notin> set (dkeys (asg s)) \<Longrightarrow> gid \<in> ids \<Longrightarrow> grows s (assign gid want s) ids"
  by (auto simp: grows_def)

lemma grows_marks [simp]:
  "grows s (add_error gid why s') ids = grows s s' ids"
  "grows s (add_degraded gid s') ids = grows s s' ids"
  "grows s (add_displaced gid s') ids = grows s s' ids"
  "grows s (declaration_warning m d want k s') ids = grows s s' ids"
  "grows (add_error gid why s) s' ids = grows s s' ids"
  "grows (add_degraded gid s) s' ids = grows s s' ids"
  "grows (add_displaced gid s) s' ids = grows s s' ids"
  "grows (declaration_warning m d want k s) s' ids = grows s s' ids"
  by (simp_all add: grows_def)

lemma fresh_for_grows:
  "grows s s' ids \<Longrightarrow> fresh_for s ds \<Longrightarrow> ids \<inter> dep_id ` set ds = {} \<Longrightarrow> fresh_for s' ds"
  unfolding fresh_for_def grows_def by blast

definition err_ids :: "planner \<Rightarrow> string set" where
  "err_ids s = fst ` set (gp_errors (pn_plan s))"

lemma err_ids_simps [simp]:
  "err_ids (assign gid want s) = err_ids s"
  "err_ids (add_error gid why s) = insert gid (err_ids s)"
  "err_ids (add_degraded gid s) = err_ids s"
  "err_ids (add_displaced gid s) = err_ids s"
  "err_ids (declaration_warning m d want k s) = err_ids s"
  by (simp_all add: err_ids_def)

text \<open>
  What a pass over \<open>ds\<close> does to the ids it settles: an id is assigned GPUs that satisfy \<open>Q\<close>, or
  it is reported in the set \<open>R\<close> of the plan and left out of the assignments.
\<close>

definition settles ::
    "(planner \<Rightarrow> string set) \<Rightarrow> (deployment \<Rightarrow> int list \<Rightarrow> bool) \<Rightarrow> int list \<Rightarrow> planner \<Rightarrow> planner
     \<Rightarrow> deployment set \<Rightarrow> bool" where
  "settles R Q P s s' D \<longleftrightarrow>
     plan_inv P s' \<and> grows s s' (dep_id ` D) \<and>
     (\<forall>d \<in> D. \<forall>w. dget (asg s') (dep_id d) = Some w \<longrightarrow> Q d w) \<and>
     R s' = R s \<union> {dep_id d |d. d \<in> D \<and> dep_id d \<notin> set (dkeys (asg s'))}"

lemma settles_refl [simp]: "plan_inv P s \<Longrightarrow> settles R Q P s s {}"
  by (simp add: settles_def)

text \<open>Settling one deployment \<open>d\<close> first (in \<open>s1\<close>), then the others.\<close>

lemma settles_assigned:
  assumes step: "dget (asg s1) (dep_id d) = Some w" "Q d w" "R s1 = R s"
    and g: "grows s s1 {dep_id d}" and rest: "settles R Q P s1 s' D"
  shows "settles R Q P s s' (insert d D)"
proof -
  have g': "grows s1 s' (dep_id ` D)" using rest by (simp add: settles_def)
  have at: "dget (asg s') (dep_id d) = Some w" by (rule grows_dget[OF g' step(1)])
  have "grows s s' (dep_id ` insert d D)" by (rule grows_trans[OF g g']) auto
  moreover have "{dep_id e |e. e \<in> insert d D \<and> dep_id e \<notin> set (dkeys (asg s'))}
      = {dep_id e |e. e \<in> D \<and> dep_id e \<notin> set (dkeys (asg s'))}"
    using dget_in_dkeys[OF at] by auto
  ultimately show ?thesis
    using rest step at unfolding settles_def by auto
qed

lemma settles_reported:
  assumes step: "asg s1 = asg s" "pn_used s1 = pn_used s" "R s1 = insert (dep_id d) (R s)"
    and new: "dep_id d \<notin> set (dkeys (asg s))" "dep_id d \<notin> dep_id ` D"
    and rest: "settles R Q P s1 s' D"
  shows "settles R Q P s s' (insert d D)"
proof -
  have g1: "grows s1 s' (dep_id ` D)" using rest by (simp add: settles_def)
  have k: "dep_id d \<notin> set (dkeys (asg s'))"
    using grows_keys[OF g1 new(2)] new(1) step(1) by simp
  then have "dget (asg s') (dep_id d) = None" by (simp add: dget_None_iff)
  moreover have "grows s s1 {}" using step by (simp add: grows_def)
  then have "grows s s' (dep_id ` insert d D)" by (rule grows_trans[OF _ g1]) auto
  moreover have "{dep_id e |e. e \<in> insert d D \<and> dep_id e \<notin> set (dkeys (asg s'))}
      = insert (dep_id d) {dep_id e |e. e \<in> D \<and> dep_id e \<notin> set (dkeys (asg s'))}"
    using k by auto
  ultimately show ?thesis
    using rest step unfolding settles_def by auto
qed

lemma settles_fresh:
  assumes "settles R Q P s s' D" and "fresh_for s ds" and "D \<inter> set ds = {}" "D \<subseteq> set all"
    "set ds \<subseteq> set all" "distinct (map dep_id all)"
  shows "fresh_for s' ds"
proof -
  have "dep_id ` D \<inter> dep_id ` set ds = {}"
    using inj_on_image_Int[of dep_id "set all" D "set ds"] assms(3-6) by (simp add: distinct_map)
  then show ?thesis
    using assms(1,2) fresh_for_grows[of s s' "dep_id ` D" ds] by (simp add: settles_def)
qed

subsection \<open>The admission pass\<close>

lemma admission_pass_split:
  "admission_pass P hard req hints ds s = (s', r, opts) \<Longrightarrow>
     r = filter (\<lambda>d. dget hard (dep_id d) = None \<and> dep_id d \<in> set req) ds \<and>
     opts = filter (\<lambda>d. dget hard (dep_id d) = None \<and> dep_id d \<notin> set req
                        \<and> dep_id d \<in> set (dkeys hints)) ds"
  by (induction P hard req hints ds s arbitrary: s' r opts rule: admission_pass.induct)
     (auto split: option.splits if_splits prod.splits)

lemma admission_pass_settles:
  assumes "plan_inv P s" and "fresh_for s ds"
    and "admission_pass P hard req hints ds s = (s', r, opts)"
  shows "settles (\<lambda>s. set (gp_degraded (pn_plan s))) (\<lambda>d w. dget hard (dep_id d) = Some w) P s s'
           {d \<in> set ds. dget hard (dep_id d) \<noteq> None} \<and>
         gp_errors (pn_plan s') = gp_errors (pn_plan s) \<and>
         gp_displaced (pn_plan s') = gp_displaced (pn_plan s)"
  using assms
proof (induction P hard req hints ds s arbitrary: s' r opts rule: admission_pass.induct)
  case (1 P hard req hints s)
  then show ?case by simp
next
  case (2 P hard req hints d ds s)
  note fr = fresh_for_ConsD[OF 2(5)]
  let ?D = "{d \<in> set ds. dget hard (dep_id d) \<noteq> None}"
  have dD: "dep_id d \<notin> dep_id ` ?D" using fr(4) by auto
  show ?case
  proof (cases "dget hard (dep_id d)")
    case None
    then obtain r' o' where "admission_pass P hard req hints ds s = (s', r', o')"
      using 2(6) by (auto split: prod.splits if_splits)
    moreover have "{e \<in> set (d # ds). dget hard (dep_id e) \<noteq> None} = ?D" using None by auto
    ultimately show ?thesis using 2(1)[OF None 2(4) fr(2)] by simp
  next
    case (Some want)
    then have D: "{e \<in> set (d # ds). dget hard (dep_id e) \<noteq> None} = insert d ?D" by auto
    show ?thesis
    proof (cases "free_in P (pn_used s) want")
      case True
      let ?s = "assign (dep_id d) want s"
      have ev: "admission_pass P hard req hints ds ?s = (s', r, opts)"
        using 2(6) Some True by simp
      have inv: "plan_inv P ?s"
        using plan_inv_assign[OF 2(4) fr(1)] True by (simp add: free_in_iff)
      note IH = 2(2)[OF Some True inv fr(3) ev]
      show ?thesis unfolding D
        using IH Some fr(1) by (auto intro!: settles_assigned[of ?s] grows_assign)
    next
      case False
      let ?s = "add_degraded (dep_id d) s"
      have ev: "admission_pass P hard req hints ds ?s = (s', r, opts)"
        using 2(6) Some False by simp
      note IH = 2(3)[OF Some False _ _ ev]
      show ?thesis unfolding D
        using IH 2(4) fr(1,2) dD by (auto intro!: settles_reported[of ?s])
    qed
  qed
qed

subsection \<open>Pinned and explicit deployments\<close>

lemma pinned_pass_none: "pinned_pass memory P [] ds s = (s, ds)"
  by (induction ds arbitrary: s) auto

lemma pinned_pass_ok:
  assumes "plan_inv P s" and "fresh_for s ds" and "pinned_pass memory P pinned ds s = (s', left)"
  shows "plan_inv P s' \<and> fresh_for s' left \<and> set left \<subseteq> set ds \<and>
     grows s s' (dep_id ` (set ds - set left)) \<and>
     gp_errors (pn_plan s') = gp_errors (pn_plan s) \<and>
     gp_degraded (pn_plan s') = gp_degraded (pn_plan s) \<and>
     gp_displaced (pn_plan s') = gp_displaced (pn_plan s) \<and>
     (\<forall>d \<in> set ds - set left. dget (asg s') (dep_id d) = dget pinned (dep_id d)
        \<and> dget pinned (dep_id d) \<noteq> None)"
  using assms
proof (induction memory P pinned ds s arbitrary: s' left rule: pinned_pass.induct)
  case (1 memory P pinned s)
  then show ?case by (simp add: grows_def)
next
  case (2 memory P pinned d ds s)
  note fr = fresh_for_ConsD[OF 2(5)]
  have keep: ?case if left: "left = d # left'" and ev: "pinned_pass memory P pinned ds s = (s', left')"
    and IH: "plan_inv P s' \<and> fresh_for s' left' \<and> set left' \<subseteq> set ds \<and>
     grows s s' (dep_id ` (set ds - set left')) \<and>
     gp_errors (pn_plan s') = gp_errors (pn_plan s) \<and>
     gp_degraded (pn_plan s') = gp_degraded (pn_plan s) \<and>
     gp_displaced (pn_plan s') = gp_displaced (pn_plan s) \<and>
     (\<forall>d \<in> set ds - set left'. dget (asg s') (dep_id d) = dget pinned (dep_id d)
        \<and> dget pinned (dep_id d) \<noteq> None)" for left'
  proof -
    have gr: "grows s s' (dep_id ` (set ds - set left'))" using IH by blast
    have "dep_id d \<notin> dep_id ` (set ds - set left')" using fr(4) by blast
    then have nk: "dep_id d \<notin> set (dkeys (asg s'))" using grows_keys[OF gr] fr(1) by blast
    have eq: "set (d # ds) - set (d # left') = set ds - set left'" using fr(4) by auto
    have "fresh_for s' (d # left')"
      using IH nk fr(4) by (auto simp: fresh_for_def)
    then show ?thesis using IH eq left by auto
  qed
  show ?case
  proof (cases "dget pinned (dep_id d)")
    case None
    then obtain left' where "left = d # left'" "pinned_pass memory P pinned ds s = (s', left')"
      using 2(6) by (auto simp: map_prod_def split: prod.splits)
    then show ?thesis using keep 2(1)[OF None 2(4) fr(2)] by blast
  next
    case (Some want)
    show ?thesis
    proof (cases "free_in P (pn_used s) want")
      case True
      let ?s = "declaration_warning memory d want Pinned (assign (dep_id d) want s)"
      have ev: "pinned_pass memory P pinned ds ?s = (s', left)" using 2(6) Some True by simp
      have inv: "plan_inv P ?s"
        using plan_inv_assign[OF 2(4) fr(1)] True by (simp add: free_in_iff)
      have frs: "fresh_for ?s ds" using fr(3) by simp
      note IH = 2(2)[OF Some True inv frs ev]
      have gd: "dget (asg s') (dep_id d) = Some want"
        using IH by (intro grows_dget[of ?s s' "dep_id ` (set ds - set left)"]) auto
      have "grows s ?s {dep_id d}" using fr(1) by (simp add: grows_assign)
      then have "grows s s' (dep_id ` (set (d # ds) - set left))"
        by (rule grows_trans) (use IH fr(4) in auto)
      then show ?thesis using IH gd Some by auto
    next
      case False
      then obtain left' where "left = d # left'" "pinned_pass memory P pinned ds s = (s', left')"
        using 2(6) Some by (auto simp: map_prod_def split: prod.splits)
      then show ?thesis using keep 2(3)[OF Some False 2(4) fr(2)] by blast
    qed
  qed
qed

lemma explicit_pass_left:
  "explicit_pass memory pool ds s = (s', left) \<Longrightarrow> left = filter (\<lambda>d. explicit_indices d = None) ds"
  by (induction memory pool ds s arbitrary: s' left rule: explicit_pass.induct)
     (auto simp: Let_def map_prod_def split: option.splits if_splits prod.splits)

lemma explicit_pass_settles:
  assumes "plan_inv P s" and "fresh_for s ds" and "set pool \<subseteq> set P"
    and "explicit_pass memory pool ds s = (s', left)"
  shows "settles err_ids (\<lambda>d w. explicit_indices d = Some w \<and> set w \<subseteq> set pool) P s s'
           {d \<in> set ds. explicit_indices d \<noteq> None} \<and>
         gp_degraded (pn_plan s') = gp_degraded (pn_plan s) \<and>
         gp_displaced (pn_plan s') = gp_displaced (pn_plan s)"
  using assms
proof (induction memory pool ds s arbitrary: s' left rule: explicit_pass.induct)
  case (1 memory pool s)
  then show ?case by simp
next
  case (2 memory pool d ds s)
  note fr = fresh_for_ConsD[OF 2(6)]
  let ?D = "{d \<in> set ds. explicit_indices d \<noteq> None}"
  have dD: "dep_id d \<notin> dep_id ` ?D" using fr(4) by auto
  show ?case
  proof (cases "explicit_indices d")
    case None
    then obtain left' where "explicit_pass memory pool ds s = (s', left')"
      using 2(8) by (auto simp: map_prod_def split: prod.splits)
    moreover have "{e \<in> set (d # ds). explicit_indices e \<noteq> None} = ?D" using None by auto
    ultimately show ?thesis using 2(1)[OF None 2(5) fr(2) 2(7)] by simp
  next
    case (Some want)
    then have D: "{e \<in> set (d # ds). explicit_indices e \<noteq> None} = insert d ?D" by auto
    define invalid clash where "invalid = filter (\<lambda>i. i \<notin> set pool) want"
      and "clash = sort (remdups (filter (\<lambda>i. i \<in> set (pn_used s)) want))"
    show ?thesis
    proof (cases "want = []")
      case True
      let ?s = "s\<lparr>pn_plan := (pn_plan s)\<lparr>gp_assignments := dput (dep_id d) [] (asg s)\<rparr>\<rparr>"
      have eq: "?s = assign (dep_id d) [] s" by (simp add: assign_def)
      have ev: "explicit_pass memory pool ds ?s = (s', left)"
        using 2(8) Some True by simp
      have inv: "plan_inv P ?s" by (rule plan_inv_assign_nil[OF 2(5) fr(1)])
      note IH = 2(2)[OF Some True inv fr(3)[of "[]", folded eq] 2(7) ev]
      show ?thesis unfolding D
        using IH Some fr(1) True unfolding eq by (auto intro!: settles_assigned[of "assign (dep_id d) [] s"] grows_assign)
    next
      case ne: False
      show ?thesis
      proof (cases "invalid \<noteq> [] \<or> clash \<noteq> []")
        case True
        let ?s = "add_error (dep_id d) (ExplicitFailed invalid clash) s"
        have ev: "explicit_pass memory pool ds ?s = (s', left)"
          using 2(8) Some True ne by (simp add: invalid_def clash_def Let_def del: sort_key_Nil_iff split: if_splits)
        note IH = 2(3)[OF Some ne invalid_def clash_def True _ _ 2(7) ev]
        show ?thesis unfolding D
          using IH 2(5) fr(1,2) dD by (auto intro!: settles_reported[of ?s])
      next
        case False
        let ?s = "declaration_warning memory d want Explicit (assign (dep_id d) want s)"
        have ok: "set want \<subseteq> set pool" "set want \<inter> set (pn_used s) = {}"
          using False by (auto simp: invalid_def clash_def filter_empty_conv)
        have ev: "explicit_pass memory pool ds ?s = (s', left)"
          using 2(8) Some False ne by (simp add: invalid_def clash_def Let_def del: sort_key_Nil_iff split: if_splits)
        have inv: "plan_inv P ?s"
          using plan_inv_assign[OF 2(5) fr(1), of want] ok 2(7) by auto
        have frs: "fresh_for ?s ds" using fr(3) by simp
        note IH = 2(4)[OF Some ne invalid_def clash_def False inv frs 2(7) ev]
        show ?thesis unfolding D
          using IH Some fr(1) ok by (auto intro!: settles_assigned[of ?s] grows_assign)
      qed
    qed
  qed
qed

lemma pinned_pass_settles:
  assumes "plan_inv P s" and "fresh_for s ds" and "pinned_pass memory P pinned ds s = (s', left)"
  shows "settles err_ids (\<lambda>d w. dget pinned (dep_id d) = Some w) P s s' (set ds - set left)"
proof -
  note ok = pinned_pass_ok[OF assms]
  have "dep_id d \<in> set (dkeys (asg s'))" if "d \<in> set ds - set left" for d
    using ok that by (metis dget_None_iff)
  then have "{dep_id d |d. d \<in> set ds - set left \<and> dep_id d \<notin> set (dkeys (asg s'))} = {}" by blast
  moreover have "err_ids s' = err_ids s" using ok by (simp add: err_ids_def)
  ultimately show ?thesis using ok unfolding settles_def by auto
qed

subsection \<open>Fitted deployments\<close>

text \<open>The pool GPUs with enough memory for \<open>d\<close> that no one uses.\<close>

definition fit_candidates :: "(int \<Rightarrow> rat) \<Rightarrow> int list \<Rightarrow> int set \<Rightarrow> deployment \<Rightarrow> int list" where
  "fit_candidates memory pool used d =
     filter (\<lambda>i. (min_vram_per_gpu d \<le> 0 \<or> memory i \<ge> min_vram_per_gpu d) \<and> i \<notin> used) pool"

lemma fit_candidates_mono:
  assumes "U \<subseteq> V"
  shows "set (fit_candidates memory pool V d) \<subseteq> set (fit_candidates memory pool U d)"
    and "length (fit_candidates memory pool V d) \<le> length (fit_candidates memory pool U d)"
proof -
  show "set (fit_candidates memory pool V d) \<subseteq> set (fit_candidates memory pool U d)"
    using assms by (auto simp: fit_candidates_def)
  have "fit_candidates memory pool V d = filter (\<lambda>i. i \<notin> V) (fit_candidates memory pool U d)"
    using assms by (auto simp: fit_candidates_def intro!: filter_cong)
  then show "length (fit_candidates memory pool V d) \<le> length (fit_candidates memory pool U d)"
    by simp
qed

lemma fit_one_eq:
  "fit_one memory pool used d =
     (let free = fit_candidates memory pool (set used) d; n = required_gpu_count d;
          req = min_vram_per_gpu d; eligible = filter (\<lambda>i. memory i \<ge> req) pool
      in if length free < n then
           Inl (if req \<le> 0 then NeedGpus n (length free)
                else if length eligible < n then NeverSatisfied n req (length eligible) pool
                else NotEnoughFree n req (length free))
         else if req > 0 \<and> declared_min_vram d > 0
           then Inr (sort (take n (sort_key (\<lambda>i. (memory i, i)) free)))
         else Inr (take n free))"
proof (cases "min_vram_per_gpu d \<le> 0")
  case True
  then show ?thesis by (simp add: fit_one_def fit_candidates_def first_fit_def Let_def)
next
  case False
  let ?el = "filter (\<lambda>i. memory i \<ge> min_vram_per_gpu d) pool"
  have fc: "fit_candidates memory pool (set used) d = filter (\<lambda>i. i \<notin> set used) ?el"
    using False by (simp add: fit_candidates_def conj_commute)
  then have le: "length (fit_candidates memory pool (set used) d) \<le> length ?el"
    by (simp only: length_filter_le)
  show ?thesis
  proof (cases "length ?el < required_gpu_count d")
    case True
    then have "length (fit_candidates memory pool (set used) d) < required_gpu_count d"
      using le by linarith
    then show ?thesis using False True by (simp add: fit_one_def Let_def)
  next
    case ge: False
    then show ?thesis unfolding fit_one_def Let_def fc[symmetric] using False
      by simp
  qed
qed

lemma fit_one_Inl:
  "fit_one memory pool used d = Inl e
   \<Longrightarrow> length (fit_candidates memory pool (set used) d) < required_gpu_count d"
  by (simp add: fit_one_eq Let_def split: if_splits)

lemma sorted_key_take_drop:
  "sorted (map f xs) \<Longrightarrow> x \<in> set (take n xs) \<Longrightarrow> y \<in> set (drop n xs) \<Longrightarrow> f x \<le> f y"
  using sorted_append[of "map f (take n xs)" "map f (drop n xs)"]
  by (simp flip: map_append)

lemma set_not_in_take:
  "y \<in> set xs \<Longrightarrow> y \<notin> set (take n xs) \<Longrightarrow> y \<in> set (drop n xs)"
  using set_append[of "take n xs" "drop n xs"] by simp

lemma fit_one_Inr:
  assumes "fit_one memory pool used d = Inr w"
  shows "length w = required_gpu_count d"
    and "set w \<subseteq> set (fit_candidates memory pool (set used) d)"
    and "distinct pool \<Longrightarrow> distinct w"
    and "declared_min_vram d > 0 \<Longrightarrow> i \<in> set w
         \<Longrightarrow> j \<in> set (fit_candidates memory pool (set used) d) \<Longrightarrow> j \<notin> set w
         \<Longrightarrow> (memory i, i) \<le> (memory j, j)"
proof -
  let ?free = "fit_candidates memory pool (set used) d" and ?n = "required_gpu_count d"
  let ?best = "take ?n (sort_key (\<lambda>i. (memory i, i)) ?free)"
  have n: "\<not> length ?free < ?n" and
    w: "if min_vram_per_gpu d > 0 \<and> declared_min_vram d > 0 then w = sort ?best else w = take ?n ?free"
    using assms by (auto simp: fit_one_eq Let_def split: if_splits)
  show "length w = ?n" using n w by (simp split: if_splits)
  show "set w \<subseteq> set ?free"
    using w set_take_subset[of ?n "sort_key (\<lambda>i. (memory i, i)) ?free"] set_take_subset[of ?n ?free]
    by (auto split: if_splits)
  show "distinct w" if "distinct pool"
    using w that by (simp add: fit_candidates_def split: if_splits)
  show "(memory i, i) \<le> (memory j, j)"
    if "declared_min_vram d > 0" "i \<in> set w" "j \<in> set ?free" "j \<notin> set w"
  proof -
    have "min_vram_per_gpu d > 0"
      using that(1) by (auto simp: min_vram_per_gpu_def declared_min_vram_def Let_def less_max_iff_disj)
    then have "set w = set ?best" using w that(1) by simp
    then show ?thesis
      using that sorted_key_take_drop[of "\<lambda>i. (memory i, i)" "sort_key (\<lambda>i. (memory i, i)) ?free" i ?n j]
        set_not_in_take[of j "sort_key (\<lambda>i. (memory i, i)) ?free" ?n] by simp
  qed
qed

text \<open>Every fitted deployment went through \<open>fit_one\<close> against GPUs that stay in use.\<close>

definition fitted :: "(int \<Rightarrow> rat) \<Rightarrow> int list \<Rightarrow> planner \<Rightarrow> deployment \<Rightarrow> bool" where
  "fitted memory pool s' d \<longleftrightarrow>
     (\<exists>used. set used \<subseteq> set (pn_used s') \<and>
       (case dget (asg s') (dep_id d) of
          None \<Rightarrow> \<exists>e. fit_one memory pool used d = Inl e \<and> (dep_id d, e) \<in> set (gp_errors (pn_plan s'))
        | Some w \<Rightarrow> fit_one memory pool used d = Inr w \<and> set w \<subseteq> set (pn_used s')))"

lemma fit_pass_errors_grow: "set (gp_errors (pn_plan s)) \<subseteq> set (gp_errors (pn_plan (fit_pass memory pool ds s)))"
  by (induction memory pool ds s rule: fit_pass.induct) (auto split: sum.splits)

lemma fit_pass_used_grow: "set (pn_used s) \<subseteq> set (pn_used (fit_pass memory pool ds s))"
  by (induction memory pool ds s rule: fit_pass.induct) (auto split: sum.splits)

lemma fit_pass_settles:
  assumes "plan_inv P s" and "fresh_for s ds" and "set pool \<subseteq> set P"
  shows "settles err_ids (\<lambda>d w. True) P s (fit_pass memory pool ds s) (set ds) \<and>
         gp_degraded (pn_plan (fit_pass memory pool ds s)) = gp_degraded (pn_plan s) \<and>
         gp_displaced (pn_plan (fit_pass memory pool ds s)) = gp_displaced (pn_plan s) \<and>
         (\<forall>d \<in> set ds. fitted memory pool (fit_pass memory pool ds s) d)"
  using assms
proof (induction memory pool ds s rule: fit_pass.induct)
  case (1 memory pool s)
  then show ?case by simp
next
  case (2 memory pool d ds s)
  note fr = fresh_for_ConsD[OF 2(4)]
  show ?case
  proof (cases "fit_one memory pool (pn_used s) d")
    case (Inl e)
    let ?s = "add_error (dep_id d) e s" and ?f = "fit_pass memory pool (d # ds) s"
    have f: "?f = fit_pass memory pool ds ?s" using Inl by simp
    note IH = 2(1)[OF Inl]
    have IH': "settles err_ids (\<lambda>d w. True) P ?s ?f (set ds)" "\<forall>d \<in> set ds. fitted memory pool ?f d"
      "gp_degraded (pn_plan ?f) = gp_degraded (pn_plan s)"
      "gp_displaced (pn_plan ?f) = gp_displaced (pn_plan s)"
      using IH 2(3,5) fr(2) f by simp_all
    have st: "settles err_ids (\<lambda>d w. True) P s ?f (insert d (set ds))"
      using IH' fr(1,4) by (auto intro!: settles_reported[of ?s])
    have "grows ?s ?f (dep_id ` set ds)" using IH'(1) by (simp add: settles_def)
    then have "dep_id d \<notin> set (dkeys (asg ?f))"
      using grows_keys[of ?s ?f "dep_id ` set ds" "dep_id d"] fr(1,4) by simp
    then have "dget (asg ?f) (dep_id d) = None" by (simp add: dget_None_iff)
    moreover have "(dep_id d, e) \<in> set (gp_errors (pn_plan ?f))"
      using fit_pass_errors_grow[of ?s memory pool ds] f by auto
    moreover have "set (pn_used s) \<subseteq> set (pn_used ?f)" using fit_pass_used_grow[of ?s] f by auto
    ultimately have "fitted memory pool ?f d"
      using Inl unfolding fitted_def by (intro exI[of _ "pn_used s"]) auto
    then show ?thesis using st IH' by simp
  next
    case (Inr w)
    let ?s = "assign (dep_id d) w s" and ?f = "fit_pass memory pool (d # ds) s"
    have f: "?f = fit_pass memory pool ds ?s" using Inr by simp
    have w: "set w \<subseteq> set P" "set w \<inter> set (pn_used s) = {}"
      using fit_one_Inr(2)[OF Inr] 2(5) by (auto simp: fit_candidates_def)
    have inv: "plan_inv P ?s" by (rule plan_inv_assign[OF 2(3) fr(1) w])
    note IH = 2(2)[OF Inr inv fr(3) 2(5), folded f]
    have st: "settles err_ids (\<lambda>d w. True) P s ?f (insert d (set ds))"
      using IH fr(1) by (auto intro!: settles_assigned[of ?s] grows_assign)
    have "grows ?s ?f (dep_id ` set ds)" using IH by (simp only: settles_def)
    then have gd: "dget (asg ?f) (dep_id d) = Some w" by (rule grows_dget) simp
    have "set (pn_used s) \<union> set w \<subseteq> set (pn_used ?f)" using fit_pass_used_grow[of ?s] f by auto
    then have "fitted memory pool ?f d"
      using Inr gd unfolding fitted_def by (intro exI[of _ "pn_used s"]) auto
    then show ?thesis using st IH by simp
  qed
qed

subsection \<open>Optional residents\<close>

lemma optional_pass_settles:
  assumes "plan_inv P s" and "fresh_for s ds"
    and "\<forall>d \<in> set ds. dget hints (dep_id d) \<noteq> None"
  shows "settles (\<lambda>s. set (gp_displaced (pn_plan s))) (\<lambda>d w. dget hints (dep_id d) = Some w) P s
           (optional_pass P hints ds s) (set ds) \<and>
         gp_degraded (pn_plan (optional_pass P hints ds s)) = gp_degraded (pn_plan s) \<and>
         gp_errors (pn_plan (optional_pass P hints ds s)) = gp_errors (pn_plan s)"
  using assms
proof (induction P hints ds s rule: optional_pass.induct)
  case (1 P hints s)
  then show ?case by simp
next
  case (2 P hints d ds s)
  note fr = fresh_for_ConsD[OF 2(5)]
  obtain want where Some: "dget hints (dep_id d) = Some want" using 2(6) by auto
  have h: "\<forall>d \<in> set ds. dget hints (dep_id d) \<noteq> None" using 2(6) by simp
  show ?case
  proof (cases "free_in P (pn_used s) want")
    case True
    have inv: "plan_inv P (assign (dep_id d) want s)"
      using plan_inv_assign[OF 2(4) fr(1)] True by (simp add: free_in_iff)
    note IH = 2(2)[OF Some True inv fr(3) h]
    then show ?thesis
      using Some True fr(1) by (auto intro!: settles_assigned[of "assign (dep_id d) want s"] grows_assign)
  next
    case False
    note IH = 2(3)[OF Some False _ _ h]
    then show ?thesis
      using Some False 2(4) fr by (auto intro!: settles_reported[of "add_displaced (dep_id d) s"])
  qed
qed

section \<open>The whole plan\<close>

text \<open>
  The states between the loops of one call of \<open>plan_placement\<close>, and the deployments each loop
  is responsible for: hard, pinned, explicit, fitted and optional ones.
\<close>

record plan_trace =
  tr_admitted :: planner
  tr_pinned :: planner
  tr_explicit :: planner
  tr_fitted :: planner
  tr_final :: planner
  tr_required :: "deployment list"
  tr_deferred :: "deployment list"
  tr_fits :: "deployment list"
  tr_optional :: "deployment list"

definition plan_start :: planner where
  "plan_start = \<lparr>pn_plan = empty_plan, pn_used = []\<rparr>"

definition admit ::
    "deployment list \<Rightarrow> inventory \<Rightarrow> plan_args \<Rightarrow> planner \<times> deployment list \<times> deployment list" where
  "admit ds inventory a =
     (if admission_mode a
      then admission_pass (plan_pin_pool inventory a) (or_list (pa_hard a))
             (or_list (pa_required_ids a)) (or_list (pa_hints a)) (sorted_deployments ds) plan_start
      else (plan_start, sorted_deployments ds, []))"

definition trace_plan :: "deployment list \<Rightarrow> inventory \<Rightarrow> plan_args \<Rightarrow> plan_trace" where
  "trace_plan ds inventory a =
     (let memory = memory_map inventory;
          pool = plan_pool inventory a;
          pin_pool = plan_pin_pool inventory a;
          adm = admit ds inventory a;
          pin = pinned_pass memory pin_pool (if admission_mode a then [] else pa_pinned a)
                  (fst (snd adm)) (fst adm);
          ex = explicit_pass memory pool (snd pin) (fst pin);
          fi = fit_pass memory pool (sort_key (fit_order memory pool) (snd ex)) (fst ex)
      in \<lparr>tr_admitted = fst adm, tr_pinned = fst pin, tr_explicit = fst ex, tr_fitted = fi,
          tr_final = optional_pass pin_pool (or_list (pa_hints a)) (snd (snd adm)) fi,
          tr_required = fst (snd adm), tr_deferred = snd pin, tr_fits = snd ex,
          tr_optional = snd (snd adm)\<rparr>)"

lemma plan_placement_trace:
  "plan_placement ds inventory a = pn_plan (tr_final (trace_plan ds inventory a))"
  unfolding plan_placement_def trace_plan_def admit_def plan_start_def
  by (simp add: Let_def case_prod_beta)

lemma trace_plan_stages:
  "(tr_admitted (trace_plan ds inventory a), tr_required (trace_plan ds inventory a),
    tr_optional (trace_plan ds inventory a)) = admit ds inventory a"
  "pinned_pass (memory_map inventory) (plan_pin_pool inventory a)
     (if admission_mode a then [] else pa_pinned a) (tr_required (trace_plan ds inventory a))
     (tr_admitted (trace_plan ds inventory a))
   = (tr_pinned (trace_plan ds inventory a), tr_deferred (trace_plan ds inventory a))"
  "explicit_pass (memory_map inventory) (plan_pool inventory a) (tr_deferred (trace_plan ds inventory a))
     (tr_pinned (trace_plan ds inventory a))
   = (tr_explicit (trace_plan ds inventory a), tr_fits (trace_plan ds inventory a))"
  "tr_fitted (trace_plan ds inventory a) = fit_pass (memory_map inventory) (plan_pool inventory a)
     (sort_key (fit_order (memory_map inventory) (plan_pool inventory a)) (tr_fits (trace_plan ds inventory a)))
     (tr_explicit (trace_plan ds inventory a))"
  "tr_final (trace_plan ds inventory a) = optional_pass (plan_pin_pool inventory a) (or_list (pa_hints a))
     (tr_optional (trace_plan ds inventory a)) (tr_fitted (trace_plan ds inventory a))"
  by (simp_all add: trace_plan_def Let_def)

definition hard_deps :: "deployment list \<Rightarrow> plan_args \<Rightarrow> deployment set" where
  "hard_deps ds a = {d \<in> set ds. admission_mode a \<and> dget (or_list (pa_hard a)) (dep_id d) \<noteq> None}"

definition required_deps :: "deployment list \<Rightarrow> plan_args \<Rightarrow> deployment set" where
  "required_deps ds a =
     {d \<in> set ds. admission_mode a \<longrightarrow>
        dget (or_list (pa_hard a)) (dep_id d) = None \<and> dep_id d \<in> set (or_list (pa_required_ids a))}"

definition optional_deps :: "deployment list \<Rightarrow> plan_args \<Rightarrow> deployment set" where
  "optional_deps ds a =
     {d \<in> set ds. admission_mode a \<and> dget (or_list (pa_hard a)) (dep_id d) = None
        \<and> dep_id d \<notin> set (or_list (pa_required_ids a))
        \<and> dget (or_list (pa_hints a)) (dep_id d) \<noteq> None}"

lemma deps_partition:
  "hard_deps ds a \<subseteq> set ds" "required_deps ds a \<subseteq> set ds" "optional_deps ds a \<subseteq> set ds"
  "hard_deps ds a \<inter> required_deps ds a = {}" "hard_deps ds a \<inter> optional_deps ds a = {}"
  "required_deps ds a \<inter> optional_deps ds a = {}"
  by (auto simp: hard_deps_def required_deps_def optional_deps_def)

lemma settles_trans:
  assumes a: "settles R Q P s s' D" and b: "settles R Q' P s' s'' E"
    and dis: "dep_id ` D \<inter> dep_id ` E = {}"
  shows "settles R (\<lambda>d w. d \<in> D \<and> Q d w \<or> d \<in> E \<and> Q' d w) P s s'' (D \<union> E)"
proof -
  have g: "grows s s' (dep_id ` D)" "grows s' s'' (dep_id ` E)" using a b by (simp_all only: settles_def)
  have same: "dget (asg s'') (dep_id d) = dget (asg s') (dep_id d)" if "d \<in> D" for d
    by (rule grows_not_in[OF g(2)]) (use that dis in blast)
  then have keys: "dep_id d \<in> set (dkeys (asg s'')) \<longleftrightarrow> dep_id d \<in> set (dkeys (asg s'))" if "d \<in> D" for d
    using that by (metis dget_None_iff)
  have "grows s s'' (dep_id ` (D \<union> E))" by (rule grows_trans[OF g]) blast
  moreover have "R s'' = R s \<union> {dep_id d |d. d \<in> D \<union> E \<and> dep_id d \<notin> set (dkeys (asg s''))}"
    using a b keys unfolding settles_def by auto
  ultimately show ?thesis using a b same unfolding settles_def by auto
qed

text \<open>The same, read off a later state of the plan.\<close>

definition settled ::
    "(planner \<Rightarrow> string set) \<Rightarrow> (deployment \<Rightarrow> int list \<Rightarrow> bool) \<Rightarrow> planner \<Rightarrow> deployment set
     \<Rightarrow> string set \<Rightarrow> bool" where
  "settled R Q s D R0 \<longleftrightarrow>
     (\<forall>d \<in> D. \<forall>w. dget (asg s) (dep_id d) = Some w \<longrightarrow> Q d w) \<and>
     R s = R0 \<union> {dep_id d |d. d \<in> D \<and> dep_id d \<notin> set (dkeys (asg s))}"

lemma settles_settled: "settles R Q P s s' D \<Longrightarrow> settled R Q s' D (R s)"
  by (simp add: settles_def settled_def)

lemma settled_later:
  assumes a: "settled R Q s' D R0" and g: "grows s' s'' E" and dis: "dep_id ` D \<inter> E = {}"
    and "R s'' = R s'"
  shows "settled R Q s'' D R0"
proof -
  have same: "dget (asg s'') (dep_id d) = dget (asg s') (dep_id d)" if "d \<in> D" for d
    by (rule grows_not_in[OF g]) (use that dis in blast)
  then have keys: "dep_id d \<in> set (dkeys (asg s'')) \<longleftrightarrow> dep_id d \<in> set (dkeys (asg s'))" if "d \<in> D" for d
    using that by (metis dget_None_iff)
  then have "{dep_id d |d. d \<in> D \<and> dep_id d \<notin> set (dkeys (asg s''))}
      = {dep_id d |d. d \<in> D \<and> dep_id d \<notin> set (dkeys (asg s'))}" by blast
  then show ?thesis using a same assms(4) unfolding settled_def by simp
qed

lemma set_sorted_deployments [simp]: "set (sorted_deployments ds) = set ds"
  by (simp add: sorted_deployments_def)

lemma distinct_sorted_deployments [simp]:
  "distinct (map dep_id (sorted_deployments ds)) = distinct (map dep_id ds)"
  by (simp add: sorted_deployments_def distinct_map_sort_key)

lemma plan_start_simps [simp]:
  "asg plan_start = []" "pn_used plan_start = []" "gp_errors (pn_plan plan_start) = []"
  "gp_degraded (pn_plan plan_start) = []" "gp_displaced (pn_plan plan_start) = []"
  "err_ids plan_start = {}"
  by (simp_all add: plan_start_def empty_plan_def err_ids_def)

lemma plan_inv_plan_start [simp]: "plan_inv P plan_start"
  by (simp add: plan_start_def plan_inv_start)

lemma fresh_for_start: "fresh_for plan_start ds = distinct (map dep_id ds)"
  by (simp add: fresh_for_def)

lemma fresh_for_subset:
  "fresh_for s ds \<Longrightarrow> set es \<subseteq> set ds \<Longrightarrow> distinct (map dep_id es) \<Longrightarrow> fresh_for s es"
  by (auto simp: fresh_for_def)

lemma image_disjoint:
  "distinct (map f xs) \<Longrightarrow> A \<subseteq> set xs \<Longrightarrow> B \<subseteq> set xs \<Longrightarrow> A \<inter> B = {} \<Longrightarrow> f ` A \<inter> f ` B = {}"
  using inj_on_image_Int[of f "set xs" A B] by (simp add: distinct_map)

abbreviation pin_kept :: "deployment list \<Rightarrow> inventory \<Rightarrow> plan_args \<Rightarrow> deployment set" where
  "pin_kept ds inventory a \<equiv>
     set (tr_required (trace_plan ds inventory a)) - set (tr_deferred (trace_plan ds inventory a))"

abbreviation explicit_deps :: "deployment list \<Rightarrow> inventory \<Rightarrow> plan_args \<Rightarrow> deployment set" where
  "explicit_deps ds inventory a \<equiv>
     {d \<in> set (tr_deferred (trace_plan ds inventory a)). explicit_indices d \<noteq> None}"

lemma plan_admitted:
  assumes ids: "distinct (map dep_id ds)"
  shows "settles (\<lambda>s. set (gp_degraded (pn_plan s))) (\<lambda>d w. dget (or_list (pa_hard a)) (dep_id d) = Some w)
           (plan_pin_pool inventory a) plan_start (tr_admitted (trace_plan ds inventory a)) (hard_deps ds a)"
    and "gp_errors (pn_plan (tr_admitted (trace_plan ds inventory a))) = []" "gp_displaced (pn_plan (tr_admitted (trace_plan ds inventory a))) = []"
    and "set (tr_required (trace_plan ds inventory a)) = required_deps ds a" "set (tr_optional (trace_plan ds inventory a)) = optional_deps ds a"
    and "distinct (map dep_id (tr_required (trace_plan ds inventory a)))" "distinct (map dep_id (tr_optional (trace_plan ds inventory a)))"
proof -
  have "settles (\<lambda>s. set (gp_degraded (pn_plan s))) (\<lambda>d w. dget (or_list (pa_hard a)) (dep_id d) = Some w)
           (plan_pin_pool inventory a) plan_start (tr_admitted (trace_plan ds inventory a)) (hard_deps ds a)
        \<and> gp_errors (pn_plan (tr_admitted (trace_plan ds inventory a))) = [] \<and> gp_displaced (pn_plan (tr_admitted (trace_plan ds inventory a))) = []
        \<and> set (tr_required (trace_plan ds inventory a)) = required_deps ds a \<and> set (tr_optional (trace_plan ds inventory a)) = optional_deps ds a
        \<and> distinct (map dep_id (tr_required (trace_plan ds inventory a))) \<and> distinct (map dep_id (tr_optional (trace_plan ds inventory a)))"
  proof (cases "admission_mode a")
    case False
    then show ?thesis
      using ids trace_plan_stages(1)[of ds inventory a]
      by (simp add: admit_def hard_deps_def required_deps_def optional_deps_def)
  next
    case True
    obtain s r opts where adm: "admission_pass (plan_pin_pool inventory a) (or_list (pa_hard a)) (or_list (pa_required_ids a))
        (or_list (pa_hints a)) (sorted_deployments ds) plan_start = (s, r, opts)"
      by (metis prod_cases3)
    have T: "tr_admitted (trace_plan ds inventory a) = s" "tr_required (trace_plan ds inventory a) = r" "tr_optional (trace_plan ds inventory a) = opts"
      using True adm trace_plan_stages(1)[of ds inventory a] by (simp_all add: admit_def)
    have fr: "fresh_for plan_start (sorted_deployments ds)" using ids by (simp add: fresh_for_start)
    have h: "{d \<in> set (sorted_deployments ds). dget (or_list (pa_hard a)) (dep_id d) \<noteq> None} = hard_deps ds a"
      using True by (auto simp: hard_deps_def)
    note S = admission_pass_settles[OF plan_inv_plan_start fr adm, unfolded h]
    note sp = admission_pass_split[OF adm]
    have rq: "set r = required_deps ds a" using sp True by (auto simp: required_deps_def)
    have op: "set opts = optional_deps ds a"
      using sp True dget_None_iff[of "or_list (pa_hints a)"] by (auto simp: optional_deps_def)
    have di: "distinct (map dep_id r)" "distinct (map dep_id opts)"
      using sp ids by (simp_all add: distinct_map_filterI)
    show ?thesis unfolding T using S rq op di by simp
  qed
  then show "settles (\<lambda>s. set (gp_degraded (pn_plan s))) (\<lambda>d w. dget (or_list (pa_hard a)) (dep_id d) = Some w)
           (plan_pin_pool inventory a) plan_start (tr_admitted (trace_plan ds inventory a)) (hard_deps ds a)"
    "gp_errors (pn_plan (tr_admitted (trace_plan ds inventory a))) = []" "gp_displaced (pn_plan (tr_admitted (trace_plan ds inventory a))) = []"
    "set (tr_required (trace_plan ds inventory a)) = required_deps ds a" "set (tr_optional (trace_plan ds inventory a)) = optional_deps ds a"
    "distinct (map dep_id (tr_required (trace_plan ds inventory a)))" "distinct (map dep_id (tr_optional (trace_plan ds inventory a)))"
    by blast+
qed

lemma plan_admitted_inv:
  assumes ids: "distinct (map dep_id ds)"
  shows "plan_inv (plan_pin_pool inventory a) (tr_admitted (trace_plan ds inventory a))"
  using plan_admitted(1)[OF ids] by (simp only: settles_def)

lemma plan_required_fresh:
  assumes ids: "distinct (map dep_id ds)"
  shows "fresh_for (tr_admitted (trace_plan ds inventory a)) (tr_required (trace_plan ds inventory a))"
proof -
  have "set (dkeys (asg (tr_admitted (trace_plan ds inventory a)))) \<subseteq> dep_id ` hard_deps ds a"
    using plan_admitted(1)[OF ids] by (simp add: settles_def grows_def)
  moreover have "dep_id ` hard_deps ds a \<inter> dep_id ` required_deps ds a = {}"
    using image_disjoint[OF ids] deps_partition by metis
  ultimately show ?thesis using plan_admitted(4,6)[OF ids] unfolding fresh_for_def by blast
qed

lemma plan_pinned:
  assumes ids: "distinct (map dep_id ds)"
  shows "settles err_ids (\<lambda>d w. dget (if admission_mode a then [] else pa_pinned a) (dep_id d) = Some w)
           (plan_pin_pool inventory a) (tr_admitted (trace_plan ds inventory a)) (tr_pinned (trace_plan ds inventory a)) (pin_kept ds inventory a)"
    and "fresh_for (tr_pinned (trace_plan ds inventory a)) (tr_deferred (trace_plan ds inventory a))" "set (tr_deferred (trace_plan ds inventory a)) \<subseteq> set (tr_required (trace_plan ds inventory a))"
    and "gp_errors (pn_plan (tr_pinned (trace_plan ds inventory a))) = []"
    and "gp_degraded (pn_plan (tr_pinned (trace_plan ds inventory a))) = gp_degraded (pn_plan (tr_admitted (trace_plan ds inventory a)))"
    and "gp_displaced (pn_plan (tr_pinned (trace_plan ds inventory a))) = []"
proof -
  have ev: "pinned_pass (memory_map inventory) (plan_pin_pool inventory a) (if admission_mode a then [] else pa_pinned a) (tr_required (trace_plan ds inventory a)) (tr_admitted (trace_plan ds inventory a))
      = (tr_pinned (trace_plan ds inventory a), tr_deferred (trace_plan ds inventory a))"
    by (rule trace_plan_stages(2))
  show "settles err_ids (\<lambda>d w. dget (if admission_mode a then [] else pa_pinned a) (dep_id d) = Some w)
           (plan_pin_pool inventory a) (tr_admitted (trace_plan ds inventory a)) (tr_pinned (trace_plan ds inventory a)) (pin_kept ds inventory a)"
    by (rule pinned_pass_settles[OF plan_admitted_inv[OF ids] plan_required_fresh[OF ids] ev])
  note ok = pinned_pass_ok[OF plan_admitted_inv[OF ids] plan_required_fresh[OF ids] ev]
  show "fresh_for (tr_pinned (trace_plan ds inventory a)) (tr_deferred (trace_plan ds inventory a))" "set (tr_deferred (trace_plan ds inventory a)) \<subseteq> set (tr_required (trace_plan ds inventory a))"
    "gp_errors (pn_plan (tr_pinned (trace_plan ds inventory a))) = []"
    "gp_degraded (pn_plan (tr_pinned (trace_plan ds inventory a))) = gp_degraded (pn_plan (tr_admitted (trace_plan ds inventory a)))"
    "gp_displaced (pn_plan (tr_pinned (trace_plan ds inventory a))) = []"
    using ok plan_admitted[OF ids] by simp_all
qed

lemma plan_pinned_inv:
  assumes ids: "distinct (map dep_id ds)"
  shows "plan_inv (plan_pin_pool inventory a) (tr_pinned (trace_plan ds inventory a))"
  using plan_pinned(1)[OF ids] by (simp only: settles_def)

lemma plan_explicit_ev:
  assumes ids: "distinct (map dep_id ds)"
  shows "explicit_pass (memory_map inventory) (plan_pool inventory a) (tr_deferred (trace_plan ds inventory a)) (tr_pinned (trace_plan ds inventory a)) = (tr_explicit (trace_plan ds inventory a), tr_fits (trace_plan ds inventory a))"
  by (rule trace_plan_stages(3))

lemma plan_fits_eq:
  assumes ids: "distinct (map dep_id ds)"
  shows "tr_fits (trace_plan ds inventory a) = filter (\<lambda>d. explicit_indices d = None) (tr_deferred (trace_plan ds inventory a))"
  by (rule explicit_pass_left[OF plan_explicit_ev[OF ids]])

lemma plan_expl:
  assumes ids: "distinct (map dep_id ds)"
  shows "settles err_ids (\<lambda>d w. explicit_indices d = Some w \<and> set w \<subseteq> set (plan_pool inventory a))
           (plan_pin_pool inventory a) (tr_pinned (trace_plan ds inventory a)) (tr_explicit (trace_plan ds inventory a)) (explicit_deps ds inventory a)"
    and "gp_degraded (pn_plan (tr_explicit (trace_plan ds inventory a))) = gp_degraded (pn_plan (tr_admitted (trace_plan ds inventory a)))"
    and "gp_displaced (pn_plan (tr_explicit (trace_plan ds inventory a))) = []"
  using explicit_pass_settles[OF plan_pinned_inv[OF ids] plan_pinned(2)[OF ids] plan_pool_subset plan_explicit_ev[OF ids]] plan_pinned(5,6)[OF ids]
  by simp_all

lemma plan_expl_inv:
  assumes ids: "distinct (map dep_id ds)"
  shows "plan_inv (plan_pin_pool inventory a) (tr_explicit (trace_plan ds inventory a))"
  using plan_expl(1)[OF ids] by (simp only: settles_def)

lemma plan_deferred_distinct:
  assumes ids: "distinct (map dep_id ds)"
  shows "distinct (map dep_id (tr_deferred (trace_plan ds inventory a)))"
  using plan_pinned(2)[OF ids] by (simp add: fresh_for_def)

lemma plan_fits_fresh:
  assumes ids: "distinct (map dep_id ds)"
  shows "fresh_for (tr_explicit (trace_plan ds inventory a)) (tr_fits (trace_plan ds inventory a))"
  by (rule settles_fresh[OF plan_expl(1)[OF ids], where all = "tr_deferred (trace_plan ds inventory a)"])
     (use plan_pinned(2)[OF ids] in \<open>auto simp: plan_fits_eq[OF ids] fresh_for_def distinct_map_filterI plan_deferred_distinct[OF ids]\<close>)

lemma plan_fit:
  assumes ids: "distinct (map dep_id ds)"
  shows "settles err_ids (\<lambda>d w. True) (plan_pin_pool inventory a) (tr_explicit (trace_plan ds inventory a)) (tr_fitted (trace_plan ds inventory a)) (set (tr_fits (trace_plan ds inventory a)))"
    and "gp_degraded (pn_plan (tr_fitted (trace_plan ds inventory a))) = gp_degraded (pn_plan (tr_admitted (trace_plan ds inventory a)))"
    and "gp_displaced (pn_plan (tr_fitted (trace_plan ds inventory a))) = []"
    and "d \<in> set (tr_fits (trace_plan ds inventory a)) \<Longrightarrow> fitted (memory_map inventory) (plan_pool inventory a) (tr_fitted (trace_plan ds inventory a)) d"
proof -
  have T: "tr_fitted (trace_plan ds inventory a) = fit_pass (memory_map inventory) (plan_pool inventory a) (sort_key (fit_order (memory_map inventory) (plan_pool inventory a)) (tr_fits (trace_plan ds inventory a))) (tr_explicit (trace_plan ds inventory a))"
    by (rule trace_plan_stages(4))
  have fr: "fresh_for (tr_explicit (trace_plan ds inventory a)) (sort_key (fit_order (memory_map inventory) (plan_pool inventory a)) (tr_fits (trace_plan ds inventory a)))"
    using plan_fits_fresh[OF ids] fresh_for_mset[of "sort_key (fit_order (memory_map inventory) (plan_pool inventory a)) (tr_fits (trace_plan ds inventory a))" "tr_fits (trace_plan ds inventory a)"] by simp
  note S = fit_pass_settles[OF plan_expl_inv[OF ids] fr plan_pool_subset, folded T, of "memory_map inventory", unfolded set_sort]
  show "settles err_ids (\<lambda>d w. True) (plan_pin_pool inventory a) (tr_explicit (trace_plan ds inventory a)) (tr_fitted (trace_plan ds inventory a)) (set (tr_fits (trace_plan ds inventory a)))"
    "gp_degraded (pn_plan (tr_fitted (trace_plan ds inventory a))) = gp_degraded (pn_plan (tr_admitted (trace_plan ds inventory a)))"
    "gp_displaced (pn_plan (tr_fitted (trace_plan ds inventory a))) = []"
    "d \<in> set (tr_fits (trace_plan ds inventory a)) \<Longrightarrow> fitted (memory_map inventory) (plan_pool inventory a) (tr_fitted (trace_plan ds inventory a)) d"
    using S plan_expl(2,3)[OF ids] unfolding T by simp_all
qed

lemma plan_fit_inv:
  assumes ids: "distinct (map dep_id ds)"
  shows "plan_inv (plan_pin_pool inventory a) (tr_fitted (trace_plan ds inventory a))"
  using plan_fit(1)[OF ids] by (simp only: settles_def)

text \<open>Up to the third loop the plan has grown by hard and required deployments only.\<close>

lemma plan_required_split:
  assumes ids: "distinct (map dep_id ds)"
  shows "required_deps ds a = (pin_kept ds inventory a) \<union> (explicit_deps ds inventory a) \<union> set (tr_fits (trace_plan ds inventory a))"
  using plan_admitted(4)[OF ids, where inventory = inventory and a = a] plan_pinned(3)[OF ids, where inventory = inventory and a = a] by (auto simp: plan_fits_eq[OF ids, where inventory = inventory and a = a])

lemma plan_fitted_grows:
  assumes ids: "distinct (map dep_id ds)"
  shows "grows (tr_admitted (trace_plan ds inventory a)) (tr_fitted (trace_plan ds inventory a)) (dep_id ` required_deps ds a)"
  "grows plan_start (tr_fitted (trace_plan ds inventory a)) (dep_id ` (hard_deps ds a \<union> required_deps ds a))"
proof -
  have g: "grows plan_start (tr_admitted (trace_plan ds inventory a)) (dep_id ` hard_deps ds a)"
    "grows (tr_admitted (trace_plan ds inventory a)) (tr_pinned (trace_plan ds inventory a)) (dep_id ` (pin_kept ds inventory a))" "grows (tr_pinned (trace_plan ds inventory a)) (tr_explicit (trace_plan ds inventory a)) (dep_id ` (explicit_deps ds inventory a))"
    "grows (tr_explicit (trace_plan ds inventory a)) (tr_fitted (trace_plan ds inventory a)) (dep_id ` set (tr_fits (trace_plan ds inventory a)))"
    using plan_admitted(1)[OF ids, where inventory = inventory and a = a] plan_pinned(1)[OF ids, where inventory = inventory and a = a] plan_expl(1)[OF ids, where inventory = inventory and a = a] plan_fit(1)[OF ids, where inventory = inventory and a = a] by (simp_all only: settles_def)
  have "grows (tr_pinned (trace_plan ds inventory a)) (tr_fitted (trace_plan ds inventory a)) (dep_id ` ((explicit_deps ds inventory a) \<union> set (tr_fits (trace_plan ds inventory a))))"
    by (rule grows_trans[OF g(3,4)]) blast
  then show req: "grows (tr_admitted (trace_plan ds inventory a)) (tr_fitted (trace_plan ds inventory a)) (dep_id ` required_deps ds a)"
    by (rule grows_trans[OF g(2)]) (auto simp: plan_required_split[OF ids, where inventory = inventory and a = a])
  show "grows plan_start (tr_fitted (trace_plan ds inventory a)) (dep_id ` (hard_deps ds a \<union> required_deps ds a))"
    by (rule grows_trans[OF g(1) req]) blast
qed

lemma plan_fitted_keys:
  assumes ids: "distinct (map dep_id ds)"
  shows "set (dkeys (asg (tr_fitted (trace_plan ds inventory a)))) \<subseteq> dep_id ` (hard_deps ds a \<union> required_deps ds a)"
  using plan_fitted_grows(2)[OF ids, where inventory = inventory and a = a] by (simp add: grows_def)

lemma plan_optional_fresh:
  assumes ids: "distinct (map dep_id ds)"
  shows "fresh_for (tr_fitted (trace_plan ds inventory a)) (tr_optional (trace_plan ds inventory a))"
proof -
  have "dep_id ` (hard_deps ds a \<union> required_deps ds a) \<inter> dep_id ` optional_deps ds a = {}"
    by (rule image_disjoint[OF ids]) (use deps_partition[of ds a] in blast)+
  then show ?thesis
    using plan_fitted_keys[OF ids, where inventory = inventory and a = a] plan_admitted(5,7)[OF ids, where inventory = inventory and a = a] unfolding fresh_for_def by blast
qed

lemma plan_final:
  assumes ids: "distinct (map dep_id ds)"
  shows "settles (\<lambda>s. set (gp_displaced (pn_plan s))) (\<lambda>d w. dget (or_list (pa_hints a)) (dep_id d) = Some w)
           (plan_pin_pool inventory a) (tr_fitted (trace_plan ds inventory a)) (tr_final (trace_plan ds inventory a)) (optional_deps ds a)"
    and "gp_degraded (pn_plan (tr_final (trace_plan ds inventory a))) = gp_degraded (pn_plan (tr_admitted (trace_plan ds inventory a)))"
    and "gp_errors (pn_plan (tr_final (trace_plan ds inventory a))) = gp_errors (pn_plan (tr_fitted (trace_plan ds inventory a)))"
proof -
  have T: "tr_final (trace_plan ds inventory a) = optional_pass (plan_pin_pool inventory a) (or_list (pa_hints a)) (tr_optional (trace_plan ds inventory a)) (tr_fitted (trace_plan ds inventory a))"
    by (rule trace_plan_stages(5))
  have h: "\<forall>d \<in> set (tr_optional (trace_plan ds inventory a)). dget (or_list (pa_hints a)) (dep_id d) \<noteq> None"
    unfolding plan_admitted(5)[OF ids, where inventory = inventory and a = a] by (simp add: optional_deps_def)
  note S = optional_pass_settles[OF plan_fit_inv[OF ids, where inventory = inventory and a = a] plan_optional_fresh[OF ids, where inventory = inventory and a = a] h, folded T, unfolded plan_admitted(5)[OF ids, where inventory = inventory and a = a]]
  show "settles (\<lambda>s. set (gp_displaced (pn_plan s))) (\<lambda>d w. dget (or_list (pa_hints a)) (dep_id d) = Some w)
           (plan_pin_pool inventory a) (tr_fitted (trace_plan ds inventory a)) (tr_final (trace_plan ds inventory a)) (optional_deps ds a)"
    "gp_degraded (pn_plan (tr_final (trace_plan ds inventory a))) = gp_degraded (pn_plan (tr_admitted (trace_plan ds inventory a)))"
    "gp_errors (pn_plan (tr_final (trace_plan ds inventory a))) = gp_errors (pn_plan (tr_fitted (trace_plan ds inventory a)))"
    using S plan_fit(2)[OF ids, where inventory = inventory and a = a] unfolding T by simp_all
qed

lemma plan_final_inv:
  assumes ids: "distinct (map dep_id ds)"
  shows "plan_inv (plan_pin_pool inventory a) (tr_final (trace_plan ds inventory a))"
  using plan_final(1)[OF ids, where inventory = inventory and a = a] by (simp only: settles_def)

lemma plan_grows_after_admit:
  assumes ids: "distinct (map dep_id ds)"
  shows "grows (tr_admitted (trace_plan ds inventory a)) (tr_final (trace_plan ds inventory a)) (dep_id ` (required_deps ds a \<union> optional_deps ds a))"
  by (rule grows_trans[OF plan_fitted_grows(1)[OF ids, where inventory = inventory and a = a]])
     (use plan_final(1)[OF ids, where inventory = inventory and a = a] in \<open>auto simp only: settles_def image_Un Un_subset_iff\<close>)

lemma plan_final_grows:
  assumes ids: "distinct (map dep_id ds)"
  shows "grows (tr_fitted (trace_plan ds inventory a)) (tr_final (trace_plan ds inventory a)) (dep_id ` optional_deps ds a)"
  using plan_final(1)[OF ids, where inventory = inventory and a = a] by (simp only: settles_def)

text \<open>What became of hard, required and optional deployments in the finished plan.\<close>

lemma plan_hard_settled:
  assumes ids: "distinct (map dep_id ds)"
  shows "settled (\<lambda>s. set (gp_degraded (pn_plan s))) (\<lambda>d w. dget (or_list (pa_hard a)) (dep_id d) = Some w)
     (tr_final (trace_plan ds inventory a)) (hard_deps ds a) {}"
proof (rule settled_later[OF _ plan_grows_after_admit[OF ids, where inventory = inventory and a = a]])
  show "settled (\<lambda>s. set (gp_degraded (pn_plan s))) (\<lambda>d w. dget (or_list (pa_hard a)) (dep_id d) = Some w)
     (tr_admitted (trace_plan ds inventory a)) (hard_deps ds a) {}"
    using settles_settled[OF plan_admitted(1)[OF ids, where inventory = inventory and a = a]] by simp
  show "dep_id ` hard_deps ds a \<inter> dep_id ` (required_deps ds a \<union> optional_deps ds a) = {}"
    by (rule image_disjoint[OF ids]) (use deps_partition[of ds a] in blast)+
qed (use plan_final(2)[OF ids, where inventory = inventory and a = a] in simp)

lemma plan_err_ids_admitted:
  assumes ids: "distinct (map dep_id ds)"
  shows "err_ids (tr_admitted (trace_plan ds inventory a)) = {}"
  by (simp add: err_ids_def plan_admitted(2)[OF ids, where inventory = inventory and a = a])

lemma plan_sub_required:
  assumes ids: "distinct (map dep_id ds)"
  shows "(pin_kept ds inventory a) \<subseteq> set ds" "(explicit_deps ds inventory a) \<subseteq> set ds" "set (tr_fits (trace_plan ds inventory a)) \<subseteq> set ds"
  using deps_partition(2)[of ds a] plan_required_split[OF ids, where inventory = inventory and a = a] by blast+

lemma plan_required_settled:
  assumes ids: "distinct (map dep_id ds)"
  shows "settled err_ids (\<lambda>d w. d \<in> (pin_kept ds inventory a) \<and> dget (if admission_mode a then [] else pa_pinned a) (dep_id d) = Some w
        \<or> explicit_indices d = Some w \<and> set w \<subseteq> set (plan_pool inventory a) \<or> d \<in> set (tr_fits (trace_plan ds inventory a)))
     (tr_final (trace_plan ds inventory a)) (required_deps ds a) {}"
proof -
  have d1: "dep_id ` (explicit_deps ds inventory a) \<inter> dep_id ` set (tr_fits (trace_plan ds inventory a)) = {}"
    by (rule image_disjoint[OF ids]) (use plan_sub_required[OF ids, where inventory = inventory and a = a] in \<open>auto simp: plan_fits_eq[OF ids, where inventory = inventory and a = a]\<close>)
  have d2: "dep_id ` (pin_kept ds inventory a) \<inter> dep_id ` ((explicit_deps ds inventory a) \<union> set (tr_fits (trace_plan ds inventory a))) = {}"
    by (rule image_disjoint[OF ids]) (use plan_sub_required[OF ids, where inventory = inventory and a = a] in \<open>auto simp: plan_fits_eq[OF ids, where inventory = inventory and a = a]\<close>)
  note a1 = settles_trans[OF plan_expl(1)[OF ids, where inventory = inventory and a = a] plan_fit(1)[OF ids, where inventory = inventory and a = a] d1]
  note a2 = settles_trans[OF plan_pinned(1)[OF ids, where inventory = inventory and a = a] a1 d2]
  have eq: "(pin_kept ds inventory a) \<union> ((explicit_deps ds inventory a) \<union> set (tr_fits (trace_plan ds inventory a))) = required_deps ds a" by (simp add: plan_required_split[OF ids, where inventory = inventory and a = a] Un_assoc)
  show ?thesis
  proof (rule settled_later[OF _ plan_final_grows[OF ids, where inventory = inventory and a = a]])
    show "settled err_ids (\<lambda>d w. d \<in> (pin_kept ds inventory a) \<and> dget (if admission_mode a then [] else pa_pinned a) (dep_id d) = Some w
        \<or> explicit_indices d = Some w \<and> set w \<subseteq> set (plan_pool inventory a) \<or> d \<in> set (tr_fits (trace_plan ds inventory a)))
     (tr_fitted (trace_plan ds inventory a)) (required_deps ds a) {}"
      using settles_settled[OF a2, unfolded eq plan_err_ids_admitted[OF ids, where inventory = inventory and a = a]] unfolding settled_def by blast
    show "dep_id ` required_deps ds a \<inter> dep_id ` optional_deps ds a = {}"
      by (rule image_disjoint[OF ids]) (use deps_partition[of ds a] in blast)+
    show "err_ids (tr_final (trace_plan ds inventory a)) = err_ids (tr_fitted (trace_plan ds inventory a))" by (simp add: err_ids_def plan_final(3)[OF ids, where inventory = inventory and a = a])
  qed
qed

lemma plan_optional_settled:
  assumes ids: "distinct (map dep_id ds)"
  shows "settled (\<lambda>s. set (gp_displaced (pn_plan s))) (\<lambda>d w. dget (or_list (pa_hints a)) (dep_id d) = Some w)
     (tr_final (trace_plan ds inventory a)) (optional_deps ds a) {}"
  using settles_settled[OF plan_final(1)[OF ids, where inventory = inventory and a = a]] plan_fit(3)[OF ids, where inventory = inventory and a = a] by simp

lemma plan_final_keys:
  assumes ids: "distinct (map dep_id ds)"
  shows "set (dkeys (asg (tr_final (trace_plan ds inventory a)))) \<subseteq> dep_id ` (hard_deps ds a \<union> required_deps ds a \<union> optional_deps ds a)"
  using plan_final_grows[OF ids, where inventory = inventory and a = a] plan_fitted_keys[OF ids, where inventory = inventory and a = a] unfolding grows_def by blast

lemma plan_final_fitted:
  assumes ids: "distinct (map dep_id ds)" and "d \<in> set (tr_fits (trace_plan ds inventory a))"
  shows "fitted (memory_map inventory) (plan_pool inventory a) (tr_final (trace_plan ds inventory a)) d"
proof -
  have "dep_id ` set (tr_fits (trace_plan ds inventory a)) \<inter> dep_id ` optional_deps ds a = {}"
    by (rule image_disjoint[OF ids plan_sub_required(3)[OF ids, where inventory = inventory and a = a]])
       (use deps_partition[of ds a] plan_required_split[OF ids, where inventory = inventory and a = a] in blast)+
  then have "dep_id d \<notin> dep_id ` optional_deps ds a" using assms by blast
  note same = grows_not_in[OF plan_final_grows[OF ids, where inventory = inventory and a = a] this]
  have "set (pn_used (tr_fitted (trace_plan ds inventory a))) \<subseteq> set (pn_used (tr_final (trace_plan ds inventory a)))" using plan_final_grows[OF ids, where inventory = inventory and a = a] by (simp add: grows_def)
  then show ?thesis
    using plan_fit(4)[OF ids, where inventory = inventory and a = a, OF assms(2)] unfolding fitted_def same plan_final(3)[OF ids, where inventory = inventory and a = a]
    by (auto split: option.splits; meson subset_trans)
qed

lemma plan_used_is_assigned:
  assumes ids: "distinct (map dep_id ds)"
  shows "set (pn_used (tr_final (trace_plan ds inventory a))) = (\<Union>p \<in> set (asg (tr_final (trace_plan ds inventory a))). set (snd p))"
  using plan_final_inv[OF ids, where inventory = inventory and a = a] by (simp add: plan_inv_def)

lemma plan_fits_iff:
  assumes ids: "distinct (map dep_id ds)" and "d \<in> required_deps ds a" and "explicit_indices d = None"
    and "admission_mode a \<or> dget (pa_pinned a) (dep_id d) = None"
  shows "d \<in> set (tr_fits (trace_plan ds inventory a))"
proof -
  have "d \<notin> (pin_kept ds inventory a)"
  proof
    assume k: "d \<in> (pin_kept ds inventory a)"
    have "{dep_id d |d. d \<in> (pin_kept ds inventory a) \<and> dep_id d \<notin> set (dkeys (asg (tr_pinned (trace_plan ds inventory a))))} = {}"
      using plan_pinned(1,4)[OF ids, where inventory = inventory and a = a] plan_err_ids_admitted[OF ids, where inventory = inventory and a = a] unfolding settles_def err_ids_def by auto
    then have "dep_id d \<in> set (dkeys (asg (tr_pinned (trace_plan ds inventory a))))" using k by blast
    then obtain w where "dget (asg (tr_pinned (trace_plan ds inventory a))) (dep_id d) = Some w" by (rule in_dkeysE)
    then have "dget (if admission_mode a then [] else pa_pinned a) (dep_id d) = Some w"
      using plan_pinned(1)[OF ids, where inventory = inventory and a = a] k unfolding settles_def by blast
    then show False using assms(4) by (auto split: if_splits)
  qed
  then show ?thesis using assms plan_required_split[OF ids, where inventory = inventory and a = a] by auto
qed

section \<open>Stability of held allocations\<close>

text \<open>
  Allocations are valid together when they are physical and pairwise disjoint. Valid hard
  allocations are all kept.
\<close>

definition valid_allocations :: "int list \<Rightarrow> (string, int list) dict \<Rightarrow> deployment list \<Rightarrow> bool" where
  "valid_allocations P alloc ds \<longleftrightarrow>
     (\<forall>d \<in> set ds. \<forall>w. dget alloc (dep_id d) = Some w \<longrightarrow> set w \<subseteq> set P) \<and>
     (\<forall>d \<in> set ds. \<forall>e \<in> set ds. \<forall>w v. dep_id d \<noteq> dep_id e \<longrightarrow> dget alloc (dep_id d) = Some w
        \<longrightarrow> dget alloc (dep_id e) = Some v \<longrightarrow> set w \<inter> set v = {})"

lemma valid_allocations_ConsD:
  assumes "valid_allocations P alloc (d # ds)"
  shows "valid_allocations P alloc ds"
    "dget alloc (dep_id d) = Some w \<Longrightarrow> set w \<subseteq> set P"
  using assms by (auto simp: valid_allocations_def)

lemma valid_allocations_ConsD2:
  assumes "valid_allocations P alloc (d # ds)" and "dget alloc (dep_id d) = Some w"
    and "e \<in> set ds" "dep_id d \<notin> dep_id ` set ds" "dget alloc (dep_id e) = Some v"
  shows "set w \<inter> set v = {}"
proof -
  have "dep_id d \<noteq> dep_id e" using assms(3,4) by auto
  then show ?thesis using assms unfolding valid_allocations_def by simp
qed

lemma valid_allocations_subset:
  "valid_allocations P alloc ds \<Longrightarrow> set es \<subseteq> set ds \<Longrightarrow> valid_allocations P alloc es"
  unfolding valid_allocations_def by blast

lemma admission_pass_valid:
  assumes "valid_allocations P hard ds" and "distinct (map dep_id ds)"
    and "\<forall>d \<in> set ds. \<forall>w. dget hard (dep_id d) = Some w \<longrightarrow> set w \<inter> set (pn_used s) = {}"
  shows "gp_degraded (pn_plan (fst (admission_pass P hard req hints ds s))) = gp_degraded (pn_plan s)"
  using assms
proof (induction P hard req hints ds s rule: admission_pass.induct)
  case (1 P hard req hints s)
  then show ?case by simp
next
  case (2 P hard req hints d ds s)
  note v = valid_allocations_ConsD[OF 2(4)]
  have fresh: "dep_id d \<notin> dep_id ` set ds" and di: "distinct (map dep_id ds)" using 2(5) by auto
  show ?case
  proof (cases "dget hard (dep_id d)")
    case None
    then show ?thesis using 2(1)[OF None v(1) di] 2(6) by (auto split: prod.splits)
  next
    case (Some w)
    have free: "free_in P (pn_used s) w"
      using v(2)[OF Some] 2(6) Some by (simp add: free_in_iff)
    have "\<forall>e \<in> set ds. \<forall>u. dget hard (dep_id e) = Some u
        \<longrightarrow> set u \<inter> set (pn_used (assign (dep_id d) w s)) = {}"
    proof (intro ballI allI impI)
      fix e u assume e: "e \<in> set ds" "dget hard (dep_id e) = Some u"
      have "set w \<inter> set u = {}" by (rule valid_allocations_ConsD2[OF 2(4) Some e(1) fresh e(2)])
      moreover have "set u \<inter> set (pn_used s) = {}" using 2(6) e by simp
      ultimately show "set u \<inter> set (pn_used (assign (dep_id d) w s)) = {}" by auto
    qed
    from 2(2)[OF Some free v(1) di this] show ?thesis using Some free by simp
  qed
qed

lemma pinned_pass_valid:
  assumes "valid_allocations P pinned ds" and "distinct (map dep_id ds)"
    and "\<forall>d \<in> set ds. \<forall>w. dget pinned (dep_id d) = Some w \<longrightarrow> set w \<inter> set (pn_used s) = {}"
  shows "snd (pinned_pass memory P pinned ds s) = filter (\<lambda>d. dget pinned (dep_id d) = None) ds"
  using assms
proof (induction memory P pinned ds s rule: pinned_pass.induct)
  case (1 memory P pinned s)
  then show ?case by simp
next
  case (2 memory P pinned d ds s)
  note v = valid_allocations_ConsD[OF 2(4)]
  have fresh: "dep_id d \<notin> dep_id ` set ds" and di: "distinct (map dep_id ds)" using 2(5) by auto
  show ?case
  proof (cases "dget pinned (dep_id d)")
    case None
    then show ?thesis using 2(1)[OF None v(1) di] 2(6) by (simp add: map_prod_def case_prod_beta)
  next
    case (Some w)
    have free: "free_in P (pn_used s) w"
      using v(2)[OF Some] 2(6) Some by (simp add: free_in_iff)
    let ?s = "declaration_warning memory d w Pinned (assign (dep_id d) w s)"
    have "\<forall>e \<in> set ds. \<forall>u. dget pinned (dep_id e) = Some u \<longrightarrow> set u \<inter> set (pn_used ?s) = {}"
    proof (intro ballI allI impI)
      fix e u assume e: "e \<in> set ds" "dget pinned (dep_id e) = Some u"
      have "set w \<inter> set u = {}" by (rule valid_allocations_ConsD2[OF 2(4) Some e(1) fresh e(2)])
      moreover have "set u \<inter> set (pn_used s) = {}" using 2(6) e by simp
      ultimately show "set u \<inter> set (pn_used ?s) = {}" by auto
    qed
    from 2(2)[OF Some free v(1) di this] show ?thesis using Some free by simp
  qed
qed

section \<open>Facts about finished plans\<close>

text \<open>
  The contract of the planner, in the vocabulary of its callers: what holds of
  \<open>plan_placement ds inventory a\<close> for a list of deployments with different ids.
\<close>

lemma plan_keys_distinct:
  "distinct (map dep_id ds) \<Longrightarrow> distinct (dkeys (gp_assignments (plan_placement ds inventory a)))"
  using plan_final_inv[of ds inventory a] by (simp add: plan_placement_trace plan_inv_def)

lemma plan_disjoint:
  assumes ids: "distinct (map dep_id ds)" and "k \<noteq> l"
    and "dget (gp_assignments (plan_placement ds inventory a)) k = Some w"
    and "dget (gp_assignments (plan_placement ds inventory a)) l = Some v"
  shows "set w \<inter> set v = {}"
proof -
  have "(k, w) \<in> set (asg (tr_final (trace_plan ds inventory a)))"
    "(l, v) \<in> set (asg (tr_final (trace_plan ds inventory a)))"
    using assms(3,4) by (simp_all add: plan_placement_trace dget_SomeD)
  then show ?thesis
    using plan_final_inv[OF ids, of inventory a] assms(2) unfolding plan_inv_def
    by (metis fst_conv snd_conv)
qed

lemma plan_physical:
  assumes ids: "distinct (map dep_id ds)"
    and "dget (gp_assignments (plan_placement ds inventory a)) k = Some w"
  shows "set w \<subseteq> set (plan_pin_pool inventory a)"
proof -
  have "(k, w) \<in> set (asg (tr_final (trace_plan ds inventory a)))"
    using assms(2) by (simp add: plan_placement_trace dget_SomeD)
  then show ?thesis
    using plan_final_inv[OF ids, of inventory a] unfolding plan_inv_def by force
qed

lemma fate_iff:
  assumes "settled R Q s D {}" and "d \<in> D"
  shows "dep_id d \<in> R s \<longleftrightarrow> dget (asg s) (dep_id d) = None"
  using assms unfolding settled_def dget_None_iff by auto

lemma fate_value:
  "settled R Q s D {} \<Longrightarrow> d \<in> D \<Longrightarrow> dget (asg s) (dep_id d) = Some w \<Longrightarrow> Q d w"
  by (simp add: settled_def)

lemma fate_outside:
  assumes "settled R Q s D {}" and "distinct (map dep_id ds)" "D \<subseteq> set ds" "d \<in> set ds" "d \<notin> D"
  shows "dep_id d \<notin> R s"
proof
  assume "dep_id d \<in> R s"
  then obtain e where "e \<in> D" "dep_id e = dep_id d" using assms(1) unfolding settled_def by auto
  then show False using distinct_map_key_eq[OF assms(2), of e d] assms(3-5) by auto
qed

lemma unplaced:
  assumes ids: "distinct (map dep_id ds)" and "d \<in> set ds"
    and "d \<notin> hard_deps ds a \<union> required_deps ds a \<union> optional_deps ds a"
  shows "dget (gp_assignments (plan_placement ds inventory a)) (dep_id d) = None"
proof -
  let ?D = "hard_deps ds a \<union> required_deps ds a \<union> optional_deps ds a"
  have "dep_id d \<notin> dep_id ` ?D"
    using image_disjoint[OF ids, of ?D "{d}"] deps_partition[of ds a] assms(2,3) by auto
  then show ?thesis
    using plan_final_keys[OF ids, of inventory a] by (auto simp: plan_placement_trace dget_None_iff)
qed

lemma err_ids_plan:
  "err_ids (tr_final (trace_plan ds inventory a)) = fst ` set (gp_errors (plan_placement ds inventory a))"
  by (simp add: err_ids_def plan_placement_trace)

lemma plan_fitted:
  assumes ids: "distinct (map dep_id ds)" and d: "d \<in> required_deps ds a" "explicit_indices d = None"
    and pin: "admission_mode a \<or> dget (pa_pinned a) (dep_id d) = None"
  shows "fitted (memory_map inventory) (plan_pool inventory a) (tr_final (trace_plan ds inventory a)) d"
  by (rule plan_final_fitted[OF ids plan_fits_iff[OF ids d pin]])

text \<open>The GPUs a plan has handed out.\<close>

definition plan_used :: "gpu_plan \<Rightarrow> int set" where
  "plan_used p = (\<Union>q \<in> set (gp_assignments p). set (snd q))"

lemma plan_used_final:
  "distinct (map dep_id ds)
   \<Longrightarrow> set (pn_used (tr_final (trace_plan ds inventory a))) = plan_used (plan_placement ds inventory a)"
  using plan_used_is_assigned[of ds inventory a] by (simp add: plan_used_def plan_placement_trace)


section \<open>Properties\<close>


text \<open>
  The planner is total. Outside admission mode every deployment is either assigned GPUs or
  reported as a placement error, never both, and nothing is degraded or displaced.
\<close>

theorem plan_total:
  assumes "distinct (map dep_id ds)" and "\<not> admission_mode a" and "d \<in> set ds"
  shows "(dget (gp_assignments (plan_placement ds inventory a)) (dep_id d) = None
          \<longleftrightarrow> dep_id d \<in> fst ` set (gp_errors (plan_placement ds inventory a)))
    \<and> gp_degraded (plan_placement ds inventory a) = []
    \<and> gp_displaced (plan_placement ds inventory a) = []"
proof -
  let ?s = "tr_final (trace_plan ds inventory a)"
  have D: "hard_deps ds a = {}" "optional_deps ds a = {}" "d \<in> required_deps ds a"
    using assms(2,3) by (auto simp: hard_deps_def optional_deps_def required_deps_def)
  have "set (gp_degraded (pn_plan ?s)) = {}" "set (gp_displaced (pn_plan ?s)) = {}"
    using plan_hard_settled[OF assms(1), where inventory = inventory and a = a] plan_optional_settled[OF assms(1), where inventory = inventory and a = a] D
    by (simp_all add: settled_def)
  then show ?thesis
    using fate_iff[OF plan_required_settled[OF assms(1), where inventory = inventory and a = a] D(3)]
      err_ids_plan[of ds inventory a]
    by (simp add: plan_placement_trace)
qed

text \<open>
  C33. Admission mode classifies every deployment by demand. A committed (hard) allocation is
  kept exactly or degraded, and is never an error or re-placed; a required deployment without
  one is placed or is an error; an optional resident keeps exactly the GPUs of its hint or is
  displaced; any other deployment is left out of the plan.
\<close>

theorem plan_fates:
  assumes "distinct (map dep_id ds)" and "admission_mode a" and "d \<in> set ds"
  shows "let p = plan_placement ds inventory a; got = dget (gp_assignments p) (dep_id d);
             degraded = dep_id d \<in> set (gp_degraded p); failed = dep_id d \<in> fst ` set (gp_errors p);
             displaced = dep_id d \<in> set (gp_displaced p)
         in case dget (or_list (pa_hard a)) (dep_id d) of
              Some w \<Rightarrow> \<not> failed \<and> \<not> displaced \<and> (if degraded then got = None else got = Some w)
            | None \<Rightarrow> \<not> degraded \<and>
                (if dep_id d \<in> set (or_list (pa_required_ids a))
                 then \<not> displaced \<and> (failed \<longleftrightarrow> got = None)
                 else \<not> failed \<and>
                   (case dget (or_list (pa_hints a)) (dep_id d) of
                      Some w \<Rightarrow> if displaced then got = None else got = Some w
                    | None \<Rightarrow> \<not> displaced \<and> got = None))"
proof -
  let ?s = "tr_final (trace_plan ds inventory a)"
  note H = plan_hard_settled[OF assms(1), where inventory = inventory and a = a]
  note R = plan_required_settled[OF assms(1), where inventory = inventory and a = a]
  note O = plan_optional_settled[OF assms(1), where inventory = inventory and a = a]
  note sub = deps_partition[of ds a]
  have out: "d \<notin> hard_deps ds a \<Longrightarrow> dep_id d \<notin> set (gp_degraded (pn_plan ?s))"
    "d \<notin> required_deps ds a \<Longrightarrow> dep_id d \<notin> err_ids ?s"
    "d \<notin> optional_deps ds a \<Longrightarrow> dep_id d \<notin> set (gp_displaced (pn_plan ?s))"
    using fate_outside[OF H assms(1) sub(1) assms(3)] fate_outside[OF R assms(1) sub(2) assms(3)]
      fate_outside[OF O assms(1) sub(3) assms(3)] by blast+
  have none: "d \<notin> hard_deps ds a \<union> required_deps ds a \<union> optional_deps ds a
      \<Longrightarrow> dget (asg ?s) (dep_id d) = None"
    using unplaced[OF assms(1,3), of a inventory] by (simp add: plan_placement_trace)
  have ins: "d \<in> hard_deps ds a \<longleftrightarrow> dget (or_list (pa_hard a)) (dep_id d) \<noteq> None"
    "d \<in> required_deps ds a \<longleftrightarrow> dget (or_list (pa_hard a)) (dep_id d) = None
       \<and> dep_id d \<in> set (or_list (pa_required_ids a))"
    "d \<in> optional_deps ds a \<longleftrightarrow> dget (or_list (pa_hard a)) (dep_id d) = None
       \<and> dep_id d \<notin> set (or_list (pa_required_ids a)) \<and> dget (or_list (pa_hints a)) (dep_id d) \<noteq> None"
    using assms(2,3) by (simp_all add: hard_deps_def required_deps_def optional_deps_def)
  note facts = Let_def plan_placement_trace err_ids_def[of ?s, symmetric]
  show ?thesis
  proof (cases "dget (or_list (pa_hard a)) (dep_id d)")
    case (Some w)
    then have d: "d \<in> hard_deps ds a" "d \<notin> required_deps ds a" "d \<notin> optional_deps ds a"
      by (simp_all add: ins)
    show ?thesis
      unfolding facts using out(2)[OF d(2)] out(3)[OF d(3)] fate_iff[OF H d(1)] fate_value[OF H d(1)] Some
      by (cases "dget (asg ?s) (dep_id d)") simp_all
  next
    case hard: None
    then have h: "d \<notin> hard_deps ds a" by (simp add: ins)
    show ?thesis
    proof (cases "dep_id d \<in> set (or_list (pa_required_ids a))")
      case True
      then have d: "d \<in> required_deps ds a" "d \<notin> optional_deps ds a" using hard by (simp_all add: ins)
      show ?thesis
        unfolding facts using out(1)[OF h] out(3)[OF d(2)] fate_iff[OF R d(1)] hard True by simp
    next
      case nr: False
      then have r: "d \<notin> required_deps ds a" by (simp add: ins)
      show ?thesis
      proof (cases "dget (or_list (pa_hints a)) (dep_id d)")
        case None
        then have o: "d \<notin> optional_deps ds a" by (simp add: ins)
        then show ?thesis
          unfolding facts using out(1)[OF h] out(2)[OF r] out(3)[OF o] none h r hard nr None by simp
      next
        case (Some w)
        then have o: "d \<in> optional_deps ds a" using hard nr by (simp add: ins)
        show ?thesis
          unfolding facts using out(1)[OF h] out(2)[OF r] fate_iff[OF O o] fate_value[OF O o] hard nr Some
          by (cases "dget (asg ?s) (dep_id d)") simp_all
      qed
    qed
  qed
qed

text \<open>
  New placements respect the caller's allow-list. In admission mode a required deployment
  without a committed allocation only ever receives GPUs of the inventory that are in
  \<open>allowed_gpus\<close> and not reserved, whatever pins were passed.
\<close>

theorem required_inside_allowed:
  assumes "distinct (map dep_id ds)" and "admission_mode a" and "d \<in> set ds"
    and "dget (or_list (pa_hard a)) (dep_id d) = None"
    and "dep_id d \<in> set (or_list (pa_required_ids a))"
    and "pa_allowed_gpus a = Some allowed"
    and "dget (gp_assignments (plan_placement ds inventory a)) (dep_id d) = Some w"
  shows "set w \<subseteq> gpu_index ` set inventory \<inter> set allowed - set (pa_reserved a)"
proof -
  have req: "d \<in> required_deps ds a" using assms by (simp add: required_deps_def)
  have got: "dget (asg (tr_final (trace_plan ds inventory a))) (dep_id d) = Some w"
    using assms(7) by (simp add: plan_placement_trace)
  have "set w \<subseteq> set (plan_pool inventory a)"
  proof (cases "explicit_indices d")
    case None
    have "fitted (memory_map inventory) (plan_pool inventory a) (tr_final (trace_plan ds inventory a)) d"
      using plan_fitted[OF assms(1) req None] assms(2) by blast
    then obtain used where "fit_one (memory_map inventory) (plan_pool inventory a) used d = Inr w"
      using got by (auto simp: fitted_def)
    from fit_one_Inr(2)[OF this] show ?thesis by (auto simp: fit_candidates_def)
  next
    case (Some v)
    then have "d \<notin> set (tr_fits (trace_plan ds inventory a))" by (simp add: plan_fits_eq[OF assms(1)])
    then show ?thesis
      using fate_value[OF plan_required_settled[OF assms(1)] req got] assms(2) by auto
  qed
  then show ?thesis
    using assms(6) by (auto simp: plan_pool_def available_indices_def available_gpu_indices_def
        Let_def split: if_splits)
qed

text \<open>
  A fitted deployment gets what it needs. Without an explicit or pinned placement it is given
  exactly the number of GPUs it requires, all different, all in the pool and each with at least
  the memory it requires.
\<close>

theorem fit_placement_shape:
  assumes "distinct (map dep_id ds)" and "distinct (map gpu_index inventory)"
    and "d \<in> set ds" and "explicit_indices d = None"
    and "if admission_mode a then dget (or_list (pa_hard a)) (dep_id d) = None
           \<and> dep_id d \<in> set (or_list (pa_required_ids a))
         else dget (pa_pinned a) (dep_id d) = None"
    and "dget (gp_assignments (plan_placement ds inventory a)) (dep_id d) = Some w"
  shows "length w = required_gpu_count d \<and> distinct w \<and> set w \<subseteq> set (plan_pool inventory a) \<and>
    (\<forall>i \<in> set w. 0 < min_vram_per_gpu d \<longrightarrow> min_vram_per_gpu d \<le> memory_map inventory i)"
proof -
  have req: "d \<in> required_deps ds a" using assms by (auto simp: required_deps_def split: if_splits)
  have "fitted (memory_map inventory) (plan_pool inventory a) (tr_final (trace_plan ds inventory a)) d"
    using plan_fitted[OF assms(1) req assms(4)] assms(5) by (auto split: if_splits)
  then obtain used where ev: "fit_one (memory_map inventory) (plan_pool inventory a) used d = Inr w"
    using assms(6) by (auto simp: fitted_def plan_placement_trace)
  have "distinct (plan_pool inventory a)"
    using assms(2) by (auto simp: plan_pool_def available_indices_def available_gpu_indices_def Let_def
        distinct_map_filterI split: option.splits)
  then show ?thesis
    using fit_one_Inr(1,2,3)[OF ev] by (auto simp: fit_candidates_def not_le)
qed

text \<open>
  Best fit. When a deployment that declares its memory is fitted, no GPU that could also have
  served it and ends up unused has less memory than one it was given (ties by index): small
  models leave the large cards free.
\<close>

theorem best_fit_smallest:
  assumes "distinct (map dep_id ds)"
    and "d \<in> set ds" and "explicit_indices d = None" and "declared_min_vram d > 0"
    and "if admission_mode a then dget (or_list (pa_hard a)) (dep_id d) = None
           \<and> dep_id d \<in> set (or_list (pa_required_ids a))
         else dget (pa_pinned a) (dep_id d) = None"
    and "dget (gp_assignments (plan_placement ds inventory a)) (dep_id d) = Some w" and "i \<in> set w"
    and "j \<in> set (plan_pool inventory a)" and "min_vram_per_gpu d \<le> memory_map inventory j"
    and "j \<notin> plan_used (plan_placement ds inventory a)"
  shows "(memory_map inventory i, i) \<le> (memory_map inventory j, j)"
proof -
  let ?s = "tr_final (trace_plan ds inventory a)"
  have req: "d \<in> required_deps ds a" using assms by (auto simp: required_deps_def split: if_splits)
  have "fitted (memory_map inventory) (plan_pool inventory a) ?s d"
    using plan_fitted[OF assms(1) req assms(3)] assms(5) by (auto split: if_splits)
  then obtain used where ev: "fit_one (memory_map inventory) (plan_pool inventory a) used d = Inr w"
    and used: "set used \<subseteq> set (pn_used ?s)" "set w \<subseteq> set (pn_used ?s)"
    using assms(6) by (auto simp: fitted_def plan_placement_trace)
  have "j \<notin> set (pn_used ?s)" using assms(10) plan_used_final[OF assms(1)] by simp
  then have "j \<notin> set used" "j \<notin> set w" using used by blast+
  then show ?thesis
    using fit_one_Inr(4)[OF ev assms(4,7)] assms(8,9) by (auto simp: fit_candidates_def)
qed

text \<open>
  C34. A fit failure is never spurious. If a deployment without explicit or pinned GPUs is not
  placed, then in the finished plan fewer GPUs of the pool are both large enough for it and
  unused than it requires.
\<close>

theorem fit_failure_justified:
  assumes "distinct (map dep_id ds)" and "d \<in> set ds" and "explicit_indices d = None"
    and "if admission_mode a then dget (or_list (pa_hard a)) (dep_id d) = None
           \<and> dep_id d \<in> set (or_list (pa_required_ids a))
         else dget (pa_pinned a) (dep_id d) = None"
    and "dget (gp_assignments (plan_placement ds inventory a)) (dep_id d) = None"
  shows "length (filter (\<lambda>i. (min_vram_per_gpu d \<le> 0 \<or> min_vram_per_gpu d \<le> memory_map inventory i)
                         \<and> i \<notin> plan_used (plan_placement ds inventory a)) (plan_pool inventory a))
         < required_gpu_count d"
proof -
  let ?s = "tr_final (trace_plan ds inventory a)"
  have req: "d \<in> required_deps ds a" using assms by (auto simp: required_deps_def split: if_splits)
  have "fitted (memory_map inventory) (plan_pool inventory a) ?s d"
    using plan_fitted[OF assms(1) req assms(3)] assms(4) by (auto split: if_splits)
  then obtain used e where ev: "fit_one (memory_map inventory) (plan_pool inventory a) used d = Inl e"
    and used: "set used \<subseteq> set (pn_used ?s)"
    using assms(5) by (auto simp: fitted_def plan_placement_trace)
  show ?thesis
    using fit_one_Inl[OF ev] fit_candidates_mono(2)[OF used, of "memory_map inventory" "plan_pool inventory a" d]
    unfolding fit_candidates_def plan_used_final[OF assms(1)] by linarith
qed

text \<open>
  The plan does not depend on the order in which the deployments are listed.
\<close>

theorem plan_order_independent:
  assumes "distinct (map dep_id ds)" and "mset ds = mset ds'"
  shows "plan_placement ds inventory a = plan_placement ds' inventory a"
proof -
  have "inj_on (\<lambda>g. (dep_created_at g, dep_id g)) (set ds)"
    using assms(1) by (auto simp: distinct_map inj_on_def)
  then have "sorted_deployments ds = sorted_deployments ds'"
    unfolding sorted_deployments_def by (rule sort_key_eq_sort_key[OF assms(2)])
  then show ?thesis by (simp add: plan_placement_def)
qed

lemma admission_pass_hints:
  "fst (admission_pass P hard req h ds s) = fst (admission_pass P hard req h' ds s)
   \<and> fst (snd (admission_pass P hard req h ds s)) = fst (snd (admission_pass P hard req h' ds s))"
proof (induction ds arbitrary: s)
  case (Cons d ds)
  show ?case
  proof (cases "dget hard (dep_id d)")
    case None
    then show ?thesis using Cons[of s] by (simp add: case_prod_beta)
  next
    case (Some w)
    then show ?thesis using Cons by simp
  qed
qed simp

lemma optional_pass_frame:
  "gp_errors (pn_plan (optional_pass P h ds s)) = gp_errors (pn_plan s)
   \<and> gp_warnings (pn_plan (optional_pass P h ds s)) = gp_warnings (pn_plan s)
   \<and> gp_degraded (pn_plan (optional_pass P h ds s)) = gp_degraded (pn_plan s)
   \<and> (k \<notin> dep_id ` set ds \<longrightarrow> dget (asg (optional_pass P h ds s)) k = dget (asg s) k)"
  by (induction P h ds s rule: optional_pass.induct)
     (auto simp: assign_def add_displaced_def split: option.split)

text \<open>
  C35. Residents never outrank demand. The hints of optional residents change neither the errors,
  the warnings, nor the degraded allocations of a plan, nor the GPUs of any committed or required
  deployment.
\<close>

theorem optional_never_interferes:
  assumes "pa_required_ids a \<noteq> None \<or> pa_hard a \<noteq> None"
    and "p = plan_placement ds inventory (a\<lparr>pa_hints := h\<rparr>)"
    and "q = plan_placement ds inventory (a\<lparr>pa_hints := h'\<rparr>)"
  shows "gp_errors p = gp_errors q \<and> gp_warnings p = gp_warnings q \<and> gp_degraded p = gp_degraded q \<and>
    (\<forall>k. dget (or_list (pa_hard a)) k \<noteq> None \<or> k \<in> set (or_list (pa_required_ids a))
       \<longrightarrow> dget (gp_assignments p) k = dget (gp_assignments q) k)"
proof -
  let ?a = "a\<lparr>pa_hints := h\<rparr>" and ?b = "a\<lparr>pa_hints := h'\<rparr>"
  let ?T = "trace_plan ds inventory ?a" and ?U = "trace_plan ds inventory ?b"
  have mode: "admission_mode ?a" "admission_mode ?b" using assms(1) by (auto simp: admission_mode_def)
  have same: "tr_fitted ?T = tr_fitted ?U"
    using admission_pass_hints[of "plan_pin_pool inventory a" "or_list (pa_hard a)"
        "or_list (pa_required_ids a)" "or_list h" "sorted_deployments ds" plan_start "or_list h'"] mode
    by (simp add: trace_plan_def Let_def admit_def plan_pin_pool_def plan_pool_def)
  have out: "k \<notin> dep_id ` set (tr_optional (trace_plan ds inventory (a\<lparr>pa_hints := g\<rparr>)))"
    if "dget (or_list (pa_hard a)) k \<noteq> None \<or> k \<in> set (or_list (pa_required_ids a))"
      "admission_mode (a\<lparr>pa_hints := g\<rparr>)" for k g
  proof -
    let ?g = "a\<lparr>pa_hints := g\<rparr>"
    have "admission_pass (plan_pin_pool inventory ?g) (or_list (pa_hard ?g)) (or_list (pa_required_ids ?g))
        (or_list (pa_hints ?g)) (sorted_deployments ds) plan_start
      = (tr_admitted (trace_plan ds inventory ?g), tr_required (trace_plan ds inventory ?g),
         tr_optional (trace_plan ds inventory ?g))"
      using that(2) trace_plan_stages(1)[of ds inventory ?g] by (simp add: admit_def)
    from admission_pass_split[OF this] show ?thesis using that(1) by auto
  qed
  show ?thesis
    unfolding assms(2,3) plan_placement_trace trace_plan_stages(5)
    using optional_pass_frame out mode same by simp
qed

lemma valid_hard_kept:
  assumes "distinct (map dep_id ds)" and "admission_mode a"
    and "valid_allocations (plan_pin_pool inventory a) (or_list (pa_hard a)) ds"
  shows "gp_degraded (plan_placement ds inventory a) = [] \<and>
    (\<forall>d \<in> set ds. \<forall>w. dget (or_list (pa_hard a)) (dep_id d) = Some w
       \<longrightarrow> dget (gp_assignments (plan_placement ds inventory a)) (dep_id d) = Some w)"
proof -
  let ?s = "tr_final (trace_plan ds inventory a)"
  have "valid_allocations (plan_pin_pool inventory a) (or_list (pa_hard a)) (sorted_deployments ds)"
    by (rule valid_allocations_subset[OF assms(3)]) simp
  then have "gp_degraded (pn_plan (fst (admit ds inventory a))) = []"
    using admission_pass_valid[of "plan_pin_pool inventory a" "or_list (pa_hard a)" "sorted_deployments ds"
        plan_start] assms(1,2) by (simp add: admit_def)
  then have deg: "gp_degraded (pn_plan ?s) = []"
    using plan_final(2)[OF assms(1)] trace_plan_stages(1)[of ds inventory a, symmetric] by simp
  note H = plan_hard_settled[OF assms(1), where inventory = inventory and a = a]
  have "dget (asg ?s) (dep_id d) = Some w" if "d \<in> set ds" "dget (or_list (pa_hard a)) (dep_id d) = Some w" for d w
  proof -
    have d: "d \<in> hard_deps ds a" using that assms(2) by (simp add: hard_deps_def)
    have "dep_id d \<notin> set (gp_degraded (pn_plan ?s))" by (simp add: deg)
    then obtain v where "dget (asg ?s) (dep_id d) = Some v" using fate_iff[OF H d] by auto
    then show ?thesis using fate_value[OF H d] that(2) by auto
  qed
  then show ?thesis using deg by (simp add: plan_placement_trace)
qed

text \<open>
  Committed allocations are stable. If the hard allocations are physical and pairwise
  disjoint, admission mode keeps every one of them exactly and degrades none, whatever else is
  required, hinted or allowed.
\<close>

theorem hard_allocations_stable:
  assumes "distinct (map dep_id ds)" and "admission_mode a"
    and "valid_allocations (plan_pin_pool inventory a) (or_list (pa_hard a)) ds"
  shows "gp_degraded (plan_placement ds inventory a) = [] \<and>
    (\<forall>d \<in> set ds. \<forall>w. dget (or_list (pa_hard a)) (dep_id d) = Some w
       \<longrightarrow> dget (gp_assignments (plan_placement ds inventory a)) (dep_id d) = Some w)"
  by (rule valid_hard_kept[OF assms])

text \<open>
  Pins are stable. Outside admission mode, if the current allocations are physical and pairwise
  disjoint, every deployment that has one keeps exactly its GPUs: adding or removing deployments
  never moves a running model.
\<close>

theorem pins_stable:
  assumes "distinct (map dep_id ds)" and "\<not> admission_mode a"
    and "valid_allocations (plan_pin_pool inventory a) (pa_pinned a) ds"
    and "d \<in> set ds" and "dget (pa_pinned a) (dep_id d) = Some w"
  shows "dget (gp_assignments (plan_placement ds inventory a)) (dep_id d) = Some w"
proof -
  let ?T = "trace_plan ds inventory a"
  have adm: "tr_admitted ?T = plan_start" "tr_required ?T = sorted_deployments ds"
    using trace_plan_stages(1)[of ds inventory a] assms(2) by (simp_all add: admit_def)
  have v: "valid_allocations (plan_pin_pool inventory a) (pa_pinned a) (sorted_deployments ds)"
    by (rule valid_allocations_subset[OF assms(3)]) simp
  have "tr_deferred ?T = filter (\<lambda>d. dget (pa_pinned a) (dep_id d) = None) (sorted_deployments ds)"
    using pinned_pass_valid[OF v, of plan_start "memory_map inventory"] trace_plan_stages(2)[of inventory a ds]
      assms(1,2) by (simp add: adm)
  then have "d \<in> pin_kept ds inventory a" using assms(4,5) by (simp add: adm)
  moreover have "err_ids (tr_pinned ?T) = {}" using plan_pinned(4)[OF assms(1)] by (simp add: err_ids_def)
  ultimately have "dep_id d \<in> set (dkeys (asg (tr_pinned ?T)))"
    using plan_pinned(1)[OF assms(1), where inventory = inventory and a = a] unfolding settles_def by blast
  then obtain v where "dget (asg (tr_pinned ?T)) (dep_id d) = Some v" by (rule in_dkeysE)
  then have at: "dget (asg (tr_pinned ?T)) (dep_id d) = Some w"
    using plan_pinned(1)[OF assms(1), where inventory = inventory and a = a] \<open>d \<in> pin_kept ds inventory a\<close> assms(2,5)
    unfolding settles_def by auto
  have "grows (tr_pinned ?T) (tr_explicit ?T) (dep_id ` explicit_deps ds inventory a)"
    "grows (tr_explicit ?T) (tr_fitted ?T) (dep_id ` set (tr_fits ?T))"
    "grows (tr_fitted ?T) (tr_final ?T) (dep_id ` optional_deps ds a)"
    using plan_expl(1)[OF assms(1), where inventory = inventory and a = a] plan_fit(1)[OF assms(1), where inventory = inventory and a = a]
      plan_final(1)[OF assms(1), where inventory = inventory and a = a] by (simp_all only: settles_def)
  then show ?thesis using at grows_dget unfolding plan_placement_trace by blast
qed

section \<open>A concrete host\<close>

text \<open>
  A host with a 48 GiB and a 16 GiB card, a deployment that needs 40 GiB, one that declares 8,
  and a resident. The properties are applied to it.
\<close>

definition demo_gpus :: inventory where
  "demo_gpus = [\<lparr>gpu_index = 0, gpu_memory_gib = Some 48, gpu_display_active = False\<rparr>,
                \<lparr>gpu_index = 1, gpu_memory_gib = Some 16, gpu_display_active = False\<rparr>]"

definition demo_dep :: "string \<Rightarrow> rat \<Rightarrow> rat option \<Rightarrow> deployment" where
  "demo_dep gid t vram = \<lparr>dep_id = gid, dep_compat_key = ''ck'', dep_engine = ''vllm'', dep_sharing = SHARED,
     dep_capacity = [], dep_spec = empty_spec\<lparr>sp_engine := Some ''vllm'',
       sp_placement := Some (default_placement\<lparr>pl_min_vram := vram\<rparr>)\<rparr>,
     dep_served = [], dep_state = Live, dep_created_at = t, dep_updated_at = t, dep_demand = 1,
     dep_assigned_gpus = None\<rparr>"

definition demo_args :: plan_args where
  "demo_args = \<lparr>pa_allowed_gpus = None, pa_reserved = [], pa_pinned = [], pa_skip_display = False,
     pa_required_ids = None, pa_hard = None, pa_hints = None\<rparr>"

definition demo_deps :: "deployment list" where
  "demo_deps = [demo_dep ''a'' 1 (Some 8), demo_dep ''b'' 2 (Some 40)]"

lemma demo_ids: "distinct (map dep_id demo_deps)"
  by (simp add: demo_deps_def demo_dep_def)
lemma demo_plan: "plan_placement demo_deps demo_gpus demo_args = empty_plan\<lparr>gp_assignments := [(''b'', [0]), (''a'', [1])]\<rparr>"
  by code_simp


text \<open>In admission mode \<open>b\<close> is committed to GPU 0, \<open>a\<close> is required and \<open>r\<close> is a resident of GPU 1.\<close>

definition demo_admission :: plan_args where
  "demo_admission = demo_args\<lparr>pa_required_ids := Some [''a''], pa_hard := Some [(''b'', [0])],
     pa_hints := Some [(''r'', [1])], pa_allowed_gpus := Some [1]\<rparr>"

definition demo_all :: "deployment list" where
  "demo_all = demo_dep ''r'' 0 None # demo_deps"

lemma demo_all_ids: "distinct (map dep_id demo_all)"
  by (simp add: demo_all_def demo_deps_def demo_dep_def)

lemma demo_admission_plan:
  "plan_placement demo_all demo_gpus demo_admission
   = empty_plan\<lparr>gp_assignments := [(''b'', [0]), (''a'', [1])], gp_displaced := [''r'']\<rparr>"
  by code_simp


theorem plan_total_witness:
  "gp_degraded (plan_placement demo_deps demo_gpus demo_args) = []"
proof -
  have "\<not> admission_mode demo_args" by (simp add: admission_mode_def demo_args_def)
  then show ?thesis using plan_total[OF demo_ids, of demo_args "hd demo_deps"] by (simp add: demo_deps_def)
qed

theorem plan_fates_witness:
  "''r'' \<in> set (gp_displaced (plan_placement demo_all demo_gpus demo_admission))
   \<and> dget (gp_assignments (plan_placement demo_all demo_gpus demo_admission)) ''r'' = None"
proof -
  have m: "admission_mode demo_admission" by (simp add: admission_mode_def demo_admission_def)
  have r: "demo_dep ''r'' 0 None \<in> set demo_all" by (simp add: demo_all_def)
  have a: "dget (or_list (pa_hard demo_admission)) ''r'' = None" "''r'' \<notin> set (or_list (pa_required_ids demo_admission))"
    "dget (or_list (pa_hints demo_admission)) ''r'' = Some [1]" "dep_id (demo_dep ''r'' 0 None) = ''r''"
    by (simp_all add: demo_admission_def or_list_def dget_def demo_dep_def)
  show ?thesis
    using plan_fates[OF demo_all_ids m r, of demo_gpus] demo_admission_plan
    by (simp add: Let_def a)
qed

theorem required_inside_allowed_witness:
  "set [1] \<subseteq> gpu_index ` set demo_gpus \<inter> set [1] - set (pa_reserved demo_admission)"
proof (rule required_inside_allowed[OF demo_all_ids, of demo_admission "demo_dep ''a'' 1 (Some 8)"])
  show "dget (gp_assignments (plan_placement demo_all demo_gpus demo_admission))
          (dep_id (demo_dep ''a'' 1 (Some 8))) = Some [1]"
    by (simp add: demo_admission_plan demo_dep_def dget_def)
qed (simp_all add: admission_mode_def demo_admission_def demo_all_def demo_deps_def demo_dep_def
      or_list_def dget_def)

theorem fit_placement_shape_witness:
  "length [1::int] = required_gpu_count (demo_dep ''a'' 1 (Some 8)) \<and> 8 \<le> memory_map demo_gpus 1"
proof -
  have got: "dget (gp_assignments (plan_placement demo_deps demo_gpus demo_args))
      (dep_id (demo_dep ''a'' 1 (Some 8))) = Some [1]"
    by (simp add: demo_plan demo_dep_def dget_def)
  have e: "explicit_indices (demo_dep ''a'' 1 (Some 8)) = None"
    and m: "min_vram_per_gpu (demo_dep ''a'' 1 (Some 8)) = 8" by code_simp+
  show ?thesis
    using fit_placement_shape[OF demo_ids _ _ e _ got] m
    by (simp add: demo_gpus_def demo_deps_def demo_args_def admission_mode_def dget_def)
qed

text \<open>Alone on the host, the small model leaves the large card free.\<close>

definition demo_small :: "deployment list" where
  "demo_small = [demo_dep ''a'' 1 (Some 8)]"

lemma demo_small_plan:
  "plan_placement demo_small demo_gpus demo_args = empty_plan\<lparr>gp_assignments := [(''a'', [1])]\<rparr>"
  by code_simp

theorem best_fit_smallest_witness:
  "(memory_map demo_gpus 1, 1::int) \<le> (memory_map demo_gpus 0, 0)"
proof (rule best_fit_smallest[of demo_small "demo_dep ''a'' 1 (Some 8)" demo_args demo_gpus "[1]"])
  show "dget (gp_assignments (plan_placement demo_small demo_gpus demo_args))
          (dep_id (demo_dep ''a'' 1 (Some 8))) = Some [1]"
    by (simp add: demo_small_plan demo_dep_def dget_def)
  show "0 \<notin> plan_used (plan_placement demo_small demo_gpus demo_args)"
    by (simp add: demo_small_plan plan_used_def)
  show "explicit_indices (demo_dep ''a'' 1 (Some 8)) = None" by code_simp
  show "0 < declared_min_vram (demo_dep ''a'' 1 (Some 8))" by code_simp
  show "min_vram_per_gpu (demo_dep ''a'' 1 (Some 8)) \<le> memory_map demo_gpus 0" by code_simp
  show "0 \<in> set (plan_pool demo_gpus demo_args)" by code_simp
qed (simp_all add: demo_small_def demo_args_def admission_mode_def dget_def)

text \<open>With the large card reserved the 40 GiB model cannot be placed.\<close>

definition demo_reserved :: plan_args where
  "demo_reserved = demo_args\<lparr>pa_reserved := [0]\<rparr>"

theorem fit_failure_justified_witness:
  "length (filter (\<lambda>i. (min_vram_per_gpu (demo_dep ''b'' 2 (Some 40)) \<le> 0
       \<or> min_vram_per_gpu (demo_dep ''b'' 2 (Some 40)) \<le> memory_map demo_gpus i)
       \<and> i \<notin> plan_used (plan_placement demo_deps demo_gpus demo_reserved)) (plan_pool demo_gpus demo_reserved))
   < required_gpu_count (demo_dep ''b'' 2 (Some 40))"
proof (rule fit_failure_justified[OF demo_ids])
  show "explicit_indices (demo_dep ''b'' 2 (Some 40)) = None" by code_simp
  have "plan_placement demo_deps demo_gpus demo_reserved = empty_plan\<lparr>gp_assignments := [(''a'', [1])],
      gp_errors := [(''b'', NeverSatisfied 1 40 0 [1])]\<rparr>" by code_simp
  then show "dget (gp_assignments (plan_placement demo_deps demo_gpus demo_reserved))
      (dep_id (demo_dep ''b'' 2 (Some 40))) = None"
    by (simp add: demo_dep_def dget_def)
qed (simp_all add: demo_deps_def demo_reserved_def demo_args_def admission_mode_def dget_def)

theorem plan_order_independent_witness:
  "plan_placement demo_deps demo_gpus demo_args = plan_placement (rev demo_deps) demo_gpus demo_args"
  by (rule plan_order_independent[OF demo_ids]) simp

theorem optional_never_interferes_witness:
  "dget (gp_assignments (plan_placement demo_all demo_gpus (demo_admission\<lparr>pa_hints := None\<rparr>))) ''a''
   = dget (gp_assignments (plan_placement demo_all demo_gpus (demo_admission\<lparr>pa_hints := Some [(''r'', [1])]\<rparr>))) ''a''"
  using optional_never_interferes[OF _ refl refl, of demo_admission demo_all demo_gpus None "Some [(''r'', [1])]"]
  by (simp add: demo_admission_def or_list_def)

theorem hard_allocations_stable_witness:
  "dget (gp_assignments (plan_placement demo_all demo_gpus demo_admission)) ''b'' = Some [0]"
proof -
  have v: "valid_allocations (plan_pin_pool demo_gpus demo_admission) (or_list (pa_hard demo_admission)) demo_all"
    by (simp add: valid_allocations_def demo_admission_def or_list_def demo_all_def demo_deps_def
        demo_dep_def dget_def plan_pin_pool_def available_indices_def available_gpu_indices_def
        demo_args_def demo_gpus_def)
  have m: "admission_mode demo_admission" by (simp add: admission_mode_def demo_admission_def)
  show ?thesis
    using hard_allocations_stable[OF demo_all_ids m v]
    by (simp add: demo_all_def demo_deps_def demo_dep_def demo_admission_def or_list_def dget_def)
qed

definition demo_pinned :: plan_args where
  "demo_pinned = demo_args\<lparr>pa_pinned := [(''a'', [0])]\<rparr>"

theorem pins_stable_witness:
  "dget (gp_assignments (plan_placement demo_deps demo_gpus demo_pinned)) ''a'' = Some [0]"
proof -
  have v: "valid_allocations (plan_pin_pool demo_gpus demo_pinned) (pa_pinned demo_pinned) demo_deps"
    by (simp add: valid_allocations_def demo_pinned_def demo_deps_def
        demo_dep_def dget_def plan_pin_pool_def available_indices_def available_gpu_indices_def
        demo_args_def demo_gpus_def)
  have m: "\<not> admission_mode demo_pinned" by (simp add: admission_mode_def demo_pinned_def demo_args_def)
  show ?thesis
    using pins_stable[OF demo_ids m v, of "demo_dep ''a'' 1 (Some 8)"]
    by (simp add: demo_deps_def demo_dep_def demo_pinned_def dget_def)
qed

end
