(* ===== verification/Store.thy ===== *)
theory Store
  imports Placement
begin

text \<open>
  The persistence layer (\<open>leasing/store.py\<close>): the tables of the ledger database as lists of
  rows in insertion order, and one function per method of \<open>SqliteStore\<close>.

  \<^item> \<open>SELECT ... ORDER BY created_at\<close> is a stable sort of the rows; a query without
    \<open>ORDER BY\<close> returns them in insertion order (SQLite promises no order there, and no
    property below depends on it).
  \<^item> \<open>UPDATE ... WHERE\<close> is \<open>upd_where\<close>, \<open>DELETE\<close> a filter, an \<open>INSERT\<close> fails (\<open>Inl\<close>) on a
    duplicate primary key or a missing foreign key (\<open>PRAGMA foreign_keys = ON\<close>).
  \<^item> A statement that raises leaves its transaction, which rolls back: \<open>Inl e\<close> means that the
    store keeps its value from before the transaction.
  \<^item> The columns written through \<open>_dumps\<close> hold the value that \<open>_loads\<close> reads back, with the keys
    of objects sorted.
  \<^item> The \<open>meta\<close> table is split by key: the counters, the publication marker, and the JSON
    documents (\<open>profile\<close>, \<open>network_config\<close>, \<open>adopted_containers\<close>, \<open>ledger_archives\<close>).
\<close>

section \<open>The tables\<close>

record lease_row =
  lr_id :: string
  lr_owner :: string
  lr_state :: lease_state
  lr_created_at :: rat
  lr_ttl_seconds :: "rat option"
  lr_expires_at :: "rat option"
  lr_heartbeat_at :: rat

record claim_row =
  cl_lease :: string
  cl_endpoint :: string
  cl_deployment :: string
  cl_kind :: string

record marker =
  mk_version :: int
  mk_apply_requested :: bool
  mk_interrupted :: bool
  mk_context :: "json option"
  mk_digest :: "string option"

record store =
  st_leases :: "lease_row list"
  st_deployments :: "deployment list"
  st_claims :: "claim_row list"
  st_addresses :: "(string, string) dict"
  st_desired_gen :: "int option"
  st_applied_gen :: "int option"
  st_admission_version :: "int option"
  st_pending :: "marker option"
  st_meta :: "(string, json) dict"

datatype ledger_error =
    UniqueViolation string
  | ForeignKeyViolation string
  | AddressTaken string string
  | ProfileMismatch
  | AdmissionConflict
  | LeaseVanished string

definition empty_store :: store where
  "empty_store = \<lparr>st_leases = [], st_deployments = [], st_claims = [], st_addresses = [],
     st_desired_gen = None, st_applied_gen = None, st_admission_version = None,
     st_pending = None, st_meta = []\<rparr>"

section \<open>Generations\<close>

definition bump :: "int option \<Rightarrow> int option" where
  "bump v = (case v of None \<Rightarrow> Some 1 | Some n \<Rightarrow> Some (n + 1))"

definition counter :: "int option \<Rightarrow> int" where
  "counter v = (case v of None \<Rightarrow> 0 | Some n \<Rightarrow> n)"

definition bump_admission_state_version :: "store \<Rightarrow> store" where
  "bump_admission_state_version st = st\<lparr>st_admission_version := bump (st_admission_version st)\<rparr>"

definition admission_state_version :: "store \<Rightarrow> int" where
  "admission_state_version st = counter (st_admission_version st)"

definition bump_desired_generation :: "store \<Rightarrow> store" where
  "bump_desired_generation st =
     bump_admission_state_version (st\<lparr>st_desired_gen := bump (st_desired_gen st)\<rparr>)"

definition desired_generation :: "store \<Rightarrow> int" where
  "desired_generation st = counter (st_desired_gen st)"

definition applied_generation :: "store \<Rightarrow> int" where
  "applied_generation st = counter (st_applied_gen st)"

definition set_applied_generation :: "int \<Rightarrow> store \<Rightarrow> store" where
  "set_applied_generation gen st =
     (case st_applied_gen st of
        None \<Rightarrow> st\<lparr>st_applied_gen := Some gen\<rparr>
      | Some old \<Rightarrow> if old < gen then st\<lparr>st_applied_gen := Some gen\<rparr> else st)"

section \<open>JSON documents and service addresses\<close>

definition meta_json :: "store \<Rightarrow> string \<Rightarrow> json option" where
  "meta_json st key = dget (st_meta st) key"

definition set_meta_json :: "string \<Rightarrow> json \<Rightarrow> store \<Rightarrow> store" where
  "set_meta_json key v st = st\<lparr>st_meta := dput key (canonical v) (st_meta st)\<rparr>"

definition profile :: "store \<Rightarrow> json option" where
  "profile st = meta_json st ''profile''"

definition write_profile :: "json \<Rightarrow> store \<Rightarrow> store" where
  "write_profile p st = set_meta_json ''profile'' p st"

text \<open>One pass over the new rows; an address of another service is a \<open>UNIQUE\<close> violation.\<close>

fun add_addresses :: "(string, string) dict \<Rightarrow> (string \<times> string) list
    \<Rightarrow> ledger_error + (string, string) dict" where
  "add_addresses tab [] = Inr tab"
| "add_addresses tab ((service, ip) # rest) =
     (case dget tab service of
        Some old \<Rightarrow> if old \<noteq> ip then Inl (AddressTaken service old) else add_addresses tab rest
      | None \<Rightarrow> if ip \<in> set (dvals tab) then Inl (UniqueViolation ip)
                else add_addresses (tab @ [(service, ip)]) rest)"

definition add_service_addresses :: "(string \<times> string) list \<Rightarrow> store \<Rightarrow> ledger_error + store" where
  "add_service_addresses new st =
     (case add_addresses (st_addresses st) new of
        Inl e \<Rightarrow> Inl e
      | Inr tab \<Rightarrow> Inr (st\<lparr>st_addresses := tab\<rparr>))"

section \<open>The publication marker\<close>

definition write_marker ::
    "bool \<Rightarrow> bool \<Rightarrow> json option \<Rightarrow> string option \<Rightarrow> store \<Rightarrow> store \<times> marker" where
  "write_marker apply_requested interrupted context digest st =
     (let current = st_pending st;
          mk = \<lparr>mk_version = (case current of Some m \<Rightarrow> mk_version m | None \<Rightarrow> 0) + 1,
            mk_apply_requested = (apply_requested \<or> (case current of Some m \<Rightarrow> mk_apply_requested m | None \<Rightarrow> False)),
            mk_interrupted = (interrupted \<or> (case current of Some m \<Rightarrow> mk_interrupted m | None \<Rightarrow> False)),
            mk_context = (if context \<noteq> None then context else Option.bind current mk_context),
            mk_digest = (if digest \<noteq> None then digest else Option.bind current mk_digest)\<rparr>
      in (st\<lparr>st_pending := Some mk\<rparr>, mk))"

definition mark_publication_pending ::
    "bool \<Rightarrow> bool \<Rightarrow> json option \<Rightarrow> string option \<Rightarrow> json option \<Rightarrow> store \<Rightarrow> store \<times> marker" where
  "mark_publication_pending apply_requested interrupted context digest prof st =
     write_marker apply_requested interrupted context digest
       (case prof of None \<Rightarrow> st | Some p \<Rightarrow> write_profile p st)"

definition set_approved_digest :: "string option \<Rightarrow> store \<Rightarrow> store" where
  "set_approved_digest digest st =
     (case st_pending st of
        None \<Rightarrow> st
      | Some m \<Rightarrow> if mk_digest m = digest then st
                  else st\<lparr>st_pending := Some (m\<lparr>mk_digest := digest\<rparr>)\<rparr>)"

definition clear_approved_digest :: "store \<Rightarrow> store" where
  "clear_approved_digest = set_approved_digest None"

definition publish_profile :: "json \<Rightarrow> string option \<Rightarrow> store \<Rightarrow> store" where
  "publish_profile prof digest st = fst (write_marker True False None digest (write_profile prof st))"

definition migrate_network ::
    "string \<Rightarrow> bool \<Rightarrow> string option \<Rightarrow> json option \<Rightarrow> store \<Rightarrow> store" where
  "migrate_network subnet reset_addresses digest prof st =
     (let st = (case prof of None \<Rightarrow> st | Some p \<Rightarrow> write_profile p st);
          st = set_meta_json ''network_config'' (JObj [(''subnet'', JStr subnet)]) st;
          st = (if reset_addresses then st\<lparr>st_addresses := []\<rparr> else st)
      in fst (write_marker True False None digest st))"

definition clear_publication_pending :: "int \<Rightarrow> store \<Rightarrow> store \<times> bool" where
  "clear_publication_pending version st =
     (case st_pending st of
        None \<Rightarrow> (st, False)
      | Some m \<Rightarrow> if mk_version m > version then (st, False)
                  else (st\<lparr>st_pending := None\<rparr>, True))"

definition clear_placement_context :: "store \<Rightarrow> store" where
  "clear_placement_context st =
     (case st_pending st of
        None \<Rightarrow> st
      | Some m \<Rightarrow> if mk_context m = None then st
                  else st\<lparr>st_pending := Some (m\<lparr>mk_context := None\<rparr>)\<rparr>)"

definition epoch_meta_keys :: "string list" where
  "epoch_meta_keys = [''ledger_archives'']"

definition start_backend_epoch ::
    "json \<Rightarrow> json \<Rightarrow> json \<Rightarrow> int \<Rightarrow> store \<Rightarrow> ledger_error + store" where
  "start_backend_epoch prof archive expected_profile expected_version st =
     (if map_option canonical (profile st) \<noteq> Some (canonical expected_profile)
         \<or> admission_state_version st \<noteq> expected_version
      then Inl ProfileMismatch
      else
        (let archives = (case meta_json st ''ledger_archives'' of Some (JList xs) \<Rightarrow> xs | _ \<Rightarrow> []);
             st = st\<lparr>st_claims := [], st_leases := [], st_deployments := [], st_addresses := [],
                     st_pending := None,
                     st_meta := filter (\<lambda>kv. fst kv \<in> set epoch_meta_keys) (st_meta st)\<rparr>;
             st = set_meta_json ''ledger_archives'' (JList (archives @ [archive])) st;
             st = write_profile prof st
         in Inr (bump_desired_generation st)))"

section \<open>Leases\<close>

definition insert_lease ::
    "string \<Rightarrow> string \<Rightarrow> rat \<Rightarrow> rat option \<Rightarrow> rat option \<Rightarrow> rat \<Rightarrow> store \<Rightarrow> ledger_error + store" where
  "insert_lease sid owner created_at ttl expires_at heartbeat_at st =
     (if sid \<in> lr_id ` set (st_leases st) then Inl (UniqueViolation sid)
      else Inr (st\<lparr>st_leases := st_leases st @
        [\<lparr>lr_id = sid, lr_owner = owner, lr_state = Active, lr_created_at = created_at,
          lr_ttl_seconds = ttl, lr_expires_at = expires_at, lr_heartbeat_at = heartbeat_at\<rparr>]\<rparr>))"

definition set_lease_state :: "string \<Rightarrow> lease_state \<Rightarrow> store \<Rightarrow> store" where
  "set_lease_state sid s st =
     st\<lparr>st_leases := upd_where (\<lambda>r. lr_id r = sid) (\<lambda>r. r\<lparr>lr_state := s\<rparr>) (st_leases st)\<rparr>"

definition renew_lease :: "string \<Rightarrow> rat option \<Rightarrow> rat option \<Rightarrow> rat \<Rightarrow> store \<Rightarrow> store" where
  "renew_lease sid ttl expires_at heartbeat_at st =
     st\<lparr>st_leases := upd_where (\<lambda>r. lr_id r = sid)
         (\<lambda>r. r\<lparr>lr_state := Active, lr_ttl_seconds := ttl, lr_expires_at := expires_at,
               lr_heartbeat_at := heartbeat_at\<rparr>) (st_leases st)\<rparr>"

definition row_to_lease :: "store \<Rightarrow> lease_row \<Rightarrow> lease" where
  "row_to_lease st r =
     (let claims = filter (\<lambda>c. cl_lease c = lr_id r) (st_claims st) in
      \<lparr>lease_id = lr_id r, lease_owner = lr_owner r, lease_state = lr_state r,
       lease_created_at = lr_created_at r, lease_ttl_seconds = lr_ttl_seconds r,
       lease_expires_at = lr_expires_at r, lease_heartbeat_at = lr_heartbeat_at r,
       lease_endpoints = map cl_endpoint claims,
       lease_deployment_ids = fromkeys (map cl_deployment claims)\<rparr>)"

definition get_lease :: "store \<Rightarrow> string \<Rightarrow> lease option" where
  "get_lease st sid = map_option (row_to_lease st) (find (\<lambda>r. lr_id r = sid) (st_leases st))"

definition list_leases :: "store \<Rightarrow> lease_state list \<Rightarrow> lease list" where
  "list_leases st states =
     map (row_to_lease st) (sort_key lr_created_at
       (if states \<noteq> [] then filter (\<lambda>r. lr_state r \<in> set states) (st_leases st)
        else st_leases st))"

definition active_leases_past :: "store \<Rightarrow> rat \<Rightarrow> lease list" where
  "active_leases_past st now =
     map (row_to_lease st) (filter (\<lambda>r. lr_state r = Active
       \<and> (case lr_expires_at r of None \<Rightarrow> False | Some t \<Rightarrow> t \<le> now)) (st_leases st))"

definition prune :: "lease_state list \<Rightarrow> deployment_state list \<Rightarrow> store \<Rightarrow> store \<times> nat \<times> nat" where
  "prune lease_states deployment_states st =
     (let gone_leases = map lr_id (filter (\<lambda>r. lr_state r \<in> set lease_states) (st_leases st));
          gone_deps = map dep_id (filter (\<lambda>d. dep_state d \<in> set deployment_states) (st_deployments st));
          claims = filter (\<lambda>c. cl_lease c \<notin> set gone_leases) (st_claims st);
          claims = filter (\<lambda>c. cl_deployment c \<notin> set gone_deps) claims;
          leases = filter (\<lambda>r. lr_state r \<notin> set lease_states) (st_leases st);
          deps = filter (\<lambda>d. dep_state d \<notin> set deployment_states) (st_deployments st)
      in (st\<lparr>st_claims := claims, st_leases := leases, st_deployments := deps\<rparr>,
          length gone_leases, length gone_deps))"

section \<open>Claims\<close>

definition insert_claim :: "claim_row \<Rightarrow> store \<Rightarrow> ledger_error + store" where
  "insert_claim c st =
     (if cl_lease c \<notin> lr_id ` set (st_leases st) then Inl (ForeignKeyViolation (cl_lease c))
      else if cl_deployment c \<notin> dep_id ` set (st_deployments st)
        then Inl (ForeignKeyViolation (cl_deployment c))
      else Inr (st\<lparr>st_claims := st_claims st @ [c]\<rparr>))"

section \<open>Deployments\<close>

definition stored_served :: "served \<Rightarrow> served" where
  "stored_served sv = sort_key fst (map (map_prod id canonical) sv)"

definition insert_deployment :: "deployment \<Rightarrow> store \<Rightarrow> ledger_error + store" where
  "insert_deployment d st =
     (if dep_id d \<in> dep_id ` set (st_deployments st) then Inl (UniqueViolation (dep_id d))
      else Inr (st\<lparr>st_deployments := st_deployments st @
        [d\<lparr>dep_capacity := sort_key fst (dep_capacity d),
           dep_served := stored_served (dep_served d), dep_demand := 0\<rparr>]\<rparr>))"

definition set_deployment_state :: "string \<Rightarrow> deployment_state \<Rightarrow> rat \<Rightarrow> store \<Rightarrow> store" where
  "set_deployment_state gid s updated_at st =
     st\<lparr>st_deployments := upd_where (\<lambda>d. dep_id d = gid)
         (\<lambda>d. d\<lparr>dep_state := s, dep_updated_at := updated_at,
               dep_assigned_gpus := (if s = Live then dep_assigned_gpus d else None)\<rparr>)
         (st_deployments st)\<rparr>"

definition set_deployment_allocation :: "string \<Rightarrow> int list option \<Rightarrow> store \<Rightarrow> store" where
  "set_deployment_allocation gid gpus st =
     st\<lparr>st_deployments := upd_where (\<lambda>d. dep_id d = gid) (\<lambda>d. d\<lparr>dep_assigned_gpus := gpus\<rparr>)
         (st_deployments st)\<rparr>"

definition update_deployment_served :: "string \<Rightarrow> served \<Rightarrow> rat \<Rightarrow> store \<Rightarrow> store" where
  "update_deployment_served gid sv updated_at st =
     st\<lparr>st_deployments := upd_where (\<lambda>d. dep_id d = gid)
         (\<lambda>d. d\<lparr>dep_served := stored_served sv, dep_updated_at := updated_at\<rparr>) (st_deployments st)\<rparr>"

definition row_protects :: "rat \<Rightarrow> lease_row \<Rightarrow> bool" where
  "row_protects now r \<longleftrightarrow> lr_state r = Active
     \<and> (case lr_expires_at r of None \<Rightarrow> True | Some t \<Rightarrow> now < t)"

definition demand :: "store \<Rightarrow> string \<Rightarrow> rat \<Rightarrow> nat" where
  "demand st gid now =
     length (remdups (map cl_lease (filter (\<lambda>c. cl_deployment c = gid
       \<and> list_ex (\<lambda>r. lr_id r = cl_lease c \<and> row_protects now r) (st_leases st)) (st_claims st))))"

definition get_deployment :: "store \<Rightarrow> string \<Rightarrow> rat option \<Rightarrow> deployment option" where
  "get_deployment st gid now =
     (case find (\<lambda>d. dep_id d = gid) (st_deployments st) of
        None \<Rightarrow> None
      | Some d \<Rightarrow> Some (case now of None \<Rightarrow> d | Some t \<Rightarrow> d\<lparr>dep_demand := demand st gid t\<rparr>))"

definition deployments_by_compat ::
    "store \<Rightarrow> string \<Rightarrow> string \<Rightarrow> deployment_state list \<Rightarrow> deployment list" where
  "deployments_by_compat st key sharing states =
     sort_key dep_created_at (filter (\<lambda>d. dep_compat_key d = key \<and> dep_sharing d = sharing
       \<and> dep_state d \<in> set states) (st_deployments st))"

definition list_deployments :: "store \<Rightarrow> rat \<Rightarrow> deployment list" where
  "list_deployments st now =
     map (\<lambda>d. d\<lparr>dep_demand := demand st (dep_id d) now\<rparr>) (sort_key dep_created_at (st_deployments st))"

definition deployments_for_lease :: "store \<Rightarrow> string \<Rightarrow> deployment list" where
  "deployments_for_lease st sid =
     filter (\<lambda>d. list_ex (\<lambda>c. cl_deployment c = dep_id d \<and> cl_lease c = sid) (st_claims st))
       (st_deployments st)"

section \<open>Rows by key\<close>

text \<open>
  The contract of a table with a primary key, as the ledger relies on it: an \<open>UPDATE\<close> by key
  changes the row of that key and no other, and keeps the keys.
\<close>

locale keyed_table =
  fixes look :: "'s \<Rightarrow> 'k \<Rightarrow> 'r option" and upd :: "'k \<Rightarrow> ('r \<Rightarrow> 'r) \<Rightarrow> 's \<Rightarrow> 's"
    and keys :: "'s \<Rightarrow> 'k list" and key :: "'r \<Rightarrow> 'k"
  assumes look_upd: "(\<And>r. key (f r) = key r)
      \<Longrightarrow> look (upd k f s) k' = (if k' = k then map_option f (look s k) else look s k')"
    and keys_upd: "(\<And>r. key (f r) = key r) \<Longrightarrow> keys (upd k f s) = keys s"
    and look_None: "look s k = None \<longleftrightarrow> k \<notin> set (keys s)"
begin

lemma fold_upd_keys:
  "(\<And>r. key (f r) = key r) \<Longrightarrow> keys (fold (\<lambda>k. upd k f) ks s) = keys s"
  by (induction ks arbitrary: s) (auto simp: keys_upd)

lemma fold_upd_look:
  assumes "\<And>r. key (f r) = key r" and "\<And>r. f (f r) = f r"
  shows "look (fold (\<lambda>k. upd k f) ks s) k = (if k \<in> set ks then map_option f (look s k) else look s k)"
proof (induction ks arbitrary: s)
  case (Cons j ks)
  have "map_option f (map_option f m) = map_option f m" for m
    using assms(2) by (cases m) auto
  then show ?case using Cons look_upd[OF assms(1)] by auto
qed simp

lemma fold_upd_other:
  assumes "\<And>x r. key (g x r) = key r" and "k \<notin> fst ` set xs"
  shows "look (fold (\<lambda>(j, x). upd j (g x)) xs s) k = look s k"
  using assms(2)
proof (induction xs arbitrary: s)
  case (Cons p xs)
  then show ?case using look_upd[OF assms(1)] by (cases p) auto
qed simp

text \<open>A row read after a batch of updates is the old row, changed only in what the updates touch.\<close>

lemma fold_upd_row:
  assumes "\<And>x r. key (g x r) = key r" and "\<And>x r. h (g x r) = h r"
  shows "map_option h (look (fold (\<lambda>(j, x). upd j (g x)) xs s) k) = map_option h (look s k)"
proof (induction xs arbitrary: s)
  case (Cons p xs)
  obtain j x where p: "p = (j, x)" by (cases p)
  have "map_option h (map_option (g x) m) = map_option h m" for m
    using assms(2) by (cases m) auto
  then have "map_option h (look (upd j (g x) s) k) = map_option h (look s k)"
    using look_upd[OF assms(1)] by auto
  then show ?case using Cons p by simp
qed simp

end

definition lease_at :: "store \<Rightarrow> string \<Rightarrow> lease_row option" where
  "lease_at st sid = find (\<lambda>r. lr_id r = sid) (st_leases st)"

definition dep_at :: "store \<Rightarrow> string \<Rightarrow> deployment option" where
  "dep_at st gid = find (\<lambda>d. dep_id d = gid) (st_deployments st)"

definition lease_ids :: "store \<Rightarrow> string list" where
  "lease_ids st = map lr_id (st_leases st)"

definition dep_ids :: "store \<Rightarrow> string list" where
  "dep_ids st = map dep_id (st_deployments st)"

definition upd_lease :: "string \<Rightarrow> (lease_row \<Rightarrow> lease_row) \<Rightarrow> store \<Rightarrow> store" where
  "upd_lease sid f st = st\<lparr>st_leases := upd_where (\<lambda>r. lr_id r = sid) f (st_leases st)\<rparr>"

definition upd_dep :: "string \<Rightarrow> (deployment \<Rightarrow> deployment) \<Rightarrow> store \<Rightarrow> store" where
  "upd_dep gid f st = st\<lparr>st_deployments := upd_where (\<lambda>d. dep_id d = gid) f (st_deployments st)\<rparr>"

lemma find_upd_key:
  assumes "\<And>r. key (f r) = key r"
  shows "find (\<lambda>r. key r = k') (upd_where (\<lambda>r. key r = k) f rows)
    = (if k' = k then map_option f (find (\<lambda>r. key r = k) rows) else find (\<lambda>r. key r = k') rows)"
  by (induction rows) (auto simp: upd_where_def assms)

lemma map_upd_key:
  "(\<And>r. key (f r) = key r) \<Longrightarrow> map key (upd_where (\<lambda>r. key r = k) f rows) = map key rows"
  by (rule map_upd_where) simp

interpretation deps: keyed_table dep_at upd_dep dep_ids dep_id
  by unfold_locales
     (auto simp: dep_at_def upd_dep_def dep_ids_def find_upd_key map_upd_key find_key_None)

interpretation leases: keyed_table lease_at upd_lease lease_ids lr_id
  by unfold_locales
     (auto simp: lease_at_def upd_lease_def lease_ids_def find_upd_key map_upd_key find_key_None)

lemma dep_at_id: "dep_at st gid = Some d \<Longrightarrow> dep_id d = gid"
  unfolding dep_at_def by (drule find_SomeD) simp

lemma lease_at_id: "lease_at st sid = Some r \<Longrightarrow> lr_id r = sid"
  unfolding lease_at_def by (drule find_SomeD) simp

lemma dep_at_mem: "dep_at st gid = Some d \<Longrightarrow> d \<in> set (st_deployments st)"
  unfolding dep_at_def by (drule find_SomeD) simp

lemma lease_at_mem: "lease_at st sid = Some r \<Longrightarrow> r \<in> set (st_leases st)"
  unfolding lease_at_def by (drule find_SomeD) simp

lemma dep_at_row: "distinct (dep_ids st) \<Longrightarrow> d \<in> set (st_deployments st) \<Longrightarrow> dep_at st (dep_id d) = Some d"
  unfolding dep_at_def dep_ids_def by (rule find_key_unique)

lemma lease_at_row: "distinct (lease_ids st) \<Longrightarrow> r \<in> set (st_leases st) \<Longrightarrow> lease_at st (lr_id r) = Some r"
  unfolding lease_at_def lease_ids_def by (rule find_key_unique)

section \<open>The statements in terms of rows\<close>

lemma set_deployment_state_upd:
  "set_deployment_state gid s t = upd_dep gid (\<lambda>d. d\<lparr>dep_state := s, dep_updated_at := t,
     dep_assigned_gpus := (if s = Live then dep_assigned_gpus d else None)\<rparr>)"
  by (rule ext) (simp add: set_deployment_state_def upd_dep_def)

lemma set_deployment_allocation_upd:
  "set_deployment_allocation gid gpus = upd_dep gid (\<lambda>d. d\<lparr>dep_assigned_gpus := gpus\<rparr>)"
  by (rule ext) (simp add: set_deployment_allocation_def upd_dep_def)

lemma update_deployment_served_upd:
  "update_deployment_served gid sv t = upd_dep gid (\<lambda>d. d\<lparr>dep_served := stored_served sv, dep_updated_at := t\<rparr>)"
  by (rule ext) (simp add: update_deployment_served_def upd_dep_def)

lemma set_lease_state_upd: "set_lease_state sid s = upd_lease sid (\<lambda>r. r\<lparr>lr_state := s\<rparr>)"
  by (rule ext) (simp add: set_lease_state_def upd_lease_def)

lemma renew_lease_upd:
  "renew_lease sid ttl e h = upd_lease sid (\<lambda>r. r\<lparr>lr_state := Active, lr_ttl_seconds := ttl,
     lr_expires_at := e, lr_heartbeat_at := h\<rparr>)"
  by (rule ext) (simp add: renew_lease_def upd_lease_def)

lemma upd_frame [simp]:
  "st_leases (upd_dep gid f st) = st_leases st" "st_claims (upd_dep gid f st) = st_claims st"
  "st_addresses (upd_dep gid f st) = st_addresses st" "st_pending (upd_dep gid f st) = st_pending st"
  "st_deployments (upd_lease sid g st) = st_deployments st" "st_claims (upd_lease sid g st) = st_claims st"
  "st_addresses (upd_lease sid g st) = st_addresses st" "st_pending (upd_lease sid g st) = st_pending st"
  "lease_at (upd_dep gid f st) sid = lease_at st sid" "dep_at (upd_lease sid g st) gid = dep_at st gid"
  "lease_ids (upd_dep gid f st) = lease_ids st" "dep_ids (upd_lease sid g st) = dep_ids st"
  "admission_state_version (upd_dep gid f st) = admission_state_version st"
  "admission_state_version (upd_lease sid g st) = admission_state_version st"
  by (simp_all add: upd_dep_def upd_lease_def lease_at_def dep_at_def lease_ids_def dep_ids_def
      admission_state_version_def)

lemma bump_frame [simp]:
  "st_leases (bump_desired_generation st) = st_leases st" "st_claims (bump_desired_generation st) = st_claims st"
  "st_deployments (bump_desired_generation st) = st_deployments st"
  "st_addresses (bump_desired_generation st) = st_addresses st"
  "st_pending (bump_desired_generation st) = st_pending st"
  "st_meta (bump_desired_generation st) = st_meta st"
  "dep_at (bump_desired_generation st) gid = dep_at st gid"
  "lease_at (bump_desired_generation st) sid = lease_at st sid"
  "dep_ids (bump_desired_generation st) = dep_ids st" "lease_ids (bump_desired_generation st) = lease_ids st"
  by (simp_all add: bump_desired_generation_def bump_admission_state_version_def dep_at_def lease_at_def
      dep_ids_def lease_ids_def)

lemma bump_admission_frame [simp]:
  "st_leases (bump_admission_state_version st) = st_leases st"
  "st_claims (bump_admission_state_version st) = st_claims st"
  "st_deployments (bump_admission_state_version st) = st_deployments st"
  "st_addresses (bump_admission_state_version st) = st_addresses st"
  by (simp_all add: bump_admission_state_version_def)

lemma bump_desired_counters [simp]:
  "admission_state_version (bump_desired_generation st) = admission_state_version st + 1"
  "desired_generation (bump_desired_generation st) = desired_generation st + 1"
  "applied_generation (bump_desired_generation st) = applied_generation st"
  by (simp_all add: admission_state_version_def desired_generation_def applied_generation_def
      bump_desired_generation_def bump_admission_state_version_def counter_def bump_def split: option.split)

section \<open>Demand\<close>

lemma demand_eq_0:
  assumes "distinct (lease_ids st)"
  shows "demand st gid now = 0 \<longleftrightarrow>
    (\<forall>c \<in> set (st_claims st). cl_deployment c = gid
       \<longrightarrow> \<not> (\<exists>r. lease_at st (cl_lease c) = Some r \<and> row_protects now r))"
proof -
  have "list_ex (\<lambda>r. lr_id r = sid \<and> row_protects now r) (st_leases st)
      \<longleftrightarrow> (\<exists>r. lease_at st sid = Some r \<and> row_protects now r)" for sid
    using lease_at_row[OF assms] lease_at_mem lease_at_id by (fastforce simp: list_ex_iff)
  then show ?thesis by (auto simp: demand_def filter_empty_conv)
qed

lemma demand_cong:
  "st_claims st = st_claims st' \<Longrightarrow> st_leases st = st_leases st' \<Longrightarrow> demand st = demand st'"
  by (rule ext)+ (simp add: demand_def)

lemma demand_upd_dep [simp]: "demand (upd_dep gid f st) = demand st"
  by (rule demand_cong) simp_all

lemma get_deployment_None [simp]: "get_deployment st gid None = dep_at st gid"
  by (simp add: get_deployment_def dep_at_def split: option.split)

lemma get_lease_lease_at: "get_lease st sid = map_option (row_to_lease st) (lease_at st sid)"
  by (simp add: get_lease_def lease_at_def)

section \<open>Well-formed stores\<close>

text \<open>
  Primary keys are unique, claims refer to existing rows, addresses are unique, and an
  allocation is held by LIVE deployments only.
\<close>

definition refs_ok :: "store \<Rightarrow> bool" where
  "refs_ok st \<longleftrightarrow> distinct (lease_ids st) \<and> distinct (dep_ids st) \<and>
     (\<forall>c \<in> set (st_claims st). cl_lease c \<in> set (lease_ids st) \<and> cl_deployment c \<in> set (dep_ids st)) \<and>
     distinct (dkeys (st_addresses st)) \<and> distinct (dvals (st_addresses st))"

definition alloc_ok :: "store \<Rightarrow> bool" where
  "alloc_ok st \<longleftrightarrow> (\<forall>gid d. dep_at st gid = Some d \<longrightarrow> dep_assigned_gpus d \<noteq> None \<longrightarrow> dep_state d = Live)"

lemma refs_ok_cong:
  "lease_ids st' = lease_ids st \<Longrightarrow> dep_ids st' = dep_ids st \<Longrightarrow> st_claims st' = st_claims st
   \<Longrightarrow> st_addresses st' = st_addresses st \<Longrightarrow> refs_ok st' = refs_ok st"
  by (simp add: refs_ok_def)

lemma refs_ok_empty [simp]: "refs_ok empty_store"
  by (simp add: refs_ok_def empty_store_def lease_ids_def dep_ids_def dvals_def)

lemma alloc_ok_empty [simp]: "alloc_ok empty_store"
  by (simp add: alloc_ok_def empty_store_def dep_at_def)

lemma add_addresses_ok:
  assumes "distinct (dkeys tab)" and "distinct (dvals tab)" and "add_addresses tab new = Inr tab'"
  shows "distinct (dkeys tab') \<and> distinct (dvals tab') \<and> (\<exists>more. tab' = tab @ more) \<and>
    (\<forall>(service, ip) \<in> set new. dget tab' service = Some ip)"
  using assms
proof (induction tab new arbitrary: tab' rule: add_addresses.induct)
  case (1 tab)
  then show ?case by simp
next
  case (2 tab service ip rest)
  show ?case
  proof (cases "dget tab service")
    case (Some old)
    then have e: "old = ip" "add_addresses tab rest = Inr tab'" using 2(5) by (auto split: if_splits)
    note IH = 2(2)[OF Some _ 2(3,4) e(2)]
    then obtain more where "tab' = tab @ more" using e(1) by auto
    then have "dget tab' service = Some ip" using Some e(1) by (simp add: dget_def map_add_Some_iff)
    then show ?thesis using IH e(1) by auto
  next
    case None
    then have e: "ip \<notin> set (dvals tab)" "add_addresses (tab @ [(service, ip)]) rest = Inr tab'"
      using 2(5) by (auto split: if_splits)
    have d: "distinct (dkeys (tab @ [(service, ip)]))" "distinct (dvals (tab @ [(service, ip)]))"
      using 2(3,4) e(1) None by (auto simp: dkeys_def dvals_def dget_def map_of_eq_None_iff)
    note IH = 2(1)[OF None e(1) d e(2)]
    then obtain more where t: "tab' = (tab @ [(service, ip)]) @ more" by auto
    have "dget tab' service = Some ip"
      by (rule dget_distinct) (use IH t in auto)
    then show ?thesis using IH t by auto
  qed
qed

end
