(* ===== verification/Network.thy ===== *)
theory Network
  imports Residency Store
begin

text \<open>
  Stable per-service addresses (\<open>leasing/network.py\<close>). A subnet is the parsed
  \<open>ipaddress.ip_network\<close>: its base address as a number and its prefix length (IPv4). The
  addresses of the table are strings, read and printed in dotted decimal as \<open>ipaddress\<close> does.
\<close>

section \<open>IPv4 addresses\<close>

definition show_ipv4 :: "nat \<Rightarrow> string" where
  "show_ipv4 n = join ''.'' (map digits [n div 2 ^ 24, n div 2 ^ 16 mod 256, n div 2 ^ 8 mod 256, n mod 256])"

definition parse_octet :: "string \<Rightarrow> nat option" where
  "parse_octet s =
     (if s = [] \<or> \<not> list_all is_digit s \<or> length s > 3 \<or> (hd s = CHR ''0'' \<and> length s > 1) then None
      else if nat_of s > 255 then None else Some (nat_of s))"

definition parse_ipv4 :: "string \<Rightarrow> nat option" where
  "parse_ipv4 s = (case map parse_octet (split_on CHR ''.'' s) of
      [Some a, Some b, Some c, Some d] \<Rightarrow> Some (a * 2 ^ 24 + b * 2 ^ 16 + c * 2 ^ 8 + d)
    | _ \<Rightarrow> None)"

section \<open>Allocation\<close>

record subnet =
  net_base :: nat
  net_prefix :: nat

definition net_size :: "subnet \<Rightarrow> nat" where
  "net_size net = 2 ^ (32 - net_prefix net)"

definition valid_subnet :: "subnet \<Rightarrow> bool" where
  "valid_subnet net \<longleftrightarrow> net_prefix net \<le> 32 \<and> net_base net mod net_size net = 0 \<and> net_base net < 2 ^ 32"

text \<open>\<open>net.hosts()\<close>: the first address and how many follow in order.\<close>

definition hosts :: "subnet \<Rightarrow> nat \<times> nat" where
  "hosts net = (if net_prefix net \<ge> 31 then (net_base net, net_size net)
                else (net_base net + 1, net_size net - 2))"

fun first_free :: "nat list \<Rightarrow> nat \<Rightarrow> nat \<Rightarrow> nat \<Rightarrow> nat option" where
  "first_free used gateway a 0 = None"
| "first_free used gateway a (Suc n) =
     (if a = gateway \<or> a \<in> set used then first_free used gateway (a + 1) n else Some a)"

datatype network_error = BadAddress string | AddressOverflow | NoFreeAddress string

fun parse_all :: "string list \<Rightarrow> network_error + nat list" where
  "parse_all [] = Inr []"
| "parse_all (s # ss) =
     (case parse_ipv4 s of
        None \<Rightarrow> Inl (BadAddress s)
      | Some a \<Rightarrow> bind_err (parse_all ss) (\<lambda>xs. Inr (a # xs)))"

definition next_free_address :: "subnet \<Rightarrow> (string, string) dict \<Rightarrow> network_error + string option" where
  "next_free_address net taken =
     bind_err (parse_all (dvals taken)) (\<lambda>used.
       if net_base net + 1 \<ge> 2 ^ 32 then Inl AddressOverflow
       else Inr (map_option show_ipv4
              (first_free used (net_base net + 1) (fst (hosts net)) (snd (hosts net)))))"

definition allocate_one :: "subnet \<Rightarrow> string \<Rightarrow> (string, string) dict \<Rightarrow> network_error + (string, string) dict" where
  "allocate_one net service tab =
     (if service \<in> set (dkeys tab) then Inr tab
      else bind_err (next_free_address net tab) (\<lambda>ip.
        case ip of None \<Rightarrow> Inl (NoFreeAddress service) | Some ip \<Rightarrow> Inr (dput service ip tab)))"

definition allocate :: "subnet \<Rightarrow> (string, string) dict \<Rightarrow> string list \<Rightarrow> network_error + (string, string) dict" where
  "allocate net existing services = fold_err (allocate_one net) (sort services) existing"

section \<open>The rendered project\<close>

definition network_name :: string where "network_name = ''infer-stack-net''"

definition stamp_service :: "(string, string) dict \<Rightarrow> string \<times> json \<Rightarrow> py_error + string \<times> json" where
  "stamp_service addresses kv =
     (case dget addresses (fst kv) of
        None \<Rightarrow> Inl KeyError
      | Some ip \<Rightarrow>
          (case snd kv of
             JObj svc \<Rightarrow> Inr (fst kv, JObj (dput ''networks''
               (JObj [(network_name, JObj [(''ipv4_address'', JStr ip)])]) svc))
           | _ \<Rightarrow> Inl TypeError))"

definition network_stanza :: "string \<Rightarrow> json" where
  "network_stanza subnet = JObj [(network_name, JObj [(''name'', JStr network_name),
     (''ipam'', JObj [(''config'', JList [JObj [(''subnet'', JStr subnet)]])])])]"

definition stamp_network ::
    "(string, json) dict \<Rightarrow> string \<Rightarrow> (string, string) dict \<Rightarrow> py_error + (string, json) dict" where
  "stamp_network compose subnet addresses =
     (let compose = dput ''networks'' (network_stanza subnet) compose in
      case dget compose ''services'' of
        Some (JObj svcs) \<Rightarrow> bind_err (map_err (stamp_service addresses) svcs)
          (\<lambda>svcs'. Inr (dput ''services'' (JObj svcs') compose))
      | Some v \<Rightarrow> if truthy v then Inl AttributeError else Inr compose
      | None \<Rightarrow> Inr compose)"

datatype upstream = Healthy | NotReady | RoutingFault

definition classify_upstream :: "string \<Rightarrow> json \<Rightarrow> py_error + upstream" where
  "classify_upstream expected answer =
     (if is_obj answer \<or> answer = JNull then Inr NotReady
      else bind_err (py_in expected answer) (\<lambda>b. Inr (if b then Healthy else RoutingFault)))"

section \<open>Printing and parsing\<close>

lemma length_digits: "n < 1000 \<Longrightarrow> length (digits n) \<le> 3"
proof -
  have 1: "length (digits k) = 1" if "k < 10" for k using that by (simp add: digits.simps)
  have 2: "length (digits k) \<le> 2" if "k < 100" for k using that 1[of "k div 10"] 1[of k]
    by (subst digits.simps) auto
  show "n < 1000 \<Longrightarrow> length (digits n) \<le> 3" using 2[of "n div 10"] by (subst digits.simps) auto
qed

lemma digits_no_zero: "0 < n \<Longrightarrow> hd (digits n) \<noteq> CHR ''0''"
proof (induction n rule: digits.induct)
  case (1 n)
  show ?case
  proof (cases "n < 10")
    case True
    have "(of_char (digit_char n) :: nat) = 48 + n" using True by simp
    then have "(of_char (digit_char n) :: nat) \<noteq> of_char (CHR ''0'')" using 1(2) by simp
    then have "digit_char n \<noteq> CHR ''0''" by metis
    then show ?thesis using True by (simp add: digits.simps)
  next
    case False
    then show ?thesis using 1(1)[OF False] digits_nonempty by (subst digits.simps) simp
  qed
qed

lemma parse_octet_digits [simp]: "n \<le> 255 \<Longrightarrow> parse_octet (digits n) = Some n"
proof -
  assume n: "n \<le> 255"
  have "hd (digits n) \<noteq> CHR ''0'' \<or> length (digits n) \<le> 1"
    using digits_no_zero[of n] by (cases "n = 0") (simp_all add: digits.simps)
  then show ?thesis
    using n length_digits[of n] digits_nonempty digits_all by (auto simp: parse_octet_def list_all_iff)
qed

lemma div_256: "n div 256 div 256 div 256 = n div 16777216" "n div 256 div 256 = n div 65536" for n :: nat
  by (simp_all flip: div_mult2_eq)

lemma parse_show_ipv4: "n < 2 ^ 32 \<Longrightarrow> parse_ipv4 (show_ipv4 n) = Some n"
proof -
  assume n: "n < 2 ^ 32"
  let ?ws = "[n div 2 ^ 24, n div 2 ^ 16 mod 256, n div 2 ^ 8 mod 256, n mod 256]"
  have "CHR ''.'' \<notin> set (digits k)" for k using digits_all[of "CHR ''.''" k] by (auto simp: is_digit_def)
  then have s: "split_on CHR ''.'' (show_ipv4 n) = map digits ?ws"
    unfolding show_ipv4_def by (intro split_on_join) auto
  have "n div 2 ^ 24 \<le> 255" using n less_mult_imp_div_less[of n 256 "2 ^ 24"] by simp
  then have "map parse_octet (map digits ?ws) = map Some ?ws" by simp
  moreover have "n div 2 ^ 24 * 2 ^ 24 + n div 2 ^ 16 mod 256 * 2 ^ 16 + n div 2 ^ 8 mod 256 * 2 ^ 8 + n mod 256 = n"
  proof -
    have "n div 256 div 256 div 256 * 16777216 + n div 256 div 256 mod 256 * 65536 + n div 256 mod 256 * 256 + n mod 256 = n"
      using div_mult_mod_eq[of "n div 256 div 256" 256] div_mult_mod_eq[of "n div 256" 256] div_mult_mod_eq[of n 256]
      by linarith
    then show ?thesis unfolding div_256(1) unfolding div_256(2) by simp
  qed
  ultimately show ?thesis unfolding parse_ipv4_def s by simp
qed


lemma digits_nat_of:
  "s \<noteq> [] \<Longrightarrow> list_all is_digit s \<Longrightarrow> hd s \<noteq> CHR ''0'' \<or> length s = 1
   \<Longrightarrow> digits (nat_of s) = s \<and> (hd s \<noteq> CHR ''0'' \<longrightarrow> 0 < nat_of s)"
proof (induction s rule: rev_induct)
  case (snoc c t)
  have c: "is_digit c" using snoc.prems by simp
  then have v: "digit_val c < 10" "digit_char (digit_val c) = c"
    by (auto simp: is_digit_def digit_val_def digit_char_def)
  have pos: "c \<noteq> CHR ''0'' \<Longrightarrow> 0 < digit_val c"
  proof -
    assume "c \<noteq> CHR ''0''"
    moreover have "char_of (48 :: nat) = CHR ''0''" by code_simp
    ultimately have "(of_char c :: nat) \<noteq> 48" by (metis char_of_char)
    then show ?thesis using c by (simp add: is_digit_def digit_val_def)
  qed
  show ?case
  proof (cases "t = []")
    case True
    then show ?thesis using v pos by (simp add: nat_of_snoc[of "[]", simplified] digits.simps nat_of_def)
  next
    case False
    then have h: "hd t \<noteq> CHR ''0''" using snoc.prems by auto
    then have IH: "digits (nat_of t) = t" "0 < nat_of t" using snoc False by auto
    have "digits (10 * nat_of t + digit_val c) = t @ [c]"
      using v IH by (subst digits.simps) simp
    then show ?thesis using IH by (simp add: nat_of_snoc)
  qed
qed simp

lemma div_mod_256: "d \<le> 255 \<Longrightarrow> (k * 256 + d) div 256 = k \<and> (k * 256 + d) mod 256 = d" for d k :: nat
  by simp

lemma parse_octet_Some:
  "parse_octet s = Some n \<Longrightarrow> digits n = s \<and> n \<le> 255"
proof -
  assume p: "parse_octet s = Some n"
  then have a: "s \<noteq> []" "list_all is_digit s" "hd s \<noteq> CHR ''0'' \<or> length s \<le> 1" "n = nat_of s" "n \<le> 255"
    by (auto simp: parse_octet_def split: if_splits)
  have "hd s \<noteq> CHR ''0'' \<or> length s = 1" using a(1,3) by (cases s) auto
  then show ?thesis using digits_nat_of[OF a(1,2)] a(4,5) by simp
qed

text \<open>
  Addresses are read back as printed. The dotted decimal of a 32-bit address parses to that
  address, and every text that parses is the dotted decimal of a 32-bit address: in the address
  table two addresses are the same exactly if their texts are.
\<close>

lemma ipv4_roundtrip: "parse_ipv4 s = Some n \<longleftrightarrow> n < 2 ^ 32 \<and> s = show_ipv4 n"
proof
  assume p: "parse_ipv4 s = Some n"
  let ?ws = "split_on CHR ''.'' s"
  obtain a b c d where o: "map parse_octet ?ws = [Some a, Some b, Some c, Some d]"
    and n: "n = a * 2 ^ 24 + b * 2 ^ 16 + c * 2 ^ 8 + d"
    using p by (auto simp: parse_ipv4_def split: list.splits option.splits)
  obtain w x y z where ws: "?ws = [w, x, y, z]" using o by (auto simp: map_eq_Cons_conv)
  then have q: "parse_octet w = Some a" "parse_octet x = Some b" "parse_octet y = Some c" "parse_octet z = Some d"
    using o by auto
  note D = q[THEN parse_octet_Some]
  have "s = join ''.'' ?ws" by (rule join_split_on[symmetric])
  then have s: "s = join ''.'' (map digits [a, b, c, d])" using ws D by simp
  have n256: "n = ((a * 256 + b) * 256 + c) * 256 + d" unfolding n by simp
  have 1: "n div 256 = (a * 256 + b) * 256 + c" "n mod 256 = d"
    unfolding n256 using D div_mod_256[of d "(a * 256 + b) * 256 + c"] by blast+
  have 2: "n div 256 div 256 = a * 256 + b" "n div 256 mod 256 = c"
    unfolding 1 using D div_mod_256[of c "a * 256 + b"] by blast+
  have 3: "n div 256 div 256 div 256 = a" "n div 256 div 256 mod 256 = b"
    unfolding 2 using D div_mod_256[of b a] by blast+
  have "n div 2 ^ 24 = a" "n div 2 ^ 16 mod 256 = b" "n div 2 ^ 8 mod 256 = c" "n mod 256 = d"
    using 3(1)[unfolded div_256(1)] 3(2)[unfolded div_256(2)] 2(2) 1(2) by simp_all
  then have "s = show_ipv4 n" unfolding show_ipv4_def s by simp
  moreover have "n < 2 ^ 32" using D unfolding n by simp
  ultimately show "n < 2 ^ 32 \<and> s = show_ipv4 n" by blast
qed (use parse_show_ipv4 in blast)

section \<open>Allocation\<close>

lemma parse_all_Inr: "parse_all ss = Inr xs \<longleftrightarrow> map parse_ipv4 ss = map Some xs"
  by (induction ss arbitrary: xs) (auto simp: bind_err_Inr map_eq_Cons_conv split: option.split)

lemma interval_Suc: "a \<le> i \<and> i < a + Suc n \<and> P \<longleftrightarrow> i = a \<and> P \<or> a + 1 \<le> i \<and> i < a + 1 + n \<and> P" for i :: nat
  by auto

lemma first_free_None: "first_free used g a n = None \<longleftrightarrow> (\<forall>i. a \<le> i \<and> i < a + n \<and> i \<noteq> g \<longrightarrow> i \<in> set used)"
proof (induction n arbitrary: a)
  case (Suc n)
  have "(\<forall>i. a \<le> i \<and> i < a + Suc n \<and> i \<noteq> g \<longrightarrow> i \<in> set used)
      \<longleftrightarrow> (a \<noteq> g \<longrightarrow> a \<in> set used) \<and> (\<forall>i. a + 1 \<le> i \<and> i < a + 1 + n \<and> i \<noteq> g \<longrightarrow> i \<in> set used)"
    unfolding interval_Suc by blast
  then show ?case using Suc by auto
qed auto

lemma first_free_Some:
  "first_free used g a n = Some i \<Longrightarrow> a \<le> i \<and> i < a + n \<and> i \<noteq> g \<and> i \<notin> set used
   \<and> (\<forall>j. a \<le> j \<and> j < i \<and> j \<noteq> g \<longrightarrow> j \<in> set used)"
proof (induction n arbitrary: a)
  case (Suc n)
  show ?case
  proof (cases "a = g \<or> a \<in> set used")
    case True
    then have "first_free used g (a + 1) n = Some i" using Suc.prems by simp
    note IH = Suc.IH[OF this]
    have "j \<in> set used" if "a \<le> j" "j < i" "j \<noteq> g" for j
      using IH that True by (cases "j = a") auto
    then show ?thesis using IH by auto
  qed (use Suc.prems in auto)
qed simp

text \<open>The addresses \<open>net.hosts()\<close> gives, but the gateway.\<close>

definition usable :: "subnet \<Rightarrow> nat set" where
  "usable net = {a. fst (hosts net) \<le> a \<and> a < fst (hosts net) + snd (hosts net) \<and> a \<noteq> net_base net + 1}"

text \<open>
  The lowest free address. Over a table of IPv4 addresses the next address is the least usable
  host address of the subnet that no service has, and there is none exactly when every usable
  address is taken.
\<close>

theorem next_free_lowest:
  assumes "\<forall>ip \<in> set (dvals taken). parse_ipv4 ip \<noteq> None" and "net_base net + 1 < 2 ^ 32"
    and "used = {a. \<exists>ip \<in> set (dvals taken). parse_ipv4 ip = Some a}"
  shows "next_free_address net taken = Inr (if usable net \<subseteq> used then None
    else Some (show_ipv4 (LEAST a. a \<in> usable net - used)))"
proof -
  let ?xs = "map (the \<circ> parse_ipv4) (dvals taken)"
  have "map parse_ipv4 (dvals taken) = map Some ?xs" using assms(1) by auto
  then have p: "parse_all (dvals taken) = Inr ?xs" by (simp only: parse_all_Inr)
  have u: "used = set ?xs" unfolding assms(3) using assms(1) by force
  let ?f = "first_free ?xs (net_base net + 1) (fst (hosts net)) (snd (hosts net))"
  have n: "?f = None \<longleftrightarrow> usable net \<subseteq> used"
    unfolding first_free_None u usable_def by auto
  show ?thesis
  proof (cases "?f")
    case None
    then show ?thesis using n p assms(2) by (simp add: next_free_address_def)
  next
    case (Some i)
    have "(LEAST a. a \<in> usable net - used) = i"
    proof (rule Least_equality)
      show "i \<in> usable net - used" using first_free_Some[OF Some] unfolding usable_def u by auto
      show "i \<le> j" if "j \<in> usable net - used" for j
      proof (rule ccontr)
        assume "\<not> i \<le> j"
        then have "j \<in> set ?xs" using first_free_Some[OF Some] that unfolding usable_def by auto
        then show False using that u by blast
      qed
    qed
    then show ?thesis using n Some p assms(2) by (simp add: next_free_address_def)
  qed
qed

lemma next_free_Some:
  assumes "next_free_address net taken = Inr (Some ip)" and "valid_subnet net"
  shows "\<exists>a \<in> usable net. a < 2 ^ 32 \<and> ip = show_ipv4 a \<and> ip \<notin> set (dvals taken)"
proof -
  obtain used where u: "map parse_ipv4 (dvals taken) = map Some used"
    using assms(1) by (auto simp: next_free_address_def bind_err_Inr parse_all_Inr)
  then have p: "parse_all (dvals taken) = Inr used" by (simp only: parse_all_Inr)
  obtain a where a: "first_free used (net_base net + 1) (fst (hosts net)) (snd (hosts net)) = Some a" "ip = show_ipv4 a"
    using assms(1) p by (auto simp: next_free_address_def split: if_splits)
  note F = first_free_Some[OF a(1)]
  have us: "a \<in> usable net" using F by (simp add: usable_def)
  have "net_base net + net_size net \<le> 2 ^ 32"
  proof -
    let ?k = "net_prefix net"
    have e: "(2::nat) ^ 32 = 2 ^ ?k * net_size net"
      using assms(2) by (simp add: valid_subnet_def net_size_def flip: power_add)
    obtain m where m: "net_base net = m * net_size net"
      using assms(2) unfolding valid_subnet_def by (metis mod_0_imp_dvd dvd_div_mult_self)
    have "m < 2 ^ ?k" using assms(2) unfolding valid_subnet_def m e by simp
    then have "(m + 1) * net_size net \<le> 2 ^ ?k * net_size net" by (intro mult_le_mono1) simp
    then show ?thesis unfolding m e by simp
  qed
  then have lt: "a < 2 ^ 32" using F by (auto simp: hosts_def split: if_splits)
  have "ip \<notin> set (dvals taken)"
  proof
    assume "ip \<in> set (dvals taken)"
    then have "parse_ipv4 ip \<in> set (map parse_ipv4 (dvals taken))" by auto
    then have "a \<in> set used" unfolding u a(2) parse_show_ipv4[OF lt] by auto
    then show False using F by simp
  qed
  then show ?thesis using us lt a(2) by blast
qed

lemma allocate_fold:
  assumes "fold_err (allocate_one net) services tab = Inr tab'" and "valid_subnet net"
    and "distinct (dkeys tab)" and "distinct (dvals tab)"
  shows "\<exists>new. tab' = tab @ new \<and> distinct (dkeys tab') \<and> distinct (dvals tab')
    \<and> set (dkeys tab') = set (dkeys tab) \<union> set services
    \<and> (\<forall>(s, ip) \<in> set new. \<exists>a \<in> usable net. a < 2 ^ 32 \<and> ip = show_ipv4 a)"
  using assms
proof (induction services arbitrary: tab)
  case (Cons s services)
  obtain tab1 where 1: "allocate_one net s tab = Inr tab1" "fold_err (allocate_one net) services tab1 = Inr tab'"
    using Cons.prems(1) by (auto simp: bind_err_Inr)
  show ?case
  proof (cases "s \<in> set (dkeys tab)")
    case True
    then have "tab1 = tab" using 1(1) by (simp add: allocate_one_def)
    then show ?thesis using Cons.IH[of tab] 1(2) Cons.prems True by auto
  next
    case False
    then obtain ip where ip: "next_free_address net tab = Inr (Some ip)" "tab1 = tab @ [(s, ip)]"
      using 1(1) by (auto simp: allocate_one_def bind_err_Inr dput_new split: option.splits)
    obtain a where a: "a \<in> usable net" "a < 2 ^ 32" "ip = show_ipv4 a" "ip \<notin> set (dvals tab)"
      using next_free_Some[OF ip(1) Cons.prems(2)] by blast
    have "distinct (dkeys tab1)" "distinct (dvals tab1)"
      using Cons.prems(3,4) False a(4) by (auto simp: ip(2) dkeys_def dvals_def)
    from Cons.IH[OF 1(2) Cons.prems(2) this] obtain new where new: "tab' = tab1 @ new"
      "distinct (dkeys tab')" "distinct (dvals tab')" "set (dkeys tab') = set (dkeys tab1) \<union> set services"
      "\<forall>(s, ip) \<in> set new. \<exists>a \<in> usable net. a < 2 ^ 32 \<and> ip = show_ipv4 a" by blast
    show ?thesis
      by (intro exI[of _ "(s, ip) # new"]) (use new ip(2) a in \<open>auto simp: dkeys_def\<close>)
  qed
qed simp

lemma add_addresses_same:
  assumes "\<forall>(s, ip) \<in> set xs. dget tab s = Some ip"
  shows "add_addresses tab (xs @ ys) = add_addresses tab ys"
  using assms by (induction xs) (auto split: prod.split)

lemma add_addresses_new:
  assumes "distinct (dkeys (tab @ new))" and "distinct (dvals (tab @ new))"
  shows "add_addresses tab new = Inr (tab @ new)"
  using assms
proof (induction new arbitrary: tab)
  case (Cons p new)
  obtain s ip where p: "p = (s, ip)" by (cases p)
  have "dget tab s = None" "ip \<notin> set (dvals tab)"
    using Cons.prems by (auto simp: p dget_None_iff dkeys_def dvals_def)
  moreover have "add_addresses (tab @ [p]) new = Inr ((tab @ [p]) @ new)"
    by (rule Cons.IH) (use Cons.prems in simp_all)
  ultimately show ?case by (simp add: p)
qed simp

text \<open>
  An address is given once. Allocation keeps every existing address, gives each service of the
  render one, takes new ones from the usable hosts of the subnet, and never gives an address to two
  services; storing the full table afterwards succeeds and records exactly it.
\<close>

theorem allocation_append_only:
  assumes "allocate net (st_addresses st) services = Inr tab" and "valid_subnet net" and "refs_ok st"
  shows "(\<exists>new. tab = st_addresses st @ new
      \<and> (\<forall>(s, ip) \<in> set new. s \<notin> set (dkeys (st_addresses st)) \<and> (\<exists>a \<in> usable net. parse_ipv4 ip = Some a)))
    \<and> set services \<subseteq> set (dkeys tab)
    \<and> (\<forall>s s' ip. dget tab s = Some ip \<and> dget tab s' = Some ip \<longrightarrow> s = s')
    \<and> add_service_addresses tab st = Inr (st\<lparr>st_addresses := tab\<rparr>)"
proof -
  let ?t = "st_addresses st"
  have d: "distinct (dkeys ?t)" "distinct (dvals ?t)" using assms(3) by (simp_all add: refs_ok_def)
  obtain new where new: "tab = ?t @ new" "distinct (dkeys tab)" "distinct (dvals tab)"
    "set (dkeys tab) = set (dkeys ?t) \<union> set services"
    "\<forall>(s, ip) \<in> set new. \<exists>a \<in> usable net. a < 2 ^ 32 \<and> ip = show_ipv4 a"
    using allocate_fold[OF assms(1)[unfolded allocate_def] assms(2) d] by auto
  have "\<forall>(s, ip) \<in> set ?t. dget ?t s = Some ip" using dget_distinct[OF d(1)] by auto
  then have "add_addresses ?t tab = add_addresses ?t new" unfolding new(1) by (rule add_addresses_same)
  also have "\<dots> = Inr tab" using add_addresses_new[of ?t new] new by simp
  finally have "add_service_addresses tab st = Inr (st\<lparr>st_addresses := tab\<rparr>)"
    by (simp add: add_service_addresses_def)
  moreover have "s = s'" if "dget tab s = Some ip" "dget tab s' = Some ip" for s s' ip
  proof -
    have "inj_on snd (set tab)" using new(3) unfolding dvals_def distinct_map by blast
    from inj_onD[OF this _ that[THEN dget_SomeD]] show ?thesis by simp
  qed
  moreover have "s \<notin> set (dkeys ?t) \<and> (\<exists>a \<in> usable net. parse_ipv4 ip = Some a)" if "(s, ip) \<in> set new" for s ip
  proof -
    have "s \<in> set (dkeys new)" using that by (force simp: dkeys_def)
    then have "s \<notin> set (dkeys ?t)" using new(2) unfolding new(1) by (auto simp: dkeys_def)
    moreover note m = new(5)[rule_format, OF that]
    then obtain a where "a \<in> usable net" "a < 2 ^ 32" "ip = show_ipv4 a" by auto
    ultimately show ?thesis using parse_show_ipv4 by auto
  qed
  ultimately show ?thesis using new(1,4) by blast
qed


lemma first_free_numeral:
  "first_free used gateway a (numeral k) =
     (if a = gateway \<or> a \<in> set used then first_free used gateway (a + 1) (pred_numeral k) else Some a)"
  by (simp add: numeral_eq_Suc)

text \<open>The properties at 172.30.0.0/29 with one address taken.\<close>

definition demo_net :: subnet where
  "demo_net = \<lparr>net_base = 2887647232, net_prefix = 29\<rparr>"

definition demo_taken :: "(string, string) dict" where
  "demo_taken = [(''a'', ''172.30.0.2'')]"

lemma demo_parse: "parse_ipv4 ''172.30.0.2'' = Some 2887647234"
  by (simp add: parse_ipv4_def parse_octet_def is_digit_def nat_of_def digit_val_def)

lemma demo_show: "show_ipv4 2887647235 = ''172.30.0.3''"
  by (simp add: show_ipv4_def digits.simps digit_char_def) code_simp

lemma demo_next: "next_free_address demo_net demo_taken = Inr (Some ''172.30.0.3'')"
  by (simp add: next_free_address_def demo_net_def demo_taken_def hosts_def net_size_def dvals_def demo_parse
      first_free_numeral demo_show)

theorem next_free_lowest_witness:
  "next_free_address demo_net demo_taken
     = Inr (Some (show_ipv4 (LEAST a. a \<in> usable demo_net - {a. \<exists>ip \<in> set (dvals demo_taken). parse_ipv4 ip = Some a})))"
proof -
  have h: "\<forall>ip \<in> set (dvals demo_taken). parse_ipv4 ip \<noteq> None" "net_base demo_net + 1 < 2 ^ 32"
    by (simp_all add: demo_taken_def demo_net_def dvals_def demo_parse)
  have "next_free_address demo_net demo_taken \<noteq> Inr None" by (simp add: demo_next)
  then show ?thesis using next_free_lowest[OF h refl] by (auto split: if_splits)
qed

theorem allocation_append_only_witness:
  "add_service_addresses [(''a'', ''172.30.0.2''), (''b'', ''172.30.0.3'')] (empty_store\<lparr>st_addresses := demo_taken\<rparr>)
     = Inr (empty_store\<lparr>st_addresses := [(''a'', ''172.30.0.2''), (''b'', ''172.30.0.3'')]\<rparr>)"
proof -
  have a: "allocate demo_net (st_addresses (empty_store\<lparr>st_addresses := demo_taken\<rparr>)) [''b'', ''a'']
      = Inr [(''a'', ''172.30.0.2''), (''b'', ''172.30.0.3'')]"
    by (simp add: allocate_def allocate_one_def demo_next[unfolded demo_taken_def] demo_taken_def dkeys_def dput_def)
  have v: "valid_subnet demo_net" by (simp add: valid_subnet_def demo_net_def net_size_def)
  have r: "refs_ok (empty_store\<lparr>st_addresses := demo_taken\<rparr>)"
    by (simp add: refs_ok_def empty_store_def lease_ids_def dep_ids_def demo_taken_def dkeys_def dvals_def)
  show ?thesis using allocation_append_only[OF a v r] by simp
qed

end
