(* ===== verification/Ledger.thy ===== *)
theory Ledger
  imports Store
begin

text \<open>
  Lease bookkeeping (\<open>leasing/ledger.py\<close>): coalescing, leases with a soft TTL, and the
  demand-driven deployment states.

  \<^item> \<open>clock()\<close> is the argument \<open>now\<close>; \<open>id_factory\<close> is the argument \<open>new_id\<close> (the id of the
    n-th deployment a plan creates) and, for the lease, its id.
  \<^item> \<open>plan_acquire\<close> is a fold over the requests. The deployments of its \<open>view\<close> and of
    \<open>created\<close> are shared objects in the code: an update of a chosen deployment is written to
    both.
  \<^item> \<open>acquire\<close> is one transaction: \<open>Inl e\<close> leaves the store as it was.
\<close>

section \<open>Planning an acquire\<close>

record overlay =
  ov_now :: rat
  ov_claims :: "(endpoint_request \<times> string) list"
  ov_created :: "(string, deployment) dict"
  ov_revived :: "string list"
  ov_served_updates :: "(string, served) dict"
  ov_deployments :: "(string, deployment) dict"
  ov_state_version :: int

record plan_state =
  ps_view :: "(string, deployment) dict"
  ps_created :: "(string, deployment) dict"
  ps_revived :: "string list"
  ps_served_updates :: "(string, served) dict"
  ps_claims :: "(endpoint_request \<times> string) list"
  ps_ids :: nat

definition empty_plan_state :: plan_state where
  "empty_plan_state = \<lparr>ps_view = [], ps_created = [], ps_revived = [], ps_served_updates = [],
     ps_claims = [], ps_ids = 0\<rparr>"

definition cost :: "(string \<Rightarrow> bool) option \<Rightarrow> deployment \<Rightarrow> bool \<Rightarrow> nat" where
  "cost resident d pending =
     (if dep_state d = Live \<and> \<not> pending then 0
      else if pending then 1
      else (case resident of None \<Rightarrow> 3 | Some r \<Rightarrow> if r (dep_id d) then 2 else 3))"

definition candidates :: "store \<Rightarrow> plan_state \<Rightarrow> string \<Rightarrow> (deployment \<times> bool) list" where
  "candidates st ps key =
     map (\<lambda>g. (case dget (ps_view ps) (dep_id g) of Some v \<Rightarrow> v | None \<Rightarrow> g, False))
         (deployments_by_compat st key SHARED [Live, Idle])
     @ map (\<lambda>g. (g, True))
         (filter (\<lambda>g. dep_compat_key g = key \<and> dep_sharing g = SHARED) (dvals (ps_created ps)))"

definition ranked :: "(string \<Rightarrow> bool) option \<Rightarrow> (deployment \<times> bool) list \<Rightarrow> (deployment \<times> bool) list" where
  "ranked resident cands =
     map snd (sort_key (\<lambda>item. (cost resident (fst (snd item)) (snd (snd item)), fst item))
                (enumerate 0 cands))"

definition choose_deployment ::
    "(string \<Rightarrow> string) \<Rightarrow> (string \<Rightarrow> bool) option \<Rightarrow> store \<Rightarrow> plan_state \<Rightarrow> endpoint_request
     \<Rightarrow> deployment option" where
  "choose_deployment sha resident st ps req =
     (if req_sharing req = DEDICATED then None
      else map_option fst (find (\<lambda>c. capacity_satisfies (dep_capacity (fst c)) (req_capacity req))
             (ranked resident (candidates st ps (compat_key sha req)))))"

definition new_deployment :: "(string \<Rightarrow> string) \<Rightarrow> string \<Rightarrow> rat \<Rightarrow> endpoint_request \<Rightarrow> deployment" where
  "new_deployment sha gid now req =
     \<lparr>dep_id = gid, dep_compat_key = compat_key sha req, dep_engine = req_engine req,
      dep_sharing = req_sharing req, dep_capacity = req_capacity req, dep_spec = req_spec req,
      dep_served = [(req_endpoint req, req_served req)], dep_state = Live,
      dep_created_at = now, dep_updated_at = now, dep_demand = 0, dep_assigned_gpus = None\<rparr>"

definition served_differs :: "deployment \<Rightarrow> endpoint_request \<Rightarrow> bool" where
  "served_differs d req \<longleftrightarrow>
     map_option canonical (dget (dep_served d) (req_endpoint req)) \<noteq> Some (canonical (req_served req))"

text \<open>The chosen deployment after the request joined it: revived, its served map extended.\<close>

definition revive :: "deployment \<Rightarrow> deployment" where
  "revive d = (if dep_state d = Idle then d\<lparr>dep_state := Live, dep_assigned_gpus := None\<rparr> else d)"

definition serve :: "endpoint_request \<Rightarrow> deployment \<Rightarrow> deployment" where
  "serve req d = (if served_differs d req
     then d\<lparr>dep_served := dput (req_endpoint req) (req_served req) (dep_served d)\<rparr> else d)"

definition join_deployment :: "endpoint_request \<Rightarrow> deployment \<Rightarrow> plan_state \<Rightarrow> plan_state" where
  "join_deployment req d ps =
     (let d' = serve req (revive d);
          gid = dep_id d;
          was_created = gid \<in> set (dkeys (ps_created ps))
      in ps\<lparr>ps_view := dput gid d' (ps_view ps),
            ps_created := (if was_created then dput gid d' (ps_created ps) else ps_created ps),
            ps_revived := (if dep_state d = Idle then ps_revived ps @ [gid] else ps_revived ps),
            ps_served_updates := (if served_differs (revive d) req \<and> \<not> was_created
               then dput gid (dep_served d') (ps_served_updates ps) else ps_served_updates ps),
            ps_claims := ps_claims ps @ [(req, gid)]\<rparr>)"

definition create_deployment ::
    "(string \<Rightarrow> string) \<Rightarrow> (nat \<Rightarrow> string) \<Rightarrow> rat \<Rightarrow> endpoint_request \<Rightarrow> plan_state \<Rightarrow> plan_state" where
  "create_deployment sha new_id now req ps =
     (let d = new_deployment sha (new_id (ps_ids ps)) now req
      in ps\<lparr>ps_created := dput (dep_id d) d (ps_created ps),
            ps_view := dput (dep_id d) d (ps_view ps),
            ps_claims := ps_claims ps @ [(req, dep_id d)],
            ps_ids := ps_ids ps + 1\<rparr>)"

definition plan_request ::
    "(string \<Rightarrow> string) \<Rightarrow> (nat \<Rightarrow> string) \<Rightarrow> (string \<Rightarrow> bool) option \<Rightarrow> rat \<Rightarrow> store
     \<Rightarrow> endpoint_request \<Rightarrow> plan_state \<Rightarrow> plan_state" where
  "plan_request sha new_id resident now st req ps =
     (case choose_deployment sha resident st ps req of
        None \<Rightarrow> create_deployment sha new_id now req ps
      | Some d \<Rightarrow> join_deployment req d ps)"

definition plan_acquire ::
    "(string \<Rightarrow> string) \<Rightarrow> (nat \<Rightarrow> string) \<Rightarrow> (string \<Rightarrow> bool) option \<Rightarrow> rat
     \<Rightarrow> endpoint_request list \<Rightarrow> store \<Rightarrow> overlay" where
  "plan_acquire sha new_id resident now reqs st =
     (let ps = fold (plan_request sha new_id resident now st) reqs empty_plan_state
      in \<lparr>ov_now = now, ov_claims = ps_claims ps, ov_created = ps_created ps,
          ov_revived = ps_revived ps, ov_served_updates = ps_served_updates ps,
          ov_deployments = List.map_filter (\<lambda>gid. map_option (Pair gid) (dget (ps_view ps) gid))
                             (fromkeys (map snd (ps_claims ps))),
          ov_state_version = admission_state_version st\<rparr>)"

section \<open>Acquire\<close>

definition is_reservation :: "endpoint_request \<Rightarrow> bool" where
  "is_reservation req \<longleftrightarrow> is_reservation_engine (req_engine req)"

definition claim_of :: "string \<Rightarrow> endpoint_request \<times> string \<Rightarrow> claim_row" where
  "claim_of sid c = \<lparr>cl_lease = sid, cl_endpoint = req_endpoint (fst c), cl_deployment = snd c,
     cl_kind = (if is_reservation (fst c) then ''reserved-gpu'' else ''endpoint'')\<rparr>"

definition commit_acquire ::
    "string \<Rightarrow> string \<Rightarrow> rat option \<Rightarrow> overlay \<Rightarrow> (string, int list) dict \<Rightarrow> string option
     \<Rightarrow> json option \<Rightarrow> store \<Rightarrow> ledger_error + store" where
  "commit_acquire sid owner ttl ov allocations digest prof st =
     (let now = ov_now ov in
      bind_err (insert_lease sid owner now ttl (map_option (\<lambda>t. now + t) ttl) now st) (\<lambda>st.
      bind_err (fold_err insert_deployment (dvals (ov_created ov)) st) (\<lambda>st.
        let st = fold (\<lambda>gid. set_deployment_state gid Live now) (ov_revived ov) st;
            st = fold (\<lambda>(gid, sv). update_deployment_served gid sv now) (ov_served_updates ov) st;
            st = fold (\<lambda>(gid, gpus). set_deployment_allocation gid (Some gpus)) allocations st;
            st = (case prof of None \<Rightarrow> st | Some p \<Rightarrow> write_profile p st);
            st = (case digest of None \<Rightarrow> st | Some h \<Rightarrow> fst (write_marker True False None (Some h) st))
        in bind_err (fold_err insert_claim (map (claim_of sid) (ov_claims ov)) st) (\<lambda>st.
           Inr (bump_desired_generation st)))))"

definition acquire ::
    "(string \<Rightarrow> string) \<Rightarrow> (nat \<Rightarrow> string) \<Rightarrow> rat \<Rightarrow> string \<Rightarrow> string \<Rightarrow> endpoint_request list
     \<Rightarrow> rat option \<Rightarrow> overlay option \<Rightarrow> (string, int list) dict \<Rightarrow> string option \<Rightarrow> json option
     \<Rightarrow> store \<Rightarrow> ledger_error + (store \<times> lease \<times> deployment list)" where
  "acquire sha new_id clock sid owner reqs ttl overlay allocations digest prof st =
     bind_err (case overlay of
         None \<Rightarrow> Inr (plan_acquire sha new_id None clock reqs st)
       | Some ov \<Rightarrow> if admission_state_version st \<noteq> ov_state_version ov then Inl AdmissionConflict
                    else Inr ov) (\<lambda>ov.
     bind_err (commit_acquire sid owner ttl ov allocations digest prof st) (\<lambda>st'.
       case get_lease st' sid of
         None \<Rightarrow> Inl (LeaseVanished sid)
       | Some le \<Rightarrow> Inr (st', le, List.map_filter (\<lambda>gid. get_deployment st' gid (Some (ov_now ov)))
                                    (fromkeys (map snd (ov_claims ov))))))"

section \<open>Release, renew, sweep, evict\<close>

fun idle_loop :: "string list \<Rightarrow> rat \<Rightarrow> store \<Rightarrow> store \<times> string list" where
  "idle_loop [] now st = (st, [])"
| "idle_loop (gid # rest) now st =
     (case get_deployment st gid None of
        None \<Rightarrow> idle_loop rest now st
      | Some d \<Rightarrow>
          if dep_state d \<noteq> Live then idle_loop rest now st
          else if demand st gid now = 0
            then map_prod id (Cons gid) (idle_loop rest now (set_deployment_state gid Idle now st))
          else idle_loop rest now st)"

definition idle_deployments :: "string list \<Rightarrow> rat \<Rightarrow> store \<Rightarrow> store \<times> string list" where
  "idle_deployments ids now st = idle_loop (fromkeys ids) now st"

datatype release_result = NotFound | AlreadyReleased | Idled "string list"

definition release :: "string \<Rightarrow> rat \<Rightarrow> store \<Rightarrow> store \<times> release_result" where
  "release sid now st =
     (case get_lease st sid of
        None \<Rightarrow> (st, NotFound)
      | Some le \<Rightarrow>
          if lease_state le = Released then (st, AlreadyReleased)
          else (case idle_deployments (lease_deployment_ids le) now
                       (set_lease_state sid Released st) of
                  (st', idled) \<Rightarrow>
                    (if idled \<noteq> [] then bump_desired_generation st' else st', Idled idled)))"

fun revive_idle :: "string list \<Rightarrow> rat \<Rightarrow> store \<Rightarrow> store \<times> string list" where
  "revive_idle [] now st = (st, [])"
| "revive_idle (gid # rest) now st =
     (case get_deployment st gid None of
        Some d \<Rightarrow>
          if dep_state d = Idle
          then map_prod id (Cons gid) (revive_idle rest now (set_deployment_state gid Live now st))
          else revive_idle rest now st
      | None \<Rightarrow> revive_idle rest now st)"

definition renew ::
    "string \<Rightarrow> rat option \<Rightarrow> (string, int list) dict \<Rightarrow> rat \<Rightarrow> store \<Rightarrow> store \<times> lease option" where
  "renew sid ttl allocations now st =
     (case get_lease st sid of
        None \<Rightarrow> (st, None)
      | Some le \<Rightarrow>
          if lease_state le \<noteq> Active then (st, None)
          else
            (let st1 = renew_lease sid ttl (map_option (\<lambda>t. now + t) ttl) now st;
                 (st2, revived) = revive_idle (fromkeys (lease_deployment_ids le)) now st1;
                 st3 = fold (\<lambda>(gid, gpus). set_deployment_allocation gid (Some gpus))
                         (filter (\<lambda>kv. fst kv \<in> set revived) allocations) st2;
                 st4 = (if revived \<noteq> [] then bump_desired_generation st3 else st3)
             in (st4, get_lease st4 sid)))"

datatype renew_fast = Renewed lease | NotActive | NeedsAdmission

definition renew_if_live :: "string \<Rightarrow> rat option \<Rightarrow> rat \<Rightarrow> store \<Rightarrow> store \<times> renew_fast" where
  "renew_if_live sid ttl now st =
     (case get_lease st sid of
        None \<Rightarrow> (st, NotActive)
      | Some le \<Rightarrow>
          if lease_state le \<noteq> Active then (st, NotActive)
          else if list_ex (\<lambda>gid. case get_deployment st gid None of
                              None \<Rightarrow> True | Some d \<Rightarrow> dep_state d \<noteq> Live)
                    (fromkeys (lease_deployment_ids le))
            then (st, NeedsAdmission)
          else
            (let st' = renew_lease sid ttl (map_option (\<lambda>t. now + t) ttl) now st
             in (st', case get_lease st' sid of Some l \<Rightarrow> Renewed l | None \<Rightarrow> NotActive)))"

definition sweep :: "rat \<Rightarrow> store \<Rightarrow> store \<times> string list \<times> string list" where
  "sweep now st =
     (let due = active_leases_past st now;
          st1 = fold (\<lambda>le. set_lease_state (lease_id le) Expired) due st;
          expired = map lease_id due;
          (st2, idled) = idle_deployments (concat (map lease_deployment_ids due)) now st1;
          st3 = (if expired \<noteq> [] \<or> idled \<noteq> [] then bump_desired_generation st2 else st2)
      in (st3, expired, idled))"

definition reclaimable_deployments :: "rat \<Rightarrow> store \<Rightarrow> deployment list" where
  "reclaimable_deployments now st = filter (\<lambda>g. dep_state g = Idle) (list_deployments st now)"

text \<open>The snapshot is read once, before the loop changes states.\<close>

definition evict_idle :: "string list option \<Rightarrow> rat \<Rightarrow> store \<Rightarrow> store \<times> string list" where
  "evict_idle wanted now st =
     (let evicted = map dep_id (filter (\<lambda>g. dep_state g = Idle
              \<and> (case wanted of None \<Rightarrow> True | Some w \<Rightarrow> dep_id g \<in> set w)
              \<and> \<not> dep_demand g > 0) (list_deployments st now));
          st' = fold (\<lambda>gid. set_deployment_state gid Stopped now) evicted st
      in (if evicted \<noteq> [] then bump_desired_generation st' else st', evicted))"

definition ledger_prune :: "store \<Rightarrow> store \<times> nat \<times> nat" where
  "ledger_prune st = prune [Released, Expired] [Stopped] st"

definition status :: "bool \<Rightarrow> rat \<Rightarrow> store \<Rightarrow> lease list \<times> deployment list" where
  "status virtual_expiry now st =
     (let leases = list_leases st [];
          deployments = list_deployments st now
      in if virtual_expiry then
           (map (\<lambda>le. if lease_state le = Active \<and> \<not> is_protecting le now
                      then le\<lparr>lease_state := Expired\<rparr> else le) leases,
            map (\<lambda>g. if dep_state g = Live \<and> dep_demand g = 0
                     then g\<lparr>dep_state := Idle\<rparr> else g) deployments)
         else (leases, deployments))"

definition set_allocation :: "string \<Rightarrow> int list option \<Rightarrow> store \<Rightarrow> store" where
  "set_allocation gid gpus st = bump_admission_state_version (set_deployment_allocation gid gpus st)"

section \<open>Batches of updates\<close>

lemma fold_upd_dep_frame [simp]:
  "st_leases (fold (\<lambda>x. upd_dep (k x) (g x)) xs st) = st_leases st"
  "st_claims (fold (\<lambda>x. upd_dep (k x) (g x)) xs st) = st_claims st"
  "st_addresses (fold (\<lambda>x. upd_dep (k x) (g x)) xs st) = st_addresses st"
  "lease_at (fold (\<lambda>x. upd_dep (k x) (g x)) xs st) sid = lease_at st sid"
  "lease_ids (fold (\<lambda>x. upd_dep (k x) (g x)) xs st) = lease_ids st"
  "demand (fold (\<lambda>x. upd_dep (k x) (g x)) xs st) = demand st"
  by (induction xs arbitrary: st) auto

lemma fold_upd_lease_frame [simp]:
  "st_deployments (fold (\<lambda>x. upd_lease (k x) (g x)) xs st) = st_deployments st"
  "st_claims (fold (\<lambda>x. upd_lease (k x) (g x)) xs st) = st_claims st"
  "st_addresses (fold (\<lambda>x. upd_lease (k x) (g x)) xs st) = st_addresses st"
  "dep_at (fold (\<lambda>x. upd_lease (k x) (g x)) xs st) gid = dep_at st gid"
  "dep_ids (fold (\<lambda>x. upd_lease (k x) (g x)) xs st) = dep_ids st"
  by (induction xs arbitrary: st) auto

text \<open>All rows whose id is listed move to a state; the others stay.\<close>

abbreviation move :: "deployment_state \<Rightarrow> rat \<Rightarrow> deployment \<Rightarrow> deployment" where
  "move s t d \<equiv> d\<lparr>dep_state := s, dep_updated_at := t,
     dep_assigned_gpus := (if s = Live then dep_assigned_gpus d else None)\<rparr>"

definition move_all :: "deployment_state \<Rightarrow> rat \<Rightarrow> string list \<Rightarrow> store \<Rightarrow> store" where
  "move_all s t gids st = fold (\<lambda>gid. set_deployment_state gid s t) gids st"

lemma move_all_frame [simp]:
  "st_leases (move_all s t gids st) = st_leases st" "st_claims (move_all s t gids st) = st_claims st"
  "st_addresses (move_all s t gids st) = st_addresses st" "lease_at (move_all s t gids st) sid = lease_at st sid"
  "lease_ids (move_all s t gids st) = lease_ids st" "demand (move_all s t gids st) = demand st"
  "dep_ids (move_all s t gids st) = dep_ids st"
proof -
  show "dep_ids (move_all s t gids st) = dep_ids st"
    unfolding move_all_def set_deployment_state_upd by (rule deps.fold_upd_keys) simp
qed (simp_all add: move_all_def set_deployment_state_upd)

lemma dep_at_move_all:
  "dep_at (move_all s t gids st) gid
   = (if gid \<in> set gids then map_option (move s t) (dep_at st gid) else dep_at st gid)"
  unfolding move_all_def set_deployment_state_upd by (rule deps.fold_upd_look) simp_all

section \<open>The loops select by the state before them\<close>

definition live_at :: "store \<Rightarrow> string \<Rightarrow> bool" where
  "live_at st gid \<longleftrightarrow> (case dep_at st gid of Some d \<Rightarrow> dep_state d = Live | None \<Rightarrow> False)"

definition idle_at :: "store \<Rightarrow> string \<Rightarrow> bool" where
  "idle_at st gid \<longleftrightarrow> (case dep_at st gid of Some d \<Rightarrow> dep_state d = Idle | None \<Rightarrow> False)"

lemma state_at_upd_other:
  "g \<noteq> gid \<Longrightarrow> live_at (set_deployment_state gid s t st) g = live_at st g"
  "g \<noteq> gid \<Longrightarrow> idle_at (set_deployment_state gid s t st) g = idle_at st g"
  by (simp_all add: live_at_def idle_at_def set_deployment_state_upd deps.look_upd)

lemma demand_set_state [simp]: "demand (set_deployment_state gid s t st) = demand st"
  by (simp add: set_deployment_state_upd)

lemma idle_loop_eq:
  assumes "distinct gids"
  shows "idle_loop gids now st =
    (move_all Idle now (filter (\<lambda>g. live_at st g \<and> demand st g now = 0) gids) st,
     filter (\<lambda>g. live_at st g \<and> demand st g now = 0) gids)"
  using assms
proof (induction gids now st rule: idle_loop.induct)
  case (1 now st)
  then show ?case by (simp add: move_all_def)
next
  case (2 gid rest now st)
  have r: "distinct rest" "gid \<notin> set rest" using 2(5) by auto
  show ?case
  proof (cases "dep_at st gid")
    case None
    then show ?thesis using 2(1) r by (simp add: live_at_def)
  next
    case (Some d)
    show ?thesis
    proof (cases "dep_state d = Live \<and> demand st gid now = 0")
      case False
      then show ?thesis using 2(2,4) r Some by (auto simp: live_at_def)
    next
      case True
      let ?st = "set_deployment_state gid Idle now st"
      have "filter (\<lambda>g. live_at ?st g \<and> demand ?st g now = 0) rest
          = filter (\<lambda>g. live_at st g \<and> demand st g now = 0) rest"
        by (rule filter_cong) (use r(2) in \<open>simp, metis state_at_upd_other demand_set_state\<close>)
      then show ?thesis using 2(3) r Some True by (simp add: live_at_def move_all_def)
    qed
  qed
qed

lemma idle_deployments_eq:
  "idle_deployments ids now st =
    (move_all Idle now (filter (\<lambda>g. live_at st g \<and> demand st g now = 0) (fromkeys ids)) st,
     filter (\<lambda>g. live_at st g \<and> demand st g now = 0) (fromkeys ids))"
  by (simp add: idle_deployments_def idle_loop_eq)

lemma revive_idle_eq:
  assumes "distinct gids"
  shows "revive_idle gids now st =
    (move_all Live now (filter (idle_at st) gids) st, filter (idle_at st) gids)"
  using assms
proof (induction gids now st rule: revive_idle.induct)
  case (1 now st)
  then show ?case by (simp add: move_all_def)
next
  case (2 gid rest now st)
  have r: "distinct rest" "gid \<notin> set rest" using 2(4) by auto
  show ?case
  proof (cases "dep_at st gid")
    case None
    then show ?thesis using 2(1) r by (simp add: idle_at_def)
  next
    case (Some d)
    show ?thesis
    proof (cases "dep_state d = Idle")
      case False
      then show ?thesis using 2(3) r Some by (auto simp: idle_at_def)
    next
      case True
      let ?st = "set_deployment_state gid Live now st"
      have "filter (idle_at ?st) rest = filter (idle_at st) rest"
        by (rule filter_cong) (use r(2) in \<open>simp, metis state_at_upd_other demand_set_state\<close>)
      moreover have "idle_at st gid" using Some True by (simp add: idle_at_def)
      ultimately show ?thesis using 2(2) r Some True by (simp add: move_all_def)
    qed
  qed
qed

section \<open>Invariants of the ledger\<close>

text \<open>Every LIVE deployment is claimed by an ACTIVE lease.\<close>

definition live_claimed :: "store \<Rightarrow> bool" where
  "live_claimed st \<longleftrightarrow> (\<forall>gid. live_at st gid \<longrightarrow>
     (\<exists>c \<in> set (st_claims st). cl_deployment c = gid \<and>
        (\<exists>r. lease_at st (cl_lease c) = Some r \<and> lr_state r = Active)))"

text \<open>Every deployment claimed by a protecting lease is LIVE.\<close>

definition protected :: "rat \<Rightarrow> store \<Rightarrow> bool" where
  "protected now st \<longleftrightarrow> (\<forall>c \<in> set (st_claims st). \<forall>r. lease_at st (cl_lease c) = Some r
     \<longrightarrow> row_protects now r \<longrightarrow> live_at st (cl_deployment c))"

definition ledger_ok :: "store \<Rightarrow> bool" where
  "ledger_ok st \<longleftrightarrow> refs_ok st \<and> alloc_ok st \<and> live_claimed st"

lemma row_protects_Active: "row_protects now r \<Longrightarrow> lr_state r = Active"
  by (simp add: row_protects_def)

lemma live_at_move_all:
  "live_at (move_all s t gids st) gid =
     (if gid \<in> set gids \<and> dep_at st gid \<noteq> None then s = Live else live_at st gid)"
  by (auto simp: live_at_def dep_at_move_all split: option.split)

lemma alloc_ok_move_all: "alloc_ok st \<Longrightarrow> alloc_ok (move_all s t gids st)"
  by (auto simp: alloc_ok_def dep_at_move_all split: if_splits)

lemma refs_ok_move_all [simp]: "refs_ok (move_all s t gids st) = refs_ok st"
  by (rule refs_ok_cong) simp_all

lemma refs_ok_upd_lease:
  "(\<And>r. lr_id (f r) = lr_id r) \<Longrightarrow> refs_ok (upd_lease sid f st) = refs_ok st"
  by (rule refs_ok_cong) (simp_all add: leases.keys_upd)

lemma refs_ok_bump [simp]: "refs_ok (bump_desired_generation st) = refs_ok st"
  by (rule refs_ok_cong) simp_all

lemma alloc_ok_frame [simp]:
  "alloc_ok (bump_desired_generation st) = alloc_ok st" "alloc_ok (upd_lease sid f st) = alloc_ok st"
  by (simp_all add: alloc_ok_def)

lemma live_at_frame [simp]:
  "live_at (bump_desired_generation st) = live_at st" "live_at (upd_lease sid f st) = live_at st"
  "idle_at (upd_lease sid f st) = idle_at st"
  by (simp_all add: live_at_def idle_at_def fun_eq_iff)

lemma live_claimed_bump [simp]: "live_claimed (bump_desired_generation st) = live_claimed st"
  by (simp add: live_claimed_def)

lemma protected_bump [simp]: "protected t (bump_desired_generation st) = protected t st"
  by (simp add: protected_def)

lemma ledger_ok_bump [simp]: "ledger_ok (bump_desired_generation st) = ledger_ok st"
  by (simp add: ledger_ok_def)

text \<open>
  Turning leases \<open>sids\<close> inactive and idling, among the deployments \<open>gids\<close> that include all of
  theirs, those without demand keeps the invariants: the common core of release and sweep.
\<close>

lemma deactivate_ok:
  assumes ok: "ledger_ok st"
    and inact: "\<And>sid. lease_at st1 sid = (if sid \<in> set sids then map_option (\<lambda>r. r\<lparr>lr_state := s\<rparr>) (lease_at st sid)
                                        else lease_at st sid)"
    and s: "s \<noteq> Active"
    and same: "st_deployments st1 = st_deployments st" "st_claims st1 = st_claims st"
      "st_addresses st1 = st_addresses st" "lease_ids st1 = lease_ids st"
    and cover: "\<And>c. c \<in> set (st_claims st) \<Longrightarrow> cl_lease c \<in> set sids \<Longrightarrow> cl_deployment c \<in> set gids"
  shows "ledger_ok (fst (idle_deployments gids now st1))"
    and "protected now st \<Longrightarrow> protected now (fst (idle_deployments gids now st1))"
proof -
  have deps: "dep_at st1 = dep_at st" "dep_ids st1 = dep_ids st" "live_at st1 = live_at st"
    using same(1) by (simp_all add: dep_at_def dep_ids_def live_at_def fun_eq_iff)
  have refs: "refs_ok st1" using ok same deps refs_ok_cong[of st1 st] by (simp add: ledger_ok_def)
  then have d1: "distinct (lease_ids st1)" by (simp add: refs_ok_def)
  let ?L = "filter (\<lambda>g. live_at st1 g \<and> demand st1 g now = 0) (fromkeys gids)"
  let ?st = "move_all Idle now ?L st1"
  have act: "lease_at st1 sid = Some r \<and> lr_state r = Active \<longleftrightarrow>
      sid \<notin> set sids \<and> lease_at st sid = Some r \<and> lr_state r = Active" for sid r
    using s inact[of sid] by auto
  have alloc: "alloc_ok ?st"
    using ok deps by (intro alloc_ok_move_all) (simp add: ledger_ok_def alloc_ok_def)
  have live: "live_at ?st g \<longleftrightarrow> live_at st g \<and> g \<notin> set ?L" for g
  proof -
    have "g \<in> set ?L \<Longrightarrow> dep_at st1 g \<noteq> None" by (auto simp: live_at_def split: option.splits)
    then show ?thesis
      by (cases "g \<in> set ?L") (simp_all add: live_at_move_all deps del: set_filter)
  qed
  have "live_claimed ?st"
    unfolding live_claimed_def
  proof (intro allI impI)
    fix g assume g: "live_at ?st g"
    show "\<exists>c\<in>set (st_claims ?st). cl_deployment c = g \<and>
        (\<exists>r. lease_at ?st (cl_lease c) = Some r \<and> lr_state r = Active)"
    proof (cases "g \<in> set gids")
      case True
      then have "demand st1 g now \<noteq> 0" using g live[of g] deps by auto
      then obtain c r where "c \<in> set (st_claims st1)" "cl_deployment c = g"
        "lease_at st1 (cl_lease c) = Some r" "row_protects now r"
        using demand_eq_0[OF d1, of g now] by auto
      then show ?thesis using row_protects_Active by auto
    next
      case False
      have "live_at st g" using g live by blast
      then obtain c r where c: "c \<in> set (st_claims st)" "cl_deployment c = g"
        "lease_at st (cl_lease c) = Some r" "lr_state r = Active"
        using ok by (auto simp: ledger_ok_def live_claimed_def)
      have "cl_lease c \<notin> set sids" using cover[OF c(1)] c(2) False by blast
      then have "lease_at st1 (cl_lease c) = Some r" using inact[of "cl_lease c"] c(3) by simp
      then show ?thesis using c same(2) by auto
    qed
  qed
  then show "ledger_ok (fst (idle_deployments gids now st1))"
    using refs alloc by (simp add: idle_deployments_eq ledger_ok_def)
  show "protected now (fst (idle_deployments gids now st1))" if p: "protected now st"
    unfolding protected_def idle_deployments_eq fst_conv
  proof (intro ballI allI impI)
    fix c r assume c: "c \<in> set (st_claims ?st)" "lease_at ?st (cl_lease c) = Some r" "row_protects now r"
    then have "lease_at st1 (cl_lease c) = Some r" "lr_state r = Active" using row_protects_Active by simp_all
    then have "lease_at st (cl_lease c) = Some r" using act by blast
    then have l: "live_at st (cl_deployment c)" using p c same(2) by (simp add: protected_def)
    have "demand st1 (cl_deployment c) now \<noteq> 0"
      using demand_eq_0[OF d1, of "cl_deployment c" now] c by auto
    then show "live_at ?st (cl_deployment c)" using l live by auto
  qed
qed

section \<open>Every operation keeps the invariants\<close>

lemma lease_claims_cover:
  assumes "get_lease st sid = Some le" and "c \<in> set (st_claims st)" "cl_lease c = sid"
  shows "cl_deployment c \<in> set (lease_deployment_ids le)"
  using assms by (auto simp: get_lease_lease_at row_to_lease_def Let_def dest!: lease_at_id)

lemma lease_deployment_idsD:
  assumes "get_lease st sid = Some le" and "g \<in> set (lease_deployment_ids le)"
  shows "\<exists>c \<in> set (st_claims st). cl_lease c = sid \<and> cl_deployment c = g"
  using assms by (auto simp: get_lease_lease_at row_to_lease_def Let_def dest!: lease_at_id)

lemma lease_id_row [simp]: "lease_id (row_to_lease st r) = lr_id r"
  by (simp add: row_to_lease_def Let_def)

lemma lease_state_row [simp]: "lease_state (row_to_lease st r) = lr_state r"
  by (simp add: row_to_lease_def Let_def)

subsection \<open>Release\<close>

lemma release_ok:
  assumes "ledger_ok st"
  shows "ledger_ok (fst (release sid now st))"
    and "protected now st \<Longrightarrow> protected now (fst (release sid now st))"
proof -
  have "ledger_ok (fst (release sid now st)) \<and>
      (protected now st \<longrightarrow> protected now (fst (release sid now st)))"
  proof (cases "get_lease st sid")
    case None
    then show ?thesis using assms by (simp add: release_def)
  next
    case (Some le)
    let ?st1 = "set_lease_state sid Released st"
    have inact: "lease_at ?st1 s = (if s \<in> set [sid] then map_option (\<lambda>r. r\<lparr>lr_state := Released\<rparr>) (lease_at st s)
        else lease_at st s)" for s
      by (simp add: set_lease_state_upd leases.look_upd)
    have same: "st_deployments ?st1 = st_deployments st" "st_claims ?st1 = st_claims st"
      "st_addresses ?st1 = st_addresses st" "lease_ids ?st1 = lease_ids st"
      by (simp_all add: set_lease_state_upd leases.keys_upd)
    have cover: "c \<in> set (st_claims st) \<Longrightarrow> cl_lease c \<in> set [sid]
        \<Longrightarrow> cl_deployment c \<in> set (lease_deployment_ids le)" for c
      using lease_claims_cover[OF Some] by simp
    note D = deactivate_ok[OF assms inact _ same cover, of now]
    show ?thesis using D assms Some by (auto simp: release_def split: prod.split)
  qed
  then show "ledger_ok (fst (release sid now st))"
    "protected now st \<Longrightarrow> protected now (fst (release sid now st))" by blast+
qed

subsection \<open>Sweep\<close>

lemma active_leases_past_ids:
  assumes "distinct (lease_ids st)"
  shows "sid \<in> lease_id ` set (active_leases_past st now) \<longleftrightarrow>
    (\<exists>r. lease_at st sid = Some r \<and> lr_state r = Active \<and> \<not> row_protects now r)"
proof
  assume "sid \<in> lease_id ` set (active_leases_past st now)"
  then obtain r where r: "r \<in> set (st_leases st)" "lr_id r = sid" "lr_state r = Active"
      "\<not> row_protects now r"
    by (auto simp: active_leases_past_def row_protects_def split: option.splits)
  then show "\<exists>r. lease_at st sid = Some r \<and> lr_state r = Active \<and> \<not> row_protects now r"
    using lease_at_row[OF assms r(1)] by auto
next
  assume "\<exists>r. lease_at st sid = Some r \<and> lr_state r = Active \<and> \<not> row_protects now r"
  then obtain r where r: "lease_at st sid = Some r" "lr_state r = Active" "\<not> row_protects now r" by blast
  then have "row_to_lease st r \<in> set (active_leases_past st now)"
    using lease_at_mem[OF r(1)]
    by (auto simp: active_leases_past_def row_protects_def split: option.splits)
  then show "sid \<in> lease_id ` set (active_leases_past st now)"
    using lease_at_id[OF r(1)] by (auto intro!: image_eqI[of _ _ "row_to_lease st r"])
qed

lemma fold_expire:
  "fold (\<lambda>le. set_lease_state (lease_id le) Expired) due st
   = fold (\<lambda>sid. upd_lease sid (\<lambda>r. r\<lparr>lr_state := Expired\<rparr>)) (map lease_id due) st"
  by (simp add: set_lease_state_upd fold_map comp_def)

lemma due_claims_cover:
  assumes "distinct (lease_ids st)" and "c \<in> set (st_claims st)"
    and "cl_lease c \<in> set (map lease_id (active_leases_past st now))"
  shows "cl_deployment c \<in> set (concat (map lease_deployment_ids (active_leases_past st now)))"
proof -
  obtain le where le: "le \<in> set (active_leases_past st now)" "lease_id le = cl_lease c"
    using assms(3) by auto
  then have "cl_deployment c \<in> set (lease_deployment_ids le)"
    using assms(2) by (auto simp: active_leases_past_def row_to_lease_def Let_def)
  then show ?thesis using le(1) by auto
qed

lemma sweep_ok:
  assumes "ledger_ok st"
  shows "ledger_ok (fst (sweep now st))"
    and "protected now st \<Longrightarrow> protected now (fst (sweep now st))"
proof -
  have d: "distinct (lease_ids st)" using assms by (simp add: ledger_ok_def refs_ok_def)
  let ?due = "active_leases_past st now"
  let ?st1 = "fold (\<lambda>le. set_lease_state (lease_id le) Expired) ?due st"
  have inact: "lease_at ?st1 s = (if s \<in> set (map lease_id ?due)
      then map_option (\<lambda>r. r\<lparr>lr_state := Expired\<rparr>) (lease_at st s) else lease_at st s)" for s
    unfolding fold_expire by (rule leases.fold_upd_look) simp_all
  have "lease_ids ?st1 = lease_ids st"
    unfolding fold_expire by (rule leases.fold_upd_keys) simp
  then have same: "st_deployments ?st1 = st_deployments st" "st_claims ?st1 = st_claims st"
    "st_addresses ?st1 = st_addresses st" "lease_ids ?st1 = lease_ids st"
    by (simp_all add: set_lease_state_upd)
  note D = deactivate_ok[OF assms inact _ same due_claims_cover[OF d], of now]
  define R where "R = fst (idle_deployments (concat (map lease_deployment_ids ?due)) now ?st1)"
  have "fst (sweep now st) = R \<or> fst (sweep now st) = bump_desired_generation R"
    unfolding sweep_def Let_def case_prod_beta fst_conv R_def by meson
  moreover have "ledger_ok R" "protected now st \<Longrightarrow> protected now R"
    unfolding R_def by (rule D; simp)+
  ultimately show "ledger_ok (fst (sweep now st))"
    "protected now st \<Longrightarrow> protected now (fst (sweep now st))" by auto
qed

subsection \<open>Renew\<close>

lemma renew_lease_frame [simp]:
  "st_claims (renew_lease sid ttl e h st) = st_claims st"
  "st_addresses (renew_lease sid ttl e h st) = st_addresses st"
  "dep_at (renew_lease sid ttl e h st) g = dep_at st g"
  "dep_ids (renew_lease sid ttl e h st) = dep_ids st"
  "live_at (renew_lease sid ttl e h st) = live_at st"
  "idle_at (renew_lease sid ttl e h st) = idle_at st"
  "refs_ok (renew_lease sid ttl e h st) = refs_ok st"
  "alloc_ok (renew_lease sid ttl e h st) = alloc_ok st"
  by (simp_all add: renew_lease_upd refs_ok_upd_lease)

lemma lease_at_renew_lease:
  "lease_at (renew_lease sid ttl e h st) s = (if s = sid then map_option (\<lambda>r. r\<lparr>lr_state := Active,
     lr_ttl_seconds := ttl, lr_expires_at := e, lr_heartbeat_at := h\<rparr>) (lease_at st s) else lease_at st s)"
  by (simp add: renew_lease_upd leases.look_upd)

lemma renew_lease_active:
  assumes "lease_at st s = Some r" "lr_state r = Active"
  shows "\<exists>r'. lease_at (renew_lease sid ttl e h st) s = Some r' \<and> lr_state r' = Active"
  using assms by (auto simp: lease_at_renew_lease)

lemma renew_lease_ok: "ledger_ok st \<Longrightarrow> ledger_ok (renew_lease sid ttl e h st)"
  using renew_lease_active[of st _ _ sid ttl e h] by (fastforce simp: ledger_ok_def live_claimed_def)

text \<open>Allocations given to LIVE deployments.\<close>

definition allocate_all :: "(string, int list) dict \<Rightarrow> store \<Rightarrow> store" where
  "allocate_all allocations st =
     fold (\<lambda>(gid, gpus). set_deployment_allocation gid (Some gpus)) allocations st"

lemma allocate_all_upd:
  "allocate_all al st = fold (\<lambda>(gid, gpus). upd_dep gid (\<lambda>d. d\<lparr>dep_assigned_gpus := Some gpus\<rparr>)) al st"
  by (simp add: allocate_all_def set_deployment_allocation_upd)

lemma allocate_all_frame [simp]:
  "st_leases (allocate_all al st) = st_leases st" "st_claims (allocate_all al st) = st_claims st"
  "st_addresses (allocate_all al st) = st_addresses st" "lease_at (allocate_all al st) sid = lease_at st sid"
  "lease_ids (allocate_all al st) = lease_ids st" "dep_ids (allocate_all al st) = dep_ids st"
  unfolding allocate_all_upd by (induction al arbitrary: st) (auto simp: deps.keys_upd)

lemma allocate_all_state:
  "map_option dep_state (dep_at (allocate_all al st) g) = map_option dep_state (dep_at st g)"
  unfolding allocate_all_upd
  by (rule deps.fold_upd_row[where g = "\<lambda>x d. d\<lparr>dep_assigned_gpus := Some x\<rparr>"]) simp_all

lemma live_at_map: "live_at st g \<longleftrightarrow> map_option dep_state (dep_at st g) = Some Live"
  by (simp add: live_at_def split: option.split)

lemma live_at_allocate_all [simp]: "live_at (allocate_all al st) = live_at st"
  by (simp add: live_at_map allocate_all_state fun_eq_iff)

lemma alloc_ok_allocate_all:
  assumes "alloc_ok st" and "\<And>g. g \<in> fst ` set al \<Longrightarrow> live_at st g"
  shows "alloc_ok (allocate_all al st)"
  unfolding alloc_ok_def
proof (intro allI impI)
  fix g d assume d: "dep_at (allocate_all al st) g = Some d" "dep_assigned_gpus d \<noteq> None"
  show "dep_state d = Live"
  proof (cases "g \<in> fst ` set al")
    case True
    then have "live_at (allocate_all al st) g" using assms(2) by simp
    then show ?thesis using d(1) unfolding live_at_def by simp
  next
    case False
    have "dep_at (allocate_all al st) g = dep_at st g"
      unfolding allocate_all_upd
      by (rule deps.fold_upd_other[where g = "\<lambda>x d. d\<lparr>dep_assigned_gpus := Some x\<rparr>"]) (use False in simp_all)
    then show ?thesis using d assms(1) by (simp add: alloc_ok_def)
  qed
qed

lemma refs_ok_allocate_all [simp]: "refs_ok (allocate_all al st) = refs_ok st"
  by (rule refs_ok_cong) simp_all

text \<open>The store after a renewal of lease \<open>le\<close> before the counters move.\<close>

definition renewed ::
    "string \<Rightarrow> rat option \<Rightarrow> (string, int list) dict \<Rightarrow> rat \<Rightarrow> lease \<Rightarrow> store \<Rightarrow> store" where
  "renewed sid ttl al now le st =
     (let st1 = renew_lease sid ttl (map_option (\<lambda>t. now + t) ttl) now st;
          revived = filter (idle_at st1) (fromkeys (lease_deployment_ids le))
      in allocate_all (filter (\<lambda>kv. fst kv \<in> set revived) al) (move_all Live now revived st1))"

lemma renew_eq:
  assumes "get_lease st sid = Some le" and "lease_state le = Active"
  shows "fst (renew sid ttl al now st) =
    (if filter (idle_at st) (fromkeys (lease_deployment_ids le)) \<noteq> []
     then bump_desired_generation (renewed sid ttl al now le st) else renewed sid ttl al now le st)"
  using assms by (simp add: renew_def revive_idle_eq renewed_def Let_def allocate_all_def del: set_filter)

lemma live_at_renewed:
  "live_at (renewed sid ttl al now le st) g \<longleftrightarrow>
     live_at st g \<or> g \<in> set (lease_deployment_ids le) \<and> idle_at st g"
  by (auto simp: renewed_def Let_def live_at_move_all idle_at_def split: option.splits)

lemma renewed_ok:
  assumes ok: "ledger_ok st" and le: "get_lease st sid = Some le" "lease_state le = Active"
  shows "ledger_ok (renewed sid ttl al now le st)"
proof -
  let ?st1 = "renew_lease sid ttl (map_option (\<lambda>t. now + t) ttl) now st"
  let ?rev = "filter (idle_at ?st1) (fromkeys (lease_deployment_ids le))"
  let ?st = "renewed sid ttl al now le st"
  have refs: "refs_ok ?st" using ok by (simp add: renewed_def Let_def ledger_ok_def)
  have "alloc_ok (move_all Live now ?rev ?st1)"
    using ok by (simp add: alloc_ok_move_all ledger_ok_def)
  then have al: "alloc_ok ?st"
    unfolding renewed_def Let_def
    by (rule alloc_ok_allocate_all) (auto simp: live_at_move_all idle_at_def split: option.splits)
  have act: "\<exists>r. lease_at ?st1 (cl_lease c) = Some r \<and> lr_state r = Active"
    if "lease_at st (cl_lease c) = Some r" "lr_state r = Active" for c r
    using renew_lease_active[OF that] by blast
  have sid: "\<exists>r. lease_at st sid = Some r \<and> lr_state r = Active"
    using le by (auto simp: get_lease_lease_at)
  have "live_claimed ?st"
    unfolding live_claimed_def
  proof (intro allI impI)
    fix g assume "live_at ?st g"
    then consider "live_at st g" | "g \<in> set (lease_deployment_ids le)" by (auto simp: live_at_renewed)
    then obtain c where "c \<in> set (st_claims st)" "cl_deployment c = g"
      "\<exists>r. lease_at st (cl_lease c) = Some r \<and> lr_state r = Active"
    proof cases
      case 1
      then show ?thesis using ok that by (auto simp: ledger_ok_def live_claimed_def)
    next
      case 2
      then show ?thesis using lease_deployment_idsD[OF le(1)] sid that by blast
    qed
    moreover from this(3) obtain r where "lease_at ?st1 (cl_lease c) = Some r" "lr_state r = Active"
      using act by blast
    ultimately show "\<exists>c\<in>set (st_claims ?st). cl_deployment c = g \<and>
        (\<exists>r. lease_at ?st (cl_lease c) = Some r \<and> lr_state r = Active)"
      by (auto simp: renewed_def Let_def)
  qed
  then show ?thesis using refs al by (simp add: ledger_ok_def)
qed

text \<open>A renewal is safe when every deployment of the lease is still LIVE or IDLE.\<close>

definition renewable :: "string \<Rightarrow> store \<Rightarrow> bool" where
  "renewable sid st \<longleftrightarrow> (\<forall>c \<in> set (st_claims st). cl_lease c = sid
     \<longrightarrow> live_at st (cl_deployment c) \<or> idle_at st (cl_deployment c))"

lemma renewed_protected:
  assumes p: "protected now st" and le: "get_lease st sid = Some le" and safe: "renewable sid st"
  shows "protected now (renewed sid ttl al now le st)"
  unfolding protected_def
proof (intro ballI allI impI)
  let ?st = "renewed sid ttl al now le st"
  fix c r assume c: "c \<in> set (st_claims ?st)" "lease_at ?st (cl_lease c) = Some r" "row_protects now r"
  then have cs: "c \<in> set (st_claims st)" by (simp add: renewed_def Let_def)
  show "live_at ?st (cl_deployment c)"
  proof (cases "cl_lease c = sid")
    case True
    then show ?thesis
      using safe cs lease_claims_cover[OF le cs True] by (auto simp: live_at_renewed renewable_def)
  next
    case False
    then have "lease_at st (cl_lease c) = Some r"
      using c(2) by (simp add: renewed_def Let_def lease_at_renew_lease)
    then show ?thesis using p cs c(3) by (auto simp: live_at_renewed protected_def)
  qed
qed

lemma renew_ok:
  assumes "ledger_ok st"
  shows "ledger_ok (fst (renew sid ttl al now st))"
    and "protected now st \<Longrightarrow> renewable sid st \<Longrightarrow> protected now (fst (renew sid ttl al now st))"
proof -
  have "ledger_ok (fst (renew sid ttl al now st)) \<and>
      (protected now st \<longrightarrow> renewable sid st \<longrightarrow> protected now (fst (renew sid ttl al now st)))"
  proof (cases "get_lease st sid")
    case None
    then show ?thesis using assms by (simp add: renew_def)
  next
    case (Some le)
    show ?thesis
    proof (cases "lease_state le = Active")
      case False
      then show ?thesis using assms Some by (simp add: renew_def)
    next
      case True
      then show ?thesis
        using renew_eq[OF Some True] renewed_ok[OF assms Some True] renewed_protected[OF _ Some] by auto
    qed
  qed
  then show "ledger_ok (fst (renew sid ttl al now st))"
    "protected now st \<Longrightarrow> renewable sid st \<Longrightarrow> protected now (fst (renew sid ttl al now st))" by blast+
qed

lemma renew_if_live_ok:
  assumes "ledger_ok st"
  shows "ledger_ok (fst (renew_if_live sid ttl now st))"
    and "protected now st \<Longrightarrow> protected now (fst (renew_if_live sid ttl now st))"
proof -
  have "ledger_ok (fst (renew_if_live sid ttl now st)) \<and>
     (protected now st \<longrightarrow> protected now (fst (renew_if_live sid ttl now st)))"
  proof (cases "get_lease st sid")
    case None
    then show ?thesis using assms by (simp add: renew_if_live_def)
  next
    case (Some le)
    let ?st = "renew_lease sid ttl (map_option (\<lambda>t. now + t) ttl) now st"
    have "protected now ?st" if p: "protected now st"
      and live: "\<forall>g \<in> set (lease_deployment_ids le). live_at st g"
      unfolding protected_def
    proof (intro ballI allI impI)
      fix c r assume c: "c \<in> set (st_claims ?st)" "lease_at ?st (cl_lease c) = Some r" "row_protects now r"
      show "live_at ?st (cl_deployment c)"
        using c p live lease_claims_cover[OF Some, of c]
        by (cases "cl_lease c = sid") (auto simp: lease_at_renew_lease protected_def)
    qed
    then show ?thesis
      using assms Some renew_lease_ok[OF assms]
      by (auto simp: renew_if_live_def list_ex_iff live_at_def Let_def split: option.splits)
  qed
  then show "ledger_ok (fst (renew_if_live sid ttl now st))"
    "protected now st \<Longrightarrow> protected now (fst (renew_if_live sid ttl now st))" by blast+
qed

subsection \<open>Evict and prune\<close>

lemma evict_idle_eq:
  "evict_idle wanted now st =
    (let evicted = map dep_id (filter (\<lambda>g. dep_state g = Idle
              \<and> (case wanted of None \<Rightarrow> True | Some w \<Rightarrow> dep_id g \<in> set w)
              \<and> \<not> dep_demand g > 0) (list_deployments st now))
     in (if evicted \<noteq> [] then bump_desired_generation (move_all Stopped now evicted st)
         else move_all Stopped now evicted st, evicted))"
  by (simp add: evict_idle_def move_all_def Let_def)

lemma evicted_idle:
  assumes "distinct (dep_ids st)" and "g \<in> set (snd (evict_idle wanted now st))"
  shows "idle_at st g \<and> demand st g now = 0 \<and> (case wanted of None \<Rightarrow> True | Some w \<Rightarrow> g \<in> set w)"
proof -
  obtain d where d: "d \<in> set (st_deployments st)" "dep_id d = g" "dep_state d = Idle"
    "demand st g now = 0" "case wanted of None \<Rightarrow> True | Some w \<Rightarrow> g \<in> set w"
    using assms(2) by (auto simp: evict_idle_def Let_def list_deployments_def)
  then have "dep_at st g = Some d" using dep_at_row[OF assms(1) d(1)] by simp
  then show ?thesis using d by (simp add: idle_at_def)
qed

lemma evict_ok:
  assumes "ledger_ok st"
  shows "ledger_ok (fst (evict_idle wanted now st))"
    and "protected t st \<Longrightarrow> protected t (fst (evict_idle wanted now st))"
proof -
  let ?E = "snd (evict_idle wanted now st)"
  let ?st = "move_all Stopped now ?E st"
  have d: "distinct (dep_ids st)" using assms by (simp add: ledger_ok_def refs_ok_def)
  have "\<not> live_at st g" if "g \<in> set ?E" for g
    using evicted_idle[OF d that] by (simp add: live_at_def idle_at_def split: option.splits)
  then have live: "live_at ?st = live_at st" by (auto simp: live_at_move_all fun_eq_iff)
  have "ledger_ok ?st"
    using assms live by (simp add: ledger_ok_def alloc_ok_move_all live_claimed_def)
  moreover have "protected t st \<Longrightarrow> protected t ?st" using live by (simp add: protected_def)
  moreover have "fst (evict_idle wanted now st) = ?st
      \<or> fst (evict_idle wanted now st) = bump_desired_generation ?st"
    unfolding evict_idle_eq Let_def fst_conv snd_conv by meson
  ultimately show "ledger_ok (fst (evict_idle wanted now st))"
    "protected t st \<Longrightarrow> protected t (fst (evict_idle wanted now st))" by auto
qed

lemma find_filter_key:
  "distinct (map key rows) \<Longrightarrow> find (\<lambda>r. key r = k) (filter p rows)
   = (case find (\<lambda>r. key r = k) rows of Some r \<Rightarrow> if p r then Some r else None | None \<Rightarrow> None)"
proof (induction rows)
  case (Cons a rows)
  have "find (\<lambda>r. key r = key a) (filter p rows) = None"
    unfolding find_key_None
    using Cons.prems image_mono[OF filter_is_subset[of p rows], of key] by auto
  then show ?case using Cons by auto
qed simp

definition pruned :: "store \<Rightarrow> store" where
  "pruned st = fst (ledger_prune st)"

lemma pruned_at:
  assumes "refs_ok st"
  shows "lease_at (pruned st) sid = (case lease_at st sid of
           Some r \<Rightarrow> if lr_state r = Active then Some r else None | None \<Rightarrow> None)"
    and "dep_at (pruned st) gid = (case dep_at st gid of
           Some d \<Rightarrow> if dep_state d \<noteq> Stopped then Some d else None | None \<Rightarrow> None)"
proof -
  have "lr_state r \<notin> set [Released, Expired] \<longleftrightarrow> lr_state r = Active" for r :: lease_row
    by (cases "lr_state r") auto
  then show "lease_at (pruned st) sid = (case lease_at st sid of
      Some r \<Rightarrow> if lr_state r = Active then Some r else None | None \<Rightarrow> None)"
    using assms find_filter_key[of lr_id "st_leases st" sid]
    by (simp add: lease_at_def pruned_def ledger_prune_def prune_def Let_def refs_ok_def lease_ids_def)
  show "dep_at (pruned st) gid = (case dep_at st gid of
      Some d \<Rightarrow> if dep_state d \<noteq> Stopped then Some d else None | None \<Rightarrow> None)"
    using assms find_filter_key[of dep_id "st_deployments st" gid]
    by (simp add: dep_at_def pruned_def ledger_prune_def prune_def Let_def refs_ok_def dep_ids_def)
qed

lemma pruned_live [simp]: "refs_ok st \<Longrightarrow> live_at (pruned st) g = live_at st g"
  by (auto simp: live_at_def pruned_at split: option.splits)

lemma pruned_claims:
  assumes "refs_ok st"
  shows "c \<in> set (st_claims (pruned st)) \<longleftrightarrow> c \<in> set (st_claims st) \<and>
    (\<exists>r. lease_at st (cl_lease c) = Some r \<and> lr_state r = Active) \<and>
    (\<exists>d. dep_at st (cl_deployment c) = Some d \<and> dep_state d \<noteq> Stopped)"
proof -
  have dl: "distinct (lease_ids st)" and dd: "distinct (dep_ids st)" using assms by (simp_all add: refs_ok_def)
  have state: "r \<in> {Released, Expired} \<longleftrightarrow> r \<noteq> Active" for r by (cases r) auto
  have gone_l: "sid \<in> lr_id ` {r \<in> set (st_leases st). lr_state r \<in> {Released, Expired}}
      \<longleftrightarrow> (\<exists>r. lease_at st sid = Some r \<and> lr_state r \<noteq> Active)" for sid
    unfolding state using lease_at_row[OF dl] lease_at_mem lease_at_id by force
  have gone_d: "gid \<in> dep_id ` {d \<in> set (st_deployments st). dep_state d = Stopped}
      \<longleftrightarrow> (\<exists>d. dep_at st gid = Some d \<and> dep_state d = Stopped)" for gid
    using dep_at_row[OF dd] dep_at_mem dep_at_id by force
  have known: "lease_at st (cl_lease c) \<noteq> None \<and> dep_at st (cl_deployment c) \<noteq> None"
    if "c \<in> set (st_claims st)"
    using assms that leases.look_None deps.look_None unfolding refs_ok_def by blast
  have "c \<in> set (st_claims (pruned st)) \<longleftrightarrow> c \<in> set (st_claims st)
      \<and> cl_lease c \<notin> lr_id ` {r \<in> set (st_leases st). lr_state r \<in> {Released, Expired}}
      \<and> cl_deployment c \<notin> dep_id ` {d \<in> set (st_deployments st). dep_state d = Stopped}"
    by (auto simp: pruned_def ledger_prune_def prune_def Let_def)
  then show ?thesis unfolding gone_l gone_d using known by auto
qed

lemma prune_ok:
  assumes "ledger_ok st"
  shows "ledger_ok (pruned st)" and "protected t st \<Longrightarrow> protected t (pruned st)"
proof -
  have r: "refs_ok st" using assms by (simp add: ledger_ok_def)
  note at = pruned_at[OF r]
  have fk: "cl_lease c \<in> set (lease_ids (pruned st)) \<and> cl_deployment c \<in> set (dep_ids (pruned st))"
    if "c \<in> set (st_claims (pruned st))" for c
    using that leases.look_None[of "pruned st" "cl_lease c"] deps.look_None[of "pruned st" "cl_deployment c"]
    unfolding pruned_claims[OF r] at by auto
  have "distinct (lease_ids (pruned st))" "distinct (dep_ids (pruned st))"
    "st_addresses (pruned st) = st_addresses st"
    using r by (simp_all add: refs_ok_def lease_ids_def dep_ids_def pruned_def ledger_prune_def prune_def
        Let_def distinct_map_filterI)
  then have refs: "refs_ok (pruned st)" using r fk by (simp add: refs_ok_def)
  have alloc: "alloc_ok (pruned st)"
    using assms by (auto simp: alloc_ok_def ledger_ok_def at split: option.splits if_splits)
  have "live_claimed (pruned st)"
    unfolding live_claimed_def
  proof (intro allI impI)
    fix g assume "live_at (pruned st) g"
    then have g: "live_at st g" using r by simp
    then obtain c s where c: "c \<in> set (st_claims st)" "cl_deployment c = g"
      "lease_at st (cl_lease c) = Some s" "lr_state s = Active"
      using assms by (auto simp: ledger_ok_def live_claimed_def)
    moreover obtain d where "dep_at st g = Some d" "dep_state d = Live"
      using g by (auto simp: live_at_def split: option.splits)
    ultimately have "c \<in> set (st_claims (pruned st))" unfolding pruned_claims[OF r] by auto
    moreover have "lease_at (pruned st) (cl_lease c) = Some s" using c by (simp add: at)
    ultimately show "\<exists>c\<in>set (st_claims (pruned st)). cl_deployment c = g \<and>
        (\<exists>r. lease_at (pruned st) (cl_lease c) = Some r \<and> lr_state r = Active)"
      using c by blast
  qed
  then show "ledger_ok (pruned st)" using refs alloc by (simp add: ledger_ok_def)
  show "protected t (pruned st)" if "protected t st"
    unfolding protected_def
  proof (intro ballI allI impI)
    fix c s assume c: "c \<in> set (st_claims (pruned st))" "lease_at (pruned st) (cl_lease c) = Some s"
      "row_protects t s"
    then have "lease_at st (cl_lease c) = Some s" by (auto simp: at split: option.splits if_splits)
    moreover have "c \<in> set (st_claims st)" using c(1) pruned_claims[OF r] by blast
    ultimately show "live_at (pruned st) (cl_deployment c)"
      using that c(3) r unfolding protected_def by simp
  qed
qed

subsection \<open>Adopting an allocation\<close>

lemma set_allocation_ok:
  assumes "ledger_ok st" and "gpus = None \<or> live_at st gid"
  shows "ledger_ok (set_allocation gid gpus st)"
    and "protected t st \<Longrightarrow> protected t (set_allocation gid gpus st)"
proof -
  let ?st = "upd_dep gid (\<lambda>d. d\<lparr>dep_assigned_gpus := gpus\<rparr>) st"
  have eq: "set_allocation gid gpus st = bump_admission_state_version ?st"
    by (simp add: set_allocation_def set_deployment_allocation_upd)
  have at: "dep_at (set_allocation gid gpus st) g = dep_at ?st g"
    "lease_at (set_allocation gid gpus st) s = lease_at st s"
    "dep_ids (set_allocation gid gpus st) = dep_ids st" "lease_ids (set_allocation gid gpus st) = lease_ids st"
    "st_claims (set_allocation gid gpus st) = st_claims st"
    "st_addresses (set_allocation gid gpus st) = st_addresses st" for g s
    unfolding eq by (simp_all add: bump_admission_state_version_def dep_at_def lease_at_def dep_ids_def
        lease_ids_def upd_dep_def map_upd_where)
  have live: "live_at (set_allocation gid gpus st) = live_at st"
    by (auto simp: live_at_def at deps.look_upd fun_eq_iff split: option.splits)
  have "alloc_ok (set_allocation gid gpus st)"
    using assms by (auto simp: alloc_ok_def at deps.look_upd ledger_ok_def live_at_def split: if_splits)
  then show "ledger_ok (set_allocation gid gpus st)"
    using assms(1) live at refs_ok_cong[of "set_allocation gid gpus st" st]
    by (simp add: ledger_ok_def live_claimed_def)
  show "protected t st \<Longrightarrow> protected t (set_allocation gid gpus st)"
    using live at by (simp add: protected_def)
qed

section \<open>What a plan promises\<close>

text \<open>
  The plan under construction: created deployments are LIVE, unplaced and claimed; revived ones
  are IDLE in the store and claimed; every claim is for a created, a LIVE or a revived
  deployment; and every object of the view is LIVE.
\<close>

definition backed :: "store \<Rightarrow> plan_state \<Rightarrow> string \<Rightarrow> bool" where
  "backed st ps g \<longleftrightarrow> g \<in> set (dkeys (ps_created ps)) \<or> live_at st g
     \<or> idle_at st g \<and> g \<in> set (ps_revived ps)"

definition ps_ok :: "store \<Rightarrow> plan_state \<Rightarrow> bool" where
  "ps_ok st ps \<longleftrightarrow>
     distinct (dkeys (ps_created ps)) \<and>
     (\<forall>g d. dget (ps_created ps) g = Some d \<longrightarrow> dep_id d = g \<and> dep_state d = Live
        \<and> dep_assigned_gpus d = None \<and> g \<in> snd ` set (ps_claims ps) \<and> g \<notin> set (dep_ids st)) \<and>
     (\<forall>g \<in> set (ps_revived ps). idle_at st g \<and> g \<in> snd ` set (ps_claims ps)) \<and>
     (\<forall>c \<in> set (ps_claims ps). backed st ps (snd c) \<and> dget (ps_view ps) (snd c) \<noteq> None) \<and>
     (\<forall>g d. dget (ps_view ps) g = Some d \<longrightarrow> dep_id d = g \<and> dep_state d = Live \<and> backed st ps g
        \<and> (\<forall>d'. dget (ps_created ps) g = Some d' \<longrightarrow> d' = d))"

lemma ps_ok_empty: "ps_ok st empty_plan_state"
  by (simp add: ps_ok_def empty_plan_state_def)

text \<open>A candidate is an object of the view, a row not yet in the view, or a created deployment.\<close>

lemma ranked_set [simp]: "set (ranked resident cands) = set cands"
proof -
  have "snd ` set (enumerate 0 cands) = set cands"
    by (metis list.set_map map_snd_enumerate)
  then show ?thesis by (simp add: ranked_def)
qed

lemma candidates_cases:
  assumes "distinct (dep_ids st)" and "ps_ok st ps" and "(d, p) \<in> set (candidates st ps key)"
  obtains (view) "dget (ps_view ps) (dep_id d) = Some d"
    | (row) "dget (ps_view ps) (dep_id d) = None" "dep_at st (dep_id d) = Some d" "dep_state d \<in> {Live, Idle}"
    | (pending) "dget (ps_created ps) (dep_id d) = Some d"
proof -
  from assms(3) consider g where "g \<in> set (deployments_by_compat st key SHARED [Live, Idle])"
      "d = (case dget (ps_view ps) (dep_id g) of Some v \<Rightarrow> v | None \<Rightarrow> g)"
    | "d \<in> set (dvals (ps_created ps))"
    by (auto simp: candidates_def)
  then show ?thesis
  proof cases
    case 1
    then have g: "g \<in> set (st_deployments st)" "dep_state g \<in> {Live, Idle}"
      by (auto simp: deployments_by_compat_def)
    show ?thesis
    proof (cases "dget (ps_view ps) (dep_id g)")
      case None
      then show ?thesis using row 1 g dep_at_row[OF assms(1) g(1)] by simp
    next
      case (Some v)
      then have "dep_id v = dep_id g" using assms(2) by (simp add: ps_ok_def)
      then show ?thesis using view 1 Some by simp
    qed
  next
    case 2
    then obtain g where "(g, d) \<in> set (ps_created ps)" by (auto simp: dvals_def)
    then have "dget (ps_created ps) g = Some d"
      using assms(2) by (intro dget_distinct) (simp add: ps_ok_def)
    then show ?thesis using pending assms(2) by (auto simp: ps_ok_def)
  qed
qed

lemma choose_candidate:
  assumes "choose_deployment sha resident st ps req = Some d"
  shows "\<exists>p. (d, p) \<in> set (candidates st ps (compat_key sha req))
    \<and> capacity_satisfies (dep_capacity d) (req_capacity req)"
proof -
  obtain c where "find (\<lambda>c. capacity_satisfies (dep_capacity (fst c)) (req_capacity req))
      (ranked resident (candidates st ps (compat_key sha req))) = Some c" "d = fst c"
    using assms by (auto simp: choose_deployment_def split: if_splits)
  then show ?thesis by (metis find_SomeD ranked_set prod.collapse)
qed

text \<open>The chosen deployment, whichever of the three it is.\<close>

lemma chosen_facts:
  assumes "distinct (dep_ids st)" and "ps_ok st ps" and "choose_deployment sha resident st ps req = Some d"
  shows "dep_state d = Live \<and> backed st ps (dep_id d)
         \<or> dep_state d = Idle \<and> idle_at st (dep_id d) \<and> dep_id d \<notin> set (dkeys (ps_created ps))"
    and "\<And>e. dget (ps_created ps) (dep_id d) = Some e \<Longrightarrow> e = d"
proof -
  obtain p where p: "(d, p) \<in> set (candidates st ps (compat_key sha req))"
    using choose_candidate[OF assms(3)] by blast
  have new: "g \<notin> set (dkeys (ps_created ps))" if "g \<in> set (dep_ids st)" for g
    using assms(2) that by (metis in_dkeysE ps_ok_def)
  have "(dep_state d = Live \<and> backed st ps (dep_id d)
         \<or> dep_state d = Idle \<and> idle_at st (dep_id d) \<and> dep_id d \<notin> set (dkeys (ps_created ps)))
        \<and> (\<forall>e. dget (ps_created ps) (dep_id d) = Some e \<longrightarrow> e = d)"
  proof (cases rule: candidates_cases[OF assms(1,2) p])
    case 1
    then have "dep_state d = Live \<and> backed st ps (dep_id d)
        \<and> (\<forall>d'. dget (ps_created ps) (dep_id d) = Some d' \<longrightarrow> d' = d)"
      using assms(2) unfolding ps_ok_def by blast
    then show ?thesis by blast
  next
    case 2
    have "dep_id d \<in> set (dep_ids st)" using 2(2) deps.look_None by (metis option.distinct(1))
    then have n: "dep_id d \<notin> set (dkeys (ps_created ps))" by (rule new)
    then have "dget (ps_created ps) (dep_id d) = None" by (simp add: dget_None_iff)
    then show ?thesis using 2 n by (auto simp: backed_def live_at_def idle_at_def)
  next
    case 3
    then have "dep_state d = Live" using assms(2) unfolding ps_ok_def by blast
    moreover have "backed st ps (dep_id d)" using dget_in_dkeys[OF 3] by (simp add: backed_def)
    ultimately show ?thesis using 3 by simp
  qed
  then show "dep_state d = Live \<and> backed st ps (dep_id d)
         \<or> dep_state d = Idle \<and> idle_at st (dep_id d) \<and> dep_id d \<notin> set (dkeys (ps_created ps))"
    "\<And>e. dget (ps_created ps) (dep_id d) = Some e \<Longrightarrow> e = d" by blast+
qed

lemma serve_frame [simp]:
  "dep_id (serve req d) = dep_id d" "dep_state (serve req d) = dep_state d"
  "dep_assigned_gpus (serve req d) = dep_assigned_gpus d" "dep_capacity (serve req d) = dep_capacity d"
  "dep_sharing (serve req d) = dep_sharing d" "dep_compat_key (serve req d) = dep_compat_key d"
  by (simp_all add: serve_def)

lemma revive_frame [simp]:
  "dep_id (revive d) = dep_id d" "dep_capacity (revive d) = dep_capacity d"
  "dep_sharing (revive d) = dep_sharing d" "dep_compat_key (revive d) = dep_compat_key d"
  "dep_state d = Live \<Longrightarrow> revive d = d" "dep_state d = Idle \<Longrightarrow> dep_state (revive d) = Live"
  by (simp_all add: revive_def)

lemma join_deployment_simps [simp]:
  "ps_view (join_deployment req d ps) = dput (dep_id d) (serve req (revive d)) (ps_view ps)"
  "ps_created (join_deployment req d ps) =
     (if dep_id d \<in> set (dkeys (ps_created ps)) then dput (dep_id d) (serve req (revive d)) (ps_created ps)
      else ps_created ps)"
  "ps_revived (join_deployment req d ps) =
     (if dep_state d = Idle then ps_revived ps @ [dep_id d] else ps_revived ps)"
  "ps_claims (join_deployment req d ps) = ps_claims ps @ [(req, dep_id d)]"
  by (simp_all add: join_deployment_def Let_def)

lemma join_ps_ok:
  assumes "distinct (dep_ids st)" and ok: "ps_ok st ps"
    and ch: "choose_deployment sha resident st ps req = Some d"
  shows "ps_ok st (join_deployment req d ps)"
proof -
  note f = chosen_facts[OF assms]
  let ?ps = "join_deployment req d ps"
  have ck: "set (dkeys (ps_created ?ps)) = set (dkeys (ps_created ps))" by auto
  have rv: "set (ps_revived ps) \<subseteq> set (ps_revived ?ps)" by auto
  have b: "backed st ps g \<Longrightarrow> backed st ?ps g" for g
    using ck rv unfolding backed_def by blast
  have bd: "backed st ?ps (dep_id d)"
    using f(1) b by (auto simp: backed_def)
  have live: "dep_state (serve req (revive d)) = Live" using f(1) by auto
  have created: "dep_assigned_gpus d = None \<and> dep_state d = Live"
    if "dep_id d \<in> set (dkeys (ps_created ps))"
  proof -
    note m = that
    obtain e where "dget (ps_created ps) (dep_id d) = Some e" by (rule in_dkeysE[OF m])
    then show ?thesis using f(2) ok unfolding ps_ok_def by metis
  qed
  have new: "dep_id d \<notin> set (dep_ids st)" if "dep_id d \<in> set (dkeys (ps_created ps))"
    using that ok by (metis in_dkeysE ps_ok_def)
  have c1: "distinct (dkeys (ps_created ?ps))" using ok by (simp add: ps_ok_def)
  have c2: "dep_id e = g \<and> dep_state e = Live \<and> dep_assigned_gpus e = None
      \<and> g \<in> snd ` set (ps_claims ?ps) \<and> g \<notin> set (dep_ids st)" if "dget (ps_created ?ps) g = Some e" for g e
    using that ok created new live
    by (cases "dep_id d \<in> set (dkeys (ps_created ps))") (auto simp: ps_ok_def split: if_splits)
  have c3: "idle_at st g \<and> g \<in> snd ` set (ps_claims ?ps)" if "g \<in> set (ps_revived ?ps)" for g
    using that ok f(1) by (auto simp: ps_ok_def split: if_splits)
  have c4: "backed st ?ps (snd c) \<and> dget (ps_view ?ps) (snd c) \<noteq> None" if "c \<in> set (ps_claims ?ps)" for c
    using that ok b bd by (auto simp: ps_ok_def)
  have c5: "dep_id e = g \<and> dep_state e = Live \<and> backed st ?ps g
      \<and> (\<forall>e'. dget (ps_created ?ps) g = Some e' \<longrightarrow> e' = e)" if "dget (ps_view ?ps) g = Some e" for g e
  proof (cases "g = dep_id d")
    case True
    then show ?thesis using that live bd
      by (auto simp: dget_None_iff[THEN iffD2] split: if_splits)
  next
    case False
    then show ?thesis using that ok b by (auto simp: ps_ok_def split: if_splits)
  qed
  show ?thesis unfolding ps_ok_def using c1 c2 c3 c4 c5 by blast
qed

lemma create_ps_ok:
  assumes ok: "ps_ok st ps" and new: "new_id (ps_ids ps) \<notin> set (dep_ids st)"
  shows "ps_ok st (create_deployment sha new_id now req ps)"
proof -
  let ?ps = "create_deployment sha new_id now req ps" and ?g = "new_id (ps_ids ps)"
  let ?d = "new_deployment sha ?g now req"
  have s: "ps_view ?ps = dput ?g ?d (ps_view ps)" "ps_created ?ps = dput ?g ?d (ps_created ps)"
    "ps_revived ?ps = ps_revived ps" "ps_claims ?ps = ps_claims ps @ [(req, ?g)]"
    by (simp_all add: create_deployment_def new_deployment_def Let_def)
  have d: "dep_id ?d = ?g" "dep_state ?d = Live" "dep_assigned_gpus ?d = None"
    by (simp_all add: new_deployment_def)
  have b: "backed st ps g \<Longrightarrow> backed st ?ps g" for g by (auto simp: backed_def s)
  have bg: "backed st ?ps ?g" by (simp add: backed_def s)
  show ?thesis
    unfolding ps_ok_def s using ok b bg new d
    by (auto simp: ps_ok_def split: if_splits)
qed

lemma plan_request_ps_ok:
  assumes "distinct (dep_ids st)" and "ps_ok st ps" and "\<And>n. new_id n \<notin> set (dep_ids st)"
  shows "ps_ok st (plan_request sha new_id resident now st req ps)"
  unfolding plan_request_def
  using join_ps_ok[OF assms(1,2)] create_ps_ok[OF assms(2), of new_id] assms(3)
  by (auto split: option.split)

lemma fold_invariant2:
  "I s \<Longrightarrow> (\<And>x t. x \<in> set xs \<Longrightarrow> I t \<Longrightarrow> I (f x t)) \<Longrightarrow> I (fold f xs s)"
  by (induction xs arbitrary: s) auto

definition planned :: "(string \<Rightarrow> string) \<Rightarrow> (nat \<Rightarrow> string) \<Rightarrow> (string \<Rightarrow> bool) option \<Rightarrow> rat
    \<Rightarrow> endpoint_request list \<Rightarrow> store \<Rightarrow> plan_state" where
  "planned sha new_id resident now reqs st =
     fold (plan_request sha new_id resident now st) reqs empty_plan_state"

lemma planned_ok:
  assumes "distinct (dep_ids st)" and "\<And>n. new_id n \<notin> set (dep_ids st)"
  shows "ps_ok st (planned sha new_id resident now reqs st)"
  unfolding planned_def
  by (rule fold_invariant2[where I = "ps_ok st", OF ps_ok_empty]) (rule plan_request_ps_ok[OF assms(1) _ assms(2)])

lemma plan_acquire_fields:
  "ov_now (plan_acquire sha new_id resident now reqs st) = now"
  "ov_claims (plan_acquire sha new_id resident now reqs st) = ps_claims (planned sha new_id resident now reqs st)"
  "ov_created (plan_acquire sha new_id resident now reqs st) = ps_created (planned sha new_id resident now reqs st)"
  "ov_revived (plan_acquire sha new_id resident now reqs st) = ps_revived (planned sha new_id resident now reqs st)"
  "ov_served_updates (plan_acquire sha new_id resident now reqs st)
     = ps_served_updates (planned sha new_id resident now reqs st)"
  "ov_state_version (plan_acquire sha new_id resident now reqs st) = admission_state_version st"
  by (simp_all add: plan_acquire_def planned_def Let_def)

text \<open>The overlay's deployments are the objects of the view that the lease claims.\<close>

lemma dget_map_filter:
  "distinct ks \<Longrightarrow> dget (List.map_filter (\<lambda>k. map_option (Pair k) (f k)) ks) k
    = (if k \<in> set ks then f k else None)"
  by (induction ks) (auto simp: List.map_filter_simps dget_def split: option.split)

lemma ov_deployments_view:
  "dget (ov_deployments (plan_acquire sha new_id resident now reqs st)) g =
    (let ps = planned sha new_id resident now reqs st
     in if g \<in> snd ` set (ps_claims ps) then dget (ps_view ps) g else None)"
  unfolding plan_acquire_def planned_def[symmetric] Let_def
  by (simp add: dget_map_filter)

section \<open>The effect of a committed acquire\<close>

definition stored_row :: "deployment \<Rightarrow> deployment" where
  "stored_row d = d\<lparr>dep_capacity := sort_key fst (dep_capacity d),
     dep_served := stored_served (dep_served d), dep_demand := 0\<rparr>"

lemma stored_row_frame [simp]:
  "dep_id (stored_row d) = dep_id d" "dep_state (stored_row d) = dep_state d"
  "dep_assigned_gpus (stored_row d) = dep_assigned_gpus d" "dep_engine (stored_row d) = dep_engine d"
  "dep_compat_key (stored_row d) = dep_compat_key d" "dep_sharing (stored_row d) = dep_sharing d"
  "dep_spec (stored_row d) = dep_spec d"
  by (simp_all add: stored_row_def)

lemma insert_deployments_Inr:
  "fold_err insert_deployment ds st = Inr st' \<longleftrightarrow>
     distinct (map dep_id ds) \<and> dep_id ` set ds \<inter> set (dep_ids st) = {}
     \<and> st' = st\<lparr>st_deployments := st_deployments st @ map stored_row ds\<rparr>"
proof (induction ds arbitrary: st)
  case Nil
  then show ?case by auto
next
  case (Cons d ds)
  show ?case
  proof (cases "dep_id d \<in> set (dep_ids st)")
    case True
    then show ?thesis by (auto simp: insert_deployment_def dep_ids_def)
  next
    case False
    let ?st = "st\<lparr>st_deployments := st_deployments st @ [stored_row d]\<rparr>"
    have "insert_deployment d st = Inr ?st"
      using False by (simp add: insert_deployment_def dep_ids_def stored_row_def)
    moreover have "set (dep_ids ?st) = insert (dep_id d) (set (dep_ids st))" by (simp add: dep_ids_def)
    ultimately show ?thesis using Cons[of ?st] False by auto
  qed
qed

lemma insert_claims_Inr:
  "fold_err insert_claim cs st = Inr st' \<longleftrightarrow>
     (\<forall>c \<in> set cs. cl_lease c \<in> set (lease_ids st) \<and> cl_deployment c \<in> set (dep_ids st))
     \<and> st' = st\<lparr>st_claims := st_claims st @ cs\<rparr>"
proof (induction cs arbitrary: st)
  case Nil
  then show ?case by auto
next
  case (Cons c cs)
  show ?case
  proof (cases "cl_lease c \<in> set (lease_ids st) \<and> cl_deployment c \<in> set (dep_ids st)")
    case False
    then show ?thesis by (auto simp: insert_claim_def dep_ids_def lease_ids_def)
  next
    case True
    let ?st = "st\<lparr>st_claims := st_claims st @ [c]\<rparr>"
    have "insert_claim c st = Inr ?st"
      using True by (auto simp: insert_claim_def dep_ids_def lease_ids_def)
    moreover have "dep_ids ?st = dep_ids st" "lease_ids ?st = lease_ids st"
      by (simp_all add: dep_ids_def lease_ids_def)
    ultimately show ?thesis using Cons[of ?st] True by auto
  qed
qed

definition serve_all :: "(string, served) dict \<Rightarrow> rat \<Rightarrow> store \<Rightarrow> store" where
  "serve_all upds now st = fold (\<lambda>(gid, sv). update_deployment_served gid sv now) upds st"

lemma serve_all_upd:
  "serve_all upds now st = fold (\<lambda>(gid, sv). upd_dep gid
     (\<lambda>d. d\<lparr>dep_served := stored_served sv, dep_updated_at := now\<rparr>)) upds st"
  by (simp add: serve_all_def update_deployment_served_upd)

lemma serve_all_frame [simp]:
  "st_leases (serve_all u t st) = st_leases st" "st_claims (serve_all u t st) = st_claims st"
  "st_addresses (serve_all u t st) = st_addresses st" "lease_ids (serve_all u t st) = lease_ids st"
  "dep_ids (serve_all u t st) = dep_ids st" "lease_at (serve_all u t st) sid = lease_at st sid"
  unfolding serve_all_upd by (induction u arbitrary: st) (auto simp: deps.keys_upd)

lemma serve_all_row:
  "(\<And>d x y. h (d\<lparr>dep_served := x, dep_updated_at := y\<rparr>) = h d)
   \<Longrightarrow> map_option h (dep_at (serve_all u t st) g) = map_option h (dep_at st g)"
  unfolding serve_all_upd
  by (rule deps.fold_upd_row[where g = "\<lambda>sv d. d\<lparr>dep_served := stored_served sv, dep_updated_at := t\<rparr>"]) simp_all

lemma live_at_serve_all [simp]: "live_at (serve_all u t st) = live_at st"
  by (simp add: fun_eq_iff live_at_map serve_all_row)

lemma alloc_ok_serve_all: "alloc_ok st \<Longrightarrow> alloc_ok (serve_all u t st)"
proof (unfold alloc_ok_def, intro allI impI)
  fix g d
  assume ok: "\<forall>g d. dep_at st g = Some d \<longrightarrow> dep_assigned_gpus d \<noteq> None \<longrightarrow> dep_state d = Live"
    and d: "dep_at (serve_all u t st) g = Some d" "dep_assigned_gpus d \<noteq> None"
  have "map_option (\<lambda>d. (dep_state d, dep_assigned_gpus d)) (dep_at st g)
      = Some (dep_state d, dep_assigned_gpus d)"
    using serve_all_row[of "\<lambda>d. (dep_state d, dep_assigned_gpus d)" u t st g] d(1) by simp
  then obtain e where "dep_at st g = Some e" "dep_state e = dep_state d" "dep_assigned_gpus e = dep_assigned_gpus d"
    by auto
  then show "dep_state d = Live" using ok d(2) by metis
qed

definition acquired_lease :: "string \<Rightarrow> string \<Rightarrow> rat option \<Rightarrow> rat \<Rightarrow> lease_row" where
  "acquired_lease sid owner ttl now =
     \<lparr>lr_id = sid, lr_owner = owner, lr_state = Active, lr_created_at = now, lr_ttl_seconds = ttl,
      lr_expires_at = map_option (\<lambda>t. now + t) ttl, lr_heartbeat_at = now\<rparr>"

text \<open>The tables a successful commit leaves, with the inserts already known not to fail.\<close>

definition with_rows :: "string \<Rightarrow> string \<Rightarrow> rat option \<Rightarrow> overlay \<Rightarrow> store \<Rightarrow> store" where
  "with_rows sid owner ttl ov st =
     st\<lparr>st_leases := st_leases st @ [acquired_lease sid owner ttl (ov_now ov)],
        st_deployments := st_deployments st @ map stored_row (dvals (ov_created ov))\<rparr>"

lemma with_rows_frame [simp]:
  "dep_ids (with_rows sid owner ttl ov st) = dep_ids st @ map dep_id (dvals (ov_created ov))"
  "lease_ids (with_rows sid owner ttl ov st) = lease_ids st @ [sid]"
  "st_claims (with_rows sid owner ttl ov st) = st_claims st"
  "st_addresses (with_rows sid owner ttl ov st) = st_addresses st"
  by (simp_all add: with_rows_def dep_ids_def lease_ids_def acquired_lease_def comp_def)

definition published :: "string option \<Rightarrow> json option \<Rightarrow> store \<Rightarrow> store" where
  "published digest prof st =
     (let st = (case prof of None \<Rightarrow> st | Some p \<Rightarrow> write_profile p st)
      in case digest of None \<Rightarrow> st | Some h \<Rightarrow> fst (write_marker True False None (Some h) st))"

lemma published_frame [simp]:
  "st_leases (published h p st) = st_leases st" "st_claims (published h p st) = st_claims st"
  "st_deployments (published h p st) = st_deployments st" "st_addresses (published h p st) = st_addresses st"
  "lease_ids (published h p st) = lease_ids st" "dep_ids (published h p st) = dep_ids st"
  "lease_at (published h p st) s = lease_at st s" "dep_at (published h p st) g = dep_at st g"
  "live_at (published h p st) = live_at st" "alloc_ok (published h p st) = alloc_ok st"
  by (simp_all add: published_def write_marker_def write_profile_def set_meta_json_def Let_def
      lease_ids_def dep_ids_def lease_at_def dep_at_def live_at_def alloc_ok_def fun_eq_iff split: option.split)

definition acquired :: "string \<Rightarrow> string \<Rightarrow> rat option \<Rightarrow> overlay \<Rightarrow> (string, int list) dict
    \<Rightarrow> string option \<Rightarrow> json option \<Rightarrow> store \<Rightarrow> store" where
  "acquired sid owner ttl ov al digest prof st =
     published digest prof (allocate_all al (serve_all (ov_served_updates ov) (ov_now ov)
       (move_all Live (ov_now ov) (ov_revived ov) (with_rows sid owner ttl ov st))))"

lemma commit_acquire_Inr:
  "commit_acquire sid owner ttl ov al digest prof st = Inr st' \<longleftrightarrow>
     sid \<notin> set (lease_ids st) \<and> distinct (map dep_id (dvals (ov_created ov))) \<and>
     dep_id ` set (dvals (ov_created ov)) \<inter> set (dep_ids st) = {} \<and>
     (\<forall>c \<in> set (ov_claims ov). snd c \<in> set (dep_ids st) \<union> dep_id ` set (dvals (ov_created ov))) \<and>
     st' = bump_desired_generation
       ((acquired sid owner ttl ov al digest prof st)
          \<lparr>st_claims := st_claims st @ map (claim_of sid) (ov_claims ov)\<rparr>)"
proof -
  let ?acq = "acquired sid owner ttl ov al digest prof st"
  let ?st1 = "st\<lparr>st_leases := st_leases st @ [acquired_lease sid owner ttl (ov_now ov)]\<rparr>"
  have ids: "dep_ids ?acq = dep_ids st @ map dep_id (dvals (ov_created ov))"
    "lease_ids ?acq = lease_ids st @ [sid]" "st_claims ?acq = st_claims st"
    by (simp_all add: acquired_def)
  have cl: "fold_err insert_claim (map (claim_of sid) (ov_claims ov)) ?acq = Inr st'' \<longleftrightarrow>
      (\<forall>c \<in> set (ov_claims ov). snd c \<in> set (dep_ids st) \<union> dep_id ` set (dvals (ov_created ov)))
      \<and> st'' = ?acq\<lparr>st_claims := st_claims st @ map (claim_of sid) (ov_claims ov)\<rparr>" for st''
    unfolding insert_claims_Inr ids by (auto simp: claim_of_def)
  show ?thesis
  proof (cases "sid \<in> set (lease_ids st)")
    case True
    then show ?thesis by (simp add: commit_acquire_def insert_lease_def lease_ids_def Let_def)
  next
    case False
    then have il: "insert_lease sid owner (ov_now ov) ttl (map_option (\<lambda>t. ov_now ov + t) ttl) (ov_now ov) st = Inr ?st1"
      by (simp add: insert_lease_def lease_ids_def acquired_lease_def)
    have d1: "dep_ids ?st1 = dep_ids st" by (simp add: dep_ids_def)
    have rows: "fold_err insert_deployment (dvals (ov_created ov)) ?st1 = Inr st2 \<longleftrightarrow>
        distinct (map dep_id (dvals (ov_created ov))) \<and> dep_id ` set (dvals (ov_created ov)) \<inter> set (dep_ids st) = {}
        \<and> st2 = with_rows sid owner ttl ov st" for st2
      unfolding insert_deployments_Inr d1 with_rows_def by simp
    show ?thesis
      unfolding commit_acquire_def Let_def il bind_err_simps bind_err_Inr rows
        move_all_def[symmetric] serve_all_def[symmetric] allocate_all_def[symmetric]
      using False cl by (auto simp: acquired_def published_def Let_def)
  qed
qed

subsection \<open>Acquire\<close>

text \<open>What the commit needs of an overlay: it fits the deployments of the store.\<close>

definition overlay_ok :: "store \<Rightarrow> overlay \<Rightarrow> bool" where
  "overlay_ok st ov \<longleftrightarrow>
     distinct (dkeys (ov_created ov)) \<and>
     (\<forall>(g, d) \<in> set (ov_created ov). dep_id d = g \<and> dep_state d = Live
        \<and> dep_assigned_gpus d = None \<and> g \<in> snd ` set (ov_claims ov)) \<and>
     (\<forall>g \<in> set (ov_revived ov). idle_at st g \<and> g \<in> snd ` set (ov_claims ov)) \<and>
     (\<forall>c \<in> set (ov_claims ov). snd c \<in> set (dkeys (ov_created ov)) \<or> live_at st (snd c)
        \<or> idle_at st (snd c) \<and> snd c \<in> set (ov_revived ov))"

lemma plan_overlay_ok:
  assumes "distinct (dep_ids st)" and "\<And>n. new_id n \<notin> set (dep_ids st)"
  shows "overlay_ok st (plan_acquire sha new_id resident now reqs st)"
proof -
  let ?ps = "planned sha new_id resident now reqs st"
  have ok: "ps_ok st ?ps" by (rule planned_ok[OF assms])
  then have d: "distinct (dkeys (ps_created ?ps))" by (simp add: ps_ok_def)
  have "dep_id d = g \<and> dep_state d = Live \<and> dep_assigned_gpus d = None \<and> g \<in> snd ` set (ps_claims ?ps)"
    if "(g, d) \<in> set (ps_created ?ps)" for g d
    using ok dget_distinct[OF d that] unfolding ps_ok_def by blast
  then show ?thesis
    using ok d unfolding overlay_ok_def plan_acquire_fields ps_ok_def backed_def by blast
qed

lemma overlay_ok_same_deployments:
  assumes "st_deployments st' = st_deployments st"
  shows "overlay_ok st' ov = overlay_ok st ov"
proof -
  have "live_at st' = live_at st" "idle_at st' = idle_at st"
    using assms by (simp_all add: live_at_def idle_at_def dep_at_def fun_eq_iff)
  then show ?thesis by (simp add: overlay_ok_def)
qed

lemma created_ids:
  assumes "overlay_ok st ov"
  shows "map dep_id (dvals (ov_created ov)) = dkeys (ov_created ov)"
    and "find (\<lambda>d. dep_id d = g) (dvals (ov_created ov)) = dget (ov_created ov) g"
proof -
  have "\<forall>(g, d) \<in> set (ov_created ov). dep_id d = g" using assms by (auto simp: overlay_ok_def)
  then have "map dep_id (dvals cr) = dkeys cr \<and> find (\<lambda>d. dep_id d = g) (dvals cr) = dget cr g"
    if "set cr \<subseteq> set (ov_created ov)" for cr
    using that by (induction cr) (auto simp: dvals_def dkeys_def dget_def)
  then show "map dep_id (dvals (ov_created ov)) = dkeys (ov_created ov)"
    "find (\<lambda>d. dep_id d = g) (dvals (ov_created ov)) = dget (ov_created ov) g" by auto
qed

lemma dep_at_with_rows:
  assumes "overlay_ok st ov"
  shows "dep_at (with_rows sid owner ttl ov st) g =
    (case dep_at st g of Some d \<Rightarrow> Some d | None \<Rightarrow> map_option stored_row (dget (ov_created ov) g))"
proof -
  have "find p (xs @ ys) = (case find p xs of Some x \<Rightarrow> Some x | None \<Rightarrow> find p ys)"
    for p :: "deployment \<Rightarrow> bool" and xs ys by (induction xs) auto
  moreover have "find (\<lambda>d. dep_id d = g) (map stored_row ds) = map_option stored_row (find (\<lambda>d. dep_id d = g) ds)"
    for ds by (induction ds) auto
  ultimately show ?thesis
    using created_ids(2)[OF assms, of g]
    by (cases "find (\<lambda>d. dep_id d = g) (st_deployments st)") (simp_all add: dep_at_def with_rows_def)
qed

definition after_acquire :: "string \<Rightarrow> string \<Rightarrow> rat option \<Rightarrow> overlay \<Rightarrow> (string, int list) dict
    \<Rightarrow> string option \<Rightarrow> json option \<Rightarrow> store \<Rightarrow> store" where
  "after_acquire sid owner ttl ov al digest prof st = bump_desired_generation
     ((acquired sid owner ttl ov al digest prof st)
        \<lparr>st_claims := st_claims st @ map (claim_of sid) (ov_claims ov)\<rparr>)"

lemma after_acquire_frame [simp]:
  "st_claims (after_acquire sid owner ttl ov al h p st) = st_claims st @ map (claim_of sid) (ov_claims ov)"
  "st_leases (after_acquire sid owner ttl ov al h p st) = st_leases st @ [acquired_lease sid owner ttl (ov_now ov)]"
  "st_addresses (after_acquire sid owner ttl ov al h p st) = st_addresses st"
  "lease_ids (after_acquire sid owner ttl ov al h p st) = lease_ids st @ [sid]"
  "dep_ids (after_acquire sid owner ttl ov al h p st) = dep_ids st @ map dep_id (dvals (ov_created ov))"
  "lease_at (after_acquire sid owner ttl ov al h p st) s = (case lease_at st s of Some r \<Rightarrow> Some r
     | None \<Rightarrow> if s = sid then Some (acquired_lease sid owner ttl (ov_now ov)) else None)"
  "dep_at (after_acquire sid owner ttl ov al h p st) g = dep_at (acquired sid owner ttl ov al h p st) g"
proof -
  have l: "st_leases (acquired sid owner ttl ov al h p st) = st_leases st @ [acquired_lease sid owner ttl (ov_now ov)]"
    by (simp add: acquired_def with_rows_def)
  then show "st_leases (after_acquire sid owner ttl ov al h p st)
      = st_leases st @ [acquired_lease sid owner ttl (ov_now ov)]" by (simp add: after_acquire_def)
  have fa: "find q (xs @ ys) = (case find q xs of Some x \<Rightarrow> Some x | None \<Rightarrow> find q ys)"
    for q :: "lease_row \<Rightarrow> bool" and xs ys by (induction xs) auto
  show "lease_at (after_acquire sid owner ttl ov al h p st) s = (case lease_at st s of Some r \<Rightarrow> Some r
     | None \<Rightarrow> if s = sid then Some (acquired_lease sid owner ttl (ov_now ov)) else None)"
    using l by (simp add: after_acquire_def lease_at_def fa acquired_lease_def split: option.split)
  have i: "lease_ids (acquired sid owner ttl ov al h p st) = lease_ids st @ [sid]"
    "dep_ids (acquired sid owner ttl ov al h p st) = dep_ids st @ map dep_id (dvals (ov_created ov))"
    "st_addresses (acquired sid owner ttl ov al h p st) = st_addresses st"
    by (simp_all add: acquired_def)
  then show "lease_ids (after_acquire sid owner ttl ov al h p st) = lease_ids st @ [sid]"
    "dep_ids (after_acquire sid owner ttl ov al h p st) = dep_ids st @ map dep_id (dvals (ov_created ov))"
    "st_addresses (after_acquire sid owner ttl ov al h p st) = st_addresses st"
    by (simp_all add: after_acquire_def lease_ids_def dep_ids_def)
  show "dep_at (after_acquire sid owner ttl ov al h p st) g = dep_at (acquired sid owner ttl ov al h p st) g"
    by (simp add: after_acquire_def dep_at_def)
qed (simp add: after_acquire_def)

lemma live_at_acquired:
  "live_at (after_acquire sid owner ttl ov al h p st) =
   live_at (move_all Live (ov_now ov) (ov_revived ov) (with_rows sid owner ttl ov st))"
proof -
  have "live_at (after_acquire sid owner ttl ov al h p st) = live_at (acquired sid owner ttl ov al h p st)"
    by (simp add: live_at_def fun_eq_iff)
  then show ?thesis by (simp add: acquired_def)
qed

lemma live_at_after_acquire:
  assumes "overlay_ok st ov"
  shows "live_at (after_acquire sid owner ttl ov al h p st) g \<longleftrightarrow>
    live_at st g \<or> g \<in> set (ov_revived ov) \<or> dep_at st g = None \<and> g \<in> set (dkeys (ov_created ov))"
proof -
  have "live_at (after_acquire sid owner ttl ov al h p st) g
      = live_at (move_all Live (ov_now ov) (ov_revived ov) (with_rows sid owner ttl ov st)) g"
    by (simp add: live_at_acquired)
  also have "\<dots> = (if g \<in> set (ov_revived ov) \<and> dep_at (with_rows sid owner ttl ov st) g \<noteq> None then True
      else live_at (with_rows sid owner ttl ov st) g)"
    by (auto simp: live_at_move_all)
  also have "live_at (with_rows sid owner ttl ov st) g \<longleftrightarrow>
      live_at st g \<or> dep_at st g = None \<and> g \<in> set (dkeys (ov_created ov))"
  proof -
    have "dep_state d = Live" if "dget (ov_created ov) g = Some d" for d
      using assms dget_SomeD[OF that] by (auto simp: overlay_ok_def)
    then show ?thesis
      using dget_None_iff[of "ov_created ov" g]
      by (auto simp: live_at_def dep_at_with_rows[OF assms] split: option.splits)
  qed
  finally show ?thesis
    using assms by (auto simp: overlay_ok_def idle_at_def dep_at_with_rows[OF assms] split: option.splits)
qed

lemma after_acquire_ok:
  assumes ok: "ledger_ok st" and ov: "overlay_ok st ov"
    and new: "sid \<notin> set (lease_ids st)" "set (dkeys (ov_created ov)) \<inter> set (dep_ids st) = {}"
    and al: "set (dkeys al) \<subseteq> set (dkeys (ov_created ov)) \<union> set (ov_revived ov)"
  shows "ledger_ok (after_acquire sid owner ttl ov al h p st)"
    and "protected now st \<Longrightarrow> protected now (after_acquire sid owner ttl ov al h p st)"
proof -
  let ?st = "after_acquire sid owner ttl ov al h p st"
  note live = live_at_after_acquire[OF ov, of sid owner ttl al h p]
  have new_dep: "dep_at st g = None" if "g \<in> set (dkeys (ov_created ov))" for g
    using new(2) that deps.look_None by blast
  have new_lease: "lease_at st sid = None" using new(1) leases.look_None by blast
  have claim_live: "live_at ?st (snd c)" if "c \<in> set (ov_claims ov)" for c
    using ov that new_dep unfolding live overlay_ok_def by blast
  have known: "snd c \<in> set (dep_ids st @ dkeys (ov_created ov))" if "c \<in> set (ov_claims ov)" for c
    using claim_live[OF that] deps.look_None[of ?st "snd c"] created_ids(1)[OF ov]
    by (auto simp: live_at_def split: option.splits)
  have "\<forall>e \<in> set (ov_claims ov). snd e \<in> set (dep_ids st) \<union> set (dkeys (ov_created ov))"
    using known by auto
  then have refs: "refs_ok ?st"
    using ok new created_ids(1)[OF ov] ov
    unfolding refs_ok_def ledger_ok_def overlay_ok_def by (auto simp: claim_of_def)
  have "alloc_ok (move_all Live (ov_now ov) (ov_revived ov) (with_rows sid owner ttl ov st))"
  proof (rule alloc_ok_move_all)
    show "alloc_ok (with_rows sid owner ttl ov st)"
      using ok ov unfolding alloc_ok_def dep_at_with_rows[OF ov] ledger_ok_def overlay_ok_def
      by (fastforce split: option.splits dest: dget_SomeD)
  qed
  then have "alloc_ok (acquired sid owner ttl ov al h p st)"
  proof -
    have "live_at (serve_all (ov_served_updates ov) (ov_now ov)
        (move_all Live (ov_now ov) (ov_revived ov) (with_rows sid owner ttl ov st))) g" if "g \<in> fst ` set al" for g
    proof -
      have "live_at ?st g" using that al new_dep unfolding live dkeys_def by auto
      then show ?thesis by (simp add: live_at_acquired)
    qed
    then show ?thesis
      unfolding acquired_def published_frame using \<open>alloc_ok (move_all _ _ _ _)\<close>
      by (intro alloc_ok_allocate_all alloc_ok_serve_all)
  qed
  then have alloc: "alloc_ok ?st" by (simp add: alloc_ok_def)
  have "live_claimed ?st"
    unfolding live_claimed_def
  proof (intro allI impI)
    fix g assume g: "live_at ?st g"
    show "\<exists>c\<in>set (st_claims ?st). cl_deployment c = g \<and> (\<exists>r. lease_at ?st (cl_lease c) = Some r \<and> lr_state r = Active)"
    proof (cases "live_at st g")
      case True
      then obtain c r where "c \<in> set (st_claims st)" "cl_deployment c = g"
        "lease_at st (cl_lease c) = Some r" "lr_state r = Active"
        using ok by (auto simp: ledger_ok_def live_claimed_def)
      then show ?thesis by auto
    next
      case False
      then have "g \<in> snd ` set (ov_claims ov)"
        using g ov unfolding live overlay_ok_def by (auto elim!: in_dkeysE dest!: dget_SomeD)
      then obtain c where "c \<in> set (ov_claims ov)" "snd c = g" by blast
      then show ?thesis
        using new_lease by (auto simp: claim_of_def acquired_lease_def intro!: bexI[of _ "claim_of sid c"])
    qed
  qed
  then show "ledger_ok ?st" using refs alloc by (simp add: ledger_ok_def)
  show "protected now ?st" if p: "protected now st"
    unfolding protected_def
  proof (intro ballI allI impI)
    fix c r assume c: "c \<in> set (st_claims ?st)" "lease_at ?st (cl_lease c) = Some r" "row_protects now r"
    from c(1) consider "c \<in> set (st_claims st)" | e where "e \<in> set (ov_claims ov)" "c = claim_of sid e" by auto
    then show "live_at ?st (cl_deployment c)"
    proof cases
      case 1
      then have "cl_lease c \<noteq> sid" using ok new(1) by (auto simp: ledger_ok_def refs_ok_def)
      then have "lease_at st (cl_lease c) = Some r" using c(2) by (auto split: option.splits)
      then show ?thesis using p 1 c(3) unfolding live protected_def by blast
    next
      case 2
      then show ?thesis using claim_live by (simp add: claim_of_def)
    qed
  qed
qed

end
