(* ===== verification/Leases.thy ===== *)
theory Leases
  imports Ledger
begin

text \<open>
  The ledger as a state machine. A state is the clock and the store; a step is one method of
  \<open>Ledger\<close> (or the passing of time). The properties of this theory hold in every reachable
  state, or of every step.

  An acquire commits an overlay that was planned on an older store with the same
  deployments: between preview and commit the controller's lock excludes every operation but
  the lock-free renewal (\<open>renew_if_live\<close>), which changes no deployment.
\<close>

section \<open>Steps\<close>

datatype ledger_op =
    Tick | Acquire string | Release string | Renew string | RenewFast string
  | Sweep | Evict "string list option" | Prune | Adopt string

inductive ledger_step :: "ledger_op \<Rightarrow> rat \<times> store \<Rightarrow> rat \<times> store \<Rightarrow> bool" where
  tick: "t \<le> t' \<Longrightarrow> ledger_step Tick (t, st) (t', st)"
| acquire: "acquire sha new_id t sid owner reqs ttl (Some ov) al h p st = Inr (st', le, ds)
    \<Longrightarrow> ov = plan_acquire sha new_id resident t0 reqs st0
    \<Longrightarrow> st_deployments st0 = st_deployments st
    \<Longrightarrow> \<forall>n. new_id n \<notin> set (dep_ids st)
    \<Longrightarrow> set (dkeys al) \<subseteq> set (dkeys (ov_created ov)) \<union> set (ov_revived ov)
    \<Longrightarrow> ledger_step (Acquire sid) (t, st) (t, st')"
| acquire_direct: "acquire sha new_id t sid owner reqs ttl None [] h p st = Inr (st', le, ds)
    \<Longrightarrow> \<forall>n. new_id n \<notin> set (dep_ids st)
    \<Longrightarrow> ledger_step (Acquire sid) (t, st) (t, st')"
| release: "release sid t st = (st', r) \<Longrightarrow> ledger_step (Release sid) (t, st) (t, st')"
| renew: "renew sid ttl al t st = (st', r) \<Longrightarrow> ledger_step (Renew sid) (t, st) (t, st')"
| renew_fast: "renew_if_live sid ttl t st = (st', r) \<Longrightarrow> ledger_step (RenewFast sid) (t, st) (t, st')"
| sweep: "sweep t st = (st', r) \<Longrightarrow> ledger_step Sweep (t, st) (t, st')"
| evict: "evict_idle w t st = (st', ids) \<Longrightarrow> ledger_step (Evict w) (t, st) (t, st')"
| prune: "ledger_prune st = (st', n) \<Longrightarrow> ledger_step Prune (t, st) (t, st')"
| adopt: "live_at st gid \<Longrightarrow> ledger_step (Adopt gid) (t, st) (t, set_allocation gid (Some gpus) st)"

text \<open>States reached by operations that the predicate \<open>ok\<close> admits.\<close>

inductive reachable :: "(ledger_op \<Rightarrow> store \<Rightarrow> bool) \<Rightarrow> rat \<times> store \<Rightarrow> bool" for ok where
  init: "reachable ok (t, empty_store)"
| step: "reachable ok s \<Longrightarrow> ok op (snd s) \<Longrightarrow> ledger_step op s s' \<Longrightarrow> reachable ok s'"

inductive_cases reachableE: "reachable ok s"

definition any_op :: "ledger_op \<Rightarrow> store \<Rightarrow> bool" where
  "any_op op st \<longleftrightarrow> True"

text \<open>Every operation, but a lease is renewed only while all its deployments are LIVE or IDLE.\<close>

definition careful :: "ledger_op \<Rightarrow> store \<Rightarrow> bool" where
  "careful op st \<longleftrightarrow> (case op of Renew sid \<Rightarrow> renewable sid st | _ \<Rightarrow> True)"

section \<open>A step keeps the invariants\<close>

lemma acquire_Inr:
  "acquire sha new_id t sid owner reqs ttl (Some ov) al h p st = Inr (st', le, ds) \<longleftrightarrow>
    admission_state_version st = ov_state_version ov \<and>
    commit_acquire sid owner ttl ov al h p st = Inr st' \<and> get_lease st' sid = Some le \<and>
    ds = List.map_filter (\<lambda>gid. get_deployment st' gid (Some (ov_now ov))) (fromkeys (map snd (ov_claims ov)))"
  by (auto simp: acquire_def bind_err_Inr split: option.splits)

lemma acquire_direct_eq:
  "acquire sha new_id t sid owner reqs ttl None al h p st =
   acquire sha new_id t sid owner reqs ttl (Some (plan_acquire sha new_id None t reqs st)) al h p st"
  by (simp add: acquire_def plan_acquire_fields)

lemma acquire_step_ok:
  assumes ok: "ledger_ok st"
    and acq: "acquire sha new_id t sid owner reqs ttl (Some ov) al h p st = Inr (st', le, ds)"
    and ov: "ov = plan_acquire sha new_id resident t0 reqs st0" "st_deployments st0 = st_deployments st"
    and new: "\<forall>n. new_id n \<notin> set (dep_ids st)"
    and al: "set (dkeys al) \<subseteq> set (dkeys (ov_created ov)) \<union> set (ov_revived ov)"
  shows "overlay_ok st ov" "st' = after_acquire sid owner ttl ov al h p st"
    "sid \<notin> set (lease_ids st)" "set (dkeys (ov_created ov)) \<inter> set (dep_ids st) = {}"
    "ledger_ok st'" "protected now st \<Longrightarrow> protected now st'"
proof -
  have ids: "dep_ids st0 = dep_ids st" using ov(2) by (simp add: dep_ids_def)
  have "distinct (dep_ids st)" using ok by (simp add: ledger_ok_def refs_ok_def)
  then have "overlay_ok st0 ov"
    unfolding ov(1) using plan_overlay_ok[of st0 new_id] new ids by simp
  then show o: "overlay_ok st ov" using overlay_ok_same_deployments[OF ov(2)] by simp
  have com: "commit_acquire sid owner ttl ov al h p st = Inr st'" using acq by (simp add: acquire_Inr)
  note C = com[unfolded commit_acquire_Inr, folded after_acquire_def]
  show st': "st' = after_acquire sid owner ttl ov al h p st" using C by simp
  show n: "sid \<notin> set (lease_ids st)" using C by simp
  have "dep_id ` set (dvals (ov_created ov)) = set (dkeys (ov_created ov))"
    using created_ids(1)[OF o] by (metis list.set_map)
  then show c: "set (dkeys (ov_created ov)) \<inter> set (dep_ids st) = {}" using C by simp
  show "ledger_ok st'" "protected now st \<Longrightarrow> protected now st'"
    unfolding st' by (rule after_acquire_ok[OF ok o n c al]; simp)+
qed

lemma step_ok:
  assumes "ledger_step op s s'" and "ledger_ok (snd s)"
  shows "ledger_ok (snd s')"
  using assms
proof cases
  case (acquire sha new_id t sid owner reqs ttl ov al h p st st' le ds resident t0 st0)
  show ?thesis
    using acquire_step_ok(5)[OF _ acquire(4-8)] assms(2) acquire(2,3) by simp
next
  case (acquire_direct sha new_id t sid owner reqs ttl h p st st' le ds)
  show ?thesis
    using acquire_step_ok(5)[OF _ acquire_direct(4)[unfolded acquire_direct_eq] refl refl acquire_direct(5)]
      assms(2) acquire_direct(2,3) by simp
next
  case (release sid t st st' r)
  then show ?thesis using release_ok(1)[of st sid t] assms(2) by simp
next
  case (renew sid ttl al t st st' r)
  then show ?thesis using renew_ok(1)[of st sid ttl al t] assms(2) by simp
next
  case (renew_fast sid ttl t st st' r)
  then show ?thesis using renew_if_live_ok(1)[of st sid ttl t] assms(2) by simp
next
  case (sweep t st st' r)
  then show ?thesis using sweep_ok(1)[of st t] assms(2) by simp
next
  case (evict w t st st' ids)
  then show ?thesis using evict_ok(1)[of st w t] assms(2) by simp
next
  case (prune st st' n t)
  then show ?thesis using prune_ok(1)[of st] assms(2) by (simp add: pruned_def)
next
  case (adopt st gid t gpus)
  then show ?thesis using set_allocation_ok(1)[of st "Some gpus" gid] assms(2) by simp
qed simp

lemma protected_later:
  assumes "protected t st" and "t \<le> t'"
  shows "protected t' st"
proof -
  have "row_protects t r" if "row_protects t' r" for r
    using that assms(2) by (auto simp: row_protects_def split: option.splits)
  then show ?thesis using assms(1) unfolding protected_def by blast
qed

lemma step_protected:
  assumes "ledger_step op s s'" and "ledger_ok (snd s)" and "careful op (snd s)"
    and "protected (fst s) (snd s)"
  shows "protected (fst s') (snd s')"
  using assms
proof cases
  case (tick t t' st)
  then show ?thesis using protected_later assms(4) by simp
next
  case (acquire sha new_id t sid owner reqs ttl ov al h p st st' le ds resident t0 st0)
  show ?thesis
    using acquire_step_ok(6)[OF _ acquire(4-8)] assms(2,4) acquire(2,3) by simp
next
  case (acquire_direct sha new_id t sid owner reqs ttl h p st st' le ds)
  show ?thesis
    using acquire_step_ok(6)[OF _ acquire_direct(4)[unfolded acquire_direct_eq] refl refl acquire_direct(5)]
      assms(2,4) acquire_direct(2,3) by simp
next
  case (release sid t st st' r)
  then show ?thesis using release_ok(2)[of st t sid] assms(2,4) by simp
next
  case (renew sid ttl al t st st' r)
  then show ?thesis using renew_ok(2)[of st t sid ttl al] assms(2,3,4) by (simp add: careful_def)
next
  case (renew_fast sid ttl t st st' r)
  then show ?thesis using renew_if_live_ok(2)[of st t sid ttl] assms(2,4) by simp
next
  case (sweep t st st' r)
  then show ?thesis using sweep_ok(2)[of st t] assms(2,4) by simp
next
  case (evict w t st st' ids)
  then show ?thesis using evict_ok(2)[of st t w t] assms(2,4) by simp
next
  case (prune st st' n t)
  then show ?thesis using prune_ok(2)[of st t] assms(2,4) by (simp add: pruned_def)
next
  case (adopt st gid t gpus)
  then show ?thesis using set_allocation_ok(2)[of st "Some gpus" gid t] assms(2,4) by simp
qed

lemma empty_ok: "ledger_ok empty_store" "protected t empty_store"
  by (simp_all add: ledger_ok_def live_claimed_def live_at_def protected_def dep_at_def empty_store_def)
     (simp_all add: refs_ok_def alloc_ok_def lease_ids_def dep_ids_def dvals_def dep_at_def)

lemma reachable_ok: "reachable ok s \<Longrightarrow> ledger_ok (snd s)"
  by (induction rule: reachable.induct) (auto simp: empty_ok intro: step_ok)

lemma reachable_protected: "reachable careful s \<Longrightarrow> protected (fst s) (snd s)"
proof (induction rule: reachable.induct)
  case (step s op s')
  then show ?case using step_protected reachable_ok by blast
qed (simp add: empty_ok)

section \<open>Demand is a reference count\<close>

definition holders :: "store \<Rightarrow> string \<Rightarrow> rat \<Rightarrow> string set" where
  "holders st gid t = {sid. (\<exists>c \<in> set (st_claims st). cl_deployment c = gid \<and> cl_lease c = sid)
     \<and> (\<exists>r. lease_at st sid = Some r \<and> row_protects t r)}"

lemma finite_holders: "finite (holders st gid t)"
  by (rule finite_subset[of _ "cl_lease ` set (st_claims st)"]) (auto simp: holders_def)

lemma demand_card:
  assumes "distinct (lease_ids st)"
  shows "demand st gid t = card (holders st gid t)"
proof -
  have ex: "list_ex (\<lambda>r. lr_id r = sid \<and> row_protects t r) (st_leases st)
      \<longleftrightarrow> (\<exists>r. lease_at st sid = Some r \<and> row_protects t r)" for sid
    using lease_at_row[OF assms] lease_at_mem lease_at_id by (fastforce simp: list_ex_iff)
  have "holders st gid t = set (map cl_lease (filter (\<lambda>c. cl_deployment c = gid
      \<and> list_ex (\<lambda>r. lr_id r = cl_lease c \<and> row_protects t r) (st_leases st)) (st_claims st)))"
    unfolding ex by (auto simp: holders_def)
  then show ?thesis by (simp add: demand_def length_remdups_card_conv)
qed

lemma claim_of_simps [simp]:
  "cl_lease (claim_of sid e) = sid" "cl_deployment (claim_of sid e) = snd e"
  "cl_endpoint (claim_of sid e) = req_endpoint (fst e)"
  by (simp_all add: claim_of_def)

lemma holders_after_acquire:
  assumes "ledger_ok st" and "sid \<notin> set (lease_ids st)"
  shows "holders (after_acquire sid owner ttl ov al h p st) g t = holders st g t \<union>
    (if g \<in> snd ` set (ov_claims ov) \<and> row_protects t (acquired_lease sid owner ttl (ov_now ov))
     then {sid} else {})"
    and "sid \<notin> holders st g t"
proof -
  have ref: "\<forall>c \<in> set (st_claims st). cl_lease c \<noteq> sid"
    using assms by (auto simp: ledger_ok_def refs_ok_def)
  then show "sid \<notin> holders st g t" by (auto simp: holders_def)
  have none: "lease_at st sid = None" using assms(2) leases.look_None by blast
  show "holders (after_acquire sid owner ttl ov al h p st) g t = holders st g t \<union>
    (if g \<in> snd ` set (ov_claims ov) \<and> row_protects t (acquired_lease sid owner ttl (ov_now ov))
     then {sid} else {})" (is "?L = ?R")
  proof (rule set_eqI)
    fix s
    show "s \<in> ?L \<longleftrightarrow> s \<in> ?R"
    proof (cases "s = sid")
      case True
      have "(\<exists>c \<in> set (st_claims (after_acquire sid owner ttl ov al h p st)). cl_deployment c = g \<and> cl_lease c = sid)
          \<longleftrightarrow> (\<exists>e \<in> set (ov_claims ov). snd e = g)"
        using ref by (simp add: bex_Un)
      also have "\<dots> \<longleftrightarrow> g \<in> snd ` set (ov_claims ov)" by auto
      finally have "(\<exists>c \<in> set (st_claims (after_acquire sid owner ttl ov al h p st)). cl_deployment c = g \<and> cl_lease c = sid)
          \<longleftrightarrow> g \<in> snd ` set (ov_claims ov)" .
      then show ?thesis using True none \<open>sid \<notin> holders st g t\<close> by (simp add: holders_def)
    next
      case False
      have "(\<exists>c \<in> set (st_claims (after_acquire sid owner ttl ov al h p st)). cl_deployment c = g \<and> cl_lease c = s)
          \<longleftrightarrow> (\<exists>c \<in> set (st_claims st). cl_deployment c = g \<and> cl_lease c = s)"
        using False by (auto simp: claim_of_def)
      moreover have "lease_at (after_acquire sid owner ttl ov al h p st) s = lease_at st s"
        using False by (simp split: option.split)
      ultimately show ?thesis using False by (simp add: holders_def)
    qed
  qed
qed

lemma release_store:
  assumes "get_lease st sid = Some le" and "lease_state le \<noteq> Released"
  shows "release sid t st =
    (let st1 = set_lease_state sid Released st;
         ids = filter (\<lambda>g. live_at st g \<and> demand st1 g t = 0) (lease_deployment_ids le)
     in (if ids \<noteq> [] then bump_desired_generation (move_all Idle t ids st1)
         else move_all Idle t ids st1, Idled ids))"
proof -
  have "distinct (lease_deployment_ids le)"
    using assms(1) by (auto simp: get_lease_lease_at row_to_lease_def Let_def)
  then have "fromkeys (lease_deployment_ids le) = lease_deployment_ids le" by (rule fromkeys_distinct)
  moreover have "live_at (set_lease_state sid Released st) = live_at st" by (simp add: set_lease_state_upd)
  ultimately show ?thesis using assms by (simp add: release_def idle_deployments_eq Let_def)
qed

lemma demand_bump [simp]: "demand (bump_desired_generation st) = demand st"
  by (rule demand_cong) simp_all

lemma holders_release:
  assumes "s \<noteq> Active"
  shows "holders (set_lease_state sid s st) g t = holders st g t - {sid}"
  using assms by (auto simp: holders_def set_lease_state_upd leases.look_upd row_protects_def split: if_splits)

lemma lease_ids_set_state [simp]: "lease_ids (set_lease_state sid s st) = lease_ids st"
  by (simp add: set_lease_state_upd leases.keys_upd)

section \<open>What moves the admission version\<close>

text \<open>A step that changes which deployments are desired also moves the version.\<close>

definition desired_states :: "store \<Rightarrow> string \<Rightarrow> deployment_state option" where
  "desired_states st gid = map_option dep_state (dep_at st gid)"

lemma move_all_Nil [simp]: "move_all s t [] st = st"
  by (simp add: move_all_def)

lemma admission_version_frame [simp]:
  "admission_state_version (set_lease_state sid s st) = admission_state_version st"
  "admission_state_version (renew_lease sid ttl e h st) = admission_state_version st"
  "admission_state_version (move_all s' t gids st) = admission_state_version st"
  "admission_state_version (allocate_all al st) = admission_state_version st"
proof -
  have f: "admission_state_version (fold (\<lambda>x. upd_dep (k x) (g x)) xs st) = admission_state_version st"
    for k :: "'b \<Rightarrow> string" and g xs st by (induction xs arbitrary: st) auto
  show "admission_state_version (move_all s' t gids st) = admission_state_version st"
    unfolding move_all_def set_deployment_state_upd by (rule f)
  show "admission_state_version (allocate_all al st) = admission_state_version st"
    unfolding allocate_all_upd by (induction al arbitrary: st) auto
qed (simp_all add: set_lease_state_upd renew_lease_upd)

lemma desired_states_frame [simp]:
  "desired_states (set_lease_state sid s st) = desired_states st"
  "desired_states (renew_lease sid ttl e h st) = desired_states st"
  "desired_states (bump_desired_generation st) = desired_states st"
  "desired_states (allocate_all al st) = desired_states st"
  by (simp_all add: desired_states_def set_lease_state_upd fun_eq_iff allocate_all_state)

lemma expire_frame [simp]:
  "admission_state_version (fold (\<lambda>le. set_lease_state (lease_id le) s) due st) = admission_state_version st"
  "desired_states (fold (\<lambda>le. set_lease_state (lease_id le) s) due st) = desired_states st"
  by (induction due arbitrary: st) auto

definition version_moves :: "store \<Rightarrow> store \<Rightarrow> bool" where
  "version_moves st st' \<longleftrightarrow> admission_state_version st \<le> admission_state_version st' \<and>
     (desired_states st' \<noteq> desired_states st \<longrightarrow> admission_state_version st < admission_state_version st')"

lemma version_moves_same: "admission_state_version st' = admission_state_version st
    \<Longrightarrow> desired_states st' = desired_states st \<Longrightarrow> version_moves st st'"
  by (simp add: version_moves_def)

lemma version_moves_bump:
  "admission_state_version st' = admission_state_version st + 1 \<Longrightarrow> version_moves st st'"
  by (simp add: version_moves_def)

lemma version_moves_if:
  assumes "admission_state_version X = admission_state_version st"
    and "\<not> b \<Longrightarrow> desired_states X = desired_states st"
  shows "version_moves st (if b then bump_desired_generation X else X)"
  using assms by (simp add: version_moves_def)

lemma release_version: "version_moves st (fst (release sid t st))"
proof (cases "get_lease st sid")
  case None
  then show ?thesis by (simp add: release_def version_moves_def)
next
  case (Some le)
  show ?thesis
  proof (cases "lease_state le = Released")
    case True
    then show ?thesis using Some by (simp add: release_def version_moves_def)
  next
    case False
    define ids where "ids = filter (\<lambda>g. live_at st g \<and> demand (set_lease_state sid Released st) g t = 0)
      (lease_deployment_ids le)"
    have "fst (release sid t st) = (if ids \<noteq> [] then bump_desired_generation (move_all Idle t ids (set_lease_state sid Released st))
        else move_all Idle t ids (set_lease_state sid Released st))"
      using release_store[OF Some False, of t] by (simp add: Let_def ids_def)
    then show ?thesis by (simp only:) (rule version_moves_if; simp)
  qed
qed

lemma sweep_version: "version_moves st (fst (sweep t st))"
proof -
  let ?due = "active_leases_past st t"
  let ?st1 = "fold (\<lambda>le. set_lease_state (lease_id le) Expired) ?due st"
  define ids where "ids = filter (\<lambda>g. live_at ?st1 g \<and> demand ?st1 g t = 0)
      (fromkeys (concat (map lease_deployment_ids ?due)))"
  have "fst (sweep t st) = (if map lease_id ?due \<noteq> [] \<or> ids \<noteq> []
      then bump_desired_generation (move_all Idle t ids ?st1) else move_all Idle t ids ?st1)"
    by (simp add: sweep_def idle_deployments_eq Let_def ids_def del: map_is_Nil_conv)
  then show ?thesis by (simp only:) (rule version_moves_if; simp)
qed

lemma renew_version: "version_moves st (fst (renew sid ttl al t st))"
proof (cases "get_lease st sid")
  case None
  then show ?thesis by (simp add: renew_def version_moves_def)
next
  case (Some le)
  show ?thesis
  proof (cases "lease_state le = Active")
    case False
    then show ?thesis using Some by (simp add: renew_def version_moves_def)
  next
    case True
    show ?thesis
    proof (cases "filter (idle_at st) (fromkeys (lease_deployment_ids le)) = []")
      case e: True
      then have "renewed sid ttl al t le st = renew_lease sid ttl (map_option (\<lambda>x. t + x) ttl) t st"
        by (simp add: renewed_def Let_def allocate_all_def del: set_filter)
      then show ?thesis using renew_eq[OF Some True] e by (simp add: version_moves_same)
    next
      case ne: False
      have "admission_state_version (renewed sid ttl al t le st) = admission_state_version st"
        by (simp add: renewed_def Let_def)
      then show ?thesis using renew_eq[OF Some True] ne by (intro version_moves_bump) simp
    qed
  qed
qed

lemma renew_if_live_version: "version_moves st (fst (renew_if_live sid ttl t st))"
  by (auto simp: renew_if_live_def Let_def version_moves_def split: option.split)

lemma evict_version: "version_moves st (fst (evict_idle w t st))"
  unfolding evict_idle_eq Let_def fst_conv
  by (auto simp: version_moves_def)

lemma after_acquire_version:
  "admission_state_version (after_acquire sid owner ttl ov al h p st) = admission_state_version st + 1"
proof -
  have s: "admission_state_version (serve_all u t s) = admission_state_version s" for u t s
    unfolding serve_all_upd by (induction u arbitrary: s) auto
  have p: "admission_state_version (published h p s) = admission_state_version s" for s
    by (simp add: published_def write_marker_def write_profile_def set_meta_json_def Let_def
        admission_state_version_def split: option.split)
  have "admission_state_version (acquired sid owner ttl ov al h p st) = admission_state_version st"
    unfolding acquired_def p by (simp add: s) (simp add: admission_state_version_def with_rows_def)
  then show ?thesis by (simp add: after_acquire_def) (simp add: admission_state_version_def)
qed

section \<open>Coalescing\<close>

text \<open>The cheapest capable candidate is chosen.\<close>

lemma find_sorted_least:
  assumes "find p (map g (sort_key f xs)) = Some c" and "y \<in> set xs" and "p (g y)"
  shows "\<exists>x \<in> set xs. g x = c \<and> f x \<le> f y"
proof -
  let ?L = "sort_key f xs"
  obtain i where i: "i < length ?L" "g (?L ! i) = c" "\<forall>j<i. \<not> p (g (?L ! j))"
    using assms(1) by (auto simp: find_Some_iff)
  obtain j where j: "j < length ?L" "?L ! j = y" using assms(2) by (metis in_set_conv_nth set_sort)
  have "i \<le> j" using i(3) j(2) assms(3) by (metis not_less)
  moreover have "sorted (map f ?L)" by simp
  ultimately have "map f ?L ! i \<le> map f ?L ! j" using j(1) by (intro sorted_nth_mono) auto
  then have "f (?L ! i) \<le> f y" using i(1) j by simp
  moreover have "?L ! i \<in> set xs" using i(1) by (metis nth_mem set_sort)
  ultimately show ?thesis using i(2) by blast
qed

lemma choose_least:
  assumes "choose_deployment sha resident st ps req = Some d"
  shows "\<exists>p. (d, p) \<in> set (candidates st ps (compat_key sha req))
    \<and> capacity_satisfies (dep_capacity d) (req_capacity req)
    \<and> (\<forall>(e, q) \<in> set (candidates st ps (compat_key sha req)).
         capacity_satisfies (dep_capacity e) (req_capacity req) \<longrightarrow> cost resident d p \<le> cost resident e q)"
proof -
  let ?C = "candidates st ps (compat_key sha req)"
  let ?p = "\<lambda>c. capacity_satisfies (dep_capacity (fst c)) (req_capacity req)"
  let ?f = "\<lambda>item. (cost resident (fst (snd item)) (snd (snd item)), fst item)"
  obtain c where c: "find ?p (map snd (sort_key ?f (enumerate 0 ?C))) = Some c" "d = fst c"
    using assms by (auto simp: choose_deployment_def ranked_def split: if_splits)
  have C: "set ?C = snd ` set (enumerate 0 ?C)" by (metis list.set_map map_snd_enumerate)
  have least: "cost resident (fst c) (snd c) \<le> cost resident (fst e) (snd e)" if "e \<in> set ?C" "?p e" for e
  proof -
    note m = that
    have "e \<in> snd ` set (enumerate 0 ?C)" using that(1) by (simp only: C[symmetric])
    then obtain y where y: "y \<in> set (enumerate 0 ?C)" "snd y = e" by blast
    then obtain x where "x \<in> set (enumerate 0 ?C)" "snd x = c" "?f x \<le> ?f y"
      using find_sorted_least[OF c(1) y(1)] m(2) by blast
    then show ?thesis using y(2) by (auto simp: less_eq_prod_def)
  qed
  moreover have "?p c" "c \<in> set ?C" using find_SomeD[OF c(1)] C by auto
  ultimately show ?thesis using c(2) by (intro exI[of _ "snd c"]) auto
qed

lemma choose_None:
  "choose_deployment sha resident st ps req = None \<longleftrightarrow> req_sharing req = DEDICATED
   \<or> (\<forall>(e, q) \<in> set (candidates st ps (compat_key sha req)).
        \<not> capacity_satisfies (dep_capacity e) (req_capacity req))"
  by (auto simp: choose_deployment_def find_None_iff)

text \<open>What the plan knows about the deployments it touched.\<close>

definition ident :: "deployment \<Rightarrow> string \<times> string \<times> capacity" where
  "ident d = (dep_compat_key d, dep_sharing d, dep_capacity d)"

lemma ident_frame [simp]: "ident (serve req d) = ident d" "ident (revive d) = ident d"
  by (simp_all add: ident_def)

definition suits :: "(string \<Rightarrow> string) \<Rightarrow> endpoint_request \<Rightarrow> deployment \<Rightarrow> bool" where
  "suits sha req d \<longleftrightarrow> dep_compat_key d = compat_key sha req
     \<and> capacity_satisfies (dep_capacity d) (req_capacity req)
     \<and> dget (dep_served d) (req_endpoint req) \<noteq> None"

definition ps_sound :: "(string \<Rightarrow> string) \<Rightarrow> (nat \<Rightarrow> string) \<Rightarrow> store \<Rightarrow> plan_state \<Rightarrow> bool" where
  "ps_sound sha new_id st ps \<longleftrightarrow>
     (\<forall>(req, g) \<in> set (ps_claims ps). \<exists>d. dget (ps_view ps) g = Some d \<and> suits sha req d) \<and>
     set (dkeys (ps_created ps)) \<subseteq> new_id ` {..<ps_ids ps} \<and>
     (\<forall>g d. dget (ps_view ps) g = Some d \<longrightarrow> g \<notin> set (dkeys (ps_created ps))
        \<longrightarrow> (\<exists>e. dep_at st g = Some e \<and> ident e = ident d)) \<and>
     (\<forall>(req, g) \<in> set (ps_claims ps). req_sharing req = DEDICATED
        \<longrightarrow> g \<in> set (dkeys (ps_created ps)) \<and> filter (\<lambda>c. snd c = g) (ps_claims ps) = [(req, g)]
          \<and> (\<exists>d. dget (ps_view ps) g = Some d \<and> dep_sharing d = DEDICATED))"

lemma ps_sound_empty: "ps_sound sha new_id st empty_plan_state"
  by (simp add: ps_sound_def empty_plan_state_def)

lemma candidate_ident:
  assumes "distinct (dep_ids st)" and ok: "ps_ok st ps" and s: "ps_sound sha new_id st ps"
    and c: "(d, p) \<in> set (candidates st ps key)"
  shows "dep_compat_key d = key" and "dep_sharing d = SHARED"
    and "dep_id d \<notin> set (dkeys (ps_created ps)) \<Longrightarrow> \<exists>e. dep_at st (dep_id d) = Some e \<and> ident e = ident d"
    and "dget (ps_view ps) (dep_id d) \<noteq> None \<Longrightarrow> dep_id d \<notin> set (dkeys (ps_created ps))
      \<Longrightarrow> dget (ps_view ps) (dep_id d) = Some d"
proof -
  have all: "dep_compat_key d = key \<and> dep_sharing d = SHARED \<and>
    (dep_id d \<notin> set (dkeys (ps_created ps)) \<longrightarrow> (\<exists>e. dep_at st (dep_id d) = Some e \<and> ident e = ident d)
      \<and> (dget (ps_view ps) (dep_id d) \<noteq> None \<longrightarrow> dget (ps_view ps) (dep_id d) = Some d))"
  proof (cases "p")
    case True
    then have "d \<in> set (dvals (ps_created ps))" "dep_compat_key d = key" "dep_sharing d = SHARED"
      using c by (auto simp: candidates_def)
    moreover obtain g where "(g, d) \<in> set (ps_created ps)" using calculation(1) by (auto simp: dvals_def)
    then have "dget (ps_created ps) g = Some d" using ok by (intro dget_distinct) (simp add: ps_ok_def)
    then have "dep_id d \<in> set (dkeys (ps_created ps))" using ok dget_in_dkeys by (metis ps_ok_def)
    ultimately show ?thesis by simp
  next
    case False
    then obtain g where g: "g \<in> set (deployments_by_compat st key SHARED [Live, Idle])"
      "d = (case dget (ps_view ps) (dep_id g) of Some v \<Rightarrow> v | None \<Rightarrow> g)"
      using c by (auto simp: candidates_def)
    then have gk: "dep_compat_key g = key" "dep_sharing g = SHARED" "dep_at st (dep_id g) = Some g"
      using dep_at_row[OF assms(1)] by (auto simp: deployments_by_compat_def)
    have "dep_id g \<in> set (dep_ids st)" using gk(3) deps.look_None by (metis option.distinct(1))
    then have n: "dep_id g \<notin> set (dkeys (ps_created ps))" using ok by (metis in_dkeysE ps_ok_def)
    show ?thesis
    proof (cases "dget (ps_view ps) (dep_id g)")
      case None
      then show ?thesis using g(2) gk by auto
    next
      case (Some v)
      then have v: "d = v" "dep_id v = dep_id g" using g(2) ok by (simp_all add: ps_ok_def)
      obtain e where "dep_at st (dep_id g) = Some e" "ident e = ident v"
        using s Some n unfolding ps_sound_def by blast
      then show ?thesis using v gk Some by (auto simp: ident_def)
    qed
  qed
  then show "dep_compat_key d = key" "dep_sharing d = SHARED"
    "dep_id d \<notin> set (dkeys (ps_created ps)) \<Longrightarrow> \<exists>e. dep_at st (dep_id d) = Some e \<and> ident e = ident d"
    "dget (ps_view ps) (dep_id d) \<noteq> None \<Longrightarrow> dep_id d \<notin> set (dkeys (ps_created ps))
      \<Longrightarrow> dget (ps_view ps) (dep_id d) = Some d" by blast+
qed


lemma serve_served: "dget (dep_served (serve req d)) (req_endpoint req) \<noteq> None"
  by (auto simp: serve_def served_differs_def)

lemma serve_keeps: "dget (dep_served d) e \<noteq> None \<Longrightarrow> dget (dep_served (serve req d)) e \<noteq> None"
  by (simp add: serve_def)

lemma revive_served [simp]: "dep_served (revive d) = dep_served d"
  by (simp add: revive_def)

lemma suits_serve: "suits sha r d \<Longrightarrow> suits sha r (serve req (revive d))"
  by (auto simp: suits_def serve_keeps intro: serve_keeps)

lemma suits_join:
  "dep_compat_key d = compat_key sha req \<Longrightarrow> capacity_satisfies (dep_capacity d) (req_capacity req)
   \<Longrightarrow> suits sha req (serve req (revive d))"
  using serve_served[of req "revive d"] by (simp add: suits_def)

lemma join_ids [simp]: "ps_ids (join_deployment req d ps) = ps_ids ps"
  by (simp add: join_deployment_def Let_def)

lemma join_sound:
  assumes d: "distinct (dep_ids st)" and ok: "ps_ok st ps" and s: "ps_sound sha new_id st ps"
    and ch: "choose_deployment sha resident st ps req = Some d"
  shows "ps_sound sha new_id st (join_deployment req d ps)"
proof -
  obtain p where c: "(d, p) \<in> set (candidates st ps (compat_key sha req))"
    and cap: "capacity_satisfies (dep_capacity d) (req_capacity req)"
    using choose_candidate[OF ch] by blast
  note I = candidate_ident[OF d ok s c]
  let ?ps = "join_deployment req d ps" and ?d = "serve req (revive d)"
  have ck: "set (dkeys (ps_created ?ps)) = set (dkeys (ps_created ps))" by auto
  have view: "dget (ps_view ps) (dep_id d) = Some e \<Longrightarrow> e = d" for e
  proof -
    assume e: "dget (ps_view ps) (dep_id d) = Some e"
    show "e = d"
    proof (cases "dep_id d \<in> set (dkeys (ps_created ps))")
      case True
      then obtain d' where d': "dget (ps_created ps) (dep_id d) = Some d'" by (rule in_dkeysE)
      then have "d' = e" using ok e unfolding ps_ok_def by blast
      moreover have "d' = d" using chosen_facts(2)[OF d ok ch d'] by blast
      ultimately show ?thesis by simp
    next
      case False
      then show ?thesis using I(4) e by simp
    qed
  qed
  have shared: "req_sharing req \<noteq> DEDICATED" using ch by (auto simp: choose_deployment_def split: if_splits)
  have not_ded: "req_sharing r \<noteq> DEDICATED" if "(r, dep_id d) \<in> set (ps_claims ps)" for r
  proof
    note m = that
    assume "req_sharing r = DEDICATED"
    then obtain e where e: "dget (ps_view ps) (dep_id d) = Some e" "dep_sharing e = DEDICATED"
      using s m unfolding ps_sound_def by blast
    show False using view[OF e(1)] e(2) I(2) by simp
  qed
  have s1: "\<exists>e. dget (ps_view ?ps) g = Some e \<and> suits sha r e" if "(r, g) \<in> set (ps_claims ?ps)" for r g
  proof (cases "g = dep_id d")
    case True
    show ?thesis
    proof (cases "(r, g) \<in> set (ps_claims ps)")
      case old: True
      then obtain e where "dget (ps_view ps) g = Some e" "suits sha r e"
        using s unfolding ps_sound_def by blast
      then have "suits sha r d" using view True by blast
      then show ?thesis using True suits_serve by simp
    next
      case False
      then have "r = req" using that by auto
      then show ?thesis using True suits_join[OF I(1) cap] by simp
    qed
  next
    case False
    then have "(r, g) \<in> set (ps_claims ps)" using that by auto
    then show ?thesis using s False unfolding ps_sound_def by fastforce
  qed
  have s3: "\<exists>e'. dep_at st g = Some e' \<and> ident e' = ident e"
    if "dget (ps_view ?ps) g = Some e" "g \<notin> set (dkeys (ps_created ?ps))" for g e
  proof (cases "g = dep_id d")
    case True
    then show ?thesis using that I(3) ck by auto
  next
    case False
    then have "dget (ps_view ps) g = Some e" using that(1) by simp
    then show ?thesis using s that(2) ck unfolding ps_sound_def by blast
  qed
  have s4: "g \<in> set (dkeys (ps_created ?ps)) \<and> filter (\<lambda>c. snd c = g) (ps_claims ?ps) = [(r, g)]
      \<and> (\<exists>e. dget (ps_view ?ps) g = Some e \<and> dep_sharing e = DEDICATED)"
    if "(r, g) \<in> set (ps_claims ?ps)" "req_sharing r = DEDICATED" for r g
  proof -
    have old: "(r, g) \<in> set (ps_claims ps)" using that shared by auto
    then have ne: "g \<noteq> dep_id d" using not_ded that(2) by blast
    have "g \<in> set (dkeys (ps_created ps)) \<and> filter (\<lambda>c. snd c = g) (ps_claims ps) = [(r, g)]
      \<and> (\<exists>e. dget (ps_view ps) g = Some e \<and> dep_sharing e = DEDICATED)"
      using s old that(2) unfolding ps_sound_def by blast
    then show ?thesis using ne ck by auto
  qed
  have s2: "set (dkeys (ps_created ?ps)) \<subseteq> new_id ` {..<ps_ids ?ps}"
    using s ck by (simp add: ps_sound_def)
  show ?thesis unfolding ps_sound_def using s1 s2 s3 s4 by blast
qed

lemma create_sound:
  assumes ok: "ps_ok st ps" and s: "ps_sound sha new_id st ps" and inj: "inj new_id"
    and new: "new_id (ps_ids ps) \<notin> set (dep_ids st)" and cap: "distinct (dkeys (req_capacity req))"
  shows "ps_sound sha new_id st (create_deployment sha new_id now req ps)"
proof -
  let ?g = "new_id (ps_ids ps)"
  let ?d = "new_deployment sha ?g now req" and ?ps = "create_deployment sha new_id now req ps"
  have e: "ps_view ?ps = dput ?g ?d (ps_view ps)" "ps_created ?ps = dput ?g ?d (ps_created ps)"
    "ps_claims ?ps = ps_claims ps @ [(req, ?g)]" "ps_ids ?ps = ps_ids ps + 1"
    by (simp_all add: create_deployment_def new_deployment_def Let_def)
  have fresh: "?g \<notin> set (dkeys (ps_created ps))"
  proof -
    have "set (dkeys (ps_created ps)) \<subseteq> new_id ` {..<ps_ids ps}" using s by (simp add: ps_sound_def)
    moreover have "?g \<notin> new_id ` {..<ps_ids ps}" using inj by (auto dest: injD)
    ultimately show ?thesis by blast
  qed
  have vn: "dget (ps_view ps) ?g = None"
  proof (rule ccontr)
    assume "dget (ps_view ps) ?g \<noteq> None"
    then obtain d where d: "dget (ps_view ps) ?g = Some d" by blast
    then have "\<exists>e. dep_at st ?g = Some e" using s fresh unfolding ps_sound_def by blast
    then show False using new deps.look_None[of st ?g] by simp
  qed
  have ng: "(r, ?g) \<notin> set (ps_claims ps)" for r
    using s vn unfolding ps_sound_def by force
  have "suits sha req ?d"
    using capacity_satisfies_refl[OF cap] by (simp add: suits_def new_deployment_def dget_def)
  moreover have "filter (\<lambda>c. snd c = ?g) (ps_claims ps) = []"
    using ng by (auto simp: filter_empty_conv)
  moreover have "ident ?d = (compat_key sha req, req_sharing req, req_capacity req)"
    by (simp add: ident_def new_deployment_def)
  moreover have sh: "dep_sharing ?d = req_sharing req" by (simp add: new_deployment_def)
  moreover have "g \<noteq> ?g" if "(r, g) \<in> set (ps_claims ps)" for r g using ng that by blast
  ultimately show ?thesis
    using s unfolding ps_sound_def e
    by (auto simp: lessThan_Suc)
qed

lemma planned_sound:
  assumes "distinct (dep_ids st)" and "\<And>n. new_id n \<notin> set (dep_ids st)" and "inj new_id"
    and "\<forall>r \<in> set reqs. distinct (dkeys (req_capacity r))"
  shows "ps_sound sha new_id st (planned sha new_id resident now reqs st)
    \<and> map fst (ps_claims (planned sha new_id resident now reqs st)) = reqs"
proof -
  have "ps_ok st (fold f reqs ps) \<and> ps_sound sha new_id st (fold f reqs ps)
      \<and> map fst (ps_claims (fold f reqs ps)) = map fst (ps_claims ps) @ reqs"
    if "ps_ok st ps" "ps_sound sha new_id st ps" "f = plan_request sha new_id resident now st" for f ps
    using that assms(4)
  proof (induction reqs arbitrary: ps)
    case (Cons r reqs)
    let ?ps = "plan_request sha new_id resident now st r ps"
    have o: "ps_ok st ?ps" by (rule plan_request_ps_ok[OF assms(1) Cons.prems(1) assms(2)])
    have "ps_sound sha new_id st ?ps"
      using join_sound[OF assms(1) Cons.prems(1,2)] create_sound[OF Cons.prems(1,2) assms(3) assms(2)] Cons.prems(4)
      by (auto simp: plan_request_def split: option.split)
    moreover have "map fst (ps_claims ?ps) = map fst (ps_claims ps) @ [r]"
      by (simp add: plan_request_def create_deployment_def Let_def split: option.split)
    ultimately show ?case using Cons.IH[OF o _ Cons.prems(3)] Cons.prems(3,4) by simp
  qed simp
  from this[OF ps_ok_empty ps_sound_empty refl] show ?thesis
    by (simp add: planned_def empty_plan_state_def)
qed

section \<open>Properties\<close>

text \<open>
  C11. The ledger's invariant. In every reachable state lease and deployment ids are unique, every
  claim refers to an existing lease and an existing deployment, service addresses are unique, only
  LIVE deployments hold a GPU allocation, and every LIVE deployment is claimed by an ACTIVE lease.
\<close>

theorem ledger_invariant:
  assumes "reachable any_op (t, st)"
  shows "refs_ok st \<and> alloc_ok st \<and> live_claimed st"
  using reachable_ok[OF assms] by (simp add: ledger_ok_def)

text \<open>
  C36. A protecting lease's deployments are LIVE. As long as leases are only renewed while their
  deployments are LIVE or IDLE, at every reachable time each deployment claimed by a lease that is
  ACTIVE and not past its TTL exists and is LIVE.
\<close>

theorem protecting_leases_live:
  assumes "reachable careful (t, st)" and "c \<in> set (st_claims st)"
    and "lease_at st (cl_lease c) = Some r" and "row_protects t r"
  shows "\<exists>d. dep_at st (cl_deployment c) = Some d \<and> dep_state d = Live"
  using reachable_protected[OF assms(1)] assms(2-4)
  by (auto simp: protected_def live_at_def split: option.splits)

text \<open>
  Admission conflicts are always noticed. A step never lowers the admission version, and every
  step that changes the state of a deployment (other than forgetting stopped ones), or adds one,
  raises it: an overlay planned before such a step is refused by \<open>acquire\<close>.
\<close>

theorem desired_change_moves_version:
  assumes "ledger_step op (t, st) (t', st')" and "ledger_ok st" and "op \<noteq> Prune"
  shows "admission_state_version st \<le> admission_state_version st' \<and>
    ((\<exists>g. map_option dep_state (dep_at st g) \<noteq> map_option dep_state (dep_at st' g))
       \<longrightarrow> admission_state_version st < admission_state_version st')"
proof -
  have acq: "version_moves st st'"
    if "acquire sha new_id t sid owner reqs ttl (Some ov) al h p st = Inr (st', le, ds)"
      "ov = plan_acquire sha new_id resident t0 reqs st0" "st_deployments st0 = st_deployments st"
      "\<forall>n. new_id n \<notin> set (dep_ids st)" "set (dkeys al) \<subseteq> set (dkeys (ov_created ov)) \<union> set (ov_revived ov)"
    for sha new_id sid owner reqs ttl ov al h p le ds resident t0 st0
    using acquire_step_ok(2)[OF assms(2) that] after_acquire_version by (simp add: version_moves_bump)
  have "version_moves st st'"
    using assms(1)
  proof cases
    case (acquire sha new_id sid owner reqs ttl ov al h p le ds resident t0 st0)
    show ?thesis by (rule acq[OF acquire(3-7)])
  next
    case (acquire_direct sha new_id sid owner reqs ttl h p le ds)
    show ?thesis by (rule acq[OF acquire_direct(3)[unfolded acquire_direct_eq] refl refl acquire_direct(4)]) simp
  next
    case (release sid r)
    then show ?thesis using release_version[of st sid t] by simp
  next
    case (renew sid ttl al r)
    then show ?thesis using renew_version[of st sid ttl al t] by simp
  next
    case (renew_fast sid ttl r)
    then show ?thesis using renew_if_live_version[of st sid ttl t] by simp
  next
    case (sweep r)
    then show ?thesis using sweep_version[of st t] by simp
  next
    case (evict w ids)
    then show ?thesis using evict_version[of st w t] by simp
  next
    case (adopt gid gpus)
    then show ?thesis
      by (simp add: set_allocation_def version_moves_def bump_admission_state_version_def
          admission_state_version_def counter_def bump_def set_deployment_allocation_def split: option.split)
  qed (use assms(3) in \<open>simp_all add: version_moves_def\<close>)
  then show ?thesis by (auto simp: version_moves_def desired_states_def fun_eq_iff)
qed

text \<open>
  Coalescing is sound. In the plan of an acquire every request gets one claim, in order; the
  deployment it claims has the request's compatibility key, at least its capacity, and serves
  its endpoint; and a dedicated request gets a new deployment that no other request of the plan
  claims.
\<close>

theorem coalescing_sound:
  assumes "refs_ok st" and "inj new_id" and "\<forall>n. new_id n \<notin> set (dep_ids st)"
    and "\<forall>r \<in> set reqs. distinct (dkeys (req_capacity r))"
    and "ov = plan_acquire sha new_id resident now reqs st"
  shows "map fst (ov_claims ov) = reqs \<and>
    (\<forall>(req, g) \<in> set (ov_claims ov).
       (\<exists>d. dget (ov_deployments ov) g = Some d \<and> dep_compat_key d = compat_key sha req
          \<and> capacity_satisfies (dep_capacity d) (req_capacity req)
          \<and> dget (dep_served d) (req_endpoint req) \<noteq> None)
       \<and> (req_sharing req = DEDICATED \<longrightarrow>
            g \<notin> set (dep_ids st) \<and> filter (\<lambda>c. snd c = g) (ov_claims ov) = [(req, g)]))"
proof -
  let ?ps = "planned sha new_id resident now reqs st"
  have d: "distinct (dep_ids st)" using assms(1) by (simp add: refs_ok_def)
  have s: "ps_sound sha new_id st ?ps" "map fst (ps_claims ?ps) = reqs"
    using planned_sound[OF d _ assms(2,4)] assms(3) by blast+
  have ok: "ps_ok st ?ps" using planned_ok[OF d] assms(3) by blast
  have "(\<exists>d. dget (ov_deployments ov) g = Some d \<and> suits sha req d)
       \<and> (req_sharing req = DEDICATED \<longrightarrow>
            g \<notin> set (dep_ids st) \<and> filter (\<lambda>c. snd c = g) (ps_claims ?ps) = [(req, g)])"
    if "(req, g) \<in> set (ps_claims ?ps)" for req g
  proof -
    have "g \<in> snd ` set (ps_claims ?ps)" using that by force
    then have "dget (ov_deployments ov) g = dget (ps_view ?ps) g"
      unfolding assms(5) ov_deployments_view by (simp add: Let_def)
    moreover have "\<exists>d. dget (ps_view ?ps) g = Some d \<and> suits sha req d"
      "req_sharing req = DEDICATED \<longrightarrow> g \<in> set (dkeys (ps_created ?ps))
         \<and> filter (\<lambda>c. snd c = g) (ps_claims ?ps) = [(req, g)]"
      using s(1) that unfolding ps_sound_def by blast+
    moreover have "g \<in> set (dkeys (ps_created ?ps)) \<Longrightarrow> g \<notin> set (dep_ids st)"
      using ok by (metis in_dkeysE ps_ok_def)
    ultimately show ?thesis by auto
  qed
  then show ?thesis using s(2) unfolding assms(5) plan_acquire_fields suits_def by blast
qed

text \<open>
  The cheapest deployment is reused. A request that is not dedicated creates a deployment only
  if no candidate covers it; otherwise it takes a candidate whose cost (LIVE, then created by this
  plan, then resident IDLE, then other IDLE) is least among those that do.
\<close>

theorem cheapest_candidate:
  shows "case choose_deployment sha resident st ps req of
      None \<Rightarrow> req_sharing req = DEDICATED \<or> (\<forall>(e, q) \<in> set (candidates st ps (compat_key sha req)).
        \<not> capacity_satisfies (dep_capacity e) (req_capacity req))
    | Some d \<Rightarrow> req_sharing req \<noteq> DEDICATED \<and>
        (\<exists>p. (d, p) \<in> set (candidates st ps (compat_key sha req))
           \<and> capacity_satisfies (dep_capacity d) (req_capacity req)
           \<and> (\<forall>(e, q) \<in> set (candidates st ps (compat_key sha req)).
                capacity_satisfies (dep_capacity e) (req_capacity req)
                \<longrightarrow> cost resident d p \<le> cost resident e q))"
proof (cases "choose_deployment sha resident st ps req")
  case None
  then show ?thesis using choose_None[of sha resident st ps req] by simp
next
  case (Some d)
  then have "req_sharing req \<noteq> DEDICATED" by (auto simp: choose_deployment_def)
  then show ?thesis using choose_least[OF Some] Some by simp
qed

text \<open>
  C37. An admitted acquire goes through. If the overlay was planned on a store with the same
  deployments and admission version, and the new ids are fresh and different, the commit succeeds
  whatever the ledger holds: no constraint fails and the lease is found. The new lease is ACTIVE,
  belongs to the owner, and lists the requested endpoints; every deployment it claims is LIVE.
\<close>

theorem acquire_succeeds:
  assumes "ledger_ok st" and "sid \<notin> set (lease_ids st)" and "\<forall>n. new_id n \<notin> set (dep_ids st)"
    and "ov = plan_acquire sha new_id resident t0 reqs st0"
    and "st_deployments st0 = st_deployments st"
    and "admission_state_version st0 = admission_state_version st"
    and "inj new_id" and "\<forall>r \<in> set reqs. distinct (dkeys (req_capacity r))"
  shows "\<exists>st' le ds. acquire sha new_id t sid owner reqs ttl (Some ov) al h p st = Inr (st', le, ds)
    \<and> lease_id le = sid \<and> lease_owner le = owner \<and> lease_state le = Active
    \<and> lease_endpoints le = map req_endpoint reqs
    \<and> (\<forall>g \<in> set (lease_deployment_ids le). live_at st' g)"
proof -
  have refs: "distinct (dep_ids st)" "distinct (lease_ids st)" using assms(1) by (simp_all add: ledger_ok_def refs_ok_def)
  have ids: "dep_ids st0 = dep_ids st" using assms(5) by (simp add: dep_ids_def)
  have "overlay_ok st0 ov"
    unfolding assms(4) by (rule plan_overlay_ok) (use refs assms(3) ids in auto)
  then have o: "overlay_ok st ov" using overlay_ok_same_deployments[OF assms(5)] by simp
  have "ps_ok st0 (planned sha new_id resident t0 reqs st0)"
    by (rule planned_ok) (use refs assms(3) ids in auto)
  then have "g \<notin> set (dep_ids st)" if "dget (ov_created ov) g = Some d" for g d
    using that unfolding assms(4) plan_acquire_fields ps_ok_def ids by blast
  then have fresh: "set (dkeys (ov_created ov)) \<inter> set (dep_ids st) = {}"
    by (blast elim: in_dkeysE)
  have cl: "map fst (ov_claims ov) = reqs"
    unfolding assms(4) plan_acquire_fields
    using planned_sound[of st0 new_id reqs] refs assms(3,7,8) ids by simp
  let ?st = "after_acquire sid owner ttl ov al h p st"
  note live = live_at_after_acquire[OF o, of sid owner ttl al h p]
  have new_dep: "dep_at st g = None" if "g \<in> set (dkeys (ov_created ov))" for g
    using fresh that deps.look_None by blast
  have claim_live: "live_at ?st (snd c)" if "c \<in> set (ov_claims ov)" for c
    using o that new_dep unfolding live overlay_ok_def by blast
  have "snd c \<in> set (dep_ids st) \<union> dep_id ` set (dvals (ov_created ov))" if "c \<in> set (ov_claims ov)" for c
    using claim_live[OF that] deps.look_None[of ?st "snd c"]
    by (auto simp: live_at_def split: option.splits)
  moreover have "distinct (map dep_id (dvals (ov_created ov)))"
    using o by (simp add: created_ids(1)[OF o] overlay_ok_def)
  moreover have "dep_id ` set (dvals (ov_created ov)) = set (dkeys (ov_created ov))"
    by (metis created_ids(1)[OF o] list.set_map)
  ultimately have com: "commit_acquire sid owner ttl ov al h p st = Inr ?st"
    unfolding commit_acquire_Inr after_acquire_def using assms(2) fresh by simp
  have none: "lease_at st sid = None" using assms(2) leases.look_None by blast
  let ?le = "row_to_lease ?st (acquired_lease sid owner ttl (ov_now ov))"
  have le: "get_lease ?st sid = Some ?le" by (simp add: get_lease_lease_at none)
  have old: "filter (\<lambda>c. cl_lease c = sid) (st_claims st) = []"
    using assms(1,2) by (auto simp: ledger_ok_def refs_ok_def filter_empty_conv)
  have mine: "filter (\<lambda>c. cl_lease c = sid) (st_claims ?st) = map (claim_of sid) (ov_claims ov)"
    by (simp add: old filter_map comp_def)
  have "map cl_endpoint (map (claim_of sid) (ov_claims ov)) = map req_endpoint reqs"
    by (simp add: comp_def flip: cl)
  then have "lease_endpoints ?le = map req_endpoint reqs"
    using mine by (simp add: row_to_lease_def Let_def acquired_lease_def)
  moreover have "set (lease_deployment_ids ?le) = snd ` set (ov_claims ov)"
    using mine by (simp add: row_to_lease_def Let_def acquired_lease_def comp_def)
  ultimately have res: "lease_id ?le = sid \<and> lease_owner ?le = owner \<and> lease_state ?le = Active
    \<and> lease_endpoints ?le = map req_endpoint reqs \<and> (\<forall>g \<in> set (lease_deployment_ids ?le). live_at ?st g)"
    using claim_live by (auto simp: acquired_lease_def row_to_lease_def Let_def)
  have "admission_state_version st = ov_state_version ov"
    unfolding assms(4) plan_acquire_fields using assms(6) by simp
  then show ?thesis using com le res by (auto simp: acquire_Inr)
qed

subsection \<open>Tables after a batch of updates\<close>

lemma fold_upd_lease_map:
  assumes "\<And>r. lr_id (f r) = lr_id r" and "\<And>r. f (f r) = f r"
  shows "st_leases (fold (\<lambda>sid. upd_lease sid f) sids st)
    = map (\<lambda>r. if lr_id r \<in> set sids then f r else r) (st_leases st)"
proof (induction sids arbitrary: st)
  case (Cons sid sids)
  have "st_leases (fold (\<lambda>sid. upd_lease sid f) (sid # sids) st)
      = map (\<lambda>r. if lr_id r \<in> set sids then f r else r) (st_leases (upd_lease sid f st))"
    using Cons[of "upd_lease sid f st"] by simp
  moreover have "st_leases (upd_lease sid f st) = map (\<lambda>r. if lr_id r = sid then f r else r) (st_leases st)"
    by (simp add: upd_lease_def upd_where_def)
  ultimately show ?case using assms by auto
qed simp

lemma move_all_map:
  "st_deployments (move_all s t gids st)
   = map (\<lambda>d. if dep_id d \<in> set gids then move s t d else d) (st_deployments st)"
  unfolding move_all_def
proof (induction gids arbitrary: st)
  case (Cons g gids)
  have "st_deployments (fold (\<lambda>gid. set_deployment_state gid s t) (g # gids) st)
      = map (\<lambda>d. if dep_id d \<in> set gids then move s t d else d) (st_deployments (set_deployment_state g s t st))"
    using Cons[of "set_deployment_state g s t st"] by simp
  moreover have "st_deployments (set_deployment_state g s t st)
      = map (\<lambda>d. if dep_id d = g then move s t d else d) (st_deployments st)"
    by (simp add: set_deployment_state_def upd_where_def)
  ultimately show ?case by auto
qed simp

lemma sort_key_map: "(\<And>x. k (f x) = k x) \<Longrightarrow> sort_key k (map f xs) = map f (sort_key k xs)"
proof -
  assume k: "\<And>x. k (f x) = k x"
  have "insort_key k (f x) (map f ys) = map f (insort_key k x ys)" for x ys
    using k by (induction ys) auto
  then show ?thesis by (induction xs) auto
qed

lemma holders_expire:
  assumes "distinct (lease_ids st)"
  shows "holders (fold (\<lambda>le. set_lease_state (lease_id le) Expired) (active_leases_past st t) st) g t = holders st g t"
proof -
  let ?st = "fold (\<lambda>le. set_lease_state (lease_id le) Expired) (active_leases_past st t) st"
  have at: "lease_at ?st s = (if s \<in> lease_id ` set (active_leases_past st t)
      then map_option (\<lambda>r. r\<lparr>lr_state := Expired\<rparr>) (lease_at st s) else lease_at st s)" for s
    unfolding fold_expire using leases.fold_upd_look[of "\<lambda>r. r\<lparr>lr_state := Expired\<rparr>"] by simp
  have "(\<exists>r. lease_at ?st s = Some r \<and> row_protects t r) \<longleftrightarrow> (\<exists>r. lease_at st s = Some r \<and> row_protects t r)" for s
    unfolding at using active_leases_past_ids[OF assms, of s t]
    by (auto simp: row_protects_def)
  then show ?thesis by (simp add: holders_def set_lease_state_upd)
qed

lemma live_without_demand_is_due:
  assumes ok: "ledger_ok st" and g: "live_at st g" "demand st g t = 0"
  shows "g \<in> set (concat (map lease_deployment_ids (active_leases_past st t)))"
proof -
  have d: "distinct (lease_ids st)" using ok by (simp add: ledger_ok_def refs_ok_def)
  obtain c r where c: "c \<in> set (st_claims st)" "cl_deployment c = g" "lease_at st (cl_lease c) = Some r"
    "lr_state r = Active"
    using ok g(1) by (auto simp: ledger_ok_def live_claimed_def)
  then have "\<not> row_protects t r" using g(2) demand_eq_0[OF d, of g t] by auto
  then have "cl_lease c \<in> set (map lease_id (active_leases_past st t))"
    using active_leases_past_ids[OF d, of "cl_lease c" t] c by auto
  from due_claims_cover[OF d c(1) this] show ?thesis using c(2) by simp
qed

lemma row_protects_lease: "is_protecting (row_to_lease st r) t = row_protects t r"
  by (simp add: is_protecting_def row_protects_def row_to_lease_def Let_def)

definition timeless :: "deployment \<Rightarrow> deployment" where
  "timeless d = d\<lparr>dep_updated_at := 0, dep_assigned_gpus := None\<rparr>"

lemma sweep_tables:
  assumes ok: "ledger_ok st"
  shows "st_leases (fst (sweep t st)) = map (\<lambda>r. if lr_state r = Active \<and> \<not> row_protects t r
           then r\<lparr>lr_state := Expired\<rparr> else r) (st_leases st)"
    and "st_deployments (fst (sweep t st)) = map (\<lambda>d. if dep_state d = Live \<and> demand st (dep_id d) t = 0
           then move Idle t d else d) (st_deployments st)"
    and "demand (fst (sweep t st)) g t = demand st g t"
    and "st_claims (fst (sweep t st)) = st_claims st"
proof -
  have dl: "distinct (lease_ids st)" and dd: "distinct (dep_ids st)"
    using ok by (simp_all add: ledger_ok_def refs_ok_def)
  let ?due = "active_leases_past st t"
  let ?st1 = "fold (\<lambda>le. set_lease_state (lease_id le) Expired) ?due st"
  define L where "L = filter (\<lambda>g. live_at ?st1 g \<and> demand ?st1 g t = 0) (fromkeys (concat (map lease_deployment_ids ?due)))"
  define R where "R = move_all Idle t L ?st1"
  have "fst (sweep t st) = R \<or> fst (sweep t st) = bump_desired_generation R"
    unfolding sweep_def Let_def case_prod_beta fst_conv idle_deployments_eq R_def L_def by meson
  then have same: "st_leases (fst (sweep t st)) = st_leases R" "st_deployments (fst (sweep t st)) = st_deployments R"
    "demand (fst (sweep t st)) = demand R" "st_claims (fst (sweep t st)) = st_claims R" by auto
  have l1: "lease_ids ?st1 = lease_ids st" unfolding fold_expire by (rule leases.fold_upd_keys) simp
  have dem: "demand ?st1 g t = demand st g t" for g
    using demand_card[of ?st1 g t] demand_card[OF dl, of g t] holders_expire[OF dl, of t g] l1 dl by simp
  have live: "live_at ?st1 = live_at st" by (simp add: live_at_def set_lease_state_upd fun_eq_iff)
  have "lr_id r \<in> set (map lease_id ?due) \<longleftrightarrow> lr_state r = Active \<and> \<not> row_protects t r"
    if "r \<in> set (st_leases st)" for r
    using active_leases_past_ids[OF dl, of "lr_id r" t] lease_at_row[OF dl that] by auto
  then show "st_leases (fst (sweep t st)) = map (\<lambda>r. if lr_state r = Active \<and> \<not> row_protects t r
           then r\<lparr>lr_state := Expired\<rparr> else r) (st_leases st)"
    unfolding same R_def move_all_frame fold_expire
    by (subst fold_upd_lease_map) (auto intro!: map_cong)
  have "dep_id d \<in> set L \<longleftrightarrow> dep_state d = Live \<and> demand st (dep_id d) t = 0"
    if "d \<in> set (st_deployments st)" for d
  proof -
    have "live_at st (dep_id d) \<longleftrightarrow> dep_state d = Live"
      using dep_at_row[OF dd that] by (simp add: live_at_def)
    then show ?thesis
      using live_without_demand_is_due[OF ok, of "dep_id d" t] unfolding L_def live dem by auto
  qed
  then show "st_deployments (fst (sweep t st)) = map (\<lambda>d. if dep_state d = Live \<and> demand st (dep_id d) t = 0
           then move Idle t d else d) (st_deployments st)"
    unfolding same R_def move_all_map by (simp add: set_lease_state_upd)
  show "demand (fst (sweep t st)) g t = demand st g t" using dem by (simp add: same R_def)
  show "st_claims (fst (sweep t st)) = st_claims st" by (simp add: same R_def set_lease_state_upd)
qed

text \<open>
  The read-only view predicts the sweep. Showing TTL expiry without writing it
  (\<open>status\<close> with \<open>virtual_expiry\<close>) reports exactly the leases, and the deployments up to
  the update time and the released allocation, that \<open>sweep\<close> would record; and after the sweep no
  ACTIVE lease is past its TTL.
\<close>

theorem virtual_expiry_is_sweep:
  assumes "ledger_ok st"
  shows "fst (status True t st) = fst (status False t (fst (sweep t st)))
    \<and> map timeless (snd (status True t st)) = map timeless (snd (status False t (fst (sweep t st))))
    \<and> active_leases_past (fst (sweep t st)) t = []"
proof -
  note T = sweep_tables[OF assms, of t]
  let ?x = "\<lambda>r. if lr_state r = Active \<and> \<not> row_protects t r then r\<lparr>lr_state := Expired\<rparr> else r"
  let ?y = "\<lambda>d. if dep_state d = Live \<and> demand st (dep_id d) t = 0 then move Idle t d else d"
  have row: "row_to_lease (fst (sweep t st)) (?x r) =
      (let le = row_to_lease st r in if lease_state le = Active \<and> \<not> is_protecting le t
       then le\<lparr>lease_state := Expired\<rparr> else le)" for r
    by (simp add: row_protects_lease) (simp add: row_to_lease_def Let_def T(4))
  have "fst (status True t st) = fst (status False t (fst (sweep t st)))"
    unfolding status_def list_leases_def T(1)
    by (simp add: Let_def sort_key_map row comp_def)
  moreover have "map timeless (snd (status True t st)) = map timeless (snd (status False t (fst (sweep t st))))"
  proof -
    have k: "sort_key dep_created_at (map ?y (st_deployments st)) = map ?y (sort_key dep_created_at (st_deployments st))"
      by (rule sort_key_map) simp
    show ?thesis
      unfolding status_def list_deployments_def T(2,3) k
      by (simp add: Let_def comp_def timeless_def)
  qed
  moreover have "active_leases_past (fst (sweep t st)) t = []"
    by (auto simp: active_leases_past_def T(1) filter_empty_conv row_protects_def split: option.splits if_splits)
  ultimately show ?thesis by blast
qed

end
