(* ===== verification/Demand.thy ===== *)
theory Demand
  imports Leases
begin

text \<open>
  What each ledger operation does to demand (the number of protecting leases that claim a
  deployment), and a small ledger on which the properties of the ledger are applied.
\<close>

section \<open>What an operation does to demand\<close>

text \<open>
  Acquiring adds one reference. After a successful acquire the demand of every deployment the
  plan claims rises by exactly one, until the lease's TTL (counted from the planning time) ends,
  however many of its endpoints share that deployment; no other demand changes.
\<close>

theorem acquire_demand:
  assumes "ledger_ok st" and "ov = plan_acquire sha new_id resident t0 reqs st0"
    and "st_deployments st0 = st_deployments st" and "\<forall>n. new_id n \<notin> set (dep_ids st)"
    and "set (dkeys al) \<subseteq> set (dkeys (ov_created ov)) \<union> set (ov_revived ov)"
    and "acquire sha new_id t sid owner reqs ttl (Some ov) al h p st = Inr (st', le, ds)"
  shows "demand st' g now = demand st g now +
    (if g \<in> snd ` set (ov_claims ov) \<and> (case ttl of None \<Rightarrow> True | Some x \<Rightarrow> now < t0 + x) then 1 else 0)"
proof -
  note A = acquire_step_ok[OF assms(1,6,2,3,4,5)]
  have d: "distinct (lease_ids st)" "distinct (lease_ids st')"
    using assms(1) A(5) by (simp_all add: ledger_ok_def refs_ok_def)
  have "row_protects now (acquired_lease sid owner ttl (ov_now ov))
      \<longleftrightarrow> (case ttl of None \<Rightarrow> True | Some x \<Rightarrow> now < t0 + x)"
    by (simp add: row_protects_def acquired_lease_def assms(2) plan_acquire_fields split: option.split)
  then show ?thesis
    unfolding demand_card[OF d(1)] demand_card[OF d(2)] unfolding A(2)
    using holders_after_acquire(1)[OF assms(1) A(3), of owner ttl ov al h p] holders_after_acquire(2)[OF assms(1) A(3)] finite_holders[of st g now]
    by simp
qed

text \<open>
  Releasing idles exactly what nobody needs. The first release of a lease reports the LIVE
  deployments it claimed whose demand is zero without it; these become IDLE and lose their GPU
  allocation, every other deployment row is unchanged, and the lease protects nothing any more.
\<close>

theorem release_effect:
  assumes "ledger_ok st" and "lease_at st sid = Some r" and "lr_state r \<noteq> Released"
    and "release sid t st = (st', res)"
  shows "\<exists>ids. res = Idled ids \<and> distinct ids
    \<and> set ids = {g. live_at st g \<and> (\<exists>c \<in> set (st_claims st). cl_lease c = sid \<and> cl_deployment c = g)
        \<and> demand st' g t = 0}
    \<and> (\<forall>g. dep_at st' g = (if g \<in> set ids then map_option (move Idle t) (dep_at st g) else dep_at st g))
    \<and> (\<forall>g now. demand st' g now = card (holders st g now - {sid}))"
proof -
  let ?st1 = "set_lease_state sid Released st" and ?le = "row_to_lease st r"
  let ?ids = "filter (\<lambda>g. live_at st g \<and> demand ?st1 g t = 0) (lease_deployment_ids ?le)"
  have le: "get_lease st sid = Some ?le" by (simp add: get_lease_lease_at assms(2))
  have "lease_state ?le \<noteq> Released" using assms(3) by (simp add: row_to_lease_def Let_def)
  from release_store[OF le this, of t] assms(4)
  have st': "st' = bump_desired_generation (move_all Idle t ?ids ?st1) \<or> st' = move_all Idle t ?ids ?st1"
    and res: "res = Idled ?ids" by (auto simp: Let_def)
  have dem: "demand st' = demand ?st1" using st' by auto
  have dst: "distinct (lease_ids st)" using assms(1) by (simp add: ledger_ok_def refs_ok_def)
  have id: "lr_id r = sid" using assms(2) by (rule lease_at_id)
  have ids: "set (lease_deployment_ids ?le) = {g. \<exists>c \<in> set (st_claims st). cl_lease c = sid \<and> cl_deployment c = g}"
    by (auto simp: row_to_lease_def Let_def id)
  have "distinct ?ids" by (simp add: row_to_lease_def Let_def)
  moreover have "set ?ids = {g. live_at st g \<and> (\<exists>c \<in> set (st_claims st). cl_lease c = sid \<and> cl_deployment c = g)
        \<and> demand st' g t = 0}"
    unfolding set_filter ids dem by blast
  moreover have "dep_at st' g = (if g \<in> set ?ids then map_option (move Idle t) (dep_at st g) else dep_at st g)" for g
  proof -
    have "dep_at st' g = dep_at (move_all Idle t ?ids ?st1) g" using st' by (auto simp del: set_filter)
    then show ?thesis by (simp add: dep_at_move_all set_lease_state_upd del: set_filter)
  qed
  moreover have "demand st' g now = card (holders st g now - {sid})" for g now
  proof -
    have "distinct (lease_ids ?st1)" using dst by simp
    from demand_card[OF this] show ?thesis unfolding dem by (simp add: holders_release)
  qed
  ultimately show ?thesis using res by blast
qed

text \<open>
  Eviction never stops demand. \<open>evict_idle\<close> moves to STOPPED exactly the IDLE deployments
  among the wanted ones that no protecting lease claims; no other row and no demand changes.
\<close>

theorem evict_exact:
  assumes "ledger_ok st" and "evict_idle wanted t st = (st', ids)"
  shows "set ids = {g. idle_at st g \<and> (case wanted of None \<Rightarrow> True | Some w \<Rightarrow> g \<in> set w) \<and> demand st g t = 0}
    \<and> (\<forall>g. dep_at st' g = (if g \<in> set ids then map_option (move Stopped t) (dep_at st g) else dep_at st g))
    \<and> (\<forall>g now. demand st' g now = demand st g now)"
proof -
  have dd: "distinct (dep_ids st)" using assms(1) by (simp add: ledger_ok_def refs_ok_def)
  have ids: "ids = snd (evict_idle wanted t st)" using assms(2) by simp
  have "g \<in> set ids" if g: "idle_at st g" "case wanted of None \<Rightarrow> True | Some w \<Rightarrow> g \<in> set w" "demand st g t = 0" for g
  proof -
    obtain d where d: "dep_at st g = Some d" "dep_state d = Idle"
      using g(1) by (auto simp: idle_at_def split: option.splits)
    have "d \<in> set (st_deployments st)" "dep_id d = g" using dep_at_mem dep_at_id d(1) by blast+
    then show ?thesis
      unfolding ids evict_idle_def Let_def snd_conv list_deployments_def using d(2) g(2,3)
      by (auto split: option.splits intro!: image_eqI[of _ dep_id "d\<lparr>dep_demand := demand st (dep_id d) t\<rparr>"]
            image_eqI[of _ "\<lambda>d. d\<lparr>dep_demand := demand st (dep_id d) t\<rparr>" d])
  qed
  moreover have "idle_at st g \<and> (case wanted of None \<Rightarrow> True | Some w \<Rightarrow> g \<in> set w) \<and> demand st g t = 0"
    if "g \<in> set ids" for g using evicted_idle[OF dd that[unfolded ids]] by blast
  moreover have st': "st' = bump_desired_generation (move_all Stopped t ids st) \<or> st' = move_all Stopped t ids st"
    using assms(2) unfolding evict_idle_eq Let_def by (auto split: if_splits)
  then have "dep_at st' g = (if g \<in> set ids then map_option (move Stopped t) (dep_at st g) else dep_at st g)" for g
    by (auto simp: dep_at_move_all)
  moreover have "demand st' g now = demand st g now" for g now using st' by auto
  ultimately show ?thesis by blast
qed

section \<open>A small ledger\<close>

text \<open>Two shared requests for the same model, served under two endpoint names.\<close>

definition demo_request :: "string \<Rightarrow> endpoint_request" where
  "demo_request ep = \<lparr>req_endpoint = ep, req_engine = ''vllm'',
     req_structural = JObj [(''model'', JStr ''m'')], req_capacity = [(''max_model_len'', 4096)],
     req_sharing = SHARED, req_spec = empty_spec, req_served = JObj [], req_host = None\<rparr>"

definition demo_id :: "char \<Rightarrow> nat \<Rightarrow> string" where
  "demo_id c n = c # replicate n CHR ''x''"

lemma demo_id_inj: "inj (demo_id c)"
  by (auto simp: inj_def demo_id_def)

definition demo_sha :: "string \<Rightarrow> string" where
  "demo_sha s = s"

definition get_store :: "'e + (store \<times> 'a) \<Rightarrow> store" where
  "get_store r = (case r of Inr (st, _) \<Rightarrow> st | Inl _ \<Rightarrow> empty_store)"

text \<open>At time 0 lease A (TTL 1) creates a deployment; lease B (no TTL) joins it.\<close>

definition demo_st1 :: store where
  "demo_st1 = get_store (acquire demo_sha (demo_id CHR ''g'') 0 ''A'' ''o'' [demo_request ''m''] (Some 1) None [] None None empty_store)"

definition demo_st2 :: store where
  "demo_st2 = get_store (acquire demo_sha (demo_id CHR ''h'') 0 ''B'' ''o'' [demo_request ''n''] None None [] None None demo_st1)"


lemma get_store_Inr: "\<not> isl r \<Longrightarrow> \<exists>a. r = Inr (get_store r, a)"
  by (cases r) (auto simp: get_store_def)

lemma demo_acquires:
  "\<exists>le ds. acquire demo_sha (demo_id CHR ''g'') 0 ''A'' ''o'' [demo_request ''m''] (Some 1) None [] None None empty_store
     = Inr (demo_st1, le, ds)"
  "\<exists>le ds. acquire demo_sha (demo_id CHR ''h'') 0 ''B'' ''o'' [demo_request ''n''] None None [] None None demo_st1
     = Inr (demo_st2, le, ds)"
proof -
  have "\<not> isl (acquire demo_sha (demo_id CHR ''g'') 0 ''A'' ''o'' [demo_request ''m''] (Some 1) None [] None None empty_store)"
    by code_simp
  from get_store_Inr[OF this] show "\<exists>le ds. acquire demo_sha (demo_id CHR ''g'') 0 ''A'' ''o''
     [demo_request ''m''] (Some 1) None [] None None empty_store = Inr (demo_st1, le, ds)"
    unfolding demo_st1_def by auto
  have "\<not> isl (acquire demo_sha (demo_id CHR ''h'') 0 ''B'' ''o'' [demo_request ''n''] None None [] None None demo_st1)"
    by code_simp
  from get_store_Inr[OF this] show "\<exists>le ds. acquire demo_sha (demo_id CHR ''h'') 0 ''B'' ''o''
     [demo_request ''n''] None None [] None None demo_st1 = Inr (demo_st2, le, ds)"
    unfolding demo_st2_def by auto
qed

lemma demo_tables:
  "dep_ids demo_st1 = [''g'']" "lease_ids demo_st1 = [''A'']" "lease_ids demo_st2 = [''A'', ''B'']"
  "map cl_lease (st_claims demo_st2) = [''A'', ''B'']" "map cl_deployment (st_claims demo_st2) = [''g'', ''g'']"
  by code_simp+

lemma demo_fresh: "demo_id CHR ''h'' n \<notin> set (dep_ids demo_st1)" "demo_id CHR ''g'' n \<notin> set (dep_ids empty_store)"
  unfolding demo_tables by (simp_all add: demo_id_def empty_store_def dep_ids_def)

lemma demo_reachable:
  assumes "\<And>op st. (\<forall>sid. op \<noteq> Renew sid) \<Longrightarrow> ok op st"
  shows "reachable ok (0, demo_st1)" "reachable ok (0, demo_st2)"
proof -
  have i: "reachable ok (0, empty_store)" by (rule reachable.init)
  obtain le ds where 1: "acquire demo_sha (demo_id CHR ''g'') 0 ''A'' ''o'' [demo_request ''m''] (Some 1) None [] None None empty_store
     = Inr (demo_st1, le, ds)" using demo_acquires(1) by blast
  obtain le' ds' where 2: "acquire demo_sha (demo_id CHR ''h'') 0 ''B'' ''o'' [demo_request ''n''] None None [] None None demo_st1
     = Inr (demo_st2, le', ds')" using demo_acquires(2) by blast
  show r: "reachable ok (0, demo_st1)"
    by (rule reachable.step[OF i _ ledger_step.acquire_direct[OF 1]]) (auto simp: demo_fresh intro: assms)
  show "reachable ok (0, demo_st2)"
    by (rule reachable.step[OF r _ ledger_step.acquire_direct[OF 2]]) (auto simp: demo_fresh intro: assms)
qed

lemma demo_any: "reachable any_op (0, demo_st1)" "reachable any_op (0, demo_st2)"
  by (rule demo_reachable; simp add: any_op_def)+

lemma demo_ok: "ledger_ok empty_store" "ledger_ok demo_st1" "ledger_ok demo_st2"
  using reachable_ok demo_any by (auto simp: empty_ok)

theorem ledger_invariant_witness: "refs_ok demo_st2 \<and> alloc_ok demo_st2 \<and> live_claimed demo_st2"
  by (rule ledger_invariant[OF demo_any(2)])

theorem protecting_leases_live_witness: "\<exists>d. dep_at demo_st2 ''g'' = Some d \<and> dep_state d = Live"
proof -
  have r: "reachable careful (0, demo_st2)"
    by (rule demo_reachable(2)) (auto simp: careful_def split: ledger_op.split)
  have e: "\<exists>r. lease_at demo_st2 ''B'' = Some r \<and> row_protects 0 r"
  proof -
    have "(case lease_at demo_st2 ''B'' of Some r \<Rightarrow> row_protects 0 r | None \<Rightarrow> False)" by code_simp
    then show ?thesis by (simp split: option.splits)
  qed
  have c: "st_claims demo_st2 ! 1 \<in> set (st_claims demo_st2)" "cl_lease (st_claims demo_st2 ! 1) = ''B''"
    "cl_deployment (st_claims demo_st2 ! 1) = ''g''" by code_simp+
  show ?thesis using protecting_leases_live[OF r c(1)] e unfolding c(2,3) by blast
qed

theorem desired_change_moves_version_witness:
  "admission_state_version empty_store < admission_state_version demo_st1"
proof -
  obtain le ds where 1: "acquire demo_sha (demo_id CHR ''g'') 0 ''A'' ''o'' [demo_request ''m''] (Some 1) None [] None None empty_store
     = Inr (demo_st1, le, ds)" using demo_acquires(1) by blast
  have s: "ledger_step (Acquire ''A'') (0, empty_store) (0, demo_st1)"
    by (rule ledger_step.acquire_direct[OF 1]) (simp add: demo_fresh)
  have "dep_at empty_store ''g'' = None" by (simp add: empty_store_def dep_at_def)
  moreover have "dep_at demo_st1 ''g'' \<noteq> None" using deps.look_None[of demo_st1 "''g''"] by (simp add: demo_tables)
  ultimately have "map_option dep_state (dep_at empty_store ''g'') \<noteq> map_option dep_state (dep_at demo_st1 ''g'')" by simp
  then show ?thesis using desired_change_moves_version[OF s demo_ok(1)] by blast
qed

theorem coalescing_sound_witness:
  "\<exists>d. dget (ov_deployments (plan_acquire demo_sha (demo_id CHR ''h'') None 0 [demo_request ''n''] demo_st1)) ''g'' = Some d
     \<and> dep_compat_key d = compat_key demo_sha (demo_request ''n'') \<and> dget (dep_served d) ''n'' \<noteq> None"
proof -
  let ?ov = "plan_acquire demo_sha (demo_id CHR ''h'') None 0 [demo_request ''n''] demo_st1"
  have cl: "ov_claims ?ov = [(demo_request ''n'', ''g'')]" by code_simp
  have req: "req_endpoint (demo_request ''n'') = ''n''" "distinct (dkeys (req_capacity (demo_request ''n'')))"
    by (simp_all add: demo_request_def dkeys_def)
  show ?thesis
    using coalescing_sound[OF _ demo_id_inj _ _ refl, of demo_st1 "CHR ''h''" "[demo_request ''n'']" demo_sha None 0]
      demo_ok(2) demo_fresh req unfolding cl by (auto simp: ledger_ok_def)
qed

theorem cheapest_candidate_witness:
  "\<exists>d p. choose_deployment demo_sha None demo_st1 empty_plan_state (demo_request ''n'') = Some d
     \<and> (d, p) \<in> set (candidates demo_st1 empty_plan_state (compat_key demo_sha (demo_request ''n'')))"
proof -
  have "choose_deployment demo_sha None demo_st1 empty_plan_state (demo_request ''n'') \<noteq> None" by code_simp
  then show ?thesis
    using cheapest_candidate[where sha = demo_sha and resident = None and st = demo_st1
        and ps = empty_plan_state and req = "demo_request ''n''"] by (auto split: option.splits)
qed

theorem acquire_succeeds_witness:
  "\<exists>st' le ds. acquire demo_sha (demo_id CHR ''h'') 0 ''B'' ''o'' [demo_request ''n''] None
      (Some (plan_acquire demo_sha (demo_id CHR ''h'') None 0 [demo_request ''n''] demo_st1)) [] None None demo_st1
      = Inr (st', le, ds) \<and> lease_id le = ''B'' \<and> lease_endpoints le = [''n'']"
  using acquire_succeeds[OF demo_ok(2) _ _ refl refl refl demo_id_inj[of "CHR ''h''"], where sid = "''B''"
      and reqs = "[demo_request ''n'']" and sha = demo_sha and resident = None and t = 0 and ?t0.0 = 0
      and owner = "''o''" and ttl = None and al = "[]" and h = None and p = None]
    demo_fresh by (auto simp: demo_tables demo_request_def dkeys_def)

theorem virtual_expiry_is_sweep_witness: "active_leases_past (fst (sweep 5 demo_st2)) 5 = []"
  using virtual_expiry_is_sweep[OF demo_ok(3), of 5] by simp

theorem acquire_demand_witness: "demand demo_st2 ''g'' 0 = demand demo_st1 ''g'' 0 + 1"
proof -
  obtain le ds where 2: "acquire demo_sha (demo_id CHR ''h'') 0 ''B'' ''o'' [demo_request ''n''] None None [] None None demo_st1
     = Inr (demo_st2, le, ds)" using demo_acquires(2) by blast
  have cl: "ov_claims (plan_acquire demo_sha (demo_id CHR ''h'') None 0 [demo_request ''n''] demo_st1) = [(demo_request ''n'', ''g'')]"
    by code_simp
  show ?thesis
    using acquire_demand[OF demo_ok(2) refl refl _ _ 2[unfolded acquire_direct_eq], of "''g''" 0] demo_fresh
    by (simp add: cl)
qed

definition demo_st3 :: store where
  "demo_st3 = fst (release ''B'' 2 demo_st2)"

definition demo_st4 :: store where
  "demo_st4 = fst (evict_idle None 2 demo_st3)"

definition demo_st5 :: store where
  "demo_st5 = fst (renew ''A'' None [] 2 demo_st4)"

text \<open>At time 2 lease A is past its TTL; B was the deployment's only holder.\<close>

theorem release_effect_witness: "demand demo_st3 ''g'' 2 = card (holders demo_st2 ''g'' 2 - {''B''})"
proof -
  have "(case lease_at demo_st2 ''B'' of Some r \<Rightarrow> lr_state r \<noteq> Released | None \<Rightarrow> False)" by code_simp
  then obtain r where r: "lease_at demo_st2 ''B'' = Some r" "lr_state r \<noteq> Released" by (auto split: option.splits)
  show ?thesis
    using release_effect[OF demo_ok(3) r, of 2 demo_st3 "snd (release ''B'' 2 demo_st2)"] by (auto simp: demo_st3_def)
qed

theorem evict_exact_witness: "demand demo_st4 ''g'' 2 = demand demo_st3 ''g'' 2"
proof -
  have "ledger_ok demo_st3" using release_ok(1)[OF demo_ok(3)] by (simp add: demo_st3_def)
  from evict_exact[OF this, of None 2 demo_st4 "snd (evict_idle None 2 demo_st3)"]
  show ?thesis by (simp add: demo_st4_def)
qed

text \<open>
  A renewed lease may protect a stopped deployment. A lease that is past its TTL but not yet
  swept stays ACTIVE; when its deployment is then released by the last other holder and evicted,
  renewing it succeeds and leaves a protecting lease whose deployment is STOPPED. The invariant of
  protecting leases therefore needs the restriction on renewals.
\<close>

theorem renew_may_protect_stopped:
  "\<exists>st r d. reachable any_op (2, st) \<and> lease_at st ''A'' = Some r \<and> row_protects 2 r
     \<and> (\<exists>c \<in> set (st_claims st). cl_lease c = ''A'' \<and> cl_deployment c = dep_id d)
     \<and> dep_at st (dep_id d) = Some d \<and> dep_state d = Stopped"
proof -
  have "reachable any_op (2, demo_st2)"
    by (rule reachable.step[OF demo_any(2) _ ledger_step.tick]) (simp_all add: any_op_def)
  moreover have "ledger_step (Release ''B'') (2, demo_st2) (2, demo_st3)"
    by (rule ledger_step.release[where r = "snd (release ''B'' 2 demo_st2)"]) (simp add: demo_st3_def)
  moreover have "ledger_step (Evict None) (2, demo_st3) (2, demo_st4)"
    by (rule ledger_step.evict[where ids = "snd (evict_idle None 2 demo_st3)"]) (simp add: demo_st4_def)
  moreover have "ledger_step (Renew ''A'') (2, demo_st4) (2, demo_st5)"
    by (rule ledger_step.renew[where r = "snd (renew ''A'' None [] 2 demo_st4)"]) (simp add: demo_st5_def)
  ultimately have "reachable any_op (2, demo_st5)"
    by (meson reachable.step any_op_def)
  moreover have "(case (lease_at demo_st5 ''A'', dep_at demo_st5 ''g'') of
      (Some r, Some d) \<Rightarrow> row_protects 2 r \<and> dep_state d = Stopped \<and> dep_id d = ''g'' | _ \<Rightarrow> False)" by code_simp
  moreover have "\<exists>c \<in> set (st_claims demo_st5). cl_lease c = ''A'' \<and> cl_deployment c = ''g''" by code_simp
  ultimately obtain r d where "reachable any_op (2, demo_st5)" "lease_at demo_st5 ''A'' = Some r" "row_protects 2 r"
    "dep_at demo_st5 ''g'' = Some d" "dep_state d = Stopped" "dep_id d = ''g''"
    "\<exists>c \<in> set (st_claims demo_st5). cl_lease c = ''A'' \<and> cl_deployment c = dep_id d"
    by (auto split: option.splits)
  then show ?thesis by metis
qed

end
