(* ===== verification/Admission.thy ===== *)
theory Admission
  imports Demand Residency
begin

text \<open>
  Admission (\<open>leasing/controller.py\<close>, the methods from \<open>keeps_up\<close> to \<open>_unresolved_allocations\<close>, and
  the planning half of the Compose backend): what a render wants to run, which GPUs a candidate
  lease gets, and why it is refused.

  The backend is a parameter: \<open>preview\<close> places and renders the desired deployments (and, with
  \<open>approve\<close>, shows the result to the operator), or raises. What admission needs of its placement
  is the locale \<open>placer\<close>; \<open>compose_plan\<close>, the Compose backend's placement, is an instance of it.
  \<open>allocates\<close> is \<open>allocates_gpus(backend)\<close>; \<open>dflt\<close> is the controller's \<open>reclaim_default\<close>.
  The temporary \<open>assigned_gpus\<close> of adopted deployments are written into a copy of the overlay.
\<close>

section \<open>What a render wants\<close>

definition KEEP_WARM :: string where "KEEP_WARM = ''keep-warm''"

definition keeps_up :: "string \<Rightarrow> deployment \<Rightarrow> bool" where
  "keeps_up dflt d \<longleftrightarrow>
     (if dep_state d = Live then True
      else dep_state d = Idle
        \<and> (case sp_reclaim (dep_spec d) of Some r \<Rightarrow> r | None \<Rightarrow> dflt) = KEEP_WARM)"

record placement_inputs =
  pi_required_ids :: "string list"
  pi_hard :: "(string, int list) dict"
  pi_hints :: "(string, int list) dict"

record view =
  vw_required :: "deployment list"
  vw_hard :: "(string, int list) dict"
  vw_hints :: "(string, int list) dict"
  vw_optional :: "deployment list"

definition empty_view :: view where
  "empty_view = \<lparr>vw_required = [], vw_hard = [], vw_hints = [], vw_optional = []\<rparr>"

definition view_step :: "string \<Rightarrow> residency option \<Rightarrow> string list \<Rightarrow> string \<times> deployment \<Rightarrow> view \<Rightarrow> view" where
  "view_step dflt res fresh kv v =
     (let gid = fst kv; d = snd kv in
      if dep_state d = Live then
        (case dep_assigned_gpus d of
           Some gpus \<Rightarrow> v\<lparr>vw_required := vw_required v @ [d], vw_hard := vw_hard v @ [(gid, gpus)]\<rparr>
         | None \<Rightarrow> if gid \<in> set fresh then v\<lparr>vw_required := vw_required v @ [d]\<rparr> else v)
      else if dep_state d = Idle then
        (if \<not> keeps_up dflt d then v
         else (case Option.bind res (\<lambda>r. resident_gpus r gid) of
                 Some gpus \<Rightarrow> v\<lparr>vw_hints := vw_hints v @ [(gid, gpus)], vw_optional := vw_optional v @ [d]\<rparr>
               | None \<Rightarrow> v))
      else v)"

definition by_id :: "deployment list \<Rightarrow> overlay option \<Rightarrow> (string, deployment) dict" where
  "by_id deployments ov =
     fold (\<lambda>(gid, d). dput gid d) (case ov of None \<Rightarrow> [] | Some ov \<Rightarrow> ov_deployments ov)
       (fold (\<lambda>d. dput (dep_id d) d) deployments [])"

definition fresh_ids :: "overlay \<Rightarrow> string list" where
  "fresh_ids ov = dkeys (ov_created ov) @ ov_revived ov"

definition admission_view ::
    "string \<Rightarrow> bool \<Rightarrow> rat \<Rightarrow> store \<Rightarrow> residency option \<Rightarrow> overlay option
     \<Rightarrow> deployment list \<times> placement_inputs" where
  "admission_view dflt virtual_expiry now st res ov =
     (let deployments = snd (status virtual_expiry now st);
          fresh = (case ov of None \<Rightarrow> [] | Some ov \<Rightarrow> fresh_ids ov);
          v = fold (view_step dflt res fresh) (by_id deployments ov) empty_view
      in (vw_required v @ vw_optional v,
          \<lparr>pi_required_ids = map dep_id (vw_required v), pi_hard = vw_hard v, pi_hints = vw_hints v\<rparr>))"

section \<open>Allocations that predate admission\<close>

definition gpu_units :: "bool \<Rightarrow> deployment \<Rightarrow> nat" where
  "gpu_units allocates d = (if allocates then required_gpu_count d else 0)"

definition unresolved_allocations :: "bool \<Rightarrow> rat \<Rightarrow> store \<Rightarrow> string list \<Rightarrow> string list" where
  "unresolved_allocations allocates now st exclude =
     map dep_id (filter (\<lambda>d. dep_state d = Live \<and> dep_assigned_gpus d = None
       \<and> dep_id d \<notin> set exclude \<and> gpu_units allocates d > 0) (snd (status False now st)))"

text \<open>The GPUs of a unit whose reservation can be adopted.\<close>

definition adoptable_gpus :: "residency \<Rightarrow> string \<Rightarrow> int list option" where
  "adoptable_gpus res gid = (case unique_unit res gid of
      Some c \<Rightarrow> if \<not> c_all_gpus c \<and> c_gpus c \<noteq> [] then Some (c_gpus c) else None
    | None \<Rightarrow> None)"

fun backfill_loop :: "bool \<Rightarrow> residency \<Rightarrow> deployment list \<Rightarrow> store \<Rightarrow> store \<times> string list" where
  "backfill_loop allocates res [] st = (st, [])"
| "backfill_loop allocates res (d # ds) st =
     (if dep_state d \<noteq> Live \<or> dep_assigned_gpus d \<noteq> None then backfill_loop allocates res ds st
      else if gpu_units allocates d = 0
        then backfill_loop allocates res ds (set_allocation (dep_id d) (Some []) st)
      else (case adoptable_gpus res (dep_id d) of
              Some gpus \<Rightarrow> backfill_loop allocates res ds (set_allocation (dep_id d) (Some gpus) st)
            | None \<Rightarrow> map_prod id (Cons (dep_id d)) (backfill_loop allocates res ds st)))"

definition backfill_allocations :: "bool \<Rightarrow> residency \<Rightarrow> rat \<Rightarrow> store \<Rightarrow> store \<times> string list" where
  "backfill_allocations allocates res now st = backfill_loop allocates res (snd (status False now st)) st"

section \<open>Admitting a candidate lease\<close>

record rendered =
  rn_unrenderable :: "string list"
  rn_errors :: "string list"

datatype refusal =
    ResidencyUnreadable
  | NoNewGpuWhileUnresolved "string list"
  | ClaimsUnresolved string
  | LostGpus string
  | PlanError plan_error
  | NotPlaced string
  | RenderError string
  | NotRenderedBecause string string
  | NotRendered string
  | GpusHeldBy "(string \<times> int list \<times> string list) list"

record admission =
  ad_allocations :: "(string, int list) dict"
  ad_reasons :: "refusal list"
  ad_capacity :: bool
  ad_digest :: "string option"

definition refused :: "refusal \<Rightarrow> admission" where
  "refused r = \<lparr>ad_allocations = [], ad_reasons = [r], ad_capacity = False, ad_digest = None\<rparr>"

text \<open>The deployments the candidate would place, with the GPUs a revived one adopts.\<close>

definition to_place :: "bool \<Rightarrow> overlay \<Rightarrow> (string \<times> deployment) list" where
  "to_place allocates ov = filter (\<lambda>kv. fst kv \<in> set (fresh_ids ov) \<and> gpu_units allocates (snd kv) > 0) (ov_deployments ov)"

definition adopted_gpus :: "residency option \<Rightarrow> overlay \<Rightarrow> string \<Rightarrow> int list option" where
  "adopted_gpus res ov gid =
     (if gid \<in> set (ov_revived ov) then Option.bind res (\<lambda>r. adoptable_gpus r gid) else None)"

definition adopt_overlay :: "bool \<Rightarrow> residency option \<Rightarrow> overlay \<Rightarrow> overlay" where
  "adopt_overlay allocates res ov =
     ov\<lparr>ov_deployments := map (\<lambda>(gid, d).
         (gid, if (gid, d) \<in> set (to_place allocates ov) \<and> adopted_gpus res ov gid \<noteq> None
               then d\<lparr>dep_assigned_gpus := adopted_gpus res ov gid\<rparr> else d)) (ov_deployments ov)\<rparr>"

text \<open>An error of the plan starts with its deployment's id.\<close>

definition errors_of :: "string \<Rightarrow> gpu_plan \<Rightarrow> plan_error list" where
  "errors_of gid p = filter (\<lambda>e. is_prefix gid (fst e)) (gp_errors p)"

definition refusals_of ::
    "bool \<Rightarrow> string list \<Rightarrow> gpu_plan \<Rightarrow> rendered \<Rightarrow> string \<Rightarrow> refusal list \<times> bool" where
  "refusals_of allocates unresolved p r gid =
     (if gid \<in> set unresolved then ([ClaimsUnresolved gid], False)
      else if gid \<in> set (gp_degraded p) then ([LostGpus gid], True)
      else if dget (gp_assignments p) gid = None
        then (if errors_of gid p \<noteq> [] then map PlanError (errors_of gid p) else [NotPlaced gid], allocates)
      else if gid \<in> set (rn_unrenderable r) then
        (let named = filter (is_substring gid) (rn_errors r) in
         (if named \<noteq> [] then map RenderError named
          else if rn_errors r \<noteq> [] then map (NotRenderedBecause gid) (rn_errors r)
          else [NotRendered gid], False))
      else ([], False))"

definition owners_of :: "lease list \<Rightarrow> string \<Rightarrow> string list" where
  "owners_of leases gid = sort (remdups (map lease_owner
     (filter (\<lambda>le. lease_state le = Active \<and> gid \<in> set (lease_deployment_ids le)) leases)))"

definition gpu_holders :: "rat \<Rightarrow> store \<Rightarrow> gpu_plan \<Rightarrow> (string \<times> int list \<times> string list) list" where
  "gpu_holders now st p =
     (let leases = fst (status False now st) in
      List.map_filter (\<lambda>(gid, gpus). if gpus \<noteq> [] \<and> owners_of leases gid \<noteq> []
          then Some (gid, gpus, owners_of leases gid) else None)
        (sort_key snd (gp_assignments p)))"

definition decide_admission ::
    "bool \<Rightarrow> rat \<Rightarrow> store \<Rightarrow> overlay \<Rightarrow> gpu_plan \<Rightarrow> rendered \<Rightarrow> admission" where
  "decide_admission allocates now st ov p r =
     (let unresolved = unresolved_allocations allocates now st [];
          found = map (refusals_of allocates unresolved p r) (dkeys (ov_deployments ov));
          reasons = concat (map fst found);
          holders = (if reasons \<noteq> [] then gpu_holders now st p else [])
      in \<lparr>ad_allocations = map (\<lambda>gid. (gid, case dget (gp_assignments p) gid of Some w \<Rightarrow> w | None \<Rightarrow> []))
             (filter (\<lambda>gid. gid \<in> set (fresh_ids ov)) (dkeys (ov_deployments ov))),
          ad_reasons = reasons @ (if holders \<noteq> [] then [GpusHeldBy holders] else []),
          ad_capacity = list_ex snd found, ad_digest = None\<rparr>)"

definition admit_acquire ::
    "(bool \<Rightarrow> deployment list \<Rightarrow> placement_inputs \<Rightarrow> 'x + (gpu_plan \<times> rendered \<times> string option))
     \<Rightarrow> bool \<Rightarrow> string \<Rightarrow> rat \<Rightarrow> store \<Rightarrow> overlay \<Rightarrow> residency option \<Rightarrow> 'x + admission" where
  "admit_acquire preview allocates dflt now st ov res =
     (let need = filter (\<lambda>(gid, d). adopted_gpus res ov gid = None) (to_place allocates ov);
          blocked = (if need \<noteq> [] then unresolved_allocations allocates now st (dkeys (ov_deployments ov)) else [])
      in if res = None then Inr (refused ResidencyUnreadable)
         else if blocked \<noteq> [] then Inr (refused (NoNewGpuWhileUnresolved (take 3 blocked)))
         else
           (let ov' = adopt_overlay allocates res ov;
                (desired, inputs) = admission_view dflt False now st res (Some ov')
            in bind_err (preview False desired inputs) (\<lambda>(p, r, _).
                 let ad = decide_admission allocates now st ov p r in
                 if ad_reasons ad \<noteq> [] then Inr ad
                 else bind_err (preview True desired inputs) (\<lambda>(_, _, digest).
                        Inr (ad\<lparr>ad_digest := digest\<rparr>)))))"

section \<open>The Compose backend's placement\<close>

record placement_config =
  cf_inventory :: inventory
  cf_allowed :: "int list option"
  cf_reserved :: "int list"
  cf_skip_display :: bool

text \<open>
  \<open>_enrich_placement\<close>: VRAM facts for vLLM deployments; \<open>measured\<close> and \<open>floor_vram\<close> are what the
  measurement overlay and the model cache know.
\<close>

definition enrich_one :: "(deployment \<Rightarrow> rat option) \<Rightarrow> (deployment \<Rightarrow> rat option) \<Rightarrow> deployment \<Rightarrow> deployment" where
  "enrich_one measured floor_vram d =
     (if dep_engine d \<noteq> ''vllm'' then d
      else
        (let p = placement_of d;
             p = (if or_rat (pl_min_vram p) 0 = 0 \<and> or_rat (measured d) 0 \<noteq> 0
                  then p\<lparr>pl_min_vram := measured d, pl_source := Some ''measured''\<rparr> else p);
             p = (if or_rat (pl_floor_vram p) 0 = 0 \<and> or_rat (floor_vram d) 0 \<noteq> 0
                  then p\<lparr>pl_floor_vram := floor_vram d\<rparr> else p)
         in if p = default_placement then d
            else d\<lparr>dep_spec := (dep_spec d)\<lparr>sp_placement := Some p\<rparr>\<rparr>))"

definition admission_args :: "placement_config \<Rightarrow> (string, int list) dict \<Rightarrow> placement_inputs \<Rightarrow> plan_args" where
  "admission_args cf pinned i =
     \<lparr>pa_allowed_gpus = cf_allowed cf, pa_reserved = cf_reserved cf, pa_pinned = pinned,
      pa_skip_display = cf_skip_display cf, pa_required_ids = Some (pi_required_ids i),
      pa_hard = Some (pi_hard i), pa_hints = Some (pi_hints i)\<rparr>"

definition compose_plan ::
    "(deployment \<Rightarrow> rat option) \<Rightarrow> (deployment \<Rightarrow> rat option) \<Rightarrow> placement_config
     \<Rightarrow> (string, int list) dict \<Rightarrow> deployment list \<Rightarrow> placement_inputs \<Rightarrow> gpu_plan" where
  "compose_plan measured floor_vram cf pinned desired i =
     plan_placement (map (enrich_one measured floor_vram) desired) (cf_inventory cf) (admission_args cf pinned i)"

definition physical_gpus :: "placement_config \<Rightarrow> int list" where
  "physical_gpus cf = available_indices (cf_inventory cf) None (cf_reserved cf) (cf_skip_display cf)"

section \<open>The contract of a placement\<close>

locale placer =
  fixes place :: "deployment list \<Rightarrow> placement_inputs \<Rightarrow> gpu_plan" and physical :: "int list"
  assumes inside: "distinct (map dep_id ds) \<Longrightarrow> dget (gp_assignments (place ds i)) k = Some w
      \<Longrightarrow> set w \<subseteq> set physical"
    and apart: "distinct (map dep_id ds) \<Longrightarrow> k \<noteq> l \<Longrightarrow> dget (gp_assignments (place ds i)) k = Some w
      \<Longrightarrow> dget (gp_assignments (place ds i)) l = Some v \<Longrightarrow> set w \<inter> set v = {}"
    and kept: "distinct (map dep_id ds) \<Longrightarrow> valid_allocations physical (pi_hard i) ds \<Longrightarrow> d \<in> set ds
      \<Longrightarrow> dget (pi_hard i) (dep_id d) = Some w \<Longrightarrow> dget (gp_assignments (place ds i)) (dep_id d) = Some w"

lemma enrich_frame [simp]:
  "dep_id (enrich_one m f d) = dep_id d" "dep_created_at (enrich_one m f d) = dep_created_at d"
  by (simp_all add: enrich_one_def Let_def)

lemma valid_allocations_map:
  "(\<And>d. dep_id (g d) = dep_id d) \<Longrightarrow> valid_allocations P alloc (map g ds) = valid_allocations P alloc ds"
  by (simp add: valid_allocations_def)

interpretation compose: placer "compose_plan m f cf pinned" "physical_gpus cf" for m f cf pinned
proof
  fix ds :: "deployment list" and i :: placement_inputs and k :: string and w :: "int list"
  assume d: "distinct (map dep_id ds)"
  let ?ds = "map (enrich_one m f) ds" and ?a = "admission_args cf pinned i"
  have d': "distinct (map dep_id ?ds)" using d by (simp add: comp_def)
  have P: "plan_pin_pool (cf_inventory cf) ?a = physical_gpus cf"
    by (simp add: plan_pin_pool_def admission_args_def physical_gpus_def)
  have h: "or_list (pa_hard ?a) = pi_hard i" and m: "admission_mode ?a"
    by (simp_all add: admission_args_def or_list_def admission_mode_def)
  { assume "dget (gp_assignments (compose_plan m f cf pinned ds i)) k = Some w"
    then show "set w \<subseteq> set (physical_gpus cf)"
      using plan_physical[OF d', of "cf_inventory cf" ?a k w] P by (simp add: compose_plan_def) }
  { fix l v
    assume "k \<noteq> l" "dget (gp_assignments (compose_plan m f cf pinned ds i)) k = Some w"
      "dget (gp_assignments (compose_plan m f cf pinned ds i)) l = Some v"
    then show "set w \<inter> set v = {}" unfolding compose_plan_def by (rule plan_disjoint[OF d']) }
  { fix d w
    assume v: "valid_allocations (physical_gpus cf) (pi_hard i) ds" and m': "d \<in> set ds"
      and g: "dget (pi_hard i) (dep_id d) = Some w"
    have "valid_allocations (plan_pin_pool (cf_inventory cf) ?a) (or_list (pa_hard ?a)) ?ds"
      using v unfolding P h by (simp add: valid_allocations_map)
    from valid_hard_kept[OF d' m this] show "dget (gp_assignments (compose_plan m f cf pinned ds i)) (dep_id d) = Some w"
      using m' g h unfolding compose_plan_def by auto }
qed

text \<open>
  \<open>ComposeBackend.preview\<close>: placement, then the rest of the render, which is a parameter (it may
  raise, reports what it could not render and, with \<open>approve\<close>, the digest the operator accepted).
\<close>

definition compose_preview ::
    "(bool \<Rightarrow> deployment list \<Rightarrow> gpu_plan \<Rightarrow> 'x + (rendered \<times> string option))
     \<Rightarrow> (deployment list \<Rightarrow> placement_inputs \<Rightarrow> gpu_plan)
     \<Rightarrow> bool \<Rightarrow> deployment list \<Rightarrow> placement_inputs \<Rightarrow> 'x + (gpu_plan \<times> rendered \<times> string option)" where
  "compose_preview rdr place approve desired i =
     (let p = place desired i in bind_err (rdr approve desired p) (\<lambda>(r, digest). Inr (p, r, digest)))"

section \<open>Which GPUs are committed\<close>

definition allocation :: "store \<Rightarrow> string \<Rightarrow> int list option" where
  "allocation st g = Option.bind (dep_at st g) dep_assigned_gpus"

definition gpus_apart :: "int list \<Rightarrow> (string \<Rightarrow> int list option) \<Rightarrow> bool" where
  "gpus_apart P f \<longleftrightarrow> (\<forall>g w. f g = Some w \<longrightarrow> set w \<subseteq> set P) \<and>
     (\<forall>g h w v. g \<noteq> h \<longrightarrow> f g = Some w \<longrightarrow> f h = Some v \<longrightarrow> set w \<inter> set v = {})"

definition adopts :: "bool \<Rightarrow> residency option \<Rightarrow> overlay \<Rightarrow> string \<Rightarrow> int list option" where
  "adopts allocates res ov g =
     (case dget (ov_deployments ov) g of
        Some d \<Rightarrow> if (g, d) \<in> set (to_place allocates ov) then adopted_gpus res ov g else None
      | None \<Rightarrow> None)"

lemma allocation_live: "alloc_ok st \<Longrightarrow> allocation st g \<noteq> None \<Longrightarrow> live_at st g"
  by (cases "dep_at st g") (simp_all add: allocation_def alloc_ok_def live_at_def)

lemma gpus_apart_mono:
  "gpus_apart P f \<Longrightarrow> (\<And>g w. f' g = Some w \<Longrightarrow> f g = Some w) \<Longrightarrow> gpus_apart P f'"
  unfolding gpus_apart_def by blast

context placer
begin

text \<open>A placement is apart, and it extends hard allocations that are apart.\<close>

lemma placed_apart: "distinct (map dep_id ds) \<Longrightarrow> gpus_apart physical (dget (gp_assignments (place ds i)))"
  unfolding gpus_apart_def using inside apart by blast

lemma placed_extends:
  assumes "distinct (map dep_id ds)" and "gpus_apart physical (dget (pi_hard i))"
    and "dget (pi_hard i) g = Some w" and "g \<in> dep_id ` set ds"
  shows "dget (gp_assignments (place ds i)) g = Some w"
proof -
  have "valid_allocations physical (pi_hard i) ds"
    using assms(2) unfolding valid_allocations_def gpus_apart_def by blast
  then show ?thesis using kept[OF assms(1)] assms(3,4) by auto
qed

end

section \<open>The view of a candidate\<close>

lemma fold_dput_id:
  assumes "distinct (map dep_id ds)"
  shows "dget (fold (\<lambda>d. dput (dep_id d) d) ds m) g =
    (case find (\<lambda>d. dep_id d = g) ds of Some d \<Rightarrow> Some d | None \<Rightarrow> dget m g)"
  using assms
proof (induction ds arbitrary: m)
  case (Cons d ds)
  have "find (\<lambda>e. dep_id e = dep_id d) ds = None" using Cons.prems by (simp add: find_key_None)
  then show ?case using Cons by (auto split: option.split)
qed simp

lemma fold_dput_dict:
  assumes "distinct (dkeys kvs)"
  shows "dget (fold (\<lambda>(k, v). dput k v) kvs m) g = (case dget kvs g of Some v \<Rightarrow> Some v | None \<Rightarrow> dget m g)"
  using assms
proof (induction kvs arbitrary: m)
  case (Cons kv kvs)
  obtain k v where kv: "kv = (k, v)" by (cases kv)
  have "dget kvs k = None" using Cons.prems kv by (simp add: dget_None_iff) (simp add: dkeys_def)
  moreover have "distinct (dkeys kvs)" using Cons.prems by (simp add: dkeys_def)
  moreover have "dget (kv # kvs) g = (if g = k then Some v else dget kvs g)" using kv by (simp add: dget_def)
  ultimately show ?case using Cons.IH[of "dput k v m"] kv by (auto split: option.split)
qed simp

lemma fold_dput_keys:
  "distinct (dkeys m) \<Longrightarrow> distinct (dkeys (fold (\<lambda>x. dput (k x) (v x)) xs m))"
  by (induction xs arbitrary: m) auto

lemma by_id_distinct: "distinct (dkeys (by_id ds ov))"
  unfolding by_id_def case_prod_beta by (intro fold_dput_keys) simp

lemma by_id_dget:
  assumes "distinct (map dep_id ds)" and "\<And>o'. ov = Some o' \<Longrightarrow> distinct (dkeys (ov_deployments o'))"
  shows "dget (by_id ds ov) g = (case Option.bind ov (\<lambda>o'. dget (ov_deployments o') g) of
     Some d \<Rightarrow> Some d | None \<Rightarrow> find (\<lambda>d. dep_id d = g) ds)"
  using fold_dput_id[OF assms(1), of "[]" g] assms(2)
  by (cases ov) (simp_all add: by_id_def fold_dput_dict split: option.split)

definition hard_of :: "string \<times> deployment \<Rightarrow> (string \<times> int list) option" where
  "hard_of kv = (if dep_state (snd kv) = Live then map_option (Pair (fst kv)) (dep_assigned_gpus (snd kv)) else None)"

definition required_of :: "string list \<Rightarrow> string \<times> deployment \<Rightarrow> bool" where
  "required_of fresh kv \<longleftrightarrow> dep_state (snd kv) = Live \<and> (dep_assigned_gpus (snd kv) \<noteq> None \<or> fst kv \<in> set fresh)"

definition optional_of :: "string \<Rightarrow> residency option \<Rightarrow> string \<times> deployment \<Rightarrow> bool" where
  "optional_of dflt res kv \<longleftrightarrow> dep_state (snd kv) = Idle \<and> keeps_up dflt (snd kv)
     \<and> Option.bind res (\<lambda>r. resident_gpus r (fst kv)) \<noteq> None"

lemma view_fold:
  "vw_hard (fold (view_step dflt res fresh) kvs v) = vw_hard v @ List.map_filter hard_of kvs"
  "vw_required (fold (view_step dflt res fresh) kvs v) = vw_required v @ map snd (filter (required_of fresh) kvs)"
  "vw_optional (fold (view_step dflt res fresh) kvs v) = vw_optional v @ map snd (filter (optional_of dflt res) kvs)"
  by (induction kvs arbitrary: v)
     (auto simp: view_step_def Let_def hard_of_def required_of_def optional_of_def List.map_filter_simps
        split: option.splits)

lemma dget_map_filter_hard:
  "distinct (dkeys kvs) \<Longrightarrow> dget (List.map_filter hard_of kvs) g =
    Option.bind (dget kvs g) (\<lambda>d. if dep_state d = Live then dep_assigned_gpus d else None)"
proof (induction kvs)
  case (Cons kv kvs)
  obtain k d where kv: "kv = (k, d)" by (cases kv)
  have "dget kvs k = None" using Cons.prems kv by (simp add: dget_None_iff) (simp add: dkeys_def)
  then show ?case using Cons kv
    by (cases "dep_assigned_gpus d") (auto simp: List.map_filter_simps hard_of_def dget_def dkeys_def)
qed (simp add: List.map_filter_simps)

lemma view_ids_distinct:
  assumes "distinct (dkeys kvs)" and "\<And>g d. (g, d) \<in> set kvs \<Longrightarrow> dep_id d = g"
    and "\<And>kv. \<not> (p kv \<and> q kv)"
  shows "distinct (map dep_id (map snd (filter p kvs) @ map snd (filter q kvs)))"
proof -
  have m: "map dep_id (map snd (filter r kvs)) = map fst (filter r kvs)" for r
    using assms(2) by auto
  have d: "distinct (map fst kvs)" using assms(1) by (simp add: dkeys_def)
  have "distinct (map fst (filter p kvs))" "distinct (map fst (filter q kvs))"
    using d by (simp_all add: distinct_map_filterI)
  moreover have "fst ` set (filter p kvs) \<inter> fst ` set (filter q kvs) = {}"
    using assms(3) eq_key_imp_eq_value[OF d] by fastforce
  ultimately show ?thesis unfolding map_append m by (simp add: image_set[symmetric] del: set_filter)
qed

lemma view_facts:
  assumes ds: "distinct (map dep_id (snd (status False now st)))"
    and ov: "distinct (dkeys (ov_deployments ov))" "\<And>g d. (g, d) \<in> set (ov_deployments ov) \<Longrightarrow> dep_id d = g"
    and v: "admission_view dflt False now st res (Some ov) = (desired, inputs)"
  shows "distinct (map dep_id desired)"
    and "dget (pi_hard inputs) g = Option.bind (dget (by_id (snd (status False now st)) (Some ov)) g)
           (\<lambda>d. if dep_state d = Live then dep_assigned_gpus d else None)"
    and "dget (pi_hard inputs) g \<noteq> None \<Longrightarrow> g \<in> dep_id ` set desired"
proof -
  let ?b = "by_id (snd (status False now st)) (Some ov)"
  have d: "distinct (dkeys ?b)" by (rule by_id_distinct)
  have id: "dep_id e = k" if "(k, e) \<in> set ?b" for k e
  proof -
    have "dget ?b k = Some e" by (rule dget_distinct[OF d that])
    then have "dget (ov_deployments ov) k = Some e \<or> find (\<lambda>d. dep_id d = k) (snd (status False now st)) = Some e"
      using by_id_dget[OF ds, of "Some ov" k] ov(1) by (auto split: option.splits)
    then show ?thesis using ov(2) dget_SomeD find_SomeD by fastforce
  qed
  have eq: "desired = map snd (filter (required_of (fresh_ids ov)) ?b) @ map snd (filter (optional_of dflt res) ?b)"
    "pi_hard inputs = List.map_filter hard_of ?b"
    using v by (auto simp: admission_view_def Let_def view_fold empty_view_def)
  show "distinct (map dep_id desired)" unfolding eq
    by (rule view_ids_distinct[OF d id]) (auto simp: required_of_def optional_of_def)
  show h: "dget (pi_hard inputs) g = Option.bind (dget ?b g)
      (\<lambda>d. if dep_state d = Live then dep_assigned_gpus d else None)"
    unfolding eq by (rule dget_map_filter_hard[OF d])
  show "g \<in> dep_id ` set desired" if "dget (pi_hard inputs) g \<noteq> None"
  proof -
    note m = that[unfolded h]
    obtain e where e: "dget ?b g = Some e" "dep_state e = Live" "dep_assigned_gpus e \<noteq> None"
      using m by (cases "dget ?b g") (auto split: if_splits)
    have "(g, e) \<in> set ?b" by (rule dget_SomeD[OF e(1)])
    moreover have "dep_id e = g" by (rule id[OF calculation])
    ultimately show ?thesis unfolding eq using e(2,3) by (force simp: required_of_def)
  qed
qed

section \<open>The allocations of an overlay\<close>

text \<open>An object of the plan's view holds the stored allocation, unless its placement is new.\<close>

definition ps_gpus :: "store \<Rightarrow> plan_state \<Rightarrow> bool" where
  "ps_gpus st ps \<longleftrightarrow> (\<forall>g d. dget (ps_view ps) g = Some d \<longrightarrow> dep_assigned_gpus d =
     (if g \<in> set (dkeys (ps_created ps)) \<or> g \<in> set (ps_revived ps) then None else allocation st g))"

lemma plan_request_ps_gpus:
  assumes d: "distinct (dep_ids st)" and ok: "ps_ok st ps" and g: "ps_gpus st ps"
  shows "ps_gpus st (plan_request sha new_id resident now st req ps)"
proof (cases "choose_deployment sha resident st ps req")
  case None
  then show ?thesis using g
    by (auto simp: plan_request_def create_deployment_def ps_gpus_def new_deployment_def Let_def)
next
  case (Some e)
  obtain p where p: "(e, p) \<in> set (candidates st ps (compat_key sha req))"
    using choose_candidate[OF Some] by blast
  have idle: "idle_at st x" if "x \<in> set (ps_revived ps)" for x using that ok by (simp add: ps_ok_def)
  let ?ps = "join_deployment req e ps" and ?g = "dep_id e"
  have gpus: "dep_assigned_gpus (serve req (revive e)) =
      (if ?g \<in> set (dkeys (ps_created ?ps)) \<or> ?g \<in> set (ps_revived ?ps) then None else allocation st ?g)"
  proof (cases rule: candidates_cases[OF d ok p])
    case 1
    have "dep_state e = Live" using ok 1 unfolding ps_ok_def by blast
    then show ?thesis using g 1 by (simp add: ps_gpus_def)
  next
    case 2
    have "?g \<in> set (dep_ids st)" using 2(2) deps.look_None by (metis option.distinct(1))
    then have "?g \<notin> set (dkeys (ps_created ps))" using ok by (metis in_dkeysE ps_ok_def)
    then show ?thesis using 2 idle[of ?g]
      by (cases "dep_state e") (auto simp: allocation_def idle_at_def revive_def)
  next
    case 3
    have "dep_state e = Live \<and> dep_assigned_gpus e = None" using ok 3 unfolding ps_ok_def by blast
    then show ?thesis using dget_in_dkeys[OF 3] by simp
  qed
  have "ps_gpus st ?ps"
    unfolding ps_gpus_def
  proof (intro allI impI)
    fix x d assume x: "dget (ps_view ?ps) x = Some d"
    show "dep_assigned_gpus d = (if x \<in> set (dkeys (ps_created ?ps)) \<or> x \<in> set (ps_revived ?ps)
        then None else allocation st x)"
    proof (cases "x = ?g")
      case True
      then show ?thesis using x gpus by simp
    next
      case False
      then have "dget (ps_view ps) x = Some d" using x by simp
      moreover have "x \<in> set (dkeys (ps_created ?ps)) \<longleftrightarrow> x \<in> set (dkeys (ps_created ps))"
        "x \<in> set (ps_revived ?ps) \<longleftrightarrow> x \<in> set (ps_revived ps)" using False by auto
      ultimately show ?thesis using g unfolding ps_gpus_def by presburger
    qed
  qed
  then show ?thesis using Some by (simp add: plan_request_def)
qed

lemma planned_gpus:
  assumes "distinct (dep_ids st)" and "\<And>n. new_id n \<notin> set (dep_ids st)"
  shows "ps_gpus st (planned sha new_id resident now reqs st)"
proof -
  have "ps_ok st (planned sha new_id resident now reqs st) \<and> ps_gpus st (planned sha new_id resident now reqs st)"
    unfolding planned_def
  proof (rule fold_invariant2[where I = "\<lambda>ps. ps_ok st ps \<and> ps_gpus st ps"])
    show "ps_ok st empty_plan_state \<and> ps_gpus st empty_plan_state"
      by (simp add: ps_ok_empty) (simp add: ps_gpus_def empty_plan_state_def)
    fix r ps assume "ps_ok st ps \<and> ps_gpus st ps"
    then show "ps_ok st (plan_request sha new_id resident now st r ps) \<and>
        ps_gpus st (plan_request sha new_id resident now st r ps)"
      using plan_request_ps_ok[OF assms(1) _ assms(2)] plan_request_ps_gpus[OF assms(1)] by simp
  qed
  then show ?thesis ..
qed

lemma dkeys_map_filter: "distinct ks \<Longrightarrow> distinct (dkeys (List.map_filter (\<lambda>k. map_option (Pair k) (f k)) ks))"
proof -
  have "dkeys (List.map_filter (\<lambda>k. map_option (Pair k) (f k)) ks) = filter (\<lambda>k. f k \<noteq> None) ks"
    by (induction ks) (auto simp: List.map_filter_simps dkeys_def split: option.split)
  then show "distinct ks \<Longrightarrow> ?thesis" by simp
qed

text \<open>What the deployments of an overlay are.\<close>

lemma overlay_deployments:
  assumes "distinct (dep_ids st)" and "\<And>n. new_id n \<notin> set (dep_ids st)"
    and ov: "ov = plan_acquire sha new_id resident now reqs st"
  shows "distinct (dkeys (ov_deployments ov))"
    and "dget (ov_deployments ov) g = Some d \<Longrightarrow> dep_id d = g \<and> dep_state d = Live \<and>
       dep_assigned_gpus d = (if g \<in> set (fresh_ids ov) then None else allocation st g)"
    and "g \<in> set (fresh_ids ov) \<Longrightarrow> g \<in> set (dkeys (ov_deployments ov)) \<and> \<not> live_at st g"
proof -
  let ?ps = "planned sha new_id resident now reqs st"
  have ok: "ps_ok st ?ps" by (rule planned_ok[OF assms(1,2)])
  have gp: "ps_gpus st ?ps" by (rule planned_gpus[OF assms(1,2)])
  have f: "fresh_ids ov = dkeys (ps_created ?ps) @ ps_revived ?ps"
    by (simp add: fresh_ids_def ov plan_acquire_fields)
  show "distinct (dkeys (ov_deployments ov))"
    unfolding ov plan_acquire_def Let_def by (simp add: dkeys_map_filter)
  show "dep_id d = g \<and> dep_state d = Live \<and>
       dep_assigned_gpus d = (if g \<in> set (fresh_ids ov) then None else allocation st g)"
    if "dget (ov_deployments ov) g = Some d"
  proof -
    have "dget (ps_view ?ps) g = Some d"
      using that unfolding ov ov_deployments_view Let_def by (simp split: if_splits)
    then show ?thesis using ok gp unfolding f ps_ok_def ps_gpus_def by simp
  qed
  show "g \<in> set (dkeys (ov_deployments ov)) \<and> \<not> live_at st g" if "g \<in> set (fresh_ids ov)"
  proof -
    have c: "g \<in> snd ` set (ps_claims ?ps)" and n: "\<not> live_at st g"
      using that ok deps.look_None[of st g] unfolding f ps_ok_def
      by (auto elim!: in_dkeysE simp: live_at_def idle_at_def split: option.splits)
    have "dget (ps_view ?ps) g \<noteq> None" using c ok unfolding ps_ok_def by auto
    then have "dget (ov_deployments ov) g \<noteq> None" unfolding ov ov_deployments_view Let_def using c by simp
    then have "g \<in> set (dkeys (ov_deployments ov))" unfolding dget_None_iff by simp
    then show ?thesis using n by simp
  qed
qed

text \<open>The overlay after adoption differs in the allocations of the adopted deployments.\<close>

lemma adopt_overlay_dget:
  assumes "distinct (dkeys (ov_deployments ov))"
  shows "dget (ov_deployments (adopt_overlay al res ov)) g =
      map_option (\<lambda>d. case adopts al res ov g of None \<Rightarrow> d | Some w \<Rightarrow> d\<lparr>dep_assigned_gpus := Some w\<rparr>)
        (dget (ov_deployments ov) g)"
    and "dkeys (ov_deployments (adopt_overlay al res ov)) = dkeys (ov_deployments ov)"
proof -
  show "dkeys (ov_deployments (adopt_overlay al res ov)) = dkeys (ov_deployments ov)"
    by (simp add: adopt_overlay_def dkeys_def case_prod_beta comp_def)
  define h where "h k d = (if (k, d) \<in> set (to_place al ov) \<and> adopted_gpus res ov k \<noteq> None
      then d\<lparr>dep_assigned_gpus := adopted_gpus res ov k\<rparr> else d)" for k d
  have m: "dget (map (\<lambda>(k, d). (k, h k d)) kvs) g = map_option (h g) (dget kvs g)" for kvs
    by (induction kvs) (auto simp: dget_def)
  have "ov_deployments (adopt_overlay al res ov) = map (\<lambda>(k, d). (k, h k d)) (ov_deployments ov)"
    by (simp add: adopt_overlay_def h_def)
  then have "dget (ov_deployments (adopt_overlay al res ov)) g = map_option (h g) (dget (ov_deployments ov) g)"
    by (simp only: m)
  then show "dget (ov_deployments (adopt_overlay al res ov)) g =
      map_option (\<lambda>d. case adopts al res ov g of None \<Rightarrow> d | Some w \<Rightarrow> d\<lparr>dep_assigned_gpus := Some w\<rparr>)
        (dget (ov_deployments ov) g)"
    by (cases "dget (ov_deployments ov) g") (auto simp: adopts_def h_def split: option.split)
qed

section \<open>The allocations after a committed acquire\<close>

lemma allocate_all_gpus:
  assumes "distinct (dkeys al)"
  shows "map_option dep_assigned_gpus (dep_at (allocate_all al st) g) =
    (case dget al g of None \<Rightarrow> map_option dep_assigned_gpus (dep_at st g)
       | Some w \<Rightarrow> map_option (\<lambda>_. Some w) (dep_at st g))"
  using assms
proof (induction al arbitrary: st)
  case Nil
  then show ?case by (simp add: allocate_all_def)
next
  case (Cons kw al)
  obtain k w where kw: "kw = (k, w)" by (cases kw)
  let ?st = "set_deployment_allocation k (Some w) st"
  have k: "dget al k = None" and d: "distinct (dkeys al)"
    using Cons.prems kw by (simp_all add: dget_None_iff) (simp_all add: dkeys_def)
  have "allocate_all (kw # al) st = allocate_all al ?st" by (simp add: allocate_all_def kw)
  moreover have "dep_at ?st g = (if g = k then map_option (\<lambda>d. d\<lparr>dep_assigned_gpus := Some w\<rparr>) (dep_at st k) else dep_at st g)"
    by (simp add: set_deployment_allocation_upd deps.look_upd)
  moreover have "dget (kw # al) g = (if g = k then Some w else dget al g)" by (simp add: dget_def kw)
  ultimately show ?case using Cons.IH[OF d, of ?st] k
    by (cases "g = k"; cases "dep_at st k"; cases "dget al g") simp_all
qed

lemma allocation_after_acquire:
  assumes ov: "overlay_ok st ov" and al: "distinct (dkeys al)"
  shows "allocation (after_acquire sid owner ttl ov al h p st) g =
    (case dget al g of None \<Rightarrow> allocation st g
     | Some w \<Rightarrow> if dep_at (after_acquire sid owner ttl ov al h p st) g = None then None else Some w)"
proof -
  let ?m = "move_all Live (ov_now ov) (ov_revived ov) (with_rows sid owner ttl ov st)"
  have row: "allocation s g = Option.bind (map_option dep_assigned_gpus (dep_at s g)) (\<lambda>x. x)" for s
    by (cases "dep_at s g") (simp_all add: allocation_def)
  have w: "allocation (with_rows sid owner ttl ov st) g = allocation st g"
  proof -
    have "dep_assigned_gpus d = None" if "dget (ov_created ov) g = Some d" for d
      using ov dget_SomeD[OF that] by (auto simp: overlay_ok_def)
    then show ?thesis
      by (cases "dget (ov_created ov) g") (auto simp: allocation_def dep_at_with_rows[OF ov] split: option.split)
  qed
  have m: "allocation ?m g = allocation st g"
    unfolding w[symmetric] by (cases "dep_at (with_rows sid owner ttl ov st) g") (simp_all add: allocation_def dep_at_move_all)
  have s: "map_option dep_assigned_gpus (dep_at (serve_all u t s) g) = map_option dep_assigned_gpus (dep_at s g)" for u t s
    by (rule serve_all_row) simp
  have a: "map_option dep_assigned_gpus (dep_at (after_acquire sid owner ttl ov al h p st) g) =
      (case dget al g of None \<Rightarrow> map_option dep_assigned_gpus (dep_at ?m g)
       | Some w \<Rightarrow> map_option (\<lambda>_. Some w) (dep_at (serve_all (ov_served_updates ov) (ov_now ov) ?m) g))"
    by (simp add: acquired_def allocate_all_gpus[OF al] s split: option.split)
  have "dep_at (after_acquire sid owner ttl ov al h p st) g = None \<longleftrightarrow>
      dep_at (serve_all (ov_served_updates ov) (ov_now ov) ?m) g = None" if "dget al g \<noteq> None"
    using that a[THEN arg_cong[where f = "\<lambda>m. m = None"]] by (cases "dget al g") simp_all
  then show ?thesis
    unfolding row[of "after_acquire sid owner ttl ov al h p st"] a
    by (cases "dget al g"; cases "dep_at (serve_all (ov_served_updates ov) (ov_now ov) ?m) g")
       (simp_all add: row[symmetric] m)
qed

lemma status_find:
  assumes "distinct (dep_ids st)"
  shows "find (\<lambda>d. dep_id d = g) (snd (status False now st)) =
      map_option (\<lambda>d. d\<lparr>dep_demand := demand st g now\<rparr>) (dep_at st g)"
    and "distinct (map dep_id (snd (status False now st)))"
proof -
  let ?ds = "list_deployments st now"
  have s: "snd (status False now st) = ?ds" by (simp add: status_def)
  have ids: "map dep_id ?ds = map dep_id (sort_key dep_created_at (st_deployments st))"
    by (simp add: list_deployments_def)
  have "mset (map dep_id ?ds) = mset (dep_ids st)" unfolding ids by (simp add: dep_ids_def)
  then show d: "distinct (map dep_id (snd (status False now st)))"
    unfolding s using assms by (metis mset_eq_imp_distinct_iff)
  show "find (\<lambda>d. dep_id d = g) (snd (status False now st)) =
      map_option (\<lambda>d. d\<lparr>dep_demand := demand st g now\<rparr>) (dep_at st g)"
  proof (cases "dep_at st g")
    case None
    then have "g \<notin> set (dep_ids st)" by (simp add: deps.look_None)
    then show ?thesis unfolding s using None by (auto simp: find_None_iff list_deployments_def dep_ids_def)
  next
    case (Some d)
    let ?d = "d\<lparr>dep_demand := demand st g now\<rparr>"
    have "?d \<in> set ?ds" using dep_at_mem[OF Some] dep_at_id[OF Some] by (auto simp: list_deployments_def)
    moreover have "dep_id ?d = g" using dep_at_id[OF Some] by simp
    ultimately show ?thesis unfolding s using find_key_unique[OF d[unfolded s], of ?d] Some by simp
  qed
qed

text \<open>The hard allocations of a candidate's view: the committed ones and the adopted ones.\<close>

lemma view_hard:
  assumes dd: "distinct (dep_ids st)" and al: "alloc_ok st" and new: "\<And>n. new_id n \<notin> set (dep_ids st)"
    and ov: "ov = plan_acquire sha new_id resident t0 reqs st"
    and v: "admission_view dflt False now st res (Some (adopt_overlay True res ov)) = (desired, inputs)"
  shows "distinct (map dep_id desired)"
    and "dget (pi_hard inputs) g = (case adopts True res ov g of Some w \<Rightarrow> Some w | None \<Rightarrow> allocation st g)"
    and "dget (pi_hard inputs) g \<noteq> None \<Longrightarrow> g \<in> dep_id ` set desired"
proof -
  note O = overlay_deployments[OF dd new ov]
  let ?ov = "adopt_overlay True res ov"
  note A = adopt_overlay_dget[OF O(1), of True res]
  have o1: "distinct (dkeys (ov_deployments ?ov))" using A(2) O(1) by simp
  have o2: "dep_id d = k" if "(k, d) \<in> set (ov_deployments ?ov)" for k d
  proof -
    have "dget (ov_deployments ?ov) k = Some d" by (rule dget_distinct[OF o1 that])
    then obtain e where e: "dget (ov_deployments ov) k = Some e"
      and d: "d = (case adopts True res ov k of None \<Rightarrow> e | Some w \<Rightarrow> e\<lparr>dep_assigned_gpus := Some w\<rparr>)"
      unfolding A(1) by blast
    then show ?thesis using O(2)[OF e] by (simp split: option.splits)
  qed
  note V = view_facts[OF status_find(2)[OF dd] o1 o2 v]
  show "distinct (map dep_id desired)" by (rule V(1))
  show "dget (pi_hard inputs) g \<noteq> None \<Longrightarrow> g \<in> dep_id ` set desired" by (rule V(3))
  have b: "dget (by_id (snd (status False now st)) (Some ?ov)) g = (case dget (ov_deployments ?ov) g of
      Some d \<Rightarrow> Some d | None \<Rightarrow> map_option (\<lambda>d. d\<lparr>dep_demand := demand st g now\<rparr>) (dep_at st g))"
    using by_id_dget[OF status_find(2)[OF dd], of "Some ?ov" now g] o1
    unfolding status_find(1)[OF dd] by simp
  note hd = V(2)[of g, unfolded b]
  show "dget (pi_hard inputs) g = (case adopts True res ov g of Some w \<Rightarrow> Some w | None \<Rightarrow> allocation st g)"
  proof (cases "dget (ov_deployments ov) g")
    case None
    then have "adopts True res ov g = None" by (simp add: adopts_def)
    moreover have "dep_state d = Live" if "dep_at st g = Some d" "dep_assigned_gpus d \<noteq> None" for d
      using al that by (simp add: alloc_ok_def)
    ultimately show ?thesis using None A(1)[of g] hd
      by (cases "dep_at st g") (auto simp: allocation_def, metis not_Some_eq)
  next
    case (Some d)
    have fr: "\<not> live_at st g" if "g \<in> set (fresh_ids ov)" using O(3)[OF that] by simp
    have na: "allocation st g = None" if "g \<in> set (fresh_ids ov)"
      using fr[OF that] allocation_live[OF al] by blast
    have ad: "g \<in> set (fresh_ids ov)" if "adopts True res ov g \<noteq> None"
      using that Some by (auto simp: adopts_def to_place_def split: if_splits)
    have "dget (ov_deployments ?ov) g = Some (case adopts True res ov g of None \<Rightarrow> d
        | Some w \<Rightarrow> d\<lparr>dep_assigned_gpus := Some w\<rparr>)" using A(1)[of g] Some by simp
    then show ?thesis using hd O(2)[OF Some] na
      by (cases "adopts True res ov g") (auto split: if_splits)
  qed
qed

lemma status_cong_deployments:
  assumes "st_deployments st0 = st_deployments st"
  shows "dep_at st0 = dep_at st" "dep_ids st0 = dep_ids st" "allocation st0 = allocation st"
  using assms by (auto simp: dep_at_def dep_ids_def allocation_def fun_eq_iff)

lemma admitted_decision:
  assumes "admit_acquire preview al dflt now st ov res = Inr ad" and "ad_reasons ad = []"
  shows "\<exists>desired inputs p r h. admission_view dflt False now st res (Some (adopt_overlay al res ov)) = (desired, inputs)
    \<and> preview False desired inputs = Inr (p, r, h)
    \<and> ad_allocations ad = ad_allocations (decide_admission al now st ov p r)
    \<and> ad_reasons (decide_admission al now st ov p r) = []"
  using assms
  by (auto simp: admit_acquire_def Let_def refused_def bind_err_Inr split: if_splits prod.splits)

text \<open>With no refusal every claimed deployment has a placement.\<close>

lemma decided_placed:
  assumes "ad_reasons (decide_admission al now st ov p r) = []" and "g \<in> set (dkeys (ov_deployments ov))"
  shows "dget (gp_assignments p) g \<noteq> None"
proof -
  have "fst (refusals_of al (unresolved_allocations al now st []) p r g) = []"
    using assms by (simp add: decide_admission_def Let_def)
  then show ?thesis by (auto simp: refusals_of_def split: if_splits)
qed

lemma dget_map_key: "dget (map (\<lambda>g. (g, f g)) (filter q ks)) g = (if g \<in> set ks \<and> q g then Some (f g) else None)"
  by (induction ks) (auto simp: dget_def)

lemma decided_allocations:
  "dget (ad_allocations (decide_admission al now st ov p r)) g =
    (if g \<in> set (dkeys (ov_deployments ov)) \<and> g \<in> set (fresh_ids ov)
     then Some (case dget (gp_assignments p) g of Some w \<Rightarrow> w | None \<Rightarrow> []) else None)"
  "distinct (dkeys (ov_deployments ov)) \<Longrightarrow> distinct (dkeys (ad_allocations (decide_admission al now st ov p r)))"
  by (simp_all add: decide_admission_def Let_def dget_map_key dkeys_def comp_def)

context placer
begin

lemma admitted_apart:
  assumes ok: "ledger_ok st" and ov: "ov = plan_acquire sha new_id resident t0 reqs st0"
    and same: "st_deployments st0 = st_deployments st" and new: "\<forall>n. new_id n \<notin> set (dep_ids st)"
    and pre: "gpus_apart physical (\<lambda>g. case adopts True res ov g of Some w \<Rightarrow> Some w | None \<Rightarrow> allocation st g)"
    and ad: "admit_acquire (compose_preview rdr place) True dflt now st0 ov res = Inr ad" "ad_reasons ad = []"
    and acq: "acquire sha new_id t sid owner reqs ttl (Some ov) (ad_allocations ad) h p st = Inr (st', le, ds)"
  shows "gpus_apart physical (allocation st')"
    and "allocation st g = Some w \<Longrightarrow> allocation st' g = Some w"
    and "g \<in> set (fresh_ids ov) \<Longrightarrow> allocation st' g \<noteq> None"
proof -
  note c = status_cong_deployments[OF same]
  have dd: "distinct (dep_ids st0)" and ao: "alloc_ok st0"
    using ok c by (simp_all add: ledger_ok_def refs_ok_def alloc_ok_def)
  have new0: "new_id n \<notin> set (dep_ids st0)" for n using new c(2) by simp
  note O = overlay_deployments[OF dd new0 ov]
  obtain desired inputs q r dig where v: "admission_view dflt False now st0 res (Some (adopt_overlay True res ov)) = (desired, inputs)"
    and pv: "compose_preview rdr place False desired inputs = Inr (q, r, dig)"
    and al: "ad_allocations ad = ad_allocations (decide_admission True now st0 ov q r)"
    and rs: "ad_reasons (decide_admission True now st0 ov q r) = []"
    using admitted_decision[OF ad] by blast
  have q: "q = place desired inputs" using pv by (auto simp: compose_preview_def Let_def bind_err_Inr)
  note V = view_hard[OF dd ao new0 ov v]
  have hard: "gpus_apart physical (dget (pi_hard inputs))"
    using pre unfolding gpus_apart_def V(2) c(3) .
  have fa: "distinct (dkeys (ad_allocations ad))" unfolding al by (rule decided_allocations(2)[OF O(1)])
  have sub: "set (dkeys (ad_allocations ad)) \<subseteq> set (dkeys (ov_created ov)) \<union> set (ov_revived ov)"
  proof
    fix k assume "k \<in> set (dkeys (ad_allocations ad))"
    then show "k \<in> set (dkeys (ov_created ov)) \<union> set (ov_revived ov)"
      using dget_None_iff[of "ad_allocations ad" k]
      unfolding al decided_allocations(1) by (auto simp: fresh_ids_def split: if_splits)
  qed
  note A = acquire_step_ok[OF ok acq ov same new sub]
  note R = allocation_after_acquire[OF A(1) fa, of sid owner ttl h p, folded A(2)]
  have live: "live_at st' k" if "k \<in> set (fresh_ids ov)" for k
    using that A(1,4) deps.look_None[of st k]
    unfolding A(2) live_at_after_acquire[OF A(1)] fresh_ids_def by auto
  have given: "dget (ad_allocations ad) k = dget (gp_assignments q) k \<and> dget (gp_assignments q) k \<noteq> None"
    if "k \<in> set (fresh_ids ov)" for k
    using O(3)[OF that] decided_placed[OF rs, of k] that unfolding al decided_allocations(1) by auto
  have gone: "dget (ad_allocations ad) k = None" if "k \<notin> set (fresh_ids ov)" for k
    unfolding al decided_allocations(1) using that by simp
  have kept: "dget (gp_assignments q) k = Some w \<and> k \<notin> set (fresh_ids ov)" if "allocation st k = Some w" for k w
  proof -
    have "live_at st k" using that ok allocation_live[of st k] by (simp add: ledger_ok_def)
    then have nf: "k \<notin> set (fresh_ids ov)" using O(3)[of k] c(1) by (auto simp: live_at_def)
    then have "adopts True res ov k = None"
      by (auto simp: adopts_def to_place_def split: option.split)
    then have "dget (pi_hard inputs) k = Some w" using V(2)[of k] that c(3) by simp
    then show ?thesis using placed_extends[OF V(1) hard _ V(3)] nf unfolding q by simp
  qed
  show "allocation st' k = Some w" if "allocation st k = Some w" for k w
    using R[of k] gone[of k] kept[OF that] that by simp
  have "dget (gp_assignments q) k = Some w" if "allocation st' k = Some w" for k w
  proof (cases "k \<in> set (fresh_ids ov)")
    case True
    then show ?thesis using R[of k] given[OF True] that by (auto split: option.splits if_splits)
  next
    case False
    then show ?thesis using R[of k] gone[OF False] kept[of k w] that by simp
  qed
  then show "gpus_apart physical (allocation st')"
    using gpus_apart_mono[OF placed_apart[OF V(1)]] unfolding q by blast
  show "allocation st' g \<noteq> None" if "g \<in> set (fresh_ids ov)"
    using given[OF that] R[of g] live[OF that] by (auto simp: live_at_def split: option.splits)
qed

end

section \<open>Admission keeps GPUs apart\<close>

text \<open>
  C2. An admitted acquire keeps GPUs apart. If the committed allocations, together with the GPUs
  of the resident containers the candidate revives, are physical and pairwise disjoint, then
  committing an acquire that \<open>_admit\<close> accepted leaves a ledger whose allocations are physical and
  pairwise disjoint: no GPU is promised to two deployments. Every earlier allocation is unchanged
  and every deployment the acquire creates or revives has an allocation.
\<close>

theorem admitted_acquire_keeps_gpus_apart:
  assumes "ledger_ok st" and "ov = plan_acquire sha new_id resident t0 reqs st0"
    and "st_deployments st0 = st_deployments st" and "\<forall>n. new_id n \<notin> set (dep_ids st)"
    and "gpus_apart (physical_gpus cf)
      (\<lambda>g. case adopts True res ov g of Some w \<Rightarrow> Some w | None \<Rightarrow> allocation st g)"
    and "admit_acquire (compose_preview rdr (compose_plan measured floor_vram cf pinned)) True dflt now st0 ov res
      = Inr ad" and "ad_reasons ad = []"
    and "acquire sha new_id t sid owner reqs ttl (Some ov) (ad_allocations ad) h p st = Inr (st', le, ds)"
  shows "gpus_apart (physical_gpus cf) (allocation st')
    \<and> (\<forall>g w. allocation st g = Some w \<longrightarrow> allocation st' g = Some w)
    \<and> (\<forall>g \<in> set (fresh_ids ov). allocation st' g \<noteq> None)"
  using compose.admitted_apart[OF assms] by blast

section \<open>A one-GPU host\<close>

text \<open>Requests for two models of one GPU each; deployment \<open>g\<close> stays warm when its lease ends.\<close>

definition demo_one_gpu :: placement_config where
  "demo_one_gpu = \<lparr>cf_inventory = [\<lparr>gpu_index = 0, gpu_memory_gib = Some 48, gpu_display_active = False\<rparr>],
     cf_allowed = None, cf_reserved = [], cf_skip_display = False\<rparr>"

definition demo_model :: "string \<Rightarrow> endpoint_request" where
  "demo_model name = (demo_request name)\<lparr>req_structural := JObj [(''model'', JStr name)]\<rparr>"

definition demo_preview :: "bool \<Rightarrow> deployment list \<Rightarrow> placement_inputs \<Rightarrow> unit + (gpu_plan \<times> rendered \<times> string option)" where
  "demo_preview = compose_preview (\<lambda>_ _ _. Inr (\<lparr>rn_unrenderable = [], rn_errors = []\<rparr>, None))
     (compose_plan (\<lambda>_. None) (\<lambda>_. None) demo_one_gpu [])"

definition demo_empty_residency :: residency where
  "demo_empty_residency = \<lparr>r_by_deployment = [], r_others = [], r_replicated = False\<rparr>"

definition demo_container :: container where
  "demo_container = \<lparr>c_id = ''c'', c_deployment = ''g'', c_state = ''running'', c_gpus = [0], c_all_gpus = False,
     c_service = ''s'', c_fingerprint = ''f'', c_labelled = True, c_ips = [], c_health = '''', c_restart_count = 0,
     c_exit_code = None, c_restart_policy = '''', c_restart_max = 0, c_reason = '''', c_message = '''', c_started = '''', c_ports = ''''\<rparr>"

definition demo_warm :: residency where
  "demo_warm = \<lparr>r_by_deployment = [(''g'', [demo_container])], r_others = [], r_replicated = False\<rparr>"

definition demo_admitted :: "string \<Rightarrow> char \<Rightarrow> rat \<Rightarrow> residency \<Rightarrow> store \<Rightarrow> admission" where
  "demo_admitted name c now res st =
     (case admit_acquire demo_preview True KEEP_WARM now st
        (plan_acquire rev (demo_id c) (Some (is_resident res)) now [demo_model name] st) (Some res) of
        Inr ad \<Rightarrow> ad | Inl _ \<Rightarrow> refused ResidencyUnreadable)"

definition demo_commit :: "string \<Rightarrow> string \<Rightarrow> char \<Rightarrow> rat \<Rightarrow> residency \<Rightarrow> store \<Rightarrow> store" where
  "demo_commit sid name c now res st =
     get_store (acquire rev (demo_id c) now sid ''o'' [demo_model name] None
       (Some (plan_acquire rev (demo_id c) (Some (is_resident res)) now [demo_model name] st))
       (ad_allocations (demo_admitted name c now res st)) None None st)"

definition ad_st1 :: store where "ad_st1 = demo_commit ''A'' ''m'' CHR ''g'' 0 demo_empty_residency empty_store"
definition ad_st2 :: store where "ad_st2 = fst (release ''A'' 1 ad_st1)"
definition ad_st3 :: store where "ad_st3 = demo_commit ''B'' ''n'' CHR ''h'' 2 demo_warm ad_st2"
definition ad_st4 :: store where "ad_st4 = demo_commit ''C'' ''m'' CHR ''k'' 3 demo_warm ad_st3"


text \<open>
  Lease A gets the GPU and is released; its container stays, keep-warm. Lease B gets the same GPU,
  staged with \<open>--no-apply\<close>, so the runtime does not change. Lease C revives A's deployment.
\<close>

lemma demo_admissions:
  "demo_admitted ''m'' CHR ''g'' 0 demo_empty_residency empty_store
     = \<lparr>ad_allocations = [(''g'', [0])], ad_reasons = [], ad_capacity = False, ad_digest = None\<rparr>"
  "demo_admitted ''n'' CHR ''h'' 2 demo_warm ad_st2
     = \<lparr>ad_allocations = [(''h'', [0])], ad_reasons = [], ad_capacity = False, ad_digest = None\<rparr>"
  "demo_admitted ''m'' CHR ''k'' 3 demo_warm ad_st3
     = \<lparr>ad_allocations = [(''g'', [0])], ad_reasons = [], ad_capacity = False, ad_digest = None\<rparr>"
  by code_simp+

theorem admitted_acquire_keeps_gpus_apart_witness:
  "gpus_apart (physical_gpus demo_one_gpu) (allocation ad_st1)"
proof -
  let ?ov = "plan_acquire rev (demo_id CHR ''g'') (Some (is_resident demo_empty_residency)) 0 [demo_model ''m''] empty_store"
  have a: "admit_acquire demo_preview True KEEP_WARM 0 empty_store ?ov (Some demo_empty_residency)
      = Inr (demo_admitted ''m'' CHR ''g'' 0 demo_empty_residency empty_store)"
    by code_simp
  have r: "ad_reasons (demo_admitted ''m'' CHR ''g'' 0 demo_empty_residency empty_store) = []"
    by (simp add: demo_admissions)
  have "\<not> isl (acquire rev (demo_id CHR ''g'') 0 ''A'' ''o'' [demo_model ''m''] None (Some ?ov)
      (ad_allocations (demo_admitted ''m'' CHR ''g'' 0 demo_empty_residency empty_store)) None None empty_store)"
    by code_simp
  then obtain le ds where c: "acquire rev (demo_id CHR ''g'') 0 ''A'' ''o'' [demo_model ''m''] None (Some ?ov)
      (ad_allocations (demo_admitted ''m'' CHR ''g'' 0 demo_empty_residency empty_store)) None None empty_store
      = Inr (ad_st1, le, ds)"
    using get_store_Inr unfolding ad_st1_def demo_commit_def by (metis prod.collapse)
  have n: "adopts True (Some demo_empty_residency) ?ov g = None" for g
  proof -
    have "ov_revived ?ov = []" by code_simp
    then show ?thesis by (simp add: adopts_def adopted_gpus_def split: option.split)
  qed
  have e: "allocation empty_store g = None" for g by (simp add: allocation_def empty_store_def dep_at_def)
  show ?thesis
    using admitted_acquire_keeps_gpus_apart[OF demo_ok(1) refl refl _ _ a[unfolded demo_preview_def] r c]
      demo_fresh(2)
    by (simp add: n e gpus_apart_def)
qed

text \<open>
  A revived deployment may take a GPU that is already promised. \<open>_admit\<close> checks only the
  candidate's own deployments for lost GPUs: reviving an IDLE deployment adopts the GPUs of its
  container even when they are committed to a lease whose apply is still staged. The preview then
  degrades that other deployment, the candidate is admitted without a reason, and afterwards two
  LIVE deployments hold the same GPU.
\<close>

theorem revival_may_double_book:
  "live_at ad_st3 ''h'' \<and> allocation ad_st3 ''h'' = Some [0] \<and>
   ad_reasons (demo_admitted ''m'' CHR ''k'' 3 demo_warm ad_st3) = [] \<and>
   live_at ad_st4 ''g'' \<and> live_at ad_st4 ''h'' \<and>
   allocation ad_st4 ''g'' = Some [0] \<and> allocation ad_st4 ''h'' = Some [0]"
  by code_simp

end
