(* ===== verification/Launch.thy ===== *)
theory Launch
  imports
  Models
  PyJson
begin

text \<open>
  The launch fields of an endpoint's runtime (\<open>leasing/launch.py\<close>): the legacy recipe, the fields'
  validation, their part of a deployment's identity, and the window the engine runs with.

  A catalog is JSON without floats; \<open>repr\<close> is Python's text of a list or a dictionary. Error texts
  are values of \<open>problem\<close>, one constructor per message, carrying what the message prints.
\<close>

section \<open>Problems of a catalog\<close>

datatype problem =
    ServedNameTwice string
  | ExternalManagedKey string string
  | ExternalNotMapping string
  | ExternalUnknownKeys string "string list"
  | ExternalBadUrl string json
  | ExternalNeedsModel string
  | ExternalKeyName string json
  | ExternalKeyReserved string string
  | NeedsModel string
  | UnknownModel string json
  | NeedsHost string
  | UnknownHost string json
  | NeedsTag string
  | UnknownEngine string json
  | PlacementEngine string json
  | PlacementKeys string "string list"
  | MinVramNotPositive string json
  | GpuIndicesEmpty string
  | GpuIndicesNotInts string json
  | GpuIndicesTwice string json
  | GpuIndicesCount string nat int
  | UnknownRecipe string json
  | LaunchNotVllm string string json
  | CommandNotStrings string
  | EnvNotMapping string
  | EnvBadName string string
  | EnvReserved string string
  | EnvBadValue string string
  | MountsNotMapping string
  | MountNotAbsolute string string
  | MountNotBelow string string json
  | ExtraWithCommand string
  | ExtraIdentityFlag string string
  | ShmNotVllm string
  | ShmNotSize string json
  | BundleUnknown string json

section \<open>Fields and defaults\<close>

definition LAUNCH_FIELDS :: "string list" where
  "LAUNCH_FIELDS = [''command'', ''env'', ''mounts'', ''extra_args'']"

definition RESERVED_ENV :: "string list" where
  "RESERVED_ENV = [''HF_TOKEN'', ''VLLM_ATTENTION_BACKEND'', ''CUDA_VISIBLE_DEVICES'', ''NVIDIA_VISIBLE_DEVICES'']"

definition IDENTITY_FLAGS :: "string list" where
  "IDENTITY_FLAGS = [''--served-model-name'', ''--tensor-parallel-size'', ''-tp'', ''--pipeline-parallel-size'',
     ''-pp'', ''--data-parallel-size'', ''-dp'', ''--max-model-len'']"

definition VLLM_DEFAULT_MAX_MODEL_LEN :: int where "VLLM_DEFAULT_MAX_MODEL_LEN = 8192"

definition LEGACY_RECIPES :: "(string, (string, json) dict) dict" where
  "LEGACY_RECIPES = [(''hyperqwen-3090-single'',
     [(''command'', JList [JStr ''single'']),
      (''env'', JObj [(''PORT'', JStr ''{port}''), (''SPEC'', JStr ''dflash2''), (''CTX'', JStr ''fast''),
                    (''MAX_LEN'', JStr ''{max_model_len}''), (''GPU_UTIL'', JStr ''{gpu_memory_utilization}''),
                    (''EXTRA_ARGS'', JStr ''--served-model-name={served_model_name}'')]),
      (''mounts'', JObj [(''/app/models'', JStr ''hyperqwen/qwen3.8-27b/models''),
                       (''/cache'', JStr ''hyperqwen/qwen3.8-27b/cache'')])])]"

definition rt_get :: "(string, json) dict \<Rightarrow> string \<Rightarrow> json" where
  "rt_get rt k = (case dget rt k of None \<Rightarrow> JNull | Some v \<Rightarrow> v)"

text \<open>\<open>value in table\<close> hashes the value: lists and dictionaries raise.\<close>

definition hash_get :: "(string, 'a) dict \<Rightarrow> json \<Rightarrow> py_error + 'a option" where
  "hash_get d v = (if \<not> py_hashable v then Inl TypeError
     else Inr (case v of JStr s \<Rightarrow> dget d s | _ \<Rightarrow> None))"

section \<open>The legacy recipe\<close>

definition with_prefix_cache :: "bool \<Rightarrow> json \<Rightarrow> py_error + json" where
  "with_prefix_cache on env =
     bind_err (py_in ''PREFIX_CACHE'' env) (\<lambda>present.
       if present then Inr env
       else (case env of
           JObj kvs \<Rightarrow> Inr (JObj (dput ''PREFIX_CACHE'' (JStr (if on then ''1'' else ''0'')) kvs))
         | _ \<Rightarrow> Inl TypeError))"

definition translate_legacy :: "(string, json) dict \<Rightarrow> py_error + (string, json) dict" where
  "translate_legacy rt =
     bind_err (hash_get LEGACY_RECIPES (rt_get rt ''serve_recipe'')) (\<lambda>found.
       case found of
         None \<Rightarrow> Inr rt
       | Some recipe \<Rightarrow>
           let out = filter (\<lambda>(k, v). k \<noteq> ''serve_recipe'') rt;
               out = fold (\<lambda>(k, v) acc. if k \<in> set (dkeys acc) then acc else dput k v acc) recipe out
           in (case dget out ''env'' of
                 None \<Rightarrow> Inr out
               | Some env \<Rightarrow> bind_err (with_prefix_cache (truthy (rt_get rt ''enable_prefix_caching'')) env) (\<lambda>env.
                   Inr (dput ''env'' env out))))"

definition effective_max_model_len :: "(string, json) dict \<Rightarrow> py_error + json" where
  "effective_max_model_len rt =
     bind_err (translate_legacy rt) (\<lambda>rt.
       Inr (case rt_get rt ''max_model_len'' of JNull \<Rightarrow> JInt VLLM_DEFAULT_MAX_MODEL_LEN | v \<Rightarrow> v))"

section \<open>Validation\<close>

definition is_alpha :: "char \<Rightarrow> bool" where
  "is_alpha c = (let n = (of_char c :: nat) in 65 \<le> n \<and> n \<le> 90 \<or> 97 \<le> n \<and> n \<le> 122)"

text \<open>\<open>[A-Za-z_][A-Za-z0-9_]*\<close>; as \<open>^...$\<close> with \<open>match\<close>, one newline may follow.\<close>

definition is_env_name :: "string \<Rightarrow> bool" where
  "is_env_name s = (case s of [] \<Rightarrow> False
     | c # rest \<Rightarrow> (is_alpha c \<or> c = CHR ''_'') \<and> list_all (\<lambda>d. is_alpha d \<or> is_digit d \<or> d = CHR ''_'') rest)"

definition env_name_matches :: "string \<Rightarrow> bool" where
  "env_name_matches s \<longleftrightarrow> is_env_name s \<or> s \<noteq> [] \<and> last s = CHR 0x0A \<and> is_env_name (butlast s)"

definition scalar :: "json \<Rightarrow> bool" where
  "scalar v = (case v of JStr _ \<Rightarrow> True | JInt _ \<Rightarrow> True | JBool _ \<Rightarrow> True | _ \<Rightarrow> False)"

definition command_errors :: "string \<Rightarrow> json \<Rightarrow> problem list" where
  "command_errors name command = (case command of
     JNull \<Rightarrow> []
   | JList cs \<Rightarrow> if cs \<noteq> [] \<and> list_all scalar cs then [] else [CommandNotStrings name]
   | _ \<Rightarrow> [CommandNotStrings name])"

definition env_errors :: "string \<Rightarrow> json \<Rightarrow> problem list" where
  "env_errors name env = (case env of
     JNull \<Rightarrow> []
   | JObj kvs \<Rightarrow> concat (map (\<lambda>(k, v).
       (if \<not> env_name_matches k then [EnvBadName name k]
        else if k \<in> set RESERVED_ENV then [EnvReserved name k] else [])
       @ (if scalar v then [] else [EnvBadValue name k])) kvs)
   | _ \<Rightarrow> [EnvNotMapping name])"

text \<open>\<open>PurePosixPath(s).parts\<close> without the root; \<open>..\<close> among them leaves the directory.\<close>

definition path_parts :: "string \<Rightarrow> string list" where
  "path_parts s = filter (\<lambda>p. p \<noteq> [] \<and> p \<noteq> ''.'') (split_on (CHR ''/'') s)"

definition below_data_dir :: "string \<Rightarrow> bool" where
  "below_data_dir s \<longleftrightarrow> \<not> is_prefix ''/'' s \<and> ''..'' \<notin> set (path_parts s) \<and> s \<noteq> []"

definition mounts_errors :: "(json \<Rightarrow> string) \<Rightarrow> string \<Rightarrow> json \<Rightarrow> problem list" where
  "mounts_errors repr name mounts = (case mounts of
     JNull \<Rightarrow> []
   | JObj kvs \<Rightarrow> concat (map (\<lambda>(target, sub).
       (if is_prefix ''/'' target then [] else [MountNotAbsolute name target])
       @ (if below_data_dir (py_str repr sub) then [] else [MountNotBelow name target sub])) kvs)
   | _ \<Rightarrow> [MountsNotMapping name])"

definition extra_errors :: "(json \<Rightarrow> string) \<Rightarrow> string \<Rightarrow> json \<Rightarrow> json \<Rightarrow> problem list" where
  "extra_errors repr name extra command =
     (if truthy extra \<and> truthy command then [ExtraWithCommand name] else [])
     @ (case extra of
          JList args \<Rightarrow> concat (map (\<lambda>arg. let flag = hd (split_on (CHR ''='') (py_str repr arg)) in
            if flag \<in> set IDENTITY_FLAGS then [ExtraIdentityFlag name flag] else []) args)
        | _ \<Rightarrow> [])"

definition launch_errors :: "(json \<Rightarrow> string) \<Rightarrow> string \<Rightarrow> json \<Rightarrow> (string, json) dict \<Rightarrow> problem list" where
  "launch_errors repr name engine rt =
     (let recipe = (case dget rt ''serve_recipe'' of None \<Rightarrow> [] | Some r \<Rightarrow> [UnknownRecipe name r])
      in case filter (\<lambda>k. truthy (rt_get rt k)) LAUNCH_FIELDS of
           k # _ \<Rightarrow> if engine \<noteq> JStr ''vllm'' then recipe @ [LaunchNotVllm name k engine]
             else recipe @ command_errors name (rt_get rt ''command'') @ env_errors name (rt_get rt ''env'')
               @ mounts_errors repr name (rt_get rt ''mounts'')
               @ extra_errors repr name (rt_get rt ''extra_args'') (rt_get rt ''command'')
         | [] \<Rightarrow> recipe @ command_errors name (rt_get rt ''command'') @ env_errors name (rt_get rt ''env'')
               @ mounts_errors repr name (rt_get rt ''mounts'')
               @ extra_errors repr name (rt_get rt ''extra_args'') (rt_get rt ''command''))"

section \<open>Identity\<close>

definition env_string :: "(json \<Rightarrow> string) \<Rightarrow> json \<Rightarrow> string" where
  "env_string repr v = (case v of JBool b \<Rightarrow> (if b then ''true'' else ''false'') | _ \<Rightarrow> py_str repr v)"

definition launch_value :: "(json \<Rightarrow> string) \<Rightarrow> json \<Rightarrow> py_error + json" where
  "launch_value repr v = (case v of
     JObj kvs \<Rightarrow> Inr (JObj (map (\<lambda>(k, v). (k, JStr (env_string repr v))) kvs))
   | _ \<Rightarrow> bind_err (py_iter v) (\<lambda>vs. Inr (JList (map (JStr \<circ> py_str repr) vs))))"

fun launch_fields :: "(json \<Rightarrow> string) \<Rightarrow> (string, json) dict \<Rightarrow> string list \<Rightarrow> py_error + (string, json) dict" where
  "launch_fields repr rt [] = Inr []"
| "launch_fields repr rt (k # ks) =
     (if \<not> truthy (rt_get rt k) then launch_fields repr rt ks
      else bind_err (launch_value repr (rt_get rt k)) (\<lambda>v.
           bind_err (launch_fields repr rt ks) (\<lambda>rest. Inr ((k, v) # rest))))"

definition launch_identity :: "(json \<Rightarrow> string) \<Rightarrow> (string, json) dict \<Rightarrow> py_error + (string, json) dict" where
  "launch_identity repr rt = launch_fields repr rt LAUNCH_FIELDS"

end
