(* ===== verification/Catalog.thy ===== *)
theory Catalog
  imports
  Launch
begin

text \<open>
  The serving catalog (\<open>leasing/catalog.py\<close>) and what an endpoint of it means (\<open>leasing/endpoints.py\<close>):
  parsing, validation, and resolution into the request the ledger takes.

  A catalog source is JSON; a name or a value of an unexpected type is carried as it is, and what
  Python raises on it is a value of \<open>py_error\<close>. \<open>dict(x)\<close> of a non-empty list counts as a \<open>TypeError\<close>
  (Python would accept a list of pairs). \<open>valid_url\<close> is \<open>urllib.parse.urlsplit\<close>'s judgement of an
  http(s) URL with a host, \<open>sha\<close> is SHA-256, \<open>repr\<close> the text of a list or a dictionary.
\<close>

section \<open>Specifications\<close>

record model_spec =
  ms_source :: json
  ms_revision :: json
  ms_quantization :: json
  ms_dtype :: json

record host_spec =
  hs_engine :: json
  hs_gpu_indices :: "json list"
  hs_settings :: "(string, json) dict"
  hs_model_store :: json
  hs_image :: json

record external_target =
  et_api_base :: string
  et_model :: string
  et_api_key_env :: json

record endpoint_spec =
  ep_name :: string
  ep_engine :: json
  ep_model :: json
  ep_host :: json
  ep_runtime :: "(string, json) dict"
  ep_sharing :: json
  ep_reclaim :: json
  ep_served_name :: json
  ep_protocol :: string
  ep_placement :: "(string, json) dict"
  ep_external :: "external_target option"
  ep_raw :: "(string, json) dict"

record catalog =
  ca_models :: "(string, model_spec) dict"
  ca_endpoints :: "(string, endpoint_spec) dict"
  ca_hosts :: "(string, host_spec) dict"
  ca_bundles :: "(string, json list) dict"
  ca_source :: json

datatype cat_error =
    PyRaised py_error
  | BadSharing json
  | BadReclaim json
  | BadProtocol json
  | Problems "problem list"
  | NoSuchEndpoint string
  | HostNeeded string
  | EngineUnknown string json
  | NotLeasable string

definition py_raises :: "py_error + 'a \<Rightarrow> cat_error + 'a" where
  "py_raises v = (case v of Inl e \<Rightarrow> Inl (PyRaised e) | Inr x \<Rightarrow> Inr x)"

section \<open>Parsing\<close>

definition parse_sharing :: "json \<Rightarrow> cat_error + json" where
  "parse_sharing v = (case v of
     JNull \<Rightarrow> Inr (JStr SHARED) | JStr s \<Rightarrow> Inr (JStr s)
   | JObj kvs \<Rightarrow> Inr (case dget kvs ''mode'' of None \<Rightarrow> JStr SHARED | Some m \<Rightarrow> m)
   | _ \<Rightarrow> Inl (BadSharing v))"

definition DEFAULT_RECLAIM :: string where "DEFAULT_RECLAIM = ''keep-warm''"

definition parse_reclaim :: "json \<Rightarrow> cat_error + json" where
  "parse_reclaim v = (case v of
     JNull \<Rightarrow> Inr (JStr DEFAULT_RECLAIM) | JStr s \<Rightarrow> Inr (JStr s)
   | JObj kvs \<Rightarrow> Inr (case dget kvs ''policy'' of None \<Rightarrow> JStr DEFAULT_RECLAIM | Some m \<Rightarrow> m)
   | _ \<Rightarrow> Inl (BadReclaim v))"

definition parse_protocol :: "json \<Rightarrow> cat_error + string" where
  "parse_protocol v = (case v of
     JNull \<Rightarrow> Inr ''chat''
   | JStr s \<Rightarrow> if s = ''chat'' \<or> s = ''completions'' then Inr s else Inl (BadProtocol v)
   | _ \<Rightarrow> Inl (BadProtocol v))"

text \<open>\<open>dict(x or {})\<close> and \<open>x or {}\<close> as a dictionary.\<close>

definition dict_or_empty :: "json \<Rightarrow> cat_error + (string, json) dict" where
  "dict_or_empty v = (if \<not> truthy v then Inr [] else case v of JObj kvs \<Rightarrow> Inr kvs
     | JStr _ \<Rightarrow> Inl (PyRaised ValueError) | _ \<Rightarrow> Inl (PyRaised TypeError))"

definition obj_or_empty :: "json \<Rightarrow> cat_error + (string, json) dict" where
  "obj_or_empty v = (if \<not> truthy v then Inr [] else case v of JObj kvs \<Rightarrow> Inr kvs
     | _ \<Rightarrow> Inl (PyRaised AttributeError))"

text \<open>\<open>(data.get(k) or {}).items()\<close>.\<close>

definition items_of :: "string \<Rightarrow> (string, json) dict \<Rightarrow> cat_error + (string, json) dict" where
  "items_of k data = obj_or_empty (rt_get data k)"

fun parse_items :: "(string \<Rightarrow> json \<Rightarrow> cat_error + 'a) \<Rightarrow> (string, json) dict \<Rightarrow> cat_error + (string, 'a) dict" where
  "parse_items f [] = Inr []"
| "parse_items f ((k, v) # kvs) =
     bind_err (f k v) (\<lambda>x. bind_err (parse_items f kvs) (\<lambda>rest. Inr ((k, x) # rest)))"

definition parse_model :: "string \<Rightarrow> json \<Rightarrow> cat_error + model_spec" where
  "parse_model name spec = (case spec of
     JObj kvs \<Rightarrow> (case dget kvs ''source'' of
         None \<Rightarrow> Inl (PyRaised KeyError)
       | Some src \<Rightarrow> Inr \<lparr>ms_source = src, ms_revision = rt_get kvs ''revision'',
           ms_quantization = rt_get kvs ''quantization'', ms_dtype = rt_get kvs ''dtype''\<rparr>)
   | _ \<Rightarrow> Inl (PyRaised TypeError))"

definition parse_host :: "string \<Rightarrow> json \<Rightarrow> cat_error + host_spec" where
  "parse_host name spec =
     bind_err (obj_or_empty spec) (\<lambda>kvs.
     bind_err (obj_or_empty (rt_get kvs ''placement'')) (\<lambda>placement.
     bind_err (case dget placement ''gpu_indices'' of None \<Rightarrow> Inr [] | Some v \<Rightarrow> py_raises (py_iter v)) (\<lambda>indices.
     bind_err (dict_or_empty (rt_get kvs ''settings'')) (\<lambda>settings.
     bind_err (obj_or_empty (rt_get kvs ''storage'')) (\<lambda>storage.
       Inr \<lparr>hs_engine = (case dget kvs ''engine'' of None \<Rightarrow> JStr ''ollama'' | Some e \<Rightarrow> e),
         hs_gpu_indices = indices, hs_settings = settings,
         hs_model_store = rt_get storage ''model_store'', hs_image = rt_get kvs ''image''\<rparr>)))))"

definition parse_external :: "(json \<Rightarrow> string) \<Rightarrow> json \<Rightarrow> external_target option" where
  "parse_external repr ext = (case ext of
     JObj kvs \<Rightarrow> Some \<lparr>et_api_base = py_str repr (py_or (rt_get kvs ''api_base'') (JStr [])),
       et_model = py_str repr (py_or (rt_get kvs ''model'') (JStr [])), et_api_key_env = rt_get kvs ''api_key_env''\<rparr>
   | _ \<Rightarrow> None)"

definition parse_endpoint :: "(json \<Rightarrow> string) \<Rightarrow> string \<Rightarrow> json \<Rightarrow> cat_error + endpoint_spec" where
  "parse_endpoint repr name spec =
     bind_err (py_raises (py_in ''external'' (py_or spec (JObj [])))) (\<lambda>_.
     bind_err (obj_or_empty spec) (\<lambda>kvs.
       if ''external'' \<in> set (dkeys kvs) then
         bind_err (parse_protocol (rt_get kvs ''protocol'')) (\<lambda>protocol.
           Inr \<lparr>ep_name = name, ep_engine = JStr [], ep_model = JStr [], ep_host = JNull, ep_runtime = [],
             ep_sharing = JStr SHARED, ep_reclaim = JStr DEFAULT_RECLAIM, ep_served_name = JNull,
             ep_protocol = protocol, ep_placement = [],
             ep_external = parse_external repr (rt_get kvs ''external''), ep_raw = kvs\<rparr>)
       else
         bind_err (bind_err (dict_or_empty (rt_get kvs ''runtime'')) (py_raises \<circ> translate_legacy)) (\<lambda>runtime.
         bind_err (parse_sharing (rt_get kvs ''sharing'')) (\<lambda>sharing.
         bind_err (parse_reclaim (rt_get kvs ''reclaim'')) (\<lambda>reclaim.
         bind_err (parse_protocol (rt_get kvs ''protocol'')) (\<lambda>protocol.
         bind_err (dict_or_empty (rt_get kvs ''placement'')) (\<lambda>placement.
           Inr \<lparr>ep_name = name,
             ep_engine = (case dget kvs ''engine'' of None \<Rightarrow> JStr ''vllm'' | Some e \<Rightarrow> e),
             ep_model = py_or (rt_get kvs ''model'') (JStr []), ep_host = rt_get kvs ''host'',
             ep_runtime = runtime, ep_sharing = sharing, ep_reclaim = reclaim,
             ep_served_name = py_or (rt_get kvs ''served_name'') (rt_get kvs ''public_name''),
             ep_protocol = protocol, ep_placement = placement, ep_external = None, ep_raw = kvs\<rparr>)))))))"

definition parse_bundle :: "string \<Rightarrow> json \<Rightarrow> cat_error + json list" where
  "parse_bundle name members = (if \<not> truthy members then Inr [] else py_raises (py_iter members))"

section \<open>Validation\<close>

definition RESERVED_KEY_ENVS :: "string list" where
  "RESERVED_KEY_ENVS = [''LITELLM_MASTER_KEY'', ''LITELLM_SALT_KEY'', ''LITELLM_DB_PASSWORD'',
     ''WEBUI_SECRET_KEY'', ''HF_TOKEN'']"

definition MANAGED_ONLY_KEYS :: "string list" where
  "MANAGED_ONLY_KEYS = [''engine'', ''model'', ''host'', ''runtime'', ''placement'', ''sharing'',
     ''reclaim'', ''served_name'', ''public_name'']"

definition is_http_url :: "(string \<Rightarrow> bool) \<Rightarrow> json \<Rightarrow> bool" where
  "is_http_url valid_url v = (case v of JStr s \<Rightarrow> \<not> list_ex py_space s \<and> valid_url s | _ \<Rightarrow> False)"

definition key_env_errors :: "string \<Rightarrow> json \<Rightarrow> problem list" where
  "key_env_errors name v = (case v of
     JNull \<Rightarrow> []
   | JStr s \<Rightarrow> if \<not> is_env_name s then [ExternalKeyName name v]
       else if s \<in> set RESERVED_KEY_ENVS then [ExternalKeyReserved name s] else []
   | _ \<Rightarrow> [ExternalKeyName name v])"

definition external_errors :: "(string \<Rightarrow> bool) \<Rightarrow> string \<Rightarrow> (string, json) dict \<Rightarrow> json \<Rightarrow> problem list" where
  "external_errors valid_url name raw ext =
     map (ExternalManagedKey name) (filter (\<lambda>k. k \<in> set (dkeys raw)) MANAGED_ONLY_KEYS)
     @ (case ext of
          JObj kvs \<Rightarrow>
            (case sort (remdups (filter (\<lambda>k. k \<notin> {''api_base'', ''model'', ''api_key_env''}) (dkeys kvs))) of
               [] \<Rightarrow> [] | unknown \<Rightarrow> [ExternalUnknownKeys name unknown])
            @ (if is_http_url valid_url (rt_get kvs ''api_base'') then []
               else [ExternalBadUrl name (rt_get kvs ''api_base'')])
            @ (case rt_get kvs ''model'' of JStr m \<Rightarrow> if m = [] then [ExternalNeedsModel name] else []
                 | _ \<Rightarrow> [ExternalNeedsModel name])
            @ key_env_errors name (rt_get kvs ''api_key_env'')
        | _ \<Rightarrow> [ExternalNotMapping name])"

definition PLACEMENT_KEYS :: "string list" where "PLACEMENT_KEYS = [''min_vram_gib'', ''gpu_indices'']"

definition min_vram_errors :: "string \<Rightarrow> json \<Rightarrow> problem list" where
  "min_vram_errors name v = (case v of JNull \<Rightarrow> [] | JInt i \<Rightarrow> if 0 < i then [] else [MinVramNotPositive name v]
     | _ \<Rightarrow> [MinVramNotPositive name v])"

definition index_of :: "json \<Rightarrow> int option" where
  "index_of v = (case v of JInt i \<Rightarrow> if 0 \<le> i then Some i else None | _ \<Rightarrow> None)"

definition parallel_size :: "(string, json) dict \<Rightarrow> string \<Rightarrow> py_error + int" where
  "parallel_size rt k = py_int (py_or (case dget rt k of None \<Rightarrow> JInt 1 | Some v \<Rightarrow> v) (JInt 1))"

definition required_gpus :: "(string, json) dict \<Rightarrow> int option" where
  "required_gpus rt =
     (case (parallel_size rt ''tensor_parallel_size'', parallel_size rt ''pipeline_parallel_size'',
            parallel_size rt ''data_parallel_size'') of
        (Inr tp, Inr pp, Inr dp) \<Rightarrow> if 0 < tp \<and> 0 < pp \<and> 0 < dp then Some (tp * pp * dp) else None
      | _ \<Rightarrow> None)"

definition gpu_indices_errors :: "string \<Rightarrow> (string, json) dict \<Rightarrow> json \<Rightarrow> problem list" where
  "gpu_indices_errors name rt v = (case v of
     JNull \<Rightarrow> []
   | JList (i # is) \<Rightarrow>
       if list_ex (\<lambda>j. index_of j = None) (i # is) then [GpuIndicesNotInts name v]
       else if \<not> distinct (i # is) then [GpuIndicesTwice name v]
       else (case required_gpus rt of None \<Rightarrow> []
             | Some n \<Rightarrow> if int (length (i # is)) \<noteq> n then [GpuIndicesCount name (length (i # is)) n] else [])
   | _ \<Rightarrow> [GpuIndicesEmpty name])"

definition placement_errors :: "endpoint_spec \<Rightarrow> problem list" where
  "placement_errors ep =
     (if ep_placement ep = [] then []
      else if ep_engine ep \<noteq> JStr ''vllm'' then [PlacementEngine (ep_name ep) (ep_engine ep)]
      else (case sort (remdups (filter (\<lambda>k. k \<notin> set PLACEMENT_KEYS) (dkeys (ep_placement ep)))) of
              [] \<Rightarrow> [] | unknown \<Rightarrow> [PlacementKeys (ep_name ep) unknown])
        @ min_vram_errors (ep_name ep) (rt_get (ep_placement ep) ''min_vram_gib'')
        @ gpu_indices_errors (ep_name ep) (ep_runtime ep) (rt_get (ep_placement ep) ''gpu_indices''))"

text \<open>\<open>\d+(\.\d+)?\s*[kmg]?b?\<close>, letters of either case.\<close>

definition is_size :: "string \<Rightarrow> bool" where
  "is_size s =
     (let tail = (\<lambda>s. let s = dropWhile py_space s;
                          s = (case s of c # r \<Rightarrow> if lower_char c \<in> set ''kmg'' then r else s | [] \<Rightarrow> s);
                          s = (case s of c # r \<Rightarrow> if lower_char c = CHR ''b'' then r else s | [] \<Rightarrow> s)
                      in s = []);
          rest = dropWhile is_digit s
      in rest \<noteq> s \<and>
         (case rest of
            c # r \<Rightarrow> if c = CHR ''.'' then dropWhile is_digit r \<noteq> r \<and> tail (dropWhile is_digit r) else tail rest
          | [] \<Rightarrow> True))"

definition runtime_errors :: "(json \<Rightarrow> string) \<Rightarrow> endpoint_spec \<Rightarrow> problem list" where
  "runtime_errors repr ep =
     launch_errors repr (ep_name ep) (ep_engine ep) (ep_runtime ep)
     @ (case rt_get (ep_runtime ep) ''shm_size'' of
          JNull \<Rightarrow> []
        | shm \<Rightarrow> if ep_engine ep \<noteq> JStr ''vllm'' then [ShmNotVllm (ep_name ep)]
            else if is_size (py_str repr shm) then [] else [ShmNotSize (ep_name ep) shm])"

definition engine_errors :: "catalog \<Rightarrow> endpoint_spec \<Rightarrow> cat_error + problem list" where
  "engine_errors cat ep =
     (if ep_engine ep = JStr ''vllm'' then
        (if \<not> truthy (ep_model ep) then Inr [NeedsModel (ep_name ep)]
         else bind_err (py_raises (hash_get (ca_models cat) (ep_model ep))) (\<lambda>found.
           Inr (if found = None then [UnknownModel (ep_name ep) (ep_model ep)] else [])))
      else if ep_engine ep = JStr ''ollama'' then
        bind_err (if \<not> truthy (ep_host ep) then Inr [NeedsHost (ep_name ep)]
          else bind_err (py_raises (hash_get (ca_hosts cat) (ep_host ep))) (\<lambda>found.
            Inr (if found = None then [UnknownHost (ep_name ep) (ep_host ep)] else []))) (\<lambda>problems.
          Inr (problems @ (if truthy (ep_model ep) then [] else [NeedsTag (ep_name ep)])))
      else Inr [UnknownEngine (ep_name ep) (ep_engine ep)])"

definition endpoint_errors :: "(json \<Rightarrow> string) \<Rightarrow> (string \<Rightarrow> bool) \<Rightarrow> catalog \<Rightarrow> endpoint_spec \<Rightarrow> cat_error + problem list" where
  "endpoint_errors repr valid_url cat ep =
     (let named = (case (dget (ep_raw ep) ''served_name'', dget (ep_raw ep) ''public_name'') of
            (Some a, Some b) \<Rightarrow> if canonical a \<noteq> canonical b then [ServedNameTwice (ep_name ep)] else []
          | _ \<Rightarrow> [])
      in case dget (ep_raw ep) ''external'' of
           Some ext \<Rightarrow> Inr (named @ external_errors valid_url (ep_name ep) (ep_raw ep) ext)
         | None \<Rightarrow> bind_err (engine_errors cat ep) (\<lambda>problems.
             Inr (named @ problems @ placement_errors ep @ runtime_errors repr ep)))"

definition bundle_errors :: "catalog \<Rightarrow> string \<times> json list \<Rightarrow> cat_error + problem list" where
  "bundle_errors cat b = (case b of (name, members) \<Rightarrow>
     bind_err (map_err (\<lambda>m. bind_err (py_raises (hash_get (ca_endpoints cat) m)) (\<lambda>found.
        Inr (if found = None then [BundleUnknown name m] else []))) members) (\<lambda>pss. Inr (concat pss)))"

definition catalog_errors :: "(json \<Rightarrow> string) \<Rightarrow> (string \<Rightarrow> bool) \<Rightarrow> catalog \<Rightarrow> cat_error + problem list" where
  "catalog_errors repr valid_url cat =
     bind_err (map_err (endpoint_errors repr valid_url cat) (dvals (ca_endpoints cat))) (\<lambda>eps.
     bind_err (map_err (bundle_errors cat) (ca_bundles cat)) (\<lambda>bs. Inr (concat eps @ concat bs)))"

definition from_dict :: "(json \<Rightarrow> string) \<Rightarrow> (string \<Rightarrow> bool) \<Rightarrow> json \<Rightarrow> cat_error + catalog" where
  "from_dict repr valid_url source =
     bind_err (obj_or_empty source) (\<lambda>data.
     bind_err (bind_err (items_of ''models'' data) (parse_items parse_model)) (\<lambda>models.
     bind_err (bind_err (items_of ''runtime_hosts'' data) (parse_items parse_host)) (\<lambda>hosts.
     bind_err (bind_err (items_of ''endpoints'' data) (parse_items (parse_endpoint repr))) (\<lambda>endpoints.
     bind_err (bind_err (items_of ''bundles'' data) (parse_items parse_bundle)) (\<lambda>bundles.
       let cat = \<lparr>ca_models = models, ca_endpoints = endpoints, ca_hosts = hosts, ca_bundles = bundles,
                  ca_source = JObj data\<rparr>
       in bind_err (catalog_errors repr valid_url cat) (\<lambda>problems.
            if problems \<noteq> [] then Inl (Problems problems) else Inr cat))))))"

section \<open>Resolution\<close>

text \<open>The request of an endpoint, as \<open>dataclasses.asdict\<close> gives it.\<close>

definition request_json :: "string \<Rightarrow> string \<Rightarrow> (string, json) dict \<Rightarrow> (string, json) dict \<Rightarrow> json
    \<Rightarrow> (string, json) dict \<Rightarrow> (string, json) dict \<Rightarrow> json \<Rightarrow> json" where
  "request_json alias engine structural capacity sharing spec served host = JObj
     [(''endpoint'', JStr alias), (''engine'', JStr engine), (''structural'', JObj structural),
      (''capacity'', JObj capacity), (''sharing'', sharing), (''spec'', JObj spec), (''served'', JObj served),
      (''host'', host)]"

datatype target = Managed json | External external_target

record resolved =
  rs_alias :: string
  rs_protocol :: string
  rs_target :: target

definition scheme_end :: string where "scheme_end = ''://''"

text \<open>\<open>s.split('://', 1)[1]\<close>.\<close>

fun after_scheme :: "string \<Rightarrow> string" where
  "after_scheme [] = []"
| "after_scheme (c # s) = (if is_prefix scheme_end (c # s) then drop 3 (c # s) else after_scheme s)"

definition hf_model_id :: "json \<Rightarrow> cat_error + json" where
  "hf_model_id source =
     bind_err (py_raises (py_in scheme_end source)) (\<lambda>qualified.
       if \<not> qualified then Inr source
       else case source of JStr s \<Rightarrow> Inr (JStr (after_scheme s)) | _ \<Rightarrow> Inl (PyRaised AttributeError))"

definition rt_default :: "(string, json) dict \<Rightarrow> string \<Rightarrow> json \<Rightarrow> json" where
  "rt_default rt k d = (case dget rt k of None \<Rightarrow> d | Some v \<Rightarrow> v)"

definition sorted_or_empty :: "json \<Rightarrow> cat_error + json" where
  "sorted_or_empty v = (if \<not> truthy v then Inr (JList [])
     else bind_err (py_raises (bind_err (py_iter v) py_sorted)) (\<lambda>xs. Inr (JList xs)))"

definition vllm_identity_of ::
    "(json \<Rightarrow> string) \<Rightarrow> model_spec \<Rightarrow> (string, json) dict \<Rightarrow> json \<Rightarrow> json \<Rightarrow> cat_error + (string, json) dict" where
  "vllm_identity_of repr m rt served indices =
     bind_err (py_raises (launch_identity repr rt)) (\<lambda>launch.
     bind_err (sorted_or_empty (rt_get rt ''lora_adapters'')) (\<lambda>adapters.
     bind_err (if \<not> truthy indices then Inr []
               else bind_err (py_raises (bind_err (py_iter indices) (map_err py_int))) (\<lambda>is.
                      Inr [(''gpu_indices'', JList (map JInt is))])) (\<lambda>pin.
       Inr ([(''engine'', JStr ''vllm''), (''model_ref'', ms_source m), (''revision'', ms_revision m),
         (''quantization'', ms_quantization m), (''dtype'', ms_dtype m),
         (''tensor_parallel_size'', rt_default rt ''tensor_parallel_size'' (JInt 1)),
         (''pipeline_parallel_size'', rt_default rt ''pipeline_parallel_size'' (JInt 1)),
         (''data_parallel_size'', rt_default rt ''data_parallel_size'' (JInt 1)),
         (''image'', rt_get rt ''image''), (''chat_template'', rt_get rt ''chat_template''),
         (''trust_remote_code'', rt_default rt ''trust_remote_code'' (JBool False)),
         (''lora_adapters'', adapters), (''attention_backend'', rt_get rt ''attention_backend''),
         (''served_name'', py_or served (ms_source m))]
         @ pin @ (if launch = [] then [] else [(''launch'', JObj launch)])))))"

definition resolve_vllm :: "(json \<Rightarrow> string) \<Rightarrow> catalog \<Rightarrow> endpoint_spec \<Rightarrow> json \<Rightarrow> cat_error + json" where
  "resolve_vllm repr cat ep sharing =
     bind_err (py_raises (hash_get (ca_models cat) (ep_model ep))) (\<lambda>found.
     case found of None \<Rightarrow> Inl (PyRaised KeyError) | Some m \<Rightarrow>
       let rt = ep_runtime ep;
           served = py_or (ep_served_name ep) (JStr (ep_name ep))
       in bind_err (vllm_identity_of repr m rt served (rt_get (ep_placement ep) ''gpu_indices'')) (\<lambda>structural.
          bind_err (hf_model_id (ms_source m)) (\<lambda>hf.
          bind_err (py_raises (effective_max_model_len rt)) (\<lambda>window.
            Inr (request_json (ep_name ep) ''vllm'' structural
              (case rt_get rt ''max_model_len'' of JNull \<Rightarrow> [] | v \<Rightarrow> [(''max_model_len'', v)]) sharing
              ([(''engine'', JStr ''vllm''), (''hf_model_id'', hf), (''served_model_name'', served),
                (''revision'', ms_revision m), (''quantization'', ms_quantization m), (''dtype'', ms_dtype m),
                (''runtime'', JObj rt), (''reclaim'', ep_reclaim ep)]
               @ (if ep_placement ep = [] then [] else [(''placement'', JObj (ep_placement ep))]))
              [(''served_model_name'', served), (''hf_model_id'', hf), (''protocol'', JStr (ep_protocol ep)),
               (''max_input_tokens'', window)]
              JNull)))))"

definition resolve_ollama :: "catalog \<Rightarrow> endpoint_spec \<Rightarrow> json \<Rightarrow> cat_error + json" where
  "resolve_ollama cat ep sharing =
     (if \<not> truthy (ep_host ep) then Inl (HostNeeded (ep_name ep))
      else bind_err (py_raises (hash_get (ca_hosts cat) (ep_host ep))) (\<lambda>found.
        case found of None \<Rightarrow> Inl (PyRaised KeyError) | Some h \<Rightarrow>
          let settings = hs_settings h; indices = JList (hs_gpu_indices h)
          in Inr (request_json (ep_name ep) ''ollama''
               [(''engine'', JStr ''ollama''), (''host'', ep_host ep), (''gpu_indices'', indices),
                (''keep_alive'', rt_get settings ''keep_alive''), (''num_parallel'', rt_get settings ''num_parallel''),
                (''max_loaded_models'', rt_get settings ''max_loaded_models''), (''model_store'', hs_model_store h)]
               [] sharing
               [(''engine'', JStr ''ollama''), (''host'', ep_host ep), (''image'', hs_image h),
                (''gpu_indices'', indices), (''settings'', JObj settings), (''model_store'', hs_model_store h),
                (''reclaim'', ep_reclaim ep)]
               [(''model'', ep_model ep)] (ep_host ep))))"

definition resolve_endpoint :: "(json \<Rightarrow> string) \<Rightarrow> catalog \<Rightarrow> string \<Rightarrow> json \<Rightarrow> cat_error + resolved" where
  "resolve_endpoint repr cat name sharing =
     (case dget (ca_endpoints cat) name of
        None \<Rightarrow> Inl (NoSuchEndpoint name)
      | Some ep \<Rightarrow>
          let managed = (\<lambda>r. bind_err r (\<lambda>req. Inr \<lparr>rs_alias = ep_name ep, rs_protocol = ep_protocol ep, rs_target = Managed req\<rparr>));
              share = py_or sharing (ep_sharing ep)
          in (case ep_external ep of
                Some t \<Rightarrow> Inr \<lparr>rs_alias = ep_name ep, rs_protocol = ep_protocol ep, rs_target = External t\<rparr>
              | None \<Rightarrow>
                  if ep_engine ep = JStr ''vllm'' then managed (resolve_vllm repr cat ep share)
                  else if ep_engine ep = JStr ''ollama'' then managed (resolve_ollama cat ep share)
                  else Inl (EngineUnknown name (ep_engine ep))))"

section \<open>Meaning\<close>

definition semantic :: "resolved \<Rightarrow> json" where
  "semantic r = JObj [(''alias'', JStr (rs_alias r)), (''protocol'', JStr (rs_protocol r)),
     (''target'', (case rs_target r of
        Managed req \<Rightarrow> JObj [(''kind'', JStr ''managed''), (''request'', req)]
      | External t \<Rightarrow> JObj [(''kind'', JStr ''external''), (''api_base'', JStr (et_api_base t)),
          (''model'', JStr (et_model t)), (''api_key_env'', et_api_key_env t)]))]"

definition semantic_key :: "(string \<Rightarrow> string) \<Rightarrow> resolved \<Rightarrow> string" where
  "semantic_key sha r = sha (dumps (semantic r))"

definition with_sharing :: "json \<Rightarrow> json \<Rightarrow> json" where
  "with_sharing sharing req = (case req of JObj kvs \<Rightarrow> JObj (dput ''sharing'' sharing kvs) | _ \<Rightarrow> req)"

definition to_request :: "json \<Rightarrow> resolved \<Rightarrow> cat_error + json" where
  "to_request sharing r = (case rs_target r of
     External _ \<Rightarrow> Inl (NotLeasable (rs_alias r))
   | Managed req \<Rightarrow> Inr (if truthy sharing then with_sharing sharing req else req))"

definition expand_endpoint_names :: "(string, string list) dict \<Rightarrow> string list \<Rightarrow> string list" where
  "expand_endpoint_names bundles names =
     fromkeys (concat (map (\<lambda>n. case dget bundles n of None \<Rightarrow> [n] | Some ms \<Rightarrow> ms) names))"

text \<open>A \<open>CatalogError\<close> is raised as one again; Python's other errors are not caught, \<open>ValueError\<close> is.\<close>

definition resolve_endpoint_requests ::
    "(string \<Rightarrow> cat_error + resolved) \<Rightarrow> (string, string list) dict \<Rightarrow> string list \<Rightarrow> json \<Rightarrow> cat_error + json list" where
  "resolve_endpoint_requests resolve bundles names sharing =
     map_err (\<lambda>n. bind_err (resolve n) (to_request sharing)) (expand_endpoint_names bundles names)"

end
