(* ===== verification/Published.thy ===== *)
theory Published
  imports
  Catalog
begin

text \<open>
  The published catalog union (\<open>leasing/profile.py\<close>): several catalog sources presented as one, the
  merge that publishes a source, and the update of the published definitions by an acquire.

  What the union needs of a catalog is the locale \<open>catalog_reader\<close>: how a source is read, which
  endpoints and bundles it has, and what an endpoint of it means. \<open>Catalog\<close> provides it.
\<close>

section \<open>A union of catalogs\<close>

datatype union_error =
    BadCatalog cat_error
  | EndpointConflict string
  | BundleConflict string
  | NameClash "string list"
  | Unsettled
  | NotMapping py_error

text \<open>The conflicting names, which the caller compares with the pinned ones; \<open>None\<close>: not a conflict.\<close>

definition conflict_names :: "union_error \<Rightarrow> string list option" where
  "conflict_names e = (case e of EndpointConflict n \<Rightarrow> Some [n] | BundleConflict n \<Rightarrow> Some [n]
     | NameClash ns \<Rightarrow> Some ns | Unsettled \<Rightarrow> Some [] | _ \<Rightarrow> None)"

record 'c union =
  un_sources :: "json list"
  un_catalogs :: "'c list"
  un_owner :: "(string, 'c) dict"
  un_bundles :: "(string, json list) dict"

text \<open>\<open>_endpoint_key\<close>: what a name means in a catalog, or why it means nothing.\<close>

definition endpoint_key :: "(string \<Rightarrow> string) \<Rightarrow> (json \<Rightarrow> string) \<Rightarrow> catalog \<Rightarrow> string \<Rightarrow> py_error + (cat_error + string)" where
  "endpoint_key sha repr cat name = (case resolve_endpoint repr cat name JNull of
     Inl (PyRaised e) \<Rightarrow> Inl e | Inl e \<Rightarrow> Inr (Inl e) | Inr r \<Rightarrow> Inr (Inr (semantic_key sha r)))"

fun add_endpoints :: "('c \<Rightarrow> string \<Rightarrow> py_error + 'k) \<Rightarrow> 'c \<Rightarrow> string list \<Rightarrow> (string, 'c) dict
    \<Rightarrow> union_error + (string, 'c) dict" where
  "add_endpoints key cat [] owner = Inr owner"
| "add_endpoints key cat (n # ns) owner =
     (case dget owner n of
        None \<Rightarrow> add_endpoints key cat ns (dput n cat owner)
      | Some other \<Rightarrow>
          (case key other n of Inl e \<Rightarrow> Inl (BadCatalog (PyRaised e))
           | Inr k \<Rightarrow> (case key cat n of Inl e \<Rightarrow> Inl (BadCatalog (PyRaised e))
             | Inr k' \<Rightarrow> if k \<noteq> k' then Inl (EndpointConflict n) else add_endpoints key cat ns owner)))"

fun add_bundles :: "(string, json list) dict \<Rightarrow> (string, json list) dict \<Rightarrow> union_error + (string, json list) dict" where
  "add_bundles [] bundles = Inr bundles"
| "add_bundles ((n, ms) # rest) bundles =
     (case dget bundles n of
        None \<Rightarrow> add_bundles rest (dput n ms bundles)
      | Some ms' \<Rightarrow> if ms' \<noteq> ms then Inl (BundleConflict n) else add_bundles rest (dput n ms bundles))"

fun add_catalogs ::
    "('c \<Rightarrow> string \<Rightarrow> py_error + 'k) \<Rightarrow> ('c \<Rightarrow> string list) \<Rightarrow> ('c \<Rightarrow> (string, json list) dict) \<Rightarrow> 'c list
     \<Rightarrow> (string, 'c) dict \<Rightarrow> (string, json list) dict \<Rightarrow> union_error + ((string, 'c) dict \<times> (string, json list) dict)" where
  "add_catalogs key names bundles_of [] owner bundles = Inr (owner, bundles)"
| "add_catalogs key names bundles_of (cat # cats) owner bundles =
     bind_err (add_endpoints key cat (names cat) owner) (\<lambda>owner.
     bind_err (add_bundles (bundles_of cat) bundles) (\<lambda>bundles.
       add_catalogs key names bundles_of cats owner bundles))"

definition make_union ::
    "('c \<Rightarrow> string \<Rightarrow> py_error + 'k) \<Rightarrow> ('c \<Rightarrow> string list) \<Rightarrow> ('c \<Rightarrow> (string, json list) dict) \<Rightarrow> json list
     \<Rightarrow> 'c list \<Rightarrow> union_error + 'c union" where
  "make_union key names bundles_of sources cats =
     bind_err (add_catalogs key names bundles_of cats [] []) (\<lambda>(owner, bundles).
       case sort (filter (\<lambda>n. n \<in> set (dkeys owner)) (dkeys bundles)) of
         [] \<Rightarrow> Inr \<lparr>un_sources = sources, un_catalogs = cats, un_owner = owner, un_bundles = bundles\<rparr>
       | clash \<Rightarrow> Inl (NameClash clash))"

text \<open>\<open>dict(src or {})\<close>.\<close>

definition or_mapping :: "json \<Rightarrow> json" where
  "or_mapping s = py_or s (JObj [])"

definition from_sources ::
    "(json \<Rightarrow> cat_error + 'c) \<Rightarrow> ('c \<Rightarrow> string \<Rightarrow> py_error + 'k) \<Rightarrow> ('c \<Rightarrow> string list)
     \<Rightarrow> ('c \<Rightarrow> (string, json list) dict) \<Rightarrow> json list \<Rightarrow> union_error + 'c union" where
  "from_sources read key names bundles_of sources =
     bind_err (case map_err read sources of Inl e \<Rightarrow> Inl (BadCatalog e) | Inr cats \<Rightarrow> Inr cats) (\<lambda>cats.
       make_union key names bundles_of (map or_mapping sources) cats)"

section \<open>Merging sources\<close>

text \<open>Deduplicated by content: \<open>canonical_digest\<close> hashes the canonical text.\<close>

definition canonical_digest :: "(string \<Rightarrow> string) \<Rightarrow> json \<Rightarrow> string" where
  "canonical_digest sha j = sha (dumps j)"

fun dedup_sources :: "(json \<Rightarrow> string) \<Rightarrow> json list \<Rightarrow> string list \<Rightarrow> json list" where
  "dedup_sources digest [] seen = []"
| "dedup_sources digest (s # ss) seen =
     (if digest s \<in> set seen then dedup_sources digest ss seen
      else s # dedup_sources digest ss (digest s # seen))"

text \<open>\<open>source.get(section) or {}\<close> as a dictionary.\<close>

definition section_of :: "string \<Rightarrow> json \<Rightarrow> py_error + (string, json) dict" where
  "section_of sec source = (case source of
     JObj kvs \<Rightarrow> (let v = rt_get kvs sec in if \<not> truthy v then Inr [] else py_items v)
   | _ \<Rightarrow> Inl AttributeError)"

definition members_of :: "json \<Rightarrow> py_error + json list" where
  "members_of v = (if \<not> truthy v then Inr [] else bind_err (py_iter v) py_set)"

text \<open>One source without the dropped names; \<open>None\<close> when nothing is left of it.\<close>

definition drop_from_source :: "string set \<Rightarrow> json \<Rightarrow> py_error + json option" where
  "drop_from_source gone source =
     bind_err (section_of ''endpoints'' source) (\<lambda>eps.
     bind_err (section_of ''bundles'' source) (\<lambda>bundles.
       let endpoints = filter (\<lambda>(n, s). n \<notin> gone) eps;
           dropped = JStr ` (set (dkeys eps) - set (dkeys endpoints))
       in bind_err (map_err (\<lambda>(n, m). bind_err (if n \<in> gone then Inr [] else members_of m) (\<lambda>ms.
              Inr (if n \<notin> gone \<and> set ms \<inter> dropped = {} then [(n, m)] else []))) bundles) (\<lambda>kept.
          let bundles = concat kept in
          if endpoints = [] \<and> bundles = [] then Inr None
          else (case source of
              JObj kvs \<Rightarrow> Inr (Some (JObj (dput ''bundles'' (JObj bundles) (dput ''endpoints'' (JObj endpoints) kvs))))
            | _ \<Rightarrow> Inl AttributeError))))"

definition drop_catalog_names :: "string set \<Rightarrow> json list \<Rightarrow> union_error + json list" where
  "drop_catalog_names gone sources =
     (case map_err (drop_from_source gone) sources of
        Inl e \<Rightarrow> Inl (NotMapping e)
      | Inr kept \<Rightarrow> Inr (List.map_filter (\<lambda>x. x) kept))"

definition merge_catalog_sources ::
    "(json \<Rightarrow> cat_error + 'c) \<Rightarrow> ('c \<Rightarrow> string \<Rightarrow> py_error + 'k) \<Rightarrow> ('c \<Rightarrow> string list)
     \<Rightarrow> ('c \<Rightarrow> (string, json list) dict) \<Rightarrow> (json \<Rightarrow> string) \<Rightarrow> json list \<Rightarrow> json list \<Rightarrow> union_error + json list" where
  "merge_catalog_sources read key names bundles_of digest published incoming =
     (let out = map or_mapping (dedup_sources digest (published @ incoming) [])
      in bind_err (from_sources read key names bundles_of out) (\<lambda>_. Inr out))"

section \<open>Adopting an invocation's catalogs\<close>

text \<open>The names a published source defines exactly as the invocation's union does.\<close>

fun same_in_source :: "('c \<Rightarrow> string \<Rightarrow> py_error + (cat_error + string)) \<Rightarrow> 'c union \<Rightarrow> (cat_error + 'c)
    \<Rightarrow> string list \<Rightarrow> union_error + string list" where
  "same_in_source key mine parsed [] = Inr []"
| "same_in_source key mine parsed (n # ns) =
     (case dget (un_owner mine) n of
        None \<Rightarrow> same_in_source key mine parsed ns
      | Some owner \<Rightarrow>
          (case parsed of
             Inl (PyRaised e) \<Rightarrow> Inl (BadCatalog (PyRaised e))
           | Inl _ \<Rightarrow> same_in_source key mine parsed ns
           | Inr cat \<Rightarrow>
               (case key cat n of
                  Inl e \<Rightarrow> Inl (BadCatalog (PyRaised e))
                | Inr (Inl _) \<Rightarrow> same_in_source key mine parsed ns
                | Inr (Inr k) \<Rightarrow>
                    (case key owner n of
                       Inl e \<Rightarrow> Inl (BadCatalog (PyRaised e))
                     | Inr k' \<Rightarrow> bind_err (same_in_source key mine parsed ns) (\<lambda>same.
                         Inr (if k' = Inr k then n # same else same))))))"

definition same_in :: "(json \<Rightarrow> cat_error + 'c) \<Rightarrow> ('c \<Rightarrow> string \<Rightarrow> py_error + (cat_error + string)) \<Rightarrow> 'c union
    \<Rightarrow> json \<Rightarrow> union_error + string list" where
  "same_in read key mine source =
     (case section_of ''endpoints'' source of
        Inl e \<Rightarrow> Inl (NotMapping e)
      | Inr eps \<Rightarrow> same_in_source key mine (read source) (dkeys eps))"

definition drop_repeated ::
    "(json \<Rightarrow> cat_error + 'c) \<Rightarrow> ('c \<Rightarrow> string \<Rightarrow> py_error + (cat_error + string)) \<Rightarrow> ('c \<Rightarrow> string list)
     \<Rightarrow> ('c \<Rightarrow> (string, json list) dict) \<Rightarrow> json list \<Rightarrow> json list \<Rightarrow> union_error + json list" where
  "drop_repeated read key names bundles_of published want =
     (if want = [] then Inr published
      else bind_err (from_sources read key names bundles_of want) (\<lambda>mine.
           bind_err (map_err (same_in read key mine) published) (\<lambda>same.
             drop_catalog_names (set (concat same)) published)))"

text \<open>The 64 rounds: each drops the names in conflict from the published sources.\<close>

fun settle_rounds ::
    "(json \<Rightarrow> cat_error + 'c) \<Rightarrow> ('c \<Rightarrow> string \<Rightarrow> py_error + 'k) \<Rightarrow> ('c \<Rightarrow> string list)
     \<Rightarrow> ('c \<Rightarrow> (string, json list) dict) \<Rightarrow> (json \<Rightarrow> string) \<Rightarrow> string set \<Rightarrow> nat \<Rightarrow> json list \<Rightarrow> json list
     \<Rightarrow> union_error + json list" where
  "settle_rounds read key names bundles_of digest pinned 0 base want = Inl Unsettled"
| "settle_rounds read key names bundles_of digest pinned (Suc i) base want =
     (case merge_catalog_sources read key names bundles_of digest base want of
        Inr out \<Rightarrow> Inr out
      | Inl e \<Rightarrow>
          (case conflict_names e of
             None \<Rightarrow> Inl e
           | Some ns \<Rightarrow>
               if ns = [] \<or> set ns \<inter> pinned \<noteq> {} then Inl e
               else bind_err (drop_catalog_names (set ns) base) (\<lambda>base.
                 settle_rounds read key names bundles_of digest pinned i base want)))"

definition adopt_catalog_sources ::
    "(json \<Rightarrow> cat_error + 'c) \<Rightarrow> ('c \<Rightarrow> string \<Rightarrow> py_error + (cat_error + string)) \<Rightarrow> ('c \<Rightarrow> string list)
     \<Rightarrow> ('c \<Rightarrow> (string, json list) dict) \<Rightarrow> (json \<Rightarrow> string) \<Rightarrow> json list \<Rightarrow> json list \<Rightarrow> string set
     \<Rightarrow> union_error + json list" where
  "adopt_catalog_sources read key names bundles_of digest published incoming pinned =
     (let want = map or_mapping incoming
      in bind_err (drop_repeated read key names bundles_of published want) (\<lambda>base.
           settle_rounds read key names bundles_of digest pinned 64 base want))"

section \<open>Pruning and drift\<close>

text \<open>\<open>prune_catalog_sources\<close>: the sources reduced to the definitions \<open>keep\<close> pins.\<close>

definition prune_source :: "string set \<Rightarrow> json \<Rightarrow> py_error + json option" where
  "prune_source keep source =
     bind_err (section_of ''endpoints'' source) (\<lambda>eps.
     bind_err (section_of ''bundles'' source) (\<lambda>bundles.
       let endpoints = filter (\<lambda>(n, s). n \<in> keep) eps;
           bundles = filter (\<lambda>(n, m). n \<in> keep) bundles
       in if endpoints = [] \<and> bundles = [] then Inr None
          else (case source of
              JObj kvs \<Rightarrow> Inr (Some (JObj (dput ''bundles'' (JObj bundles) (dput ''endpoints'' (JObj endpoints) kvs))))
            | _ \<Rightarrow> Inl AttributeError)))"

definition prune_catalog_sources :: "string set \<Rightarrow> json list \<Rightarrow> py_error + json list" where
  "prune_catalog_sources keep sources =
     bind_err (map_err (prune_source keep) sources) (\<lambda>kept. Inr (List.map_filter (\<lambda>x. x) kept))"

text \<open>A \<open>CatalogError\<close> is caught; what Python raises otherwise is not.\<close>

definition caught :: "union_error + 'a \<Rightarrow> union_error + 'a option" where
  "caught v = (case v of Inl (BadCatalog (PyRaised e)) \<Rightarrow> Inl (BadCatalog (PyRaised e))
     | Inl (NotMapping e) \<Rightarrow> Inl (NotMapping e) | Inl _ \<Rightarrow> Inr None | Inr x \<Rightarrow> Inr (Some x))"

fun within_union :: "('c \<Rightarrow> string \<Rightarrow> py_error + (cat_error + string)) \<Rightarrow> 'c union \<Rightarrow> 'c union option
    \<Rightarrow> string list \<Rightarrow> union_error + bool" where
  "within_union key mine theirs [] = Inr True"
| "within_union key mine theirs (n # ns) =
     (case theirs of None \<Rightarrow> Inr False
      | Some u \<Rightarrow> (case (dget (un_owner mine) n, dget (un_owner u) n) of
          (Some c, Some d) \<Rightarrow>
            (case key c n of Inl e \<Rightarrow> Inl (BadCatalog (PyRaised e)) | Inr (Inl _) \<Rightarrow> Inr False
             | Inr (Inr k) \<Rightarrow> (case key d n of Inl e \<Rightarrow> Inl (BadCatalog (PyRaised e))
                 | Inr k' \<Rightarrow> if k' = Inr k then within_union key mine theirs ns else Inr False))
        | _ \<Rightarrow> Inr False))"

definition catalogs_within ::
    "(json \<Rightarrow> cat_error + 'c) \<Rightarrow> ('c \<Rightarrow> string \<Rightarrow> py_error + (cat_error + string)) \<Rightarrow> ('c \<Rightarrow> string list)
     \<Rightarrow> ('c \<Rightarrow> (string, json list) dict) \<Rightarrow> (json \<Rightarrow> string) \<Rightarrow> json list \<Rightarrow> json list \<Rightarrow> union_error + bool" where
  "catalogs_within read key names bundles_of digest want known =
     (let unite = (\<lambda>ss. if ss = [] then Inr None
            else bind_err (from_sources read key names bundles_of ss) (\<lambda>u. Inr (Some u)))
      in if list_all (\<lambda>s. digest s \<in> set (map digest known)) want then Inr True
         else bind_err (caught (bind_err (unite want) (\<lambda>mine. bind_err (unite known) (\<lambda>theirs. Inr (mine, theirs))))) (\<lambda>both.
           case both of None \<Rightarrow> Inr False
           | Some (None, theirs) \<Rightarrow> Inr True
           | Some (Some mine, theirs) \<Rightarrow> within_union key mine theirs (dkeys (un_owner mine))))"

text \<open>\<open>profile_drift\<close>: the settings that differ; \<open>catalogs\<close> is a list of sources in both.\<close>

definition sources_in :: "(string, json) dict \<Rightarrow> json list" where
  "sources_in p = (case rt_get p ''catalogs'' of JList ss \<Rightarrow> ss | _ \<Rightarrow> [])"

definition drift_keys :: "(string, json) dict \<Rightarrow> (string, json) dict \<Rightarrow> string list" where
  "drift_keys published invocation =
     filter (\<lambda>k. k \<noteq> ''version'') (sort (remdups (dkeys published @ dkeys invocation)))"

definition profile_drift ::
    "(json list \<Rightarrow> json list \<Rightarrow> union_error + bool) \<Rightarrow> (string, json) dict \<Rightarrow> (string, json) dict
     \<Rightarrow> union_error + string list" where
  "profile_drift inside published invocation =
     bind_err (map_err (\<lambda>k.
       if k = ''catalogs'' then bind_err (inside (sources_in invocation) (sources_in published)) (\<lambda>ok.
           Inr (if ok then [] else [k]))
       else Inr (if canonical (rt_get published k) = canonical (rt_get invocation k) then [] else [k]))
       (drift_keys published invocation)) (\<lambda>kss. Inr (concat kss))"

section \<open>What a list of sources means\<close>

definition means :: "(json \<Rightarrow> cat_error + 'c) \<Rightarrow> ('c \<Rightarrow> string \<Rightarrow> 'k) \<Rightarrow> ('c \<Rightarrow> string list) \<Rightarrow> json list
    \<Rightarrow> (string \<times> 'k) set" where
  "means read key names sources = {(n, k). \<exists>s \<in> set sources. \<exists>c. read s = Inr c \<and> n \<in> set (names c) \<and> k = key c n}"

definition bundled :: "(json \<Rightarrow> cat_error + 'c) \<Rightarrow> ('c \<Rightarrow> (string, json list) dict) \<Rightarrow> json list
    \<Rightarrow> (string \<times> json list) set" where
  "bundled read bundles_of sources = {b. \<exists>s \<in> set sources. \<exists>c. read s = Inr c \<and> b \<in> set (bundles_of c)}"

definition owned :: "('c \<Rightarrow> string \<Rightarrow> 'k) \<Rightarrow> (string, 'c) dict \<Rightarrow> (string \<times> 'k) set" where
  "owned key owner = {(n, k). \<exists>c. dget owner n = Some c \<and> k = key c n}"

definition functional :: "('a \<times> 'b) set \<Rightarrow> bool" where
  "functional R \<longleftrightarrow> (\<forall>n k k'. (n, k) \<in> R \<longrightarrow> (n, k') \<in> R \<longrightarrow> k = k')"

definition contested :: "('a \<times> 'b) set \<Rightarrow> ('a \<times> 'c) set \<Rightarrow> 'a set" where
  "contested M B = {n. \<exists>k k'. (n, k) \<in> M \<and> (n, k') \<in> M \<and> k \<noteq> k'}
     \<union> {n. \<exists>k k'. (n, k) \<in> B \<and> (n, k') \<in> B \<and> k \<noteq> k'} \<union> fst ` M \<inter> fst ` B"

lemma contested_mono: "M \<subseteq> M' \<Longrightarrow> B \<subseteq> B' \<Longrightarrow> contested M B \<subseteq> contested M' B'"
  unfolding contested_def by blast

lemma owned_functional: "functional (owned key owner)"
  by (auto simp: functional_def owned_def)

lemma owned_dput:
  "dget owner n = None \<Longrightarrow> owned key (dput n cat owner) = insert (n, key cat n) (owned key owner)"
  by (auto simp: owned_def split: if_splits)

lemma add_endpoints_owned:
  "add_endpoints key cat ns owner = Inr owner' \<Longrightarrow>
   owned key owner' = owned key owner \<union> (\<lambda>n. (n, key cat n)) ` set ns"
proof (induction key cat ns owner rule: add_endpoints.induct)
  case (2 key cat n ns owner)
  show ?case
  proof (cases "dget owner n")
    case None
    then show ?thesis using 2 by (auto simp: owned_dput)
  next
    case (Some other)
    have k: "key other n = key cat n" and r: "add_endpoints key cat ns owner = Inr owner'"
      using 2(3) Some by (auto split: sum.splits if_splits)
    have "(n, key cat n) \<in> owned key owner" using Some k by (auto simp: owned_def)
    moreover have "owned key owner' = owned key owner \<union> (\<lambda>n. (n, key cat n)) ` set ns"
      using 2(2)[OF Some _ _ _ r] 2(3) Some by (auto split: sum.splits if_splits)
    ultimately show ?thesis by auto
  qed
qed simp

lemma add_endpoints_conflict:
  "add_endpoints key cat ns owner = Inl e \<Longrightarrow> conflict_names e = Some ms \<Longrightarrow>
   \<exists>n. ms = [n] \<and> n \<in> contested (owned key owner \<union> (\<lambda>n. (n, key cat n)) ` set ns) B"
proof (induction key cat ns owner rule: add_endpoints.induct)
  case (2 key cat n ns owner)
  show ?case
  proof (cases "dget owner n")
    case None
    then show ?thesis using 2 by (simp add: owned_dput insert_commute)
  next
    case (Some other)
    have o: "(n, key other n) \<in> owned key owner" using Some by (auto simp: owned_def)
    show ?thesis
    proof (cases "key other n = key cat n")
      case True
      then obtain k where k: "key other n = Inr k" "key cat n = Inr k"
        using 2(3,4) Some by (cases "key other n"; cases "key cat n") (auto simp: conflict_names_def)
      then have "\<exists>x. ms = [x] \<and> x \<in> contested (owned key owner \<union> (\<lambda>n. (n, key cat n)) ` set ns) B"
        using 2(2)[OF Some k(1) k(2) _ _ 2(4)] 2(3) Some by auto
      moreover have "contested (owned key owner \<union> (\<lambda>n. (n, key cat n)) ` set ns) B
          \<subseteq> contested (owned key owner \<union> (\<lambda>n. (n, key cat n)) ` set (n # ns)) B"
        by (rule contested_mono) auto
      ultimately show ?thesis by blast
    next
      case False
      then have "ms = [n]" using 2(3,4) Some by (auto simp: conflict_names_def split: sum.splits if_splits)
      moreover have "n \<in> contested (owned key owner \<union> (\<lambda>n. (n, key cat n)) ` set (n # ns)) B"
        using o False by (auto simp: contested_def)
      ultimately show ?thesis by blast
    qed
  qed
qed simp

text \<open>A dictionary as a set of entries, when its keys differ.\<close>

lemma add_bundles_set:
  "add_bundles bs bundles = Inr bundles' \<Longrightarrow> {(n, m). dget bundles' n = Some m} = {(n, m). dget bundles n = Some m} \<union> set bs"
proof (induction bs bundles rule: add_bundles.induct)
  case (2 n ms rest bundles)
  show ?case
  proof (cases "dget bundles n")
    case None
    then show ?thesis using 2 by (auto split: if_splits)
  next
    case (Some ms')
    then show ?thesis using 2 by (auto split: if_splits)
  qed
qed simp

lemma add_bundles_conflict:
  "add_bundles bs bundles = Inl e \<Longrightarrow> \<exists>n m m'. e = BundleConflict n \<and> m \<noteq> m' \<and>
     (n, m) \<in> {(n, m). dget bundles n = Some m} \<union> set bs \<and> (n, m') \<in> {(n, m). dget bundles n = Some m} \<union> set bs"
proof (induction bs bundles rule: add_bundles.induct)
  case (2 n ms rest bundles)
  show ?case
  proof (cases "dget bundles n")
    case None
    then have "\<exists>x m m'. e = BundleConflict x \<and> m \<noteq> m' \<and>
        (x, m) \<in> {(x, m). dget (dput n ms bundles) x = Some m} \<union> set rest
        \<and> (x, m') \<in> {(x, m). dget (dput n ms bundles) x = Some m} \<union> set rest"
      using 2(1)[OF None] 2(3) by simp
    moreover have "{(x, m). dget (dput n ms bundles) x = Some m} \<subseteq> {(x, m). dget bundles x = Some m} \<union> {(n, ms)}"
      by (auto split: if_splits)
    ultimately show ?thesis unfolding list.set by blast
  next
    case (Some ms')
    show ?thesis
    proof (cases "ms' = ms")
      case True
      then have "\<exists>x m m'. e = BundleConflict x \<and> m \<noteq> m' \<and>
          (x, m) \<in> {(x, m). dget (dput n ms bundles) x = Some m} \<union> set rest
          \<and> (x, m') \<in> {(x, m). dget (dput n ms bundles) x = Some m} \<union> set rest"
        using 2(2)[OF Some] 2(3) Some by simp
      moreover have "{(x, m). dget (dput n ms bundles) x = Some m} \<subseteq> {(x, m). dget bundles x = Some m} \<union> {(n, ms)}"
        by (auto split: if_splits)
      ultimately show ?thesis unfolding list.set by blast
    next
      case False
      then have "e = BundleConflict n" using 2(3) Some by auto
      then show ?thesis using False Some by auto
    qed
  qed
qed simp

lemma dget_pairs_functional: "functional {(n, m). dget d n = Some m}"
  by (auto simp: functional_def)

section \<open>Building a union\<close>

lemma add_catalogs_sets:
  assumes "add_catalogs key names bundles_of cats owner bundles = Inr (owner', bundles')"
  shows "owned key owner' = owned key owner \<union> {(n, k). \<exists>c \<in> set cats. n \<in> set (names c) \<and> k = key c n}"
    and "{(n, m). dget bundles' n = Some m} = {(n, m). dget bundles n = Some m} \<union> {b. \<exists>c \<in> set cats. b \<in> set (bundles_of c)}"
proof -
  have "owned key owner' = owned key owner \<union> {(n, k). \<exists>c \<in> set cats. n \<in> set (names c) \<and> k = key c n}
    \<and> {(n, m). dget bundles' n = Some m} = {(n, m). dget bundles n = Some m} \<union> {b. \<exists>c \<in> set cats. b \<in> set (bundles_of c)}"
    using assms
  proof (induction cats arbitrary: owner bundles)
    case (Cons cat cats)
    obtain o1 b1 where o1: "add_endpoints key cat (names cat) owner = Inr o1" "add_bundles (bundles_of cat) bundles = Inr b1"
      and r: "add_catalogs key names bundles_of cats o1 b1 = Inr (owner', bundles')"
      using Cons.prems by (auto simp: bind_err_Inr)
    show ?case using Cons.IH[OF r] add_endpoints_owned[OF o1(1)] add_bundles_set[OF o1(2)] by auto
  qed simp
  then show "owned key owner' = owned key owner \<union> {(n, k). \<exists>c \<in> set cats. n \<in> set (names c) \<and> k = key c n}"
    and "{(n, m). dget bundles' n = Some m} = {(n, m). dget bundles n = Some m} \<union> {b. \<exists>c \<in> set cats. b \<in> set (bundles_of c)}"
    by blast+
qed

lemma add_catalogs_conflict:
  assumes "add_catalogs key names bundles_of cats owner bundles = Inl e" and "conflict_names e = Some ms"
  shows "ms \<noteq> [] \<and> set ms \<subseteq> contested (owned key owner \<union> {(n, k). \<exists>c \<in> set cats. n \<in> set (names c) \<and> k = key c n})
    ({(n, m). dget bundles n = Some m} \<union> {b. \<exists>c \<in> set cats. b \<in> set (bundles_of c)})"
  using assms(1)
proof (induction cats arbitrary: owner bundles)
  case (Cons cat cats)
  let ?M = "owned key owner \<union> {(n, k). \<exists>c \<in> set (cat # cats). n \<in> set (names c) \<and> k = key c n}"
  let ?B = "{(n, m). dget bundles n = Some m} \<union> {b. \<exists>c \<in> set (cat # cats). b \<in> set (bundles_of c)}"
  show ?case
  proof (cases "add_endpoints key cat (names cat) owner")
    case (Inl e')
    then have "add_endpoints key cat (names cat) owner = Inl e" using Cons.prems by simp
    from add_endpoints_conflict[OF this assms(2), where B = ?B] obtain n
      where "ms = [n]" "n \<in> contested (owned key owner \<union> (\<lambda>n. (n, key cat n)) ` set (names cat)) ?B" by blast
    moreover have "contested (owned key owner \<union> (\<lambda>n. (n, key cat n)) ` set (names cat)) ?B \<subseteq> contested ?M ?B"
      by (rule contested_mono) auto
    ultimately show ?thesis by auto
  next
    case o1: (Inr o1)
    note O = add_endpoints_owned[OF o1]
    show ?thesis
    proof (cases "add_bundles (bundles_of cat) bundles")
      case (Inl e')
      then have "add_bundles (bundles_of cat) bundles = Inl e" using Cons.prems o1 by simp
      from add_bundles_conflict[OF this] obtain n m m' where e: "e = BundleConflict n" "m \<noteq> m'"
        "(n, m) \<in> ?B" "(n, m') \<in> ?B" by auto
      then have "ms = [n]" using assms(2) by (simp add: conflict_names_def)
      moreover have "n \<in> contested ?M ?B" using e unfolding contested_def by blast
      ultimately show ?thesis by simp
    next
      case b1: (Inr b1)
      have r: "add_catalogs key names bundles_of cats o1 b1 = Inl e" using Cons.prems o1 b1 by simp
      have "contested (owned key o1 \<union> {(n, k). \<exists>c \<in> set cats. n \<in> set (names c) \<and> k = key c n})
          ({(n, m). dget b1 n = Some m} \<union> {b. \<exists>c \<in> set cats. b \<in> set (bundles_of c)}) \<subseteq> contested ?M ?B"
        by (rule contested_mono) (use O add_bundles_set[OF b1] in auto)
      then show ?thesis using Cons.IH[OF r] by blast
    qed
  qed
qed simp

lemma map_err_read:
  "map_err read sources = Inr cats \<Longrightarrow> means read key names sources = {(n, k). \<exists>c \<in> set cats. n \<in> set (names c) \<and> k = key c n}
     \<and> bundled read bundles_of sources = {b. \<exists>c \<in> set cats. b \<in> set (bundles_of c)}
     \<and> (\<forall>s \<in> set sources. \<exists>c. read s = Inr c)"
proof (induction sources arbitrary: cats)
  case (Cons s sources)
  then obtain c cs where c: "read s = Inr c" "cats = c # cs" "map_err read sources = Inr cs"
    by (auto simp: bind_err_Inr)
  have "\<And>n k. (n, k) \<in> means read key names sources \<longleftrightarrow> (\<exists>c \<in> set cs. n \<in> set (names c) \<and> k = key c n)"
    and "\<And>b. b \<in> bundled read bundles_of sources \<longleftrightarrow> (\<exists>c \<in> set cs. b \<in> set (bundles_of c))"
    and "\<forall>s \<in> set sources. \<exists>c. read s = Inr c"
    using Cons.IH[OF c(3)] by simp_all
  then show ?case using c(1,2) by (simp add: means_def bundled_def set_eq_iff)
qed (simp add: means_def bundled_def)

lemma from_sources_Inr:
  assumes "from_sources read key names bundles_of sources = Inr u"
  shows "owned key (un_owner u) = means read key names sources" and "un_sources u = map or_mapping sources"
    and "\<forall>s \<in> set sources. \<exists>c. read s = Inr c"
    and "contested (means read key names sources) (bundled read bundles_of sources) = {}"
proof -
  obtain cats where c: "map_err read sources = Inr cats" and m: "make_union key names bundles_of (map or_mapping sources) cats = Inr u"
    using assms by (auto simp: from_sources_def bind_err_Inr split: sum.splits)
  obtain owner bundles where a: "add_catalogs key names bundles_of cats [] [] = Inr (owner, bundles)"
    and n: "filter (\<lambda>n. n \<in> set (dkeys owner)) (dkeys bundles) = []"
    and u: "u = \<lparr>un_sources = map or_mapping sources, un_catalogs = cats, un_owner = owner, un_bundles = bundles\<rparr>"
  proof -
    obtain p where p: "add_catalogs key names bundles_of cats [] [] = Inr p"
      using m by (auto simp: make_union_def bind_err_Inr)
    show ?thesis
    proof (cases "sort (filter (\<lambda>n. n \<in> set (dkeys (fst p))) (dkeys (snd p)))")
      case Nil
      then show ?thesis using m p that[of "fst p" "snd p"] by (simp add: make_union_def split_beta)
    qed (use m p in \<open>simp add: make_union_def split_beta\<close>)
  qed
  note A = add_catalogs_sets[OF a] and R = map_err_read[OF c, of key names bundles_of]
  have M: "means read key names sources = owned key owner" and B: "bundled read bundles_of sources = {(n, m). dget bundles n = Some m}"
    using A R by (auto simp: owned_def)
  show "owned key (un_owner u) = means read key names sources" "un_sources u = map or_mapping sources" using M u by simp_all
  show "\<forall>s \<in> set sources. \<exists>c. read s = Inr c" using R by blast
  have "fst ` means read key names sources \<inter> fst ` bundled read bundles_of sources = {}"
    unfolding M B owned_def using n by (force simp: filter_empty_conv dest: dget_in_dkeys)
  then show "contested (means read key names sources) (bundled read bundles_of sources) = {}"
    using owned_functional[of key owner] dget_pairs_functional[of bundles]
    unfolding contested_def functional_def M B by blast
qed

lemma from_sources_conflict:
  assumes "from_sources read key names bundles_of sources = Inl e" and "conflict_names e = Some ms"
  shows "ms \<noteq> [] \<and> set ms \<subseteq> contested (means read key names sources) (bundled read bundles_of sources)"
proof -
  obtain cats where c: "map_err read sources = Inr cats" and m: "make_union key names bundles_of (map or_mapping sources) cats = Inl e"
    using assms by (auto simp: from_sources_def conflict_names_def split: sum.splits)
  note R = map_err_read[OF c, of key names bundles_of]
  have means_read: "\<And>n k. (n, k) \<in> means read key names sources \<longleftrightarrow> (\<exists>c \<in> set cats. n \<in> set (names c) \<and> k = key c n)"
    and bundled_read: "\<And>b. b \<in> bundled read bundles_of sources \<longleftrightarrow> (\<exists>c \<in> set cats. b \<in> set (bundles_of c))"
    using R by simp_all
  show ?thesis
  proof (cases "add_catalogs key names bundles_of cats [] []")
    case (Inl e')
    then have "add_catalogs key names bundles_of cats [] [] = Inl e" using m by (simp add: make_union_def)
    from add_catalogs_conflict[OF this assms(2)] show ?thesis using R by (simp add: owned_def)
  next
    case (Inr p)
    obtain owner bundles where p: "p = (owner, bundles)" by (cases p)
    note A = add_catalogs_sets[OF Inr[unfolded p]]
    let ?clash = "sort (filter (\<lambda>n. n \<in> set (dkeys owner)) (dkeys bundles))"
    have e: "?clash \<noteq> []" "e = NameClash ?clash"
      using m Inr p by (auto simp: make_union_def split: list.splits)
    then have ms: "ms = ?clash" using assms(2) by (simp add: conflict_names_def)
    have "n \<in> fst ` means read key names sources \<inter> fst ` bundled read bundles_of sources" if "n \<in> set ?clash" for n
    proof -
      have n: "n \<in> set (dkeys owner)" "n \<in> set (dkeys bundles)" using that by auto
      then obtain c m where "dget owner n = Some c" "dget bundles n = Some m" by (meson dget_None_iff not_None_eq)
      then have "(n, key c n) \<in> owned key owner" "(n, m) \<in> {(n, m). dget bundles n = Some m}" by (auto simp: owned_def)
      then have "\<exists>c' \<in> set cats. n \<in> set (names c') \<and> key c n = key c' n" "\<exists>c \<in> set cats. (n, m) \<in> set (bundles_of c)"
        unfolding A by (simp_all add: owned_def)
      then have "(n, key c n) \<in> means read key names sources" "(n, m) \<in> bundled read bundles_of sources"
        unfolding means_read bundled_read .
      then show ?thesis by (auto intro: rev_image_eqI)
    qed
    then show ?thesis using e(1) unfolding ms contested_def by blast
  qed
qed

section \<open>Deduplication\<close>

lemma dedup_twin:
  "s \<in> set ss \<Longrightarrow> digest s \<in> set seen \<or> (\<exists>t \<in> set (dedup_sources digest ss seen). digest t = digest s)"
  by (induction digest ss seen rule: dedup_sources.induct) auto

lemma dedup_subset: "set (dedup_sources digest ss seen) \<subseteq> set ss"
  by (induction digest ss seen rule: dedup_sources.induct) auto

lemma dedup_append:
  "dedup_sources digest (ss @ ts) seen = dedup_sources digest ss seen @ dedup_sources digest ts (map digest (rev (dedup_sources digest ss seen)) @ seen)"
  by (induction digest ss seen rule: dedup_sources.induct) auto

end
