(* ===== verification/Adoption.thy ===== *)
theory Adoption
  imports
  Published
begin

text \<open>
  What an acquire's adoption of its catalogs keeps (\<open>adopt_catalog_sources\<close> of \<open>leasing/profile.py\<close>).

  The locale \<open>catalog_reader\<close> states what the union relies on; inside it, an invariant of the settling
  rounds and the theorem \<open>adopt_keeps\<close>. The catalog model of \<open>Catalog\<close> is shown to provide the
  interface, and the property is stated on it.
\<close>

lemma contested_union:
  assumes "contested M B = {}" and "contested N C = {}"
  shows "contested (M \<union> N) (B \<union> C) \<subseteq> fst ` N \<union> fst ` C"
proof (intro subsetI, rule ccontr)
  fix n assume n: "n \<in> contested (M \<union> N) (B \<union> C)" and out: "n \<notin> fst ` N \<union> fst ` C"
  have N: "(n, k) \<notin> N" for k using out by force
  have C: "(n, k) \<notin> C" for k using out by force
  have "(\<exists>k k'. (n, k) \<in> M \<and> (n, k') \<in> M \<and> k \<noteq> k') \<or> (\<exists>k k'. (n, k) \<in> B \<and> (n, k') \<in> B \<and> k \<noteq> k')
      \<or> n \<in> fst ` M \<inter> fst ` B"
    using n out N C by (simp add: contested_def image_Un)
  then have "n \<in> contested M B" unfolding contested_def by simp
  then show False using assms(1) by simp
qed

section \<open>The interface of a catalog\<close>

text \<open>
  What the union and its update need of a catalog: reading a source, the names and bundles it has and
  what a name means, and that dropping names from a source drops exactly them.
\<close>

locale catalog_reader =
  fixes read :: "json \<Rightarrow> cat_error + 'c"
    and key :: "'c \<Rightarrow> string \<Rightarrow> py_error + (cat_error + string)"
    and names :: "'c \<Rightarrow> string list"
    and bundles_of :: "'c \<Rightarrow> (string, json list) dict"
    and digest :: "json \<Rightarrow> string"
  assumes section_names: "read s = Inr c \<Longrightarrow> section_of ''endpoints'' s = Inr eps \<Longrightarrow> dkeys eps = names c"
    and read_dropped: "read s = Inr c \<Longrightarrow> drop_from_source gone s = Inr (Some s') \<Longrightarrow>
      \<exists>c'. read s' = Inr c' \<and> set (names c') = set (names c) - gone
         \<and> (\<forall>n. n \<in> set (names c') \<longrightarrow> key c' n = key c n) \<and> set (bundles_of c') \<subseteq> set (bundles_of c)"
    and read_gone: "read s = Inr c \<Longrightarrow> drop_from_source gone s = Inr None \<Longrightarrow> set (names c) \<subseteq> gone"
    and same_digest: "read s = Inr c \<Longrightarrow> read t = Inr d \<Longrightarrow> digest s = digest t \<Longrightarrow> set (names c) = set (names d)"
    and read_or_mapping: "read (or_mapping s) = read s"
begin

abbreviation "defines \<equiv> means read key names"
abbreviation "bundling \<equiv> bundled read bundles_of"
abbreviation "merge \<equiv> merge_catalog_sources read key names bundles_of digest"
abbreviation "unite \<equiv> from_sources read key names bundles_of"
abbreviation readable :: "json list \<Rightarrow> bool" where "readable ss \<equiv> \<forall>s \<in> set ss. \<exists>c. read s = Inr c"

lemma in_defines: "(n, k) \<in> defines ss \<longleftrightarrow> (\<exists>s \<in> set ss. \<exists>c. read s = Inr c \<and> n \<in> set (names c) \<and> k = key c n)"
  by (simp add: means_def)

lemma in_bundling: "b \<in> bundling ss \<longleftrightarrow> (\<exists>s \<in> set ss. \<exists>c. read s = Inr c \<and> b \<in> set (bundles_of c))"
  by (simp add: bundled_def)

lemma defines_or_mapping: "defines (map or_mapping ss) = defines ss"
  by (auto simp: in_defines read_or_mapping)

lemma bundling_or_mapping: "bundling (map or_mapping ss) = bundling ss"
  by (auto simp: in_bundling read_or_mapping)

lemma readable_or_mapping: "readable (map or_mapping ss) \<longleftrightarrow> readable ss"
  by (simp add: read_or_mapping)

lemma defines_append: "defines (ss @ ts) = defines ss \<union> defines ts"
  unfolding means_def set_append by blast

lemma bundling_append: "bundling (ss @ ts) = bundling ss \<union> bundling ts"
  unfolding bundled_def set_append by blast

lemma defines_mono: "set ss \<subseteq> set ts \<Longrightarrow> defines ss \<subseteq> defines ts"
  unfolding means_def by blast

lemma bundling_mono: "set ss \<subseteq> set ts \<Longrightarrow> bundling ss \<subseteq> bundling ts"
  unfolding bundled_def by blast

subsection \<open>Dropping names\<close>

lemma drop_names_elem:
  "map_err (drop_from_source gone) ss = Inr kept \<Longrightarrow> t \<in> set (List.map_filter (\<lambda>x. x) kept) \<longleftrightarrow>
     (\<exists>s \<in> set ss. drop_from_source gone s = Inr (Some t))"
proof (induction ss arbitrary: kept)
  case (Cons s ss)
  then obtain r rs where r: "drop_from_source gone s = Inr r" "map_err (drop_from_source gone) ss = Inr rs" "kept = r # rs"
    by (auto simp: bind_err_Inr)
  show ?case using Cons.IH[OF r(2)] r(1,3) by (cases r) (auto simp: map_filter_simps)
qed (simp add: map_filter_simps)

lemma drop_names_total:
  "map_err (drop_from_source gone) ss = Inr kept \<Longrightarrow> s \<in> set ss \<Longrightarrow> \<exists>r. drop_from_source gone s = Inr r"
  by (induction ss arbitrary: kept) (auto simp: bind_err_Inr)

lemma drop_names:
  assumes "drop_catalog_names gone ss = Inr ts" and r: "readable ss"
  shows "readable ts" and "defines ts = {(n, k) \<in> defines ss. n \<notin> gone}" and "bundling ts \<subseteq> bundling ss"
proof -
  obtain kept where k: "map_err (drop_from_source gone) ss = Inr kept" "ts = List.map_filter (\<lambda>x. x) kept"
    using assms(1) by (auto simp: drop_catalog_names_def split: sum.splits)
  note T = drop_names_elem[OF k(1), folded k(2)]
  show "readable ts"
  proof
    fix t assume "t \<in> set ts"
    then obtain s where "s \<in> set ss" "drop_from_source gone s = Inr (Some t)" using T by blast
    then show "\<exists>c. read t = Inr c" using r read_dropped by blast
  qed
  show "bundling ts \<subseteq> bundling ss"
  proof
    fix b assume "b \<in> bundling ts"
    then obtain t c' where t: "t \<in> set ts" "read t = Inr c'" "b \<in> set (bundles_of c')" by (auto simp: in_bundling)
    obtain s where s: "s \<in> set ss" "drop_from_source gone s = Inr (Some t)" using t T by blast
    obtain c where c: "read s = Inr c" using r s by blast
    have "b \<in> set (bundles_of c)" using read_dropped[OF c s(2)] t(2,3) by auto
    then show "b \<in> bundling ss" using s c by (auto simp: in_bundling)
  qed
  show "defines ts = {(n, k) \<in> defines ss. n \<notin> gone}"
  proof (intro set_eqI iffI; clarify)
    fix n k assume "(n, k) \<in> defines ts"
    then obtain t c' where t: "t \<in> set ts" "read t = Inr c'" "n \<in> set (names c')" "k = key c' n"
      by (auto simp: in_defines)
    obtain s where s: "s \<in> set ss" "drop_from_source gone s = Inr (Some t)" using t T by blast
    obtain c where c: "read s = Inr c" using r s by blast
    have "n \<in> set (names c) - gone \<and> key c' n = key c n" using read_dropped[OF c s(2)] t by auto
    then show "(n, k) \<in> defines ss \<and> n \<notin> gone" using s c t by (auto simp: in_defines)
  next
    fix n k assume nk: "(n, k) \<in> defines ss" "n \<notin> gone"
    then obtain s c where s: "s \<in> set ss" "read s = Inr c" "n \<in> set (names c)" "k = key c n"
      by (auto simp: in_defines)
    obtain r where r': "drop_from_source gone s = Inr r" using drop_names_total[OF k(1) s(1)] by blast
    show "(n, k) \<in> defines ts"
    proof (cases r)
      case None
      then show ?thesis using read_gone[OF s(2)] r' s nk by auto
    next
      case (Some t)
      obtain c' where c': "read t = Inr c'" "set (names c') = set (names c) - gone" "\<forall>n. n \<in> set (names c') \<longrightarrow> key c' n = key c n"
        using read_dropped[OF s(2)] r' Some by blast
      have "t \<in> set ts" using T s r' Some by blast
      then show ?thesis unfolding in_defines
        by (intro bexI[of _ t] exI[of _ c']) (use c' s nk(2) in simp_all)
    qed
  qed
qed

subsection \<open>Merging\<close>

lemma merge_Inr:
  assumes "merge base want = Inr out"
  shows "\<exists>u. unite out = Inr u" and "out = map or_mapping (dedup_sources digest (base @ want) [])"
  using assms by (auto simp: merge_catalog_sources_def bind_err_Inr Let_def)

lemma merge_conflict:
  assumes "merge base want = Inl e" and "conflict_names e = Some ns"
    and "contested (defines base) (bundling base) = {}" and "contested (defines want) (bundling want) = {}"
  shows "ns \<noteq> [] \<and> set ns \<subseteq> fst ` defines want \<union> fst ` bundling want"
proof -
  let ?d = "dedup_sources digest (base @ want) []"
  have "unite (map or_mapping ?d) = Inl e" using assms(1)
    by (cases "unite (map or_mapping ?d)") (simp_all add: merge_catalog_sources_def Let_def)
  from from_sources_conflict[OF this assms(2)] have n: "ns \<noteq> []" "set ns \<subseteq> contested (defines ?d) (bundling ?d)"
    by (simp_all add: defines_or_mapping bundling_or_mapping)
  have "contested (defines ?d) (bundling ?d) \<subseteq> contested (defines base \<union> defines want) (bundling base \<union> bundling want)"
    using defines_mono[OF dedup_subset] bundling_mono[OF dedup_subset]
    by (intro contested_mono) (simp_all only: defines_append[symmetric] bundling_append[symmetric])
  also have "\<dots> \<subseteq> fst ` defines want \<union> fst ` bundling want"
    by (rule contested_union[OF assms(3,4)])
  finally show ?thesis using n by blast
qed

end

lemma in_fst_imageE:
  assumes "n \<in> fst ` R" obtains k where "(n, k) \<in> R"
  using assms by auto

context catalog_reader
begin

subsection \<open>Deduplicating base and incoming sources\<close>

text \<open>A source is merged, or another one with the same names is.\<close>

lemma merged_twin:
  assumes "readable ss" and "s \<in> set ss" and "read s = Inr c"
  shows "\<exists>t \<in> set (dedup_sources digest ss []). \<exists>d. read t = Inr d \<and> set (names d) = set (names c)"
proof -
  obtain t where t: "t \<in> set (dedup_sources digest ss [])" "digest t = digest s"
    using dedup_twin[OF assms(2), of digest "[]"] by auto
  then obtain d where "read t = Inr d" using assms(1) dedup_subset[of digest ss "[]"] by blast
  then show ?thesis using same_digest[OF _ assms(3) t(2)] t(1) by blast
qed

lemma merged_defines:
  assumes "merge base want = Inr out" and r: "readable base" "readable want"
  shows "defines out \<subseteq> defines base \<union> defines want"
    and "fst ` defines base \<union> fst ` defines want \<subseteq> fst ` defines out"
    and "contested (defines base) (bundling base) = {} \<Longrightarrow> defines base \<subseteq> defines out"
proof -
  let ?d = "dedup_sources digest (base @ want) []"
  have out: "defines out = defines ?d" using merge_Inr(2)[OF assms(1)] by (simp add: defines_or_mapping)
  show "defines out \<subseteq> defines base \<union> defines want"
    unfolding out defines_append[symmetric] by (rule defines_mono[OF dedup_subset])
  show "fst ` defines base \<union> fst ` defines want \<subseteq> fst ` defines out"
  proof
    fix n assume "n \<in> fst ` defines base \<union> fst ` defines want"
    then obtain k where "(n, k) \<in> defines (base @ want)" 
      unfolding defines_append by (metis Un_iff in_fst_imageE)
    then obtain s c where s: "s \<in> set (base @ want)" "read s = Inr c" "n \<in> set (names c)" by (auto simp: in_defines)
    have "readable (base @ want)" using r by auto
    from merged_twin[OF this s(1,2)] obtain t d where "t \<in> set ?d" "read t = Inr d" "n \<in> set (names d)" using s(3) by blast
    then have "(n, key d n) \<in> defines ?d" by (auto simp: in_defines)
    then show "n \<in> fst ` defines out" unfolding out by (rule image_eqI[rotated]) simp
  qed
  assume base: "contested (defines base) (bundling base) = {}"
  show "defines base \<subseteq> defines out"
  proof clarify
    fix n k assume nk: "(n, k) \<in> defines base"
    then obtain s c where s: "s \<in> set base" "read s = Inr c" "n \<in> set (names c)" by (auto simp: in_defines)
    from merged_twin[OF r(1) s(1,2)] obtain t d
      where t: "t \<in> set (dedup_sources digest base [])" "read t = Inr d" "n \<in> set (names d)" using s(3) by blast
    then have "(n, key d n) \<in> defines base" using dedup_subset[of digest base "[]"] by (auto simp: in_defines)
    then have "key d n = k" using nk base unfolding contested_def by blast
    then have "(n, k) \<in> defines ?d" using t by (auto simp: in_defines dedup_append)
    then show "(n, k) \<in> defines out" unfolding out .
  qed
qed

subsection \<open>The settled union\<close>

text \<open>What the rounds keep: the base is the published sources without \<open>gone\<close>.\<close>

definition settling :: "json list \<Rightarrow> json list \<Rightarrow> string set \<Rightarrow> string set \<Rightarrow> string set \<Rightarrow> json list \<Rightarrow> bool" where
  "settling published want pinned same gone base \<longleftrightarrow>
     readable base \<and> defines base = {(n, k) \<in> defines published. n \<notin> gone}
     \<and> bundling base \<subseteq> bundling published
     \<and> same \<subseteq> gone \<and> gone \<subseteq> same \<union> (fst ` defines want \<union> fst ` bundling want - pinned)"

lemma settlingD:
  assumes "settling published want pinned same gone base"
  shows "readable base" "defines base = {(n, k) \<in> defines published. n \<notin> gone}" "bundling base \<subseteq> bundling published"
    "same \<subseteq> gone" "gone \<subseteq> same \<union> (fst ` defines want \<union> fst ` bundling want - pinned)"
  by (insert assms[unfolded settling_def]) (elim conjE, assumption)+

lemma settle_merges:
  assumes "settle_rounds read key names bundles_of digest pinned i base want = Inr out"
    and "settling published want pinned same gone base"
    and "contested (defines published) (bundling published) = {}"
    and "contested (defines want) (bundling want) = {}"
  shows "\<exists>gone base. settling published want pinned same gone base \<and> merge base want = Inr out"
  using assms(1,2)
proof (induction i arbitrary: base gone)
  case (Suc i)
  show ?case
  proof (cases "merge base want")
    case (Inr o')
    then show ?thesis using Suc.prems by auto
  next
    case (Inl e)
    obtain ns where ns: "conflict_names e = Some ns" "set ns \<inter> pinned = {}"
      using Suc.prems(1) Inl by (cases "conflict_names e") (auto split: if_splits)
    obtain base' where b: "drop_catalog_names (set ns) base = Inr base'"
      and rest: "settle_rounds read key names bundles_of digest pinned i base' want = Inr out"
      using Suc.prems(1) Inl ns(1) by (auto simp: bind_err_Inr split: if_splits)
    note st = settlingD[OF Suc.prems(2)]
    have "contested (defines base) (bundling base) \<subseteq> contested (defines published) (bundling published)"
      unfolding st(2) by (rule contested_mono[OF _ st(3)]) blast
    then have "contested (defines base) (bundling base) = {}" using assms(3) by blast
    from merge_conflict[OF Inl ns(1) this assms(4)] have nsw: "set ns \<subseteq> fst ` defines want \<union> fst ` bundling want" by blast
    have "settling published want pinned same (gone \<union> set ns) base'"
      unfolding settling_def
    proof (intro conjI)
      show "defines base' = {(n, k) \<in> defines published. n \<notin> gone \<union> set ns}"
        unfolding drop_names(2)[OF b st(1)] st(2) by auto
      show "bundling base' \<subseteq> bundling published" using drop_names(3)[OF b st(1)] st(3) by (rule subset_trans)
      show "same \<subseteq> gone \<union> set ns" using st(4) by blast
      show "gone \<union> set ns \<subseteq> same \<union> (fst ` defines want \<union> fst ` bundling want - pinned)"
        using st(5) nsw ns(2) by blast
    qed (rule drop_names(1)[OF b st(1)])
    from Suc.IH[OF rest this] show ?thesis .
  qed
qed simp

text \<open>The names repeated in the published sources have the meaning the invocation gives them.\<close>

lemma same_in_source_means:
  "same_in_source key mine (Inr c) ns = Inr same \<Longrightarrow> n \<in> set same \<Longrightarrow>
   n \<in> set ns \<and> (n, key c n) \<in> owned key (un_owner mine)"
proof (induction ns arbitrary: same)
  case (Cons m ns)
  show ?case
  proof (cases "dget (un_owner mine) m")
    case None
    then show ?thesis using Cons by auto
  next
    case (Some owner)
    show ?thesis
    proof (cases "key c m")
      case (Inr r)
      then show ?thesis
        using Cons Some by (cases r) (auto simp: bind_err_Inr owned_def split: sum.splits if_splits)
    qed (use Cons Some in simp)
  qed
qed simp

lemma same_in_means:
  assumes "map_err (same_in read key mine) published = Inr same" and "readable published" and "n \<in> set (concat same)"
  shows "\<exists>k. (n, k) \<in> defines published \<and> (n, k) \<in> owned key (un_owner mine)"
  using assms
proof (induction published arbitrary: same)
  case (Cons s published)
  obtain x xs where x: "same_in read key mine s = Inr x" "map_err (same_in read key mine) published = Inr xs" "same = x # xs"
    using Cons.prems(1) by (auto simp: bind_err_Inr)
  obtain c where c: "read s = Inr c" using Cons.prems(2) by auto
  show ?case
  proof (cases "n \<in> set x")
    case True
    obtain eps where e: "section_of ''endpoints'' s = Inr eps" "same_in_source key mine (Inr c) (dkeys eps) = Inr x"
      using x(1) c by (auto simp: same_in_def split: sum.splits)
    have "(n, key c n) \<in> defines (s # published)"
      using same_in_source_means[OF e(2) True] section_names[OF c e(1)] c by (auto simp: in_defines)
    then show ?thesis using same_in_source_means[OF e(2) True] by blast
  next
    case False
    then have "\<exists>k. (n, k) \<in> defines published \<and> (n, k) \<in> owned key (un_owner mine)"
      using Cons.IH[OF x(2)] Cons.prems x(3) by simp
    moreover have "defines published \<subseteq> defines (s # published)" by (rule defines_mono) auto
    ultimately show ?thesis by blast
  qed
qed simp

lemma drop_repeated_settling:
  assumes "drop_repeated read key names bundles_of published want = Inr base" and "readable published"
  shows "readable want" and "contested (defines want) (bundling want) = {}"
    and "\<exists>same. settling published want pinned same same base
       \<and> (\<forall>n \<in> same. \<exists>k. (n, k) \<in> defines published \<and> (n, k) \<in> defines want)"
proof -
  have "readable want \<and> contested (defines want) (bundling want) = {} \<and> (\<exists>same. settling published want pinned same same base
       \<and> (\<forall>n \<in> same. \<exists>k. (n, k) \<in> defines published \<and> (n, k) \<in> defines want))"
  proof (cases "want = []")
    case True
    then have "settling published want pinned {} {} base" using assms by (simp add: drop_repeated_def settling_def)
    then show ?thesis using True by (auto simp: contested_def means_def bundled_def)
  next
    case False
    then obtain mine same where m: "unite want = Inr mine" "map_err (same_in read key mine) published = Inr same"
      "drop_catalog_names (set (concat same)) published = Inr base"
      using assms(1) by (auto simp: drop_repeated_def bind_err_Inr)
    note M = from_sources_Inr[OF m(1)]
    have "settling published want pinned (set (concat same)) (set (concat same)) base"
      unfolding settling_def using drop_names[OF m(3) assms(2)] by blast
    moreover have "\<exists>k. (n, k) \<in> defines published \<and> (n, k) \<in> defines want" if "n \<in> set (concat same)" for n
      using same_in_means[OF m(2) assms(2) that] M(1) by simp
    ultimately show ?thesis using M(3,4) by blast
  qed
  then show "readable want" and "contested (defines want) (bundling want) = {}"
    and "\<exists>same. settling published want pinned same same base
       \<and> (\<forall>n \<in> same. \<exists>k. (n, k) \<in> defines published \<and> (n, k) \<in> defines want)" by blast+
qed

theorem adopt_keeps:
  assumes "adopt_catalog_sources read key names bundles_of digest published incoming pinned = Inr out"
    and "unite published = Inr p"
  shows "\<exists>u. unite out = Inr u
     \<and> fst ` defines incoming \<subseteq> fst ` owned key (un_owner u)
     \<and> owned key (un_owner u) \<subseteq> owned key (un_owner p) \<union> defines incoming
     \<and> (\<forall>n k. (n, k) \<in> owned key (un_owner p) \<and> (n \<in> pinned \<or> n \<notin> fst ` defines incoming \<union> fst ` bundling incoming)
           \<longrightarrow> (n, k) \<in> owned key (un_owner u))"
proof -
  define want where "want = map or_mapping incoming"
  note P = from_sources_Inr[OF assms(2)]
  obtain base where d: "drop_repeated read key names bundles_of published want = Inr base"
    and s: "settle_rounds read key names bundles_of digest pinned 64 base want = Inr out"
    using assms(1) by (auto simp: adopt_catalog_sources_def want_def Let_def bind_err_Inr)
  note D = drop_repeated_settling(1,2)[OF d P(3)]
  obtain same where same: "settling published want pinned same same base"
    "\<forall>n \<in> same. \<exists>k. (n, k) \<in> defines published \<and> (n, k) \<in> defines want" using drop_repeated_settling(3)[OF d P(3), of pinned] by blast
  obtain gone base' where g: "settling published want pinned same gone base'" "merge base' want = Inr out"
    using settle_merges[OF s same(1) P(4) D(2)] by blast
  obtain u where u: "unite out = Inr u" using merge_Inr(1)[OF g(2)] by blast
  note U = from_sources_Inr[OF u]
  have W: "defines want = defines incoming" "bundling want = bundling incoming"
    by (simp_all add: want_def defines_or_mapping bundling_or_mapping)
  note G = settlingD[OF g(1)]
  note M = merged_defines[OF g(2) G(1) D(1)]
  have B: "contested (defines base') (bundling base') = {}"
  proof -
    have "contested (defines base') (bundling base') \<subseteq> contested (defines published) (bundling published)"
      unfolding G(2) by (rule contested_mono[OF _ G(3)]) blast
    then show ?thesis using P(4) by blast
  qed
  have single: "(n, k) \<in> defines out"
    if n: "(n, k) \<in> defines published" and keep: "n \<in> pinned \<or> n \<notin> fst ` defines incoming \<union> fst ` bundling incoming" for n k
  proof -
    have agree: "k = k'" if "(n, k') \<in> defines published" for k' using that n P(4) unfolding contested_def by blast
    show ?thesis
    proof (cases "n \<in> gone")
      case False
      then show ?thesis using n M(3)[OF B] unfolding G(2) by blast
    next
      case True
      have "n \<notin> fst ` defines want \<union> fst ` bundling want - pinned" using keep unfolding W by blast
      then have "n \<in> same" using True G(5) by blast
      then obtain k0 where k0: "(n, k0) \<in> defines published" "(n, k0) \<in> defines want" using same(2) by blast
      then have kk: "(n, k) \<in> defines want" using agree by blast
      then have "n \<in> fst ` defines want" by (rule image_eqI[rotated]) simp
      then have "n \<in> fst ` defines out" using M(2) by blast
      then obtain k' where o: "(n, k') \<in> defines out" by (rule in_fst_imageE)
      have "(n, k') \<notin> defines base'" unfolding G(2) using True by blast
      then have "(n, k') \<in> defines want" using M(1) o by blast
      then have "k' = k" using kk D(2) unfolding contested_def by blast
      then show ?thesis using o by simp
    qed
  qed
  show ?thesis
  proof (intro exI conjI allI impI)
    show "unite out = Inr u" by (fact u)
    show "fst ` defines incoming \<subseteq> fst ` owned key (un_owner u)" unfolding U(1) W[symmetric] using M(2) by blast
    show "owned key (un_owner u) \<subseteq> owned key (un_owner p) \<union> defines incoming"
    proof -
      have "defines base' \<subseteq> defines published" unfolding G(2) by auto
      then show ?thesis unfolding U(1) P(1) W(1)[symmetric] using M(1) by blast
    qed
    fix n k assume "(n, k) \<in> owned key (un_owner p) \<and> (n \<in> pinned \<or> n \<notin> fst ` defines incoming \<union> fst ` bundling incoming)"
    then show "(n, k) \<in> owned key (un_owner u)" unfolding U(1) P(1) using single by blast
  qed
qed

end

section \<open>The catalog provides the interface\<close>

lemma dget_filter_keys: "dget (filter (\<lambda>(k, v). P k) d) k = (if P k then dget d k else None)"
  by (induction d) (auto simp: dget_def)

lemma dget_filter_head: "dget d k = (case filter (\<lambda>p. fst p = k) d of [] \<Rightarrow> None | p # _ \<Rightarrow> Some (snd p))"
  by (induction d) (auto simp: dget_def)

lemma dget_sort_key: "dget (sort_key fst d) k = dget d k"
  by (simp add: dget_filter_head sort_key_stable)

lemma dget_map_prod: "dget (map (map_prod id f) d) k = map_option f (dget d k)"
  by (induction d) (auto simp: dget_def)

lemma dkeys_filter: "set (dkeys (filter (\<lambda>(k, v). P k) d)) = {k \<in> set (dkeys d). P k}"
  by (auto simp: dkeys_def image_iff) 

lemma parse_items_keys: "parse_items f kvs = Inr xs \<Longrightarrow> dkeys xs = dkeys kvs"
  by (induction kvs arbitrary: xs rule: parse_items.induct[of _ f]) (auto simp: bind_err_Inr dkeys_def)

lemma parse_items_filter:
  "parse_items f kvs = Inr xs \<Longrightarrow>
   parse_items f (filter (\<lambda>(k, v). P k) kvs) = Inr (filter (\<lambda>(k, v). P k) xs)"
  by (induction kvs arbitrary: xs rule: parse_items.induct[of _ f]) (auto simp: bind_err_Inr)

lemma parse_items_kept:
  assumes "parse_items f kvs = Inr xs" and "map_err g kvs = Inr kept"
    and "\<And>n m r. g (n, m) = Inr r \<Longrightarrow> r = [] \<or> r = [(n, m)] \<and> Q n m"
  shows "\<exists>ys. parse_items f (concat kept) = Inr ys \<and> set ys \<subseteq> set xs
     \<and> (\<forall>n x. (n, x) \<in> set ys \<longrightarrow> (\<exists>m. Q n m \<and> f n m = Inr x))"
  using assms(1,2)
proof (induction kvs arbitrary: xs kept)
  case (Cons kv kvs)
  obtain n m where kv: "kv = (n, m)" by (cases kv)
  obtain x xs' where x: "f n m = Inr x" "parse_items f kvs = Inr xs'" "xs = (n, x) # xs'"
    using Cons.prems(1) by (auto simp: kv bind_err_Inr)
  obtain r rs where r: "g (n, m) = Inr r" "map_err g kvs = Inr rs" "kept = r # rs"
    using Cons.prems(2) by (auto simp: kv bind_err_Inr)
  obtain ys where ys: "parse_items f (concat rs) = Inr ys" "set ys \<subseteq> set xs'"
    "\<forall>n x. (n, x) \<in> set ys \<longrightarrow> (\<exists>m. Q n m \<and> f n m = Inr x)" using Cons.IH[OF x(2) r(2)] by blast
  consider "r = []" | "r = [(n, m)]" "Q n m" using assms(3)[OF r(1)] by blast
  then show ?case
  proof cases
    case 1
    then show ?thesis using ys x r by (intro exI[of _ ys]) auto
  next
    case 2
    then show ?thesis using ys x r by (intro exI[of _ "(n, x) # ys"]) auto
  qed
qed simp

lemma map_err_all_Nil:
  "(\<exists>yss. map_err f xs = Inr yss \<and> concat yss = []) \<longleftrightarrow> (\<forall>x \<in> set xs. f x = Inr [])"
proof (induction xs)
  case (Cons x xs)
  then show ?case by (cases "f x") (auto simp: bind_err_Inr)
qed simp

text \<open>A catalog that reads has no problems.\<close>

lemma catalog_errors_Nil:
  "catalog_errors repr valid_url cat = Inr [] \<longleftrightarrow>
   (\<forall>ep \<in> set (dvals (ca_endpoints cat)). endpoint_errors repr valid_url cat ep = Inr [])
   \<and> (\<forall>b \<in> set (ca_bundles cat). bundle_errors cat b = Inr [])"
  unfolding map_err_all_Nil[symmetric] catalog_errors_def
  by (auto simp: bind_err_Inr) 

definition parts_of :: "(json \<Rightarrow> string) \<Rightarrow> (string, json) dict \<Rightarrow> cat_error + catalog" where
  "parts_of repr data =
     bind_err (bind_err (items_of ''models'' data) (parse_items parse_model)) (\<lambda>models.
     bind_err (bind_err (items_of ''runtime_hosts'' data) (parse_items parse_host)) (\<lambda>hosts.
     bind_err (bind_err (items_of ''endpoints'' data) (parse_items (parse_endpoint repr))) (\<lambda>endpoints.
     bind_err (bind_err (items_of ''bundles'' data) (parse_items parse_bundle)) (\<lambda>bundles.
       Inr \<lparr>ca_models = models, ca_endpoints = endpoints, ca_hosts = hosts, ca_bundles = bundles,
            ca_source = JObj data\<rparr>))))"

lemma from_dict_Inr:
  "from_dict repr valid_url s = Inr cat \<longleftrightarrow>
   (\<exists>data. obj_or_empty s = Inr data \<and> parts_of repr data = Inr cat \<and> catalog_errors repr valid_url cat = Inr [])"
  by (auto simp: from_dict_def parts_of_def bind_err_Inr Let_def split: if_splits)

lemma obj_or_empty_JObj [simp]: "obj_or_empty (JObj kvs) = Inr kvs"
  by (simp add: obj_or_empty_def truthy_def)

lemma rt_get_dput: "rt_get (dput k v d) k' = (if k' = k then v else rt_get d k')"
  by (simp add: rt_get_def)

lemma section_of_items:
  "section_of sec s = Inr d \<Longrightarrow> \<exists>kvs. s = JObj kvs \<and> items_of sec kvs = Inr d"
  by (cases s) (auto simp: section_of_def items_of_def obj_or_empty_def py_items_def Let_def split: if_splits json.splits)

lemma py_dedup_JStr: "JStr x \<in> set xs \<Longrightarrow> JStr x \<in> set (py_dedup xs)"
proof (induction xs)
  case (Cons a xs)
  have "py_key (JStr x) \<noteq> py_key a" if "JStr x \<noteq> a" using that by (cases a) (auto simp: py_key_def)
  then show ?case using Cons by auto
qed simp

lemma members_parse: "members_of m = Inr ms' \<Longrightarrow> parse_bundle n m = Inr ms \<Longrightarrow> JStr x \<in> set ms \<Longrightarrow> JStr x \<in> set ms'"
  by (auto simp: members_of_def parse_bundle_def py_raises_def bind_err_Inr py_set_def py_dedup_JStr
      split: if_splits sum.splits)

lemma bundle_errors_Nil:
  "bundle_errors cat (n, ms) = Inr [] \<longleftrightarrow> (\<forall>m \<in> set ms. \<exists>x ep. m = JStr x \<and> dget (ca_endpoints cat) x = Some ep)"
proof -
  have "bundle_errors cat (n, ms) = Inr [] \<longleftrightarrow> (\<forall>m \<in> set ms. bind_err (py_raises (hash_get (ca_endpoints cat) m)) (\<lambda>found.
        Inr (if found = None then [BundleUnknown n m] else [])) = Inr [])"
    unfolding map_err_all_Nil[symmetric] by (auto simp: bundle_errors_def bind_err_Inr)
  also have "\<dots> \<longleftrightarrow> (\<forall>m \<in> set ms. \<exists>x ep. m = JStr x \<and> dget (ca_endpoints cat) x = Some ep)"
  proof (rule ball_cong[OF refl])
    fix m assume "m \<in> set ms"
    show "bind_err (py_raises (hash_get (ca_endpoints cat) m)) (\<lambda>found.
        Inr (if found = None then [BundleUnknown n m] else [])) = Inr [] \<longleftrightarrow>
        (\<exists>x ep. m = JStr x \<and> dget (ca_endpoints cat) x = Some ep)"
      by (cases m) (auto simp: hash_get_def py_hashable_def py_raises_def bind_err_Inr)
  qed
  finally show ?thesis .
qed

lemma endpoint_errors_cong:
  assumes "ca_models c' = ca_models c" and "ca_hosts c' = ca_hosts c"
  shows "endpoint_errors repr valid_url c' ep = endpoint_errors repr valid_url c ep"
proof -
  have "engine_errors c' = engine_errors c" by (rule ext) (simp only: engine_errors_def assms)
  then show ?thesis unfolding endpoint_errors_def by (simp only:)
qed

lemma endpoint_key_cong:
  assumes "ca_models c' = ca_models c" and "ca_hosts c' = ca_hosts c" and "dget (ca_endpoints c') n = dget (ca_endpoints c) n"
  shows "endpoint_key sha repr c' n = endpoint_key sha repr c n"
proof -
  have "resolve_vllm repr c' = resolve_vllm repr c" "resolve_ollama c' = resolve_ollama c"
    by (intro ext; simp only: resolve_vllm_def resolve_ollama_def assms)+
  then have "resolve_endpoint repr c' n JNull = resolve_endpoint repr c n JNull"
    unfolding resolve_endpoint_def assms(3) by (simp only:)
  then show ?thesis unfolding endpoint_key_def by (simp only:)
qed

lemma dvals_filter: "set (dvals (filter P d)) \<subseteq> set (dvals d)"
  by (auto simp: dvals_def)

lemma catalog_section_names:
  assumes "from_dict repr valid_url s = Inr c" and "section_of ''endpoints'' s = Inr eps"
  shows "dkeys eps = dkeys (ca_endpoints c)"
proof -
  obtain kvs where s: "s = JObj kvs" "items_of ''endpoints'' kvs = Inr eps" using section_of_items[OF assms(2)] by blast
  then have "parts_of repr kvs = Inr c" using assms(1) by (auto simp: from_dict_Inr)
  then have "parse_items (parse_endpoint repr) eps = Inr (ca_endpoints c)" using s(2) by (auto simp: parts_of_def bind_err_Inr)
  then show ?thesis by (simp add: parse_items_keys)
qed

lemma drop_from_source_Inr:
  assumes "drop_from_source gone s = Inr r"
  obtains kvs eps bundles kept where "s = JObj kvs" "section_of ''endpoints'' s = Inr eps"
    "items_of ''endpoints'' kvs = Inr eps" "items_of ''bundles'' kvs = Inr bundles"
    "map_err (\<lambda>(n, m). bind_err (if n \<in> gone then Inr [] else members_of m) (\<lambda>ms.
              Inr (if n \<notin> gone \<and> set ms \<inter> JStr ` {x \<in> set (dkeys eps). x \<in> gone} = {} then [(n, m)] else []))) bundles = Inr kept"
    "r = (if filter (\<lambda>(n, s). n \<notin> gone) eps = [] \<and> concat kept = [] then None
          else Some (JObj (dput ''bundles'' (JObj (concat kept)) (dput ''endpoints'' (JObj (filter (\<lambda>(n, s). n \<notin> gone) eps)) kvs))))"
proof -
  obtain eps bundles where e: "section_of ''endpoints'' s = Inr eps" and b: "section_of ''bundles'' s = Inr bundles"
    using assms unfolding drop_from_source_def bind_err_Inr by blast
  obtain kvs where k: "s = JObj kvs" "items_of ''endpoints'' kvs = Inr eps" using section_of_items[OF e] by blast
  have ib: "items_of ''bundles'' kvs = Inr bundles" using section_of_items[OF b] k by auto
  have gone: "set (dkeys eps) - set (dkeys (filter (\<lambda>(n, s). n \<notin> gone) eps)) = {x \<in> set (dkeys eps). x \<in> gone}"
    by (auto simp: dkeys_filter)
  from assms[unfolded drop_from_source_def e b Let_def bind_err_simps gone, unfolded bind_err_Inr] obtain kept where kept:
    "map_err (\<lambda>(n, m). bind_err (if n \<in> gone then Inr [] else members_of m) (\<lambda>ms.
              Inr (if n \<notin> gone \<and> set ms \<inter> JStr ` {x \<in> set (dkeys eps). x \<in> gone} = {} then [(n, m)] else []))) bundles = Inr kept"
    and r: "(if filter (\<lambda>(n, s). n \<notin> gone) eps = [] \<and> concat kept = [] then Inr None
      else case s of JObj kvs \<Rightarrow> Inr (Some (JObj (dput ''bundles'' (JObj (concat kept))
          (dput ''endpoints'' (JObj (filter (\<lambda>(n, s). n \<notin> gone) eps)) kvs)))) | _ \<Rightarrow> Inl AttributeError) = Inr r"
    by blast
  have "r = (if filter (\<lambda>(n, s). n \<notin> gone) eps = [] \<and> concat kept = [] then None
          else Some (JObj (dput ''bundles'' (JObj (concat kept)) (dput ''endpoints'' (JObj (filter (\<lambda>(n, s). n \<notin> gone) eps)) kvs))))"
    using r by (simp only: k(1) json.case sum.inject split: if_splits) simp_all
  with k e ib kept show thesis using that by blast
qed

lemma catalog_dropped:
  assumes c: "from_dict repr valid_url s = Inr c" and d: "drop_from_source gone s = Inr (Some s')"
  shows "\<exists>c'. from_dict repr valid_url s' = Inr c' \<and> set (dkeys (ca_endpoints c')) = set (dkeys (ca_endpoints c)) - gone
     \<and> (\<forall>n. n \<in> set (dkeys (ca_endpoints c')) \<longrightarrow> endpoint_key sha repr c' n = endpoint_key sha repr c n)
     \<and> set (ca_bundles c') \<subseteq> set (ca_bundles c)"
proof -
  let ?left = "\<lambda>(n, s). n \<notin> gone"
  obtain kvs eps bundles kept where s: "s = JObj kvs" and e: "items_of ''endpoints'' kvs = Inr eps"
    and b: "items_of ''bundles'' kvs = Inr bundles"
    and m: "map_err (\<lambda>(n, m). bind_err (if n \<in> gone then Inr [] else members_of m) (\<lambda>ms.
              Inr (if n \<notin> gone \<and> set ms \<inter> JStr ` {x \<in> set (dkeys eps). x \<in> gone} = {} then [(n, m)] else []))) bundles = Inr kept"
    and s': "s' = JObj (dput ''bundles'' (JObj (concat kept)) (dput ''endpoints'' (JObj (filter ?left eps)) kvs))"
    by (rule drop_from_source_Inr[OF d]) (auto split: if_splits)
  have p: "parts_of repr kvs = Inr c" and none: "catalog_errors repr valid_url c = Inr []"
    using c s by (auto simp: from_dict_Inr)
  obtain models hosts where mh: "bind_err (items_of ''models'' kvs) (parse_items parse_model) = Inr models"
    "bind_err (items_of ''runtime_hosts'' kvs) (parse_items parse_host) = Inr hosts"
    and pe: "parse_items (parse_endpoint repr) eps = Inr (ca_endpoints c)"
    and pb: "parse_items parse_bundle bundles = Inr (ca_bundles c)"
    and mc: "ca_models c = models" "ca_hosts c = hosts"
    using p e b by (auto simp: parts_of_def bind_err_Inr)
  obtain ys where ys: "parse_items parse_bundle (concat kept) = Inr ys" "set ys \<subseteq> set (ca_bundles c)"
    and members: "\<forall>n x. (n, x) \<in> set ys \<longrightarrow> (\<exists>m. (\<exists>ms. members_of m = Inr ms
        \<and> set ms \<inter> JStr ` {x \<in> set (dkeys eps). x \<in> gone} = {}) \<and> parse_bundle n m = Inr x)"
    using parse_items_kept[OF pb m, where Q = "\<lambda>n m. \<exists>ms. members_of m = Inr ms
        \<and> set ms \<inter> JStr ` {x \<in> set (dkeys eps). x \<in> gone} = {}"]
    by (fastforce simp: bind_err_Inr split: if_splits)
  define c' where "c' = \<lparr>ca_models = models, ca_endpoints = filter ?left (ca_endpoints c), ca_hosts = hosts, ca_bundles = ys,
    ca_source = s'\<rparr>"
  have M: "ca_models c' = ca_models c" "ca_hosts c' = ca_hosts c" by (simp_all add: c'_def mc)
  have p': "parts_of repr (dput ''bundles'' (JObj (concat kept)) (dput ''endpoints'' (JObj (filter ?left eps)) kvs)) = Inr c'"
    using mh parse_items_filter[OF pe, of "\<lambda>n. n \<notin> gone"] ys(1)
    by (simp add: parts_of_def items_of_def rt_get_dput c'_def s' bind_err_Inr)
  have eps_c': "dget (ca_endpoints c') n = (if n \<notin> gone then dget (ca_endpoints c) n else None)" for n
    by (simp add: c'_def dget_filter_keys)
  have "catalog_errors repr valid_url c' = Inr []"
    unfolding catalog_errors_Nil
  proof (intro conjI ballI)
    fix ep assume "ep \<in> set (dvals (ca_endpoints c'))"
    then have "ep \<in> set (dvals (ca_endpoints c))" using dvals_filter by (fastforce simp: c'_def)
    then have "endpoint_errors repr valid_url c ep = Inr []" using none by (simp add: catalog_errors_Nil)
    then show "endpoint_errors repr valid_url c' ep = Inr []" by (simp only: endpoint_errors_cong[OF M])
  next
    fix bu assume bu: "bu \<in> set (ca_bundles c')"
    obtain n x where nx: "bu = (n, x)" by (cases bu)
    obtain m ms where ms: "members_of m = Inr ms" "set ms \<inter> JStr ` {x \<in> set (dkeys eps). x \<in> gone} = {}" "parse_bundle n m = Inr x"
    proof -
      have "(n, x) \<in> set ys" using bu nx by (simp add: c'_def)
      then show ?thesis using members that by blast
    qed
    have "bundle_errors c (n, x) = Inr []" using none bu nx ys(2) by (auto simp: catalog_errors_Nil c'_def)
    then have all: "\<forall>v \<in> set x. \<exists>y ep. v = JStr y \<and> dget (ca_endpoints c) y = Some ep" by (simp add: bundle_errors_Nil)
    have "\<exists>y ep. v = JStr y \<and> dget (ca_endpoints c') y = Some ep" if v: "v \<in> set x" for v
    proof -
      obtain y ep where y: "v = JStr y" "dget (ca_endpoints c) y = Some ep" using all v by blast
      have "JStr y \<in> set ms" using members_parse[OF ms(1,3)] v y(1) by simp
      then have "y \<notin> gone" using ms(2) dget_in_dkeys[OF y(2)] parse_items_keys[OF pe] by auto
      then show ?thesis using y eps_c' by auto
    qed
    then show "bundle_errors c' bu = Inr []" unfolding nx bundle_errors_Nil by blast
  qed
  then have "from_dict repr valid_url s' = Inr c'" using p' unfolding from_dict_Inr s' by auto
  moreover have "set (dkeys (ca_endpoints c')) = set (dkeys (ca_endpoints c)) - gone"
    by (auto simp: c'_def dkeys_filter)
  moreover have "endpoint_key sha repr c' n = endpoint_key sha repr c n" if "n \<in> set (dkeys (ca_endpoints c'))" for n
  proof (rule endpoint_key_cong)
    show "dget (ca_endpoints c') n = dget (ca_endpoints c) n"
      using that eps_c' by (auto elim: in_dkeysE split: if_splits)
  qed (simp_all add: c'_def mc)
  moreover have "set (ca_bundles c') \<subseteq> set (ca_bundles c)" using ys(2) by (simp add: c'_def)
  ultimately show ?thesis by blast
qed

lemma catalog_gone:
  assumes c: "from_dict repr valid_url s = Inr c" and d: "drop_from_source gone s = Inr None"
  shows "set (dkeys (ca_endpoints c)) \<subseteq> gone"
proof -
  obtain eps where e: "section_of ''endpoints'' s = Inr eps" and f: "filter (\<lambda>(n, s). n \<notin> gone) eps = []"
    by (rule drop_from_source_Inr[OF d]) (auto split: if_splits)
  from e have "dkeys eps = dkeys (ca_endpoints c)" by (rule catalog_section_names[OF c])
  moreover have "set (dkeys eps) \<subseteq> gone"
  proof
    fix n assume "n \<in> set (dkeys eps)"
    then obtain v where "(n, v) \<in> set eps" by (auto simp: dkeys_def)
    then show "n \<in> gone" using f by (auto simp: filter_empty_conv)
  qed
  ultimately show ?thesis by simp
qed

text \<open>Two sources with the same canonical text have the same endpoints.\<close>

lemma names_of_source:
  assumes "from_dict repr valid_url s = Inr c"
  shows "set (dkeys (ca_endpoints c)) = (case s of JObj kvs \<Rightarrow>
     (case rt_get kvs ''endpoints'' of JObj eps \<Rightarrow> set (dkeys eps) | _ \<Rightarrow> {}) | _ \<Rightarrow> {})"
proof -
  obtain data where d: "obj_or_empty s = Inr data" "parts_of repr data = Inr c" using assms by (auto simp: from_dict_Inr)
  obtain eps where e: "items_of ''endpoints'' data = Inr eps" "parse_items (parse_endpoint repr) eps = Inr (ca_endpoints c)"
    using d(2) by (auto simp: parts_of_def bind_err_Inr)
  have "set (dkeys eps) = (case rt_get data ''endpoints'' of JObj eps \<Rightarrow> set (dkeys eps) | _ \<Rightarrow> {})"
    using e(1) by (cases "rt_get data ''endpoints''") (auto simp: items_of_def obj_or_empty_def truthy_def split: if_splits)
  moreover have "(case s of JObj kvs \<Rightarrow>
     (case rt_get kvs ''endpoints'' of JObj eps \<Rightarrow> set (dkeys eps) | _ \<Rightarrow> {}) | _ \<Rightarrow> {})
     = (case rt_get data ''endpoints'' of JObj eps \<Rightarrow> set (dkeys eps) | _ \<Rightarrow> {})"
    using d(1) by (cases s) (auto simp: obj_or_empty_def truthy_def rt_get_def split: if_splits)
  ultimately show ?thesis using parse_items_keys[OF e(2)] by simp
qed

lemma set_dkeys_canonical: "set (dkeys (sort_key fst (map (map_prod id canonical) eps))) = set (dkeys eps)"
  by (force simp: dkeys_def)

lemma catalog_same_text:
  assumes "from_dict repr valid_url s = Inr c" and "from_dict repr valid_url t = Inr d" and "dumps s = dumps t"
  shows "set (dkeys (ca_endpoints c)) = set (dkeys (ca_endpoints d))"
proof -
  let ?names = "\<lambda>s. (case s of JObj kvs \<Rightarrow> (case rt_get kvs ''endpoints'' of JObj eps \<Rightarrow> set (dkeys eps) | _ \<Rightarrow> {}) | _ \<Rightarrow> {})"
  have "?names (canonical s) = ?names s" for s
  proof (cases s)
    case (JObj kvs)
    have "rt_get (sort_key fst (map (map_prod id canonical) kvs)) ''endpoints'' = canonical (rt_get kvs ''endpoints'')"
      by (simp add: rt_get_def dget_sort_key dget_map_prod split: option.split)
    then show ?thesis using JObj
      by (cases "rt_get kvs ''endpoints''") (simp_all add: set_dkeys_canonical)
  qed simp_all
  moreover have "canonical s = canonical t" using assms(3) by (simp add: dumps_eq_iff)
  ultimately show ?thesis using names_of_source[OF assms(1)] names_of_source[OF assms(2)] by metis
qed

lemma from_dict_or_mapping: "from_dict repr valid_url (or_mapping s) = from_dict repr valid_url s"
  by (cases "truthy s") (simp_all add: from_dict_def or_mapping_def py_or_def obj_or_empty_def truthy_def[of "JObj []"])

interpretation cats: catalog_reader "from_dict repr valid_url" "endpoint_key sha repr" "\<lambda>c. dkeys (ca_endpoints c)" ca_bundles dumps
  for repr valid_url sha
proof (unfold_locales, goal_cases)
  case (1 s c eps)
  then show ?case by (rule catalog_section_names)
next
  case (2 s c gone s')
  then show ?case by (rule catalog_dropped)
next
  case (3 s c gone)
  then show ?case by (rule catalog_gone)
next
  case (4 s c t d)
  then show ?case by (rule catalog_same_text)
next
  case (5 s)
  show ?case by (rule from_dict_or_mapping)
qed

section \<open>The definitions an acquire adopts\<close>

lemma dedup_sources_inj:
  assumes "inj f"
  shows "dedup_sources (\<lambda>s. f (d s)) ss (map f seen) = dedup_sources d ss seen"
proof -
  have "f x \<in> f ` set seen \<longleftrightarrow> x \<in> set seen" for x seen using assms by (auto simp: inj_def)
  then show ?thesis
    by (induction ss arbitrary: seen) (simp_all flip: list.map(2))
qed

lemma canonical_digest_fun: "canonical_digest sha = (\<lambda>s. sha (dumps s))"
  by (simp add: fun_eq_iff canonical_digest_def)

lemma settle_digest:
  assumes "inj sha"
  shows "settle_rounds read key names bundles_of (canonical_digest sha) pinned i base want
    = settle_rounds read key names bundles_of dumps pinned i base want"
proof (induction i arbitrary: base)
  case (Suc i)
  have "merge_catalog_sources read key names bundles_of (canonical_digest sha) base want
      = merge_catalog_sources read key names bundles_of dumps base want"
    using dedup_sources_inj[OF assms, of dumps _ "[]"] by (simp add: merge_catalog_sources_def canonical_digest_fun)
  then show ?case by (simp only: settle_rounds.simps Suc.IH)
qed simp

text \<open>The code's instance of the union, over the catalog model.\<close>

definition union_of :: "(string \<Rightarrow> string) \<Rightarrow> (json \<Rightarrow> string) \<Rightarrow> (string \<Rightarrow> bool) \<Rightarrow> json list \<Rightarrow> union_error + catalog union" where
  "union_of sha repr valid_url =
     from_sources (from_dict repr valid_url) (endpoint_key sha repr) (\<lambda>c. dkeys (ca_endpoints c)) ca_bundles"

definition adopt :: "(string \<Rightarrow> string) \<Rightarrow> (json \<Rightarrow> string) \<Rightarrow> (string \<Rightarrow> bool) \<Rightarrow> json list \<Rightarrow> json list \<Rightarrow> string set
    \<Rightarrow> union_error + json list" where
  "adopt sha repr valid_url =
     adopt_catalog_sources (from_dict repr valid_url) (endpoint_key sha repr) (\<lambda>c. dkeys (ca_endpoints c)) ca_bundles
       (canonical_digest sha)"

definition meanings :: "(string \<Rightarrow> string) \<Rightarrow> (json \<Rightarrow> string) \<Rightarrow> catalog union
    \<Rightarrow> (string \<times> (py_error + (cat_error + string))) set" where
  "meanings sha repr u = owned (endpoint_key sha repr) (un_owner u)"

definition named_by :: "(json \<Rightarrow> string) \<Rightarrow> (string \<Rightarrow> bool) \<Rightarrow> json list \<Rightarrow> string set" where
  "named_by repr valid_url sources =
     (\<Union>s \<in> set sources. case from_dict repr valid_url s of Inl _ \<Rightarrow> {}
        | Inr c \<Rightarrow> set (dkeys (ca_endpoints c)) \<union> set (dkeys (ca_bundles c)))"

definition endpoints_of :: "(json \<Rightarrow> string) \<Rightarrow> (string \<Rightarrow> bool) \<Rightarrow> json list \<Rightarrow> string set" where
  "endpoints_of repr valid_url sources =
     (\<Union>s \<in> set sources. case from_dict repr valid_url s of Inl _ \<Rightarrow> {} | Inr c \<Rightarrow> set (dkeys (ca_endpoints c)))"

lemma endpoints_of_means:
  "endpoints_of repr valid_url ss = fst ` means (from_dict repr valid_url) (endpoint_key sha repr) (\<lambda>c. dkeys (ca_endpoints c)) ss"
proof (intro set_eqI iffI)
  fix n assume "n \<in> endpoints_of repr valid_url ss"
  then obtain s where s: "s \<in> set ss" "n \<in> (case from_dict repr valid_url s of Inl _ \<Rightarrow> {} | Inr c \<Rightarrow> set (dkeys (ca_endpoints c)))"
    unfolding endpoints_of_def by blast
  then obtain c where "from_dict repr valid_url s = Inr c" "n \<in> set (dkeys (ca_endpoints c))"
    by (cases "from_dict repr valid_url s") auto
  with s(1) have "(n, endpoint_key sha repr c n) \<in> means (from_dict repr valid_url) (endpoint_key sha repr) (\<lambda>c. dkeys (ca_endpoints c)) ss"
    unfolding means_def by blast
  then show "n \<in> fst ` means (from_dict repr valid_url) (endpoint_key sha repr) (\<lambda>c. dkeys (ca_endpoints c)) ss"
    by (rule image_eqI[rotated]) simp
next
  fix n assume "n \<in> fst ` means (from_dict repr valid_url) (endpoint_key sha repr) (\<lambda>c. dkeys (ca_endpoints c)) ss"
  then obtain s c where "s \<in> set ss" "from_dict repr valid_url s = Inr c" "n \<in> set (dkeys (ca_endpoints c))"
    unfolding means_def by auto
  then show "n \<in> endpoints_of repr valid_url ss" unfolding endpoints_of_def by (force intro!: UN_I[of s])
qed

lemma named_by_bundled: "fst ` bundled (from_dict repr valid_url) ca_bundles ss \<subseteq> named_by repr valid_url ss"
proof
  fix n assume "n \<in> fst ` bundled (from_dict repr valid_url) ca_bundles ss"
  then obtain m where "(n, m) \<in> bundled (from_dict repr valid_url) ca_bundles ss" by (rule in_fst_imageE)
  then obtain s c where s: "s \<in> set ss" "from_dict repr valid_url s = Inr c" "(n, m) \<in> set (ca_bundles c)"
    unfolding bundled_def by blast
  then have "n \<in> set (dkeys (ca_bundles c))" by (force simp: dkeys_def)
  then show "n \<in> named_by repr valid_url ss" using s(1,2) unfolding named_by_def by (force intro!: UN_I[of s])
qed

lemma endpoints_named: "endpoints_of repr valid_url ss \<subseteq> named_by repr valid_url ss"
  unfolding endpoints_of_def named_by_def by (rule UN_mono) (auto split: sum.splits)

text \<open>
  Adopting an invocation's catalogs into the published ones keeps every definition somebody may
  rely on: when it succeeds, the result is again a valid union, it defines every endpoint the
  invocation's catalogs define, every endpoint that is pinned by a live lease, or that the invocation's
  catalogs do not name, means exactly what it meant before, and nothing else is defined. The 64 rounds,
  the names they drop and the deduplication by digest do not show in the result. SHA-256 is taken to be
  injective.
\<close>

theorem adopt_keeps_definitions:
  assumes "inj sha"
    and "union_of sha repr valid_url published = Inr p"
    and "adopt sha repr valid_url published incoming pinned = Inr out"
  shows "\<exists>u. union_of sha repr valid_url out = Inr u
    \<and> endpoints_of repr valid_url incoming \<subseteq> fst ` meanings sha repr u
    \<and> fst ` meanings sha repr u \<subseteq> fst ` meanings sha repr p \<union> endpoints_of repr valid_url incoming
    \<and> {(n, k) \<in> meanings sha repr p. n \<in> pinned \<or> n \<notin> named_by repr valid_url incoming} \<subseteq> meanings sha repr u"
proof -
  note A = assms(3)[unfolded adopt_def adopt_catalog_sources_def Let_def settle_digest[OF assms(1)],
      folded adopt_catalog_sources_def[unfolded Let_def]]
  from cats.adopt_keeps[OF A assms(2)[unfolded union_of_def]] obtain u where
    u: "union_of sha repr valid_url out = Inr u"
    and i: "endpoints_of repr valid_url incoming \<subseteq> fst ` meanings sha repr u"
    and o: "meanings sha repr u \<subseteq> meanings sha repr p
      \<union> means (from_dict repr valid_url) (endpoint_key sha repr) (\<lambda>c. dkeys (ca_endpoints c)) incoming"
    and k: "\<forall>n k. (n, k) \<in> meanings sha repr p \<and> (n \<in> pinned \<or> n \<notin> endpoints_of repr valid_url incoming
       \<union> fst ` bundled (from_dict repr valid_url) ca_bundles incoming) \<longrightarrow> (n, k) \<in> meanings sha repr u"
    unfolding union_of_def[symmetric] meanings_def[symmetric] endpoints_of_means[symmetric] by blast
  have "fst ` meanings sha repr u \<subseteq> fst ` meanings sha repr p \<union> endpoints_of repr valid_url incoming"
    using image_mono[OF o, of fst] unfolding image_Un endpoints_of_means[symmetric] .
  moreover have "endpoints_of repr valid_url incoming \<union> fst ` bundled (from_dict repr valid_url) ca_bundles incoming
      \<subseteq> named_by repr valid_url incoming"
    using named_by_bundled endpoints_named by blast
  then have "{(n, k) \<in> meanings sha repr p. n \<in> pinned \<or> n \<notin> named_by repr valid_url incoming} \<subseteq> meanings sha repr u"
    using k by blast
  ultimately show ?thesis using u i by blast
qed

text \<open>A published union of two external endpoints; an invocation changes one of them.\<close>

definition demo_source :: "(string \<times> string) list \<Rightarrow> json" where
  "demo_source eps = JObj [(''endpoints'', JObj (map (\<lambda>(n, m). (n, JObj [(''external'',
     JObj [(''api_base'', JStr ''u''), (''model'', JStr m)])])) eps))]"

definition demo_published :: "json list" where
  "demo_published = [demo_source [(''a'', ''m''), (''b'', ''m'')]]"

definition demo_incoming :: "json list" where
  "demo_incoming = [demo_source [(''a'', ''n'')]]"

lemma demo_valid: "\<not> isl (union_of (\<lambda>s. s) (\<lambda>_. []) (\<lambda>_. True) demo_published)"
  by code_simp

lemma demo_adopted: "adopt (\<lambda>s. s) (\<lambda>_. []) (\<lambda>_. True) demo_published demo_incoming {''b''}
   = Inr [JObj [(''endpoints'', JObj [(''b'', JObj [(''external'',
     JObj [(''api_base'', JStr ''u''), (''model'', JStr ''m'')])])]), (''bundles'', JObj [])], demo_source [(''a'', ''n'')]]"
  by code_simp


theorem adopt_keeps_definitions_witness:
  "\<exists>p u. union_of (\<lambda>s. s) (\<lambda>_. []) (\<lambda>_. True) demo_published = Inr p
    \<and> union_of (\<lambda>s. s) (\<lambda>_. []) (\<lambda>_. True) [JObj [(''endpoints'', JObj [(''b'', JObj [(''external'',
        JObj [(''api_base'', JStr ''u''), (''model'', JStr ''m'')])])]), (''bundles'', JObj [])], demo_source [(''a'', ''n'')]] = Inr u
    \<and> endpoints_of (\<lambda>_. []) (\<lambda>_. True) demo_incoming \<subseteq> fst ` meanings (\<lambda>s. s) (\<lambda>_. []) u
    \<and> {(n, k) \<in> meanings (\<lambda>s. s) (\<lambda>_. []) p. n \<in> {''b''} \<or> n \<notin> named_by (\<lambda>_. []) (\<lambda>_. True) demo_incoming}
        \<subseteq> meanings (\<lambda>s. s) (\<lambda>_. []) u"
proof -
  obtain p where p: "union_of (\<lambda>s. s) (\<lambda>_. []) (\<lambda>_. True) demo_published = Inr p"
    using demo_valid by (cases "union_of (\<lambda>s. s) (\<lambda>_. []) (\<lambda>_. True) demo_published") auto
  have "inj (\<lambda>s :: string. s)" by simp
  from adopt_keeps_definitions[OF this p demo_adopted] p show ?thesis by blast
qed

end
