(* ===== verification/Profile.thy ===== *)
theory Profile
  imports
  Adoption
  Ledger
  Residency
begin

text \<open>
  The recovery snapshot an acquire advances (\<open>leasing/controller.py\<close>, \<open>_pinned_endpoints\<close> to
  \<open>_acquire_profile_candidate\<close>): the invocation's catalogs are adopted into the published ones unless
  a resident workload runs a definition they would change, and its settings only when nothing runs.

  A profile is a JSON object; its \<open>catalogs\<close> are a list of catalog sources. The warning about deferred
  settings is not modelled.
\<close>

section \<open>Endpoints that resident workloads run\<close>

definition is_pinning :: "residency option \<Rightarrow> deployment \<Rightarrow> bool" where
  "is_pinning res d \<longleftrightarrow> dep_state d = Live \<or> (dep_state d = Idle \<and>
     (case res of None \<Rightarrow> False | Some r \<Rightarrow> is_resident r (dep_id d)))"

definition pin_aliases :: "deployment \<Rightarrow> (string, deployment list) dict \<Rightarrow> (string, deployment list) dict" where
  "pin_aliases d t = fold (\<lambda>a t. dput a ((case dget t a of None \<Rightarrow> [] | Some ds \<Rightarrow> ds) @ [d]) t) (dkeys (dep_served d)) t"

definition pinned_deployments :: "residency option \<Rightarrow> rat \<Rightarrow> store \<Rightarrow> (string, deployment list) dict" where
  "pinned_deployments res now st = fold pin_aliases (filter (is_pinning res) (snd (status True now st))) []"

definition pinned_endpoints :: "residency option \<Rightarrow> rat \<Rightarrow> store \<Rightarrow> string list" where
  "pinned_endpoints res now st = dkeys (pinned_deployments res now st)"

section \<open>Pinned aliases whose meaning would change\<close>

definition request_compat_key :: "(string \<Rightarrow> string) \<Rightarrow> json \<Rightarrow> string" where
  "request_compat_key sha req = (case req of
     JObj kvs \<Rightarrow> compatibility_key sha (case rt_get kvs ''engine'' of JStr e \<Rightarrow> e | _ \<Rightarrow> []) (rt_get kvs ''structural'')
   | _ \<Rightarrow> [])"

text \<open>Whether one of the running deployments is what the definition asks for.\<close>

definition runs_as :: "(string \<Rightarrow> string) \<Rightarrow> deployment list \<Rightarrow> resolved \<Rightarrow> bool" where
  "runs_as sha ds meaning = (case rs_target meaning of
     External _ \<Rightarrow> False
   | Managed req \<Rightarrow> request_compat_key sha req \<in> set (map dep_compat_key ds))"

text \<open>A \<open>CatalogError\<close> is caught, and the alias blocked; what Python raises otherwise is not.\<close>

definition keeps_meaning ::
    "(string \<Rightarrow> string) \<Rightarrow> (json \<Rightarrow> string) \<Rightarrow> catalog option \<Rightarrow> catalog \<Rightarrow> string \<Rightarrow> deployment list
     \<Rightarrow> union_error + bool" where
  "keeps_meaning sha repr old new name ds = (case resolve_endpoint repr new name JNull of
     Inl (PyRaised e) \<Rightarrow> Inl (BadCatalog (PyRaised e))
   | Inl _ \<Rightarrow> Inr False
   | Inr meaning \<Rightarrow> (case old of
       None \<Rightarrow> Inr (runs_as sha ds meaning)
     | Some cat \<Rightarrow> (case resolve_endpoint repr cat name JNull of
         Inl (PyRaised e) \<Rightarrow> Inl (BadCatalog (PyRaised e))
       | Inl _ \<Rightarrow> Inr False
       | Inr before \<Rightarrow> Inr (semantic_key sha before = semantic_key sha meaning \<or> runs_as sha ds meaning))))"

fun blocked_aliases ::
    "(string \<Rightarrow> string) \<Rightarrow> (json \<Rightarrow> string) \<Rightarrow> catalog union option \<Rightarrow> catalog union
     \<Rightarrow> (string, deployment list) dict \<Rightarrow> string list \<Rightarrow> union_error + string list" where
  "blocked_aliases sha repr old new pinned [] = Inr []"
| "blocked_aliases sha repr old new pinned (a # as) =
     (case dget (un_owner new) a of
        None \<Rightarrow> blocked_aliases sha repr old new pinned as
      | Some cat \<Rightarrow>
          bind_err (keeps_meaning sha repr (Option.bind old (\<lambda>u. dget (un_owner u) a)) cat a
              (case dget pinned a of None \<Rightarrow> [] | Some ds \<Rightarrow> ds)) (\<lambda>same.
          bind_err (blocked_aliases sha repr old new pinned as) (\<lambda>blocked.
            Inr (if same then blocked else a # blocked))))"

text \<open>\<open>CatalogUnion.from_sources(sources) if sources else None\<close>.\<close>

definition union_or_none :: "(string \<Rightarrow> string) \<Rightarrow> (json \<Rightarrow> string) \<Rightarrow> (string \<Rightarrow> bool) \<Rightarrow> json list
    \<Rightarrow> union_error + catalog union option" where
  "union_or_none sha repr valid_url sources =
     (if sources = [] then Inr None else bind_err (union_of sha repr valid_url sources) (\<lambda>u. Inr (Some u)))"

definition pinned_changes ::
    "(string \<Rightarrow> string) \<Rightarrow> (json \<Rightarrow> string) \<Rightarrow> (string \<Rightarrow> bool) \<Rightarrow> (string, deployment list) dict
     \<Rightarrow> json list \<Rightarrow> json list \<Rightarrow> union_error + string list" where
  "pinned_changes sha repr valid_url pinned before after =
     (if pinned = [] then Inr [] else
      bind_err (union_or_none sha repr valid_url before) (\<lambda>old.
      bind_err (union_or_none sha repr valid_url after) (\<lambda>new.
        case new of None \<Rightarrow> Inr [] | Some u \<Rightarrow> blocked_aliases sha repr old u pinned (sort (dkeys pinned)))))"

section \<open>The candidate snapshot of an acquire\<close>

datatype profile_error =
    BackendChanged
  | Redefines "string list"
  | NoNameToEvict
  | CatalogRaised union_error
  | NotAProfile

definition profile_quiescent :: "residency option \<Rightarrow> rat \<Rightarrow> store \<Rightarrow> bool" where
  "profile_quiescent res now st \<longleftrightarrow>
     \<not> list_ex (\<lambda>le. lease_state le = Active) (fst (status True now st)) \<and>
     (case res of None \<Rightarrow> False | Some r \<Rightarrow> \<not> list_ex (\<lambda>c. c_deployment c \<noteq> []) (all_containers r))"

text \<open>
  The refusal names the pinned names in conflict, or all of them; it also names the first one to evict,
  which a conflict without names (the rounds of the adoption ran out) does not have.
\<close>

definition conflict_refusal :: "string set \<Rightarrow> string list \<Rightarrow> profile_error" where
  "conflict_refusal pinned names =
     (let hit = sort (filter (\<lambda>n. n \<in> pinned) (remdups names)); blocked = (if hit = [] then sort names else hit)
      in if blocked = [] then NoNameToEvict else Redefines blocked)"

definition catalog_raised :: "union_error + 'a \<Rightarrow> profile_error + 'a" where
  "catalog_raised v = (case v of Inl e \<Rightarrow> Inl (CatalogRaised e) | Inr x \<Rightarrow> Inr x)"

definition catalogs_inside :: "(string \<Rightarrow> string) \<Rightarrow> (json \<Rightarrow> string) \<Rightarrow> (string \<Rightarrow> bool) \<Rightarrow> json list \<Rightarrow> json list
    \<Rightarrow> union_error + bool" where
  "catalogs_inside sha repr valid_url =
     catalogs_within (from_dict repr valid_url) (endpoint_key sha repr) (\<lambda>c. dkeys (ca_endpoints c)) ca_bundles
       (canonical_digest sha)"

definition adopted_sources ::
    "(string \<Rightarrow> string) \<Rightarrow> (json \<Rightarrow> string) \<Rightarrow> (string \<Rightarrow> bool) \<Rightarrow> json list \<Rightarrow> json list \<Rightarrow> string set
     \<Rightarrow> profile_error + json list" where
  "adopted_sources sha repr valid_url known incoming pinned =
     (case adopt sha repr valid_url known incoming pinned of
        Inl e \<Rightarrow> Inl (case conflict_names e of None \<Rightarrow> CatalogRaised e | Some ns \<Rightarrow> conflict_refusal pinned ns)
      | Inr catalogs \<Rightarrow> Inr catalogs)"

definition profile_advance ::
    "(string \<Rightarrow> string) \<Rightarrow> (json \<Rightarrow> string) \<Rightarrow> (string \<Rightarrow> bool) \<Rightarrow> residency option \<Rightarrow> rat \<Rightarrow> store
     \<Rightarrow> (string, json) dict \<Rightarrow> (string, json) dict \<Rightarrow> profile_error + json option" where
  "profile_advance sha repr valid_url res now st stored invocation =
     (if canonical (rt_get stored ''backend'') \<noteq> canonical (rt_get invocation ''backend'') then Inl BackendChanged
      else bind_err (catalog_raised (profile_drift (catalogs_inside sha repr valid_url) stored invocation)) (\<lambda>drift.
        if drift = [] then Inr None
        else
          let quiescent = profile_quiescent res now st;
              base = (if quiescent then invocation else stored);
              pinned = (if quiescent then {} else set (pinned_endpoints res now st))
          in bind_err (adopted_sources sha repr valid_url (sources_in stored) (sources_in invocation) pinned) (\<lambda>catalogs.
             bind_err (catalog_raised (pinned_changes sha repr valid_url (pinned_deployments res now st)
                 (sources_in stored) catalogs)) (\<lambda>blocked.
               if blocked \<noteq> [] then Inl (Redefines blocked)
               else
                 let candidate = JObj (dput ''catalogs'' (JList catalogs) base)
                 in Inr (if canonical candidate \<noteq> canonical (JObj stored) then Some candidate else None)))))"

definition acquire_profile_candidate ::
    "(string \<Rightarrow> string) \<Rightarrow> (json \<Rightarrow> string) \<Rightarrow> (string \<Rightarrow> bool) \<Rightarrow> residency option \<Rightarrow> rat \<Rightarrow> store
     \<Rightarrow> json option \<Rightarrow> profile_error + json option" where
  "acquire_profile_candidate sha repr valid_url res now st invocation = (case invocation of
     None \<Rightarrow> Inr None
   | Some mine \<Rightarrow> (case profile st of
       None \<Rightarrow> Inr (Some mine)
     | Some stored \<Rightarrow>
         if canonical stored = canonical mine then Inr None
         else (case (stored, mine) of
             (JObj s, JObj i) \<Rightarrow> profile_advance sha repr valid_url res now st s i
           | _ \<Rightarrow> Inl NotAProfile)))"

section \<open>The table of pinned endpoints\<close>

lemma pin_aliases_get:
  "dget (fold (\<lambda>a t. dput a ((case dget t a of None \<Rightarrow> [] | Some ds \<Rightarrow> ds) @ [d]) t) as t) a = Some ds \<Longrightarrow>
   x \<in> set ds \<Longrightarrow> (x = d \<and> a \<in> set as) \<or> (\<exists>es. dget t a = Some es \<and> x \<in> set es)"
proof (induction as arbitrary: t)
  case (Cons b as)
  from Cons.IH[OF Cons.prems(1)[unfolded fold_simps] Cons.prems(2)] show ?case
    by (auto split: if_splits option.splits)
qed auto

lemma pin_aliases_keys: "set (dkeys (pin_aliases d t)) = set (dkeys t) \<union> set (dkeys (dep_served d))"
proof -
  have "set (dkeys (fold (\<lambda>a t. dput a (f a t) t) as t)) = set (dkeys t) \<union> set as" for f and as :: "string list"
    by (induction as arbitrary: t) auto
  then show ?thesis unfolding pin_aliases_def .
qed

lemma pinned_keys: "set (dkeys (fold pin_aliases ds t)) = set (dkeys t) \<union> (\<Union>d \<in> set ds. set (dkeys (dep_served d)))"
  by (induction ds arbitrary: t) (auto simp: pin_aliases_keys)

lemma pinned_serve:
  "dget (fold pin_aliases ds t) a = Some es \<Longrightarrow> x \<in> set es \<Longrightarrow>
   (x \<in> set ds \<and> a \<in> set (dkeys (dep_served x))) \<or> (\<exists>es. dget t a = Some es \<and> x \<in> set es)"
proof (induction ds arbitrary: t)
  case (Cons d ds)
  from Cons.IH[OF Cons.prems(1)[unfolded fold_simps] Cons.prems(2)]
  consider "x \<in> set ds" "a \<in> set (dkeys (dep_served x))" | es' where "dget (pin_aliases d t) a = Some es'" "x \<in> set es'"
    by blast
  then show ?case
  proof cases
    case 2
    from pin_aliases_get[OF 2(1)[unfolded pin_aliases_def] 2(2)] show ?thesis by auto
  qed simp
qed auto

lemma pinned_deployments_spec:
  shows "set (pinned_endpoints res now st)
      = (\<Union>d \<in> {d \<in> set (snd (status True now st)). is_pinning res d}. set (dkeys (dep_served d)))"
    and "dget (pinned_deployments res now st) a = Some ds \<Longrightarrow> d \<in> set ds \<Longrightarrow>
      d \<in> set (snd (status True now st)) \<and> is_pinning res d \<and> a \<in> set (dkeys (dep_served d))"
proof -
  show "set (pinned_endpoints res now st)
      = (\<Union>d \<in> {d \<in> set (snd (status True now st)). is_pinning res d}. set (dkeys (dep_served d)))"
    unfolding pinned_endpoints_def pinned_deployments_def pinned_keys by simp
  show "dget (pinned_deployments res now st) a = Some ds \<Longrightarrow> d \<in> set ds \<Longrightarrow>
      d \<in> set (snd (status True now st)) \<and> is_pinning res d \<and> a \<in> set (dkeys (dep_served d))"
    unfolding pinned_deployments_def by (drule (1) pinned_serve) auto
qed

section \<open>What a candidate keeps\<close>

lemma keeps_meaningD:
  assumes "keeps_meaning sha repr old new n ds = Inr True"
  shows "(\<exists>cat. old = Some cat \<and> endpoint_key sha repr cat n = endpoint_key sha repr new n)
    \<or> (\<exists>m. resolve_endpoint repr new n JNull = Inr m \<and> runs_as sha ds m)"
proof -
  obtain m where m: "resolve_endpoint repr new n JNull = Inr m"
    using assms by (auto simp: keeps_meaning_def split: sum.splits cat_error.splits)
  show ?thesis
  proof (cases old)
    case None
    then show ?thesis using assms m by (simp add: keeps_meaning_def)
  next
    case (Some cat)
    then obtain b where b: "resolve_endpoint repr cat n JNull = Inr b" "semantic_key sha b = semantic_key sha m \<or> runs_as sha ds m"
      using assms m by (auto simp: keeps_meaning_def split: sum.splits cat_error.splits)
    then show ?thesis using Some m by (auto simp: endpoint_key_def)
  qed
qed

lemma blocked_aliases_none:
  "blocked_aliases sha repr old new pinned as = Inr [] \<Longrightarrow> a \<in> set as \<Longrightarrow> dget (un_owner new) a = Some cat \<Longrightarrow>
   keeps_meaning sha repr (Option.bind old (\<lambda>u. dget (un_owner u) a)) cat a
     (case dget pinned a of None \<Rightarrow> [] | Some ds \<Rightarrow> ds) = Inr True"
proof (induction as)
  case (Cons b as)
  show ?case
  proof (cases "dget (un_owner new) b")
    case None
    then show ?thesis using Cons by auto
  next
    case (Some c)
    then have "blocked_aliases sha repr old new pinned as = Inr []"
      and "keeps_meaning sha repr (Option.bind old (\<lambda>u. dget (un_owner u) b)) c b
        (case dget pinned b of None \<Rightarrow> [] | Some ds \<Rightarrow> ds) = Inr True"
      using Cons.prems(1) by (auto simp: bind_err_Inr split: if_splits)
    then show ?thesis using Cons Some by auto
  qed
qed simp

lemma union_of_Nil: "union_of sha repr valid_url [] = Inr u \<Longrightarrow> un_owner u = []"
  by (auto simp: union_of_def from_sources_def make_union_def)

definition running_as :: "(string \<Rightarrow> string) \<Rightarrow> (json \<Rightarrow> string) \<Rightarrow> catalog union \<Rightarrow> string \<Rightarrow> deployment \<Rightarrow> bool" where
  "running_as sha repr u n d \<longleftrightarrow> (\<exists>cat m. dget (un_owner u) n = Some cat \<and> resolve_endpoint repr cat n JNull = Inr m
     \<and> runs_as sha [d] m)"

lemma runs_as_some: "runs_as sha ds m \<Longrightarrow> \<exists>d \<in> set ds. runs_as sha [d] m"
  by (auto simp: runs_as_def split: target.splits)

lemma pinned_changes_none:
  assumes "pinned_changes sha repr valid_url pinned before after = Inr []"
    and p: "union_of sha repr valid_url before = Inr p" and u: "union_of sha repr valid_url after = Inr u"
    and n: "n \<in> set (dkeys pinned)" "n \<in> fst ` meanings sha repr u"
  shows "(\<exists>k. (n, k) \<in> meanings sha repr p \<inter> meanings sha repr u)
    \<or> (\<exists>ds. dget pinned n = Some ds \<and> (\<exists>d \<in> set ds. running_as sha repr u n d))"
proof -
  obtain cat where cat: "dget (un_owner u) n = Some cat" using n(2) by (auto simp: meanings_def owned_def)
  then have "after \<noteq> []" using union_of_Nil u by fastforce
  then obtain old where old: "union_or_none sha repr valid_url before = Inr old"
    and b: "blocked_aliases sha repr old u pinned (sort (dkeys pinned)) = Inr []"
    using assms(1) n(1) u by (auto simp: pinned_changes_def bind_err_Inr union_or_none_def split: if_splits)
  have o: "Option.bind old (\<lambda>u. dget (un_owner u) n) = dget (un_owner p) n"
    using old p union_of_Nil[of sha repr valid_url p] by (auto simp: union_or_none_def split: if_splits)
  from keeps_meaningD[OF blocked_aliases_none[OF b _ cat, unfolded o]] n(1)
  consider c where "dget (un_owner p) n = Some c" "endpoint_key sha repr c n = endpoint_key sha repr cat n"
    | m where "resolve_endpoint repr cat n JNull = Inr m" "runs_as sha (case dget pinned n of None \<Rightarrow> [] | Some ds \<Rightarrow> ds) m"
    by auto
  then show ?thesis
  proof cases
    case 1
    then show ?thesis using cat by (auto simp: meanings_def owned_def intro!: exI[of _ "endpoint_key sha repr c n"])
  next
    case 2
    then obtain ds where "dget pinned n = Some ds" using n(1) by (cases "dget pinned n") (auto simp: dget_None_iff)
    then show ?thesis using 2 cat runs_as_some[of sha ds m] by (auto simp: running_as_def)
  qed
qed

lemma profile_candidateD:
  assumes "acquire_profile_candidate sha repr valid_url res now st (Some (JObj i)) = Inr (Some (JObj c))"
    and "profile st = Some (JObj s)"
  obtains catalogs where
    "c = dput ''catalogs'' (JList catalogs) (if profile_quiescent res now st then i else s)"
    "adopt sha repr valid_url (sources_in s) (sources_in i)
       (if profile_quiescent res now st then {} else set (pinned_endpoints res now st)) = Inr catalogs"
    "pinned_changes sha repr valid_url (pinned_deployments res now st) (sources_in s) catalogs = Inr []"
    "canonical (rt_get s ''backend'') = canonical (rt_get i ''backend'')"
proof -
  from assms have A: "profile_advance sha repr valid_url res now st s i = Inr (Some (JObj c))"
    by (auto simp: acquire_profile_candidate_def split: if_splits)
  then have be: "canonical (rt_get s ''backend'') = canonical (rt_get i ''backend'')"
    by (auto simp: profile_advance_def split: if_splits)
  from A be obtain drift where A2: "drift \<noteq> []"
    "(let quiescent = profile_quiescent res now st;
              base = (if quiescent then i else s);
              pinned = (if quiescent then {} else set (pinned_endpoints res now st))
          in bind_err (adopted_sources sha repr valid_url (sources_in s) (sources_in i) pinned) (\<lambda>catalogs.
             bind_err (catalog_raised (pinned_changes sha repr valid_url (pinned_deployments res now st)
                 (sources_in s) catalogs)) (\<lambda>blocked.
               if blocked \<noteq> [] then Inl (Redefines blocked)
               else
                 let candidate = JObj (dput ''catalogs'' (JList catalogs) base)
                 in Inr (if canonical candidate \<noteq> canonical (JObj s) then Some candidate else None)))) = Inr (Some (JObj c))"
    by (auto simp: profile_advance_def bind_err_Inr split: if_splits)
  from A2(2)[unfolded Let_def bind_err_Inr] obtain catalogs blocked where
    1: "adopted_sources sha repr valid_url (sources_in s) (sources_in i)
       (if profile_quiescent res now st then {} else set (pinned_endpoints res now st)) = Inr catalogs"
    and 2: "catalog_raised (pinned_changes sha repr valid_url (pinned_deployments res now st) (sources_in s) catalogs) = Inr blocked"
    and 3: "(if blocked \<noteq> [] then Inl (Redefines blocked) else Inr (if canonical (JObj (dput ''catalogs'' (JList catalogs)
         (if profile_quiescent res now st then i else s))) \<noteq> canonical (JObj s)
       then Some (JObj (dput ''catalogs'' (JList catalogs) (if profile_quiescent res now st then i else s))) else None))
       = Inr (Some (JObj c))" by blast
  show thesis
  proof (rule that[OF _ _ _ be])
    show "c = dput ''catalogs'' (JList catalogs) (if profile_quiescent res now st then i else s)"
      using 3 by (auto split: if_splits)
    show "adopt sha repr valid_url (sources_in s) (sources_in i)
       (if profile_quiescent res now st then {} else set (pinned_endpoints res now st)) = Inr catalogs"
      using 1 by (auto simp: adopted_sources_def split: sum.splits)
    show "pinned_changes sha repr valid_url (pinned_deployments res now st) (sources_in s) catalogs = Inr []"
      using 2 3 by (auto simp: catalog_raised_def split: sum.splits if_splits)
  qed
qed

lemma sources_in_dput: "sources_in (dput ''catalogs'' (JList ss) kvs) = ss"
  by (simp add: sources_in_def rt_get_def)

text \<open>
  C26. An acquire's catalogs never change what a running workload means. When the candidate snapshot of an
  acquire replaces a valid published union, the new one is again valid and defines what the invocation's
  catalogs define; every definition the invocation does not name, and every one a resident deployment
  serves (unless nothing is running at all), means exactly what it meant; every alias a resident
  deployment serves that has a definition means what it meant before, or what one of the resident
  deployments serving it runs; and all other settings are the stored ones while anything is running, the
  invocation's when nothing is.
\<close>

theorem acquire_keeps_resident_definitions:
  assumes "inj sha" and s: "profile st = Some (JObj s)" and p: "union_of sha repr valid_url (sources_in s) = Inr p"
    and c: "acquire_profile_candidate sha repr valid_url res now st (Some (JObj i)) = Inr (Some (JObj c))"
  shows "\<exists>u. union_of sha repr valid_url (sources_in c) = Inr u
    \<and> endpoints_of repr valid_url (sources_in i) \<subseteq> fst ` meanings sha repr u
    \<and> {(n, k) \<in> meanings sha repr p. n \<notin> named_by repr valid_url (sources_in i)
         \<or> \<not> profile_quiescent res now st \<and> n \<in> set (pinned_endpoints res now st)} \<subseteq> meanings sha repr u
    \<and> (\<forall>n \<in> set (pinned_endpoints res now st) \<inter> fst ` meanings sha repr u.
         (\<exists>k. (n, k) \<in> meanings sha repr p \<inter> meanings sha repr u)
         \<or> (\<exists>d \<in> set (snd (status True now st)). is_pinning res d \<and> n \<in> set (dkeys (dep_served d)) \<and> running_as sha repr u n d))
    \<and> (\<forall>k. k \<noteq> ''catalogs'' \<longrightarrow> rt_get c k = rt_get (if profile_quiescent res now st then i else s) k)"
proof -
  let ?pins = "if profile_quiescent res now st then {} else set (pinned_endpoints res now st)"
  obtain catalogs where 1: "c = dput ''catalogs'' (JList catalogs) (if profile_quiescent res now st then i else s)"
    and 2: "adopt sha repr valid_url (sources_in s) (sources_in i) ?pins = Inr catalogs"
    and 3: "pinned_changes sha repr valid_url (pinned_deployments res now st) (sources_in s) catalogs = Inr []"
    using profile_candidateD[OF c s] by metis
  obtain u where u: "union_of sha repr valid_url catalogs = Inr u"
    and k: "endpoints_of repr valid_url (sources_in i) \<subseteq> fst ` meanings sha repr u"
      "{(n, k) \<in> meanings sha repr p. n \<in> ?pins \<or> n \<notin> named_by repr valid_url (sources_in i)} \<subseteq> meanings sha repr u"
    using adopt_keeps_definitions[OF assms(1) p 2] by blast
  have r: "(\<exists>k. (n, k) \<in> meanings sha repr p \<inter> meanings sha repr u)
      \<or> (\<exists>d \<in> set (snd (status True now st)). is_pinning res d \<and> n \<in> set (dkeys (dep_served d)) \<and> running_as sha repr u n d)"
    if "n \<in> set (pinned_endpoints res now st)" "n \<in> fst ` meanings sha repr u" for n
    using pinned_changes_none[OF 3 p u that[unfolded pinned_endpoints_def]] pinned_deployments_spec(2) by metis
  have "rt_get c k = rt_get (if profile_quiescent res now st then i else s) k" if "k \<noteq> ''catalogs''" for k
    using that 1 by (simp add: rt_get_def)
  moreover have "sources_in c = catalogs" using 1 by (simp add: sources_in_dput)
  moreover have "{(n, k) \<in> meanings sha repr p. n \<notin> named_by repr valid_url (sources_in i)
         \<or> \<not> profile_quiescent res now st \<and> n \<in> set (pinned_endpoints res now st)} \<subseteq> meanings sha repr u"
    using k(2) by auto
  ultimately show ?thesis using u k(1) r by (intro exI[of _ u]) simp
qed

section \<open>An advanced snapshot is settled\<close>

lemma settle_contains:
  "settle_rounds read key names bundles_of digest pinned i base want = Inr out \<Longrightarrow> w \<in> set want \<Longrightarrow>
   \<exists>t. digest t = digest w \<and> or_mapping t \<in> set out"
proof (induction i arbitrary: base)
  case (Suc i)
  show ?case
  proof (cases "merge_catalog_sources read key names bundles_of digest base want")
    case (Inl e)
    then show ?thesis using Suc by (auto simp: bind_err_Inr split: option.splits if_splits)
  next
    case (Inr o')
    then have "out = map or_mapping (dedup_sources digest (base @ want) [])"
      using Suc.prems(1) by (auto simp: merge_catalog_sources_def bind_err_Inr Let_def)
    moreover obtain t where "t \<in> set (dedup_sources digest (base @ want) [])" "digest t = digest w"
      using dedup_twin[of w "base @ want" digest "[]"] Suc.prems(2) by auto
    ultimately show ?thesis by auto
  qed
qed simp

lemma adopted_contains:
  assumes "inj sha" and "adopt sha repr valid_url known incoming pinned = Inr out"
    and "JObj kvs \<in> set incoming"
  shows "\<exists>t \<in> set out. canonical_digest sha t = canonical_digest sha (JObj kvs)"
proof -
  have "or_mapping (JObj kvs) = JObj kvs" by (simp add: or_mapping_def py_or_def truthy_def)
  then have "JObj kvs \<in> set (map or_mapping incoming)" using assms(3) by force
  then obtain t where t: "canonical_digest sha t = canonical_digest sha (JObj kvs)" "or_mapping t \<in> set out"
    using assms(2) settle_contains unfolding adopt_def adopt_catalog_sources_def Let_def bind_err_Inr by metis
  then have "canonical t = canonical (JObj kvs)"
    using assms(1) by (simp add: canonical_digest_def dumps_eq_iff inj_eq)
  then have "or_mapping t = t" by (cases t) (simp_all add: or_mapping_def py_or_def truthy_def)
  then show ?thesis using t by metis
qed

lemma catalogs_inside_contained:
  "list_all (\<lambda>s. \<exists>t \<in> set known. canonical_digest sha t = canonical_digest sha s) want \<Longrightarrow>
   catalogs_inside sha repr valid_url want known = Inr True"
proof -
  assume "list_all (\<lambda>s. \<exists>t \<in> set known. canonical_digest sha t = canonical_digest sha s) want"
  then have "list_all (\<lambda>s. canonical_digest sha s \<in> set (map (canonical_digest sha) known)) want"
    unfolding list_all_iff by (metis imageI set_map)
  then show ?thesis by (simp add: catalogs_inside_def catalogs_within_def)
qed

lemma map_err_Nils: "(\<And>x. x \<in> set xs \<Longrightarrow> f x = Inr []) \<Longrightarrow> map_err f xs = Inr (map (\<lambda>_. []) xs)"
  by (induction xs) auto

lemma no_drift:
  assumes "inside (sources_in i) (sources_in c) = Inr True"
    and "\<And>k. k \<notin> {''catalogs'', ''version''} \<Longrightarrow> canonical (rt_get c k) = canonical (rt_get i k)"
  shows "profile_drift inside c i = Inr []"
proof -
  have "map_err (\<lambda>k. if k = ''catalogs'' then bind_err (inside (sources_in i) (sources_in c)) (\<lambda>ok. Inr (if ok then [] else [k]))
       else Inr (if canonical (rt_get c k) = canonical (rt_get i k) then [] else [k])) (drift_keys c i)
     = Inr (map (\<lambda>_. []) (drift_keys c i))"
    by (rule map_err_Nils) (use assms in \<open>auto simp: drift_keys_def\<close>)
  then show ?thesis by (simp add: profile_drift_def)
qed

lemma stored_profile:
  "profile (write_profile (JObj c) st) = Some (JObj (sort_key fst (map (map_prod id canonical) c)))"
  by (simp add: profile_def write_profile_def meta_json_def set_meta_json_def)

lemma stored_get:
  "rt_get (sort_key fst (map (map_prod id canonical) c)) k = canonical (rt_get c k)"
  by (simp add: rt_get_def dget_sort_key dget_map_prod split: option.split)

text \<open>Whether the settings that are not catalogs are the same.\<close>

definition same_settings :: "(string, json) dict \<Rightarrow> (string, json) dict \<Rightarrow> bool" where
  "same_settings s i \<longleftrightarrow> list_all (\<lambda>k. k \<in> {''catalogs'', ''version''} \<or> canonical (rt_get s k) = canonical (rt_get i k))
     (dkeys s @ dkeys i)"

lemma same_settingsD:
  "same_settings s i \<Longrightarrow> k \<notin> {''catalogs'', ''version''} \<Longrightarrow> canonical (rt_get s k) = canonical (rt_get i k)"
proof -
  assume a: "same_settings s i" "k \<notin> {''catalogs'', ''version''}"
  show ?thesis
  proof (cases "k \<in> set (dkeys s) \<union> set (dkeys i)")
    case True
    then show ?thesis using a by (auto simp: same_settings_def list_all_iff)
  next
    case False
    then have "dget s k = None" "dget i k = None" by (simp_all add: dget_None_iff)
    then show ?thesis by (simp add: rt_get_def)
  qed
qed

text \<open>
  Advancing the snapshot is over after one step: once a candidate is stored, the same invocation has
  nothing more to publish, whatever has happened to the leases and the containers since, provided its
  settings could be adopted (nothing was running, or they did not differ). SHA-256 is taken to be injective
  and the invocation's sources to be mappings.
\<close>

theorem advanced_profile_is_settled:
  assumes "inj sha" and s: "profile st = Some (JObj s)"
    and c: "acquire_profile_candidate sha repr valid_url res now st (Some (JObj i)) = Inr (Some (JObj c))"
    and "profile_quiescent res now st \<or> same_settings s i"
    and m: "list_all (\<lambda>j. case j of JObj _ \<Rightarrow> True | _ \<Rightarrow> False) (sources_in i)"
    and c': "profile st' = profile (write_profile (JObj c) st0)"
  shows "acquire_profile_candidate sha repr valid_url res' now' st' (Some (JObj i)) = Inr None"
proof -
  obtain catalogs where 1: "c = dput ''catalogs'' (JList catalogs) (if profile_quiescent res now st then i else s)"
    and 2: "adopt sha repr valid_url (sources_in s) (sources_in i)
       (if profile_quiescent res now st then {} else set (pinned_endpoints res now st)) = Inr catalogs"
    and 4: "canonical (rt_get s ''backend'') = canonical (rt_get i ''backend'')"
    using profile_candidateD[OF c s] by metis
  have settings: "canonical (rt_get c k) = canonical (rt_get i k)" if "k \<notin> {''catalogs'', ''version''}" for k
  proof (cases "profile_quiescent res now st")
    case True
    then show ?thesis using that 1 by (simp add: rt_get_def)
  next
    case False
    then have "rt_get c k = rt_get s k" using that 1 by (simp add: rt_get_def)
    then show ?thesis using same_settingsD that assms(4) False by metis
  qed
  have "\<exists>t \<in> set catalogs. canonical_digest sha t = canonical_digest sha j" if "j \<in> set (sources_in i)" for j
  proof -
    have "case j of JObj _ \<Rightarrow> True | _ \<Rightarrow> False" using m \<open>j \<in> set (sources_in i)\<close> by (auto simp: list_all_iff)
    then obtain kvs where "j = JObj kvs" by (cases j) auto
    then show ?thesis using adopted_contains[OF assms(1) 2] \<open>j \<in> set (sources_in i)\<close> by blast
  qed
  moreover let ?c = "sort_key fst (map (map_prod id canonical) c)"
  have "sources_in ?c = map canonical catalogs"
    using 1 by (simp add: sources_in_def stored_get rt_get_dput)
  ultimately have "catalogs_inside sha repr valid_url (sources_in i) (sources_in ?c) = Inr True"
    by (intro catalogs_inside_contained) (simp add: list_all_iff canonical_digest_def dumps_canonical)
  then have "profile_drift (catalogs_inside sha repr valid_url) ?c i = Inr []"
    by (rule no_drift) (simp add: stored_get settings canonical_idem)
  moreover have "canonical (rt_get ?c ''backend'') = canonical (rt_get i ''backend'')"
    by (simp add: stored_get settings canonical_idem)
  moreover have "profile st' = Some (JObj ?c)" using c' by (simp only: stored_profile)
  ultimately show ?thesis by (simp add: acquire_profile_candidate_def profile_advance_def catalog_raised_def)
qed

section \<open>An endpoint is redefined while another one runs\<close>

definition demo_profile :: "json list \<Rightarrow> (string, json) dict" where
  "demo_profile cats = [(''version'', JInt 1), (''backend'', JStr ''compose''), (''catalogs'', JList cats)]"

definition demo_running :: "json list \<Rightarrow> store" where
  "demo_running cats = empty_store\<lparr>
     st_leases := [\<lparr>lr_id = ''A'', lr_owner = ''o'', lr_state = Active, lr_created_at = 0, lr_ttl_seconds = None,
       lr_expires_at = None, lr_heartbeat_at = 0\<rparr>],
     st_deployments := [\<lparr>dep_id = ''g'', dep_compat_key = ''k'', dep_engine = ''vllm'', dep_sharing = ''shared'',
       dep_capacity = [], dep_spec = empty_spec, dep_served = [(''b'', JObj [])], dep_state = Live,
       dep_created_at = 0, dep_updated_at = 0, dep_demand = 0, dep_assigned_gpus = None\<rparr>],
     st_claims := [\<lparr>cl_lease = ''A'', cl_endpoint = ''b'', cl_deployment = ''g'', cl_kind = ''k''\<rparr>],
     st_meta := [(''profile'', JObj (demo_profile cats))]\<rparr>"

definition demo_merged :: "json list" where
  "demo_merged = [JObj [(''endpoints'', JObj [(''b'', JObj [(''external'',
     JObj [(''api_base'', JStr ''u''), (''model'', JStr ''m'')])])]), (''bundles'', JObj [])], demo_source [(''a'', ''n'')]]"

lemma demo_profile_of: "profile (demo_running cats) = Some (JObj (demo_profile cats))"
  by (simp add: profile_def meta_json_def demo_running_def dget_def)

lemma demo_sources: "sources_in (demo_profile cats) = cats"
  by (simp add: demo_profile_def sources_in_def rt_get_def dget_def)

lemma demo_pinned: "pinned_endpoints None 0 (demo_running demo_published) = [''b'']"
  by code_simp

lemma demo_candidate:
  "acquire_profile_candidate (\<lambda>s. s) (\<lambda>_. []) (\<lambda>_. True) None 0 (demo_running demo_published)
     (Some (JObj (demo_profile demo_incoming))) = Inr (Some (JObj (demo_profile demo_merged)))"
  by code_simp

theorem acquire_keeps_resident_definitions_witness:
  "\<exists>p u. union_of (\<lambda>s. s) (\<lambda>_. []) (\<lambda>_. True) demo_published = Inr p
    \<and> union_of (\<lambda>s. s) (\<lambda>_. []) (\<lambda>_. True) demo_merged = Inr u
    \<and> endpoints_of (\<lambda>_. []) (\<lambda>_. True) demo_incoming \<subseteq> fst ` meanings (\<lambda>s. s) (\<lambda>_. []) u
    \<and> {(n, k) \<in> meanings (\<lambda>s. s) (\<lambda>_. []) p. n = ''b''} \<subseteq> meanings (\<lambda>s. s) (\<lambda>_. []) u"
proof -
  obtain p where p: "union_of (\<lambda>s. s) (\<lambda>_. []) (\<lambda>_. True) demo_published = Inr p"
    using demo_valid by (cases "union_of (\<lambda>s. s) (\<lambda>_. []) (\<lambda>_. True) demo_published") auto
  have i: "inj (\<lambda>s :: string. s)" by simp
  from acquire_keeps_resident_definitions[OF i demo_profile_of _ demo_candidate, unfolded demo_sources, OF p]
  obtain u where u: "union_of (\<lambda>s. s) (\<lambda>_. []) (\<lambda>_. True) demo_merged = Inr u"
    "endpoints_of (\<lambda>_. []) (\<lambda>_. True) demo_incoming \<subseteq> fst ` meanings (\<lambda>s. s) (\<lambda>_. []) u"
    "{(n, k) \<in> meanings (\<lambda>s. s) (\<lambda>_. []) p. n \<notin> named_by (\<lambda>_. []) (\<lambda>_. True) demo_incoming
         \<or> \<not> profile_quiescent None 0 (demo_running demo_published)
           \<and> n \<in> set (pinned_endpoints None 0 (demo_running demo_published))} \<subseteq> meanings (\<lambda>s. s) (\<lambda>_. []) u"
    by blast
  have "\<not> profile_quiescent None 0 (demo_running demo_published)" by (simp add: profile_quiescent_def)
  then have "{(n, k) \<in> meanings (\<lambda>s. s) (\<lambda>_. []) p. n = ''b''} \<subseteq> meanings (\<lambda>s. s) (\<lambda>_. []) u"
    using u(3) unfolding demo_pinned by auto
  then show ?thesis using p u(1,2) by blast
qed

theorem advanced_profile_is_settled_witness:
  "acquire_profile_candidate (\<lambda>s. s) (\<lambda>_. []) (\<lambda>_. True) None 7
     (write_profile (JObj (demo_profile demo_merged)) empty_store) (Some (JObj (demo_profile demo_incoming))) = Inr None"
  by (rule advanced_profile_is_settled[OF _ demo_profile_of demo_candidate])
    (simp_all add: same_settings_def demo_sources demo_incoming_def demo_source_def,
     simp_all add: demo_profile_def dkeys_def rt_get_def dget_def)

end
