(* ===== verification/Publish.thy ===== *)
theory Publish
  imports Admission Profile
begin

text \<open>
  Serialised publication (\<open>leasing/controller.py\<close>): the durable marker, the render, the apply and
  the transactions that change desired state. A transaction is a state transformer that returns a
  value or an exception; the state it leaves when it raises is part of the result.

  The serving backend (\<open>ServingBackend\<close> and \<open>HostRuntime\<close> of \<open>leasing/backend.py\<close>) is a record of
  functions on an abstract runtime; any of its calls may raise and still have changed the runtime.
  \<open>ct_calls\<close> lists the converge and apply calls made to it, newest first: it is not read by the code.
  Every transaction runs under the host-wide lock, so transactions do not interleave. The clock
  advances by what is slept. \<open>sv_validate\<close> stands for \<open>validate_requests\<close>, \<open>sv_repr\<close> and \<open>sv_valid_url\<close> for
  Python's \<open>repr\<close> and what \<open>urlsplit\<close> accepts.
\<close>

section \<open>The state of the controller\<close>

datatype call = Converged "deployment list" placement_inputs | ConvergeRaised | Applied bool | ApplyRaised

record 'r ctl =
  ct_store :: store
  ct_runtime :: 'r
  ct_now :: rat
  ct_fresh :: "json option"
  ct_invocation :: "json option"
  ct_profile :: "json option"
  ct_profile_error :: bool
  ct_explicit :: bool
  ct_began :: bool
  ct_calls :: "call list"

record apply_result =
  ar_runtime :: bool
  ar_routes :: bool
  ar_detail :: string

datatype apply_value = ApplyNone | ApplyBool bool | ApplyValue apply_result

definition ar_complete :: "apply_result \<Rightarrow> bool" where
  "ar_complete r \<longleftrightarrow> ar_runtime r \<and> ar_routes r"

definition apply_result_of :: "apply_value \<Rightarrow> apply_result" where
  "apply_result_of v = (case v of ApplyValue r \<Rightarrow> r
     | ApplyNone \<Rightarrow> \<lparr>ar_runtime = True, ar_routes = True, ar_detail = []\<rparr>
     | ApplyBool b \<Rightarrow> \<lparr>ar_runtime = b, ar_routes = True, ar_detail = []\<rparr>)"

definition ar_and :: "apply_result \<Rightarrow> apply_result \<Rightarrow> apply_result" where
  "ar_and a b = \<lparr>ar_runtime = (ar_runtime a \<and> ar_runtime b), ar_routes = (ar_routes a \<and> ar_routes b),
     ar_detail = (if ar_detail a \<noteq> [] \<and> ar_detail b \<noteq> [] then ar_detail a @ ''; '' @ ar_detail b
                  else ar_detail a @ ar_detail b)\<rparr>"

record render_report =
  rr_unplaced :: "string list"
  rr_errors :: "string list"
  rr_assignments :: "(string, int list) dict"
  rr_displaced :: "string list"
  rr_degraded :: "string list"

record reconcile_result =
  rc_realized :: "string list"
  rc_torn_down :: "string list"
  rc_report :: render_report
  rc_applied :: bool
  rc_pending :: bool
  rc_runtime_applied :: bool
  rc_detail :: string

record readiness =
  rd_ready :: bool
  rd_detail :: string
  rd_fatal :: bool
  rd_needs_room :: bool

record ('r, 'e) serving =
  sv_allocates :: bool
  sv_reclaim :: string
  sv_host :: bool
  sv_render_profile :: "('r \<Rightarrow> json) option"
  sv_use_profile :: "json \<Rightarrow> 'r \<Rightarrow> 'r"
  sv_repr :: "json \<Rightarrow> string"
  sv_valid_url :: "string \<Rightarrow> bool"
  sv_validate :: "endpoint_request list \<Rightarrow> 'r \<Rightarrow> 'e option"
  sv_configure_network :: "(json \<times> (string, string) dict) option \<Rightarrow> 'r \<Rightarrow> 'r"
  sv_set_adopted :: "(string, json) dict \<Rightarrow> 'r \<Rightarrow> 'r"
  sv_rendered_services :: "'r \<Rightarrow> (string, string \<times> string) dict"
  sv_residency :: "'r \<Rightarrow> 'e + residency"
  sv_observe :: "'r \<Rightarrow> 'e + string list"
  sv_preview :: "'r \<Rightarrow> bool \<Rightarrow> deployment list \<Rightarrow> placement_inputs \<Rightarrow> 'e + (gpu_plan \<times> rendered \<times> string option)"
  sv_converge :: "deployment list \<Rightarrow> placement_inputs \<Rightarrow> 'r \<Rightarrow> ('e + (string \<times> string) list) \<times> 'r"
  sv_report :: "'r \<Rightarrow> render_report"
  sv_digest :: "'r \<Rightarrow> string option"
  sv_settle_snapshot :: "'r \<Rightarrow> 'e + (string \<times> string) list option"
  sv_passes :: "rat \<Rightarrow> 'r \<Rightarrow> 'r"
  sv_apply :: "'r \<Rightarrow> ('e + apply_value) \<times> 'r"
  sv_idle_plan :: "deployment list \<Rightarrow> 'r \<Rightarrow> 'e + ((string, int list) dict \<times> string list)"
  sv_probe :: "deployment \<Rightarrow> string \<Rightarrow> 'r \<Rightarrow> 'e + readiness"
  sv_reclaim_candidates :: "deployment \<Rightarrow> deployment list \<Rightarrow> 'r \<Rightarrow> 'e + string list"
  sv_apply_aborted :: "'e \<Rightarrow> bool"
  sv_converge_aborted :: "'e \<Rightarrow> bool"

text \<open>Why a command of the operator is refused before it changes anything.\<close>

datatype command_refusal =
    NoHostRuntime
  | NoGateway
  | NoPublishableProfile
  | LeasesActive "string list"
  | ContainersExist "string list"
  | ResidencyNotConfirmed
  | SubnetOverlaps "string list"
  | GatewayNotRecreated string
  | RoutesConflict "string list" bool
  | RouteKeysMissing "(string, string list) dict"
  | BadMasterKey

datatype 'e ctl_error =
    BackendRaised 'e
  | ResidencyUnknown 'e
  | LedgerRaised ledger_error
  | ApprovalMismatch
  | ProfileUnusable
  | ProfileRefused profile_error
  | CommandRefused command_refusal
  | RuntimeUnsettled "'e option"
  | PlacementRefused "string list" "refusal list" bool
  | PlacementDisagrees "string list" "string list"
  | NeverFits "string list" "string list"

type_synonym ('r, 'e, 'a) act = "'r ctl \<Rightarrow> ('e ctl_error + 'a) \<times> 'r ctl"

section \<open>Statements\<close>

definition act_ret :: "'a \<Rightarrow> ('r, 'e, 'a) act" where "act_ret x = (\<lambda>c. (Inr x, c))"

definition act_raise :: "'e ctl_error \<Rightarrow> ('r, 'e, 'a) act" where "act_raise e = (\<lambda>c. (Inl e, c))"

definition act_bind :: "('r, 'e, 'a) act \<Rightarrow> ('a \<Rightarrow> ('r, 'e, 'b) act) \<Rightarrow> ('r, 'e, 'b) act" where
  "act_bind m k = (\<lambda>c. case m c of (Inl e, c') \<Rightarrow> (Inl e, c') | (Inr x, c') \<Rightarrow> k x c')"

text \<open>\<open>try: m / except BaseException as e: h e\<close>, and reading the state.\<close>

definition act_catch :: "('r, 'e, 'a) act \<Rightarrow> ('e ctl_error \<Rightarrow> ('r, 'e, 'a) act) \<Rightarrow> ('r, 'e, 'a) act" where
  "act_catch m h = (\<lambda>c. case m c of (Inl e, c') \<Rightarrow> h e c' | (Inr x, c') \<Rightarrow> (Inr x, c'))"

definition act_get :: "('r ctl \<Rightarrow> 'a) \<Rightarrow> ('r, 'e, 'a) act" where "act_get f = (\<lambda>c. (Inr (f c), c))"

definition act_lift :: "('r ctl \<Rightarrow> 'e ctl_error + 'a) \<Rightarrow> ('r, 'e, 'a) act" where "act_lift f = (\<lambda>c. (f c, c))"

definition act_runtime :: "('r \<Rightarrow> 'r) \<Rightarrow> ('r, 'e, unit) act" where
  "act_runtime f = (\<lambda>c. (Inr (), c\<lparr>ct_runtime := f (ct_runtime c)\<rparr>))"

text \<open>A ledger operation is one transaction at the current time.\<close>

definition act_ledger :: "(rat \<Rightarrow> store \<Rightarrow> store \<times> 'a) \<Rightarrow> ('r, 'e, 'a) act" where
  "act_ledger f = (\<lambda>c. case f (ct_now c) (ct_store c) of (st, x) \<Rightarrow> (Inr x, c\<lparr>ct_store := st\<rparr>))"

definition act_ledger_try :: "(rat \<Rightarrow> store \<Rightarrow> ledger_error + (store \<times> 'a)) \<Rightarrow> ('r, 'e, 'a) act" where
  "act_ledger_try f = (\<lambda>c. case f (ct_now c) (ct_store c) of
     Inl e \<Rightarrow> (Inl (LedgerRaised e), c) | Inr (st, x) \<Rightarrow> (Inr x, c\<lparr>ct_store := st\<rparr>))"

definition backend_raises :: "'e + 'a \<Rightarrow> 'e ctl_error + 'a" where
  "backend_raises v = (case v of Inl e \<Rightarrow> Inl (BackendRaised e) | Inr x \<Rightarrow> Inr x)"

section \<open>The recovery profile and the marker\<close>

definition with_no_catalogs :: "json \<Rightarrow> json" where
  "with_no_catalogs p = (case p of JObj kvs \<Rightarrow> JObj (dput ''catalogs'' (JList []) kvs) | _ \<Rightarrow> p)"

text \<open>
  \<open>_sync_profile(create=True)\<close>: what the backend renders from. \<open>ct_profile_error\<close> says that the stored
  snapshot was found unusable when the controller was opened; once it is usable, so is its use.
\<close>

definition sync_profile :: "('r, 'e) serving \<Rightarrow> ('r, 'e, unit) act" where
  "sync_profile B = (case sv_render_profile B of None \<Rightarrow> act_ret ()
     | Some settings \<Rightarrow> (\<lambda>c. if ct_profile_error c then (Inl ProfileUnusable, c) else
        let inv = (case ct_invocation c of Some p \<Rightarrow> p | None \<Rightarrow> settings (ct_runtime c));
            (stored, fresh) = (case profile (ct_store c) of Some p \<Rightarrow> (p, ct_fresh c)
               | None \<Rightarrow> (with_no_catalogs inv, Some (with_no_catalogs inv)));
            c = c\<lparr>ct_invocation := Some inv, ct_fresh := fresh\<rparr>
        in (Inr (), if map_option canonical (ct_profile c) = Some (canonical stored) then c
              else c\<lparr>ct_runtime := sv_use_profile B stored (ct_runtime c), ct_profile := Some stored\<rparr>)))"

definition take_fresh_profile :: "('r, 'e, json option) act" where
  "take_fresh_profile = (\<lambda>c. (Inr (if profile (ct_store c) \<noteq> None then None else ct_fresh c), c\<lparr>ct_fresh := None\<rparr>))"

definition drops_context :: "store \<Rightarrow> bool" where
  "drops_context st \<longleftrightarrow> (case Option.bind (st_pending st) mk_context of Some ctx \<Rightarrow> truthy ctx | None \<Rightarrow> False)"

definition mark_pending :: "('r, 'e) serving \<Rightarrow> bool \<Rightarrow> ('r, 'e, marker) act" where
  "mark_pending B apply =
     act_bind (sync_profile B) (\<lambda>_.
     act_bind (act_ledger (\<lambda>_ st. (if drops_context st then clear_placement_context st else st, ()))) (\<lambda>_.
     act_bind take_fresh_profile (\<lambda>fresh.
     act_ledger (\<lambda>_. mark_publication_pending apply False None None fresh))))"

section \<open>Adopted containers\<close>

definition adopted_containers :: "store \<Rightarrow> (string, json) dict option" where
  "adopted_containers st = (case meta_json st ''adopted_containers'' of Some (JObj kvs) \<Rightarrow> Some kvs | _ \<Rightarrow> None)"

definition set_adopted_containers :: "(string, json) dict \<Rightarrow> store \<Rightarrow> store" where
  "set_adopted_containers table = set_meta_json ''adopted_containers'' (JObj table)"

definition prune_adopted :: "residency \<Rightarrow> store \<Rightarrow> store \<times> (string, json) dict" where
  "prune_adopted res st =
     (case adopted_containers st of
        None \<Rightarrow> (st, [])
      | Some adopted \<Rightarrow>
          let kept = filter (\<lambda>kv. fst kv \<in> set (map c_id (all_containers res))) adopted
          in (if kept \<noteq> adopted then set_adopted_containers kept st else st, kept))"

definition adoptable :: "deployment list \<Rightarrow> residency \<Rightarrow> (string, string \<times> string) dict \<Rightarrow> container \<Rightarrow> bool" where
  "adoptable deployments res services c \<longleftrightarrow>
     \<not> c_labelled c \<and> dget services (c_service c) \<noteq> None \<and>
     (c_deployment c \<noteq> [] \<longrightarrow>
        (case find (\<lambda>d. dep_id d = c_deployment c) deployments of
           None \<Rightarrow> False
         | Some d \<Rightarrow> map_option snd (dget services (c_service c)) = Some (c_deployment c) \<and>
             (dep_state d = Live \<and> c_gpus c = (case dep_assigned_gpus d of Some w \<Rightarrow> w | None \<Rightarrow> [])
              \<or> dep_state d = Idle \<and> is_resident res (c_deployment c))))"

definition adoption_entry :: "(string, string \<times> string) dict \<Rightarrow> container \<Rightarrow> json" where
  "adoption_entry services c = JObj [(''service'', JStr (c_service c)),
     (''fingerprint'', JStr (case dget services (c_service c) of Some (fp, _) \<Rightarrow> fp | None \<Rightarrow> []))]"

definition adopt_table :: "rat \<Rightarrow> store \<Rightarrow> residency \<Rightarrow> (string, string \<times> string) dict \<Rightarrow> (string, json) dict" where
  "adopt_table now st res services =
     fold (\<lambda>c. dput (c_id c) (adoption_entry services c))
       (filter (adoptable (snd (status False now st)) res services) (all_containers res)) []"

definition adopt_existing :: "('r, 'e) serving \<Rightarrow> residency \<Rightarrow> ('r, 'e, unit) act" where
  "adopt_existing B res = (\<lambda>c.
     if meta_json (ct_store c) ''adopted_containers'' \<noteq> None then (Inr (), c)
     else (let t = adopt_table (ct_now c) (ct_store c) res (sv_rendered_services B (ct_runtime c))
           in (Inr (), c\<lparr>ct_store := set_adopted_containers t (ct_store c),
                         ct_runtime := sv_set_adopted B t (ct_runtime c)\<rparr>)))"

section \<open>Render\<close>

definition prepare_network :: "('r, 'e) serving \<Rightarrow> ('r, 'e, unit) act" where
  "prepare_network B = (if \<not> sv_host B then act_ret ()
     else (\<lambda>c. (Inr (), c\<lparr>ct_runtime := sv_configure_network B
       (map_option (\<lambda>cfg. (cfg, st_addresses (ct_store c))) (meta_json (ct_store c) ''network_config''))
       (ct_runtime c)\<rparr>)))"

definition read_residency :: "('r, 'e) serving \<Rightarrow> ('r, 'e, residency) act" where
  "read_residency B = act_lift (\<lambda>c. case sv_residency B (ct_runtime c) of
     Inl e \<Rightarrow> Inl (ResidencyUnknown e) | Inr r \<Rightarrow> Inr r)"

definition observe :: "('r, 'e) serving \<Rightarrow> ('r, 'e, string list) act" where
  "observe B = act_lift (\<lambda>c. backend_raises (sv_observe B (ct_runtime c)))"

text \<open>\<open>backend.converge(desired, apply=False)\<close>; the addresses an approved render allocates are stored.\<close>

definition converge :: "('r, 'e) serving \<Rightarrow> deployment list \<Rightarrow> placement_inputs \<Rightarrow> ('r, 'e, unit) act" where
  "converge B desired i = (\<lambda>c. case sv_converge B desired i (ct_runtime c) of
     (Inl e, r) \<Rightarrow> (Inl (BackendRaised e), c\<lparr>ct_runtime := r, ct_calls := ConvergeRaised # ct_calls c\<rparr>)
   | (Inr addresses, r) \<Rightarrow>
       (case add_service_addresses addresses (ct_store c) of
          Inl e \<Rightarrow> (Inl (LedgerRaised e), c\<lparr>ct_runtime := r, ct_calls := ConvergeRaised # ct_calls c\<rparr>)
        | Inr st \<Rightarrow> (Inr (), c\<lparr>ct_runtime := r, ct_store := st, ct_calls := Converged desired i # ct_calls c\<rparr>)))"

definition sorted_diff :: "string list \<Rightarrow> string list \<Rightarrow> string list" where
  "sorted_diff xs ys = sort (remdups (filter (\<lambda>x. x \<notin> set ys) xs))"

definition render_admitted ::
    "('r, 'e) serving \<Rightarrow> residency \<Rightarrow> deployment list \<Rightarrow> placement_inputs \<Rightarrow> ('r, 'e, reconcile_result) act" where
  "render_admitted B res desired i =
     act_bind (if sv_host B then act_bind (act_ledger (\<lambda>_. prune_adopted res)) (\<lambda>t. act_runtime (sv_set_adopted B t))
               else act_ret ()) (\<lambda>_.
     act_bind (observe B) (\<lambda>earlier.
     act_bind (converge B desired i) (\<lambda>_.
     act_bind (observe B) (\<lambda>later.
     act_bind (act_get (\<lambda>c. sv_report B (ct_runtime c))) (\<lambda>report.
     act_bind (if sv_host B then adopt_existing B res else act_ret ()) (\<lambda>_.
     act_ret \<lparr>rc_realized = sorted_diff later earlier, rc_torn_down = sorted_diff earlier later,
       rc_report = report, rc_applied = False, rc_pending = False, rc_runtime_applied = False,
       rc_detail = []\<rparr>))))))"

definition render_project :: "('r, 'e) serving \<Rightarrow> ('r, 'e, reconcile_result) act" where
  "render_project B =
     act_bind (act_ledger sweep) (\<lambda>_.
     act_bind (read_residency B) (\<lambda>res.
     act_bind (act_ledger (backfill_allocations (sv_allocates B) res)) (\<lambda>_.
     act_bind (prepare_network B) (\<lambda>_.
     act_bind (act_get (\<lambda>c. admission_view (sv_reclaim B) False (ct_now c) (ct_store c) (Some res) None)) (\<lambda>(desired, i).
       render_admitted B res desired i)))))"

section \<open>Apply\<close>

definition SETTLE_DEADLINE_S :: rat where "SETTLE_DEADLINE_S = 60"

definition SETTLE_INTERVAL_S :: rat where "SETTLE_INTERVAL_S = 2"

text \<open>The samples of \<open>_wait_for_settled_runtime\<close>: how long each waits after the one before.\<close>

function settle_loop :: "('r, 'e) serving \<Rightarrow> rat \<Rightarrow> (string \<times> string) list option \<Rightarrow> ('r, 'e, unit) act" where
  "settle_loop B deadline previous c =
     (case sv_settle_snapshot B (ct_runtime c) of
        Inl e \<Rightarrow> (Inl (RuntimeUnsettled (Some e)), c)
      | Inr None \<Rightarrow> (Inr (), c)
      | Inr (Some current) \<Rightarrow>
          if previous = Some current \<and> \<not> list_ex (\<lambda>s. snd s = ''removing'') current then (Inr (), c)
          else if ct_now c + SETTLE_INTERVAL_S > deadline then (Inl (RuntimeUnsettled None), c)
          else settle_loop B deadline (Some current)
                 (c\<lparr>ct_now := ct_now c + SETTLE_INTERVAL_S,
                    ct_runtime := sv_passes B SETTLE_INTERVAL_S (ct_runtime c)\<rparr>))"
  by pat_completeness auto

termination settle_loop
proof (relation "measure (\<lambda>(B, deadline, previous, c). nat \<lfloor>(deadline - ct_now c) / SETTLE_INTERVAL_S\<rfloor>)", simp)
  fix B :: "('r, 'e) serving" and deadline :: rat and previous :: "(string \<times> string) list option" and c :: "'r ctl"
    and o' current
  assume "\<not> ct_now c + SETTLE_INTERVAL_S > deadline"
  then have "2 \<le> deadline - ct_now c" by (simp add: SETTLE_INTERVAL_S_def)
  then have "1 \<le> (deadline - ct_now c) / 2" by simp
  then have "1 \<le> \<lfloor>(deadline - ct_now c) / 2\<rfloor>" by (metis le_floor_iff of_int_1)
  moreover have "(deadline - (ct_now c + 2)) / 2 = (deadline - ct_now c) / 2 - 1" by (simp add: field_simps)
  then have "\<lfloor>(deadline - (ct_now c + 2)) / 2\<rfloor> = \<lfloor>(deadline - ct_now c) / 2\<rfloor> - 1"
    by (metis floor_diff_of_int of_int_1)
  ultimately have "nat \<lfloor>(deadline - (ct_now c + 2)) / 2\<rfloor> < nat \<lfloor>(deadline - ct_now c) / 2\<rfloor>" by linarith
  then show "((B, deadline, Some current, c\<lparr>ct_now := ct_now c + SETTLE_INTERVAL_S,
        ct_runtime := sv_passes B SETTLE_INTERVAL_S (ct_runtime c)\<rparr>), B, deadline, previous, c)
      \<in> measure (\<lambda>(B, deadline, previous, c). nat \<lfloor>(deadline - ct_now c) / SETTLE_INTERVAL_S\<rfloor>)"
    by (simp add: SETTLE_INTERVAL_S_def)
qed

declare settle_loop.simps [simp del]

definition wait_for_settled_runtime :: "('r, 'e) serving \<Rightarrow> ('r, 'e, unit) act" where
  "wait_for_settled_runtime B = (\<lambda>c. settle_loop B (ct_now c + SETTLE_DEADLINE_S) None c)"

text \<open>Whether the marker lets this render be applied; an explicit apply approves it.\<close>

definition check_approval :: "('r, 'e) serving \<Rightarrow> marker \<Rightarrow> ('r, 'e, string option) act" where
  "check_approval B m =
     act_bind (act_get (\<lambda>c. (sv_digest B (ct_runtime c), ct_explicit c))) (\<lambda>(rendered, explicit).
       if mk_digest m \<notin> {None, Some []} \<and> rendered \<noteq> mk_digest m then
         (if \<not> explicit then act_raise ApprovalMismatch
          else act_bind (case rendered of Some h \<Rightarrow> act_ledger (\<lambda>_ st. (set_approved_digest (Some h) st, ()))
                         | None \<Rightarrow> act_ret ()) (\<lambda>_. act_ret rendered))
       else act_ret (mk_digest m))"

definition call_apply :: "('r, 'e) serving \<Rightarrow> ('r, 'e, apply_result) act" where
  "call_apply B = (\<lambda>c. case sv_apply B (ct_runtime c) of
     (Inl e, r) \<Rightarrow> (Inl (BackendRaised e), c\<lparr>ct_runtime := r, ct_calls := ApplyRaised # ct_calls c\<rparr>)
   | (Inr v, r) \<Rightarrow> (Inr (apply_result_of v),
       c\<lparr>ct_runtime := r, ct_calls := Applied (ar_complete (apply_result_of v)) # ct_calls c\<rparr>))"

definition apply_raised :: "('r, 'e) serving \<Rightarrow> 'e ctl_error \<Rightarrow> ('r, 'e, 'a) act" where
  "apply_raised B ex =
     act_bind (act_ledger (\<lambda>_. mark_publication_pending True
         (case ex of BackendRaised e \<Rightarrow> \<not> sv_apply_aborted B e | _ \<Rightarrow> True) None None None)) (\<lambda>_.
       act_raise ex)"

text \<open>The marker and the approval end only with a complete apply.\<close>

definition finish_apply ::
    "marker \<Rightarrow> string option \<Rightarrow> apply_result \<Rightarrow> reconcile_result \<Rightarrow> ('r, 'e, reconcile_result) act" where
  "finish_apply m approved outcome rec =
     (if \<not> ar_complete outcome then act_ret (rec\<lparr>rc_pending := True\<rparr>)
      else
        act_bind (if approved \<notin> {None, Some []} then act_ledger (\<lambda>_ st. (clear_approved_digest st, ()))
                  else act_ret ()) (\<lambda>_.
        act_bind (act_ledger (\<lambda>_. clear_publication_pending (mk_version m))) (\<lambda>_.
          act_ret (rec\<lparr>rc_pending := False\<rparr>))))"

text \<open>\<open>self._apply_began = True\<close>, right before the backend is asked to apply.\<close>

definition apply_begins :: "('r, 'e, unit) act" where
  "apply_begins = (\<lambda>c. (Inr (), c\<lparr>ct_began := True\<rparr>))"

definition apply_marked ::
    "('r, 'e) serving \<Rightarrow> marker \<Rightarrow> reconcile_result \<Rightarrow> ('r, 'e, reconcile_result) act" where
  "apply_marked B m rec =
     act_bind (check_approval B m) (\<lambda>approved.
     act_bind (if mk_interrupted m then wait_for_settled_runtime B else act_ret ()) (\<lambda>_.
     act_bind (observe B) (\<lambda>earlier.
     act_bind apply_begins (\<lambda>_.
     act_bind (act_catch (call_apply B) (apply_raised B)) (\<lambda>outcome.
     act_bind (observe B) (\<lambda>later.
       finish_apply m approved outcome
         (rec\<lparr>rc_realized := sort (remdups (rc_realized rec @ sorted_diff later earlier)),
              rc_torn_down := sort (remdups (rc_torn_down rec @ sorted_diff earlier later)),
              rc_applied := True, rc_runtime_applied := ar_runtime outcome,
              rc_detail := ar_detail outcome\<rparr>)))))))"

definition apply_pending :: "('r, 'e) serving \<Rightarrow> reconcile_result \<Rightarrow> ('r, 'e, reconcile_result) act" where
  "apply_pending B rec =
     act_bind (act_get (\<lambda>c. st_pending (ct_store c))) (\<lambda>pending.
       case pending of None \<Rightarrow> act_ret rec
       | Some m \<Rightarrow> if \<not> mk_apply_requested m then act_ret (rec\<lparr>rc_pending := True\<rparr>) else apply_marked B m rec)"

definition publish :: "('r, 'e) serving \<Rightarrow> ('r, 'e, reconcile_result) act" where
  "publish B = act_bind (render_project B) (apply_pending B)"

section \<open>Transactions\<close>

definition reconcile :: "('r, 'e) serving \<Rightarrow> bool \<Rightarrow> ('r, 'e, reconcile_result) act" where
  "reconcile B apply =
     act_bind (mark_pending B apply) (\<lambda>_.
       if apply then publish B
       else act_bind (render_project B) (\<lambda>rec. act_ret (rec\<lparr>rc_pending := True\<rparr>)))"

definition idled_ids :: "release_result \<Rightarrow> string list" where
  "idled_ids r = (case r of Idled ids \<Rightarrow> ids | _ \<Rightarrow> [])"

definition release_lease :: "('r, 'e) serving \<Rightarrow> string \<Rightarrow> ('r, 'e, string list \<times> reconcile_result) act" where
  "release_lease B sid =
     act_bind (mark_pending B True) (\<lambda>_.
     act_bind (act_ledger (release sid)) (\<lambda>rel.
     act_bind (publish B) (\<lambda>rec. act_ret (idled_ids rel, rec))))"

record leases_outcome =
  lo_released :: "string list"
  lo_missing :: "string list"
  lo_idled :: "string list"
  lo_evicted :: "string list"
  lo_reconcile :: "reconcile_result option"

fun release_each :: "string list \<Rightarrow> ('r, 'e, string list \<times> string list) act" where
  "release_each [] = act_ret ([], [])"
| "release_each (sid # sids) =
     act_bind (act_ledger (release sid)) (\<lambda>rel.
     act_bind (release_each sids) (\<lambda>(released, idled).
       act_ret (if rel = AlreadyReleased then released else sid # released, idled_ids rel @ idled)))"

definition release_and_publish ::
    "('r, 'e) serving \<Rightarrow> string list \<Rightarrow> string list \<Rightarrow> bool \<Rightarrow> bool \<Rightarrow> ('r, 'e, leases_outcome) act" where
  "release_and_publish B ids missing evict all =
     act_bind (release_each ids) (\<lambda>(released, idled).
     act_bind (if evict \<and> all then act_ledger (evict_idle None)
               else if evict \<and> idled \<noteq> [] then act_ledger (evict_idle (Some (fromkeys idled)))
               else act_ret []) (\<lambda>evicted.
     act_bind (publish B) (\<lambda>rec.
       act_ret \<lparr>lo_released = released, lo_missing = missing, lo_idled = fromkeys idled,
         lo_evicted = evicted, lo_reconcile = Some rec\<rparr>)))"

definition release_leases ::
    "('r, 'e) serving \<Rightarrow> string list option \<Rightarrow> bool \<Rightarrow> ('r, 'e, leases_outcome) act" where
  "release_leases B wanted evict =
     (case wanted of
        None \<Rightarrow>
          act_bind (mark_pending B True) (\<lambda>_.
          act_bind (act_ledger sweep) (\<lambda>_.
          act_bind (act_get (\<lambda>c. map lease_id (filter (\<lambda>le. lease_state le = Active)
              (fst (status False (ct_now c) (ct_store c)))))) (\<lambda>ids.
            release_and_publish B ids [] evict True)))
      | Some sids \<Rightarrow>
          act_bind (act_get (\<lambda>c. filter (\<lambda>s. get_lease (ct_store c) s = None) (fromkeys sids))) (\<lambda>missing.
            let ids = filter (\<lambda>s. s \<notin> set missing) (fromkeys sids) in
            if ids = [] then act_ret \<lparr>lo_released = [], lo_missing = missing, lo_idled = [],
                lo_evicted = [], lo_reconcile = None\<rparr>
            else act_bind (mark_pending B True) (\<lambda>_. release_and_publish B ids missing evict False)))"

definition evict :: "('r, 'e) serving \<Rightarrow> string list option \<Rightarrow> ('r, 'e, string list \<times> reconcile_result) act" where
  "evict B ids =
     act_bind (mark_pending B True) (\<lambda>_.
     act_bind (act_ledger sweep) (\<lambda>_.
     act_bind (act_ledger (evict_idle ids)) (\<lambda>evicted.
     act_bind (publish B) (\<lambda>rec. act_ret (evicted, rec)))))"

definition gc :: "('r, 'e) serving \<Rightarrow> bool \<Rightarrow> ('r, 'e, (string list \<times> string list) \<times> string list \<times> reconcile_result) act" where
  "gc B evict_too =
     act_bind (mark_pending B True) (\<lambda>_.
     act_bind (act_ledger sweep) (\<lambda>swept.
     act_bind (if evict_too then act_ledger (evict_idle None) else act_ret []) (\<lambda>evicted.
     act_bind (publish B) (\<lambda>rec. act_ret (swept, evicted, rec)))))"

definition forget :: "('r, 'e, nat \<times> nat) act" where
  "forget = act_ledger (\<lambda>_. ledger_prune)"

section \<open>Rolling an acquire back\<close>

definition never_ran :: "('r, 'e) serving \<Rightarrow> string list \<Rightarrow> 'r \<Rightarrow> string list" where
  "never_ran B ids r = (case sv_residency B r of Inl _ \<Rightarrow> [] | Inr snap \<Rightarrow> filter (\<lambda>g. units snap g = []) ids)"

definition rollback_acquire :: "('r, 'e) serving \<Rightarrow> string \<Rightarrow> bool \<Rightarrow> ('r, 'e, reconcile_result option) act" where
  "rollback_acquire B sid apply =
     act_bind (mark_pending B apply) (\<lambda>_.
     act_bind (act_ledger (\<lambda>_ st. (clear_approved_digest st, ()))) (\<lambda>_.
     act_bind (act_ledger (release sid)) (\<lambda>rel.
     act_bind (if idled_ids rel = [] then act_ret []
               else act_get (\<lambda>c. never_ran B (idled_ids rel) (ct_runtime c))) (\<lambda>gone.
     act_bind (if gone \<noteq> [] then act_bind (act_ledger (evict_idle (Some gone))) (\<lambda>_. act_ret ()) else act_ret ()) (\<lambda>_.
     act_catch
       (act_bind (render_project B) (\<lambda>rec.
          if apply then act_bind (apply_pending B rec) (\<lambda>rec. act_ret (Some rec)) else act_ret (Some rec)))
       (\<lambda>_. act_ret None))))))"

definition apply_admitted ::
    "('r, 'e) serving \<Rightarrow> reconcile_result \<Rightarrow> string \<Rightarrow> bool \<Rightarrow> ('r, 'e, reconcile_result) act" where
  "apply_admitted B rec sid apply =
     (if \<not> apply then act_ret (rec\<lparr>rc_pending := True\<rparr>)
      else act_catch (apply_pending B rec) (\<lambda>e.
             act_bind (rollback_acquire B sid False) (\<lambda>_. act_raise e)))"

section \<open>Admission under the lock\<close>

definition reaches_preview :: "bool \<Rightarrow> rat \<Rightarrow> store \<Rightarrow> overlay \<Rightarrow> residency option \<Rightarrow> bool" where
  "reaches_preview allocates now st ov res \<longleftrightarrow> res \<noteq> None \<and>
     (filter (\<lambda>(gid, d). adopted_gpus res ov gid = None) (to_place allocates ov) = []
      \<or> unresolved_allocations allocates now st (dkeys (ov_deployments ov)) = [])"

definition admit :: "('r, 'e) serving \<Rightarrow> overlay \<Rightarrow> residency option \<Rightarrow> ('r, 'e, admission) act" where
  "admit B ov res =
     act_bind (act_get (\<lambda>c. reaches_preview (sv_allocates B) (ct_now c) (ct_store c) ov res)) (\<lambda>previews.
     act_bind (if previews then prepare_network B else act_ret ()) (\<lambda>_.
     act_lift (\<lambda>c. backend_raises (admit_acquire (sv_preview B (ct_runtime c)) (sv_allocates B)
       (sv_reclaim B) (ct_now c) (ct_store c) ov res))))"

definition try_residency :: "('r, 'e) serving \<Rightarrow> ('r, 'e, residency option) act" where
  "try_residency B = act_get (\<lambda>c. case sv_residency B (ct_runtime c) of Inl _ \<Rightarrow> None | Inr r \<Rightarrow> Some r)"

section \<open>Renew\<close>

definition renew_overlay :: "rat \<Rightarrow> store \<Rightarrow> lease \<Rightarrow> overlay" where
  "renew_overlay now st le =
     (let ids = filter (\<lambda>g. case get_deployment st g (Some now) of Some d \<Rightarrow> dep_state d = Idle | None \<Rightarrow> False)
                  (fromkeys (lease_deployment_ids le))
      in \<lparr>ov_now = now, ov_claims = [], ov_created = [], ov_revived = ids, ov_served_updates = [],
          ov_deployments = List.map_filter (\<lambda>g. map_option (\<lambda>d. (g, d\<lparr>dep_state := Live\<rparr>))
                             (get_deployment st g (Some now))) ids,
          ov_state_version = admission_state_version st\<rparr>)"

definition renew_readmitted ::
    "('r, 'e) serving \<Rightarrow> string \<Rightarrow> rat option \<Rightarrow> overlay \<Rightarrow> residency option
     \<Rightarrow> ('r, 'e, lease option \<times> string list \<times> reconcile_result option) act" where
  "renew_readmitted B sid ttl ov res =
     act_bind (admit B ov res) (\<lambda>ad.
       if ad_reasons ad \<noteq> [] then act_raise (PlacementRefused (ov_revived ov) (ad_reasons ad) (ad_capacity ad))
       else
         act_bind (mark_pending B True) (\<lambda>_.
         act_bind (if ad_digest ad \<notin> {None, Some []}
                   then act_bind (act_ledger (\<lambda>_. mark_publication_pending True False None (ad_digest ad) None)) (\<lambda>_. act_ret ())
                   else act_ret ()) (\<lambda>_.
         act_bind (act_ledger (renew sid ttl (ad_allocations ad))) (\<lambda>renewed.
         act_bind (publish B) (\<lambda>rec. act_ret (renewed, ov_revived ov, Some rec))))))"

definition renew_admitted ::
    "('r, 'e) serving \<Rightarrow> string \<Rightarrow> rat option \<Rightarrow> ('r, 'e, lease option \<times> string list \<times> reconcile_result option) act" where
  "renew_admitted B sid ttl =
     act_bind (act_get (\<lambda>c. get_lease (ct_store c) sid)) (\<lambda>found.
       case found of
         None \<Rightarrow> act_ret (None, [], None)
       | Some le \<Rightarrow>
           if lease_state le \<noteq> Active then act_ret (None, [], None)
           else
             act_bind (try_residency B) (\<lambda>res.
             act_bind (act_get (\<lambda>c. renew_overlay (ct_now c) (ct_store c) le)) (\<lambda>ov.
               if ov_revived ov = [] then
                 act_bind (act_ledger (renew sid ttl [])) (\<lambda>l. act_ret (l, [], None))
               else renew_readmitted B sid ttl ov res)))"

definition renew_lease_ttl ::
    "('r, 'e) serving \<Rightarrow> string \<Rightarrow> rat option \<Rightarrow> ('r, 'e, lease option \<times> string list \<times> reconcile_result option) act" where
  "renew_lease_ttl B sid ttl =
     act_bind (act_ledger (renew_if_live sid ttl)) (\<lambda>fast.
       case fast of
         Renewed le \<Rightarrow> act_ret (Some le, [], None)
       | NotActive \<Rightarrow> act_ret (None, [], None)
       | NeedsAdmission \<Rightarrow> renew_admitted B sid ttl)"

section \<open>One attempt of an acquire\<close>

datatype attempt =
    Acquired lease "deployment list" reconcile_result
  | Refused "deployment list" "string list" "refusal list" bool
  | PreviewAgain

definition restore_stored_profile :: "('r, 'e) serving \<Rightarrow> json option \<Rightarrow> ('r, 'e, unit) act" where
  "restore_stored_profile B stored = (\<lambda>c.
     case (case stored of Some p \<Rightarrow> Some p | None \<Rightarrow> ct_fresh c) of
       None \<Rightarrow> (Inr (), c)
     | Some p \<Rightarrow> (Inr (), c\<lparr>ct_runtime := sv_use_profile B p (ct_runtime c), ct_profile := Some p\<rparr>))"

definition restore_if :: "('r, 'e) serving \<Rightarrow> json option \<Rightarrow> json option \<Rightarrow> ('r, 'e, unit) act" where
  "restore_if B candidate stored = (if candidate = None then act_ret () else restore_stored_profile B stored)"

text \<open>A lease past its TTL that is still stored ACTIVE is a desired-state change: sweep and publish.\<close>

definition unswept :: "rat \<Rightarrow> store \<Rightarrow> bool" where
  "unswept now st \<longleftrightarrow> list_ex (\<lambda>le. lease_state le = Expired \<and>
     map_option lease_state (get_lease st (lease_id le)) = Some Active) (fst (status True now st))"

definition maintenance_sweep :: "('r, 'e) serving \<Rightarrow> ('r, 'e, unit) act" where
  "maintenance_sweep B =
     act_bind (act_get (\<lambda>c. unswept (ct_now c) (ct_store c))) (\<lambda>due.
       if due then act_bind (mark_pending B True) (\<lambda>_. act_bind (act_ledger sweep) (\<lambda>_.
              act_bind (publish B) (\<lambda>_. act_ret ())))
       else act_ret ())"

text \<open>The snapshot this acquire would publish (\<open>Profile\<close>).\<close>

definition profile_candidate :: "('r, 'e) serving \<Rightarrow> (string \<Rightarrow> string) \<Rightarrow> residency option \<Rightarrow> ('r, 'e, json option) act" where
  "profile_candidate B sha res = act_lift (\<lambda>c.
     case acquire_profile_candidate sha (sv_repr B) (sv_valid_url B) res (ct_now c) (ct_store c) (ct_invocation c) of
       Inl e \<Rightarrow> Inl (ProfileRefused e) | Inr p \<Rightarrow> Inr p)"

definition preview_candidate ::
    "('r, 'e) serving \<Rightarrow> (string \<Rightarrow> string) \<Rightarrow> (nat \<Rightarrow> string) \<Rightarrow> endpoint_request list \<Rightarrow> residency option
     \<Rightarrow> ('r, 'e, overlay \<times> admission) act" where
  "preview_candidate B sha new_id reqs res =
     act_bind (act_lift (\<lambda>c. case sv_validate B reqs (ct_runtime c) of
         Some e \<Rightarrow> Inl (BackendRaised e) | None \<Rightarrow> Inr ())) (\<lambda>_.
     act_bind (act_get (\<lambda>c. plan_acquire sha new_id (map_option is_resident res) (ct_now c) reqs (ct_store c))) (\<lambda>ov.
     act_bind (admit B ov res) (\<lambda>ad. act_ret (ov, ad))))"

definition rolled_back :: "('r, 'e) serving \<Rightarrow> string \<Rightarrow> bool \<Rightarrow> 'e ctl_error \<Rightarrow> ('r, 'e, 'a) act" where
  "rolled_back B sid apply e = act_bind (rollback_acquire B sid apply) (\<lambda>_. act_raise e)"

definition render_failed :: "('r, 'e) serving \<Rightarrow> string \<Rightarrow> bool \<Rightarrow> 'e ctl_error \<Rightarrow> ('r, 'e, 'a) act" where
  "render_failed B sid apply e =
     rolled_back B sid (case e of BackendRaised x \<Rightarrow> sv_converge_aborted B x \<and> apply | _ \<Rightarrow> False) e"

text \<open>After the commit: render, check that the render placed it, apply.\<close>

definition publish_acquired ::
    "('r, 'e) serving \<Rightarrow> string \<Rightarrow> bool \<Rightarrow> lease \<Rightarrow> deployment list \<Rightarrow> ('r, 'e, attempt) act" where
  "publish_acquired B sid apply le ds =
     act_bind (act_catch (render_project B) (render_failed B sid apply)) (\<lambda>rec.
       let unplaced = filter (\<lambda>g. g \<in> set (rr_unplaced (rc_report rec))) (fromkeys (map dep_id ds)) in
       if unplaced \<noteq> [] then
         (let why = filter (\<lambda>e. list_ex (\<lambda>g. is_prefix g e) unplaced) (rr_errors (rc_report rec)) in
          rolled_back B sid apply (PlacementDisagrees (sort unplaced)
            (if why \<noteq> [] then why else [''admission preview and render disagreed''])))
       else act_bind (apply_admitted B rec sid apply) (\<lambda>rec. act_ret (Acquired le ds rec)))"

definition commit_admitted ::
    "('r, 'e) serving \<Rightarrow> (string \<Rightarrow> string) \<Rightarrow> (nat \<Rightarrow> string) \<Rightarrow> string \<Rightarrow> string \<Rightarrow> endpoint_request list
     \<Rightarrow> rat option \<Rightarrow> bool \<Rightarrow> json option \<Rightarrow> overlay \<Rightarrow> admission \<Rightarrow> ('r, 'e, attempt) act" where
  "commit_admitted B sha new_id sid owner reqs ttl apply candidate ov ad =
     act_bind (mark_pending B apply) (\<lambda>_. (\<lambda>c.
       case acquire sha new_id (ct_now c) sid owner reqs ttl (Some ov) (ad_allocations ad)
              (if apply then ad_digest ad else None) candidate (ct_store c) of
         Inl AdmissionConflict \<Rightarrow> (Inr PreviewAgain, c)
       | Inl e \<Rightarrow> act_bind (restore_if B candidate (profile (ct_store c))) (\<lambda>_. act_raise (LedgerRaised e)) c
       | Inr (st, le, ds) \<Rightarrow>
           publish_acquired B sid apply le ds
             (c\<lparr>ct_store := st, ct_profile := (if candidate = None then ct_profile c else candidate),
               ct_profile_error := (candidate = None \<and> ct_profile_error c)\<rparr>)))"

definition acquire_attempt ::
    "('r, 'e) serving \<Rightarrow> (string \<Rightarrow> string) \<Rightarrow> (nat \<Rightarrow> string) \<Rightarrow> string \<Rightarrow> string \<Rightarrow> endpoint_request list
     \<Rightarrow> rat option \<Rightarrow> bool \<Rightarrow> ('r, 'e, attempt) act" where
  "acquire_attempt B sha new_id sid owner reqs ttl apply =
     act_bind (sync_profile B) (\<lambda>_.
     act_bind (act_get (\<lambda>c. profile (ct_store c))) (\<lambda>stored.
     act_bind (maintenance_sweep B) (\<lambda>_.
     act_bind (try_residency B) (\<lambda>res.
     act_bind (profile_candidate B sha res) (\<lambda>candidate.
     act_bind (case candidate of None \<Rightarrow> act_ret () | Some p \<Rightarrow> act_runtime (sv_use_profile B p)) (\<lambda>_.
     act_bind (act_catch (preview_candidate B sha new_id reqs res)
         (\<lambda>e. act_bind (restore_if B candidate stored) (\<lambda>_. act_raise e))) (\<lambda>(ov, ad).
       if ad_reasons ad = [] then commit_admitted B sha new_id sid owner reqs ttl apply candidate ov ad
       else act_bind (restore_if B candidate stored) (\<lambda>_.
         act_ret (Refused (dvals (ov_deployments ov)) (sort (filter (\<lambda>g. g \<in> set (fresh_ids ov)) (dkeys (ov_deployments ov))))
           (ad_reasons ad) (ad_capacity ad))))))))))"

end
