(* ===== verification/Protocol.thy ===== *)
theory Protocol
  imports Publish
begin

text \<open>
  The publication protocol: what every transaction of \<open>Publish\<close> may do to the ledger, the marker and
  the backend, as the step relation \<open>pub_step\<close>; a small logic (\<open>runs\<close>) that shows a statement is a
  run of the protocol; and the statements of a render and of a publication as such runs.
\<close>

section \<open>The publication protocol\<close>

text \<open>
  What the transactions promise, as a step relation. Desired state changes only under a marker;
  the backend applies only the latest render of the ledger's current allocations, and only when
  the marker asks for it; the marker is removed only right after such an apply was complete. A
  state may be the last one: a crash, or an exception that nobody handles.
\<close>

definition committed :: "store \<Rightarrow> (string \<times> int list) set" where
  "committed st = {(g, w). allocation st g = Some w}"

definition same_tables :: "store \<Rightarrow> store \<Rightarrow> bool" where
  "same_tables st st' \<longleftrightarrow> st_leases st' = st_leases st \<and> st_deployments st' = st_deployments st
     \<and> st_claims st' = st_claims st"

definition pending :: "store \<Rightarrow> bool" where
  "pending st \<longleftrightarrow> st_pending st \<noteq> None"

definition requested :: "store \<Rightarrow> bool" where
  "requested st \<longleftrightarrow> (\<exists>m. st_pending st = Some m \<and> mk_apply_requested m)"

text \<open>The last call rendered, or completely applied a render of, the ledger's allocations.\<close>

definition rendered_now :: "store \<Rightarrow> call list \<Rightarrow> bool" where
  "rendered_now st calls \<longleftrightarrow> (\<exists>ds i rest. calls = Converged ds i # rest \<and> set (pi_hard i) = committed st)"

definition applied_now :: "store \<Rightarrow> call list \<Rightarrow> bool" where
  "applied_now st calls \<longleftrightarrow> (\<exists>ds i rest. calls = Applied True # Converged ds i # rest \<and> set (pi_hard i) = committed st)"

inductive pub_step :: "'r ctl \<Rightarrow> 'r ctl \<Rightarrow> bool" where
  environment: "ct_store c' = ct_store c \<Longrightarrow> ct_calls c' = ct_calls c \<Longrightarrow> pub_step c c'"
| record_intent: "same_tables (ct_store c) st \<Longrightarrow> ledger_ok st \<Longrightarrow> pending st \<Longrightarrow> pub_step c (c\<lparr>ct_store := st\<rparr>)"
| record_facts: "same_tables (ct_store c) st \<Longrightarrow> ledger_ok st \<Longrightarrow> st_pending st = st_pending (ct_store c)
    \<Longrightarrow> pub_step c (c\<lparr>ct_store := st\<rparr>)"
| mutate: "pending (ct_store c) \<Longrightarrow> ledger_step op (t, ct_store c) (t, st) \<Longrightarrow> pending st
    \<Longrightarrow> pub_step c (c\<lparr>ct_store := st\<rparr>)"
| bookkeeping: "ledger_step op (t, ct_store c) (t, st) \<Longrightarrow> committed st = committed (ct_store c)
    \<Longrightarrow> st_pending st = st_pending (ct_store c) \<Longrightarrow> pub_step c (c\<lparr>ct_store := st\<rparr>)"
| converge: "pending (ct_store c) \<Longrightarrow> set (pi_hard i) = committed (ct_store c)
    \<Longrightarrow> pub_step c (c\<lparr>ct_runtime := r, ct_calls := Converged ds i # ct_calls c\<rparr>)"
| converge_raises: "pending (ct_store c) \<Longrightarrow> pub_step c (c\<lparr>ct_runtime := r, ct_calls := ConvergeRaised # ct_calls c\<rparr>)"
| apply_render: "requested (ct_store c) \<Longrightarrow> rendered_now (ct_store c) (ct_calls c)
    \<Longrightarrow> pub_step c (c\<lparr>ct_runtime := r, ct_calls := Applied b # ct_calls c\<rparr>)"
| apply_raises: "requested (ct_store c) \<Longrightarrow> rendered_now (ct_store c) (ct_calls c)
    \<Longrightarrow> pub_step c (c\<lparr>ct_runtime := r, ct_calls := ApplyRaised # ct_calls c\<rparr>)"
| clear: "applied_now (ct_store c) (ct_calls c)
    \<Longrightarrow> pub_step c (c\<lparr>ct_store := (ct_store c)\<lparr>st_pending := None\<rparr>\<rparr>)"

lemma committed_same_tables: "same_tables st st' \<Longrightarrow> committed st' = committed st"
  by (simp add: committed_def allocation_def dep_at_def same_tables_def)

lemma pub_step_ledger_ok: "pub_step c c' \<Longrightarrow> ledger_ok (ct_store c) \<Longrightarrow> ledger_ok (ct_store c')"
proof (induction rule: pub_step.induct)
  case (mutate c op t st)
  then show ?case using step_ok[of op "(t, ct_store c)" "(t, st)"] by simp
next
  case (bookkeeping op t c st)
  then show ?case using step_ok[of op "(t, ct_store c)" "(t, st)"] by simp
next
  case (clear c)
  then show ?case
    by (simp add: ledger_ok_def refs_ok_def alloc_ok_def live_claimed_def lease_ids_def dep_ids_def
        dep_at_def lease_at_def live_at_def)
qed simp_all

text \<open>Between publications the runtime was last brought to the ledger's allocations.\<close>

definition up_to_date :: "store \<Rightarrow> call list \<Rightarrow> bool" where
  "up_to_date st calls \<longleftrightarrow> pending st \<or> applied_now st calls \<or> calls = [] \<and> committed st = {}"

lemma up_to_date_cong:
  "st_pending st' = st_pending st \<Longrightarrow> committed st' = committed st \<Longrightarrow> up_to_date st' calls = up_to_date st calls"
  by (simp add: up_to_date_def applied_now_def pending_def)

lemma requested_pending: "requested st \<Longrightarrow> pending st"
  by (auto simp: requested_def pending_def)

lemma pub_step_up_to_date:
  "pub_step c c' \<Longrightarrow> up_to_date (ct_store c) (ct_calls c) \<Longrightarrow> up_to_date (ct_store c') (ct_calls c')"
proof (induction rule: pub_step.induct)
  case (record_facts c st)
  then show ?case using up_to_date_cong[of st "ct_store c"] committed_same_tables by simp
next
  case (bookkeeping op t c st)
  then show ?case using up_to_date_cong[of st "ct_store c"] by simp
next
  case (clear c)
  then show ?case by (simp add: up_to_date_def applied_now_def committed_def allocation_def dep_at_def)
qed (simp_all add: up_to_date_def requested_pending)

inductive pub_reachable :: "'r ctl \<Rightarrow> 'r ctl \<Rightarrow> bool" for c where
  start: "pub_reachable c c"
| step: "pub_reachable c c' \<Longrightarrow> pub_step c' c'' \<Longrightarrow> pub_reachable c c''"

lemma pub_reachable_trans: "pub_reachable b c \<Longrightarrow> pub_reachable a b \<Longrightarrow> pub_reachable a c"
  by (induction rule: pub_reachable.induct) (auto intro: pub_reachable.step)

lemma pub_reachable_ledger_ok: "pub_reachable c c' \<Longrightarrow> ledger_ok (ct_store c) \<Longrightarrow> ledger_ok (ct_store c')"
  by (induction rule: pub_reachable.induct) (auto intro: pub_step_ledger_ok)

lemma pub_reachable_up_to_date:
  "pub_reachable c c' \<Longrightarrow> up_to_date (ct_store c) (ct_calls c) \<Longrightarrow> up_to_date (ct_store c') (ct_calls c')"
  by (induction rule: pub_reachable.induct) (auto intro: pub_step_up_to_date)

section \<open>Runs of the protocol\<close>

text \<open>
  \<open>runs p m q\<close>: from a well-formed ledger with \<open>p\<close>, the statement \<open>m\<close> is a run of the protocol, and
  \<open>q\<close> holds of its value unless it raises. \<open>p\<close> and \<open>q\<close> speak of the store and the calls.
\<close>

definition runs :: "(store \<Rightarrow> call list \<Rightarrow> bool) \<Rightarrow> ('r, 'e, 'a) act \<Rightarrow> ('a \<Rightarrow> store \<Rightarrow> call list \<Rightarrow> bool) \<Rightarrow> bool" where
  "runs p m q \<longleftrightarrow> (\<forall>c. ledger_ok (ct_store c) \<and> p (ct_store c) (ct_calls c) \<longrightarrow>
     pub_reachable c (snd (m c)) \<and>
     (\<forall>x. fst (m c) = Inr x \<longrightarrow> q x (ct_store (snd (m c))) (ct_calls (snd (m c)))))"

lemma runsD:
  fixes m :: "('r, 'e, 'a) act"
  assumes "runs p m q" and "ledger_ok (ct_store c)" and "p (ct_store c) (ct_calls c)"
  shows "pub_reachable c (snd (m c))" "ledger_ok (ct_store (snd (m c)))"
    "fst (m c) = Inr x \<Longrightarrow> q x (ct_store (snd (m c))) (ct_calls (snd (m c)))"
  using assms pub_reachable_ledger_ok unfolding runs_def by blast+

lemma runs_ret: "(\<And>st calls. p st calls \<Longrightarrow> q x st calls) \<Longrightarrow> runs p (act_ret x) q"
  by (simp add: runs_def act_ret_def pub_reachable.start)

lemma runs_raise: "runs p (act_raise e) q"
  by (simp add: runs_def act_raise_def pub_reachable.start)

lemma runs_bind:
  fixes m :: "('r, 'e, 'a) act" and k :: "'a \<Rightarrow> ('r, 'e, 'b) act"
  assumes "runs p m r" and "\<And>x. runs (r x) (k x) q"
  shows "runs p (act_bind m k) q"
  unfolding runs_def
proof (intro allI impI)
  fix c :: "'r ctl" assume c: "ledger_ok (ct_store c) \<and> p (ct_store c) (ct_calls c)"
  obtain v c1 where m: "m c = (v, c1)" by (cases "m c")
  note M = runsD[OF assms(1), of c, unfolded m fst_conv snd_conv]
  show "pub_reachable c (snd (act_bind m k c)) \<and> (\<forall>x. fst (act_bind m k c) = Inr x \<longrightarrow>
      q x (ct_store (snd (act_bind m k c))) (ct_calls (snd (act_bind m k c))))"
  proof (cases v)
    case (Inl e)
    then show ?thesis using M(1) c m by (simp add: act_bind_def)
  next
    case (Inr x)
    have "act_bind m k c = k x c1" using Inr m by (simp add: act_bind_def)
    moreover have "ledger_ok (ct_store c1)" "r x (ct_store c1) (ct_calls c1)" using M(2,3) c Inr by blast+
    ultimately show ?thesis
      using runsD[OF assms(2)[of x], of c1] pub_reachable_trans[OF _ M(1)] c by auto
  qed
qed

lemma runs_conseq:
  "runs p m q \<Longrightarrow> (\<And>st calls. p' st calls \<Longrightarrow> p st calls) \<Longrightarrow> (\<And>x st calls. q x st calls \<Longrightarrow> q' x st calls)
   \<Longrightarrow> runs p' m q'"
  unfolding runs_def by blast

abbreviation anything :: "store \<Rightarrow> call list \<Rightarrow> bool" where "anything \<equiv> \<lambda>_ _. True"

lemma runs_catch:
  fixes m :: "('r, 'e, 'a) act"
  assumes "runs p m q" and "\<And>e. runs anything (h e) q"
  shows "runs p (act_catch m h) q"
  unfolding runs_def
proof (intro allI impI)
  fix c :: "'r ctl" assume c: "ledger_ok (ct_store c) \<and> p (ct_store c) (ct_calls c)"
  obtain v c1 where m: "m c = (v, c1)" by (cases "m c")
  note M = runsD[OF assms(1), of c, unfolded m fst_conv snd_conv]
  show "pub_reachable c (snd (act_catch m h c)) \<and> (\<forall>x. fst (act_catch m h c) = Inr x \<longrightarrow>
      q x (ct_store (snd (act_catch m h c))) (ct_calls (snd (act_catch m h c))))"
  proof (cases v)
    case (Inl e)
    have "act_catch m h c = h e c1" using Inl m by (simp add: act_catch_def)
    then show ?thesis using runsD[OF assms(2)[of e], of c1] pub_reachable_trans[OF _ M(1)] M(2) c by auto
  next
    case (Inr x)
    then show ?thesis using M(1,3) c m by (auto simp: act_catch_def)
  qed
qed

text \<open>Statements that touch neither the store nor the calls.\<close>

definition silent :: "('r, 'e, 'a) act \<Rightarrow> bool" where
  "silent m \<longleftrightarrow> (\<forall>c. ct_store (snd (m c)) = ct_store c \<and> ct_calls (snd (m c)) = ct_calls c)"

lemma runs_silent: "silent m \<Longrightarrow> runs p m (\<lambda>_. p)"
  by (auto simp: runs_def silent_def intro: pub_reachable.step[OF pub_reachable.start] pub_step.environment)

lemma silent_simple [simp]:
  "silent (act_get f)" "silent (act_lift g)" "silent (act_runtime h)" "silent (act_ret x)" "silent (act_raise e)"
  "silent take_fresh_profile" "silent apply_begins"
  by (simp_all add: silent_def act_get_def act_lift_def act_runtime_def act_ret_def act_raise_def take_fresh_profile_def
      apply_begins_def)

lemma silent_sync_profile [simp]: "silent (sync_profile B)"
  by (auto simp: silent_def sync_profile_def act_ret_def Let_def split: option.split)

lemma silent_prepare_network [simp]: "silent (prepare_network B)"
  by (simp add: silent_def prepare_network_def act_ret_def)

lemma silent_observe [simp]: "silent (observe B)" "silent (read_residency B)" "silent (try_residency B)"
  "silent (profile_candidate B sha res)"
  by (simp_all add: observe_def read_residency_def try_residency_def profile_candidate_def)

lemma silent_restore [simp]: "silent (restore_if B candidate stored)"
  by (auto simp: silent_def restore_if_def restore_stored_profile_def act_ret_def split: option.split)

lemma silent_settle [simp]: "silent (wait_for_settled_runtime B)"
proof -
  have "ct_store (snd (settle_loop B deadline prev c)) = ct_store c \<and> ct_calls (snd (settle_loop B deadline prev c)) = ct_calls c"
    for deadline prev c
  proof (induction B deadline prev c rule: settle_loop.induct)
    case (1 B deadline previous c)
    show ?case
      by (subst (1 2) settle_loop.simps) (use 1 in \<open>auto split: sum.split option.split\<close>)
  qed
  then show ?thesis by (simp add: silent_def wait_for_settled_runtime_def)
qed

lemma runs_get: "(\<And>c. ledger_ok (ct_store c) \<Longrightarrow> p (ct_store c) (ct_calls c) \<Longrightarrow> q (f c) (ct_store c) (ct_calls c))
    \<Longrightarrow> runs p (act_get f) q"
  by (simp add: runs_def act_get_def pub_reachable.start)

section \<open>Ledger statements of the protocol\<close>

lemma ledger_ok_same:
  assumes "same_tables st st'" and "st_addresses st' = st_addresses st"
  shows "ledger_ok st' = ledger_ok st"
proof -
  have "lease_ids st' = lease_ids st" "dep_ids st' = dep_ids st" "st_claims st' = st_claims st"
    "dep_at st' = dep_at st" "lease_at st' = lease_at st"
    using assms(1) by (auto simp: same_tables_def lease_ids_def dep_ids_def dep_at_def lease_at_def)
  then show ?thesis using assms(2)
    by (simp add: ledger_ok_def refs_ok_def alloc_ok_def live_claimed_def live_at_def)
qed

text \<open>A state predicate that reads the marker, the allocations and the calls only.\<close>

definition reads :: "(marker option \<Rightarrow> (string \<times> int list) set \<Rightarrow> call list \<Rightarrow> bool) \<Rightarrow> store \<Rightarrow> call list \<Rightarrow> bool" where
  "reads P = (\<lambda>st calls. P (st_pending st) (committed st) calls)"

lemma runs_facts:
  assumes "\<And>t st. same_tables st (fst (f t st)) \<and> st_addresses (fst (f t st)) = st_addresses st
      \<and> st_pending (fst (f t st)) = st_pending st"
  shows "runs (reads P) (act_ledger f) (\<lambda>_. reads P)"
  unfolding runs_def reads_def
proof (intro allI impI)
  fix c :: "'r ctl"
  let ?st = "fst (f (ct_now c) (ct_store c))"
  assume c: "ledger_ok (ct_store c) \<and> P (st_pending (ct_store c)) (committed (ct_store c)) (ct_calls c)"
  note F = assms[of "ct_store c" "ct_now c"]
  have "ledger_ok ?st" using c ledger_ok_same F by blast
  then have "pub_step c (c\<lparr>ct_store := ?st\<rparr>)" using F by (intro pub_step.record_facts) auto
  then show "pub_reachable c (snd (act_ledger f c)) \<and> (\<forall>x. fst (act_ledger f c) = Inr x \<longrightarrow>
      P (st_pending (ct_store (snd (act_ledger f c)))) (committed (ct_store (snd (act_ledger f c)))) (ct_calls (snd (act_ledger f c))))"
    using c F committed_same_tables[of "ct_store c" ?st]
    by (auto simp: act_ledger_def split: prod.split intro: pub_reachable.step[OF pub_reachable.start])
qed

text \<open>Marker writes: the tables stay, and a marker is there afterwards.\<close>

lemma runs_record_intent:
  assumes "\<And>t st. p st \<Longrightarrow> same_tables st (fst (f t st)) \<and> st_addresses (fst (f t st)) = st_addresses st
      \<and> pending (fst (f t st))"
    and "\<And>t st calls. p st \<Longrightarrow> P (st_pending st) (committed st) calls \<Longrightarrow> P' (st_pending (fst (f t st))) (committed st) calls"
  shows "runs (\<lambda>st calls. p st \<and> reads P st calls) (act_ledger f) (\<lambda>_. reads P')"
  unfolding runs_def reads_def
proof (intro allI impI)
  fix c :: "'r ctl"
  let ?st = "fst (f (ct_now c) (ct_store c))"
  assume c: "ledger_ok (ct_store c) \<and> p (ct_store c) \<and> P (st_pending (ct_store c)) (committed (ct_store c)) (ct_calls c)"
  note F = assms(1)[of "ct_store c" "ct_now c"]
  have "ledger_ok ?st" using c ledger_ok_same F by blast
  then have "pub_step c (c\<lparr>ct_store := ?st\<rparr>)" using F c by (intro pub_step.record_intent) auto
  moreover have "committed ?st = committed (ct_store c)" using committed_same_tables F c by blast
  ultimately show "pub_reachable c (snd (act_ledger f c)) \<and> (\<forall>x. fst (act_ledger f c) = Inr x \<longrightarrow>
      P' (st_pending (ct_store (snd (act_ledger f c)))) (committed (ct_store (snd (act_ledger f c)))) (ct_calls (snd (act_ledger f c))))"
    using c assms(2)[of "ct_store c" "ct_calls c" "ct_now c"]
    by (auto simp: act_ledger_def split: prod.split intro: pub_reachable.step[OF pub_reachable.start])
qed

abbreviation marked :: "store \<Rightarrow> call list \<Rightarrow> bool" where
  "marked \<equiv> \<lambda>st _. pending st"

lemma marked_reads: "marked = reads (\<lambda>m _ _. m \<noteq> None)"
  by (simp add: reads_def pending_def fun_eq_iff)

text \<open>Desired-state changes under the marker.\<close>

lemma runs_mutate:
  assumes "\<And>t st. \<exists>op. ledger_step op (t, st) (t, fst (f t st))" and "\<And>t st. st_pending (fst (f t st)) = st_pending st"
  shows "runs marked (act_ledger f) (\<lambda>_. marked)"
  unfolding runs_def
proof (intro allI impI)
  fix c :: "'r ctl"
  let ?st = "fst (f (ct_now c) (ct_store c))"
  assume c: "ledger_ok (ct_store c) \<and> pending (ct_store c)"
  obtain op where "ledger_step op (ct_now c, ct_store c) (ct_now c, ?st)" using assms(1) by blast
  moreover have "pending ?st" using c assms(2) by (simp add: pending_def)
  ultimately have "pub_step c (c\<lparr>ct_store := ?st\<rparr>)" using c by (intro pub_step.mutate) auto
  then show "pub_reachable c (snd (act_ledger f c)) \<and>
      (\<forall>x. fst (act_ledger f c) = Inr x \<longrightarrow> pending (ct_store (snd (act_ledger f c))))"
    using \<open>pending ?st\<close> by (auto simp: act_ledger_def split: prod.split intro: pub_reachable.step[OF pub_reachable.start])
qed

lemma pending_frame [simp]:
  "st_pending (move_all s t gids st) = st_pending st" "st_pending (set_lease_state sid l st) = st_pending st"
  "st_pending (renew_lease sid ttl e h st) = st_pending st" "st_pending (allocate_all al st) = st_pending st"
  "st_pending (set_deployment_state g s t st) = st_pending st"
  "st_pending (set_allocation g w st) = st_pending st"
proof -
  have f: "st_pending (fold (\<lambda>x. upd_dep (k x) (g x)) xs st) = st_pending st" for k :: "'b \<Rightarrow> string" and g xs st
    by (induction xs arbitrary: st) auto
  show "st_pending (move_all s t gids st) = st_pending st"
    unfolding move_all_def set_deployment_state_upd by (rule f)
  show "st_pending (allocate_all al st) = st_pending st"
    unfolding allocate_all_upd by (induction al arbitrary: st) auto
qed (simp_all add: set_lease_state_upd renew_lease_upd set_deployment_state_upd set_allocation_def
      set_deployment_allocation_upd bump_admission_state_version_def)

lemma pending_expire [simp]:
  "st_pending (fold (\<lambda>le. set_lease_state (lease_id le) s) due st) = st_pending st"
  by (induction due arbitrary: st) auto

lemma pending_ops [simp]:
  "st_pending (fst (sweep t st)) = st_pending st" "st_pending (fst (release sid t st)) = st_pending st"
  "st_pending (fst (evict_idle w t st)) = st_pending st" "st_pending (fst (renew sid ttl al t st)) = st_pending st"
  "st_pending (fst (renew_if_live sid ttl t st)) = st_pending st" "st_pending (fst (ledger_prune st)) = st_pending st"
proof -
  show "st_pending (fst (release sid t st)) = st_pending st"
    by (auto simp: release_def idle_deployments_eq Let_def split: option.split)
  show "st_pending (fst (renew sid ttl al t st)) = st_pending st"
    by (auto simp: renew_def revive_idle_eq allocate_all_def[symmetric] Let_def split: option.split)
qed (simp_all add: sweep_def idle_deployments_eq evict_idle_eq renew_if_live_def ledger_prune_def prune_def Let_def
      split: option.split)

lemma step_ops:
  "\<exists>op. ledger_step op (t, st) (t, fst (sweep t st))" "\<exists>op. ledger_step op (t, st) (t, fst (release sid t st))"
  "\<exists>op. ledger_step op (t, st) (t, fst (evict_idle w t st))"
  "\<exists>op. ledger_step op (t, st) (t, fst (renew sid ttl al t st))"
  "\<exists>op. ledger_step op (t, st) (t, fst (renew_if_live sid ttl t st))"
  "\<exists>op. ledger_step op (t, st) (t, fst (ledger_prune st))"
  by (metis ledger_step.sweep ledger_step.release ledger_step.evict ledger_step.renew ledger_step.renew_fast
      ledger_step.prune prod.collapse)+

lemma runs_ops:
  "runs marked (act_ledger sweep) (\<lambda>_. marked)" "runs marked (act_ledger (release sid)) (\<lambda>_. marked)"
  "runs marked (act_ledger (evict_idle w)) (\<lambda>_. marked)" "runs marked (act_ledger (renew sid ttl al)) (\<lambda>_. marked)"
  by (rule runs_mutate; (rule step_ops | simp))+

subsection \<open>Adopting allocations\<close>

lemma backfill_reachable:
  fixes c :: "'r ctl"
  assumes "\<forall>d \<in> set ds. dep_state d = Live \<longrightarrow> live_at (ct_store c) (dep_id d)" and "pending (ct_store c)"
  shows "pub_reachable c (c\<lparr>ct_store := fst (backfill_loop al res ds (ct_store c))\<rparr>)
    \<and> st_pending (fst (backfill_loop al res ds (ct_store c))) = st_pending (ct_store c)"
  using assms
proof (induction ds arbitrary: c)
  case Nil
  then show ?case by (simp add: pub_reachable.start)
next
  case (Cons d ds)
  have later: "\<forall>e \<in> set ds. dep_state e = Live \<longrightarrow> live_at (set_allocation g w (ct_store c)) (dep_id e)" for g w
    using Cons.prems(1) by (auto simp: live_at_def set_allocation_def set_deployment_allocation_upd
        bump_admission_state_version_def dep_at_def find_upd_key upd_dep_def split: option.splits)
  have adopt: ?case if "backfill_loop al res (d # ds) (ct_store c) = backfill_loop al res ds (set_allocation (dep_id d) (Some w) (ct_store c))"
    and "dep_state d = Live" for w
  proof -
    let ?c = "c\<lparr>ct_store := set_allocation (dep_id d) (Some w) (ct_store c)\<rparr>"
    have "ledger_step (Adopt (dep_id d)) (t, ct_store c) (t, ct_store ?c)" for t
      using Cons.prems(1) that(2) by (auto intro: ledger_step.adopt)
    then have "pub_step c ?c" using Cons.prems(2) by (intro pub_step.mutate[where t = 0]) (auto simp: pending_def)
    moreover have "pending (ct_store ?c)" using Cons.prems(2) by (simp add: pending_def)
    ultimately show ?thesis using Cons.IH[of ?c] later that(1)
      by (auto intro: pub_reachable_trans[OF _ pub_reachable.step[OF pub_reachable.start]])
  qed
  have skip: ?case if "fst (backfill_loop al res (d # ds) (ct_store c)) = fst (backfill_loop al res ds (ct_store c))"
    using Cons that by simp
  show ?case
  proof (cases "dep_state d \<noteq> Live \<or> dep_assigned_gpus d \<noteq> None")
    case True
    then show ?thesis by (intro skip) simp
  next
    case False
    note live = this
    show ?thesis
    proof (cases "gpu_units al d = 0")
      case True
      show ?thesis by (rule adopt[of "[]"]) (use live True in simp_all)
    next
      case nz: False
      show ?thesis
      proof (cases "adoptable_gpus res (dep_id d)")
        case None
        show ?thesis by (rule skip) (use live nz None in simp)
      next
        case (Some w)
        show ?thesis by (rule adopt[of w]) (use live nz Some in simp_all)
      qed
    qed
  qed
qed

lemma runs_backfill: "runs marked (act_ledger (backfill_allocations al res)) (\<lambda>_. marked)"
  unfolding runs_def
proof (intro allI impI)
  fix c :: "'r ctl"
  assume c: "ledger_ok (ct_store c) \<and> pending (ct_store c)"
  then have d: "distinct (dep_ids (ct_store c))" by (simp add: ledger_ok_def refs_ok_def)
  have "\<forall>d \<in> set (snd (status False (ct_now c) (ct_store c))). dep_state d = Live \<longrightarrow> live_at (ct_store c) (dep_id d)"
    using dep_at_row[OF d] by (auto simp: status_def list_deployments_def live_at_def)
  from backfill_reachable[OF this, of al res] c
  show "pub_reachable c (snd (act_ledger (backfill_allocations al res) c)) \<and>
      (\<forall>x. fst (act_ledger (backfill_allocations al res) c) = Inr x \<longrightarrow>
        pending (ct_store (snd (act_ledger (backfill_allocations al res) c))))"
    by (auto simp: act_ledger_def backfill_allocations_def pending_def split: prod.split)
qed

subsection \<open>The marker\<close>

lemma marker_frame:
  "same_tables st (fst (write_marker a i ctx h st))" "st_addresses (fst (write_marker a i ctx h st)) = st_addresses st"
  "pending (fst (write_marker a i ctx h st))"
  "same_tables st (fst (mark_publication_pending a i ctx h p st))"
  "st_addresses (fst (mark_publication_pending a i ctx h p st)) = st_addresses st"
  "pending (fst (mark_publication_pending a i ctx h p st))"
  "same_tables st (set_approved_digest h st)" "st_addresses (set_approved_digest h st) = st_addresses st"
  "requested (set_approved_digest h st) = requested st" "pending (set_approved_digest h st) = pending st"
  "same_tables st (clear_placement_context st)" "st_addresses (clear_placement_context st) = st_addresses st"
  "pending (clear_placement_context st) = pending st" "requested (clear_placement_context st) = requested st"
  by (auto simp: write_marker_def mark_publication_pending_def write_profile_def set_meta_json_def same_tables_def
      pending_def requested_def set_approved_digest_def clear_placement_context_def Let_def split: option.splits)

lemma same_tables_refl [simp]: "same_tables st st"
  by (simp add: same_tables_def)

lemma write_marker_requested: "requested (fst (write_marker a i ctx h st)) \<longleftrightarrow> a \<or> requested st"
  by (auto simp: write_marker_def requested_def Let_def split: option.splits)

lemma requested_write_profile [simp]: "requested (write_profile p st) = requested st"
  by (simp add: requested_def write_profile_def set_meta_json_def)

lemma mark_requested: "requested (fst (mark_publication_pending a i ctx h p st)) \<longleftrightarrow> a \<or> requested st"
  by (simp add: mark_publication_pending_def write_marker_requested split: option.split)

text \<open>Recording intent fails only with a profile found unusable, and then changes nothing.\<close>

lemma mark_raises: "fst (mark_pending B a c) = Inl e \<longleftrightarrow> e = ProfileUnusable \<and> sv_render_profile B \<noteq> None \<and> ct_profile_error c"
  and mark_raised: "fst (mark_pending B a c) = Inl e \<Longrightarrow> snd (mark_pending B a c) = c"
proof -
  have marked: "\<exists>x c'. mark_pending B a c = (Inr x, c')" if "sync_profile B c = (Inr y, c1)" for y c1
    by (simp add: mark_pending_def act_bind_def that act_ledger_def take_fresh_profile_def split: prod.split)
  have sync: "if sv_render_profile B \<noteq> None \<and> ct_profile_error c then sync_profile B c = (Inl ProfileUnusable, c)
    else \<exists>c1. sync_profile B c = (Inr (), c1)"
    by (simp add: sync_profile_def act_ret_def Let_def split: option.split prod.split)
  have eq: "mark_pending B a c = (Inl ProfileUnusable, c)" if "sync_profile B c = (Inl ProfileUnusable, c)"
    by (simp add: mark_pending_def act_bind_def that)
  show "fst (mark_pending B a c) = Inl e \<longleftrightarrow> e = ProfileUnusable \<and> sv_render_profile B \<noteq> None \<and> ct_profile_error c"
    using sync eq marked by (force split: if_splits)
  show "fst (mark_pending B a c) = Inl e \<Longrightarrow> snd (mark_pending B a c) = c"
    using sync eq marked by (force split: if_splits)
qed

lemma mark_same_tables_ok:
  assumes "fst (mark_pending B a c) = Inr x"
  shows "same_tables (ct_store c) (ct_store (snd (mark_pending B a c)))"
  and mark_ct: "pending (ct_store (snd (mark_pending B a c)))"
    "requested (ct_store (snd (mark_pending B a c))) \<longleftrightarrow> a \<or> requested (ct_store c)"
proof -
  obtain c1 where s: "sync_profile B c = (Inr (), c1)" "ct_store c1 = ct_store c" "ct_calls c1 = ct_calls c"
  proof -
    have "\<exists>c1. sync_profile B c = (Inr (), c1)"
      using assms by (auto simp: mark_pending_def act_bind_def split: prod.splits sum.splits)
    moreover have "ct_store (snd (sync_profile B c)) = ct_store c" "ct_calls (snd (sync_profile B c)) = ct_calls c"
      using silent_sync_profile[of B] unfolding silent_def by blast+
    ultimately show thesis using that by auto
  qed
  let ?st = "if drops_context (ct_store c) then clear_placement_context (ct_store c) else ct_store c"
  let ?p = "if profile ?st \<noteq> None then None else ct_fresh c1"
  have eq: "ct_store (snd (mark_pending B a c)) = fst (mark_publication_pending a False None None ?p ?st)"
    by (simp_all add: mark_pending_def act_bind_def s act_ledger_def take_fresh_profile_def split: prod.split)
  show "same_tables (ct_store c) (ct_store (snd (mark_pending B a c)))"
    unfolding eq using marker_frame(4)[of ?st a False None None ?p] marker_frame(11)[of "ct_store c"]
    by (auto simp: same_tables_def)
  show "pending (ct_store (snd (mark_pending B a c)))"
    "requested (ct_store (snd (mark_pending B a c))) \<longleftrightarrow> a \<or> requested (ct_store c)"
    unfolding eq by (simp_all add: marker_frame mark_requested)
qed

lemma mark_same_tables: "same_tables (ct_store c) (ct_store (snd (mark_pending B a c)))"
proof (cases "fst (mark_pending B a c)")
  case (Inl e)
  then show ?thesis using mark_raised[OF Inl] by (simp add: same_tables_def)
qed (rule mark_same_tables_ok)

lemma mark_deployments: "st_deployments (ct_store (snd (mark_pending B a c))) = st_deployments (ct_store c)"
  using mark_same_tables[of c B a] by (simp add: same_tables_def)

lemma runs_mark_pending: "runs anything (mark_pending B a) (\<lambda>_. marked)"
proof -
  have 1: "runs anything (act_ledger (\<lambda>_ st. (if drops_context st then clear_placement_context st else st, ()))) (\<lambda>_. anything)"
  proof -
    have "runs anything (act_ledger (\<lambda>_ st. (if drops_context st then clear_placement_context st else st, ()))) (\<lambda>_. anything)"
      unfolding runs_def
    proof (intro allI impI)
      fix c :: "'r ctl"
      assume c: "ledger_ok (ct_store c) \<and> True"
      have "pub_step c (c\<lparr>ct_store := clear_placement_context (ct_store c)\<rparr>)" if "drops_context (ct_store c)"
      proof (rule pub_step.record_intent)
        show "pending (clear_placement_context (ct_store c))"
          using that unfolding marker_frame by (cases "st_pending (ct_store c)") (simp_all add: drops_context_def pending_def)
        show "ledger_ok (clear_placement_context (ct_store c))"
          using c ledger_ok_same[OF marker_frame(11,12), of "ct_store c"] by simp
      qed (rule marker_frame)
      then show "pub_reachable c (snd (act_ledger (\<lambda>_ st. (if drops_context st then clear_placement_context st else st, ())) c)) \<and>
          (\<forall>x. fst (act_ledger (\<lambda>_ st. (if drops_context st then clear_placement_context st else st, ())) c) = Inr x \<longrightarrow> True)"
        by (auto simp: act_ledger_def pub_reachable.start intro: pub_reachable.step[OF pub_reachable.start])
    qed
    then show ?thesis .
  qed
  have 2: "runs anything (act_ledger (\<lambda>_. mark_publication_pending a False None None fresh)) (\<lambda>_. marked)" for fresh
    unfolding marked_reads
    by (rule runs_conseq[OF runs_record_intent[where p = "\<lambda>_. True" and P = "\<lambda>_ _ _. True" and P' = "\<lambda>m _ _. m \<noteq> None"]])
       (auto simp: marker_frame reads_def marker_frame(6)[unfolded pending_def])
  show ?thesis
    unfolding mark_pending_def
    by (rule runs_bind[OF runs_silent[OF silent_sync_profile]], rule runs_bind[OF 1],
        rule runs_bind[OF runs_silent[OF silent_simple(6)]], rule 2)
qed

section \<open>The render is a run\<close>

lemma add_addresses_distinct:
  "add_addresses tab new = Inr tab' \<Longrightarrow> distinct (dkeys tab) \<Longrightarrow> distinct (dvals tab)
   \<Longrightarrow> distinct (dkeys tab') \<and> distinct (dvals tab')"
proof (induction tab new rule: add_addresses.induct)
  case (2 tab service ip rest)
  show ?case
  proof (cases "dget tab service")
    case None
    then have "service \<notin> set (dkeys tab)" by (simp add: dget_None_iff)
    then show ?thesis using 2 None by (auto simp: dkeys_def dvals_def split: if_splits)
  next
    case (Some old)
    then show ?thesis using 2 by (auto split: if_splits)
  qed
qed simp

lemma add_service_addresses_facts:
  assumes "add_service_addresses new st = Inr st'" and "ledger_ok st"
  shows "same_tables st st'" "ledger_ok st'" "st_pending st' = st_pending st"
proof -
  obtain tab where tab: "add_addresses (st_addresses st) new = Inr tab" "st' = st\<lparr>st_addresses := tab\<rparr>"
    using assms(1) by (auto simp: add_service_addresses_def split: sum.splits)
  then show "same_tables st st'" "st_pending st' = st_pending st" by (simp_all add: same_tables_def)
  show "ledger_ok st'"
    using assms(2) add_addresses_distinct[OF tab(1)] unfolding tab(2)
    by (simp add: ledger_ok_def refs_ok_def alloc_ok_def live_claimed_def lease_ids_def dep_ids_def
        dep_at_def lease_at_def live_at_def)
qed

text \<open>What a render is given: the committed allocations, whatever is resident.\<close>

lemma hard_committed:
  assumes "ledger_ok st"
  shows "set (pi_hard (snd (admission_view dflt False now st res None))) = committed st"
proof -
  have d: "distinct (dep_ids st)" and a: "alloc_ok st" using assms by (simp_all add: ledger_ok_def refs_ok_def)
  let ?b = "by_id (snd (status False now st)) None"
  have h: "pi_hard (snd (admission_view dflt False now st res None)) = List.map_filter hard_of ?b"
    by (simp add: admission_view_def view_fold empty_view_def Let_def)
  have g: "dget ?b g = map_option (\<lambda>d. d\<lparr>dep_demand := demand st g now\<rparr>) (dep_at st g)" for g
    using by_id_dget[OF status_find(2)[OF d], of None now g] status_find(1)[OF d] by simp
  have m: "(g, e) \<in> set ?b \<longleftrightarrow> dget ?b g = Some e" for g e
    using dget_distinct[OF by_id_distinct] dget_SomeD by fastforce
  have "(g, w) \<in> set (List.map_filter hard_of kvs) \<longleftrightarrow>
      (\<exists>e. (g, e) \<in> set kvs \<and> dep_state e = Live \<and> dep_assigned_gpus e = Some w)" for g w kvs
    by (induction kvs) (auto simp: List.map_filter_simps hard_of_def split: option.splits)
  then have "(g, w) \<in> set (List.map_filter hard_of ?b) \<longleftrightarrow>
      (\<exists>e. dget ?b g = Some e \<and> dep_state e = Live \<and> dep_assigned_gpus e = Some w)" for g w
    unfolding m[symmetric] .
  moreover have "(\<exists>e. dget ?b g = Some e \<and> dep_state e = Live \<and> dep_assigned_gpus e = Some w)
      \<longleftrightarrow> allocation st g = Some w" for g w
    unfolding g using a by (cases "dep_at st g") (auto simp: allocation_def alloc_ok_def)
  ultimately show ?thesis unfolding h committed_def by auto
qed

lemma runs_converge:
  "runs (\<lambda>st calls. pending st \<and> set (pi_hard i) = committed st) (converge B ds i)
     (\<lambda>_ st calls. pending st \<and> rendered_now st calls)"
  unfolding runs_def
proof (intro allI impI)
  fix c :: "'a ctl"
  assume c: "ledger_ok (ct_store c) \<and> pending (ct_store c) \<and> set (pi_hard i) = committed (ct_store c)"
  obtain v r where v: "sv_converge B ds i (ct_runtime c) = (v, r)" by fastforce
  have raised: "pub_reachable c (c\<lparr>ct_runtime := r, ct_calls := ConvergeRaised # ct_calls c\<rparr>)"
    using c by (auto intro: pub_reachable.step[OF pub_reachable.start] pub_step.converge_raises)
  show "pub_reachable c (snd (converge B ds i c)) \<and> (\<forall>x. fst (converge B ds i c) = Inr x \<longrightarrow>
      pending (ct_store (snd (converge B ds i c))) \<and>
      rendered_now (ct_store (snd (converge B ds i c))) (ct_calls (snd (converge B ds i c))))"
  proof (cases v)
    case (Inl e)
    then show ?thesis using raised v by (simp add: converge_def)
  next
    case (Inr new)
    show ?thesis
    proof (cases "add_service_addresses new (ct_store c)")
      case (Inl e)
      then show ?thesis using raised v Inr by (simp add: converge_def)
    next
      case (Inr st)
      note F = add_service_addresses_facts[OF Inr]
      let ?c1 = "c\<lparr>ct_store := st\<rparr>"
      have p: "pending st" "committed st = committed (ct_store c)"
        using F c committed_same_tables[OF F(1)] by (auto simp: pending_def)
      have "pub_step c ?c1" using F c by (intro pub_step.record_facts) auto
      moreover have "pub_step ?c1 (?c1\<lparr>ct_runtime := r, ct_calls := Converged ds i # ct_calls ?c1\<rparr>)"
        using p c by (intro pub_step.converge) auto
      ultimately have "pub_reachable c (?c1\<lparr>ct_runtime := r, ct_calls := Converged ds i # ct_calls ?c1\<rparr>)"
        by (blast intro: pub_reachable.intros)
      moreover have "converge B ds i c = (Inr (), ?c1\<lparr>ct_runtime := r, ct_calls := Converged ds i # ct_calls ?c1\<rparr>)"
        using v \<open>v = Inr new\<close> Inr by (simp add: converge_def)
      ultimately show ?thesis using p c by (simp add: rendered_now_def)
    qed
  qed
qed

abbreviation rendered_pending :: "store \<Rightarrow> call list \<Rightarrow> bool" where
  "rendered_pending \<equiv> \<lambda>st calls. pending st \<and> rendered_now st calls"

lemma rendered_reads:
  "rendered_pending = reads (\<lambda>m C calls. m \<noteq> None \<and> (\<exists>ds i rest. calls = Converged ds i # rest \<and> set (pi_hard i) = C))"
  by (simp add: reads_def pending_def rendered_now_def fun_eq_iff)

lemma adopted_facts:
  "same_tables st (fst (prune_adopted res st)) \<and> st_addresses (fst (prune_adopted res st)) = st_addresses st
     \<and> st_pending (fst (prune_adopted res st)) = st_pending st"
  "same_tables st (set_adopted_containers t st)" "st_addresses (set_adopted_containers t st) = st_addresses st"
  "st_pending (set_adopted_containers t st) = st_pending st"
  by (auto simp: prune_adopted_def set_adopted_containers_def set_meta_json_def same_tables_def Let_def split: option.split)

lemma runs_adopt_existing: "runs (reads P) (adopt_existing B res) (\<lambda>_. reads P)"
  unfolding runs_def
proof (intro allI impI)
  fix c :: "'a ctl"
  assume c: "ledger_ok (ct_store c) \<and> reads P (ct_store c) (ct_calls c)"
  define t where "t = adopt_table (ct_now c) (ct_store c) res (sv_rendered_services B (ct_runtime c))"
  let ?c1 = "c\<lparr>ct_store := set_adopted_containers t (ct_store c)\<rparr>"
  let ?c2 = "?c1\<lparr>ct_runtime := sv_set_adopted B t (ct_runtime c)\<rparr>"
  have "pub_step c ?c1"
    using adopted_facts(2-4) ledger_ok_same[OF adopted_facts(2,3)] c by (intro pub_step.record_facts) auto
  moreover have "pub_step ?c1 ?c2" by (rule pub_step.environment) simp_all
  ultimately have "pub_reachable c ?c2" by (blast intro: pub_reachable.intros)
  moreover have "reads P (ct_store ?c2) (ct_calls ?c2)"
    using c committed_same_tables[OF adopted_facts(2)] by (simp add: reads_def adopted_facts)
  ultimately show "pub_reachable c (snd (adopt_existing B res c)) \<and>
      (\<forall>x. fst (adopt_existing B res c) = Inr x \<longrightarrow>
        reads P (ct_store (snd (adopt_existing B res c))) (ct_calls (snd (adopt_existing B res c))))"
    using c by (simp add: adopt_existing_def Let_def pub_reachable.start flip: t_def)
qed

lemma runs_if: "(b \<Longrightarrow> runs p m q) \<Longrightarrow> (\<not> b \<Longrightarrow> runs p m' q) \<Longrightarrow> runs p (if b then m else m') q"
  by simp

lemma runs_render_admitted:
  "runs (\<lambda>st calls. pending st \<and> set (pi_hard i) = committed st) (render_admitted B res desired i) (\<lambda>_. rendered_pending)"
proof -
  let ?P = "reads (\<lambda>m C _. m \<noteq> None \<and> set (pi_hard i) = C)"
  have prune: "runs ?P (if sv_host B then act_bind (act_ledger (\<lambda>_. prune_adopted res)) (\<lambda>t. act_runtime (sv_set_adopted B t))
             else act_ret ()) (\<lambda>_. ?P)"
  proof (rule runs_if)
    show "runs ?P (act_bind (act_ledger (\<lambda>_. prune_adopted res)) (\<lambda>t. act_runtime (sv_set_adopted B t))) (\<lambda>_. ?P)"
      by (rule runs_bind[OF runs_facts runs_silent]) (simp_all add: adopted_facts)
  qed (rule runs_silent, simp)
  have conv: "runs ?P (converge B desired i) (\<lambda>_. rendered_pending)"
    by (rule runs_conseq[OF runs_converge]) (auto simp: reads_def pending_def)
  have adopt: "runs rendered_pending (if sv_host B then adopt_existing B res else act_ret ()) (\<lambda>_. rendered_pending)"
    unfolding rendered_reads by (rule runs_if[OF runs_adopt_existing runs_silent]) simp
  have "runs ?P (render_admitted B res desired i) (\<lambda>_. rendered_pending)"
    unfolding render_admitted_def
    by (rule runs_bind[OF prune], rule runs_bind[OF runs_silent], simp, rule runs_bind[OF conv],
        rule runs_bind[OF runs_silent], simp, rule runs_bind[OF runs_silent], simp, rule runs_bind[OF adopt],
        rule runs_silent, simp)
  then show ?thesis by (simp add: reads_def pending_def)
qed

lemma runs_render: "runs marked (render_project B) (\<lambda>_. rendered_pending)"
  unfolding render_project_def
proof (rule runs_bind[OF runs_ops(1)], rule runs_bind[OF runs_silent], simp, rule runs_bind[OF runs_backfill],
    rule runs_bind[OF runs_silent], simp)
  fix res :: residency
  show "runs marked
     (act_bind (act_get (\<lambda>c. admission_view (sv_reclaim B) False (ct_now c) (ct_store c) (Some res) None))
        (\<lambda>(desired, i). render_admitted B res desired i)) (\<lambda>_. rendered_pending)"
  proof (rule runs_bind)
    show "runs marked (act_get (\<lambda>c. admission_view (sv_reclaim B) False (ct_now c) (ct_store c) (Some res) None))
        (\<lambda>x st calls. pending st \<and> set (pi_hard (snd x)) = committed st)"
      by (rule runs_get) (simp add: hard_committed)
  qed (simp add: case_prod_beta runs_render_admitted)
qed

section \<open>The apply is a run\<close>

abbreviation applying :: "store \<Rightarrow> call list \<Rightarrow> bool" where
  "applying \<equiv> \<lambda>st calls. requested st \<and> rendered_now st calls"

abbreviation applied_requested :: "store \<Rightarrow> call list \<Rightarrow> bool" where
  "applied_requested \<equiv> \<lambda>st calls. requested st \<and> applied_now st calls"

lemma runs_set_digest:
  assumes "p = applying \<or> p = applied_requested"
  shows "runs p (act_ledger (\<lambda>_ st. (set_approved_digest h st, ()))) (\<lambda>_. p)"
proof -
  have "runs p (act_ledger (\<lambda>_ st. (set_approved_digest h st, ()))) (\<lambda>_. p)"
    if "p = (\<lambda>st calls. requested st \<and> Q (committed st) calls)" for Q
  proof -
    let ?P = "\<lambda>m C calls. (\<exists>x. m = Some x \<and> mk_apply_requested x) \<and> Q C calls"
    have p: "p = reads ?P" unfolding that by (simp add: reads_def requested_def fun_eq_iff)
    have "runs (\<lambda>st calls. requested st \<and> reads ?P st calls) (act_ledger (\<lambda>_ st. (set_approved_digest h st, ()))) (\<lambda>_. reads ?P)"
    proof (rule runs_record_intent)
      fix t :: rat and st
      show "requested st \<Longrightarrow> same_tables st (fst (set_approved_digest h st, ())) \<and>
          st_addresses (fst (set_approved_digest h st, ())) = st_addresses st \<and> pending (fst (set_approved_digest h st, ()))"
        using requested_pending by (simp add: marker_frame)
    next
      fix t :: rat and st calls
      assume "?P (st_pending st) (committed st) calls"
      then show "?P (st_pending (fst (set_approved_digest h st, ()))) (committed st) calls"
        using marker_frame(9)[of h st] by (simp add: requested_def)
    qed
    then show ?thesis unfolding p by (rule runs_conseq) (auto simp: reads_def requested_def)
  qed
  note R = this
  show ?thesis using assms
  proof
    assume "p = applying"
    then show ?thesis
      using R[of "\<lambda>C calls. \<exists>ds i rest. calls = Converged ds i # rest \<and> set (pi_hard i) = C"]
      by (simp add: rendered_now_def fun_eq_iff)
  next
    assume "p = applied_requested"
    then show ?thesis
      using R[of "\<lambda>C calls. \<exists>ds i rest. calls = Applied True # Converged ds i # rest \<and> set (pi_hard i) = C"]
      by (simp add: applied_now_def fun_eq_iff)
  qed
qed

lemmas runs_digests = runs_set_digest[OF disjI1[OF refl]] runs_set_digest[OF disjI2[OF refl]]

lemma runs_check_approval: "runs applying (check_approval B m) (\<lambda>_. applying)"
  unfolding check_approval_def
  by (rule runs_bind[OF runs_silent], simp)
     (auto simp: split_beta intro!: runs_if runs_raise runs_ret runs_bind[where r = "\<lambda>_. applying"] runs_digests
        split: option.split)

lemma runs_call_apply:
  "runs applying (call_apply B) (\<lambda>outcome st calls. requested st \<and> (ar_complete outcome \<longrightarrow> applied_now st calls))"
  unfolding runs_def
proof (intro allI impI)
  fix c :: "'a ctl"
  assume c: "ledger_ok (ct_store c) \<and> requested (ct_store c) \<and> rendered_now (ct_store c) (ct_calls c)"
  obtain v r where v: "sv_apply B (ct_runtime c) = (v, r)" by fastforce
  have "pub_step c (c\<lparr>ct_runtime := r, ct_calls := Applied b # ct_calls c\<rparr>)"
    "pub_step c (c\<lparr>ct_runtime := r, ct_calls := ApplyRaised # ct_calls c\<rparr>)" for b
    using c by (auto intro: pub_step.apply_render pub_step.apply_raises)
  then show "pub_reachable c (snd (call_apply B c)) \<and> (\<forall>x. fst (call_apply B c) = Inr x \<longrightarrow>
      requested (ct_store (snd (call_apply B c))) \<and>
      (ar_complete x \<longrightarrow> applied_now (ct_store (snd (call_apply B c))) (ct_calls (snd (call_apply B c)))))"
    using c v by (auto simp: call_apply_def rendered_now_def applied_now_def split: sum.split
        intro: pub_reachable.step[OF pub_reachable.start])
qed

lemma runs_mark: "runs anything (act_ledger (\<lambda>_. mark_publication_pending a i ctx h p)) (\<lambda>_. marked)"
  unfolding marked_reads
  by (rule runs_conseq[OF runs_record_intent[where p = "\<lambda>_. True" and P = "\<lambda>_ _ _. True" and P' = "\<lambda>m _ _. m \<noteq> None"]])
     (auto simp: marker_frame reads_def marker_frame(6)[unfolded pending_def])

lemma runs_apply_raised: "runs anything (apply_raised B e) q"
  unfolding apply_raised_def by (rule runs_bind[OF runs_mark runs_raise])

lemma runs_clear:
  "runs applied_requested (act_ledger (\<lambda>_. clear_publication_pending v)) (\<lambda>_. anything)"
  unfolding runs_def
proof (intro allI impI)
  fix c :: "'a ctl"
  assume c: "ledger_ok (ct_store c) \<and> requested (ct_store c) \<and> applied_now (ct_store c) (ct_calls c)"
  have "clear_publication_pending v (ct_store c) = (ct_store c, False) \<or>
      clear_publication_pending v (ct_store c) = ((ct_store c)\<lparr>st_pending := None\<rparr>, True)"
    by (auto simp: clear_publication_pending_def split: option.split)
  then show "pub_reachable c (snd (act_ledger (\<lambda>_. clear_publication_pending v) c)) \<and>
      (\<forall>x. fst (act_ledger (\<lambda>_. clear_publication_pending v) c) = Inr x \<longrightarrow> True)"
    using pub_step.clear[of c] c by (auto simp: act_ledger_def intro: pub_reachable.intros)
qed

lemma runs_weaken: "runs anything m q \<Longrightarrow> runs p m q"
  by (rule runs_conseq) auto

lemma runs_finish_apply:
  "runs (\<lambda>st calls. requested st \<and> (ar_complete outcome \<longrightarrow> applied_now st calls))
     (finish_apply m approved outcome rec) (\<lambda>_. anything)"
proof (cases "ar_complete outcome")
  case True
  have "runs applied_requested
      (act_bind (if approved \<notin> {None, Some []} then act_ledger (\<lambda>_ st. (clear_approved_digest st, ())) else act_ret ()) (\<lambda>_.
       act_bind (act_ledger (\<lambda>_. clear_publication_pending (mk_version m))) (\<lambda>_. act_ret r))) (\<lambda>_. anything)"
    for r :: reconcile_result
    unfolding clear_approved_digest_def
    by (rule runs_bind[OF runs_if[OF runs_digests(2) runs_silent]], simp,
        rule runs_bind[OF runs_clear], rule runs_ret, simp)
  then show ?thesis by (simp only: finish_apply_def True simp_thms if_False)
qed (simp add: finish_apply_def runs_ret)

lemma runs_apply_marked: "runs applying (apply_marked B m rec) (\<lambda>_. anything)"
proof -
  have settle: "runs applying (if mk_interrupted m then wait_for_settled_runtime B else act_ret ()) (\<lambda>_. applying)"
    by (rule runs_if; rule runs_silent; simp)
  show ?thesis
    unfolding apply_marked_def
    by (rule runs_bind[OF runs_check_approval], rule runs_bind[OF settle], rule runs_bind[OF runs_silent], simp,
        rule runs_bind[OF runs_silent], simp,
        rule runs_bind[OF runs_catch[OF runs_call_apply runs_apply_raised]], rule runs_bind[OF runs_silent], simp,
        rule runs_finish_apply)
qed

lemma runs_apply_pending: "runs (\<lambda>st calls. rendered_now st calls) (apply_pending B rec) (\<lambda>_. anything)"
  unfolding apply_pending_def
proof (rule runs_bind)
  show "runs (\<lambda>st calls. rendered_now st calls) (act_get (\<lambda>c. st_pending (ct_store c)))
      (\<lambda>x st calls. st_pending st = x \<and> rendered_now st calls)"
    by (rule runs_get) simp
next
  fix x :: "marker option"
  show "runs (\<lambda>st calls. st_pending st = x \<and> rendered_now st calls)
     (case x of None \<Rightarrow> act_ret rec
      | Some m \<Rightarrow> if \<not> mk_apply_requested m then act_ret (rec\<lparr>rc_pending := True\<rparr>) else apply_marked B m rec)
     (\<lambda>_. anything)"
    by (cases x) (auto intro: runs_ret runs_conseq[OF runs_apply_marked] simp: requested_def)
qed

lemma runs_publish: "runs marked (publish B) (\<lambda>_. anything)"
  unfolding publish_def by (rule runs_bind[OF runs_render runs_conseq[OF runs_apply_pending]]) auto

section \<open>The transactions are runs\<close>

lemma runs_then_ret: "runs p m (\<lambda>_. anything) \<Longrightarrow> runs p (act_bind m (\<lambda>x. act_ret (f x))) (\<lambda>_. anything)"
  by (erule runs_bind) (simp add: runs_ret)

lemma runs_any: "runs p m q \<Longrightarrow> runs p m (\<lambda>_. anything)"
  by (erule runs_conseq) auto

lemma runs_reconcile: "runs anything (reconcile B apply) (\<lambda>_. anything)"
  unfolding reconcile_def
  by (rule runs_bind[OF runs_mark_pending], rule runs_if, rule runs_publish, rule runs_then_ret, rule runs_any, rule runs_render)

lemma runs_release_lease: "runs anything (release_lease B sid) (\<lambda>_. anything)"
  unfolding release_lease_def
  by (rule runs_bind[OF runs_mark_pending], rule runs_bind[OF runs_ops(2)], rule runs_then_ret, rule runs_publish)

lemma runs_release_each: "runs marked (release_each ids) (\<lambda>_. marked)"
proof (induction ids)
  case (Cons sid sids)
  show ?case unfolding release_each.simps
    by (rule runs_bind[OF runs_ops(2)], rule runs_bind[OF Cons]) (simp add: split_beta runs_ret)
qed (simp add: runs_ret)

lemma runs_evict_if: "runs marked (if b then act_ledger (evict_idle w) else act_ret x) (\<lambda>_. marked)"
  by (rule runs_if[OF runs_ops(3) runs_silent]) simp

lemma runs_release_and_publish: "runs marked (release_and_publish B ids missing ev all) (\<lambda>_. anything)"
proof -
  have "runs marked (if ev \<and> all then act_ledger (evict_idle None)
      else if ev \<and> idled \<noteq> [] then act_ledger (evict_idle (Some (fromkeys idled))) else act_ret []) (\<lambda>_. marked)" for idled
    by (rule runs_if[OF runs_ops(3)], rule runs_evict_if)
  then show ?thesis
    unfolding release_and_publish_def
    by (intro runs_bind[OF runs_release_each]) (simp only: split_beta, rule runs_bind, assumption,
        rule runs_then_ret, rule runs_publish)
qed

lemma runs_release_leases: "runs anything (release_leases B wanted ev) (\<lambda>_. anything)"
proof (cases wanted)
  case None
  have ids: "runs marked (act_bind (act_get f) (\<lambda>ids. release_and_publish B ids [] ev True)) (\<lambda>_. anything)"
    for f :: "'a ctl \<Rightarrow> string list"
    by (rule runs_bind[OF runs_silent], simp, rule runs_release_and_publish)
  show ?thesis unfolding release_leases_def None option.case
    by (rule runs_bind[OF runs_mark_pending], rule runs_bind[OF runs_ops(1)], rule ids)
next
  case (Some sids)
  show ?thesis unfolding release_leases_def Some option.case Let_def
    by (rule runs_bind[OF runs_silent], simp, rule runs_if, rule runs_ret, simp,
        rule runs_bind[OF runs_mark_pending], rule runs_release_and_publish)
qed

lemma runs_evict: "runs anything (evict B ids) (\<lambda>_. anything)"
  unfolding evict_def
  by (rule runs_bind[OF runs_mark_pending], rule runs_bind[OF runs_ops(1)], rule runs_bind[OF runs_ops(3)],
      rule runs_then_ret, rule runs_publish)

lemma runs_gc: "runs anything (gc B ev) (\<lambda>_. anything)"
  unfolding gc_def
  by (rule runs_bind[OF runs_mark_pending], rule runs_bind[OF runs_ops(1)], rule runs_bind[OF runs_evict_if],
      rule runs_then_ret, rule runs_publish)

text \<open>Ledger operations that change no allocation need no marker.\<close>

lemma runs_bookkeeping:
  assumes "\<And>t st. \<exists>op. ledger_step op (t, st) (t, fst (f t st))"
    and "\<And>t st. st_pending (fst (f t st)) = st_pending st"
    and "\<And>t st. ledger_ok st \<Longrightarrow> committed (fst (f t st)) = committed st"
  shows "runs (reads P) (act_ledger f) (\<lambda>_. reads P)"
  unfolding runs_def reads_def
proof (intro allI impI)
  fix c :: "'r ctl"
  let ?st = "fst (f (ct_now c) (ct_store c))"
  assume c: "ledger_ok (ct_store c) \<and> P (st_pending (ct_store c)) (committed (ct_store c)) (ct_calls c)"
  obtain op where "ledger_step op (ct_now c, ct_store c) (ct_now c, ?st)" using assms(1) by blast
  then have "pub_step c (c\<lparr>ct_store := ?st\<rparr>)" using c assms(2,3) by (intro pub_step.bookkeeping) auto
  moreover have "st_pending ?st = st_pending (ct_store c)" "committed ?st = committed (ct_store c)" using c assms(2,3) by auto
  ultimately show "pub_reachable c (snd (act_ledger f c)) \<and> (\<forall>x. fst (act_ledger f c) = Inr x \<longrightarrow>
      P (st_pending (ct_store (snd (act_ledger f c)))) (committed (ct_store (snd (act_ledger f c)))) (ct_calls (snd (act_ledger f c))))"
    using c by (auto simp: act_ledger_def split: prod.split intro: pub_reachable.step[OF pub_reachable.start])
qed

lemma committed_frame [simp]:
  "committed (renew_lease sid ttl e h st) = committed st" "committed (bump_desired_generation st) = committed st"
  by (simp_all add: committed_def allocation_def renew_lease_upd)

lemma committed_revive: "committed (move_all Live t ids st) = committed st"
proof -
  have "allocation (move_all Live t ids st) g = allocation st g" for g
    by (cases "dep_at st g") (simp_all add: allocation_def dep_at_move_all)
  then show ?thesis by (simp add: committed_def)
qed

lemma committed_renew: "committed (fst (renew sid ttl [] t st)) = committed st"
  by (auto simp: renew_def revive_idle_eq committed_revive Let_def split: option.split)

lemma committed_renew_if_live: "committed (fst (renew_if_live sid ttl t st)) = committed st"
  by (auto simp: renew_if_live_def Let_def split: option.split)

lemma committed_prune:
  assumes "ledger_ok st"
  shows "committed (fst (ledger_prune st)) = committed st"
proof -
  have d: "distinct (dep_ids st)" and a: "alloc_ok st" using assms by (simp_all add: ledger_ok_def refs_ok_def)
  have "allocation (fst (ledger_prune st)) g = allocation st g" for g
  proof -
    have "dep_at (fst (ledger_prune st)) g = find (\<lambda>d. dep_id d = g) (filter (\<lambda>d. dep_state d \<noteq> Stopped) (st_deployments st))"
      by (simp add: ledger_prune_def prune_def dep_at_def Let_def)
    also have "\<dots> = (case dep_at st g of Some d \<Rightarrow> if dep_state d \<noteq> Stopped then Some d else None | None \<Rightarrow> None)"
    proof -
      have "find (\<lambda>d. dep_id d = g) (filter p ds) = (case find (\<lambda>d. dep_id d = g) ds of
          Some d \<Rightarrow> if p d then Some d else None | None \<Rightarrow> None)" if "distinct (map dep_id ds)" for p and ds :: "deployment list"
        using that
      proof (induction ds)
        case (Cons a ds)
        then show ?case using find_key_None[of dep_id g ds] by (auto split: option.split)
      qed simp
      then show ?thesis using d unfolding dep_at_def dep_ids_def by blast
    qed
    finally show ?thesis using allocation_live[OF a, of g]
      by (cases "allocation st g"; cases "dep_at st g") (auto simp: allocation_def live_at_def)
  qed
  then show ?thesis by (simp add: committed_def)
qed

lemma runs_forget: "runs anything forget (\<lambda>_. anything)"
proof -
  have "runs (reads (\<lambda>_ _ _. True)) forget (\<lambda>_. reads (\<lambda>_ _ _. True))"
    unfolding forget_def by (rule runs_bookkeeping[OF step_ops(6)]) (simp_all add: committed_prune)
  then show ?thesis by (simp add: reads_def)
qed

lemma runs_renews:
  "runs anything (act_ledger (renew sid ttl [])) (\<lambda>_. anything)" "runs anything (act_ledger (renew_if_live sid ttl)) (\<lambda>_. anything)"
proof -
  have "runs (reads (\<lambda>_ _ _. True)) (act_ledger (renew sid ttl [])) (\<lambda>_. reads (\<lambda>_ _ _. True))"
    by (rule runs_bookkeeping[OF step_ops(4)]) (simp_all add: committed_renew)
  then show "runs anything (act_ledger (renew sid ttl [])) (\<lambda>_. anything)" by (simp add: reads_def)
  have "runs (reads (\<lambda>_ _ _. True)) (act_ledger (renew_if_live sid ttl)) (\<lambda>_. reads (\<lambda>_ _ _. True))"
    by (rule runs_bookkeeping[OF step_ops(5)]) (simp_all add: committed_renew_if_live)
  then show "runs anything (act_ledger (renew_if_live sid ttl)) (\<lambda>_. anything)" by (simp add: reads_def)
qed

section \<open>What publishing leaves alone\<close>

text \<open>A predicate of the store that a statement keeps, whether it returns or raises.\<close>

definition preserves :: "(store \<Rightarrow> bool) \<Rightarrow> ('r, 'e, 'a) act \<Rightarrow> bool" where
  "preserves I m \<longleftrightarrow> (\<forall>c. I (ct_store c) \<longrightarrow> I (ct_store (snd (m c))))"

lemma preserves_silent: "silent m \<Longrightarrow> preserves I m"
  by (simp add: preserves_def silent_def)

lemma preserves_bind: "preserves I m \<Longrightarrow> (\<And>x. preserves I (k x)) \<Longrightarrow> preserves I (act_bind m k)"
  unfolding preserves_def act_bind_def by (auto split: prod.split sum.split)

lemma preserves_catch: "preserves I m \<Longrightarrow> (\<And>e. preserves I (h e)) \<Longrightarrow> preserves I (act_catch m h)"
  unfolding preserves_def act_catch_def by (auto split: prod.split sum.split)

lemma preserves_if: "preserves I m \<Longrightarrow> preserves I m' \<Longrightarrow> preserves I (if b then m else m')"
  by simp

lemma preserves_ledger: "(\<And>t st. I st \<Longrightarrow> I (fst (f t st))) \<Longrightarrow> preserves I (act_ledger f)"
  unfolding preserves_def act_ledger_def by (auto split: prod.split) (metis fst_conv)

text \<open>A predicate of the leases, deployments and the marker that sweeping and adopting allocations keep.\<close>

definition render_safe :: "(store \<Rightarrow> bool) \<Rightarrow> bool" where
  "render_safe I \<longleftrightarrow> (\<forall>t st. I st \<longrightarrow> I (fst (sweep t st))) \<and> (\<forall>g w st. I st \<longrightarrow> I (set_allocation g w st))
     \<and> (\<forall>st st'. I st \<longrightarrow> same_tables st st' \<longrightarrow> st_pending st' = st_pending st \<longrightarrow> I st')"

lemma backfill_safe:
  assumes "render_safe I"
  shows "I st \<Longrightarrow> I (fst (backfill_loop al res ds st))"
  using assms
  by (induction al res ds st rule: backfill_loop.induct) (auto simp: render_safe_def split: option.split)

lemma preserves_render:
  assumes "render_safe I"
  shows "preserves I (render_project B)"
proof -
  note [simp] = preserves_silent
  have inert: "I st'" if "I st" "same_tables st st'" "st_pending st' = st_pending st" for st st'
    using that assms unfolding render_safe_def by blast
  have sw: "preserves I (act_ledger sweep)"
    using assms by (intro preserves_ledger) (simp add: render_safe_def)
  have bf: "preserves I (act_ledger (backfill_allocations al res))" for al res
    by (rule preserves_ledger) (simp add: backfill_allocations_def backfill_safe[OF assms])
  have pr: "preserves I (act_ledger (\<lambda>_. prune_adopted res))" for res
    by (rule preserves_ledger) (use inert adopted_facts(1) in blast)
  have cv: "preserves I (converge B ds i)" for ds i
    unfolding preserves_def
  proof (intro allI impI)
    fix c :: "'a ctl" assume "I (ct_store c)"
    moreover have "I st" if "add_service_addresses new (ct_store c) = Inr st" for new st
      by (rule inert[OF \<open>I (ct_store c)\<close>])
         (use that in \<open>auto simp: add_service_addresses_def same_tables_def split: sum.splits\<close>)
    ultimately show "I (ct_store (snd (converge B ds i c)))"
      by (auto simp: converge_def split: prod.split sum.split)
  qed
  have ad: "preserves I (adopt_existing B res)" for res
    unfolding preserves_def adopt_existing_def by (auto simp: Let_def intro: inert[OF _ adopted_facts(2,4)])
  show ?thesis
    unfolding render_project_def render_admitted_def
    by (intro preserves_bind preserves_if sw bf pr cv ad) (auto simp: split_beta intro!: preserves_bind preserves_if pr cv ad)
qed

lemma silent_bind: "silent m \<Longrightarrow> (\<And>x. silent (k x)) \<Longrightarrow> silent (act_bind m k)"
  unfolding silent_def act_bind_def by (auto split: prod.split sum.split) (metis snd_conv)+

text \<open>And one that marker writes keep as well.\<close>

definition publish_safe :: "(store \<Rightarrow> bool) \<Rightarrow> bool" where
  "publish_safe I \<longleftrightarrow> render_safe I \<and> (\<forall>st st'. I st \<longrightarrow> same_tables st st' \<longrightarrow> I st')"

lemma preserves_apply_pending:
  assumes "publish_safe I"
  shows "preserves I (apply_pending B rec)"
proof -
  note [simp] = preserves_silent
  have inert: "I st'" if "I st" "same_tables st st'" for st st'
    using that assms unfolding publish_safe_def by blast
  have dg: "preserves I (act_ledger (\<lambda>_ st. (set_approved_digest h st, ())))" for h
    by (rule preserves_ledger) (use inert marker_frame(7) in simp)
  have mk: "preserves I (act_ledger (\<lambda>_. mark_publication_pending a b ctx h p))" for a b ctx h p
    by (rule preserves_ledger) (use inert marker_frame(4) in blast)
  have cl: "preserves I (act_ledger (\<lambda>_. clear_publication_pending v))" for v
    by (rule preserves_ledger)
       (auto simp: clear_publication_pending_def same_tables_def split: option.split elim!: inert)
  have ap: "preserves I (call_apply B)"
    by (auto simp: preserves_def call_apply_def split: prod.split sum.split)
  have ck: "preserves I (check_approval B m)" for m
    unfolding check_approval_def
    by (intro preserves_bind) (auto simp: split_beta intro!: preserves_bind dg split: option.split)
  have ar: "preserves I (apply_raised B e :: ('a, 'b, apply_result) act)" for e
    unfolding apply_raised_def by (intro preserves_bind mk) simp
  have fin: "preserves I (finish_apply m approved outcome r)" for m approved outcome r
    unfolding finish_apply_def clear_approved_digest_def by (intro preserves_bind preserves_if dg cl) simp_all
  have am: "preserves I (apply_marked B m r)" for m r
    unfolding apply_marked_def
    by (intro preserves_bind preserves_if preserves_catch ck ap ar fin) simp_all
  show ?thesis
    unfolding apply_pending_def by (intro preserves_bind) (auto intro: am split: option.split)
qed

lemma preserves_publish: "publish_safe I \<Longrightarrow> preserves I (publish B)"
  unfolding publish_def
  by (intro preserves_bind preserves_apply_pending preserves_render) (simp_all add: publish_safe_def)

lemma preserves_mark_pending:
  assumes "publish_safe I"
  shows "preserves I (mark_pending B a)"
proof -
  have inert: "I st'" if "I st" "same_tables st st'" for st st'
    using that assms unfolding publish_safe_def by blast
  show ?thesis
    unfolding mark_pending_def
    by (intro preserves_bind preserves_ledger) (auto simp: preserves_silent intro: inert marker_frame(4,11))
qed

section \<open>Two things a publication keeps\<close>

lemma dep_ids_safe: "publish_safe (\<lambda>st. Q (dep_ids st))"
proof -
  have "dep_ids (fst (sweep t st)) = dep_ids st" for t st
  proof -
    have "dep_ids (fold (\<lambda>le. set_lease_state (lease_id le) Expired) xs st) = dep_ids st" for xs :: "lease list" and st
      unfolding fold_expire by simp
    then show ?thesis by (simp add: sweep_def idle_deployments_eq Let_def)
  qed
  then show ?thesis
    by (auto simp: publish_safe_def render_safe_def same_tables_def dep_ids_def set_allocation_def
        set_deployment_allocation_def map_upd_where)
qed

definition lease_is_released :: "string \<Rightarrow> store \<Rightarrow> bool" where
  "lease_is_released sid st \<longleftrightarrow> map_option lr_state (lease_at st sid) = Some Released"

lemma sweep_lease_at:
  assumes "distinct (lease_ids st)"
  shows "lease_at (fst (sweep t st)) sid = map_option (\<lambda>r. if lr_state r = Active \<and> \<not> row_protects t r
    then r\<lparr>lr_state := Expired\<rparr> else r) (lease_at st sid)"
proof -
  let ?due = "active_leases_past st t"
  have "lease_at (fst (sweep t st)) sid = lease_at (fold (\<lambda>le. set_lease_state (lease_id le) Expired) ?due st) sid"
    by (simp add: sweep_def idle_deployments_eq Let_def)
  also have "\<dots> = (if sid \<in> set (map lease_id ?due) then map_option (\<lambda>r. r\<lparr>lr_state := Expired\<rparr>) (lease_at st sid)
      else lease_at st sid)"
    unfolding fold_expire by (rule leases.fold_upd_look) simp_all
  finally show ?thesis
    using active_leases_past_ids[OF assms, of sid t] by (cases "lease_at st sid") auto
qed

lemma released_safe: "publish_safe (\<lambda>st. distinct (lease_ids st) \<and> lease_is_released sid st)"
proof -
  have "lease_ids (fst (sweep t st)) = lease_ids st" for t st
  proof -
    have "lease_ids (fold (\<lambda>le. set_lease_state (lease_id le) Expired) xs st) = lease_ids st" for xs :: "lease list" and st
      by (induction xs arbitrary: st) simp_all
    then show ?thesis by (simp add: sweep_def idle_deployments_eq Let_def)
  qed
  moreover have "lease_is_released sid (fst (sweep t st))" if "distinct (lease_ids st)" "lease_is_released sid st" for t st
    using that(2) unfolding lease_is_released_def sweep_lease_at[OF that(1)] by (cases "lease_at st sid") auto
  ultimately show ?thesis
    by (auto simp: publish_safe_def render_safe_def same_tables_def lease_ids_def lease_is_released_def lease_at_def
        set_allocation_def set_deployment_allocation_def bump_admission_state_version_def)
qed

lemma pending_render_safe: "render_safe (\<lambda>st. st_pending st = x)"
  by (simp add: render_safe_def)

end
