(* ===== verification/Transactions.thy ===== *)
theory Transactions
  imports Protocol
begin

text \<open>
  The transactions of the controller against the publication protocol: each is a run of it
  (\<open>transaction_run\<close>), a release survives a failing backend, an unapproved render is not applied,
  and waiting for the runtime to settle ends. The last section evaluates them on a small backend.
\<close>

section \<open>Renewal, rollback and acquire are runs\<close>

lemma silent_admit: "silent (admit B ov res)"
  unfolding admit_def by (intro silent_bind) simp_all

lemma runs_digest_marked: "runs marked (act_ledger (\<lambda>_ st. (clear_approved_digest st, ()))) (\<lambda>_. marked)"
proof -
  have "runs (\<lambda>st calls. pending st \<and> reads (\<lambda>m _ _. m \<noteq> None) st calls)
      (act_ledger (\<lambda>_ st. (clear_approved_digest st, ()))) (\<lambda>_. reads (\<lambda>m _ _. m \<noteq> None))"
    by (rule runs_record_intent)
       (use marker_frame(7,8,10) in \<open>auto simp: clear_approved_digest_def pending_def\<close>)
  then show ?thesis unfolding marked_reads by (rule runs_conseq) (auto simp: reads_def pending_def)
qed

lemma runs_rollback: "runs anything (rollback_acquire B sid apply) (\<lambda>_. anything)"
proof -
  have ev: "runs marked (if gone \<noteq> [] then act_bind (act_ledger (evict_idle (Some gone))) (\<lambda>_. act_ret ()) else act_ret ())
      (\<lambda>_. marked)" for gone
    by (rule runs_if[OF runs_bind[OF runs_ops(3) runs_silent] runs_silent]) simp_all
  have pub: "runs marked (act_bind (render_project B) (\<lambda>rec.
          if apply then act_bind (apply_pending B rec) (\<lambda>rec. act_ret (Some rec)) else act_ret (Some rec))) (\<lambda>_. anything)"
    by (rule runs_bind[OF runs_render], rule runs_if, rule runs_then_ret,
        rule runs_conseq[OF runs_apply_pending]) (auto intro: runs_ret)
  have gone: "runs marked (if idled_ids rel = [] then act_ret []
               else act_get (\<lambda>c. never_ran B (idled_ids rel) (ct_runtime c))) (\<lambda>_. marked)" for rel
    by (rule runs_if; rule runs_silent; simp)
  show ?thesis
    unfolding rollback_acquire_def
    by (rule runs_bind[OF runs_mark_pending], rule runs_bind[OF runs_digest_marked], rule runs_bind[OF runs_ops(2)],
        rule runs_bind[OF gone], rule runs_bind[OF ev], rule runs_catch[OF pub], rule runs_ret, simp)
qed

lemma runs_rolled_back: "runs anything (rolled_back B sid apply e) q"
  unfolding rolled_back_def by (rule runs_bind[OF runs_rollback], rule runs_raise)

lemma runs_apply_admitted: "runs (\<lambda>st calls. rendered_now st calls) (apply_admitted B rec sid apply) (\<lambda>_. anything)"
  unfolding apply_admitted_def
  by (rule runs_if, rule runs_ret, simp, rule runs_catch[OF runs_apply_pending], rule runs_bind[OF runs_rollback],
      rule runs_raise)

lemma runs_publish_acquired: "runs marked (publish_acquired B sid apply le ds) (\<lambda>_. anything)"
proof -
  have "runs marked (act_catch (render_project B) (render_failed B sid apply)) (\<lambda>_. rendered_pending)"
    unfolding render_failed_def by (rule runs_catch[OF runs_render], rule runs_rolled_back)
  then show ?thesis
    unfolding publish_acquired_def Let_def
    by (rule runs_bind) (auto intro!: runs_rolled_back[THEN runs_weaken] runs_then_ret
        runs_conseq[OF runs_apply_admitted])
qed

lemma runs_renew_readmitted: "runs anything (renew_readmitted B sid ttl ov res) (\<lambda>_. anything)"
proof -
  have d: "runs marked (if b then act_bind (act_ledger (\<lambda>_. mark_publication_pending True False None h None)) (\<lambda>_. act_ret ())
      else act_ret ()) (\<lambda>_. marked)" for b h
    by (rule runs_if[OF runs_bind[OF runs_mark[THEN runs_weaken] runs_silent] runs_silent]) simp_all
  have r: "runs anything (act_bind (mark_pending B True) (\<lambda>_.
         act_bind (if b then act_bind (act_ledger (\<lambda>_. mark_publication_pending True False None h None)) (\<lambda>_. act_ret ())
                   else act_ret ()) (\<lambda>_.
         act_bind (act_ledger (renew sid ttl al)) (\<lambda>renewed.
         act_bind (publish B) (\<lambda>rec. act_ret (renewed, ids, Some rec)))))) (\<lambda>_. anything)" for b h al ids
    by (rule runs_bind[OF runs_mark_pending], rule runs_bind[OF d], rule runs_bind[OF runs_ops(4)],
        rule runs_then_ret, rule runs_publish)
  show ?thesis
    unfolding renew_readmitted_def
    by (rule runs_bind[OF runs_silent[OF silent_admit]], rule runs_if, rule runs_raise, rule r)
qed

lemma runs_renew_admitted: "runs anything (renew_admitted B sid ttl) (\<lambda>_. anything)"
proof -
  have inner: "runs anything (act_bind (try_residency B) (\<lambda>res.
             act_bind (act_get (\<lambda>c. renew_overlay (ct_now c) (ct_store c) le)) (\<lambda>ov.
               if ov_revived ov = [] then act_bind (act_ledger (renew sid ttl [])) (\<lambda>l. act_ret (l, [], None))
               else renew_readmitted B sid ttl ov res))) (\<lambda>_. anything)" for le
    by (rule runs_bind[OF runs_silent], simp, rule runs_bind[OF runs_silent], simp, rule runs_if,
        rule runs_then_ret[OF runs_renews(1)], rule runs_renew_readmitted)
  show ?thesis
    unfolding renew_admitted_def
    by (rule runs_bind[OF runs_silent], simp) (auto intro!: runs_ret inner split: option.split)
qed

lemma runs_renew: "runs anything (renew_lease_ttl B sid ttl) (\<lambda>_. anything)"
  unfolding renew_lease_ttl_def
  by (rule runs_bind[OF runs_renews(2)]) (auto intro: runs_ret runs_renew_admitted split: renew_fast.split)

text \<open>What an admission hands to the commit.\<close>

definition planned_here :: "(string \<Rightarrow> string) \<Rightarrow> (nat \<Rightarrow> string) \<Rightarrow> endpoint_request list \<Rightarrow> overlay \<Rightarrow> store \<Rightarrow> bool" where
  "planned_here sha new_id reqs ov st \<longleftrightarrow>
     (\<exists>resident t0 st0. ov = plan_acquire sha new_id resident t0 reqs st0 \<and> st_deployments st0 = st_deployments st)"

lemma admit_allocations:
  assumes "admit_acquire preview al dflt now st ov res = Inr ad"
  shows "set (dkeys (ad_allocations ad)) \<subseteq> set (dkeys (ov_created ov)) \<union> set (ov_revived ov)"
proof -
  have "set (dkeys (ad_allocations (decide_admission al now st ov p r))) \<subseteq> set (fresh_ids ov)" for p r
    by (auto simp: decide_admission_def Let_def dkeys_def)
  then have "set (dkeys (ad_allocations ad)) \<subseteq> set (fresh_ids ov)"
    using assms by (fastforce simp: admit_acquire_def Let_def refused_def bind_err_Inr split: if_splits prod.splits)
  then show ?thesis by (simp add: fresh_ids_def)
qed

lemma runs_lift: "(\<And>c x. f c = Inr x \<Longrightarrow> p (ct_store c) (ct_calls c) \<Longrightarrow> q x (ct_store c) (ct_calls c))
    \<Longrightarrow> runs p (act_lift f) q"
  by (auto simp: runs_def act_lift_def pub_reachable.start)

lemma runs_preview_candidate:
  "runs (\<lambda>st _. Q (st_deployments st)) (preview_candidate B sha new_id reqs res)
     (\<lambda>x st _. Q (st_deployments st) \<and> planned_here sha new_id reqs (fst x) st \<and>
        set (dkeys (ad_allocations (snd x))) \<subseteq> set (dkeys (ov_created (fst x))) \<union> set (ov_revived (fst x)))"
proof -
  have plan: "runs (\<lambda>st _. Q (st_deployments st))
      (act_get (\<lambda>c. plan_acquire sha new_id (map_option is_resident res) (ct_now c) reqs (ct_store c)))
      (\<lambda>ov st _. Q (st_deployments st) \<and> planned_here sha new_id reqs ov st)"
    by (rule runs_get) (auto simp: planned_here_def)
  have admit: "runs (\<lambda>st _. Q (st_deployments st) \<and> planned_here sha new_id reqs ov st) (admit B ov res)
      (\<lambda>ad st _. Q (st_deployments st) \<and> planned_here sha new_id reqs ov st \<and>
         set (dkeys (ad_allocations ad)) \<subseteq> set (dkeys (ov_created ov)) \<union> set (ov_revived ov))" for ov
    unfolding admit_def
    by (rule runs_bind[OF runs_silent], simp, rule runs_bind[OF runs_if[OF runs_silent runs_silent]], simp, simp,
        rule runs_lift) (auto simp: backend_raises_def split: sum.splits dest: admit_allocations)
  show ?thesis
    unfolding preview_candidate_def
    by (rule runs_bind[OF runs_silent], simp, rule runs_bind[OF plan], rule runs_bind[OF admit], rule runs_ret, simp)
qed

lemma runs_commit_admitted:
  assumes al: "set (dkeys (ad_allocations ad)) \<subseteq> set (dkeys (ov_created ov)) \<union> set (ov_revived ov)"
  shows "runs (\<lambda>st _. planned_here sha new_id reqs ov st \<and> (\<forall>n. new_id n \<notin> set (dep_ids st)))
    (commit_admitted B sha new_id sid owner reqs ttl apply candidate ov ad) (\<lambda>_. anything)"
  unfolding commit_admitted_def
proof (rule runs_bind)
  show "runs (\<lambda>st _. planned_here sha new_id reqs ov st \<and> (\<forall>n. new_id n \<notin> set (dep_ids st))) (mark_pending B apply)
      (\<lambda>_ st _. pending st \<and> planned_here sha new_id reqs ov st \<and> (\<forall>n. new_id n \<notin> set (dep_ids st)))"
    unfolding runs_def
  proof (intro allI impI)
    fix c :: "'a ctl"
    assume c: "ledger_ok (ct_store c) \<and> planned_here sha new_id reqs ov (ct_store c) \<and> (\<forall>n. new_id n \<notin> set (dep_ids (ct_store c)))"
    have "pending (ct_store (snd (mark_pending B apply c)))" if "fst (mark_pending B apply c) = Inr x" for x
      using that by (rule mark_ct(1))
    moreover have "planned_here sha new_id reqs ov (ct_store (snd (mark_pending B apply c)))"
      "dep_ids (ct_store (snd (mark_pending B apply c))) = dep_ids (ct_store c)"
      using c mark_deployments[of B "apply" c] by (simp_all add: planned_here_def dep_ids_def)
    ultimately show "pub_reachable c (snd (mark_pending B apply c)) \<and> (\<forall>x. fst (mark_pending B apply c) = Inr x \<longrightarrow>
        pending (ct_store (snd (mark_pending B apply c))) \<and>
        planned_here sha new_id reqs ov (ct_store (snd (mark_pending B apply c))) \<and>
        (\<forall>n. new_id n \<notin> set (dep_ids (ct_store (snd (mark_pending B apply c))))))"
      using c runsD(1)[OF runs_mark_pending, of c B "apply"] by simp
  qed
next
  fix x :: marker
  show "runs (\<lambda>st _. pending st \<and> planned_here sha new_id reqs ov st \<and> (\<forall>n. new_id n \<notin> set (dep_ids st)))
     (\<lambda>c. case acquire sha new_id (ct_now c) sid owner reqs ttl (Some ov) (ad_allocations ad)
              (if apply then ad_digest ad else None) candidate (ct_store c) of
         Inl AdmissionConflict \<Rightarrow> (Inr PreviewAgain, c)
       | Inl e \<Rightarrow> act_bind (restore_if B candidate (profile (ct_store c))) (\<lambda>_. act_raise (LedgerRaised e)) c
       | Inr (st, le, ds) \<Rightarrow>
           publish_acquired B sid apply le ds
             (c\<lparr>ct_store := st, ct_profile := (if candidate = None then ct_profile c else candidate),
               ct_profile_error := (candidate = None \<and> ct_profile_error c)\<rparr>)) (\<lambda>_. anything)"
    (is "runs ?p ?m _")
    unfolding runs_def
  proof (intro allI impI)
    fix c :: "'a ctl"
    let ?acq = "acquire sha new_id (ct_now c) sid owner reqs ttl (Some ov) (ad_allocations ad)
              (if apply then ad_digest ad else None) candidate (ct_store c)"
    assume c: "ledger_ok (ct_store c) \<and> pending (ct_store c) \<and> planned_here sha new_id reqs ov (ct_store c)
      \<and> (\<forall>n. new_id n \<notin> set (dep_ids (ct_store c)))"
    have fail: "pub_reachable c (snd (act_bind (restore_if B candidate p) (\<lambda>_. act_raise e) c))" for p and e :: "'b ctl_error"
      using runsD(1)[OF runs_bind[OF runs_silent[OF silent_restore] runs_raise], of c anything B candidate p "\<lambda>_. e"] c
      by simp
    have "pub_reachable c (snd (?m c))"
    proof (cases ?acq)
      case (Inl e)
      then show ?thesis by (cases e) (simp_all add: fail pub_reachable.start)
    next
      case (Inr r)
      obtain st le ds where r: "r = (st, le, ds)" by (cases r)
      obtain resident t0 st0 where ov: "ov = plan_acquire sha new_id resident t0 reqs st0"
        "st_deployments st0 = st_deployments (ct_store c)" using c by (auto simp: planned_here_def)
      have new: "\<forall>n. new_id n \<notin> set (dep_ids (ct_store c))" and ok: "ledger_ok (ct_store c)" using c by blast+
      let ?c1 = "c\<lparr>ct_store := st\<rparr>"
      let ?c2 = "?c1\<lparr>ct_profile := (if candidate = None then ct_profile c else candidate),
               ct_profile_error := (candidate = None \<and> ct_profile_error c)\<rparr>"
      have "ledger_step (Acquire sid) (ct_now c, ct_store c) (ct_now c, st)"
        by (rule ledger_step.acquire[OF Inr[unfolded r] ov new al])
      moreover have p: "pending st"
      proof -
        note A = acquire_step_ok[OF ok Inr[unfolded r] ov new al]
        have "pending (published h q s)" if "pending s" for h q s
          using that by (auto simp: published_def pending_def write_marker_def write_profile_def set_meta_json_def Let_def
              split: option.split)
        moreover have "st_pending (serve_all u t s) = st_pending s" for u t s
          unfolding serve_all_upd by (induction u arbitrary: s) auto
        ultimately show ?thesis using c unfolding A(2)
          by (simp add: after_acquire_def acquired_def with_rows_def pending_def)
      qed
      ultimately have "pub_step c ?c1" using c by (intro pub_step.mutate) auto
      moreover have "pub_step ?c1 ?c2" by (rule pub_step.environment) simp_all
      ultimately have "pub_reachable c ?c2" by (blast intro: pub_reachable.intros)
      moreover have "ledger_ok (ct_store ?c2)" using pub_reachable_ledger_ok[OF calculation] ok by simp
      ultimately have "pub_reachable c (snd (publish_acquired B sid apply le ds ?c2))"
        using runsD(1)[OF runs_publish_acquired, of ?c2 B sid "apply" le ds] p pub_reachable_trans by fastforce
      then show ?thesis using Inr r by simp
    qed
    then show "pub_reachable c (snd (?m c)) \<and> (\<forall>x. fst (?m c) = Inr x \<longrightarrow> True)" by simp
  qed
qed

lemma runs_preserves:
  "runs p m q \<Longrightarrow> preserves I m \<Longrightarrow> runs (\<lambda>st calls. p st calls \<and> I st) m (\<lambda>x st calls. q x st calls \<and> I st)"
  unfolding runs_def preserves_def by blast

lemma runs_maintenance: "runs anything (maintenance_sweep B) (\<lambda>_. anything)"
proof -
  have due: "runs anything (act_bind (mark_pending B True) (\<lambda>_. act_bind (act_ledger sweep) (\<lambda>_.
      act_bind (publish B) (\<lambda>_. act_ret ())))) (\<lambda>_. anything)"
    by (rule runs_bind[OF runs_mark_pending], rule runs_bind[OF runs_ops(1)], rule runs_then_ret[OF runs_publish])
  show ?thesis
    unfolding maintenance_sweep_def
    by (rule runs_bind[OF runs_silent[where p = anything]], simp, rule runs_if, rule due, rule runs_ret, simp)
qed

lemma preserves_maintenance:
  assumes "publish_safe I"
  shows "preserves I (maintenance_sweep B)"
proof -
  have "preserves I (act_ledger sweep)"
    using assms unfolding publish_safe_def render_safe_def by (intro preserves_ledger) blast
  then show ?thesis
    unfolding maintenance_sweep_def
    by (intro preserves_bind preserves_if preserves_mark_pending preserves_publish assms) (simp_all add: preserves_silent)
qed

lemma runs_acquire_attempt:
  "runs (\<lambda>st _. \<forall>n. new_id n \<notin> set (dep_ids st)) (acquire_attempt B sha new_id sid owner reqs ttl apply) (\<lambda>_. anything)"
proof -
  let ?p = "\<lambda>st (_ :: call list). \<forall>n. new_id n \<notin> set (dep_ids st)"
  have maint: "runs ?p (maintenance_sweep B) (\<lambda>_. ?p)"
  proof -
    have "publish_safe (\<lambda>st. \<forall>n. new_id n \<notin> set (dep_ids st))"
      by (rule dep_ids_safe[where Q = "\<lambda>ids. \<forall>n. new_id n \<notin> set ids"])
    from runs_preserves[OF runs_maintenance preserves_maintenance[OF this]] show ?thesis by simp
  qed
  have preview: "runs ?p (act_catch (preview_candidate B sha new_id reqs res)
         (\<lambda>e. act_bind (restore_if B candidate stored) (\<lambda>_. act_raise e)))
     (\<lambda>x st _. (\<forall>n. new_id n \<notin> set (dep_ids st)) \<and> planned_here sha new_id reqs (fst x) st \<and>
        set (dkeys (ad_allocations (snd x))) \<subseteq> set (dkeys (ov_created (fst x))) \<union> set (ov_revived (fst x)))" for res candidate stored
    by (rule runs_catch[OF runs_preview_candidate[where Q = "\<lambda>ds. \<forall>n. new_id n \<notin> set (map dep_id ds)", folded dep_ids_def]],
        rule runs_bind[OF runs_silent], simp, rule runs_raise)
  have commit: "runs (\<lambda>st _. (\<forall>n. new_id n \<notin> set (dep_ids st)) \<and> planned_here sha new_id reqs (fst x) st \<and>
        set (dkeys (ad_allocations (snd x))) \<subseteq> set (dkeys (ov_created (fst x))) \<union> set (ov_revived (fst x)))
      (commit_admitted B sha new_id sid owner reqs ttl apply candidate (fst x) (snd x)) (\<lambda>_. anything)" for x candidate
  proof (cases "set (dkeys (ad_allocations (snd x))) \<subseteq> set (dkeys (ov_created (fst x))) \<union> set (ov_revived (fst x))")
    case True
    then show ?thesis by (intro runs_conseq[OF runs_commit_admitted]) auto
  qed (simp add: runs_def)
  have refuse: "runs p (act_bind (restore_if B candidate stored) (\<lambda>_. act_ret y)) (\<lambda>_. anything)" for p candidate stored and y :: attempt
    by (rule runs_bind[OF runs_silent], simp, rule runs_ret, simp)
  show ?thesis
    unfolding acquire_attempt_def split_beta
    by (rule runs_bind[OF runs_silent], simp, rule runs_bind[OF runs_silent], simp, rule runs_bind[OF maint],
        rule runs_bind[OF runs_silent], simp, rule runs_bind[OF runs_silent], simp,
        rule runs_bind[OF runs_silent], simp split: option.split, rule runs_bind[OF preview], rule runs_if,
        rule commit, rule refuse)
qed

section \<open>Every transaction follows the protocol\<close>

text \<open>
  The controller as a sequence of transactions, each run to its end or to an exception, and of
  changes of the runtime, the clock and the invocation between them. The ids of new deployments are
  fresh (they are random in the code).
\<close>

inductive transaction :: "('r, 'e) serving \<Rightarrow> 'r ctl \<Rightarrow> 'r ctl \<Rightarrow> bool" for B where
  elapse: "ct_store c' = ct_store c \<Longrightarrow> ct_calls c' = ct_calls c \<Longrightarrow> transaction B c c'"
| reconciling: "transaction B c (snd (reconcile B a c))"
| releasing: "transaction B c (snd (release_lease B sid c))"
| releasing_many: "transaction B c (snd (release_leases B sids ev c))"
| evicting: "transaction B c (snd (evict B gids c))"
| collecting: "transaction B c (snd (gc B ev c))"
| forgetting: "transaction B c (snd ((forget :: ('r, 'e, nat \<times> nat) act) c))"
| renewing: "transaction B c (snd (renew_lease_ttl B sid ttl c))"
| acquiring: "\<forall>n. new_id n \<notin> set (dep_ids (ct_store c))
    \<Longrightarrow> transaction B c (snd (acquire_attempt B sha new_id sid owner reqs ttl a c))"

lemma runs_reachable: "runs anything m q \<Longrightarrow> ledger_ok (ct_store c) \<Longrightarrow> pub_reachable c (snd (m c))"
  by (rule runsD(1)) simp_all

lemma transaction_run: "transaction B c c' \<Longrightarrow> ledger_ok (ct_store c) \<Longrightarrow> pub_reachable c c'"
proof (induction rule: transaction.induct)
  case (elapse c' c)
  then show ?case by (blast intro: pub_reachable.intros pub_step.environment)
next
  case (reconciling c a)
  then show ?case by (rule runs_reachable[OF runs_reconcile])
next
  case (releasing c sid)
  then show ?case by (rule runs_reachable[OF runs_release_lease])
next
  case (releasing_many c sids ev)
  then show ?case by (rule runs_reachable[OF runs_release_leases])
next
  case (evicting c gids)
  then show ?case by (rule runs_reachable[OF runs_evict])
next
  case (collecting c ev)
  then show ?case by (rule runs_reachable[OF runs_gc])
next
  case (forgetting c)
  then show ?case by (rule runs_reachable[OF runs_forget])
next
  case (renewing c sid ttl)
  then show ?case by (rule runs_reachable[OF runs_renew])
next
  case (acquiring new_id c sha sid owner reqs ttl a)
  show ?case by (rule runsD(1)[OF runs_acquire_attempt acquiring(2,1)])
qed

section \<open>How a publication ends\<close>

text \<open>
  \<open>ends p m q\<close>: from \<open>p\<close>, the statement \<open>m\<close> returns with \<open>q\<close>, or raises while an apply is still
  requested. \<open>asked v\<close> says that the marker with version \<open>v\<close> asks for an apply.
\<close>

definition asked :: "int \<Rightarrow> store \<Rightarrow> bool" where
  "asked v st \<longleftrightarrow> (\<exists>m. st_pending st = Some m \<and> mk_apply_requested m \<and> mk_version m = v)"

definition ends :: "('r ctl \<Rightarrow> bool) \<Rightarrow> ('r, 'e, 'a) act \<Rightarrow> ('a \<Rightarrow> 'r ctl \<Rightarrow> bool) \<Rightarrow> bool" where
  "ends p m q \<longleftrightarrow> (\<forall>c. p c \<longrightarrow> (case m c of (Inl e, c') \<Rightarrow> requested (ct_store c') | (Inr x, c') \<Rightarrow> q x c'))"

lemma ends_bind:
  fixes m :: "('r, 'e, 'a) act"
  assumes "ends p m r" and "\<And>x. ends (r x) (k x) q"
  shows "ends p (act_bind m k) q"
  unfolding ends_def
proof (intro allI impI)
  fix c :: "'r ctl" assume "p c"
  then show "case act_bind m k c of (Inl e, c') \<Rightarrow> requested (ct_store c') | (Inr x, c') \<Rightarrow> q x c'"
    using assms unfolding ends_def act_bind_def by (fastforce split: prod.splits sum.splits)
qed

lemma ends_ret: "(\<And>c. p c \<Longrightarrow> q x c) \<Longrightarrow> ends p (act_ret x) q"
  by (simp add: ends_def act_ret_def)

lemma ends_silent:
  assumes "silent m" and "\<And>c c'. ct_store c' = ct_store c \<Longrightarrow> ct_calls c' = ct_calls c \<Longrightarrow> p c \<Longrightarrow> p c'"
    and "\<And>c. p c \<Longrightarrow> requested (ct_store c)"
  shows "ends p m (\<lambda>_. p)"
  using assms unfolding ends_def silent_def by (fastforce split: prod.splits sum.splits)

lemma ends_ledger:
  "(\<And>c t. p c \<Longrightarrow> q (snd (f t (ct_store c))) (c\<lparr>ct_store := fst (f t (ct_store c))\<rparr>)) \<Longrightarrow> ends p (act_ledger f) q"
  by (auto simp: ends_def act_ledger_def split: prod.split) (metis fst_conv snd_conv)

lemma ends_if: "(b \<Longrightarrow> ends p m q) \<Longrightarrow> (\<not> b \<Longrightarrow> ends p m' q) \<Longrightarrow> ends p (if b then m else m') q"
  by simp

abbreviation asking :: "int \<Rightarrow> 'r ctl \<Rightarrow> bool" where
  "asking v \<equiv> \<lambda>c. asked v (ct_store c)"

abbreviation asking_rendered :: "int \<Rightarrow> 'r ctl \<Rightarrow> bool" where
  "asking_rendered v \<equiv> \<lambda>c. asked v (ct_store c) \<and> rendered_now (ct_store c) (ct_calls c)"

abbreviation asking_applied :: "int \<Rightarrow> 'r ctl \<Rightarrow> bool" where
  "asking_applied v \<equiv> \<lambda>c. asked v (ct_store c) \<and> applied_now (ct_store c) (ct_calls c)"

lemma asked_requested: "asked v st \<Longrightarrow> requested st"
  by (auto simp: asked_def requested_def)

lemma asked_digest [simp]: "asked v (set_approved_digest h st) = asked v st"
  by (auto simp: asked_def set_approved_digest_def split: option.splits)

lemma committed_digest [simp]: "committed (set_approved_digest h st) = committed st"
  by (rule committed_same_tables) (rule marker_frame)

lemma now_digest [simp]:
  "rendered_now (set_approved_digest h st) calls = rendered_now st calls"
  "applied_now (set_approved_digest h st) calls = applied_now st calls"
  by (simp_all add: rendered_now_def applied_now_def)

lemma ends_check_approval: "ends (asking_rendered v) (check_approval B m) (\<lambda>_. asking_rendered v)"
proof -
  have dg: "ends (asking_rendered v) (act_bind (case rendered of Some h \<Rightarrow> act_ledger (\<lambda>_ st. (set_approved_digest (Some h) st, ()))
      | None \<Rightarrow> act_ret ()) (\<lambda>_. act_ret rendered)) (\<lambda>_. asking_rendered v)" for rendered
    by (cases rendered) (auto intro!: ends_bind[where r = "\<lambda>_. asking_rendered v"] ends_ret ends_ledger)
  have raise: "ends (asking_rendered v) (act_raise e) q" for e :: "'b ctl_error" and q :: "'c \<Rightarrow> 'a ctl \<Rightarrow> bool"
    by (auto simp: ends_def act_raise_def dest: asked_requested)
  show ?thesis
    unfolding check_approval_def split_beta
    by (rule ends_bind[OF ends_silent], simp, simp, auto dest: asked_requested intro!: ends_if raise dg ends_ret)
qed

lemma endsD: "ends p m q \<Longrightarrow> p c \<Longrightarrow> case m c of (Inl e, c') \<Rightarrow> requested (ct_store c') | (Inr x, c') \<Rightarrow> q x c'"
  by (simp add: ends_def)

lemma ends_silent_asked:
  assumes "silent m"
  shows "ends (\<lambda>c. asked v (ct_store c) \<and> R (ct_store c) (ct_calls c)) m
    (\<lambda>_ c. asked v (ct_store c) \<and> R (ct_store c) (ct_calls c))"
  by (rule ends_silent[OF assms]) (simp, blast dest: asked_requested)

lemma ends_call_apply:
  "ends (asking_rendered v) (act_catch (call_apply B) (apply_raised B))
     (\<lambda>outcome c. asked v (ct_store c) \<and> (ar_complete outcome \<longrightarrow> applied_now (ct_store c) (ct_calls c)))"
  unfolding ends_def
proof (intro allI impI)
  fix c :: "'a ctl"
  assume c: "asked v (ct_store c) \<and> rendered_now (ct_store c) (ct_calls c)"
  obtain o' r where o: "sv_apply B (ct_runtime c) = (o', r)" by fastforce
  show "case act_catch (call_apply B) (apply_raised B) c of (Inl e, c') \<Rightarrow> requested (ct_store c')
      | (Inr outcome, c') \<Rightarrow> asked v (ct_store c') \<and> (ar_complete outcome \<longrightarrow> applied_now (ct_store c') (ct_calls c'))"
  proof (cases o')
    case (Inl e)
    then show ?thesis using o
      by (simp add: act_catch_def call_apply_def apply_raised_def act_bind_def act_ledger_def act_raise_def split_beta
          mark_requested)
  next
    case (Inr x)
    then show ?thesis using o c
      by (auto simp: act_catch_def call_apply_def rendered_now_def applied_now_def)
  qed
qed

definition settled_after :: "reconcile_result \<Rightarrow> 'r ctl \<Rightarrow> bool" where
  "settled_after rec c \<longleftrightarrow> (if rc_pending rec then requested (ct_store c)
     else st_pending (ct_store c) = None \<and> applied_now (ct_store c) (ct_calls c))"

lemma applied_cleared: "applied_now (st\<lparr>st_pending := None\<rparr>) calls = applied_now st calls"
  by (simp add: applied_now_def committed_def allocation_def dep_at_def)

lemma ends_finish_apply:
  "ends (\<lambda>c. asked (mk_version m) (ct_store c) \<and> (ar_complete outcome \<longrightarrow> applied_now (ct_store c) (ct_calls c)))
     (finish_apply m approved outcome rec) settled_after"
proof (cases "ar_complete outcome")
  case False
  then show ?thesis
    by (auto simp: finish_apply_def settled_after_def dest: asked_requested intro!: ends_ret)
next
  case True
  have dg: "ends (asking_applied (mk_version m)) (if b then act_ledger (\<lambda>_ st. (clear_approved_digest st, ())) else act_ret ())
      (\<lambda>_. asking_applied (mk_version m))" for b
    by (rule ends_if) (auto simp: clear_approved_digest_def intro!: ends_ledger ends_ret)
  have cl: "ends (asking_applied (mk_version m)) (act_ledger (\<lambda>_. clear_publication_pending (mk_version m)))
      (\<lambda>_ c. st_pending (ct_store c) = None \<and> applied_now (ct_store c) (ct_calls c))"
    by (rule ends_ledger) (auto simp: clear_publication_pending_def asked_def applied_cleared)
  have "ends (asking_applied (mk_version m))
      (act_bind (if approved \<notin> {None, Some []} then act_ledger (\<lambda>_ st. (clear_approved_digest st, ())) else act_ret ()) (\<lambda>_.
       act_bind (act_ledger (\<lambda>_. clear_publication_pending (mk_version m))) (\<lambda>_. act_ret (rec\<lparr>rc_pending := False\<rparr>)))) settled_after"
    by (rule ends_bind[OF dg], rule ends_bind[OF cl], rule ends_ret, simp add: settled_after_def)
  then show ?thesis by (simp only: finish_apply_def True simp_thms if_False)
qed

lemma ends_apply_marked: "ends (asking_rendered (mk_version m)) (apply_marked B m rec) settled_after"
proof -
  let ?p = "asking_rendered (mk_version m)"
  let ?q = "\<lambda>outcome c. asked (mk_version m) (ct_store c) \<and> (ar_complete outcome \<longrightarrow> applied_now (ct_store c) (ct_calls c))"
  have settle: "ends ?p (if mk_interrupted m then wait_for_settled_runtime B else act_ret ()) (\<lambda>_. ?p)"
    by (rule ends_if; rule ends_silent_asked; simp)
  have obs: "ends ?p (observe B) (\<lambda>_. ?p)" by (rule ends_silent_asked) simp
  have began: "ends ?p apply_begins (\<lambda>_. ?p)" by (rule ends_silent_asked) simp
  have obs': "ends (?q outcome) (observe B) (\<lambda>_. ?q outcome)" for outcome
    by (rule ends_silent_asked[where R = "\<lambda>st calls. ar_complete outcome \<longrightarrow> applied_now st calls"]) simp
  show ?thesis
    unfolding apply_marked_def
    by (rule ends_bind[OF ends_check_approval], rule ends_bind[OF settle], rule ends_bind[OF obs],
        rule ends_bind[OF began], rule ends_bind[OF ends_call_apply], rule ends_bind[OF obs'], rule ends_finish_apply)
qed

lemma ends_apply_pending:
  "ends (\<lambda>c. requested (ct_store c) \<and> rendered_now (ct_store c) (ct_calls c)) (apply_pending B rec) settled_after"
  unfolding ends_def
proof (intro allI impI)
  fix c :: "'a ctl"
  assume c: "requested (ct_store c) \<and> rendered_now (ct_store c) (ct_calls c)"
  then obtain m where m: "st_pending (ct_store c) = Some m" "mk_apply_requested m" by (auto simp: requested_def)
  then have "apply_pending B rec c = apply_marked B m rec c"
    by (simp add: apply_pending_def act_bind_def act_get_def)
  moreover have "asking_rendered (mk_version m) c" using c m by (simp add: asked_def)
  then have "case apply_marked B m rec c of (Inl e, c') \<Rightarrow> requested (ct_store c') | (Inr r, c') \<Rightarrow> settled_after r c'"
    by (rule endsD[OF ends_apply_marked])
  ultimately show "case apply_pending B rec c of (Inl e, c') \<Rightarrow> requested (ct_store c') | (Inr r, c') \<Rightarrow> settled_after r c'"
    by (simp only:)
qed

text \<open>Publishing under a request either settles, or leaves the request.\<close>

lemma publish_settles:
  assumes ok: "ledger_ok (ct_store c)" and req: "requested (ct_store c)" and res: "publish B c = (v, c')"
  shows "case v of Inl _ \<Rightarrow> requested (ct_store c') | Inr rec \<Rightarrow> settled_after rec c'"
proof -
  obtain v1 c1 where r: "render_project B c = (v1, c1)" by fastforce
  have "st_pending (ct_store c1) = st_pending (ct_store c)"
    using preserves_render[OF pending_render_safe, of "st_pending (ct_store c)" B] r unfolding preserves_def by (metis snd_conv)
  then have req1: "requested (ct_store c1)" using req by (simp add: requested_def)
  show ?thesis
  proof (cases v1)
    case (Inl e)
    then show ?thesis using res r req1 by (auto simp: publish_def act_bind_def)
  next
    case (Inr rec)
    have "rendered_now (ct_store c1) (ct_calls c1)"
      using runsD(3)[OF runs_render, of c B rec] ok req requested_pending Inr r by simp
    moreover have "apply_pending B rec c1 = (v, c')" using res r Inr by (simp add: publish_def act_bind_def)
    ultimately show ?thesis using endsD[OF ends_apply_pending, of c1 B rec] req1
      by (simp split: sum.splits)
  qed
qed

lemma release_released:
  assumes "lease_at st sid = Some r"
  shows "lease_is_released sid (fst (release sid t st))" "lease_ids (fst (release sid t st)) = lease_ids st"
proof -
  have g: "get_lease st sid = Some (row_to_lease st r)" by (simp add: get_lease_lease_at assms)
  show "lease_is_released sid (fst (release sid t st))"
    using assms g by (auto simp: release_def idle_deployments_eq lease_is_released_def Let_def
        set_lease_state_upd leases.look_upd)
  show "lease_ids (fst (release sid t st)) = lease_ids st"
    using g by (auto simp: release_def idle_deployments_eq Let_def)
qed

text \<open>
  C8. A release is never lost. Unless the stored profile was found unusable when the controller was
  opened (then nothing changes), releasing a lease that is in the ledger leaves it RELEASED whatever
  the backend does. If the call returns with nothing pending, no marker is left and the last call to
  the backend completely applied the ledger's allocations; if it returns with a pending change or
  raises, the marker still asks for an apply, so the next one finishes the release.
\<close>

theorem release_is_never_lost:
  assumes "ledger_ok (ct_store c)" and "lease_at (ct_store c) sid = Some r"
    and "release_lease B sid c = (v, c')" and "\<not> ct_profile_error c"
  shows "map_option lr_state (lease_at (ct_store c') sid) = Some Released \<and>
    (case v of Inl _ \<Rightarrow> requested (ct_store c')
     | Inr (idled, rec) \<Rightarrow> if rc_pending rec then requested (ct_store c')
         else st_pending (ct_store c') = None \<and> applied_now (ct_store c') (ct_calls c'))"
proof -
  let ?c1 = "snd (mark_pending B True c)"
  let ?st = "fst (release sid (ct_now ?c1) (ct_store ?c1))"
  let ?c2 = "?c1\<lparr>ct_store := ?st\<rparr>"
  obtain v2 c2 where p: "publish B ?c2 = (v2, c2)" by fastforce
  obtain x where x: "fst (mark_pending B True c) = Inr x"
    using mark_raises[of B True c] assms(4) by (cases "fst (mark_pending B True c)") auto
  have eq: "c' = c2" and v: "v = (case v2 of Inl e \<Rightarrow> Inl e
      | Inr rec \<Rightarrow> Inr (idled_ids (snd (release sid (ct_now ?c1) (ct_store ?c1))), rec))"
    using assms(3) x p by (auto simp: release_lease_def act_bind_def act_ledger_def act_ret_def split_beta split: sum.splits)
  have ok1: "ledger_ok (ct_store ?c1)" using runsD(2)[OF runs_mark_pending, of c B True] assms(1) by simp
  have lease: "lease_at (ct_store ?c1) sid = Some r"
  proof -
    have "same_tables (ct_store c) (ct_store ?c1)" by (rule mark_same_tables)
    then show ?thesis using assms(2) by (simp add: same_tables_def lease_at_def)
  qed
  have req: "requested ?st"
    using mark_ct(2)[OF x] by (simp add: requested_def)
  have ok2: "ledger_ok ?st" using release_ok(1)[OF ok1] by simp
  have "distinct (lease_ids ?st) \<and> lease_is_released sid ?st"
    using release_released[OF lease] ok1 by (simp add: ledger_ok_def refs_ok_def)
  then have "lease_is_released sid (ct_store c2)"
  proof -
    assume a: "distinct (lease_ids ?st) \<and> lease_is_released sid ?st"
    have "preserves (\<lambda>st. distinct (lease_ids st) \<and> lease_is_released sid st) (publish B)"
      by (rule preserves_publish[OF released_safe])
    then have "distinct (lease_ids (ct_store (snd (publish B ?c2)))) \<and> lease_is_released sid (ct_store (snd (publish B ?c2)))"
      using a unfolding preserves_def by simp
    then show ?thesis using p by simp
  qed
  moreover have "case v2 of Inl _ \<Rightarrow> requested (ct_store c2) | Inr rec \<Rightarrow> settled_after rec c2"
    using publish_settles[of ?c2 B v2 c2] ok2 req p by simp
  ultimately show ?thesis unfolding eq v
    by (auto simp: lease_is_released_def settled_after_def split: sum.splits)
qed

section \<open>Approval and settling\<close>

text \<open>
  C12. Only an approved render is applied. If the marker records an approved digest and the last
  render has another one (or none), then without an explicit \<open>infer-stack apply\<close> the pending apply
  does nothing: it raises, or reports the change as staged, and neither the ledger nor the runtime
  is touched. An explicit apply records the new digest as approved before it calls the backend, so
  what is applied then is what the marker approves.
\<close>

theorem only_approved_renders_applied:
  assumes "st_pending (ct_store c) = Some m" and "mk_digest m = Some h" and "h \<noteq> []"
    and "sv_digest B (ct_runtime c) \<noteq> Some h"
  shows "if ct_explicit c
    then check_approval B m c = (Inr (sv_digest B (ct_runtime c)),
      c\<lparr>ct_store := (case sv_digest B (ct_runtime c) of None \<Rightarrow> ct_store c
                      | Some d \<Rightarrow> set_approved_digest (Some d) (ct_store c))\<rparr>)
    else apply_pending B rec c =
      (if mk_apply_requested m then Inl ApprovalMismatch else Inr (rec\<lparr>rc_pending := True\<rparr>), c)"
  using assms
  by (auto simp: apply_pending_def apply_marked_def check_approval_def act_bind_def act_get_def act_raise_def act_ret_def
      act_ledger_def split: option.splits)

lemma settle_loop_outcome:
  assumes "ct_now c = base + 2 * of_nat k" and "deadline = base + 60" and "k \<le> 30"
    and "ct_runtime c = (sv_passes B 2 ^^ k) r0"
    and "previous = None \<or> (\<exists>j. k = Suc j \<and> sv_settle_snapshot B ((sv_passes B 2 ^^ j) r0) = Inr previous)"
    and "settle_loop B deadline previous c = (v, c')"
  shows "\<exists>n \<le> 30. ct_now c' = base + 2 * of_nat n \<and> ct_runtime c' = (sv_passes B 2 ^^ n) r0 \<and>
    (case v of
       Inr _ \<Rightarrow> sv_settle_snapshot B (ct_runtime c') = Inr None \<or>
         (\<exists>j s. n = Suc j \<and> sv_settle_snapshot B (ct_runtime c') = Inr (Some s)
            \<and> sv_settle_snapshot B ((sv_passes B 2 ^^ j) r0) = Inr (Some s) \<and> ''removing'' \<notin> snd ` set s)
     | Inl (RuntimeUnsettled (Some e)) \<Rightarrow> sv_settle_snapshot B (ct_runtime c') = Inl e
     | Inl (RuntimeUnsettled None) \<Rightarrow> n = 30
     | _ \<Rightarrow> False)"
  using assms
proof (induction B deadline previous c arbitrary: k rule: settle_loop.induct)
  case (1 B deadline previous c)
  note eq = 1(7)[unfolded settle_loop.simps[of B deadline previous c]]
  show ?case
  proof (cases "sv_settle_snapshot B (ct_runtime c)")
    case (Inl e)
    then show ?thesis using 1(2,4,5) eq by (intro exI[of _ k]) auto
  next
    case (Inr o')
    show ?thesis
    proof (cases o')
      case None
      then show ?thesis using 1(2,4,5) eq Inr by (intro exI[of _ k]) auto
    next
      case (Some s)
      show ?thesis
      proof (cases "previous = Some s \<and> \<not> list_ex (\<lambda>x. snd x = ''removing'') s")
        case True
        then obtain j where "k = Suc j" "sv_settle_snapshot B ((sv_passes B 2 ^^ j) r0) = Inr (Some s)"
          using 1(6) by auto
        moreover have "''removing'' \<notin> snd ` set s" using True by (auto simp: list_ex_iff)
        ultimately show ?thesis using 1(2,4,5) eq Inr Some True by (intro exI[of _ k]) auto
      next
        case cont: False
        show ?thesis
        proof (cases "ct_now c + SETTLE_INTERVAL_S > deadline")
          case True
          then have "(30::rat) < of_nat (Suc k)" using 1(2,3) by (simp add: SETTLE_INTERVAL_S_def)
          then have "k = 30" using 1(4) by (metis le_antisym less_Suc_eq_le of_nat_less_iff of_nat_numeral)
          then show ?thesis using 1(2,4,5) eq Inr Some cont True by (intro exI[of _ k]) auto
        next
          case False
          let ?c = "c\<lparr>ct_now := ct_now c + SETTLE_INTERVAL_S, ct_runtime := sv_passes B SETTLE_INTERVAL_S (ct_runtime c)\<rparr>"
          have "of_nat (Suc k) \<le> (30::rat)" using False 1(2,3) by (simp add: SETTLE_INTERVAL_S_def)
          then have k: "Suc k \<le> 30" by (metis of_nat_le_iff of_nat_numeral)
          have r: "settle_loop B deadline (Some s) ?c = (v, c')" using eq Inr Some cont False by auto
          show ?thesis
            by (rule 1(1)[OF Inr Some cont False _ 1(3) k _ _ r])
               (use 1(2,5) Inr Some in \<open>auto simp: SETTLE_INTERVAL_S_def\<close>)
        qed
      qed
    qed
  qed
qed

text \<open>
  Waiting for the runtime to settle is bounded and honest. The wait after an interrupted apply
  takes at most 30 intervals of two seconds. It returns only if the backend has nothing local to
  wait for, or two consecutive samples are identical and no container is being removed; otherwise
  it raises, because a sample could not be read or because the whole minute has passed.
\<close>

theorem settling_is_bounded:
  assumes "wait_for_settled_runtime B c = (v, c')"
  shows "\<exists>n \<le> 30. ct_now c' = ct_now c + 2 * of_nat n \<and> ct_runtime c' = (sv_passes B 2 ^^ n) (ct_runtime c) \<and>
    (case v of
       Inr _ \<Rightarrow> sv_settle_snapshot B (ct_runtime c') = Inr None \<or>
         (\<exists>j s. n = Suc j \<and> sv_settle_snapshot B (ct_runtime c') = Inr (Some s)
            \<and> sv_settle_snapshot B ((sv_passes B 2 ^^ j) (ct_runtime c)) = Inr (Some s) \<and> ''removing'' \<notin> snd ` set s)
     | Inl (RuntimeUnsettled (Some e)) \<Rightarrow> sv_settle_snapshot B (ct_runtime c') = Inl e
     | Inl (RuntimeUnsettled None) \<Rightarrow> n = 30
     | _ \<Rightarrow> False)"
  by (rule settle_loop_outcome[where k = 0 and previous = None])
     (use assms in \<open>simp_all add: wait_for_settled_runtime_def SETTLE_DEADLINE_S_def\<close>)

section \<open>A backend without containers\<close>

text \<open>An in-process backend: its runtime counts the applies, and settles after two samples.\<close>

definition demo_serving :: "(nat, string) serving" where
  "demo_serving = \<lparr>sv_allocates = False, sv_reclaim = KEEP_WARM, sv_host = False, sv_render_profile = None,
     sv_use_profile = (\<lambda>_ r. r), sv_repr = (\<lambda>_. []), sv_valid_url = (\<lambda>_. True), sv_validate = (\<lambda>_ _. None),
     sv_configure_network = (\<lambda>_ r. r), sv_set_adopted = (\<lambda>_ r. r), sv_rendered_services = (\<lambda>_. []),
     sv_residency = (\<lambda>_. Inr demo_empty_residency), sv_observe = (\<lambda>_. Inr []),
     sv_preview = (\<lambda>_ approve desired i. Inr (empty_plan\<lparr>gp_assignments := map (\<lambda>d. (dep_id d, [])) desired\<rparr>, \<lparr>rn_unrenderable = [], rn_errors = []\<rparr>, None)),
     sv_converge = (\<lambda>_ _ r. (Inr [], r)),
     sv_report = (\<lambda>_. \<lparr>rr_unplaced = [], rr_errors = [], rr_assignments = [], rr_displaced = [], rr_degraded = []\<rparr>),
     sv_digest = (\<lambda>_. None), sv_settle_snapshot = (\<lambda>r. Inr (Some [(''c'', if r = 0 then ''starting'' else ''running'')])),
     sv_passes = (\<lambda>_ r. Suc r), sv_apply = (\<lambda>r. (Inr ApplyNone, Suc r)),
     sv_idle_plan = (\<lambda>ds r. Inr (map (\<lambda>d. (dep_id d, [])) ds, [])),
     sv_probe = (\<lambda>d ep r. Inr \<lparr>rd_ready = 1 < r, rd_detail = [], rd_fatal = False, rd_needs_room = False\<rparr>),
     sv_reclaim_candidates = (\<lambda>d idle r. Inr []), sv_apply_aborted = (\<lambda>_. False), sv_converge_aborted = (\<lambda>_. False)\<rparr>"

definition demo_ctl :: "store \<Rightarrow> nat ctl" where
  "demo_ctl st = \<lparr>ct_store = st, ct_runtime = 0, ct_now = 0, ct_fresh = None, ct_invocation = None, ct_profile = None, ct_profile_error = False,
     ct_explicit = False, ct_began = False, ct_calls = []\<rparr>"

lemma demo_ctl_simps [simp]:
  "ct_store (demo_ctl st) = st" "ct_calls (demo_ctl st) = []" "ct_now (demo_ctl st) = 0" "ct_runtime (demo_ctl st) = 0"
  by (simp_all add: demo_ctl_def)

theorem release_is_never_lost_witness:
  "map_option lr_state (lease_at (ct_store (snd (release_lease demo_serving ''A'' (demo_ctl demo_st2)))) ''A'') = Some Released"
proof -
  have "lease_at demo_st2 ''A'' \<noteq> None"
    using leases.look_None[of demo_st2 "''A''"] by (simp add: demo_tables)
  then obtain r where r: "lease_at (ct_store (demo_ctl demo_st2)) ''A'' = Some r" by auto
  have ok: "ledger_ok (ct_store (demo_ctl demo_st2))" using demo_ok(3) by simp
  have err: "\<not> ct_profile_error (demo_ctl demo_st2)" by (simp add: demo_ctl_def)
  show ?thesis using release_is_never_lost[OF ok r prod.collapse[symmetric] err] by blast
qed

definition demo_staged :: "nat ctl" where
  "demo_staged = demo_ctl (empty_store\<lparr>st_pending := Some \<lparr>mk_version = 1, mk_apply_requested = True,
     mk_interrupted = False, mk_context = None, mk_digest = Some ''d''\<rparr>\<rparr>)"

definition demo_result :: reconcile_result where
  "demo_result = \<lparr>rc_realized = [], rc_torn_down = [], rc_report = sv_report demo_serving 0, rc_applied = False,
     rc_pending = False, rc_runtime_applied = False, rc_detail = []\<rparr>"

theorem only_approved_renders_applied_witness:
  "apply_pending demo_serving demo_result demo_staged = (Inl ApprovalMismatch, demo_staged)"
  using only_approved_renders_applied[of demo_staged _ "''d''" demo_serving demo_result]
  by (simp add: demo_staged_def demo_serving_def demo_ctl_def)

theorem settling_is_bounded_witness:
  "\<exists>n \<le> 30. ct_now (snd (wait_for_settled_runtime demo_serving (demo_ctl empty_store))) = 2 * of_nat n"
  using settling_is_bounded[of demo_serving "demo_ctl empty_store", OF prod.collapse[symmetric]]
  by (simp del: ex_simps) blast

end
