(* ===== verification/Acquire.thy ===== *)
theory Acquire
  imports Transactions
begin

text \<open>
  Acquiring a lease (\<open>Controller.acquire\<close> in \<open>leasing/controller.py\<close>): the queue for placement, the
  wait for readiness with its evictions, and the roll-back of an acquire that did not deliver.

  Both loops sleep. \<open>others dt\<close> is what the rest of the host does meanwhile: it may change the ledger
  and the runtime, not this process. Sleeping takes exactly the interval, so with an interval of 0 a
  loop need not end: both are partial functions, whose value \<open>None\<close> says that they do not.
  Logging and the progress callback, whose errors the code swallows, are left out.
\<close>

section \<open>Sleeping\<close>

definition sleep_for :: "(rat \<Rightarrow> 'r ctl \<Rightarrow> 'r ctl) \<Rightarrow> rat \<Rightarrow> 'r ctl \<Rightarrow> 'r ctl" where
  "sleep_for others dt c =
     (let c' = others dt c
      in c\<lparr>ct_store := ct_store c', ct_runtime := ct_runtime c', ct_calls := ct_calls c', ct_now := ct_now c + dt\<rparr>)"

section \<open>Readiness\<close>

definition ROOM_COOLDOWN_S :: rat where "ROOM_COOLDOWN_S = 30"

record wait_result =
  wr_ready :: bool
  wr_pending :: "(string \<times> string) list"
  wr_failures :: "(string \<times> string \<times> string) list"

definition served_endpoints :: "deployment \<Rightarrow> string list" where
  "served_endpoints d = sort (dkeys (dep_served d))"

definition wait_pairs :: "string list option \<Rightarrow> deployment list \<Rightarrow> (deployment \<times> string) list" where
  "wait_pairs endpoints ds = concat (map (\<lambda>d. map (Pair d)
     (filter (\<lambda>ep. case endpoints of None \<Rightarrow> True | Some eps \<Rightarrow> ep \<in> set eps) (served_endpoints d))) ds)"

text \<open>One pass over what is still pending: the pairs that are not ready, each with its probe.\<close>

fun probe_all :: "('r, 'e) serving \<Rightarrow> (deployment \<times> string) list \<Rightarrow> 'r
    \<Rightarrow> 'e + ((deployment \<times> string) \<times> readiness) list" where
  "probe_all B [] r = Inr []"
| "probe_all B ((d, ep) # pairs) r =
     (case sv_probe B d ep r of
        Inl e \<Rightarrow> Inl e
      | Inr p \<Rightarrow> (case probe_all B pairs r of Inl e \<Rightarrow> Inl e
          | Inr rest \<Rightarrow> Inr (if rd_ready p then rest else ((d, ep), p) # rest)))"

definition pair_ids :: "(deployment \<times> string) list \<Rightarrow> (string \<times> string) list" where
  "pair_ids = map (\<lambda>(d, ep). (dep_id d, ep))"

definition failures_of :: "((deployment \<times> string) \<times> readiness) list \<Rightarrow> (string \<times> string \<times> string) list" where
  "failures_of probed = map (\<lambda>((d, ep), p). (dep_id d, ep, rd_detail p)) (filter (\<lambda>(_, p). rd_fatal p) probed)"

definition blocked_of :: "((deployment \<times> string) \<times> readiness) list \<Rightarrow> deployment list" where
  "blocked_of probed = dvals (fold (\<lambda>((d, _), p) acc. if rd_needs_room p then dput (dep_id d) d acc else acc) probed [])"

section \<open>Making room\<close>

definition idle_by_age :: "rat \<Rightarrow> store \<Rightarrow> deployment list" where
  "idle_by_age now st = sort_key (\<lambda>d. (dep_updated_at d, dep_id d))
     (filter (\<lambda>d. dep_state d = Idle) (snd (status True now st)))"

fun useful_for :: "('r, 'e) serving \<Rightarrow> deployment list \<Rightarrow> deployment list \<Rightarrow> 'r \<Rightarrow> 'e + string list" where
  "useful_for B [] idle r = Inr []"
| "useful_for B (d # blocked) idle r =
     (case sv_reclaim_candidates B d idle r of Inl e \<Rightarrow> Inl e
      | Inr gs \<Rightarrow> (case useful_for B blocked idle r of Inl e \<Rightarrow> Inl e | Inr gs' \<Rightarrow> Inr (gs @ gs')))"

definition make_room :: "('r, 'e) serving \<Rightarrow> deployment list \<Rightarrow> ('r, 'e, string option) act" where
  "make_room B blocked =
     act_bind (act_get (\<lambda>c. idle_by_age (ct_now c) (ct_store c))) (\<lambda>idle.
       if idle = [] then act_ret None
       else act_bind (act_lift (\<lambda>c. backend_raises (useful_for B blocked idle (ct_runtime c)))) (\<lambda>useful.
         case filter (\<lambda>d. dep_id d \<in> set useful) idle of
           [] \<Rightarrow> act_ret None
         | victim # _ \<Rightarrow> act_bind (evict B (Some [dep_id victim])) (\<lambda>_. act_ret (Some (dep_id victim)))))"

section \<open>The wait\<close>

text \<open>After the deadline check: evict one idle deployment if one may help and none was evicted lately.\<close>

definition room_step ::
    "('r, 'e) serving \<Rightarrow> deployment list \<Rightarrow> rat option \<Rightarrow> ('r, 'e, rat option) act" where
  "room_step B blocked last_room =
     act_bind (act_get (\<lambda>c. blocked \<noteq> []
         \<and> (case last_room of None \<Rightarrow> True | Some t \<Rightarrow> ROOM_COOLDOWN_S \<le> ct_now c - t))) (\<lambda>due.
       if \<not> due then act_ret last_room
       else act_bind (make_room B blocked) (\<lambda>victim.
         act_get (\<lambda>c. if victim \<notin> {None, Some []} then Some (ct_now c) else last_room)))"

partial_function (option) wait_loop ::
    "('r, 'e) serving \<Rightarrow> (rat \<Rightarrow> 'r ctl \<Rightarrow> 'r ctl) \<Rightarrow> rat \<Rightarrow> rat \<Rightarrow> rat option \<Rightarrow> (deployment \<times> string) list
     \<Rightarrow> 'r ctl \<Rightarrow> (('e ctl_error + wait_result) \<times> 'r ctl) option" where
  "wait_loop B others interval deadline last_room pairs c =
     (case probe_all B pairs (ct_runtime c) of
        Inl e \<Rightarrow> Some (Inl (BackendRaised e), c)
      | Inr probed \<Rightarrow>
          if probed = [] then Some (Inr \<lparr>wr_ready = True, wr_pending = [], wr_failures = []\<rparr>, c)
          else if failures_of probed \<noteq> [] \<or> deadline \<le> ct_now c
          then Some (Inr \<lparr>wr_ready = False, wr_pending = pair_ids (map fst probed), wr_failures = failures_of probed\<rparr>, c)
          else (case room_step B (blocked_of probed) last_room c of
              (Inl e, c') \<Rightarrow> Some (Inl e, c')
            | (Inr last_room', c') \<Rightarrow>
                wait_loop B others interval deadline last_room' (map fst probed) (sleep_for others interval c')))"

declare wait_loop.simps [code]

definition wait_ready ::
    "('r, 'e) serving \<Rightarrow> (rat \<Rightarrow> 'r ctl \<Rightarrow> 'r ctl) \<Rightarrow> deployment list \<Rightarrow> string list option \<Rightarrow> rat \<Rightarrow> rat
     \<Rightarrow> 'r ctl \<Rightarrow> (('e ctl_error + wait_result) \<times> 'r ctl) option" where
  "wait_ready B others ds endpoints timeout interval c =
     wait_loop B others interval (ct_now c + timeout) None (wait_pairs endpoints ds) c"

section \<open>The queue\<close>

definition waiting_cannot_help :: string where
  "waiting_cannot_help = '' -- and that is the whole host with nothing else running, so waiting cannot help''"

text \<open>What cannot be placed even on an idle host; a check that raises says nothing.\<close>

definition infeasible_alone ::
    "('r, 'e) serving \<Rightarrow> deployment list \<Rightarrow> string list \<Rightarrow> 'r \<Rightarrow> (string, string) dict" where
  "infeasible_alone B ds wanted r =
     (case sv_idle_plan B ds r of
        Inl _ \<Rightarrow> []
      | Inr (assignments, errors) \<Rightarrow>
          map (\<lambda>gid. (gid, (case find (is_prefix gid) errors of Some e \<Rightarrow> e | None \<Rightarrow> gid) @ waiting_cannot_help))
            (sort (remdups (filter (\<lambda>gid. gid \<notin> set (dkeys assignments)) wanted))))"

type_synonym acquisition = "lease \<times> deployment list \<times> reconcile_result"

text \<open>What a refused attempt becomes: an exception, or \<open>None\<close> for another attempt after a sleep.\<close>

definition give_up ::
    "('r, 'e) serving \<Rightarrow> bool \<Rightarrow> rat \<Rightarrow> rat \<Rightarrow> bool \<Rightarrow> deployment list \<Rightarrow> string list \<Rightarrow> refusal list \<Rightarrow> bool
     \<Rightarrow> 'r ctl \<Rightarrow> 'e ctl_error option" where
  "give_up B queue interval deadline checked ds blocked reasons capacity c =
     (if \<not> queue then Some (PlacementRefused blocked reasons capacity)
      else
        let infeasible = (if checked then [] else infeasible_alone B ds blocked (ct_runtime c)) in
        if infeasible \<noteq> [] then Some (NeverFits (sort (dkeys infeasible)) (sort (dvals infeasible)))
        else if ct_now c + interval > deadline then Some (PlacementRefused blocked reasons capacity)
        else None)"

text \<open>
  The ids of attempt \<open>k\<close> (random in the code): \<open>sids k\<close> for its lease, \<open>new_ids k\<close> for its deployments.
\<close>

partial_function (option) queue_loop ::
    "('r, 'e) serving \<Rightarrow> (rat \<Rightarrow> 'r ctl \<Rightarrow> 'r ctl) \<Rightarrow> (string \<Rightarrow> string) \<Rightarrow> (nat \<Rightarrow> nat \<Rightarrow> string) \<Rightarrow> (nat \<Rightarrow> string)
     \<Rightarrow> string \<Rightarrow> endpoint_request list \<Rightarrow> rat option \<Rightarrow> bool \<Rightarrow> bool \<Rightarrow> rat \<Rightarrow> rat \<Rightarrow> bool \<Rightarrow> nat
     \<Rightarrow> 'r ctl \<Rightarrow> (('e ctl_error + acquisition) \<times> 'r ctl) option" where
  "queue_loop B others sha new_ids sids owner reqs ttl apply queue interval deadline checked k c =
     (case acquire_attempt B sha (new_ids k) (sids k) owner reqs ttl apply c of
        (Inl e, c') \<Rightarrow> Some (Inl e, c')
      | (Inr (Acquired le ds rec), c') \<Rightarrow> Some (Inr (le, ds, rec), c')
      | (Inr PreviewAgain, c') \<Rightarrow>
          queue_loop B others sha new_ids sids owner reqs ttl apply queue interval deadline checked (Suc k) c'
      | (Inr (Refused ds blocked reasons capacity), c') \<Rightarrow>
          (case give_up B queue interval deadline checked ds blocked reasons capacity c' of
             Some e \<Rightarrow> Some (Inl e, c')
           | None \<Rightarrow> queue_loop B others sha new_ids sids owner reqs ttl apply queue interval deadline True (Suc k)
                       (sleep_for others interval c')))"

declare queue_loop.simps [code]

section \<open>The whole acquire\<close>

record acquire_outcome =
  ao_lease :: lease
  ao_deployments :: "deployment list"
  ao_reconcile :: reconcile_result
  ao_wait :: "wait_result option"
  ao_applied :: bool
  ao_released_on_timeout :: bool

text \<open>An interrupted or failed wait releases the lease, and re-raises; so does one that was not ready.\<close>

definition released_then ::
    "('r, 'e) serving \<Rightarrow> string \<Rightarrow> 'e ctl_error + 'a \<Rightarrow> ('r, 'e, 'a) act" where
  "released_then B sid v = act_bind (release_lease B sid) (\<lambda>_ c. (v, c))"

definition finish_acquire ::
    "('r, 'e) serving \<Rightarrow> (rat \<Rightarrow> 'r ctl \<Rightarrow> 'r ctl) \<Rightarrow> acquisition \<Rightarrow> bool \<Rightarrow> bool \<Rightarrow> rat \<Rightarrow> rat
     \<Rightarrow> 'r ctl \<Rightarrow> (('e ctl_error + acquire_outcome) \<times> 'r ctl) option" where
  "finish_acquire B others got apply wait timeout interval c =
     (case got of (le, ds, rec) \<Rightarrow>
        let ds' = List.map_filter (\<lambda>d. get_deployment (ct_store c) (dep_id d) (Some (ct_now c))) ds;
            outcome = (\<lambda>w late. \<lparr>ao_lease = le, ao_deployments = ds', ao_reconcile = rec, ao_wait = w,
                                ao_applied = apply, ao_released_on_timeout = late\<rparr>)
        in if \<not> (wait \<and> apply) then Some (Inr (outcome None False), c)
           else (case wait_ready B others ds' (Some (lease_endpoints le)) timeout interval c of
               None \<Rightarrow> None
             | Some (Inl e, c') \<Rightarrow> Some (released_then B (lease_id le) (Inl e) c')
             | Some (Inr w, c') \<Rightarrow>
                 if wr_ready w then Some (Inr (outcome (Some w) False), c')
                 else Some (released_then B (lease_id le) (Inr (outcome (Some w) True)) c')))"

definition acquire_lease ::
    "('r, 'e) serving \<Rightarrow> (rat \<Rightarrow> 'r ctl \<Rightarrow> 'r ctl) \<Rightarrow> (string \<Rightarrow> string) \<Rightarrow> (nat \<Rightarrow> nat \<Rightarrow> string) \<Rightarrow> (nat \<Rightarrow> string)
     \<Rightarrow> string \<Rightarrow> endpoint_request list \<Rightarrow> rat option \<Rightarrow> bool \<Rightarrow> rat \<Rightarrow> rat \<Rightarrow> bool \<Rightarrow> bool \<Rightarrow> rat option \<Rightarrow> rat option
     \<Rightarrow> 'r ctl \<Rightarrow> (('e ctl_error + acquire_outcome) \<times> 'r ctl) option" where
  "acquire_lease B others sha new_ids sids owner reqs ttl wait timeout interval apply queue queue_timeout queue_interval c =
     (case queue_loop B others sha new_ids sids owner reqs ttl apply (queue \<and> apply)
             (case queue_interval of Some i \<Rightarrow> i | None \<Rightarrow> interval)
             (ct_now c + (case queue_timeout of Some t \<Rightarrow> t | None \<Rightarrow> timeout)) False 0 c of
        None \<Rightarrow> None
      | Some (Inl e, c') \<Rightarrow> Some (Inl e, c')
      | Some (Inr got, c') \<Rightarrow> finish_acquire B others got apply wait timeout interval c')"

section \<open>Time passes, and a profile error stays\<close>

text \<open>What every statement does to this process: it never goes back in time, and only clears a profile error.\<close>

definition calm :: "('r, 'e, 'a) act \<Rightarrow> bool" where
  "calm m \<longleftrightarrow> (\<forall>c. ct_now c \<le> ct_now (snd (m c)) \<and> (ct_profile_error (snd (m c)) \<longrightarrow> ct_profile_error c))"

named_theorems calm_intros

lemma calm_simple [calm_intros]:
  "calm (act_ret x)" "calm (act_raise e)" "calm (act_get f)" "calm (act_lift g)" "calm (act_runtime h)"
  "calm (act_ledger l)" "calm take_fresh_profile"
  by (simp_all add: calm_def act_ret_def act_raise_def act_get_def act_lift_def act_runtime_def act_ledger_def
      take_fresh_profile_def split: prod.split)

lemma calm_bind [calm_intros]:
  assumes "calm m" and "\<And>x. calm (k x)"
  shows "calm (act_bind m k)"
  unfolding calm_def
proof
  fix c
  obtain v c1 where m: "m c = (v, c1)" by fastforce
  have 1: "ct_now c \<le> ct_now c1 \<and> (ct_profile_error c1 \<longrightarrow> ct_profile_error c)"
    using assms(1)[unfolded calm_def, rule_format, of c] m by simp
  have "ct_now c1 \<le> ct_now (snd (k x c1)) \<and> (ct_profile_error (snd (k x c1)) \<longrightarrow> ct_profile_error c1)" for x
    using assms(2)[unfolded calm_def] by blast
  then show "ct_now c \<le> ct_now (snd (act_bind m k c))
      \<and> (ct_profile_error (snd (act_bind m k c)) \<longrightarrow> ct_profile_error c)"
    using 1 by (cases v) (simp_all add: act_bind_def m, (meson order_trans)+)
qed

lemma calm_catch [calm_intros]:
  assumes "calm m" and "\<And>e. calm (h e)"
  shows "calm (act_catch m h)"
  unfolding calm_def
proof
  fix c
  obtain v c1 where m: "m c = (v, c1)" by fastforce
  have 1: "ct_now c \<le> ct_now c1 \<and> (ct_profile_error c1 \<longrightarrow> ct_profile_error c)"
    using assms(1)[unfolded calm_def, rule_format, of c] m by simp
  have "ct_now c1 \<le> ct_now (snd (h e c1)) \<and> (ct_profile_error (snd (h e c1)) \<longrightarrow> ct_profile_error c1)" for e
    using assms(2)[unfolded calm_def] by blast
  then show "ct_now c \<le> ct_now (snd (act_catch m h c))
      \<and> (ct_profile_error (snd (act_catch m h c)) \<longrightarrow> ct_profile_error c)"
    using 1 by (cases v) (simp_all add: act_catch_def m, (meson order_trans)+)
qed

lemma calm_branch [calm_intros]:
  "calm m \<Longrightarrow> calm m' \<Longrightarrow> calm (if b then m else m')"
  "calm m \<Longrightarrow> (\<And>x. calm (k x)) \<Longrightarrow> calm (case o' of None \<Rightarrow> m | Some x \<Rightarrow> k x)"
  "(\<And>x y. calm (f x y)) \<Longrightarrow> calm (case p of (x, y) \<Rightarrow> f x y)"
  by (simp_all split: option.split prod.split)

lemma calm_settle: "calm (settle_loop B deadline previous)"
proof -
  have "ct_now c \<le> ct_now (snd (settle_loop B deadline previous c))
      \<and> (ct_profile_error (snd (settle_loop B deadline previous c)) \<longrightarrow> ct_profile_error c)" for c
  proof (induction B deadline previous c rule: settle_loop.induct)
    case (1 B deadline previous c)
    then show ?case
      by (subst (1 2) settle_loop.simps) (force simp: SETTLE_INTERVAL_S_def split: sum.split option.split)
  qed
  then show ?thesis by (simp add: calm_def)
qed

lemma calm_publish [calm_intros]:
  "calm (sync_profile B)" "calm (mark_pending B a)" "calm (render_project B)" "calm (apply_pending B rec)" "calm (publish B)"
proof -
  show s: "calm (sync_profile B)"
    by (simp add: calm_def sync_profile_def act_ret_def Let_def split: option.split prod.split)
  show "calm (mark_pending B a)" unfolding mark_pending_def by (intro calm_intros s)
  have a: "calm (adopt_existing B res)" "calm (prepare_network B)" "calm (converge B ds i)" for res ds i
    by (simp_all add: calm_def adopt_existing_def prepare_network_def converge_def act_ret_def Let_def split: prod.split sum.split)
  show r: "calm (render_project B)"
    unfolding render_project_def render_admitted_def read_residency_def observe_def by (intro calm_intros a)
  have w: "calm (wait_for_settled_runtime B)"
    using calm_settle unfolding wait_for_settled_runtime_def calm_def by blast
  have b: "calm apply_begins" by (simp add: calm_def apply_begins_def)
  have ca: "calm (call_apply B)" by (simp add: calm_def call_apply_def split: prod.split sum.split)
  show p: "calm (apply_pending B rec)" for rec
    unfolding apply_pending_def apply_marked_def check_approval_def finish_apply_def observe_def apply_raised_def
    by (intro calm_intros w ca b)
  show "calm (publish B)" unfolding publish_def by (intro calm_intros r p)
qed

section \<open>Leases that are not active\<close>

lemma lease_at_member:
  assumes "distinct (lease_ids st)" and "r \<in> set (st_leases st)"
  shows "lease_at st (lr_id r) = Some r"
proof -
  have "lease_at st (lr_id r) \<noteq> None" using leases.look_None[of st "lr_id r"] assms(2) by (auto simp: lease_ids_def)
  then obtain r' where r': "lease_at st (lr_id r) = Some r'" by blast
  then have "r' \<in> set (st_leases st)" "lr_id r' = lr_id r" by (auto simp: lease_at_def find_Some_iff)
  then show ?thesis using r' assms by (metis distinct_map inj_onD lease_ids_def)
qed

definition cleared :: "string set \<Rightarrow> store \<Rightarrow> bool" where
  "cleared S st \<longleftrightarrow> distinct (lease_ids st) \<and> (\<forall>r \<in> set (st_leases st). lr_id r \<in> S \<longrightarrow> lr_state r \<noteq> Active)"

lemma cleared_cong: "st_leases st' = st_leases st \<Longrightarrow> cleared S st' = cleared S st"
  by (simp add: cleared_def lease_ids_def)

lemma cleared_mono: "cleared S st \<Longrightarrow> S' \<subseteq> S \<Longrightarrow> cleared S' st"
  by (auto simp: cleared_def)

lemma cleared_upd:
  assumes "\<And>r. lr_id (f r) = lr_id r" and "\<And>r. lr_state (f r) \<noteq> Active"
  shows "cleared (S - {sid}) st \<Longrightarrow> cleared S (upd_lease sid f st)"
proof -
  assume c: "cleared (S - {sid}) st"
  have "lease_ids (upd_lease sid f st) = lease_ids st" using leases.keys_upd assms(1) by blast
  then show ?thesis
    using c assms by (auto simp: cleared_def upd_lease_def upd_where_def split: if_splits)
qed

lemma cleared_expire:
  "cleared S st \<Longrightarrow> cleared S (fold (\<lambda>le. set_lease_state (lease_id le) Expired) xs st)" for xs :: "lease list"
proof (induction xs arbitrary: st)
  case (Cons le xs)
  have "cleared S (upd_lease (lease_id le) (\<lambda>r. r\<lparr>lr_state := Expired\<rparr>) st)"
    by (rule cleared_upd) (use cleared_mono[OF Cons.prems] in auto)
  then show ?case using Cons.IH by (simp add: set_lease_state_upd)
qed simp

lemma cleared_sweep: "cleared S st \<Longrightarrow> cleared S (fst (sweep t st))"
  by (simp add: sweep_def idle_deployments_eq Let_def cleared_cong[where st' = "bump_desired_generation _"]
      cleared_cong[where st' = "move_all _ _ _ _"] cleared_expire)

lemma cleared_safe: "publish_safe (cleared S)"
  unfolding publish_safe_def render_safe_def same_tables_def set_allocation_def set_deployment_allocation_def
  by (auto simp: cleared_sweep bump_admission_state_version_def intro: cleared_cong[THEN iffD2, rotated])

lemma cleared_evict: "cleared S st \<Longrightarrow> cleared S (fst (evict_idle ids t st))"
  unfolding evict_idle_eq Let_def by (auto intro: cleared_cong[THEN iffD2, rotated])

lemma cleared_release:
  assumes "cleared (S - {sid}) st"
  shows "cleared S (fst (release sid t st))"
proof (cases "lease_at st sid")
  case None
  then have "sid \<notin> lr_id ` set (st_leases st)" using leases.look_None[of st sid] by (simp add: lease_ids_def)
  then have "cleared S st" using assms by (auto simp: cleared_def)
  then show ?thesis using None by (simp add: release_def get_lease_lease_at)
next
  case (Some r)
  show ?thesis
  proof (cases "lr_state r = Released")
    case True
    have "lr_state r' \<noteq> Active" if "r' \<in> set (st_leases st)" "lr_id r' = sid" for r'
    proof -
      have "lease_at st sid = Some r'" using that assms lease_at_member[of st r'] by (auto simp: cleared_def)
      then show ?thesis using True Some by simp
    qed
    then have "cleared S st" using assms by (auto simp: cleared_def)
    then show ?thesis using Some True by (simp add: release_def get_lease_lease_at row_to_lease_def Let_def)
  next
    case False
    have "cleared S (upd_lease sid (\<lambda>r. r\<lparr>lr_state := Released\<rparr>) st)" by (rule cleared_upd) (use assms in auto)
    then show ?thesis using Some False
      by (auto simp: release_def get_lease_lease_at row_to_lease_def Let_def idle_deployments_eq set_lease_state_upd
          intro: cleared_cong[THEN iffD2, rotated])
  qed
qed

lemma cleared_acquire:
  assumes "acquire sha new_id t sid owner reqs ttl (Some ov) al h p st = Inr (st', le, ds)" and "cleared S st"
  shows "cleared (S - {sid}) st'" and "lease_id le = sid"
proof -
  note A = assms(1)[unfolded acquire_Inr]
  then have st': "st_leases st' = st_leases st @ [acquired_lease sid owner ttl (ov_now ov)]" "sid \<notin> set (lease_ids st)"
    by (auto simp: commit_acquire_Inr acquired_def with_rows_def)
  then show "cleared (S - {sid}) st'"
    using assms(2) by (auto simp: cleared_def lease_ids_def acquired_lease_def)
  show "lease_id le = sid"
    using A by (auto simp: get_lease_lease_at row_to_lease_def Let_def lease_at_def find_Some_iff split: option.splits)
qed

section \<open>What an attempt leaves\<close>

text \<open>Before, after a return, after an exception.\<close>

definition triple :: "('r ctl \<Rightarrow> bool) \<Rightarrow> ('r, 'e, 'a) act \<Rightarrow> ('a \<Rightarrow> 'r ctl \<Rightarrow> bool) \<Rightarrow> ('r ctl \<Rightarrow> bool) \<Rightarrow> bool" where
  "triple P m Q E \<longleftrightarrow> (\<forall>c. P c \<longrightarrow> (case m c of (Inl e, c') \<Rightarrow> E c' | (Inr x, c') \<Rightarrow> Q x c'))"

lemma tripleD: "triple P m Q E \<Longrightarrow> P c \<Longrightarrow> m c = (v, c') \<Longrightarrow> case v of Inl e \<Rightarrow> E c' | Inr x \<Rightarrow> Q x c'"
  by (auto simp: triple_def split: sum.split)

lemma triple_bind:
  assumes "triple P m R E" and "\<And>x. triple (R x) (k x) Q E"
  shows "triple P (act_bind m k) Q E"
  unfolding triple_def
proof (intro allI impI)
  fix c assume "P c"
  then show "case act_bind m k c of (Inl e, c') \<Rightarrow> E c' | (Inr x, c') \<Rightarrow> Q x c'"
    using assms(1)[unfolded triple_def, rule_format, of c] assms(2)[unfolded triple_def]
    by (cases "m c"; cases "fst (m c)") (auto simp: act_bind_def)
qed

lemma triple_catch:
  assumes "triple P m Q R" and "\<And>e. triple R (h e) Q E"
  shows "triple P (act_catch m h) Q E"
  unfolding triple_def
proof (intro allI impI)
  fix c assume "P c"
  then show "case act_catch m h c of (Inl e, c') \<Rightarrow> E c' | (Inr x, c') \<Rightarrow> Q x c'"
    using assms(1)[unfolded triple_def, rule_format, of c] assms(2)[unfolded triple_def]
    by (cases "m c"; cases "fst (m c)") (auto simp: act_catch_def)
qed

lemma triple_conseq:
  "triple P m Q E \<Longrightarrow> (\<And>c. P' c \<Longrightarrow> P c) \<Longrightarrow> (\<And>x c. Q x c \<Longrightarrow> Q' x c) \<Longrightarrow> (\<And>c. E c \<Longrightarrow> E' c) \<Longrightarrow> triple P' m Q' E'"
  unfolding triple_def by (fastforce split: prod.splits sum.splits)

lemma triple_if: "(b \<Longrightarrow> triple P m Q E) \<Longrightarrow> (\<not> b \<Longrightarrow> triple P m' Q E) \<Longrightarrow> triple P (if b then m else m') Q E"
  by simp

lemma triple_ret: "triple (\<lambda>c. Q x c) (act_ret x) Q E"
  by (simp add: triple_def act_ret_def)

lemma triple_raise: "triple E (act_raise e) Q E"
  by (simp add: triple_def act_raise_def)

definition profile_usable :: "('r, 'e) serving \<Rightarrow> 'r ctl \<Rightarrow> bool" where
  "profile_usable B c \<longleftrightarrow> sv_render_profile B = None \<or> \<not> ct_profile_error c"

abbreviation kept :: "('r, 'e) serving \<Rightarrow> string set \<Rightarrow> 'r ctl \<Rightarrow> bool" where
  "kept B S c \<equiv> cleared S (ct_store c) \<and> profile_usable B c"

lemma triple_kept:
  assumes "preserves I m" and "calm m"
  shows "triple (\<lambda>c. I (ct_store c) \<and> profile_usable B c) m (\<lambda>_ c. I (ct_store c) \<and> profile_usable B c) (\<lambda>c. I (ct_store c) \<and> profile_usable B c)"
  unfolding triple_def
proof (intro allI impI)
  fix c :: "'a ctl" assume "I (ct_store c) \<and> profile_usable B c"
  then have "I (ct_store (snd (m c))) \<and> profile_usable B (snd (m c))"
    using assms unfolding preserves_def calm_def profile_usable_def by blast
  then show "case m c of (Inl e, c') \<Rightarrow> I (ct_store c') \<and> profile_usable B c'
      | (Inr x, c') \<Rightarrow> I (ct_store c') \<and> profile_usable B c'"
    by (cases "m c") (simp split: sum.split)
qed

lemma triple_store:
  "preserves I m \<Longrightarrow> triple (\<lambda>c. I (ct_store c)) m (\<lambda>_ c. I (ct_store c)) (\<lambda>c. I (ct_store c))"
  unfolding triple_def preserves_def by (simp add: split_beta split: prod.split sum.split)

text \<open>Recording intent cannot raise while the profile is usable.\<close>

lemma triple_mark: "triple (kept B S) (mark_pending B a) (\<lambda>_. kept B S) E"
  unfolding triple_def
proof (intro allI impI)
  fix c :: "'a ctl" assume c: "kept B S c"
  have "triple (kept B S) (mark_pending B a) (\<lambda>_. kept B S) (kept B S)"
    by (rule triple_kept[OF preserves_mark_pending[OF cleared_safe] calm_publish(2)])
  moreover have "fst (mark_pending B a c) \<noteq> Inl e" for e
    using c mark_raises[of B a c e] by (auto simp: profile_usable_def)
  ultimately show "case mark_pending B a c of (Inl e, c') \<Rightarrow> E c' | (Inr x, c') \<Rightarrow> kept B S c'"
    using c unfolding triple_def by (cases "mark_pending B a c"; cases "fst (mark_pending B a c)") force+
qed

text \<open>Once intent is recorded the profile is usable.\<close>

lemma triple_mark_usable:
  "triple (\<lambda>c. cleared S (ct_store c)) (mark_pending B a) (\<lambda>_. kept B S) (\<lambda>c. cleared S (ct_store c))"
  unfolding triple_def
proof (intro allI impI)
  fix c :: "'a ctl" assume c: "cleared S (ct_store c)"
  have "cleared S (ct_store (snd (mark_pending B a c)))"
    using preserves_mark_pending[OF cleared_safe] c unfolding preserves_def by blast
  moreover have "profile_usable B (snd (mark_pending B a c))" if "fst (mark_pending B a c) = Inr x" for x
    using mark_raises[of B a c ProfileUnusable] calm_publish(2)[of B a] that unfolding profile_usable_def calm_def by auto
  ultimately show "case mark_pending B a c of (Inl e, c') \<Rightarrow> cleared S (ct_store c') | (Inr x, c') \<Rightarrow> kept B S c'"
    by (cases "mark_pending B a c"; cases "fst (mark_pending B a c)") auto
qed

lemma triple_release: "triple (kept B (S - {sid})) (act_ledger (release sid)) (\<lambda>_. kept B S) E"
  by (simp add: triple_def act_ledger_def profile_usable_def split: prod.split) (metis cleared_release fst_conv)

lemma preserves_ledger_calm:
  assumes "\<And>t st. I st \<Longrightarrow> I (fst (f t st))"
  shows "triple (\<lambda>c. I (ct_store c) \<and> profile_usable B c) (act_ledger f)
    (\<lambda>_ c. I (ct_store c) \<and> profile_usable B c) (\<lambda>c. I (ct_store c) \<and> profile_usable B c)"
  by (rule triple_kept[OF preserves_ledger calm_simple(6)]) (rule assms)

lemma triple_silent: "silent m \<Longrightarrow> calm m \<Longrightarrow> triple (kept B S) m (\<lambda>_. kept B S) (kept B S)"
  by (rule triple_kept[OF preserves_silent])

lemma cleared_digest: "cleared S st \<Longrightarrow> cleared S (clear_approved_digest st)"
  by (simp add: clear_approved_digest_def cleared_def lease_ids_def set_approved_digest_def split: option.split)

lemma triple_publish:
  "triple (kept B S) (publish B) (\<lambda>_. kept B S) (kept B S)"
  "triple (kept B S) (render_project B) (\<lambda>_. kept B S) (kept B S)"
  "triple (kept B S) (apply_pending B rec) (\<lambda>_. kept B S) (kept B S)"
  using cleared_safe[of S] preserves_render
  by (auto intro!: triple_kept preserves_publish preserves_apply_pending calm_intros simp: publish_safe_def)

lemma triple_digest: "triple (kept B S) (act_ledger (\<lambda>_ st. (clear_approved_digest st, ()))) (\<lambda>_. kept B S) E"
  by (simp add: triple_def act_ledger_def cleared_digest profile_usable_def)

text \<open>A roll-back leaves the lease inactive whatever else goes wrong in it.\<close>

lemma triple_rollback:
  "triple (kept B (S - {sid})) (rollback_acquire B sid apply) (\<lambda>_. kept B S) (kept B S)"
proof -
  have ev: "triple (kept B S) (if gone \<noteq> [] then act_bind (act_ledger (evict_idle (Some gone))) (\<lambda>_. act_ret ()) else act_ret ())
      (\<lambda>_. kept B S) (kept B S)" for gone
    by (intro triple_if triple_bind[OF preserves_ledger_calm[where I = "cleared S"]] triple_silent calm_intros)
       (simp_all add: cleared_evict)
  have g: "triple (kept B S) (if idled_ids rel = [] then act_ret []
      else act_get (\<lambda>c. never_ran B (idled_ids rel) (ct_runtime c))) (\<lambda>_. kept B S) (kept B S)" for rel
    by (intro triple_if triple_silent calm_intros) simp_all
  show ?thesis
    unfolding rollback_acquire_def
    by (rule triple_bind[OF triple_mark], rule triple_bind[OF triple_digest], rule triple_bind[OF triple_release], rule triple_bind[OF g], rule triple_bind[OF ev], rule triple_catch,
        rule triple_bind[OF triple_publish(2)], rule triple_if, rule triple_bind[OF triple_publish(3)],
        (rule triple_silent; simp add: calm_intros)+)
qed

lemma triple_rolled_back: "triple (kept B (S - {sid})) (rolled_back B sid apply e) Q (kept B S)"
  unfolding rolled_back_def by (rule triple_bind[OF triple_rollback triple_raise])

lemma triple_publish_acquired:
  "triple (kept B (S - {sid})) (publish_acquired B sid apply le ds)
     (\<lambda>a c. kept B (S - {sid}) c \<and> (\<exists>rec. a = Acquired le ds rec)) (kept B S)"
  unfolding publish_acquired_def
proof (rule triple_bind[where R = "\<lambda>_. kept B (S - {sid})"])
  show "triple (kept B (S - {sid})) (act_catch (render_project B) (render_failed B sid apply))
      (\<lambda>_. kept B (S - {sid})) (kept B S)"
    unfolding render_failed_def by (rule triple_catch[OF triple_publish(2) triple_rolled_back])
  fix rec
  have ap: "triple (kept B (S - {sid})) (apply_admitted B rec sid apply) (\<lambda>_. kept B (S - {sid})) (kept B S)"
    unfolding apply_admitted_def
    by (rule triple_if, rule triple_ret, rule triple_catch[OF triple_publish(3)], rule triple_bind[OF triple_rollback triple_raise])
  show "triple (kept B (S - {sid})) (let unplaced = filter (\<lambda>g. g \<in> set (rr_unplaced (rc_report rec))) (fromkeys (map dep_id ds)) in
       if unplaced \<noteq> [] then
         (let why = filter (\<lambda>e. list_ex (\<lambda>g. is_prefix g e) unplaced) (rr_errors (rc_report rec)) in
          rolled_back B sid apply (PlacementDisagrees (sort unplaced)
            (if why \<noteq> [] then why else [''admission preview and render disagreed''])))
       else act_bind (apply_admitted B rec sid apply) (\<lambda>rec. act_ret (Acquired le ds rec)))
     (\<lambda>a c. kept B (S - {sid}) c \<and> (\<exists>rec. a = Acquired le ds rec)) (kept B S)"
    unfolding Let_def
    by (rule triple_if, rule triple_rolled_back, rule triple_bind[OF ap]) (auto simp: triple_def act_ret_def)
qed

text \<open>What an attempt may leave: a lease of its own, or none.\<close>

definition attempted :: "('r, 'e) serving \<Rightarrow> string set \<Rightarrow> string \<Rightarrow> attempt \<Rightarrow> 'r ctl \<Rightarrow> bool" where
  "attempted B S sid a c \<longleftrightarrow> (case a of
     Acquired le ds rec \<Rightarrow> lease_id le = sid \<and> kept B (S - {sid}) c
   | _ \<Rightarrow> cleared S (ct_store c))"

lemma triple_restore:
  "triple (\<lambda>c. cleared S (ct_store c)) (restore_if B candidate stored) (\<lambda>_ c. cleared S (ct_store c)) E"
  by (auto simp: triple_def restore_if_def restore_stored_profile_def act_ret_def split: option.split)

lemma triple_commit:
  "triple (\<lambda>c. cleared S (ct_store c)) (commit_admitted B sha new_id sid owner reqs ttl apply candidate ov ad)
     (attempted B S sid) (\<lambda>c. cleared S (ct_store c))"
  unfolding commit_admitted_def
proof (rule triple_bind[OF triple_mark_usable])
  fix x :: marker
  show "triple (kept B S) (\<lambda>c.
       case acquire sha new_id (ct_now c) sid owner reqs ttl (Some ov) (ad_allocations ad)
              (if apply then ad_digest ad else None) candidate (ct_store c) of
         Inl AdmissionConflict \<Rightarrow> (Inr PreviewAgain, c)
       | Inl e \<Rightarrow> act_bind (restore_if B candidate (profile (ct_store c))) (\<lambda>_. act_raise (LedgerRaised e)) c
       | Inr (st, le, ds) \<Rightarrow>
           publish_acquired B sid apply le ds
             (c\<lparr>ct_store := st, ct_profile := (if candidate = None then ct_profile c else candidate),
               ct_profile_error := (candidate = None \<and> ct_profile_error c)\<rparr>))
     (attempted B S sid) (\<lambda>c. cleared S (ct_store c))" (is "triple _ ?m _ ?E")
    unfolding triple_def
  proof (intro allI impI)
    fix c :: "'a ctl"
    assume c: "kept B S c"
    let ?acq = "acquire sha new_id (ct_now c) sid owner reqs ttl (Some ov) (ad_allocations ad)
              (if apply then ad_digest ad else None) candidate (ct_store c)"
    have raised: "case act_bind (restore_if B candidate p) (\<lambda>_. act_raise e) c of
        (Inl e, c') \<Rightarrow> ?E c' | (Inr x, c') \<Rightarrow> attempted B S sid x c'" for p and e :: "'b ctl_error"
    proof -
      have "triple ?E (act_bind (restore_if B candidate p) (\<lambda>_. act_raise e)) (attempted B S sid) ?E"
        by (rule triple_bind[OF triple_restore triple_raise])
      from this[unfolded triple_def, rule_format, of c] show ?thesis using c by simp
    qed
    show "case ?m c of (Inl e, c') \<Rightarrow> ?E c' | (Inr x, c') \<Rightarrow> attempted B S sid x c'"
    proof (cases ?acq)
      case (Inl e)
      then show ?thesis using raised c by (cases e) (simp_all add: attempted_def)
    next
      case (Inr r)
      obtain st le ds where r: "r = (st, le, ds)" by (cases r)
      note A = cleared_acquire[OF Inr[unfolded r] conjunct1[OF c]]
      let ?c = "c\<lparr>ct_store := st, ct_profile := (if candidate = None then ct_profile c else candidate),
               ct_profile_error := (candidate = None \<and> ct_profile_error c)\<rparr>"
      have "kept B (S - {sid}) ?c" using A c by (auto simp: profile_usable_def)
      from triple_publish_acquired[of S sid B "apply" le ds, unfolded triple_def, rule_format, OF this]
      have "case publish_acquired B sid apply le ds ?c of (Inl e, c') \<Rightarrow> kept B S c'
          | (Inr a, c') \<Rightarrow> kept B (S - {sid}) c' \<and> (\<exists>rec. a = Acquired le ds rec)" .
      then show ?thesis using A Inr r
        by (cases "publish_acquired B sid apply le ds ?c"; cases "fst (publish_acquired B sid apply le ds ?c)")
           (auto simp: attempted_def)
    qed
  qed
qed

lemma triple_maintenance:
  "triple (\<lambda>c. cleared S (ct_store c)) (maintenance_sweep B) (\<lambda>_ c. cleared S (ct_store c)) (\<lambda>c. cleared S (ct_store c))"
  by (rule triple_store[OF preserves_maintenance[OF cleared_safe]])

lemma triple_attempt:
  "triple (\<lambda>c. cleared S (ct_store c)) (acquire_attempt B sha new_id sid owner reqs ttl apply)
     (attempted B S sid) (\<lambda>c. cleared S (ct_store c))"
proof -
  let ?P = "\<lambda>c. cleared S (ct_store c)"
  have sil: "triple ?P m (\<lambda>_. ?P) ?P" if "silent m" for m :: "('r, 'e, 'x) act"
    by (rule triple_store[OF preserves_silent[OF that]])
  have pv: "silent (preview_candidate B sha new_id reqs res)" for res
    unfolding preview_candidate_def by (intro silent_bind silent_admit) simp_all
  show ?thesis
    unfolding acquire_attempt_def try_residency_def
    apply (rule triple_bind[OF sil], simp)
    apply (rule triple_bind[OF sil], simp)
    apply (rule triple_bind[OF triple_maintenance])
    apply (rule triple_bind[OF sil], simp)
    apply (rule triple_bind[OF sil], simp)
    apply (rule triple_bind[OF sil], simp split: option.split)
    apply (rule triple_bind, rule triple_catch, rule sil[OF pv], rule triple_bind[OF triple_restore triple_raise])
    apply (simp add: split_beta)
    apply (rule conjI; intro impI)
     apply (rule triple_commit)
    apply (rule triple_bind[OF triple_restore])
    apply (auto simp: triple_def act_ret_def attempted_def)
    done
qed

section \<open>What an acquire leaves\<close>

lemma triple_evict: "triple (kept B S) (evict B ids) (\<lambda>_. kept B S) (kept B S)"
  unfolding evict_def
  by (rule triple_bind[OF triple_mark], rule triple_bind[OF preserves_ledger_calm[where I = "cleared S"]],
      erule cleared_sweep, rule triple_bind[OF preserves_ledger_calm[where I = "cleared S"]], erule cleared_evict,
      rule triple_bind[OF triple_publish(1)]) (rule triple_silent; simp add: calm_intros)

lemma triple_make_room: "triple (kept B S) (room_step B blocked last_room) (\<lambda>_. kept B S) (kept B S)"
proof -
  have ev: "triple (kept B S) (act_bind (evict B ids) (\<lambda>_. act_ret x)) (\<lambda>_. kept B S) (kept B S)" for ids and x :: 'x
    by (rule triple_bind[OF triple_evict triple_ret])
  have "triple (kept B S) (make_room B blocked) (\<lambda>_. kept B S) (kept B S)"
    unfolding make_room_def
    by (rule triple_bind[OF triple_silent]; (simp add: calm_intros)?)
       (auto intro!: triple_ret triple_bind[OF triple_silent] ev calm_intros split: list.split)
  note room = this
  show ?thesis
    unfolding room_step_def
    by (rule triple_bind[OF triple_silent], simp, simp add: calm_intros, rule triple_if, rule triple_silent, simp,
        simp add: calm_intros, rule triple_bind[OF room], rule triple_silent, simp, simp add: calm_intros)
qed

text \<open>Other processes never make one of our leases active.\<close>

definition leaves_alone :: "(rat \<Rightarrow> 'r ctl \<Rightarrow> 'r ctl) \<Rightarrow> bool" where
  "leaves_alone others \<longleftrightarrow> (\<forall>dt c S. cleared S (ct_store c) \<longrightarrow> cleared S (ct_store (others dt c)))"

lemma sleep_kept:
  "leaves_alone others \<Longrightarrow> cleared S (ct_store c) \<Longrightarrow> cleared S (ct_store (sleep_for others dt c))"
  "profile_usable B (sleep_for others dt c) = profile_usable B c" "ct_now (sleep_for others dt c) = ct_now c + dt"
  by (auto simp: sleep_for_def leaves_alone_def profile_usable_def Let_def)

lemma queue_loop_outcome:
  fixes B :: "('r, 'e) serving"
  assumes "queue_loop B others sha new_ids sids owner reqs ttl apply queue interval deadline checked k c = Some (v, c')"
    and "leaves_alone others" and "cleared S (ct_store c)"
  shows "case v of Inl e \<Rightarrow> cleared S (ct_store c')
    | Inr (le, ds, rec) \<Rightarrow> (\<exists>k. lease_id le = sids k) \<and> kept B (S - {lease_id le}) c'"
proof -
  let ?P = "\<lambda>B others sha new_ids sids owner reqs ttl apply queue interval deadline checked k c y.
    leaves_alone others \<longrightarrow> cleared S (ct_store c) \<longrightarrow> (case fst y of Inl e \<Rightarrow> cleared S (ct_store (snd y))
    | Inr (le, ds, rec) \<Rightarrow> (\<exists>k. lease_id le = sids k) \<and> kept B (S - {lease_id le}) (snd y))"
  have "?P B others sha new_ids sids owner reqs ttl apply queue interval deadline checked k c (v, c')"
  proof (rule queue_loop.raw_induct[where P = ?P, OF _ assms(1)], intro impI)
    fix loop :: "('r, 'e) serving \<Rightarrow> (rat \<Rightarrow> 'r ctl \<Rightarrow> 'r ctl) \<Rightarrow> (string \<Rightarrow> string) \<Rightarrow> (nat \<Rightarrow> nat \<Rightarrow> string) \<Rightarrow> (nat \<Rightarrow> string)
     \<Rightarrow> string \<Rightarrow> endpoint_request list \<Rightarrow> rat option \<Rightarrow> bool \<Rightarrow> bool \<Rightarrow> rat \<Rightarrow> rat \<Rightarrow> bool \<Rightarrow> nat
     \<Rightarrow> 'r ctl \<Rightarrow> (('e ctl_error + acquisition) \<times> 'r ctl) option"
    fix B others sha new_ids sids owner reqs ttl "apply" queue interval deadline checked k c y
    assume IH: "\<And>B others sha new_ids sids owner reqs ttl apply queue interval deadline checked k c y.
        loop B others sha new_ids sids owner reqs ttl apply queue interval deadline checked k c = Some y \<Longrightarrow>
        ?P B others sha new_ids sids owner reqs ttl apply queue interval deadline checked k c y"
      and eq: "(case acquire_attempt B sha (new_ids k) (sids k) owner reqs ttl apply c of
        (Inl e, c') \<Rightarrow> Some (Inl e, c')
      | (Inr (Acquired le ds rec), c') \<Rightarrow> Some (Inr (le, ds, rec), c')
      | (Inr (Refused ds blocked reasons capacity), c') \<Rightarrow>
          (case give_up B queue interval deadline checked ds blocked reasons capacity c' of
             None \<Rightarrow> loop B others sha new_ids sids owner reqs ttl apply queue interval deadline True (Suc k)
                       (sleep_for others interval c')
           | Some e \<Rightarrow> Some (Inl e, c'))
      | (Inr PreviewAgain, c') \<Rightarrow>
          loop B others sha new_ids sids owner reqs ttl apply queue interval deadline checked (Suc k) c') = Some y"
      and o: "leaves_alone others" and c: "cleared S (ct_store c)"
    obtain w c1 where a: "acquire_attempt B sha (new_ids k) (sids k) owner reqs ttl apply c = (w, c1)" by fastforce
    note A = tripleD[OF triple_attempt c a]
    show "case fst y of Inl e \<Rightarrow> cleared S (ct_store (snd y))
      | Inr (le, ds, rec) \<Rightarrow> (\<exists>k. lease_id le = sids k) \<and> kept B (S - {lease_id le}) (snd y)"
    proof (cases w)
      case (Inl e)
      then show ?thesis using eq A by (auto simp: a)
    next
      case (Inr att)
      show ?thesis
      proof (cases att)
        case (Acquired le ds rec)
        then show ?thesis using eq A Inr by (auto simp: a attempted_def)
      next
        case PreviewAgain
        then have "loop B others sha new_ids sids owner reqs ttl apply queue interval deadline checked (Suc k) c1 = Some y"
          using eq Inr by (simp add: a)
        from IH[OF this] show ?thesis using A Inr PreviewAgain o by (simp add: attempted_def)
      next
        case (Refused ds blocked reasons cap)
        have c1: "cleared S (ct_store c1)" using A Inr Refused by (simp add: attempted_def)
        show ?thesis
        proof (cases "give_up B queue interval deadline checked ds blocked reasons cap c1")
          case None
          then have "loop B others sha new_ids sids owner reqs ttl apply queue interval deadline True (Suc k)
              (sleep_for others interval c1) = Some y"
            using eq Inr Refused by (simp add: a)
          from IH[OF this] show ?thesis using sleep_kept(1)[OF o c1] o by blast
        next
          case (Some e)
          then show ?thesis using eq c1 Inr Refused by (auto simp: a)
        qed
      qed
    qed
  qed
  then show ?thesis using assms(2,3) unfolding fst_conv snd_conv by blast
qed

lemma wait_loop_outcome:
  fixes B :: "('r, 'e) serving"
  assumes "wait_loop B others interval deadline last_room pairs c = Some (v, c')"
    and "leaves_alone others" and "kept B S c"
  shows "kept B S c'"
proof -
  let ?P = "\<lambda>B others interval deadline last_room pairs c y. leaves_alone others \<longrightarrow> kept B S c \<longrightarrow> kept B S (snd y)"
  have "?P B others interval deadline last_room pairs c (v, c')"
  proof (rule wait_loop.raw_induct[where P = ?P, OF _ assms(1)], intro impI)
    fix loop :: "('r, 'e) serving \<Rightarrow> (rat \<Rightarrow> 'r ctl \<Rightarrow> 'r ctl) \<Rightarrow> rat \<Rightarrow> rat \<Rightarrow> rat option \<Rightarrow> (deployment \<times> string) list
     \<Rightarrow> 'r ctl \<Rightarrow> (('e ctl_error + wait_result) \<times> 'r ctl) option"
    fix B others interval deadline last_room pairs c y
    assume IH: "\<And>B others interval deadline last_room pairs c y.
        loop B others interval deadline last_room pairs c = Some y \<Longrightarrow> ?P B others interval deadline last_room pairs c y"
      and eq: "(case probe_all B pairs (ct_runtime c) of
        Inl e \<Rightarrow> Some (Inl (BackendRaised e), c)
      | Inr probed \<Rightarrow>
          if probed = [] then Some (Inr \<lparr>wr_ready = True, wr_pending = [], wr_failures = []\<rparr>, c)
          else if failures_of probed \<noteq> [] \<or> deadline \<le> ct_now c
          then Some (Inr \<lparr>wr_ready = False, wr_pending = pair_ids (map fst probed), wr_failures = failures_of probed\<rparr>, c)
          else (case room_step B (blocked_of probed) last_room c of
              (Inl e, c') \<Rightarrow> Some (Inl e, c')
            | (Inr last_room', c') \<Rightarrow>
                loop B others interval deadline last_room' (map fst probed) (sleep_for others interval c'))) = Some y"
      and o: "leaves_alone others" and c: "kept B S c"
    show "kept B S (snd y)"
    proof (cases "probe_all B pairs (ct_runtime c)")
      case (Inl e)
      then show ?thesis using eq c by auto
    next
      case probed: (Inr probed)
      show ?thesis
      proof (cases "probed = [] \<or> failures_of probed \<noteq> [] \<or> deadline \<le> ct_now c")
        case True
        then show ?thesis using eq c probed by (auto split: if_splits)
      next
        case False
        obtain w c1 where r: "room_step B (blocked_of probed) last_room c = (w, c1)" by fastforce
        have c1: "kept B S c1" using tripleD[OF triple_make_room c r] by (auto split: sum.splits)
        show ?thesis
        proof (cases w)
          case (Inl e)
          then show ?thesis using eq c1 probed False by (auto simp: r)
        next
          case (Inr t)
          then have "loop B others interval deadline t (map fst probed) (sleep_for others interval c1) = Some y"
            using eq probed False by (simp add: r)
          from IH[OF this] show ?thesis using sleep_kept(1)[OF o] sleep_kept(2)[of B others interval c1] c1 o by blast
        qed
      qed
    qed
  qed
  then show ?thesis using assms(2,3) by simp
qed

lemma triple_release_lease: "triple (kept B (S - {sid})) (released_then B sid v) (\<lambda>x c. v = Inr x \<and> kept B S c) (kept B S)"
proof -
  have "triple (kept B (S - {sid})) (release_lease B sid) (\<lambda>_. kept B S) (kept B S)"
    unfolding release_lease_def
    by (rule triple_bind[OF triple_mark], rule triple_bind[OF triple_release], rule triple_bind[OF triple_publish(1) triple_ret])
  then show ?thesis
    unfolding released_then_def by (rule triple_bind) (auto simp: triple_def split: sum.split)
qed


section \<open>An acquire returns\<close>

lemma triple_any: "triple P m (\<lambda>_ _. True) (\<lambda>_. True)"
  by (simp add: triple_def split: prod.split sum.split)

lemma mark_keeps_version: "preserves (\<lambda>st. admission_state_version st = n) (mark_pending B a)"
  unfolding mark_pending_def
  by (intro preserves_bind preserves_ledger)
     (auto simp: preserves_silent admission_state_version_def clear_placement_context_def mark_publication_pending_def
       write_marker_def write_profile_def set_meta_json_def Let_def split: option.splits)

lemma preview_version:
  "triple (\<lambda>_. True) (preview_candidate B sha new_id reqs res)
     (\<lambda>(ov, ad) c. ov_state_version ov = admission_state_version (ct_store c)) (\<lambda>_. True)"
proof -
  let ?P = "\<lambda>ov c. ov_state_version ov = admission_state_version (ct_store c)"
  have admits: "triple (?P ov) (admit B ov res) (\<lambda>_. ?P ov) (\<lambda>_. True)" for ov
    by (rule triple_conseq[OF triple_store[OF preserves_silent[OF silent_admit], where I = "\<lambda>st. ov_state_version ov = admission_state_version st"]])
       simp_all
  show ?thesis
    unfolding preview_candidate_def
    apply (rule triple_bind[OF triple_any])
    apply (rule triple_bind[where R = ?P])
     apply (simp add: triple_def act_get_def plan_acquire_fields)
    apply (rule triple_bind[OF admits])
    apply (simp add: triple_def act_ret_def)
    done
qed

lemma publish_acquired_result:
  "triple P (publish_acquired B sid apply le ds) (\<lambda>a _. a \<noteq> PreviewAgain) (\<lambda>_. True)"
proof -
  have r: "triple P (rolled_back B sid apply e) Q (\<lambda>_. True)" for P e Q
    unfolding rolled_back_def by (rule triple_bind[OF triple_any]) (simp add: triple_def act_raise_def)
  show ?thesis
    unfolding publish_acquired_def Let_def
    by (rule triple_bind[OF triple_any], rule triple_if, rule r, rule triple_bind[OF triple_any])
       (simp add: triple_def act_ret_def)
qed

lemma fold_err_no: "(\<And>x s. f x s \<noteq> Inl e) \<Longrightarrow> fold_err f xs s \<noteq> Inl e"
  by (induction xs arbitrary: s) (auto simp: bind_err_def split: sum.split)

lemma commit_no_conflict_error: "commit_acquire sid owner ttl ov al h p st \<noteq> Inl AdmissionConflict"
proof -
  have d: "fold_err insert_deployment xs s \<noteq> Inl AdmissionConflict" for xs s
    by (rule fold_err_no) (simp add: insert_deployment_def)
  have cl: "fold_err insert_claim xs s \<noteq> Inl AdmissionConflict" for xs s
    by (rule fold_err_no) (simp add: insert_claim_def)
  show ?thesis
    using d cl by (auto simp: commit_acquire_def bind_err_def insert_lease_def Let_def split: sum.split)
qed

text \<open>Under the lock the admission version cannot move between the preview and the commit.\<close>

lemma commit_no_conflict:
  "triple (\<lambda>c. ov_state_version ov = admission_state_version (ct_store c))
     (commit_admitted B sha new_id sid owner reqs ttl apply candidate ov ad) (\<lambda>a _. a \<noteq> PreviewAgain) (\<lambda>_. True)"
  unfolding commit_admitted_def
proof (rule triple_bind)
  show "triple (\<lambda>c. ov_state_version ov = admission_state_version (ct_store c)) (mark_pending B apply)
      (\<lambda>_ c. ov_state_version ov = admission_state_version (ct_store c)) (\<lambda>_. True)"
    by (rule triple_conseq[OF triple_store[OF mark_keeps_version[of "ov_state_version ov"]]]) simp_all
  fix x :: marker
  show "triple (\<lambda>c. ov_state_version ov = admission_state_version (ct_store c)) (\<lambda>c.
       case acquire sha new_id (ct_now c) sid owner reqs ttl (Some ov) (ad_allocations ad)
              (if apply then ad_digest ad else None) candidate (ct_store c) of
         Inl AdmissionConflict \<Rightarrow> (Inr PreviewAgain, c)
       | Inl e \<Rightarrow> act_bind (restore_if B candidate (profile (ct_store c))) (\<lambda>_. act_raise (LedgerRaised e)) c
       | Inr (st, le, ds) \<Rightarrow>
           publish_acquired B sid apply le ds
             (c\<lparr>ct_store := st, ct_profile := (if candidate = None then ct_profile c else candidate),
               ct_profile_error := (candidate = None \<and> ct_profile_error c)\<rparr>))
     (\<lambda>a _. a \<noteq> PreviewAgain) (\<lambda>_. True)" (is "triple _ ?m ?Q _")
    unfolding triple_def
  proof (intro allI impI)
    fix c :: "'a ctl"
    assume c: "ov_state_version ov = admission_state_version (ct_store c)"
    let ?acq = "acquire sha new_id (ct_now c) sid owner reqs ttl (Some ov) (ad_allocations ad)
              (if apply then ad_digest ad else None) candidate (ct_store c)"
    have raised: "case act_bind (restore_if B candidate p) (\<lambda>_. act_raise e) c of
        (Inl e, c') \<Rightarrow> True | (Inr x, c') \<Rightarrow> ?Q x c'" for p and e :: "'b ctl_error"
      by (auto simp: act_bind_def act_raise_def split: prod.split sum.split)
    show "case ?m c of (Inl e, c') \<Rightarrow> True | (Inr x, c') \<Rightarrow> ?Q x c'"
    proof (cases ?acq)
      case (Inl e)
      have "e \<noteq> AdmissionConflict"
      proof
        assume "e = AdmissionConflict"
        then have "commit_acquire sid owner ttl ov (ad_allocations ad) (if apply then ad_digest ad else None) candidate
            (ct_store c) = Inl AdmissionConflict"
          using Inl c by (auto simp: acquire_def bind_err_def split: sum.splits option.splits)
        then show False by (simp add: commit_no_conflict_error)
      qed
      then show ?thesis using raised Inl by (cases e) simp_all
    next
      case (Inr r)
      obtain st le ds where r: "r = (st, le, ds)" by (cases r)
      from publish_acquired_result[of "\<lambda>_. True" B sid "apply" le ds, unfolded triple_def, rule_format, OF TrueI]
      show ?thesis using Inr r by simp
    qed
  qed
qed

lemma attempt_no_conflict: "acquire_attempt B sha new_id sid owner reqs ttl apply c \<noteq> (Inr PreviewAgain, c')"
proof -
  have "triple (\<lambda>_. True) (acquire_attempt B sha new_id sid owner reqs ttl apply) (\<lambda>a _. a \<noteq> PreviewAgain) (\<lambda>_. True)"
    unfolding acquire_attempt_def
    apply (rule triple_bind[OF triple_any])
    apply (rule triple_bind[OF triple_any])
    apply (rule triple_bind[OF triple_any])
    apply (rule triple_bind[OF triple_any])
    apply (rule triple_bind[OF triple_any])
    apply (rule triple_bind[OF triple_any])
    apply (rule triple_bind[where R = "\<lambda>(ov, ad) c. ov_state_version ov = admission_state_version (ct_store c)"])
     apply (rule triple_catch[OF preview_version], rule triple_bind[OF triple_any], simp add: triple_def act_raise_def)
    apply (simp add: split_beta)
    apply (rule conjI; intro impI)
     apply (rule commit_no_conflict)
    apply (rule triple_bind[OF triple_any])
    apply (simp add: triple_def act_ret_def)
    done
  then show ?thesis using tripleD[of "\<lambda>_. True" _ "\<lambda>a _. a \<noteq> PreviewAgain"] by fastforce
qed

lemma calm_transactions [calm_intros]:
  "calm (rollback_acquire B sid apply)" "calm (evict B ids)"
  unfolding rollback_acquire_def evict_def by (intro calm_intros)+

lemma calm_publish_acquired: "calm (publish_acquired B sid apply le ds)"
  unfolding publish_acquired_def render_failed_def rolled_back_def apply_admitted_def Let_def by (intro calm_intros)

lemma calm_restore [calm_intros]: "calm (restore_if B candidate stored)"
  by (simp add: calm_def restore_if_def restore_stored_profile_def act_ret_def split: option.split)

lemma calm_commit: "calm (commit_admitted B sha new_id sid owner reqs ttl apply candidate ov ad)"
  unfolding commit_admitted_def
proof (rule calm_bind[OF calm_publish(2)])
  fix x :: marker
  show "calm (\<lambda>c. case acquire sha new_id (ct_now c) sid owner reqs ttl (Some ov) (ad_allocations ad)
              (if apply then ad_digest ad else None) candidate (ct_store c) of
         Inl AdmissionConflict \<Rightarrow> (Inr PreviewAgain, c)
       | Inl e \<Rightarrow> act_bind (restore_if B candidate (profile (ct_store c))) (\<lambda>_. act_raise (LedgerRaised e)) c
       | Inr (st, le, ds) \<Rightarrow>
           publish_acquired B sid apply le ds
             (c\<lparr>ct_store := st, ct_profile := (if candidate = None then ct_profile c else candidate),
               ct_profile_error := (candidate = None \<and> ct_profile_error c)\<rparr>))" (is "calm ?m")
    unfolding calm_def
  proof
    fix c :: "'a ctl"
    have raised: "ct_now c \<le> ct_now (snd (m c)) \<and> (ct_profile_error (snd (m c)) \<longrightarrow> ct_profile_error c)"
      if "m = act_bind (restore_if B candidate p) (\<lambda>_. act_raise e)" for m :: "('a, 'b, attempt) act" and p e
    proof -
      have "calm m" unfolding that by (intro calm_intros)
      then show ?thesis unfolding calm_def by blast
    qed
    have pub: "ct_now c' \<le> ct_now (snd (publish_acquired B sid apply le ds c'))
        \<and> (ct_profile_error (snd (publish_acquired B sid apply le ds c')) \<longrightarrow> ct_profile_error c')" for c' le ds
      using calm_publish_acquired[of B sid "apply" le ds] unfolding calm_def by blast
    let ?acq = "acquire sha new_id (ct_now c) sid owner reqs ttl (Some ov) (ad_allocations ad)
              (if apply then ad_digest ad else None) candidate (ct_store c)"
    show "ct_now c \<le> ct_now (snd (?m c)) \<and> (ct_profile_error (snd (?m c)) \<longrightarrow> ct_profile_error c)"
    proof (cases ?acq)
      case (Inl e)
      then show ?thesis using raised[OF refl] by (cases e) simp_all
    next
      case (Inr r)
      obtain st le ds where r: "r = (st, le, ds)" by (cases r)
      let ?c = "c\<lparr>ct_store := st, ct_profile := (if candidate = None then ct_profile c else candidate),
               ct_profile_error := (candidate = None \<and> ct_profile_error c)\<rparr>"
      have eq: "?m c = publish_acquired B sid apply le ds ?c" by (simp add: Inr r)
      have "ct_now ?c = ct_now c" and err: "ct_profile_error ?c \<Longrightarrow> ct_profile_error c" by simp_all
      then show ?thesis using pub[of ?c le ds] err unfolding eq by metis
    qed
  qed
qed

lemma calm_attempt: "calm (acquire_attempt B sha new_id sid owner reqs ttl apply)"
  unfolding acquire_attempt_def maintenance_sweep_def try_residency_def preview_candidate_def admit_def prepare_network_def
    profile_candidate_def
  apply (intro calm_intros calm_commit)
  apply (simp add: calm_def)
  done

lemma calm_room: "calm (room_step B blocked last_room)"
proof -
  have "calm (case xs of [] \<Rightarrow> act_ret None | d # _ \<Rightarrow> act_bind (evict B (Some [dep_id d])) (\<lambda>_. act_ret (Some (dep_id d))))" for xs
    by (simp add: calm_intros split: list.split)
  then show ?thesis unfolding room_step_def make_room_def by (intro calm_intros)
qed

lemma wait_loop_ends:
  assumes "0 < interval" and "deadline - ct_now c \<le> of_nat n * interval"
  shows "\<exists>y. wait_loop B others interval deadline last_room pairs c = Some y"
  using assms(2)
proof (induction n arbitrary: last_room pairs c)
  case 0
  then show ?case by (subst wait_loop.simps) (auto split: sum.split)
next
  case (Suc n)
  have "\<exists>y. wait_loop B others interval deadline t ps (sleep_for others interval c1) = Some y"
    if "room_step B bs last_room c = (Inr t, c1)" for bs t ps c1
  proof (rule Suc.IH)
    have "ct_now c \<le> ct_now c1" using calm_room[of B bs last_room] that unfolding calm_def by (metis snd_conv)
    then show "deadline - ct_now (sleep_for others interval c1) \<le> of_nat n * interval"
      using Suc.prems by (simp add: sleep_kept(3) algebra_simps)
  qed
  then show ?case by (subst wait_loop.simps) (auto split: sum.split prod.split)
qed

lemma queue_loop_ends:
  assumes "0 < interval" and "deadline - ct_now c \<le> of_nat n * interval"
  shows "\<exists>y. queue_loop B others sha new_ids sids owner reqs ttl apply queue interval deadline checked k c = Some y"
  using assms(2)
proof (induction n arbitrary: checked k c)
  case 0
  obtain w c1 where a: "acquire_attempt B sha (new_ids k) (sids k) owner reqs ttl apply c = (w, c1)" by fastforce
  have "ct_now c \<le> ct_now c1" using calm_attempt[of B sha "new_ids k" "sids k" owner reqs ttl "apply"] a
    unfolding calm_def by (metis snd_conv)
  then have late: "deadline < ct_now c1 + interval" using 0 assms(1) by simp
  show ?case
    using attempt_no_conflict[of B sha "new_ids k" "sids k" owner reqs ttl "apply" c c1] late
    by (subst queue_loop.simps)
       (auto simp: a give_up_def Let_def split: sum.split attempt.split option.split)
next
  case (Suc n)
  obtain w c1 where a: "acquire_attempt B sha (new_ids k) (sids k) owner reqs ttl apply c = (w, c1)" by fastforce
  have "ct_now c \<le> ct_now c1" using calm_attempt[of B sha "new_ids k" "sids k" owner reqs ttl "apply"] a
    unfolding calm_def by (metis snd_conv)
  then have "deadline - ct_now (sleep_for others interval c1) \<le> of_nat n * interval"
    using Suc.prems by (simp add: sleep_kept(3) algebra_simps)
  note IH = Suc.IH[OF this]
  show ?case
    using attempt_no_conflict[of B sha "new_ids k" "sids k" owner reqs ttl "apply" c c1] IH
    by (subst queue_loop.simps) (auto simp: a split: sum.split attempt.split option.split)
qed

lemma enough_intervals: "0 < interval \<Longrightarrow> \<exists>n. (x :: rat) \<le> of_nat n * interval"
  using ex_less_of_nat_mult[of interval x] by (auto intro: less_imp_le)

lemma acquire_returns:
  assumes "0 < interval" and "\<forall>i. queue_interval = Some i \<longrightarrow> 0 < i"
  shows "\<exists>v c'. acquire_lease B others sha new_ids sids owner reqs ttl wait timeout interval apply queue
    queue_timeout queue_interval c = Some (v, c')"
proof -
  let ?i = "case queue_interval of Some i \<Rightarrow> i | None \<Rightarrow> interval"
  let ?t = "ct_now c + (case queue_timeout of Some t \<Rightarrow> t | None \<Rightarrow> timeout)"
  have i: "0 < ?i" using assms by (cases queue_interval) auto
  obtain n where "?t - ct_now c \<le> of_nat n * ?i" using enough_intervals[OF i] by blast
  from queue_loop_ends[OF i this] obtain w c1 where
    q: "queue_loop B others sha new_ids sids owner reqs ttl apply (queue \<and> apply) ?i ?t False 0 c = Some (w, c1)" by fastforce
  have wt: "\<exists>u c2. wait_ready B others ds eps timeout interval c1 = Some (u, c2)" for ds eps
  proof -
    obtain n where "ct_now c1 + timeout - ct_now c1 \<le> of_nat n * interval" using enough_intervals[OF assms(1)] by blast
    from wait_loop_ends[OF assms(1) this] show ?thesis unfolding wait_ready_def by fast
  qed
  show ?thesis
  proof (cases w)
    case (Inr got)
    obtain le ds rec where g: "got = (le, ds, rec)" by (cases got)
    obtain u c2 where "wait_ready B others (List.map_filter (\<lambda>d. get_deployment (ct_store c1) (dep_id d) (Some (ct_now c1))) ds)
        (Some (lease_endpoints le)) timeout interval c1 = Some (u, c2)" using wt by blast
    then show ?thesis using q Inr g
      by (simp add: acquire_lease_def finish_acquire_def Let_def split: sum.split)
  qed (use q in \<open>simp add: acquire_lease_def\<close>)
qed

text \<open>
  C10. An acquire ends. If the polling intervals are positive, every acquire returns or raises, whatever
  the backend answers and whatever other processes do meanwhile: under the lock no attempt finds that
  the ledger moved since its preview, a refused attempt sleeps towards the placement deadline, and the
  wait for readiness, with the evictions it makes, sleeps towards its own.
\<close>

theorem acquire_ends:
  assumes "0 < interval" and "\<forall>i. queue_interval = Some i \<longrightarrow> 0 < i"
  shows "\<exists>v c'. acquire_lease B others sha new_ids sids owner reqs ttl wait timeout interval apply queue
    queue_timeout queue_interval c = Some (v, c')"
  by (rule acquire_returns[OF assms])

section \<open>A concrete acquire\<close>

definition demo_idle_host :: "rat \<Rightarrow> nat ctl \<Rightarrow> nat ctl" where
  "demo_idle_host dt c = c"


definition demo_acquire :: "((string ctl_error + acquire_outcome) \<times> nat ctl) option" where
  "demo_acquire = acquire_lease demo_serving demo_idle_host demo_sha (\<lambda>k. demo_id CHR ''h'') (\<lambda>k. ''B'') ''o''
     [demo_request ''n''] None True 2 1 True False None None (demo_ctl empty_store)"

lemma demo_leaves_alone: "leaves_alone demo_idle_host"
  by (simp add: leaves_alone_def demo_idle_host_def)


theorem acquire_ends_witness: "demo_acquire \<noteq> None"
proof -
  have i: "(0::rat) < 1" "\<forall>i. None = Some i \<longrightarrow> (0::rat) < i" by simp_all
  show ?thesis using acquire_ends[OF i] unfolding demo_acquire_def by force
qed

end
