(* ===== verification/EnvFile.thy ===== *)
theory EnvFile
  imports
  PyJson
  Models
begin

text \<open>
  Names (\<open>leasing/naming.py\<close>) and the file a lease hands to a job (\<open>leasing/envfile.py\<close>): the
  descriptor, its environment, the text of the file, and reading the lease id back from it.

  A string is a sequence of code points below 256; \<open>repr\<close> is Python's text of a list or a dictionary.
\<close>

section \<open>Slugs\<close>

text \<open>\<open>re.sub(r'[^...]+', sep, s)\<close>, and \<open>s.strip(c)\<close>.\<close>

function squeeze :: "(char \<Rightarrow> bool) \<Rightarrow> char \<Rightarrow> string \<Rightarrow> string" where
  "squeeze keep sep [] = []"
| "squeeze keep sep (c # s) =
     (if keep c then c # squeeze keep sep s else sep # squeeze keep sep (dropWhile (\<lambda>d. \<not> keep d) s))"
  by pat_completeness auto
termination squeeze
  by (relation "measure (\<lambda>(keep, sep, s). length s)") (auto simp: less_Suc_eq_le length_dropWhile_le)

definition strip_char :: "char \<Rightarrow> string \<Rightarrow> string" where
  "strip_char c s = rev (dropWhile ((=) c) (rev (dropWhile ((=) c) s)))"

definition is_lower_alnum :: "char \<Rightarrow> bool" where
  "is_lower_alnum c = (let n = (of_char c :: nat) in 97 \<le> n \<and> n \<le> 122 \<or> 48 \<le> n \<and> n \<le> 57)"

definition is_upper_alnum :: "char \<Rightarrow> bool" where
  "is_upper_alnum c = (let n = (of_char c :: nat) in 65 \<le> n \<and> n \<le> 90 \<or> 48 \<le> n \<and> n \<le> 57)"

definition dns_slug :: "string \<Rightarrow> string" where
  "dns_slug text = (case strip_char (CHR ''-'') (squeeze is_lower_alnum (CHR ''-'') (py_lower text)) of
     [] \<Rightarrow> ''model'' | out \<Rightarrow> out)"

definition vllm_service_name_for :: "string \<Rightarrow> string" where
  "vllm_service_name_for served = ''vllm-'' @ dns_slug served"

text \<open>\<open>s.rsplit('-', 1)[-1]\<close>: after the last dash.\<close>

definition after_last_dash :: "string \<Rightarrow> string" where
  "after_last_dash s = last (split_on (CHR ''-'') s)"

definition deployment_tail :: "string \<Rightarrow> string" where
  "deployment_tail did = (let t = take 8 (after_last_dash did) in dns_slug (if t = [] then ''x'' else t))"

definition unique_vllm_service_name :: "string \<Rightarrow> string \<Rightarrow> string" where
  "unique_vllm_service_name served did = vllm_service_name_for served @ ''-'' @ deployment_tail did"

definition vllm_service_name :: "deployment \<Rightarrow> bool \<Rightarrow> string" where
  "vllm_service_name d unique =
     (if unique then unique_vllm_service_name (served_name d) (dep_id d) else vllm_service_name_for (served_name d))"

definition ollama_service_name_for :: "string \<Rightarrow> string" where
  "ollama_service_name_for host = ''ollama-'' @ dns_slug host"

definition ollama_service_name :: "deployment \<Rightarrow> string" where
  "ollama_service_name d = ollama_service_name_for (case sp_host (dep_spec d) of
     Some h \<Rightarrow> if h = [] then dep_id d else h | None \<Rightarrow> dep_id d)"

section \<open>The descriptor\<close>

definition LEASE_ENV :: string where "LEASE_ENV = ''INFER_STACK_LEASE_ID''"

definition request_model_name :: "json \<Rightarrow> string \<Rightarrow> py_error + json" where
  "request_model_name payload endpoint =
     bind_err (py_get ''served_model_name'' payload) (\<lambda>a.
     bind_err (py_get ''model'' payload) (\<lambda>b. Inr (py_or a (py_or b (JStr endpoint)))))"

text \<open>\<open>s.upper()\<close>; two code points become letters the slug keeps.\<close>

definition upper_chars :: "char \<Rightarrow> string" where
  "upper_chars c = (let n = (of_char c :: nat) in
     if 97 \<le> n \<and> n \<le> 122 \<or> 224 \<le> n \<and> n \<le> 254 \<and> n \<noteq> 247 then [char_of (n - 32)]
     else if n = 223 then ''SS'' else [c])"

definition endpoint_var :: "string \<Rightarrow> string" where
  "endpoint_var endpoint = ''INFER_STACK_ENDPOINT_'' @
     strip_char (CHR ''_'') (squeeze is_upper_alnum (CHR ''_'') (concat (map upper_chars endpoint)))"

record descriptor =
  ds_lease_id :: "string option"
  ds_base_url :: "string option"
  ds_api_key_env :: "string option"
  ds_endpoints :: "(string, json) dict"
  ds_api_key :: "string option"
  ds_cuda :: "string option"

definition name_for :: "(string, string) dict \<Rightarrow> string \<times> json \<Rightarrow> (string, json) dict \<Rightarrow> py_error + (string, json) dict" where
  "name_for request_names ep names = (case ep of (endpoint, payload) \<Rightarrow>
     case dget request_names endpoint of
       Some n \<Rightarrow> Inr (dput endpoint (JStr n) names)
     | None \<Rightarrow> bind_err (request_model_name payload endpoint) (\<lambda>n. Inr (dput endpoint n names)))"

definition request_names_of :: "string list \<Rightarrow> deployment list \<Rightarrow> (string, string) dict \<Rightarrow> py_error + (string, json) dict" where
  "request_names_of wanted deployments request_names =
     bind_err (fold_err (name_for request_names)
        (filter (\<lambda>(e, p). e \<in> set wanted) (concat (map dep_served deployments))) []) (\<lambda>names.
       Inr (fold (\<lambda>e names. if e \<in> set (dkeys names) then names else
          (case dget request_names e of None \<Rightarrow> names | Some n \<Rightarrow> dput e (JStr n) names)) wanted names))"

definition build_descriptor ::
    "lease option \<Rightarrow> deployment list \<Rightarrow> string option \<Rightarrow> string option \<Rightarrow> string option \<Rightarrow> (string, string) dict
     \<Rightarrow> string option \<Rightarrow> string list option \<Rightarrow> py_error + descriptor" where
  "build_descriptor le deployments base_url api_key_env api_key request_names cuda endpoints =
     (let wanted = (case endpoints of Some es \<Rightarrow> es | None \<Rightarrow> (case le of Some l \<Rightarrow> lease_endpoints l | None \<Rightarrow> []))
      in bind_err (request_names_of wanted deployments request_names) (\<lambda>names.
         Inr \<lparr>ds_lease_id = map_option lease_id le, ds_base_url = base_url, ds_api_key_env = api_key_env,
           ds_endpoints = fold (\<lambda>e acc. case dget names e of None \<Rightarrow> acc | Some n \<Rightarrow> dput e n acc) wanted [],
           ds_api_key = (case api_key of Some k \<Rightarrow> if k = [] then None else Some k | None \<Rightarrow> None),
           ds_cuda = cuda\<rparr>))"

section \<open>The environment\<close>

definition put_if :: "string \<Rightarrow> string option \<Rightarrow> (string, json) dict \<Rightarrow> (string, json) dict" where
  "put_if k v env = (case v of Some s \<Rightarrow> if s = [] then env else dput k (JStr s) env | None \<Rightarrow> env)"

text \<open>\<open>','.join(models)\<close> raises on a name that is no string.\<close>

definition join_models :: "json list \<Rightarrow> py_error + string" where
  "join_models ms = bind_err (map_err (\<lambda>m. case m of JStr s \<Rightarrow> Inr s | _ \<Rightarrow> Inl TypeError) ms)
     (\<lambda>ss. Inr (join '','' ss))"

definition descriptor_env :: "descriptor \<Rightarrow> py_error + (string, json) dict" where
  "descriptor_env d =
     (let env = put_if LEASE_ENV (ds_lease_id d) [];
          env = put_if ''OPENAI_BASE_URL'' (ds_base_url d) env;
          env = put_if ''OPENAI_API_KEY'' (ds_api_key d) env;
          env = put_if ''INFER_STACK_API_KEY_ENV'' (ds_api_key_env d) env;
          env = fold (\<lambda>(e, m) env. dput (endpoint_var e) m env) (ds_endpoints d) env
      in bind_err (if ds_endpoints d = [] then Inr env
                   else bind_err (join_models (dvals (ds_endpoints d))) (\<lambda>ms.
                     Inr (dput ''INFER_STACK_MODELS'' (JStr ms) env))) (\<lambda>env.
         Inr (case ds_cuda d of None \<Rightarrow> env | Some v \<Rightarrow> dput ''CUDA_VISIBLE_DEVICES'' (JStr v) env)))"

definition newline :: string where "newline = [CHR 0x0A]"

definition env_line :: "(json \<Rightarrow> string) \<Rightarrow> string \<times> json \<Rightarrow> string" where
  "env_line repr kv = ''export '' @ fst kv @ ''='' @ py_str repr (snd kv)"

definition render_env_file :: "(json \<Rightarrow> string) \<Rightarrow> (string, json) dict \<Rightarrow> string" where
  "render_env_file repr env = concat (map (\<lambda>kv. env_line repr kv @ newline) env)"

section \<open>Reading the lease id back\<close>

text \<open>\<open>s.splitlines()\<close>.\<close>

definition is_break :: "char \<Rightarrow> bool" where
  "is_break c \<longleftrightarrow> (of_char c :: nat) \<in> {10, 11, 12, 13, 28, 29, 30, 133}"

definition after_break :: "string \<Rightarrow> string" where
  "after_break s = (case s of c # d # r \<Rightarrow> if c = CHR 0x0D \<and> d = CHR 0x0A then r else d # r | _ \<Rightarrow> tl s)"

lemma after_break_length: "s \<noteq> [] \<Longrightarrow> length (after_break s) < length s"
  by (cases s rule: remdups_adj.cases) (auto simp: after_break_def)

lemma after_break_dropWhile: "dropWhile P s \<noteq> [] \<Longrightarrow> length (after_break (dropWhile P s)) < length s"
  using after_break_length[of "dropWhile P s"] length_dropWhile_le[of P s] by simp

function splitlines :: "string \<Rightarrow> string list" where
  "splitlines s = (if s = [] then []
     else let rest = dropWhile (\<lambda>c. \<not> is_break c) s
          in takeWhile (\<lambda>c. \<not> is_break c) s # (if rest = [] then [] else splitlines (after_break rest)))"
  by pat_completeness auto
termination splitlines
  by (relation "measure length") (auto simp: after_break_dropWhile)

declare splitlines.simps [simp del]

definition clean_value :: "string \<Rightarrow> string" where
  "clean_value s = strip_char (CHR 0x27) (strip_char (CHR 0x22) (py_strip s))"

definition line_lease_id :: "string \<Rightarrow> string option" where
  "line_lease_id l =
     (let line = py_strip l; p = ''export '' @ LEASE_ENV @ ''=''
      in if is_prefix p line then Some (clean_value (drop (length p) line))
         else if is_prefix (LEASE_ENV @ ''='') line then Some (clean_value (tl (dropWhile ((\<noteq>) (CHR ''='')) line)))
         else None)"

fun first_lease_id :: "string list \<Rightarrow> string option" where
  "first_lease_id [] = None"
| "first_lease_id (l # ls) = (case line_lease_id l of Some i \<Rightarrow> Some i | None \<Rightarrow> first_lease_id ls)"

definition read_lease_id :: "string \<Rightarrow> string option" where
  "read_lease_id text = first_lease_id (splitlines text)"

section \<open>Labels\<close>

lemma squeeze_set: "set (squeeze keep sep s) \<subseteq> {c. keep c} \<union> {sep}"
  by (induction keep sep s rule: squeeze.induct) auto

lemma strip_char_set: "set (strip_char c s) \<subseteq> set s"
  unfolding strip_char_def by (metis set_rev set_dropWhileD subsetI)

lemma strip_char_hd: "strip_char c s \<noteq> [] \<Longrightarrow> hd (strip_char c s) \<noteq> c \<and> last (strip_char c s) \<noteq> c"
proof -
  let ?t = "dropWhile ((=) c) s"
  let ?u = "dropWhile ((=) c) (rev ?t)"
  assume ne: "strip_char c s \<noteq> []"
  then have u: "?u \<noteq> []" by (simp add: strip_char_def)
  have l: "last (strip_char c s) \<noteq> c" using u hd_dropWhile[of "(=) c" "rev ?t"] by (simp add: strip_char_def last_rev)
  have t: "?t \<noteq> []" using u by (metis dropWhile.simps(1) rev.simps(1))
  obtain p where p: "rev ?t = p @ ?u" by (metis takeWhile_dropWhile_id)
  then have "?t = rev ?u @ rev p" by (metis rev_append rev_rev_ident)
  then have "hd ?t = hd (rev ?u)" using u by (metis hd_append2 rev_is_Nil_conv)
  then have "hd (strip_char c s) \<noteq> c" using hd_dropWhile[of "(=) c" s] t by (simp add: strip_char_def)
  then show ?thesis using l by simp
qed

text \<open>A DNS label: lower-case letters, digits and inner dashes, and not empty.\<close>

definition dns_label :: "string \<Rightarrow> bool" where
  "dns_label s \<longleftrightarrow> s \<noteq> [] \<and> list_all (\<lambda>c. is_lower_alnum c \<or> c = CHR ''-'') s
     \<and> hd s \<noteq> CHR ''-'' \<and> last s \<noteq> CHR ''-''"

lemma dns_label_slug: "dns_label (dns_slug text)"
proof (cases "strip_char (CHR ''-'') (squeeze is_lower_alnum (CHR ''-'') (py_lower text))")
  case Nil
  then show ?thesis by (simp add: dns_slug_def dns_label_def is_lower_alnum_def)
next
  case (Cons c out)
  let ?s = "strip_char (CHR ''-'') (squeeze is_lower_alnum (CHR ''-'') (py_lower text))"
  have "set ?s \<subseteq> {c. is_lower_alnum c} \<union> {CHR ''-''}" using strip_char_set squeeze_set by fast
  moreover have "hd ?s \<noteq> CHR ''-'' \<and> last ?s \<noteq> CHR ''-''" by (rule strip_char_hd) (simp add: Cons)
  ultimately show ?thesis using Cons by (auto simp: dns_slug_def dns_label_def list_all_iff)
qed

lemma dns_label_append: "dns_label a \<Longrightarrow> dns_label b \<Longrightarrow> dns_label (a @ ''-'' @ b)"
  by (auto simp: dns_label_def hd_append)


section \<open>The lease id of an environment file\<close>

lemma splitlines_unfold:
  "splitlines s = (if s = [] then [] else takeWhile (\<lambda>c. \<not> is_break c) s #
     (if dropWhile (\<lambda>c. \<not> is_break c) s = [] then [] else splitlines (after_break (dropWhile (\<lambda>c. \<not> is_break c) s))))"
  by (subst splitlines.simps) (simp add: Let_def)

lemma splitlines_line:
  assumes "list_all (\<lambda>c. \<not> is_break c) l" and "l \<noteq> []"
  shows "splitlines (l @ CHR 0x0A # rest) = l # splitlines rest"
proof -
  have b: "is_break (CHR 0x0A)" by (simp add: is_break_def)
  have t: "takeWhile (\<lambda>c. \<not> is_break c) (l @ CHR 0x0A # rest) = l"
    "dropWhile (\<lambda>c. \<not> is_break c) (l @ CHR 0x0A # rest) = CHR 0x0A # rest"
    using assms(1) b by (auto simp: takeWhile_append dropWhile_append list_all_iff)
  have "after_break (CHR 0x0A # rest) = rest" by (cases rest) (simp_all add: after_break_def)
  then show ?thesis using assms(2) t by (subst splitlines_unfold) simp
qed

lemma splitlines_env:
  "list_all (\<lambda>kv. list_all (\<lambda>c. \<not> is_break c) (env_line repr kv)) env \<Longrightarrow>
   splitlines (render_env_file repr env) = map (env_line repr) env"
proof (induction env)
  case Nil
  then show ?case by (simp add: render_env_file_def splitlines_unfold)
next
  case (Cons kv env)
  have "env_line repr kv \<noteq> []" by (simp add: env_line_def)
  then show ?case using Cons splitlines_line[of "env_line repr kv" "render_env_file repr env"]
    by (simp add: render_env_file_def newline_def)
qed


lemma is_prefix_append: "is_prefix p a \<Longrightarrow> is_prefix p (a @ t)"
  by (induction p a rule: is_prefix.induct) auto

lemma is_prefix_self: "is_prefix p (p @ t)"
  by (induction p) auto

lemma py_strip_prefix: "\<not> py_space c \<Longrightarrow> \<exists>t. c # r = py_strip (c # r) @ t"
proof -
  assume c: "\<not> py_space c"
  have "rev (c # r) = takeWhile py_space (rev (c # r)) @ dropWhile py_space (rev (c # r))" by simp
  then have "c # r = rev (dropWhile py_space (rev (c # r))) @ rev (takeWhile py_space (rev (c # r)))"
    by (metis rev_append rev_rev_ident)
  moreover have "py_strip (c # r) = rev (dropWhile py_space (rev (c # r)))" using c by (simp add: py_strip_def)
  ultimately show ?thesis by metis
qed

lemma py_strip_same: "s \<noteq> [] \<Longrightarrow> \<not> py_space (hd s) \<Longrightarrow> \<not> py_space (last s) \<Longrightarrow> py_strip s = s"
proof -
  assume s: "s \<noteq> []" "\<not> py_space (hd s)" "\<not> py_space (last s)"
  then have "dropWhile py_space s = s" by (cases s) auto
  moreover have "dropWhile py_space (rev s) = rev s" using s(1,3) by (cases s rule: rev_cases) auto
  ultimately show ?thesis by (simp add: py_strip_def)
qed

lemma strip_char_same: "s \<noteq> [] \<Longrightarrow> hd s \<noteq> c \<Longrightarrow> last s \<noteq> c \<Longrightarrow> strip_char c s = s"
proof -
  assume s: "s \<noteq> []" "hd s \<noteq> c" "last s \<noteq> c"
  then have "dropWhile ((=) c) s = s" by (cases s) auto
  moreover have "dropWhile ((=) c) (rev s) = rev s" using s(1,3) by (cases s rule: rev_cases) auto
  ultimately show ?thesis by (simp add: strip_char_def)
qed

definition plain_id :: "string \<Rightarrow> bool" where
  "plain_id s \<longleftrightarrow> s \<noteq> [] \<and> list_all (\<lambda>c. \<not> py_space c \<and> c \<noteq> CHR 0x22 \<and> c \<noteq> CHR 0x27) s"

lemma lease_line: "plain_id i \<Longrightarrow> line_lease_id (env_line repr (LEASE_ENV, JStr i)) = Some i"
proof -
  assume i: "plain_id i"
  then have l: "last i \<in> set i" "hd i \<in> set i" by (auto simp: plain_id_def)
  then have ends: "\<not> py_space (last i)" "last i \<noteq> CHR 0x22" "last i \<noteq> CHR 0x27" "\<not> py_space (hd i)" "hd i \<noteq> CHR 0x22" "hd i \<noteq> CHR 0x27"
    and ne: "i \<noteq> []" using i by (auto simp: plain_id_def list_all_iff)
  have e: "\<not> py_space (CHR ''e'')" by (simp add: py_space_def)
  have line: "env_line repr (LEASE_ENV, JStr i) = (''export '' @ LEASE_ENV @ ''='') @ i" by (simp add: env_line_def py_str_def)
  have "py_strip ((''export '' @ LEASE_ENV @ ''='') @ i) = (''export '' @ LEASE_ENV @ ''='') @ i"
    by (rule py_strip_same) (use ends ne e in auto)
  moreover have "clean_value i = i"
    using py_strip_same[OF ne ends(4,1)] strip_char_same[OF ne ends(5,2)] strip_char_same[OF ne ends(6,3)] by (simp add: clean_value_def)
  ultimately show ?thesis
    unfolding line_lease_id_def Let_def line by (simp only: is_prefix_self append_eq_conv_conj if_True) simp
qed

text \<open>The other variables the file sets.\<close>

definition other_key :: "string \<Rightarrow> bool" where
  "other_key k \<longleftrightarrow> k \<in> {''OPENAI_BASE_URL'', ''OPENAI_API_KEY'', ''INFER_STACK_API_KEY_ENV'', ''INFER_STACK_MODELS'',
     ''CUDA_VISIBLE_DEVICES''} \<or> (\<exists>s. k = ''INFER_STACK_ENDPOINT_'' @ s)"

lemma other_line: "other_key k \<Longrightarrow> line_lease_id (env_line repr (k, v)) = None"
proof -
  assume k: "other_key k"
  let ?l = "env_line repr (k, v)"
  have np: "\<not> is_prefix (''export '' @ LEASE_ENV @ ''='') ?l" "\<not> is_prefix (LEASE_ENV @ ''='') ?l"
    using k by (auto simp: other_key_def env_line_def LEASE_ENV_def)
  have "?l = CHR ''e'' # tl ?l" by (simp add: env_line_def)
  moreover have "\<not> py_space (CHR ''e'')" by (simp add: py_space_def)
  ultimately obtain t where "?l = py_strip ?l @ t" using py_strip_prefix by metis
  then have "\<not> is_prefix (''export '' @ LEASE_ENV @ ''='') (py_strip ?l)" "\<not> is_prefix (LEASE_ENV @ ''='') (py_strip ?l)"
    using np is_prefix_append by metis+
  then show ?thesis by (simp add: line_lease_id_def Let_def)
qed

lemma first_lease_id_env:
  assumes "\<And>k v. (k, v) \<in> set env \<Longrightarrow> k \<noteq> LEASE_ENV \<Longrightarrow> other_key k"
    and "dget env LEASE_ENV = map_option JStr i" and "\<And>s. i = Some s \<Longrightarrow> plain_id s"
  shows "first_lease_id (map (env_line repr) env) = i"
  using assms
proof (induction env)
  case (Cons kv env)
  obtain k v where kv: "kv = (k, v)" by (cases kv)
  show ?case
  proof (cases "k = LEASE_ENV")
    case True
    then obtain s where "i = Some s" "v = JStr s" using Cons.prems(2) kv by (cases i) (auto simp: dget_def)
    then show ?thesis using Cons.prems(3) True kv lease_line by simp
  next
    case False
    then have "line_lease_id (env_line repr kv) = None" using Cons.prems(1)[of k v] kv other_line by simp
    moreover have "first_lease_id (map (env_line repr) env) = i"
      by (rule Cons.IH) (use Cons.prems False kv in \<open>auto simp: dget_def\<close>)
    ultimately show ?thesis by simp
  qed
qed (auto simp: dget_def)

lemma other_key_var: "other_key (endpoint_var e)"
  by (simp add: other_key_def endpoint_var_def)

lemma other_key_lease: "\<not> other_key LEASE_ENV"
  by (simp add: other_key_def LEASE_ENV_def)

text \<open>An environment whose lease id is \<open>i\<close>, and whose other variables are the known ones.\<close>

definition env_of :: "string option \<Rightarrow> (string, json) dict \<Rightarrow> bool" where
  "env_of i env \<longleftrightarrow> dget env LEASE_ENV = map_option JStr i \<and> (\<forall>k \<in> set (dkeys env). k = LEASE_ENV \<or> other_key k)"

lemma env_of_dput: "env_of i env \<Longrightarrow> other_key k \<Longrightarrow> env_of i (dput k v env)"
  using other_key_lease by (auto simp: env_of_def)

lemma env_of_put_if: "env_of i env \<Longrightarrow> other_key k \<Longrightarrow> env_of i (put_if k v env)"
  by (auto simp: put_if_def env_of_dput split: option.split)

lemma env_of_fold: "env_of i env \<Longrightarrow> env_of i (fold (\<lambda>(e, m) env. dput (endpoint_var e) m env) eps env)"
  by (induction eps arbitrary: env) (auto simp: env_of_dput other_key_var)

lemma env_of_start: "env_of (case i of Some s \<Rightarrow> if s = [] then None else Some s | None \<Rightarrow> None) (put_if LEASE_ENV i [])"
  by (auto simp: put_if_def env_of_def dput_def dkeys_def dget_def split: option.split)

lemma descriptor_env_of:
  assumes "descriptor_env d = Inr env"
  shows "env_of (case ds_lease_id d of Some s \<Rightarrow> if s = [] then None else Some s | None \<Rightarrow> None) env"
proof -
  let ?i = "case ds_lease_id d of Some s \<Rightarrow> if s = [] then None else Some s | None \<Rightarrow> None"
  have k: "other_key ''OPENAI_BASE_URL''" "other_key ''OPENAI_API_KEY''" "other_key ''INFER_STACK_API_KEY_ENV''"
    "other_key ''INFER_STACK_MODELS''" "other_key ''CUDA_VISIBLE_DEVICES''" by (simp_all add: other_key_def)
  let ?e = "fold (\<lambda>(e, m) env. dput (endpoint_var e) m env) (ds_endpoints d)
    (put_if ''INFER_STACK_API_KEY_ENV'' (ds_api_key_env d) (put_if ''OPENAI_API_KEY'' (ds_api_key d)
      (put_if ''OPENAI_BASE_URL'' (ds_base_url d) (put_if LEASE_ENV (ds_lease_id d) []))))"
  have e: "env_of ?i ?e" by (intro env_of_fold env_of_put_if env_of_start k)
  obtain env1 where env1: "env1 = ?e \<or> (\<exists>ms. env1 = dput ''INFER_STACK_MODELS'' (JStr ms) ?e)"
    "env = (case ds_cuda d of None \<Rightarrow> env1 | Some v \<Rightarrow> dput ''CUDA_VISIBLE_DEVICES'' (JStr v) env1)"
    using assms unfolding descriptor_env_def Let_def by (auto simp: bind_err_Inr split: if_splits)
  then have "env_of ?i env1" using e env_of_dput[OF e k(4)] by blast
  then show ?thesis using env1(2) env_of_dput[OF _ k(5)] by (cases "ds_cuda d") auto
qed

text \<open>
  What a job's environment file says is read back: for every descriptor, if no variable it sets
  holds a line break, reading the lease id from the rendered file gives the descriptor's lease id, and
  nothing when the descriptor has none (an access to external endpoints only), so that a release by
  environment file releases that lease and no other.
\<close>

theorem env_file_roundtrip:
  assumes "descriptor_env d = Inr env"
    and "list_all (\<lambda>kv. list_all (\<lambda>c. \<not> is_break c) (env_line repr kv)) env"
    and "case ds_lease_id d of None \<Rightarrow> True | Some i \<Rightarrow> plain_id i"
  shows "read_lease_id (render_env_file repr env) = ds_lease_id d"
proof -
  have i: "(case ds_lease_id d of Some s \<Rightarrow> if s = [] then None else Some s | None \<Rightarrow> None) = ds_lease_id d"
    using assms(3) by (auto simp: plain_id_def split: option.split)
  have e: "env_of (ds_lease_id d) env" using descriptor_env_of[OF assms(1)] i by simp
  have "first_lease_id (map (env_line repr) env) = ds_lease_id d"
  proof (rule first_lease_id_env)
    show "other_key k" if "(k, v) \<in> set env" "k \<noteq> LEASE_ENV" for k v
      using e that by (force simp: env_of_def dkeys_def)
    show "dget env LEASE_ENV = map_option JStr (ds_lease_id d)" using e by (simp add: env_of_def)
    show "plain_id s" if "ds_lease_id d = Some s" for s using assms(3) that by simp
  qed
  then show ?thesis by (simp add: read_lease_id_def splitlines_env[OF assms(2)])
qed

definition demo_descriptor :: descriptor where
  "demo_descriptor = \<lparr>ds_lease_id = Some ''lease-1'', ds_base_url = Some ''http://h/v1'', ds_api_key_env = Some ''KEY'',
     ds_endpoints = [(''qwen-coder'', JStr ''q'')], ds_api_key = None, ds_cuda = Some ''0,1''\<rparr>"

definition demo_env :: "(string, json) dict" where
  "demo_env = [(''INFER_STACK_LEASE_ID'', JStr ''lease-1''), (''OPENAI_BASE_URL'', JStr ''http://h/v1''),
     (''INFER_STACK_API_KEY_ENV'', JStr ''KEY''), (''INFER_STACK_ENDPOINT_QWEN_CODER'', JStr ''q''),
     (''INFER_STACK_MODELS'', JStr ''q''), (''CUDA_VISIBLE_DEVICES'', JStr ''0,1'')]"

lemma demo_env_ok: "descriptor_env demo_descriptor = Inr demo_env"
  by code_simp

lemma demo_env_lines: "list_all (\<lambda>kv. list_all (\<lambda>c. \<not> is_break c) (env_line (\<lambda>_. []) kv)) demo_env"
  by (simp add: demo_env_def env_line_def py_str_def is_break_def)

theorem env_file_roundtrip_witness:
  "read_lease_id (render_env_file (\<lambda>_. []) demo_env) = Some ''lease-1''"
  using env_file_roundtrip[OF demo_env_ok demo_env_lines]
  by (simp add: demo_descriptor_def plain_id_def py_space_def)

text \<open>Two endpoints can share a variable: the later one hides the other's name.\<close>

lemma endpoint_vars_collide: "endpoint_var ''a-b'' = endpoint_var ''a.b''"
  by code_simp

end
