(* ===== verification/Gateway.thy ===== *)
theory Gateway
  imports
  Adoption
  EnvFile
begin

text \<open>
  The gateway's routes (\<open>leasing/routes.py\<close>, \<open>leasing/gateway.py\<close>): one route per alias, its LiteLLM
  entry, the layers they come from (registry, published catalog, placed deployments, upstreams), the
  rows a registry remembers, and planning a seed or a prune.

  A deployment is what the gateway reads of it: its specification and its served payloads as the
  mappings they are. \<open>sha\<close> is SHA-256, \<open>repr\<close> Python's text of a list or a dictionary.
\<close>

section \<open>Routes\<close>

record route =
  gr_alias :: string
  gr_kind :: string
  gr_model :: json
  gr_base :: string
  gr_key_env :: json
  gr_id :: "string option"
  gr_origin :: string
  gr_window :: json

text \<open>The origin is not part of what a route means.\<close>

definition same_route :: "route \<Rightarrow> route \<Rightarrow> bool" where
  "same_route r s \<longleftrightarrow> r\<lparr>gr_origin := gr_origin s\<rparr> = s"

definition LITELLM_CONTAINER_PORT :: string where "LITELLM_CONTAINER_PORT = ''4000''"
definition VLLM_CONTAINER_PORT :: string where "VLLM_CONTAINER_PORT = ''8000''"
definition OLLAMA_CONTAINER_PORT :: string where "OLLAMA_CONTAINER_PORT = ''11434''"

definition entry :: "(json \<Rightarrow> string) \<Rightarrow> route \<Rightarrow> json" where
  "entry repr r =
     (let params = [(''model'', JStr (gr_kind r @ ''/'' @ py_str repr (gr_model r))), (''api_base'', JStr (gr_base r))]
            @ (if gr_kind r = ''openai'' then [(''api_key'', JStr (if truthy (gr_key_env r)
                  then ''os.environ/'' @ py_str repr (gr_key_env r) else ''EMPTY''))] else []);
          info = (case gr_id r of None \<Rightarrow> [] | Some i \<Rightarrow> if i = [] then [] else
                    (''id'', JStr i) # (if truthy (gr_key_env r) then [(''infer_stack_key_env'', gr_key_env r)] else []))
            @ (if gr_window r = JNull then [] else [(''max_input_tokens'', gr_window r)])
      in JObj ([(''model_name'', JStr (gr_alias r)), (''litellm_params'', JObj params)]
           @ (if info = [] then [] else [(''model_info'', JObj info)])))"

text \<open>One route per alias, a later layer winning, sorted by alias.\<close>

definition route_table :: "route list list \<Rightarrow> route list" where
  "route_table layers =
     (let table = fold (\<lambda>r t. dput (gr_alias r) r t) (concat layers) []
      in map (\<lambda>a. the (dget table a)) (sort (dkeys table)))"

section \<open>Planning a seed or a prune\<close>

record meaning =
  me_route :: "route option"
  me_key :: "string option"

definition same_meaning :: "meaning \<Rightarrow> meaning \<Rightarrow> bool" where
  "same_meaning a b = (case (me_key a, me_key b) of
     (Some k, Some l) \<Rightarrow> k = l
   | _ \<Rightarrow> (case (me_route a, me_route b) of (Some r, Some s) \<Rightarrow> same_route r s | (None, None) \<Rightarrow> True | _ \<Rightarrow> False))"

record route_plan =
  rp_added :: "(string, meaning) dict"
  rp_unchanged :: "string list"
  rp_conflicted :: "(string, meaning \<times> meaning) dict"
  rp_dropped :: "string list"
  rp_incoming :: "(string, meaning) dict"

definition seed_step :: "(string, meaning) dict \<Rightarrow> string \<times> meaning \<Rightarrow> route_plan \<Rightarrow> route_plan" where
  "seed_step current row plan = (case row of (n, m) \<Rightarrow>
     (case dget current n of
        None \<Rightarrow> plan\<lparr>rp_added := rp_added plan @ [(n, m)]\<rparr>
      | Some c \<Rightarrow> if same_meaning c m then plan\<lparr>rp_unchanged := rp_unchanged plan @ [n]\<rparr>
          else plan\<lparr>rp_conflicted := rp_conflicted plan @ [(n, (c, m))]\<rparr>))"

definition plan_seed :: "(string, meaning) dict \<Rightarrow> (string, meaning) dict \<Rightarrow> route_plan" where
  "plan_seed current incoming = fold (seed_step current) (sort_key fst incoming)
     \<lparr>rp_added = [], rp_unchanged = [], rp_conflicted = [], rp_dropped = [], rp_incoming = incoming\<rparr>"

definition plan_prune :: "string list \<Rightarrow> string set \<Rightarrow> route_plan" where
  "plan_prune current keep = \<lparr>rp_added = [], rp_unchanged = [], rp_conflicted = [],
     rp_dropped = sort (remdups (filter (\<lambda>n. n \<notin> keep) current)), rp_incoming = []\<rparr>"

section \<open>Where a request or a deployment is reached\<close>

record gw_deployment =
  gd_id :: string
  gd_created_at :: rat
  gd_engine :: string
  gd_spec :: "(string, json) dict"
  gd_served :: "(string, json) dict"

definition gd_served_name :: "gw_deployment \<Rightarrow> json" where
  "gd_served_name d = py_or (rt_get (gd_spec d) ''served_model_name'')
     (JStr (if gd_served d = [] then gd_id d else hd (sort (dkeys (gd_served d)))))"

definition vllm_base :: "string \<Rightarrow> string" where
  "vllm_base service = ''http://'' @ service @ '':'' @ VLLM_CONTAINER_PORT @ ''/v1''"

definition ollama_base :: "string \<Rightarrow> string" where
  "ollama_base service = ''http://'' @ service @ '':'' @ OLLAMA_CONTAINER_PORT"

text \<open>\<open>effective_max_model_len\<close> of a runtime that may be absent.\<close>

definition window_of :: "json \<Rightarrow> py_error + json" where
  "window_of v = (if \<not> truthy v then effective_max_model_len []
     else case v of JObj kvs \<Rightarrow> effective_max_model_len kvs | _ \<Rightarrow> Inl AttributeError)"

definition compose_catalog_route :: "(json \<Rightarrow> string) \<Rightarrow> string \<Rightarrow> json \<Rightarrow> py_error + route option" where
  "compose_catalog_route repr alias req =
     bind_err (py_get ''engine'' req) (\<lambda>engine.
     bind_err (py_get ''served'' req) (\<lambda>payload.
     bind_err (py_get ''spec'' req) (\<lambda>spec.
       if engine = JStr ''vllm'' then
         bind_err (py_get ''served_model_name'' payload) (\<lambda>name.
         bind_err (bind_err (py_get ''runtime'' spec) window_of) (\<lambda>window.
           let served = py_or name (JStr alias)
           in Inr (Some \<lparr>gr_alias = alias, gr_kind = ''openai'', gr_model = served,
                gr_base = vllm_base (vllm_service_name_for (py_str repr served)), gr_key_env = JNull, gr_id = None,
                gr_origin = ''catalog'', gr_window = window\<rparr>)))
       else if engine = JStr ''ollama'' then
         bind_err (py_get ''host'' spec) (\<lambda>host.
         bind_err (py_get ''host'' req) (\<lambda>req_host.
         bind_err (py_get ''model'' payload) (\<lambda>tag.
           Inr (Some \<lparr>gr_alias = alias, gr_kind = ''ollama'', gr_model = py_or tag (JStr alias),
                gr_base = ollama_base (ollama_service_name_for (py_str repr (py_or host req_host))), gr_key_env = JNull,
                gr_id = None, gr_origin = ''catalog'', gr_window = JNull\<rparr>))))
       else Inr None)))"

text \<open>A catalog as the gateway asks it: its endpoints, and what a name resolves to.\<close>

record gw_catalog =
  gc_names :: "string list"
  gc_resolve :: "string \<Rightarrow> cat_error + resolved"

definition served_window :: "json option \<Rightarrow> int option" where
  "served_window payload = (case payload of
     Some (JObj kvs) \<Rightarrow> (case rt_get kvs ''max_input_tokens'' of JInt i \<Rightarrow> if 0 < i then Some i else None | _ \<Rightarrow> None)
   | _ \<Rightarrow> None)"

definition catalog_window :: "gw_catalog option \<Rightarrow> string \<Rightarrow> json option" where
  "catalog_window cat endpoint = (case cat of None \<Rightarrow> None | Some c \<Rightarrow>
     if endpoint \<notin> set (gc_names c) then None
     else (case bind_err (gc_resolve c endpoint) (to_request JNull) of
         Inl _ \<Rightarrow> None
       | Inr req \<Rightarrow> (case (py_get ''engine'' req, bind_err (bind_err (py_get ''spec'' req) (py_get ''runtime'')) window_of) of
           (Inr (JStr e), Inr w) \<Rightarrow> if e = ''vllm'' then Some w else None | _ \<Rightarrow> None)))"

definition deployment_route_max_input_tokens :: "gw_deployment \<Rightarrow> string \<Rightarrow> gw_catalog option \<Rightarrow> py_error + json" where
  "deployment_route_max_input_tokens d endpoint cat =
     (case served_window (dget (gd_served d) endpoint) of
        Some i \<Rightarrow> Inr (JInt i)
      | None \<Rightarrow> (case catalog_window cat endpoint of
          Some w \<Rightarrow> Inr w
        | None \<Rightarrow> window_of (rt_get (gd_spec d) ''runtime'')))"

definition ROUTE_ID_PREFIX :: string where "ROUTE_ID_PREFIX = ''isr-''"

definition route_id :: "(string \<Rightarrow> string) \<Rightarrow> string \<Rightarrow> string \<Rightarrow> string" where
  "route_id sha owner endpoint = ROUTE_ID_PREFIX @ take 32 (sha (owner @ ''|'' @ endpoint))"

section \<open>The layers\<close>

text \<open>\<open>managed\<close> says where this backend runs a managed endpoint; what does not resolve is skipped.\<close>

definition catalog_route_of :: "(string \<Rightarrow> string) \<Rightarrow> (string \<Rightarrow> json \<Rightarrow> py_error + route option) \<Rightarrow> bool
    \<Rightarrow> (string \<Rightarrow> cat_error + resolved) \<Rightarrow> string \<Rightarrow> route option" where
  "catalog_route_of sha managed dynamic resolve alias =
     (case resolve alias of
        Inl _ \<Rightarrow> None
      | Inr r \<Rightarrow> (case rs_target r of
          External t \<Rightarrow> Some \<lparr>gr_alias = alias, gr_kind = ''openai'', gr_model = JStr (et_model t),
             gr_base = et_api_base t, gr_key_env = et_api_key_env t,
             gr_id = (if dynamic then Some (route_id sha ''external'' alias) else None),
             gr_origin = ''external'', gr_window = JNull\<rparr>
        | Managed req \<Rightarrow> if dynamic then None
            else (case managed alias req of Inl _ \<Rightarrow> None | Inr r \<Rightarrow> r)))"

definition catalog_routes :: "(string \<Rightarrow> string) \<Rightarrow> (string \<Rightarrow> json \<Rightarrow> py_error + route option) \<Rightarrow> bool
    \<Rightarrow> gw_catalog option \<Rightarrow> route list" where
  "catalog_routes sha managed dynamic cat = (case cat of None \<Rightarrow> []
     | Some c \<Rightarrow> List.map_filter (catalog_route_of sha managed dynamic (gc_resolve c)) (sort (gc_names c)))"

definition vllm_route :: "(string \<Rightarrow> string) \<Rightarrow> (json \<Rightarrow> string) \<Rightarrow> bool \<Rightarrow> gw_catalog option \<Rightarrow> gw_deployment \<Rightarrow> string
    \<Rightarrow> py_error + route" where
  "vllm_route sha repr dynamic cat d endpoint =
     (let served = gd_served_name d;
          service = vllm_service_name_for (py_str repr served) @ (if dynamic then ''-'' @ deployment_tail (gd_id d) else [])
      in bind_err (deployment_route_max_input_tokens d endpoint cat) (\<lambda>window.
         Inr \<lparr>gr_alias = endpoint, gr_kind = ''openai'', gr_model = served, gr_base = vllm_base service,
           gr_key_env = JNull, gr_id = (if dynamic then Some (route_id sha (gd_id d) endpoint) else None),
           gr_origin = ''deployment'', gr_window = window\<rparr>))"

text \<open>\<open>spec.get('host') or deployment.id\<close>.\<close>

definition gd_host :: "gw_deployment \<Rightarrow> json" where
  "gd_host d = py_or (rt_get (gd_spec d) ''host'') (JStr (gd_id d))"

text \<open>\<open>payload.get('model', endpoint)\<close>.\<close>

definition served_model :: "string \<Rightarrow> json \<Rightarrow> py_error + json" where
  "served_model endpoint payload = (case payload of
     JObj kvs \<Rightarrow> Inr (case dget kvs ''model'' of None \<Rightarrow> JStr endpoint | Some m \<Rightarrow> m)
   | _ \<Rightarrow> Inl AttributeError)"

definition ollama_route :: "(string \<Rightarrow> string) \<Rightarrow> (json \<Rightarrow> string) \<Rightarrow> bool \<Rightarrow> gw_deployment \<Rightarrow> string \<times> json
    \<Rightarrow> py_error + route" where
  "ollama_route sha repr dynamic d row = (case row of (endpoint, payload) \<Rightarrow>
     bind_err (served_model endpoint payload) (\<lambda>model.
       Inr \<lparr>gr_alias = endpoint, gr_kind = ''ollama'', gr_model = model,
         gr_base = ollama_base (ollama_service_name_for (py_str repr (gd_host d))), gr_key_env = JNull,
         gr_id = (if dynamic then Some (route_id sha (gd_id d) endpoint) else None),
         gr_origin = ''deployment'', gr_window = JNull\<rparr>))"

definition routes_of_deployment :: "(string \<Rightarrow> string) \<Rightarrow> (json \<Rightarrow> string) \<Rightarrow> bool \<Rightarrow> gw_catalog option \<Rightarrow> gw_deployment
    \<Rightarrow> py_error + route list" where
  "routes_of_deployment sha repr dynamic cat d =
     (if gd_engine d = ''vllm'' then map_err (vllm_route sha repr dynamic cat d) (sort (dkeys (gd_served d)))
      else if gd_engine d = ''ollama'' then map_err (ollama_route sha repr dynamic d) (sort_key fst (gd_served d))
      else Inr [])"

definition deployment_routes :: "(string \<Rightarrow> string) \<Rightarrow> (json \<Rightarrow> string) \<Rightarrow> bool \<Rightarrow> gw_catalog option
    \<Rightarrow> gw_deployment list \<Rightarrow> string set \<Rightarrow> py_error + route list" where
  "deployment_routes sha repr dynamic cat ds assigned =
     bind_err (map_err (routes_of_deployment sha repr dynamic cat)
        (filter (\<lambda>d. gd_id d \<in> assigned) (sort_key (\<lambda>d. (gd_created_at d, gd_id d)) ds))) (\<lambda>rss. Inr (concat rss))"

definition route_key_envs :: "(json \<Rightarrow> string) \<Rightarrow> route list \<Rightarrow> string list" where
  "route_key_envs repr rs = sort (remdups (map (py_str repr \<circ> gr_key_env) (filter (\<lambda>r. truthy (gr_key_env r)) rs)))"

definition front_door_routes ::
    "(string \<Rightarrow> string) \<Rightarrow> (json \<Rightarrow> string) \<Rightarrow> bool \<Rightarrow> gw_catalog option \<Rightarrow> gw_deployment list \<Rightarrow> string set
     \<Rightarrow> route list \<Rightarrow> route list \<Rightarrow> route list \<Rightarrow> py_error + (route list \<times> route list)" where
  "front_door_routes sha repr dynamic cat ds assigned registry extra extra_dynamic =
     (let managed = compose_catalog_route repr
      in bind_err (deployment_routes sha repr dynamic cat ds assigned) (\<lambda>placed.
         if dynamic then
           Inr ([], dvals (fold (\<lambda>r t. dput (gr_id r) r t) (placed @ catalog_routes sha managed True cat @ extra_dynamic) []))
         else Inr (route_table [registry, catalog_routes sha managed False cat, placed, extra], [])))"

text \<open>\<open>upstream_route\<close>: a server this project does not run.\<close>

definition upstream_route :: "(string \<Rightarrow> string) \<Rightarrow> string \<Rightarrow> string \<Rightarrow> json \<Rightarrow> string \<Rightarrow> json \<Rightarrow> route" where
  "upstream_route sha did endpoint served base window =
     \<lparr>gr_alias = endpoint, gr_kind = ''openai'', gr_model = served, gr_base = base, gr_key_env = JNull,
      gr_id = Some (route_id sha did endpoint), gr_origin = ''upstream'', gr_window = window\<rparr>"

section \<open>The registry\<close>

definition vllm_row :: "gw_deployment \<Rightarrow> string \<Rightarrow> py_error + string \<times> json" where
  "vllm_row d endpoint = bind_err (deployment_route_max_input_tokens d endpoint None) (\<lambda>window.
     Inr (endpoint, JObj [(''engine'', JStr ''vllm''), (''served'', gd_served_name d), (''max_input_tokens'', window)]))"

definition ollama_row :: "gw_deployment \<Rightarrow> string \<times> json \<Rightarrow> py_error + string \<times> json" where
  "ollama_row d row = (case row of (endpoint, payload) \<Rightarrow> bind_err (served_model endpoint payload) (\<lambda>model.
     Inr (endpoint, JObj [(''engine'', JStr ''ollama''), (''model'', model), (''host'', gd_host d)])))"

definition rows_of_deployment :: "gw_deployment \<Rightarrow> py_error + (string \<times> json) list" where
  "rows_of_deployment d =
     (if gd_engine d = ''vllm'' then map_err (vllm_row d) (sort (dkeys (gd_served d)))
      else if gd_engine d = ''ollama'' then map_err (ollama_row d) (sort_key fst (gd_served d))
      else Inr [])"

definition upstream_row :: "route \<Rightarrow> string \<times> json" where
  "upstream_row r = (gr_alias r, JObj ([(''engine'', JStr ''upstream''), (''served'', gr_model r), (''api_base'', JStr (gr_base r))]
     @ (if gr_window r = JNull then [] else [(''max_input_tokens'', gr_window r)])))"

definition remembered_rows :: "gw_deployment list \<Rightarrow> string set \<Rightarrow> string set \<Rightarrow> route list \<Rightarrow> py_error + (string, json) dict" where
  "remembered_rows ds assigned defined extra =
     bind_err (map_err rows_of_deployment (filter (\<lambda>d. gd_id d \<in> assigned) ds)) (\<lambda>rss.
       let rows = fold (\<lambda>(a, row) acc. dput a row acc)
                    (concat rss @ map upstream_row (filter (\<lambda>r. gr_origin r = ''upstream'' \<and> gr_kind r = ''openai'') extra)) []
       in Inr (filter (\<lambda>(a, row). a \<notin> defined) rows))"

definition remembered_context :: "(string, json) dict \<Rightarrow> json" where
  "remembered_context row = (case rt_get row ''max_input_tokens'' of JInt i \<Rightarrow> if 0 < i then JInt i else JNull | _ \<Rightarrow> JNull)"

definition registry_route :: "(json \<Rightarrow> string) \<Rightarrow> string \<Rightarrow> json \<Rightarrow> route option" where
  "registry_route repr name row = (case row of
     JObj kvs \<Rightarrow>
       (let engine = rt_get kvs ''engine''; served = py_or (rt_get kvs ''served'') (JStr name);
            mk = (\<lambda>kind model base window. Some \<lparr>gr_alias = name, gr_kind = kind, gr_model = model, gr_base = base,
                    gr_key_env = JNull, gr_id = None, gr_origin = ''registry'', gr_window = window\<rparr>)
        in if engine = JStr ''vllm'' then
             mk ''openai'' served (vllm_base (vllm_service_name_for (py_str repr served))) (remembered_context kvs)
           else if engine = JStr ''ollama'' then
             mk ''ollama'' (py_or (rt_get kvs ''model'') (JStr name))
               (ollama_base (ollama_service_name_for (py_str repr (py_or (rt_get kvs ''host'') (JStr name))))) JNull
           else if engine = JStr ''upstream'' \<and> truthy (rt_get kvs ''api_base'') then
             mk ''openai'' served (py_str repr (rt_get kvs ''api_base'')) (remembered_context kvs)
           else None)
   | _ \<Rightarrow> None)"

definition registry_routes :: "(json \<Rightarrow> string) \<Rightarrow> json \<Rightarrow> route list" where
  "registry_routes repr registry = (case registry of
     JObj kvs \<Rightarrow> (case rt_get kvs ''entries'' of
         JObj rows \<Rightarrow> List.map_filter (\<lambda>n. registry_route repr n (rt_get rows n)) (sort (dkeys rows))
       | _ \<Rightarrow> [])
   | _ \<Rightarrow> [])"

text \<open>\<open>remember\<close>: rows added to the stored registry; a file of another version is left alone.\<close>

definition remember :: "int \<Rightarrow> json \<Rightarrow> (string, json) dict \<Rightarrow> json" where
  "remember version existing rows = (case existing of
     JObj kvs \<Rightarrow>
       (let v = (case dget kvs ''version'' of None \<Rightarrow> JInt version | Some v \<Rightarrow> v);
            entries = (case rt_get kvs ''entries'' of JObj es \<Rightarrow> es | _ \<Rightarrow> []);
            changed = filter (\<lambda>(k, row). dget entries k \<noteq> Some row) rows
        in if rows = [] \<or> v \<noteq> JInt version \<or> changed = [] then existing
           else JObj [(''version'', v), (''entries'', JObj (fold (\<lambda>(k, row) es. dput k row es) rows entries))])
   | _ \<Rightarrow> existing)"

text \<open>\<open>require_route_keys\<close>: the aliases per key variable that has no value.\<close>

definition missing_route_keys :: "(json \<Rightarrow> string) \<Rightarrow> (string, string) dict \<Rightarrow> route list \<Rightarrow> (string, string list) dict" where
  "missing_route_keys repr env rs =
     (let missing = filter (\<lambda>n. case dget env n of Some v \<Rightarrow> v = [] | None \<Rightarrow> True) (route_key_envs repr rs)
      in fold (\<lambda>r users. if truthy (gr_key_env r) \<and> py_str repr (gr_key_env r) \<in> set missing then
           (let n = py_str repr (gr_key_env r)
            in dput n ((case dget users n of None \<Rightarrow> [] | Some as \<Rightarrow> as) @ [gr_alias r]) users) else users) rs [])"

section \<open>A remembered route is the deployment's route\<close>

definition routable :: "route \<Rightarrow> bool" where
  "routable r \<longleftrightarrow> truthy (gr_model r) \<and> (gr_kind r = ''openai'' \<longrightarrow> (case gr_window r of JInt i \<Rightarrow> 0 < i | _ \<Rightarrow> False))"

lemma same_routeI:
  "gr_alias q = gr_alias r \<Longrightarrow> gr_kind q = gr_kind r \<Longrightarrow> gr_model q = gr_model r \<Longrightarrow> gr_base q = gr_base r
   \<Longrightarrow> gr_key_env q = gr_key_env r \<Longrightarrow> gr_id q = gr_id r \<Longrightarrow> gr_window q = gr_window r \<Longrightarrow> same_route q r"
  by (simp add: same_route_def)

lemma same_route_fields:
  "same_route q r \<longleftrightarrow> gr_alias q = gr_alias r \<and> gr_kind q = gr_kind r \<and> gr_model q = gr_model r \<and> gr_base q = gr_base r
     \<and> gr_key_env q = gr_key_env r \<and> gr_id q = gr_id r \<and> gr_window q = gr_window r"
  by (cases q; cases r) (auto simp: same_route_def)

lemma vllm_row_route:
  assumes "vllm_row d e = Inr row" and "vllm_route sha repr False None d e = Inr r" and "routable r"
  shows "fst row = e \<and> gr_alias r = e \<and> (\<exists>q. registry_route repr e (snd row) = Some q \<and> same_route q r)"
proof -
  obtain w where w: "deployment_route_max_input_tokens d e None = Inr w"
    "row = (e, JObj [(''engine'', JStr ''vllm''), (''served'', gd_served_name d), (''max_input_tokens'', w)])"
    using assms(1) by (auto simp: vllm_row_def bind_err_Inr)
  then have r: "r = \<lparr>gr_alias = e, gr_kind = ''openai'', gr_model = gd_served_name d,
      gr_base = vllm_base (vllm_service_name_for (py_str repr (gd_served_name d))), gr_key_env = JNull, gr_id = None,
      gr_origin = ''deployment'', gr_window = w\<rparr>"
    using assms(2) by (simp add: vllm_route_def Let_def)
  have "truthy (gd_served_name d)" and "\<exists>i. w = JInt i \<and> 0 < i"
    using assms(3) r by (auto simp: routable_def split: json.splits)
  then show ?thesis
    using w r by (auto simp: registry_route_def rt_get_def dget_def remembered_context_def py_or_def same_route_fields Let_def)
qed

lemma ollama_row_route:
  assumes "ollama_row d (e, p) = Inr row" and "ollama_route sha repr False d (e, p) = Inr r" and "routable r"
    and "truthy (gd_host d)"
  shows "fst row = e \<and> gr_alias r = e \<and> (\<exists>q. registry_route repr e (snd row) = Some q \<and> same_route q r)"
proof -
  obtain m where m: "served_model e p = Inr m" "row = (e, JObj [(''engine'', JStr ''ollama''), (''model'', m), (''host'', gd_host d)])"
    using assms(1) by (auto simp: ollama_row_def bind_err_Inr)
  then have r: "r = \<lparr>gr_alias = e, gr_kind = ''ollama'', gr_model = m,
      gr_base = ollama_base (ollama_service_name_for (py_str repr (gd_host d))), gr_key_env = JNull, gr_id = None,
      gr_origin = ''deployment'', gr_window = JNull\<rparr>"
    using assms(2) by (simp add: ollama_route_def)
  have "truthy m" using assms(3) r by (simp add: routable_def)
  then show ?thesis
    using m r assms(4) by (simp add: registry_route_def rt_get_def dget_def py_or_def same_route_fields Let_def)
qed

definition row_route :: "(json \<Rightarrow> string) \<Rightarrow> string \<times> json \<Rightarrow> route \<Rightarrow> bool" where
  "row_route repr row r \<longleftrightarrow> fst row = gr_alias r \<and> (\<exists>q. registry_route repr (fst row) (snd row) = Some q \<and> same_route q r)"

lemma map_err_pair:
  assumes "map_err f xs = Inr ys" and "map_err g xs = Inr zs" and "list_all Q zs"
    and "\<And>x y z. f x = Inr y \<Longrightarrow> g x = Inr z \<Longrightarrow> Q z \<Longrightarrow> R y z"
  shows "list_all2 R ys zs"
  using assms(1-3) by (induction xs arbitrary: ys zs) (auto simp: bind_err_Inr assms(4))

lemma rows_routes:
  assumes "rows_of_deployment d = Inr rows" and "routes_of_deployment sha repr False None d = Inr rs"
    and "list_all routable rs" and "truthy (gd_host d)"
  shows "list_all2 (row_route repr) rows rs"
proof -
  consider "gd_engine d = ''vllm''" | "gd_engine d \<noteq> ''vllm''" "gd_engine d = ''ollama''" | "gd_engine d \<noteq> ''vllm''" "gd_engine d \<noteq> ''ollama''"
    by blast
  then show ?thesis
  proof cases
    case 1
    show ?thesis
    proof (rule map_err_pair[of _ _ _ _ _ routable])
      show "map_err (vllm_row d) (sort (dkeys (gd_served d))) = Inr rows" using assms(1) 1 by (simp add: rows_of_deployment_def)
      show "map_err (vllm_route sha repr False None d) (sort (dkeys (gd_served d))) = Inr rs"
        using assms(2) 1 by (simp add: routes_of_deployment_def)
      show "list_all routable rs" by (rule assms(3))
      fix e row r assume "vllm_row d e = Inr row" "vllm_route sha repr False None d e = Inr r" "routable r"
      then show "row_route repr row r" using vllm_row_route[of d e row sha repr r] by (auto simp: row_route_def)
    qed
  next
    case 2
    show ?thesis
    proof (rule map_err_pair[of _ _ _ _ _ routable])
      show "map_err (ollama_row d) (sort_key fst (gd_served d)) = Inr rows" using assms(1) 2 by (simp add: rows_of_deployment_def)
      show "map_err (ollama_route sha repr False d) (sort_key fst (gd_served d)) = Inr rs"
        using assms(2) 2 by (simp add: routes_of_deployment_def)
      show "list_all routable rs" by (rule assms(3))
      fix e row r assume "ollama_row d e = Inr row" "ollama_route sha repr False d e = Inr r" "routable r"
      then show "row_route repr row r" using ollama_row_route[OF _ _ _ assms(4), of "fst e" "snd e" row sha repr r] by (auto simp: row_route_def)
    qed
  next
    case 3
    then show ?thesis using assms by (simp add: rows_of_deployment_def routes_of_deployment_def)
  qed
qed

section \<open>The table of routes with distinct aliases\<close>

lemma fold_dput_distinct:
  assumes "distinct (map fst kvs)"
  shows "fold (\<lambda>(k, v) acc. dput k v acc) kvs [] = kvs"
proof -
  have "fold (\<lambda>(k, v) acc. dput k v acc) kvs acc = acc @ kvs" if "distinct (map fst (acc @ kvs))" for acc
    using that
  proof (induction kvs arbitrary: acc)
    case (Cons kv kvs)
    obtain k v where kv: "kv = (k, v)" by (cases kv)
    have "k \<notin> set (dkeys acc)" using Cons.prems kv by (auto simp: dkeys_def)
    then show ?case using Cons.IH[of "acc @ [(k, v)]"] Cons.prems kv by (simp add: dput_new)
  qed simp
  from this[of "[]"] assms show ?thesis by simp
qed

lemma route_table_distinct:
  assumes "distinct (map gr_alias rs)"
  shows "route_table [rs] = map (\<lambda>a. the (dget (map (\<lambda>r. (gr_alias r, r)) rs) a)) (sort (map gr_alias rs))"
proof -
  have "fold (\<lambda>r t. dput (gr_alias r) r t) rs [] = fold (\<lambda>(k, v) acc. dput k v acc) (map (\<lambda>r. (gr_alias r, r)) rs) []"
    by (simp add: fold_map comp_def)
  also have "\<dots> = map (\<lambda>r. (gr_alias r, r)) rs" by (rule fold_dput_distinct) (use assms in \<open>simp add: comp_def\<close>)
  finally show ?thesis by (simp add: route_table_def dkeys_def comp_def)
qed

lemma mset_concat_map: "mset xs = mset ys \<Longrightarrow> mset (concat (map h xs)) = mset (concat (map h ys))"
proof -
  have "mset (concat (map h zs)) = sum_mset (image_mset (mset \<circ> h) (mset zs))" for zs
    by (simp add: mset_concat sum_mset_sum_list[symmetric])
  then show "mset xs = mset ys \<Longrightarrow> mset (concat (map h xs)) = mset (concat (map h ys))" by simp
qed

lemma map_filter_all:
  assumes "list_all2 (\<lambda>x y. \<exists>q. f x = Some q \<and> R q y) xs ys"
  shows "list_all2 R (List.map_filter f xs) ys"
  using assms by (induction rule: list_all2_induct) (auto simp: map_filter_simps)

lemma map_err_concat_map:
  "map_err f xs = Inr yss \<Longrightarrow> yss = map (projr \<circ> f) xs \<and> (\<forall>x \<in> set xs. f x = Inr (projr (f x)))"
  by (induction xs arbitrary: yss) (auto simp: bind_err_Inr)

lemma list_all2_aliases: "list_all2 (row_route repr) rows rs \<Longrightarrow> map fst rows = map gr_alias rs"
  by (induction rule: list_all2_induct) (auto simp: row_route_def)

lemma dget_keyed:
  assumes "distinct (map k xs)" and "r \<in> set xs"
  shows "dget (map (\<lambda>r. (k r, r)) xs) (k r) = Some r"
proof (rule dget_distinct)
  show "distinct (dkeys (map (\<lambda>r. (k r, r)) xs))" using assms(1) by (simp add: dkeys_def comp_def)
qed (use assms(2) in auto)

lemma list_all2_partner: "list_all2 R xs ys \<Longrightarrow> y \<in> set ys \<Longrightarrow> \<exists>x \<in> set xs. R x y"
  by (induction rule: list_all2_induct) auto

text \<open>The rows and the routes of the placed deployments, matched.\<close>

lemma remembered_matches:
  assumes "deployment_routes sha repr False None ds assigned = Inr placed"
    and "remembered_rows ds assigned {} [] = Inr rows"
    and "distinct (map gr_alias placed)" and ok: "list_all routable placed"
    and hosts: "\<And>d. d \<in> set ds \<Longrightarrow> truthy (gd_host d)"
  shows "set (dkeys rows) = set (map gr_alias placed)" and "distinct (dkeys rows)"
    and "r \<in> set placed \<Longrightarrow> \<exists>q. registry_route repr (gr_alias r) (rt_get rows (gr_alias r)) = Some q \<and> same_route q r"
proof -
  let ?placed = "filter (\<lambda>d. gd_id d \<in> assigned) (sort_key (\<lambda>d. (gd_created_at d, gd_id d)) ds)"
  let ?ds = "filter (\<lambda>d. gd_id d \<in> assigned) ds"
  define f where "f = projr \<circ> rows_of_deployment"
  define g where "g = projr \<circ> routes_of_deployment sha repr False None"
  obtain rss where rss: "map_err (routes_of_deployment sha repr False None) ?placed = Inr rss" "placed = concat rss"
    using assms(1) by (auto simp: deployment_routes_def bind_err_Inr)
  have G: "placed = concat (map g ?placed)" "\<forall>d \<in> set ?placed. routes_of_deployment sha repr False None d = Inr (g d)"
    using map_err_concat_map[OF rss(1)] rss(2) by (auto simp: g_def)
  obtain rwss where rwss: "map_err rows_of_deployment ?ds = Inr rwss" "rows = fold (\<lambda>(a, row) acc. dput a row acc) (concat rwss) []"
    using assms(2) by (auto simp: remembered_rows_def bind_err_Inr Let_def case_prod_unfold)
  have F: "concat rwss = concat (map f ?ds)" "\<forall>d \<in> set ?ds. rows_of_deployment d = Inr (f d)"
    using map_err_concat_map[OF rwss(1)] by (auto simp: f_def)
  have fg: "list_all2 (row_route repr) (f d) (g d)" if d: "d \<in> set ?ds" for d
  proof (rule rows_routes)
    show "rows_of_deployment d = Inr (f d)" "routes_of_deployment sha repr False None d = Inr (g d)" "truthy (gd_host d)"
      using F(2) G(2) hosts d by auto
    have "set (g d) \<subseteq> set placed" unfolding G(1) using d by auto
    then show "list_all routable (g d)" using ok by (auto simp: list_all_iff)
  qed
  have names: "map fst (concat rwss) = concat (map (\<lambda>d. map gr_alias (g d)) ?ds)"
    unfolding F(1) map_concat map_map
    by (intro arg_cong[of _ _ concat] map_cong refl) (simp add: list_all2_aliases[OF fg])
  have m: "mset (map fst (concat rwss)) = mset (map gr_alias placed)"
  proof -
    have "map gr_alias placed = concat (map (\<lambda>d. map gr_alias (g d)) ?placed)"
      by (subst G(1)) (simp only: map_concat map_map comp_def)
    moreover have "mset (concat (map (\<lambda>d. map gr_alias (g d)) ?ds)) = mset (concat (map (\<lambda>d. map gr_alias (g d)) ?placed))"
      by (rule mset_concat_map) simp
    ultimately show ?thesis unfolding names by simp
  qed
  then have dist: "distinct (map fst (concat rwss))" using assms(3) mset_eq_imp_distinct_iff by blast
  have rows: "rows = concat rwss" unfolding rwss(2) by (rule fold_dput_distinct[OF dist])
  show "distinct (dkeys rows)" unfolding rows dkeys_def by (rule dist)
  show "set (dkeys rows) = set (map gr_alias placed)" unfolding rows dkeys_def using m by (rule mset_eq_setD)
  assume "r \<in> set placed"
  then obtain d where d: "d \<in> set ?placed" "r \<in> set (g d)" unfolding G(1) by auto
  then have "d \<in> set ?ds" by auto
  from list_all2_partner[OF fg[OF this] d(2)] obtain row where row: "row \<in> set (f d)" "row_route repr row r" by blast
  have "row \<in> set (concat rwss)" unfolding F(1) using row(1) \<open>d \<in> set ?ds\<close> by auto
  then have "dget rows (fst row) = Some (snd row)" unfolding rows by (intro dget_distinct) (auto simp: dkeys_def dist)
  then show "\<exists>q. registry_route repr (gr_alias r) (rt_get rows (gr_alias r)) = Some q \<and> same_route q r"
    using row(2) by (auto simp: row_route_def rt_get_def)
qed

text \<open>
  C32. What the registry remembers renders back to what is running: after the rows of the placed
  deployments are stored, a gateway rendered from the registry alone (every deployment released) has the
  same routes as one rendered from the live deployments, alias by alias and in the same order, only
  their origin differs, so a release does not move the gateway's configuration.
\<close>

theorem remembered_routes_survive_release:
  assumes "front_door_routes sha repr False None ds assigned [] [] [] = Inr (live, [])"
    and "deployment_routes sha repr False None ds assigned = Inr placed"
    and "remembered_rows ds assigned {} [] = Inr rows"
    and "distinct (map gr_alias placed)" and "list_all routable placed"
    and "list_all (\<lambda>d. truthy (gd_host d)) ds"
  shows "\<exists>released. front_door_routes sha repr False None [] {}
       (registry_routes repr (JObj [(''version'', JInt 1), (''entries'', JObj rows)])) [] [] = Inr (released, [])
     \<and> list_all2 same_route released live"
proof -
  let ?ks = "sort (map gr_alias placed)"
  let ?reg = "registry_routes repr (JObj [(''version'', JInt 1), (''entries'', JObj rows)])"
  have live: "live = route_table [placed]"
    using assms(1,2) by (simp add: front_door_routes_def Let_def catalog_routes_def route_table_def)
  note M = remembered_matches[OF assms(2,3,4,5)]
  have hosts: "\<And>d. d \<in> set ds \<Longrightarrow> truthy (gd_host d)" using assms(6) by (simp add: list_all_iff)
  have keys: "sort (dkeys rows) = ?ks"
    using M(1,2)[OF hosts] assms(4) by (metis sorted_list_of_set_sort_remdups distinct_remdups_id)
  have reg: "?reg = List.map_filter (\<lambda>n. registry_route repr n (rt_get rows n)) ?ks"
    by (simp add: registry_routes_def rt_get_def[of _ "''entries''"] dget_def keys)
  have table: "live = map (\<lambda>a. the (dget (map (\<lambda>r. (gr_alias r, r)) placed) a)) ?ks"
    unfolding live by (rule route_table_distinct[OF assms(4)])
  have pick: "the (dget (map (\<lambda>r. (gr_alias r, r)) placed) (gr_alias r)) = r" if "r \<in> set placed" for r
    using dget_keyed[OF assms(4) that] by simp
  have all: "list_all2 (\<lambda>a b. \<exists>q. registry_route repr a (rt_get rows a) = Some q \<and> same_route q b) ?ks live"
    unfolding table list_all2_map2
  proof (rule list.rel_refl_strong)
    fix a assume "a \<in> set ?ks"
    then obtain r where r: "r \<in> set placed" "a = gr_alias r" by auto
    show "\<exists>q. registry_route repr a (rt_get rows a) = Some q \<and> same_route q (the (dget (map (\<lambda>r. (gr_alias r, r)) placed) a))"
      using M(3)[OF hosts r(1)] pick[OF r(1)] r(2) by simp
  qed
  have same: "list_all2 same_route ?reg live" unfolding reg by (rule map_filter_all[OF all])
  have names: "map gr_alias ?reg = ?ks"
  proof -
    have "map gr_alias live = ?ks"
      unfolding table map_map using pick by (auto simp: comp_def intro!: map_idI)
    moreover have "map gr_alias ?reg = map gr_alias live"
      using same by (induction rule: list_all2_induct) (auto simp: same_route_fields)
    ultimately show ?thesis by simp
  qed
  have "route_table [?reg] = ?reg"
  proof -
    have d: "distinct (map gr_alias ?reg)" unfolding names using assms(4) by simp
    have "the (dget (map (\<lambda>r. (gr_alias r, r)) ?reg) (gr_alias r)) = r" if "r \<in> set ?reg" for r
      using dget_keyed[OF d that] by simp
    moreover have "sort (map gr_alias ?reg) = map gr_alias ?reg" unfolding names by (simp add: sorted_sort_id)
    ultimately show ?thesis by (simp only: route_table_distinct[OF d] map_map) (simp add: comp_def map_idI)
  qed
  then have "front_door_routes sha repr False None [] {} ?reg [] [] = Inr (?reg, [])"
    by (simp add: front_door_routes_def deployment_routes_def Let_def catalog_routes_def route_table_def)
  then show ?thesis using same by blast
qed

text \<open>The registry's round trip on a vLLM and an Ollama deployment.\<close>

definition demo_placed :: "gw_deployment list" where
  "demo_placed =
     [\<lparr>gd_id = ''g-1'', gd_created_at = 1, gd_engine = ''vllm'', gd_spec = [(''served_model_name'', JStr ''q'')],
       gd_served = [(''b'', JObj [(''max_input_tokens'', JInt 4)])]\<rparr>,
      \<lparr>gd_id = ''g-2'', gd_created_at = 0, gd_engine = ''ollama'', gd_spec = [(''host'', JStr ''h'')],
       gd_served = [(''a'', JObj [(''model'', JStr ''t'')])]\<rparr>]"

definition demo_live :: "route list" where
  "demo_live =
     [\<lparr>gr_alias = ''a'', gr_kind = ''ollama'', gr_model = JStr ''t'', gr_base = ''http://ollama-h:11434'', gr_key_env = JNull,
       gr_id = None, gr_origin = ''deployment'', gr_window = JNull\<rparr>,
      \<lparr>gr_alias = ''b'', gr_kind = ''openai'', gr_model = JStr ''q'', gr_base = ''http://vllm-q:8000/v1'', gr_key_env = JNull,
       gr_id = None, gr_origin = ''deployment'', gr_window = JInt 4\<rparr>]"

definition demo_rows :: "(string, json) dict" where
  "demo_rows = [(''b'', JObj [(''engine'', JStr ''vllm''), (''served'', JStr ''q''), (''max_input_tokens'', JInt 4)]),
     (''a'', JObj [(''engine'', JStr ''ollama''), (''model'', JStr ''t''), (''host'', JStr ''h'')])]"

lemma demo_routes:
  "front_door_routes (\<lambda>s. s) (\<lambda>_. []) False None demo_placed {''g-1'', ''g-2''} [] [] [] = Inr (demo_live, [])"
  "deployment_routes (\<lambda>s. s) (\<lambda>_. []) False None demo_placed {''g-1'', ''g-2''} = Inr demo_live"
  "remembered_rows demo_placed {''g-1'', ''g-2''} {} [] = Inr demo_rows"
  "distinct (map gr_alias demo_live)" "list_all routable demo_live" "list_all (\<lambda>d. truthy (gd_host d)) demo_placed"
  by code_simp+

theorem remembered_routes_survive_release_witness:
  "\<exists>released. front_door_routes (\<lambda>s. s) (\<lambda>_. []) False None [] {}
       (registry_routes (\<lambda>_. []) (JObj [(''version'', JInt 1), (''entries'', JObj demo_rows)])) [] [] = Inr (released, [])
     \<and> list_all2 same_route released demo_live"
  by (rule remembered_routes_survive_release[OF demo_routes])

section \<open>An acquired endpoint keeps its catalog route\<close>

text \<open>The deployment a request creates (\<open>ledger.plan_acquire\<close>), as the gateway reads it.\<close>

definition fields_of :: "json \<Rightarrow> (string, json) dict" where
  "fields_of v = (case v of JObj kvs \<Rightarrow> kvs | _ \<Rightarrow> [])"

definition gw_deployment_of :: "string \<Rightarrow> rat \<Rightarrow> json \<Rightarrow> gw_deployment" where
  "gw_deployment_of did now req =
     \<lparr>gd_id = did, gd_created_at = now,
      gd_engine = (case rt_get (fields_of req) ''engine'' of JStr e \<Rightarrow> e | _ \<Rightarrow> []),
      gd_spec = fields_of (rt_get (fields_of req) ''spec''),
      gd_served = (case rt_get (fields_of req) ''endpoint'' of
         JStr e \<Rightarrow> [(e, rt_get (fields_of req) ''served'')] | _ \<Rightarrow> [])\<rparr>"

lemma parse_items_get:
  "parse_items f kvs = Inr xs \<Longrightarrow> dget xs k = Some x \<Longrightarrow> \<exists>v. f k v = Inr x"
  by (induction kvs arbitrary: xs rule: parse_items.induct[of _ f]) (auto simp: bind_err_Inr dget_def split: if_splits)

lemma parsed_endpoint:
  assumes "from_dict repr valid_url source = Inr cat" and "dget (ca_endpoints cat) name = Some ep"
  shows "\<exists>spec. parse_endpoint repr name spec = Inr ep" and "endpoint_errors repr valid_url cat ep = Inr []"
proof -
  obtain data where d: "parts_of repr data = Inr cat" "catalog_errors repr valid_url cat = Inr []"
    using assms(1) by (auto simp: from_dict_Inr)
  then obtain eps where "parse_items (parse_endpoint repr) eps = Inr (ca_endpoints cat)"
    by (auto simp: parts_of_def bind_err_Inr)
  then show "\<exists>spec. parse_endpoint repr name spec = Inr ep" using parse_items_get assms(2) by metis
  show "endpoint_errors repr valid_url cat ep = Inr []"
    using d(2) dget_SomeD[OF assms(2)] unfolding catalog_errors_Nil by (force simp: dvals_def)
qed

lemma parse_endpoint_name: "parse_endpoint repr name spec = Inr ep \<Longrightarrow> ep_name ep = name"
  by (auto simp: parse_endpoint_def bind_err_Inr split: if_splits)

lemma parse_endpoint_engine:
  assumes "parse_endpoint repr name spec = Inr ep" and "ep_engine ep = JStr e" and "e \<noteq> []"
  shows "dget (ep_raw ep) ''external'' = None"
  using assms unfolding dget_None_iff by (auto simp: parse_endpoint_def bind_err_Inr split: if_splits)

lemma ollama_model:
  assumes "endpoint_errors repr valid_url cat ep = Inr []" and "dget (ep_raw ep) ''external'' = None"
    and "ep_engine ep = JStr ''ollama''"
  shows "truthy (ep_model ep)"
proof -
  obtain ps where ps: "engine_errors cat ep = Inr ps" "ps = []"
    using assms(1,2) by (auto simp: endpoint_errors_def bind_err_Inr Let_def split: option.splits)
  then show ?thesis using assms(3) by (auto simp: engine_errors_def bind_err_Inr split: if_splits)
qed

lemma window_of_JObj: "window_of (JObj rt) = effective_max_model_len rt"
  by (cases rt) (simp_all add: window_of_def truthy_def)


lemma resolve_engine:
  "resolve_endpoint repr cat name JNull = Inr r \<Longrightarrow> rs_target r = Managed req \<Longrightarrow> \<exists>ep. dget (ca_endpoints cat) name = Some ep \<and>
     (ep_engine ep = JStr ''vllm'' \<and> resolve_vllm repr cat ep (ep_sharing ep) = Inr req
      \<or> ep_engine ep = JStr ''ollama'' \<and> resolve_ollama cat ep (ep_sharing ep) = Inr req)"
  by (auto simp: resolve_endpoint_def bind_err_Inr py_or_def truthy_def Let_def split: option.splits if_splits)

text \<open>What a resolved request holds.\<close>

lemma py_raises_Inr [simp]: "py_raises v = Inr x \<longleftrightarrow> v = Inr x"
  by (cases v) (simp_all add: py_raises_def)

lemma vllm_request:
  assumes "resolve_vllm repr cat ep share = Inr req"
  obtains structural capacity hf window spec where
    "effective_max_model_len (ep_runtime ep) = Inr window"
    "rt_get spec ''served_model_name'' = py_or (ep_served_name ep) (JStr (ep_name ep))"
    "rt_get spec ''runtime'' = JObj (ep_runtime ep)"
    "req = request_json (ep_name ep) ''vllm'' structural capacity share spec
       [(''served_model_name'', py_or (ep_served_name ep) (JStr (ep_name ep))), (''hf_model_id'', hf),
        (''protocol'', JStr (ep_protocol ep)), (''max_input_tokens'', window)] JNull"
proof -
  obtain found where f: "hash_get (ca_models cat) (ep_model ep) = Inr found"
    using assms unfolding resolve_vllm_def bind_err_Inr py_raises_Inr by blast
  obtain m where m: "hash_get (ca_models cat) (ep_model ep) = Inr (Some m)"
    using assms f by (cases found) (simp_all add: resolve_vllm_def py_raises_def)
  obtain structural hf window where w: "effective_max_model_len (ep_runtime ep) = Inr window"
    and req: "req = request_json (ep_name ep) ''vllm'' structural
              (case rt_get (ep_runtime ep) ''max_model_len'' of JNull \<Rightarrow> [] | v \<Rightarrow> [(''max_model_len'', v)]) share
              ([(''engine'', JStr ''vllm''), (''hf_model_id'', hf), (''served_model_name'', py_or (ep_served_name ep) (JStr (ep_name ep))),
                (''revision'', ms_revision m), (''quantization'', ms_quantization m), (''dtype'', ms_dtype m),
                (''runtime'', JObj (ep_runtime ep)), (''reclaim'', ep_reclaim ep)]
               @ (if ep_placement ep = [] then [] else [(''placement'', JObj (ep_placement ep))]))
              [(''served_model_name'', py_or (ep_served_name ep) (JStr (ep_name ep))), (''hf_model_id'', hf), (''protocol'', JStr (ep_protocol ep)),
               (''max_input_tokens'', window)] JNull"
    using assms unfolding resolve_vllm_def m Let_def py_raises_def[of "Inr (Some m)"] sum.case bind_err_simps option.case
      bind_err_Inr py_raises_Inr by blast
  show thesis
    by (rule that[OF w _ _ req]) (simp_all add: rt_get_def dget_def)
qed

lemma ollama_request:
  assumes "resolve_ollama cat ep share = Inr req"
  obtains structural spec where "truthy (ep_host ep)" "rt_get spec ''host'' = ep_host ep"
    "req = request_json (ep_name ep) ''ollama'' structural [] share spec [(''model'', ep_model ep)] (ep_host ep)"
proof -
  have t: "truthy (ep_host ep)" using assms by (auto simp: resolve_ollama_def split: if_splits)
  obtain found where f: "hash_get (ca_hosts cat) (ep_host ep) = Inr found"
    using assms t by (auto simp: resolve_ollama_def bind_err_Inr)
  obtain h where h: "hash_get (ca_hosts cat) (ep_host ep) = Inr (Some h)"
    using assms f t by (cases found) (simp_all add: resolve_ollama_def py_raises_def)
  let ?sp = "[(''engine'', JStr ''ollama''), (''host'', ep_host ep), (''image'', hs_image h),
    (''gpu_indices'', JList (hs_gpu_indices h)), (''settings'', JObj (hs_settings h)), (''model_store'', hs_model_store h),
    (''reclaim'', ep_reclaim ep)]"
  have "\<exists>structural. req = request_json (ep_name ep) ''ollama'' structural [] share ?sp [(''model'', ep_model ep)] (ep_host ep)"
    using assms h t unfolding resolve_ollama_def by (simp add: py_raises_def Let_def) blast
  then obtain structural where "req = request_json (ep_name ep) ''ollama'' structural [] share ?sp [(''model'', ep_model ep)] (ep_host ep)"
    by blast
  then show thesis by (rule that[OF t, rotated]) (simp add: rt_get_def dget_def)
qed

text \<open>
  A catalog endpoint that is acquired routes as its catalog route does: for every endpoint of a valid
  catalog, the one static route of the deployment its request creates has the alias, the upstream model,
  the base URL and the advertised window of the route rendered from the catalog alone, whatever the
  deployment's id, so whether an endpoint is live or released never moves the gateway's configuration.
\<close>

theorem acquired_endpoint_keeps_its_route:
  assumes "from_dict repr valid_url source = Inr cat"
    and "resolve_endpoint repr cat name JNull = Inr r" and "rs_target r = Managed req"
    and "compose_catalog_route repr name req = Inr (Some c)"
  shows "\<exists>q. routes_of_deployment sha repr False None (gw_deployment_of did now req) = Inr [q] \<and> same_route q c"
proof -
  obtain ep where ep: "dget (ca_endpoints cat) name = Some ep"
    and e: "ep_engine ep = JStr ''vllm'' \<and> resolve_vllm repr cat ep (ep_sharing ep) = Inr req
      \<or> ep_engine ep = JStr ''ollama'' \<and> resolve_ollama cat ep (ep_sharing ep) = Inr req"
    using resolve_engine[OF assms(2,3)] by blast
  obtain spec where spec: "parse_endpoint repr name spec = Inr ep" using parsed_endpoint(1)[OF assms(1) ep] by blast
  note name = parse_endpoint_name[OF spec]
  from e show ?thesis
  proof
    assume v: "ep_engine ep = JStr ''vllm'' \<and> resolve_vllm repr cat ep (ep_sharing ep) = Inr req"
    show ?thesis
    proof (rule vllm_request[OF conjunct2[OF v]], goal_cases)
      case (1 structural capacity hf window sp)
      have sn: "rt_get sp ''served_model_name'' = py_or (ep_served_name ep) (JStr name)" using 1(2) name by simp
      have c: "c = \<lparr>gr_alias = name, gr_kind = ''openai'', gr_model = py_or (py_or (ep_served_name ep) (JStr name)) (JStr name),
          gr_base = vllm_base (vllm_service_name_for (py_str repr (py_or (py_or (ep_served_name ep) (JStr name)) (JStr name)))),
          gr_key_env = JNull, gr_id = None, gr_origin = ''catalog'', gr_window = window\<rparr>"
        using assms(4) 1(1,3) name unfolding 1(4) compose_catalog_route_def request_json_def
        by (simp add: py_get_def dget_def rt_get_def Let_def window_of_JObj split: option.splits)
      have d: "gw_deployment_of did now req = \<lparr>gd_id = did, gd_created_at = now, gd_engine = ''vllm'', gd_spec = sp,
          gd_served = [(name, JObj [(''served_model_name'', py_or (ep_served_name ep) (JStr name)), (''hf_model_id'', hf),
            (''protocol'', JStr (ep_protocol ep)), (''max_input_tokens'', window)])]\<rparr>"
        unfolding 1(4) by (simp add: gw_deployment_of_def fields_of_def request_json_def rt_get_def dget_def name)
      have w: "deployment_route_max_input_tokens (gw_deployment_of did now req) name None = Inr window"
        unfolding d using 1(1,3)
        by (cases window) (simp_all add: deployment_route_max_input_tokens_def served_window_def catalog_window_def
            rt_get_def dget_def window_of_JObj)
      have n: "gd_served_name (gw_deployment_of did now req) = py_or (py_or (ep_served_name ep) (JStr name)) (JStr name)"
        unfolding d by (simp add: gd_served_name_def sn dkeys_def)
      have k: "sort (dkeys (gd_served (gw_deployment_of did now req))) = [name]" "gd_engine (gw_deployment_of did now req) = ''vllm''"
        unfolding d by (simp_all add: dkeys_def)
      show ?case
        unfolding routes_of_deployment_def k c by (simp add: vllm_route_def w n same_route_fields Let_def)
    qed
  next
    assume o: "ep_engine ep = JStr ''ollama'' \<and> resolve_ollama cat ep (ep_sharing ep) = Inr req"
    have model: "truthy (ep_model ep)"
      using ollama_model[OF parsed_endpoint(2)[OF assms(1) ep]] parse_endpoint_engine[OF spec] o by simp
    obtain structural sp where host: "truthy (ep_host ep)" and sp: "rt_get sp ''host'' = ep_host ep"
      and req: "req = request_json name ''ollama'' structural [] (ep_sharing ep) sp [(''model'', ep_model ep)] (ep_host ep)"
      using ollama_request[OF conjunct2[OF o]] name by metis
    have c: "c = \<lparr>gr_alias = name, gr_kind = ''ollama'', gr_model = ep_model ep,
        gr_base = ollama_base (ollama_service_name_for (py_str repr (ep_host ep))), gr_key_env = JNull, gr_id = None,
        gr_origin = ''catalog'', gr_window = JNull\<rparr>"
      using assms(4) sp host model unfolding req compose_catalog_route_def request_json_def
      by (simp add: py_get_def dget_def rt_get_def py_or_def split: option.splits)
    show ?thesis
      unfolding c req using sp host
      by (simp add: routes_of_deployment_def gw_deployment_of_def fields_of_def request_json_def rt_get_def[of _ "''engine''"]
          rt_get_def[of _ "''spec''"] rt_get_def[of _ "''endpoint''"] rt_get_def[of _ "''served''"] dget_def
          ollama_route_def served_model_def gd_host_def py_or_def same_route_fields)
  qed
qed


text \<open>A catalog with one vLLM endpoint.\<close>

definition demo_catalog_source :: json where
  "demo_catalog_source = JObj [(''models'', JObj [(''m'', JObj [(''source'', JStr ''q'')])]),
     (''endpoints'', JObj [(''a'', JObj [(''engine'', JStr ''vllm''), (''model'', JStr ''m''),
        (''runtime'', JObj [(''max_model_len'', JInt 4)])])])]"

lemma demo_catalog:
  "\<not> isl (from_dict (\<lambda>_. []) (\<lambda>_. True) demo_catalog_source)"
  "(case from_dict (\<lambda>_. []) (\<lambda>_. True) demo_catalog_source of Inl _ \<Rightarrow> False | Inr cat \<Rightarrow>
     (case resolve_endpoint (\<lambda>_. []) cat ''a'' JNull of Inl _ \<Rightarrow> False | Inr r \<Rightarrow>
       (case rs_target r of External _ \<Rightarrow> False | Managed req \<Rightarrow>
         (case compose_catalog_route (\<lambda>_. []) ''a'' req of Inr (Some c) \<Rightarrow> gr_base c = ''http://vllm-a:8000/v1'' \<and> gr_window c = JInt 4
           | _ \<Rightarrow> False))))"
  by code_simp+

theorem acquired_endpoint_keeps_its_route_witness:
  "\<exists>req q. routes_of_deployment (\<lambda>s. s) (\<lambda>_. []) False None (gw_deployment_of ''g-1'' 0 req) = Inr [q]
     \<and> gr_base q = ''http://vllm-a:8000/v1'' \<and> gr_window q = JInt 4"
proof -
  obtain cat where cat: "from_dict (\<lambda>_. []) (\<lambda>_. True) demo_catalog_source = Inr cat"
    using demo_catalog(1) by (cases "from_dict (\<lambda>_. []) (\<lambda>_. True) demo_catalog_source") auto
  obtain r where r: "resolve_endpoint (\<lambda>_. []) cat ''a'' JNull = Inr r"
    using demo_catalog(2) cat by (cases "resolve_endpoint (\<lambda>_. []) cat ''a'' JNull") auto
  obtain req where req: "rs_target r = Managed req" using demo_catalog(2) cat r by (cases "rs_target r") auto
  obtain c where c: "compose_catalog_route (\<lambda>_. []) ''a'' req = Inr (Some c)"
    "gr_base c = ''http://vllm-a:8000/v1''" "gr_window c = JInt 4"
    using demo_catalog(2) cat r req by (auto split: sum.splits option.splits)
  from acquired_endpoint_keeps_its_route[OF cat r req c(1), where sha = "\<lambda>s. s" and did = "''g-1''" and now = 0]
  show ?thesis using c(2,3) unfolding same_route_fields by metis
qed

end
