(* ===== verification/Reconcile.thy ===== *)
theory Reconcile
  imports
  Gateway
begin

text \<open>
  Reconciling the live gateway's managed routes with the rendered ones
  (\<open>Gateway._reconcile_routes\<close> of \<open>leasing/gateway.py\<close>).

  The gateway's admin API, the clock and the sleep are parameters: operations on a world \<open>'w\<close>. A listing
  answers the decoded \<open>data\<close> of a 200 response, or nothing; a post answers the status and the text, or
  nothing when it raised. The loops need not end, so a result is an option.
\<close>

section \<open>The admin API\<close>

record 'w admin =
  ad_clock :: "'w \<Rightarrow> rat"
  ad_sleep :: "rat \<Rightarrow> 'w \<Rightarrow> 'w"
  ad_list :: "rat \<Rightarrow> 'w \<Rightarrow> 'w \<times> json list option"
  ad_post :: "string \<Rightarrow> json \<Rightarrow> rat \<Rightarrow> 'w \<Rightarrow> 'w \<times> (nat \<times> string) option"

definition MODEL_NEW :: string where "MODEL_NEW = ''/model/new''"
definition MODEL_DELETE :: string where "MODEL_DELETE = ''/model/delete''"

section \<open>What a route means to the gateway\<close>

record semantics =
  se_name :: json
  se_model :: json
  se_base :: json
  se_key_env :: json
  se_window :: json

text \<open>\<open>x.get(k)\<close> of an object, \<open>None\<close> of anything else.\<close>

definition field :: "string \<Rightarrow> json \<Rightarrow> json" where
  "field k v = (case v of JObj kvs \<Rightarrow> rt_get kvs k | _ \<Rightarrow> JNull)"

definition route_semantics :: "json \<Rightarrow> semantics" where
  "route_semantics r = (let params = field ''litellm_params'' r; info = field ''model_info'' r in
     \<lparr>se_name = field ''model_name'' r, se_model = field ''model'' params, se_base = field ''api_base'' params,
      se_key_env = field ''infer_stack_key_env'' info, se_window = field ''max_input_tokens'' info\<rparr>)"

definition semantics_match :: "semantics \<Rightarrow> semantics \<Rightarrow> bool" where
  "semantics_match desired current =
     (desired = (if se_window desired = JNull then current\<lparr>se_window := JNull\<rparr> else current))"

definition route_key :: "json \<Rightarrow> string option" where
  "route_key r = (case field ''id'' (field ''model_info'' r) of JStr i \<Rightarrow> if i = [] then None else Some i | _ \<Rightarrow> None)"

text \<open>The rendered routes by id; a later row of an id wins.\<close>

definition desired_routes :: "json list \<Rightarrow> (string, json) dict" where
  "desired_routes rs = fold (\<lambda>r t. case route_key r of None \<Rightarrow> t | Some i \<Rightarrow> dput i r t) rs []"

definition is_managed :: "string \<Rightarrow> bool" where
  "is_managed i \<longleftrightarrow> is_prefix ROUTE_ID_PREFIX i"

definition managed_routes :: "json list \<Rightarrow> (string, semantics) dict" where
  "managed_routes data = fold (\<lambda>m t. case route_key m of None \<Rightarrow> t
     | Some i \<Rightarrow> if is_managed i then dput i (route_semantics m) t else t) data []"

section \<open>Listing\<close>

partial_function (option) list_managed :: "'w admin \<Rightarrow> rat \<Rightarrow> rat \<Rightarrow> 'w \<Rightarrow> ('w \<times> (string, semantics) dict option) option" where
  "list_managed a deadline delay w =
     (let remaining = deadline - ad_clock a w in
      if remaining \<le> 0 then Some (w, None)
      else (case ad_list a (min 10 remaining) w of
          (w, Some data) \<Rightarrow> Some (w, Some (managed_routes data))
        | (w, None) \<Rightarrow>
            if deadline - ad_clock a w \<le> delay then Some (w, None)
            else list_managed a deadline delay (ad_sleep a delay w)))"

section \<open>Posting\<close>

definition reached :: "bool \<Rightarrow> (nat \<times> string) option \<Rightarrow> bool" where
  "reached ok_if_missing answer = (case answer of None \<Rightarrow> False
     | Some (status, body) \<Rightarrow> status < 300 \<or> ok_if_missing \<and> is_substring ''not found'' (py_lower body))"

definition post_route :: "'w admin \<Rightarrow> string \<Rightarrow> json \<Rightarrow> bool \<Rightarrow> rat \<Rightarrow> 'w \<Rightarrow> 'w \<times> bool" where
  "post_route a path payload ok_if_missing deadline w =
     (let remaining = deadline - ad_clock a w in
      if remaining \<le> 0 then (w, False)
      else (case ad_post a path payload (min 30 remaining) w of (w, answer) \<Rightarrow> (w, reached ok_if_missing answer)))"

definition delete_route :: "'w admin \<Rightarrow> rat \<Rightarrow> string \<Rightarrow> 'w \<times> bool \<Rightarrow> 'w \<times> bool" where
  "delete_route a deadline i st = (case st of (w, ok) \<Rightarrow>
     (case post_route a MODEL_DELETE (JObj [(''id'', JStr i)]) True deadline w of (w, done) \<Rightarrow> (w, ok \<and> done)))"

definition add_route :: "'w admin \<Rightarrow> rat \<Rightarrow> json \<Rightarrow> 'w \<times> bool \<Rightarrow> 'w \<times> bool" where
  "add_route a deadline r st = (case st of (w, ok) \<Rightarrow>
     (case post_route a MODEL_NEW r False deadline w of (w, done) \<Rightarrow> (w, ok \<and> done)))"

section \<open>The loop\<close>

definition mismatched :: "bool \<Rightarrow> (string, json) dict \<Rightarrow> (string, semantics) dict \<Rightarrow> string list" where
  "mismatched retire_only desired current = (if retire_only then [] else
     sort (filter (\<lambda>i. case (dget desired i, dget current i) of
        (Some r, Some s) \<Rightarrow> \<not> semantics_match (route_semantics r) s | _ \<Rightarrow> False) (dkeys desired)))"

definition to_add :: "bool \<Rightarrow> (string, json) dict \<Rightarrow> (string, semantics) dict \<Rightarrow> string list" where
  "to_add retire_only desired current = (if retire_only then [] else
     sort (filter (\<lambda>i. i \<notin> set (dkeys current) \<or> i \<in> set (mismatched retire_only desired current)) (dkeys desired)))"

definition to_delete :: "bool \<Rightarrow> (string, json) dict \<Rightarrow> (string, semantics) dict \<Rightarrow> string list" where
  "to_delete retire_only desired current =
     sort (filter (\<lambda>i. i \<notin> set (dkeys desired) \<or> i \<in> set (mismatched retire_only desired current)) (dkeys current))"

definition apply_diff :: "'w admin \<Rightarrow> bool \<Rightarrow> rat \<Rightarrow> (string, json) dict \<Rightarrow> (string, semantics) dict \<Rightarrow> 'w \<Rightarrow> 'w \<times> bool" where
  "apply_diff a retire_only deadline desired current w =
     fold (\<lambda>i. add_route a deadline (the (dget desired i))) (to_add retire_only desired current)
       (fold (delete_route a deadline) (to_delete retire_only desired current) (w, True))"

partial_function (option) reconcile_loop ::
    "'w admin \<Rightarrow> bool \<Rightarrow> rat \<Rightarrow> rat \<Rightarrow> (string, json) dict \<Rightarrow> 'w \<Rightarrow> ('w \<times> bool) option" where
  "reconcile_loop a retire_only deadline delay desired w =
     Option.bind (list_managed a deadline delay w) (\<lambda>(w, listed). case listed of
         None \<Rightarrow> Some (w, False)
       | Some current \<Rightarrow>
           if to_add retire_only desired current = [] \<and> to_delete retire_only desired current = [] then Some (w, True)
           else (case apply_diff a retire_only deadline desired current w of (w, ok) \<Rightarrow>
             if ok then reconcile_loop a retire_only deadline delay desired w
             else if deadline - ad_clock a w \<le> delay then Some (w, False)
             else reconcile_loop a retire_only deadline delay desired (ad_sleep a delay w)))"

declare list_managed.simps [code] reconcile_loop.simps [code]

definition reconcile_routes :: "'w admin \<Rightarrow> bool \<Rightarrow> rat \<Rightarrow> rat \<Rightarrow> json list \<Rightarrow> 'w \<Rightarrow> ('w \<times> bool) option" where
  "reconcile_routes a retire_only deadline_s delay rendered w =
     reconcile_loop a retire_only (ad_clock a w + max 0 deadline_s) delay (desired_routes rendered) w"

section \<open>The calls made\<close>

definition allowed :: "bool \<Rightarrow> json list \<Rightarrow> string \<Rightarrow> json \<Rightarrow> bool" where
  "allowed retire_only rendered path payload \<longleftrightarrow>
     path = MODEL_DELETE \<and> (\<exists>i. is_managed i \<and> payload = JObj [(''id'', JStr i)])
     \<or> \<not> retire_only \<and> path = MODEL_NEW \<and> payload \<in> set rendered"

lemma desired_routes_snoc:
  "desired_routes (rs @ [r]) = (case route_key r of None \<Rightarrow> desired_routes rs | Some i \<Rightarrow> dput i r (desired_routes rs))"
  by (cases "route_key r") (simp_all add: desired_routes_def)

lemma desired_routes_get: "dget (desired_routes rs) i = Some r \<Longrightarrow> r \<in> set rs \<and> route_key r = Some i"
proof (induction rs rule: rev_induct)
  case (snoc q rs)
  then show ?case by (cases "route_key q") (auto simp: desired_routes_snoc split: if_splits)
qed (simp add: desired_routes_def)

lemma desired_routes_keys: "set (dkeys (desired_routes rs)) = {i. \<exists>r \<in> set rs. route_key r = Some i}"
proof (induction rs rule: rev_induct)
  case (snoc q rs)
  then show ?case by (cases "route_key q") (auto simp: desired_routes_snoc)
qed (simp add: desired_routes_def)

lemma managed_routes_snoc:
  "managed_routes (ms @ [m]) = (case route_key m of None \<Rightarrow> managed_routes ms
     | Some i \<Rightarrow> if is_managed i then dput i (route_semantics m) (managed_routes ms) else managed_routes ms)"
  by (cases "route_key m") (simp_all add: managed_routes_def)

lemma managed_routes_managed: "i \<in> set (dkeys (managed_routes ms)) \<Longrightarrow> is_managed i"
proof (induction ms rule: rev_induct)
  case (snoc m ms)
  then show ?case by (cases "route_key m") (auto simp: managed_routes_snoc split: if_splits)
qed (simp add: managed_routes_def)

lemma post_route_keeps:
  assumes "\<And>t w. I w \<Longrightarrow> I (fst (ad_post a path payload t w))" and "I w"
  shows "I (fst (post_route a path payload ok deadline w))"
  using assms(1)[OF assms(2), of "min 30 (deadline - ad_clock a w)"] assms(2)
  by (simp add: post_route_def Let_def case_prod_unfold)

lemma delete_routes_keep:
  assumes "\<And>i t w. i \<in> set ids \<Longrightarrow> I w \<Longrightarrow> I (fst (ad_post a MODEL_DELETE (JObj [(''id'', JStr i)]) t w))" and "I (fst st)"
  shows "I (fst (fold (delete_route a deadline) ids st))"
  using assms
proof (induction ids arbitrary: st)
  case (Cons i ids)
  have "I (fst (post_route a MODEL_DELETE (JObj [(''id'', JStr i)]) True deadline (fst st)))"
    by (rule post_route_keeps) (use Cons.prems in auto)
  then have "I (fst (delete_route a deadline i st))" by (simp add: delete_route_def case_prod_unfold)
  then show ?case using Cons by simp
qed simp

lemma add_routes_keep:
  assumes "\<And>i t w. i \<in> set ids \<Longrightarrow> I w \<Longrightarrow> I (fst (ad_post a MODEL_NEW (f i) t w))" and "I (fst st)"
  shows "I (fst (fold (\<lambda>i. add_route a deadline (f i)) ids st))"
  using assms
proof (induction ids arbitrary: st)
  case (Cons i ids)
  have "I (fst (post_route a MODEL_NEW (f i) False deadline (fst st)))"
    by (rule post_route_keeps) (use Cons.prems in auto)
  then have "I (fst (add_route a deadline (f i) st))" by (simp add: add_route_def case_prod_unfold)
  then show ?case using Cons by simp
qed simp

text \<open>What the listing and the calls keep, a round keeps.\<close>

definition kept_by :: "'w admin \<Rightarrow> bool \<Rightarrow> json list \<Rightarrow> ('w \<Rightarrow> bool) \<Rightarrow> bool" where
  "kept_by a retire_only rendered I \<longleftrightarrow> (\<forall>d w. I w \<longrightarrow> I (ad_sleep a d w)) \<and> (\<forall>t w. I w \<longrightarrow> I (fst (ad_list a t w)))
     \<and> (\<forall>path payload t w. allowed retire_only rendered path payload \<longrightarrow> I w \<longrightarrow> I (fst (ad_post a path payload t w)))"

lemma apply_diff_keeps:
  assumes k: "kept_by a retire_only rendered I" and "I w"
  shows "I (fst (apply_diff a retire_only deadline (desired_routes rendered) (managed_routes data) w))"
  unfolding apply_diff_def
proof (rule add_routes_keep)
  fix i t w assume i: "i \<in> set (to_add retire_only (desired_routes rendered) (managed_routes data))" and w: "I w"
  then have k': "i \<in> set (dkeys (desired_routes rendered))" and r: "\<not> retire_only" by (auto simp: to_add_def split: if_splits)
  from k' obtain r where "dget (desired_routes rendered) i = Some r" by (rule in_dkeysE)
  then have "the (dget (desired_routes rendered) i) \<in> set rendered" using desired_routes_get by auto
  then show "I (fst (ad_post a MODEL_NEW (the (dget (desired_routes rendered) i)) t w))"
    using k w r by (simp add: kept_by_def allowed_def)
next
  show "I (fst (fold (delete_route a deadline) (to_delete retire_only (desired_routes rendered) (managed_routes data)) (w, True)))"
  proof (rule delete_routes_keep)
    fix i t w assume "i \<in> set (to_delete retire_only (desired_routes rendered) (managed_routes data))" and w: "I w"
    then have "is_managed i" using managed_routes_managed by (auto simp: to_delete_def)
    then show "I (fst (ad_post a MODEL_DELETE (JObj [(''id'', JStr i)]) t w))" using k w by (simp add: kept_by_def allowed_def)
  qed (simp add: assms(2))
qed

lemma list_managed_spec:
  assumes "list_managed a deadline delay w = Some y" and "\<And>d w. I w \<Longrightarrow> I (ad_sleep a d w)" and "\<And>t w. I w \<Longrightarrow> I (fst (ad_list a t w))"
    and "I w"
  shows "I (fst y) \<and> (case snd y of None \<Rightarrow> True | Some c \<Rightarrow> \<exists>t w1 data. ad_list a t w1 = (fst y, Some data) \<and> c = managed_routes data)"
proof -
  let ?P = "\<lambda>a deadline delay w y. (\<forall>d w. I w \<longrightarrow> I (ad_sleep a d w)) \<longrightarrow> (\<forall>t w. I w \<longrightarrow> I (fst (ad_list a t w))) \<longrightarrow> I w \<longrightarrow>
     I (fst y) \<and> (case snd y of None \<Rightarrow> True | Some c \<Rightarrow> \<exists>t w1 data. ad_list a t w1 = (fst y, Some data) \<and> c = managed_routes data)"
  have "?P a deadline delay w y"
  proof (rule list_managed.raw_induct[where P = ?P, OF _ assms(1)], intro impI)
    fix loop :: "'a admin \<Rightarrow> rat \<Rightarrow> rat \<Rightarrow> 'a \<Rightarrow> ('a \<times> (string, semantics) dict option) option"
    fix a deadline delay w y
    assume IH: "\<And>a deadline delay w y. loop a deadline delay w = Some y \<Longrightarrow> ?P a deadline delay w y"
      and eq: "(let remaining = deadline - ad_clock a w in
        if remaining \<le> 0 then Some (w, None)
        else (case ad_list a (min 10 remaining) w of
            (w, Some data) \<Rightarrow> Some (w, Some (managed_routes data))
          | (w, None) \<Rightarrow>
              if deadline - ad_clock a w \<le> delay then Some (w, None)
              else loop a deadline delay (ad_sleep a delay w))) = Some y"
      and s: "\<forall>d w. I w \<longrightarrow> I (ad_sleep a d w)" and l: "\<forall>t w. I w \<longrightarrow> I (fst (ad_list a t w))" and w: "I w"
    show "I (fst y) \<and> (case snd y of None \<Rightarrow> True | Some c \<Rightarrow> \<exists>t w1 data. ad_list a t w1 = (fst y, Some data) \<and> c = managed_routes data)"
    proof (cases "deadline - ad_clock a w \<le> 0")
      case True
      then show ?thesis using eq w by auto
    next
      case False
      let ?t = "min 10 (deadline - ad_clock a w)"
      obtain w1 r where r: "ad_list a ?t w = (w1, r)" by fastforce
      have w1: "I w1" using l w r by (metis fst_conv)
      show ?thesis
      proof (cases r)
        case None
        show ?thesis
        proof (cases "deadline - ad_clock a w1 \<le> delay")
          case True
          then show ?thesis using eq False r None w1 by (auto simp: Let_def)
        next
          case F: False
          then have "loop a deadline delay (ad_sleep a delay w1) = Some y" using eq False r None by (simp add: Let_def)
          then show ?thesis using IH s l w1 by blast
        qed
      next
        case (Some data)
        then have "y = (w1, Some (managed_routes data))" using eq False r by (simp add: Let_def)
        then show ?thesis using w1 r Some by auto
      qed
    qed
  qed
  then show ?thesis using assms(2-4) by blast
qed

text \<open>A listing agrees with the rendered routes: none else is managed, and each one has its meaning.\<close>

definition agrees :: "bool \<Rightarrow> json list \<Rightarrow> json list \<Rightarrow> bool" where
  "agrees retire_only rendered data \<longleftrightarrow>
     (\<forall>i. i \<in> set (dkeys (managed_routes data)) \<longrightarrow> i \<in> set (dkeys (desired_routes rendered)))
     \<and> (\<not> retire_only \<longrightarrow> (\<forall>i r. dget (desired_routes rendered) i = Some r \<longrightarrow>
          (\<exists>s. dget (managed_routes data) i = Some s \<and> semantics_match (route_semantics r) s)))"

lemma sort_empty: "sort xs = [] \<longleftrightarrow> xs = []"
  by (metis length_0_conv length_sort)

lemma no_diff_agrees:
  "to_add retire_only (desired_routes rendered) (managed_routes data) = []
     \<and> to_delete retire_only (desired_routes rendered) (managed_routes data) = [] \<longleftrightarrow> agrees retire_only rendered data"
proof -
  let ?D = "desired_routes rendered" and ?C = "managed_routes data"
  have m: "i \<in> set (mismatched retire_only ?D ?C) \<longleftrightarrow> \<not> retire_only \<and> (\<exists>r s. dget ?D i = Some r \<and> dget ?C i = Some s
      \<and> \<not> semantics_match (route_semantics r) s)" for i
    by (auto simp: mismatched_def dget_in_dkeys split: option.splits)
  have d: "to_delete retire_only ?D ?C = [] \<longleftrightarrow> (\<forall>i. i \<in> set (dkeys ?C) \<longrightarrow> i \<in> set (dkeys ?D) \<and> i \<notin> set (mismatched retire_only ?D ?C))"
    by (auto simp: to_delete_def sort_empty filter_empty_conv)
  have a: "to_add retire_only ?D ?C = [] \<longleftrightarrow> retire_only \<or> (\<forall>i. i \<in> set (dkeys ?D) \<longrightarrow> i \<in> set (dkeys ?C) \<and> i \<notin> set (mismatched retire_only ?D ?C))"
    by (auto simp: to_add_def sort_empty filter_empty_conv)
  show ?thesis
    unfolding a d agrees_def
  proof (intro iffI conjI impI allI)
    fix i r assume h: "(retire_only \<or> (\<forall>i. i \<in> set (dkeys ?D) \<longrightarrow> i \<in> set (dkeys ?C) \<and> i \<notin> set (mismatched retire_only ?D ?C)))
      \<and> (\<forall>i. i \<in> set (dkeys ?C) \<longrightarrow> i \<in> set (dkeys ?D) \<and> i \<notin> set (mismatched retire_only ?D ?C))"
      and "\<not> retire_only" and r: "dget ?D i = Some r"
    then have "i \<in> set (dkeys ?C)" "i \<notin> set (mismatched retire_only ?D ?C)" by (auto dest: dget_in_dkeys)
    then obtain s where "dget ?C i = Some s" by (auto elim: in_dkeysE)
    then show "\<exists>s. dget ?C i = Some s \<and> semantics_match (route_semantics r) s"
      using m \<open>i \<notin> set (mismatched retire_only ?D ?C)\<close> r \<open>\<not> retire_only\<close> by blast
  next
    assume h: "(\<forall>i. i \<in> set (dkeys ?C) \<longrightarrow> i \<in> set (dkeys ?D)) \<and> (\<not> retire_only \<longrightarrow> (\<forall>i r. dget ?D i = Some r \<longrightarrow>
          (\<exists>s. dget ?C i = Some s \<and> semantics_match (route_semantics r) s)))"
    then have mm: "i \<notin> set (mismatched retire_only ?D ?C)" for i unfolding m by fastforce
    show "retire_only \<or> (\<forall>i. i \<in> set (dkeys ?D) \<longrightarrow> i \<in> set (dkeys ?C) \<and> i \<notin> set (mismatched retire_only ?D ?C))"
      using h mm by (meson dget_in_dkeys in_dkeysE)
    fix i assume "i \<in> set (dkeys ?C)"
    then show "i \<in> set (dkeys ?D)" using h by blast
    show "i \<notin> set (mismatched retire_only ?D ?C)" by (rule mm)
  qed blast
qed

lemma reconcile_spec:
  assumes "reconcile_loop a retire_only deadline delay (desired_routes rendered) w = Some y"
    and "kept_by a retire_only rendered I" and "I w"
  shows "I (fst y) \<and> (snd y \<longrightarrow> (\<exists>t w1 data. ad_list a t w1 = (fst y, Some data) \<and> agrees retire_only rendered data))"
proof -
  let ?Q = "\<lambda>a retire_only y. I (fst y) \<and> (snd y \<longrightarrow> (\<exists>t w1 data. ad_list a t w1 = (fst y, Some data) \<and> agrees retire_only rendered data))"
  let ?P = "\<lambda>a retire_only deadline delay desired w y. desired = desired_routes rendered \<longrightarrow> kept_by a retire_only rendered I \<longrightarrow> I w
    \<longrightarrow> ?Q a retire_only y"
  have "?P a retire_only deadline delay (desired_routes rendered) w y"
  proof (rule reconcile_loop.raw_induct[where P = ?P, OF _ assms(1)], intro impI)
    fix loop :: "'a admin \<Rightarrow> bool \<Rightarrow> rat \<Rightarrow> rat \<Rightarrow> (string, json) dict \<Rightarrow> 'a \<Rightarrow> ('a \<times> bool) option"
    fix a retire_only deadline delay desired w y
    assume IH: "\<And>a retire_only deadline delay desired w y. loop a retire_only deadline delay desired w = Some y \<Longrightarrow>
        ?P a retire_only deadline delay desired w y"
      and eq: "Option.bind (list_managed a deadline delay w) (\<lambda>(w, listed). case listed of
         None \<Rightarrow> Some (w, False)
       | Some current \<Rightarrow>
           if to_add retire_only desired current = [] \<and> to_delete retire_only desired current = [] then Some (w, True)
           else (case apply_diff a retire_only deadline desired current w of (w, ok) \<Rightarrow>
             if ok then loop a retire_only deadline delay desired w
             else if deadline - ad_clock a w \<le> delay then Some (w, False)
             else loop a retire_only deadline delay desired (ad_sleep a delay w))) = Some y"
      and d: "desired = desired_routes rendered" and k: "kept_by a retire_only rendered I" and w: "I w"
    obtain w1 listed where l: "list_managed a deadline delay w = Some (w1, listed)"
      using eq by (cases "list_managed a deadline delay w") auto
    have sl: "\<And>d w. I w \<Longrightarrow> I (ad_sleep a d w)" "\<And>t w. I w \<Longrightarrow> I (fst (ad_list a t w))" using k by (auto simp: kept_by_def)
    note L = list_managed_spec[OF l sl w, simplified]
    show "?Q a retire_only y"
    proof (cases listed)
      case None
      then show ?thesis using eq l L by auto
    next
      case (Some current)
      obtain t w0 data where data: "ad_list a t w0 = (w1, Some data)" "current = managed_routes data" using L Some by auto
      show ?thesis
      proof (cases "to_add retire_only desired current = [] \<and> to_delete retire_only desired current = []")
        case True
        then have "y = (w1, True)" using eq l Some by simp
        moreover have "agrees retire_only rendered data" using True no_diff_agrees unfolding d data(2) by blast
        ultimately show ?thesis using L data(1) by auto
      next
        case False
        obtain w2 ok where w2: "apply_diff a retire_only deadline desired current w1 = (w2, ok)" by fastforce
        have "I w2" using apply_diff_keeps[OF k, of w1 deadline data] L w2 unfolding d data(2) by simp
        moreover have "I (ad_sleep a delay w2)" using sl(1) \<open>I w2\<close> by blast
        moreover have "loop a retire_only deadline delay desired w2 = Some y \<or> y = (w2, False)
            \<or> loop a retire_only deadline delay desired (ad_sleep a delay w2) = Some y"
          using eq l Some w2 False by (auto split: if_splits)
        ultimately show ?thesis using IH d k by fastforce
      qed
    qed
  qed
  then show ?thesis using assms(2,3) by blast
qed

text \<open>
  C31. Reconciling touches only what infer-stack manages: whatever the gateway answers, the only calls made
  delete a route whose id has infer-stack's prefix or add one of the rendered routes, and none is added
  when only retiring. So every property of the gateway that listing, sleeping and such calls keep (a
  model added by hand is still there, say) holds at the end.
\<close>

theorem reconcile_touches_only_managed:
  assumes "reconcile_routes a retire_only deadline_s delay rendered w = Some (w', ok)"
    and "kept_by a retire_only rendered I" and "I w"
  shows "I w'"
  using reconcile_spec[OF assms(1)[unfolded reconcile_routes_def] assms(2,3)] by simp

text \<open>
  C30. Success is verified: when reconciling reports that the routes match, its last act was a listing in
  which every managed route is a rendered one and, unless only retiring, every rendered route is present
  with its alias, model, base URL, key name and advertised window.
\<close>

theorem reconcile_success_is_verified:
  assumes "reconcile_routes a retire_only deadline_s delay rendered w = Some (w', True)"
  shows "\<exists>t w1 data. ad_list a t w1 = (w', Some data) \<and> agrees retire_only rendered data"
  using reconcile_spec[OF assms[unfolded reconcile_routes_def], of "\<lambda>_. True"] by (simp add: kept_by_def)

section \<open>A gateway that answers\<close>

text \<open>
  What LiteLLM documents of its admin API, for a gateway that is up: a listing is the table of models,
  adding appends a model, deleting an id removes it, both acknowledged, and the calls fit in the budget
  (the clock does not pass the deadline).
\<close>

definition answering :: "'w admin \<Rightarrow> ('w \<Rightarrow> json list) \<Rightarrow> bool" where
  "answering a table \<longleftrightarrow>
     (\<forall>t w. ad_list a t w = (w, Some (table w)))
     \<and> (\<forall>r t w. \<exists>body. snd (ad_post a MODEL_NEW r t w) = Some (200, body) \<and> table (fst (ad_post a MODEL_NEW r t w)) = table w @ [r]
          \<and> ad_clock a (fst (ad_post a MODEL_NEW r t w)) = ad_clock a w)
     \<and> (\<forall>i t w. \<exists>body. snd (ad_post a MODEL_DELETE (JObj [(''id'', JStr i)]) t w) = Some (200, body)
          \<and> table (fst (ad_post a MODEL_DELETE (JObj [(''id'', JStr i)]) t w)) = filter (\<lambda>m. route_key m \<noteq> Some i) (table w)
          \<and> ad_clock a (fst (ad_post a MODEL_DELETE (JObj [(''id'', JStr i)]) t w)) = ad_clock a w)"

text \<open>The last model of an id, which is the one a listing shows.\<close>

definition latest :: "json list \<Rightarrow> string \<Rightarrow> json option" where
  "latest ms i = (case filter (\<lambda>m. route_key m = Some i) ms of [] \<Rightarrow> None | xs \<Rightarrow> Some (last xs))"

lemma latest_snoc: "latest (ms @ [m]) i = (if route_key m = Some i then Some m else latest ms i)"
  by (cases "filter (\<lambda>m. route_key m = Some i) ms") (auto simp: latest_def split: list.split)

lemma latest_delete: "latest (filter (\<lambda>m. route_key m \<noteq> Some j) ms) i = (if i = j then None else latest ms i)"
proof -
  have "filter (\<lambda>m. route_key m = Some i) (filter (\<lambda>m. route_key m \<noteq> Some j) ms)
      = (if i = j then [] else filter (\<lambda>m. route_key m = Some i) ms)"
    by (induction ms) auto
  then show ?thesis by (simp add: latest_def)
qed

lemma managed_routes_get:
  "dget (managed_routes ms) i = (if is_managed i then map_option route_semantics (latest ms i) else None)"
proof (induction ms rule: rev_induct)
  case (snoc m ms)
  then show ?case by (cases "route_key m") (auto simp: managed_routes_snoc latest_snoc)
qed (simp add: managed_routes_def latest_def)

definition foreign :: "json list \<Rightarrow> json list" where
  "foreign ms = filter (\<lambda>m. case route_key m of None \<Rightarrow> True | Some i \<Rightarrow> \<not> is_managed i) ms"

lemma foreign_delete: "is_managed j \<Longrightarrow> foreign (filter (\<lambda>m. route_key m \<noteq> Some j) ms) = foreign ms"
  by (induction ms) (auto simp: foreign_def)

lemma post_new:
  assumes answers: "answering a table" and clock: "ad_clock a w < deadline" and "post_route a MODEL_NEW r False deadline w = (w', ok)"
  shows "ok \<and> table w' = table w @ [r] \<and> ad_clock a w' = ad_clock a w"
proof -
  let ?p = "ad_post a MODEL_NEW r (min 30 (deadline - ad_clock a w)) w"
  obtain body where "snd ?p = Some (200, body)" "table (fst ?p) = table w @ [r]" "ad_clock a (fst ?p) = ad_clock a w"
    using answers unfolding answering_def by blast
  then show ?thesis using assms(2,3) by (auto simp: post_route_def Let_def case_prod_unfold reached_def)
qed

lemma post_delete:
  assumes answers: "answering a table" and clock: "ad_clock a w < deadline" and "post_route a MODEL_DELETE (JObj [(''id'', JStr i)]) True deadline w = (w', ok)"
  shows "ok \<and> table w' = filter (\<lambda>m. route_key m \<noteq> Some i) (table w) \<and> ad_clock a w' = ad_clock a w"
proof -
  let ?p = "ad_post a MODEL_DELETE (JObj [(''id'', JStr i)]) (min 30 (deadline - ad_clock a w)) w"
  obtain body where "snd ?p = Some (200, body)" "table (fst ?p) = filter (\<lambda>m. route_key m \<noteq> Some i) (table w)"
    "ad_clock a (fst ?p) = ad_clock a w"
    using answers unfolding answering_def by blast
  then show ?thesis using assms(2,3) by (auto simp: post_route_def Let_def case_prod_unfold reached_def)
qed

lemma delete_all:
  assumes answers: "answering a table" and "ad_clock a w < deadline" and "fold (delete_route a deadline) ids (w, ok) = (w', ok')"
  shows "ok' = ok \<and> (\<forall>i. latest (table w') i = (if i \<in> set ids then None else latest (table w) i))
     \<and> ad_clock a w' = ad_clock a w \<and> ((\<forall>i \<in> set ids. is_managed i) \<longrightarrow> foreign (table w') = foreign (table w))"
  using assms(2-)
proof (induction ids arbitrary: w ok)
  case (Cons i ids)
  obtain w1 done1 where p: "post_route a MODEL_DELETE (JObj [(''id'', JStr i)]) True deadline w = (w1, done1)" by fastforce
  note P = post_delete[OF answers Cons.prems(1) p]
  have "delete_route a deadline i (w, ok) = (w1, ok)" using p P by (simp add: delete_route_def)
  then have r: "fold (delete_route a deadline) ids (w1, ok) = (w', ok')" using Cons.prems(2) by simp
  have "ad_clock a w1 < deadline" using P Cons.prems(1) by simp
  from Cons.IH[OF this r] show ?case using P by (auto simp: latest_delete foreign_delete)
qed simp

lemma add_all:
  assumes answers: "answering a table" and "ad_clock a w < deadline" and "fold (\<lambda>i. add_route a deadline (f i)) ids (w, ok) = (w', ok')"
    and "\<And>i. i \<in> set ids \<Longrightarrow> route_key (f i) = Some i"
  shows "ok' = ok \<and> (\<forall>i. latest (table w') i = (if i \<in> set ids then Some (f i) else latest (table w) i))
     \<and> ad_clock a w' = ad_clock a w \<and> ((\<forall>i \<in> set ids. is_managed i) \<longrightarrow> foreign (table w') = foreign (table w))"
  using assms(2-)
proof (induction ids arbitrary: w ok)
  case (Cons i ids)
  obtain w1 done1 where p: "post_route a MODEL_NEW (f i) False deadline w = (w1, done1)" by fastforce
  note P = post_new[OF answers Cons.prems(1) p]
  have "add_route a deadline (f i) (w, ok) = (w1, ok)" using p P by (simp add: add_route_def)
  then have r: "fold (\<lambda>i. add_route a deadline (f i)) ids (w1, ok) = (w', ok')" using Cons.prems(2) by simp
  have "ad_clock a w1 < deadline" using P Cons.prems(1) by simp
  from Cons.IH[OF this r] Cons.prems(3) show ?case
    using P Cons.prems(3)[of i] by (auto simp: latest_snoc foreign_def)
qed simp


lemma semantics_match_refl: "semantics_match s s"
  by (simp add: semantics_match_def)

lemma set_to_delete: "i \<in> set (to_delete r d c) \<longleftrightarrow> i \<in> set (dkeys c) \<and> (i \<notin> set (dkeys d) \<or> i \<in> set (mismatched r d c))"
  by (auto simp: to_delete_def)

lemma set_to_add: "i \<in> set (to_add r d c) \<longleftrightarrow> \<not> r \<and> i \<in> set (dkeys d) \<and> (i \<notin> set (dkeys c) \<or> i \<in> set (mismatched r d c))"
  by (auto simp: to_add_def)

lemma set_mismatched: "i \<in> set (mismatched r d c) \<longleftrightarrow> \<not> r \<and> (\<exists>x s. dget d i = Some x \<and> dget c i = Some s
      \<and> \<not> semantics_match (route_semantics x) s)"
  by (auto simp: mismatched_def dget_in_dkeys split: option.splits)

text \<open>One round on a gateway that answers makes the table agree.\<close>

lemma round_agrees:
  assumes a: "answering a table" and c: "ad_clock a w < deadline"
    and m: "list_all (\<lambda>r. case route_key r of None \<Rightarrow> True | Some i \<Rightarrow> is_managed i) rendered"
    and d: "apply_diff a retire_only deadline (desired_routes rendered) (managed_routes (table w)) w = (w', ok)"
  shows "ok \<and> ad_clock a w' = ad_clock a w \<and> agrees retire_only rendered (table w') \<and> foreign (table w') = foreign (table w)"
proof -
  let ?D = "desired_routes rendered" and ?C = "managed_routes (table w)"
  obtain w1 ok1 where del: "fold (delete_route a deadline) (to_delete retire_only ?D ?C) (w, True) = (w1, ok1)" by fastforce
  note L = delete_all[OF a c del]
  have add: "fold (\<lambda>i. add_route a deadline (the (dget ?D i))) (to_add retire_only ?D ?C) (w1, ok1) = (w', ok)"
    using d del by (simp add: apply_diff_def)
  have dm: "is_managed i" if "i \<in> set (dkeys ?D)" for i
    using that m by (auto simp: desired_routes_keys list_all_iff split: option.splits)
  have key: "route_key (the (dget ?D i)) = Some i" if "i \<in> set (to_add retire_only ?D ?C)" for i
    using that desired_routes_get[of rendered i] by (auto simp: set_to_add elim!: in_dkeysE)
  have "ad_clock a w1 < deadline" using L c by simp
  note A = add_all[OF a this add key]
  have look: "latest (table w') i = (if i \<in> set (to_add retire_only ?D ?C) then Some (the (dget ?D i))
      else if i \<in> set (to_delete retire_only ?D ?C) then None else latest (table w) i)" for i
    using A L by simp
  have "\<forall>i \<in> set (to_delete retire_only ?D ?C). is_managed i" "\<forall>i \<in> set (to_add retire_only ?D ?C). is_managed i"
    using managed_routes_managed dm by (auto simp: set_to_delete set_to_add)
  then have f: "foreign (table w') = foreign (table w)" using A L by simp
  have "agrees retire_only rendered (table w')"
    unfolding agrees_def
  proof (intro conjI allI impI)
    fix i assume i: "i \<in> set (dkeys (managed_routes (table w')))"
    show "i \<in> set (dkeys ?D)"
    proof (rule ccontr)
      assume n: "i \<notin> set (dkeys ?D)"
      obtain s where s: "dget (managed_routes (table w')) i = Some s" using i by (rule in_dkeysE)
      then have l: "latest (table w') i \<noteq> None" and mi: "is_managed i" by (auto simp: managed_routes_get split: if_splits)
      have "i \<notin> set (to_add retire_only ?D ?C)" using n by (simp add: set_to_add)
      then have "i \<notin> set (to_delete retire_only ?D ?C)" "latest (table w) i \<noteq> None" using look l by (auto split: if_splits)
      then have "dget ?C i \<noteq> None" using mi by (simp add: managed_routes_get)
      then have "i \<in> set (dkeys ?C)" by (auto dest: dget_in_dkeys)
      then show False using \<open>i \<notin> set (to_delete retire_only ?D ?C)\<close> n by (simp add: set_to_delete)
    qed
  next
    fix i r assume ro: "\<not> retire_only" and r: "dget ?D i = Some r"
    have mi: "is_managed i" using dm r dget_in_dkeys by metis
    show "\<exists>s. dget (managed_routes (table w')) i = Some s \<and> semantics_match (route_semantics r) s"
    proof (cases "i \<in> set (to_add retire_only ?D ?C)")
      case True
      then show ?thesis using look r mi semantics_match_refl by (simp add: managed_routes_get)
    next
      case False
      then have ic: "i \<in> set (dkeys ?C)" "i \<notin> set (mismatched retire_only ?D ?C)"
        using ro r by (auto simp: set_to_add dest: dget_in_dkeys)
      then obtain s where s: "dget ?C i = Some s" by (auto elim: in_dkeysE)
      then have "semantics_match (route_semantics r) s" using ic(2) ro r by (auto simp: set_mismatched)
      moreover have "i \<notin> set (to_delete retire_only ?D ?C)" using ic r by (auto simp: set_to_delete dest: dget_in_dkeys)
      then have "latest (table w') i = latest (table w) i" using look False by simp
      then have "dget (managed_routes (table w')) i = Some s" using s by (simp add: managed_routes_get split: if_splits)
      ultimately show ?thesis by blast
    qed
  qed
  then show ?thesis using A L f by simp
qed


section \<open>A gateway in memory\<close>

text \<open>The table of models and the time.\<close>

type_synonym mem = "json list \<times> rat"

definition mem_post :: "string \<Rightarrow> json \<Rightarrow> rat \<Rightarrow> mem \<Rightarrow> mem \<times> (nat \<times> string) option" where
  "mem_post path payload t w = (case w of (ms, c) \<Rightarrow>
     if path = MODEL_NEW then ((ms @ [payload], c), Some (200, []))
     else (case field ''id'' payload of
         JStr i \<Rightarrow> ((filter (\<lambda>m. route_key m \<noteq> Some i) ms, c), Some (200, []))
       | _ \<Rightarrow> (w, Some (400, ''bad request''))))"

definition mem_admin :: "mem admin" where
  "mem_admin = \<lparr>ad_clock = snd, ad_sleep = \<lambda>d (ms, c). (ms, c + d), ad_list = \<lambda>t w. (w, Some (fst w)), ad_post = mem_post\<rparr>"

lemma mem_admin_answers: "answering mem_admin fst"
  by (auto simp: answering_def mem_admin_def mem_post_def MODEL_NEW_def MODEL_DELETE_def field_def rt_get_def dget_def split: prod.splits)

definition demo_entry :: "string \<Rightarrow> string \<Rightarrow> json" where
  "demo_entry i m = JObj [(''model_name'', JStr ''m''), (''litellm_params'', JObj [(''model'', JStr m)]),
     (''model_info'', JObj [(''id'', JStr i)])]"

definition demo_table :: "json list" where
  "demo_table = [demo_entry ''x'' ''a'', demo_entry ''isr-1'' ''b'', demo_entry ''isr-2'' ''c'']"

definition demo_rendered :: "json list" where
  "demo_rendered = [demo_entry ''isr-1'' ''a'']"

text \<open>By hand, then the replacement.\<close>

definition demo_reconciled :: "json list" where
  "demo_reconciled = [demo_entry ''x'' ''a'', demo_entry ''isr-1'' ''a'']"

lemma demo_reconcile: "reconcile_routes mem_admin False 5 2 demo_rendered (demo_table, 0) = Some ((demo_reconciled, 0), True)"
  by code_simp


lemma reconcile_success_is_verified_witness:
  "\<exists>t w1 data. ad_list mem_admin t w1 = ((demo_reconciled, 0), Some data) \<and> agrees False demo_rendered data"
  using reconcile_success_is_verified[OF demo_reconcile] .

lemma mem_post_keeps: "allowed r rs path payload \<Longrightarrow> demo_entry ''x'' m \<in> set (fst w)
    \<Longrightarrow> demo_entry ''x'' m \<in> set (fst (fst (mem_post path payload t w)))"
proof -
  assume a: "allowed r rs path payload" and m: "demo_entry ''x'' m \<in> set (fst w)"
  have "\<not> is_managed ''x''" by code_simp
  moreover have "route_key (demo_entry ''x'' m) = Some ''x''" by (simp add: demo_entry_def route_key_def field_def rt_get_def dget_def)
  ultimately show ?thesis using a m
    by (auto simp: allowed_def mem_post_def MODEL_NEW_def MODEL_DELETE_def field_def rt_get_def dget_def split: prod.splits)
qed

lemma reconcile_touches_only_managed_witness: "demo_entry ''x'' ''a'' \<in> set demo_reconciled"
proof -
  have "kept_by mem_admin False demo_rendered (\<lambda>w. demo_entry ''x'' ''a'' \<in> set (fst w))"
    using mem_post_keeps by (auto simp: kept_by_def mem_admin_def)
  from reconcile_touches_only_managed[OF demo_reconcile this] show ?thesis by (simp add: demo_table_def)
qed

end
