(* ===== verification/LogFilter.thy ===== *)
theory LogFilter
  imports
  EnvFile
begin

text \<open>
  The log filters (\<open>log_filter.py\<close>): LiteLLM tracebacks of registered shapes are compacted, anything
  else is replayed verbatim, and a container's raw output is cut into display lines.

  A stream is the list of its lines; the regular expressions are written out as matchers, a string being
  code points below 256.
\<close>

section \<open>The regular expressions\<close>

text \<open>\<open>\w\<close>: a letter, a digit, a numeric sign or an underscore.\<close>

definition is_word :: "char \<Rightarrow> bool" where
  "is_word c = (let n = (of_char c :: nat) in
     is_digit c \<or> 65 \<le> n \<and> n \<le> 90 \<or> 97 \<le> n \<and> n \<le> 122 \<or> n = 95
     \<or> n \<in> {170, 178, 179, 181, 185, 186, 188, 189, 190} \<or> 192 \<le> n \<and> n \<noteq> 215 \<and> n \<noteq> 247)"

definition between :: "nat \<Rightarrow> nat \<Rightarrow> char \<Rightarrow> bool" where
  "between a b c = (let n = (of_char c :: nat) in a \<le> n \<and> n \<le> b)"

text \<open>An escape sequence at the head (after its two first characters): what follows it.\<close>

definition after_escape :: "string \<Rightarrow> string option" where
  "after_escape s = (case dropWhile (between 32 47) (dropWhile (between 48 63) s) of
     [] \<Rightarrow> None | c # r \<Rightarrow> if between 64 126 c then Some r else None)"

lemma after_escape_length: "after_escape s = Some r \<Longrightarrow> length r < length s"
proof -
  assume a: "after_escape s = Some r"
  let ?d = "dropWhile (between 32 47) (dropWhile (between 48 63) s)"
  have "length ?d \<le> length s" using length_dropWhile_le order_trans by blast
  moreover have "length r < length ?d" using a by (auto simp: after_escape_def split: list.splits if_splits)
  ultimately show ?thesis by simp
qed

function strip_ansi :: "string \<Rightarrow> string" where
  "strip_ansi [] = []"
| "strip_ansi (c # s) =
     (if c = CHR 0x1B \<and> s \<noteq> [] \<and> hd s = CHR ''['' then
        (case after_escape (tl s) of Some r \<Rightarrow> strip_ansi r | None \<Rightarrow> c # strip_ansi s)
      else c # strip_ansi s)"
  by pat_completeness auto
termination strip_ansi
proof (relation "measure length")
  fix c s r assume "c = CHR 0x1B \<and> s \<noteq> [] \<and> hd s = CHR ''[''" and "after_escape (tl s) = Some r"
  then show "(r, c # s) \<in> measure length" using after_escape_length[of "tl s" r] by (cases s) auto
qed auto

text \<open>\<open>n\<close> digits, then what follows.\<close>

definition eat_digits :: "nat \<Rightarrow> string \<Rightarrow> string option" where
  "eat_digits n s = (if n \<le> length s \<and> list_all is_digit (take n s) then Some (drop n s) else None)"

definition eat :: "string \<Rightarrow> string \<Rightarrow> string option" where
  "eat p s = (if is_prefix p s then Some (drop (length p) s) else None)"

definition eat_fraction :: "string \<Rightarrow> string" where
  "eat_fraction s = (case s of c # r \<Rightarrow> if c = CHR ''.'' \<and> r \<noteq> [] \<and> is_digit (hd r) then dropWhile is_digit r else s | [] \<Rightarrow> s)"

definition eat_hms :: "string \<Rightarrow> string option" where
  "eat_hms s = Option.bind (eat_digits 2 s) (\<lambda>s. Option.bind (eat '':'' s) (\<lambda>s. Option.bind (eat_digits 2 s) (\<lambda>s.
     Option.bind (eat '':'' s) (\<lambda>s. Option.bind (eat_digits 2 s) (\<lambda>s. Some (eat_fraction s))))))"

definition eat_zone :: "string \<Rightarrow> string option" where
  "eat_zone s = (case s of [] \<Rightarrow> None
     | c # r \<Rightarrow> if c = CHR ''Z'' then Some r
         else if c = CHR ''+'' \<or> c = CHR ''-'' then
           Option.bind (eat_digits 2 r) (\<lambda>s. Option.bind (eat '':'' s) (eat_digits 2))
         else None)"

text \<open>\<open>_DOCKER_TIMESTAMP_RE.sub('', message, count=1)\<close>.\<close>

definition drop_timestamp :: "string \<Rightarrow> string" where
  "drop_timestamp s = (case Option.bind (eat_digits 4 s) (\<lambda>s. Option.bind (eat ''-'' s) (\<lambda>s. Option.bind (eat_digits 2 s) (\<lambda>s.
       Option.bind (eat ''-'' s) (\<lambda>s. Option.bind (eat_digits 2 s) (\<lambda>s. Option.bind (eat ''T'' s) (\<lambda>s.
       Option.bind (eat_hms s) eat_zone)))))) of
     Some (c # r) \<Rightarrow> if c = CHR '' '' \<or> c = CHR 0x09 then r else s
   | _ \<Rightarrow> s)"

text \<open>\<open>_LOG_RECORD_RE.match(message)\<close>: an optional time, an optional logger, a level.\<close>

definition drop_record_time :: "string \<Rightarrow> string" where
  "drop_record_time s = (case eat_hms s of None \<Rightarrow> s
     | Some r \<Rightarrow> (let r1 = dropWhile py_space r
         in if r \<noteq> [] \<and> py_space (hd r) \<and> r1 \<noteq> [] \<and> hd r1 = CHR ''-'' \<and> tl r1 \<noteq> [] \<and> py_space (hd (tl r1))
            then dropWhile py_space (tl r1) else s))"

definition drop_logger :: "string \<Rightarrow> string" where
  "drop_logger s = (case eat ''LiteLLM Proxy:'' s of Some r \<Rightarrow> r
     | None \<Rightarrow> (case eat ''LiteLLM:'' s of Some r \<Rightarrow> r | None \<Rightarrow> s))"

definition is_log_record :: "string \<Rightarrow> bool" where
  "is_log_record message =
     (let s = drop_logger (drop_record_time message)
      in list_ex (\<lambda>level. case eat level s of None \<Rightarrow> False | Some r \<Rightarrow> r = [] \<or> \<not> is_word (hd r))
           [''DEBUG'', ''INFO'', ''WARNING'', ''ERROR'', ''CRITICAL''])"

section \<open>Registered tracebacks\<close>

text \<open>The pieces a terminal expression is made of: a literal, \<open>.*\<close>, \<open>[^`]+\<close>, \<open>\.?\<close> and \<open>$\<close>.\<close>

datatype piece = Lit string | Anything | Name | MaybeDot | Eol

fun matches :: "piece list \<Rightarrow> string \<Rightarrow> bool" where
  "matches [] s = True"
| "matches (Lit l # ps) s = (is_prefix l s \<and> matches ps (drop (length l) s))"
| "matches (Anything # ps) [] = matches ps []"
| "matches (Anything # ps) (c # s) = (matches ps (c # s) \<or> c \<noteq> CHR 0x0A \<and> matches (Anything # ps) s)"
| "matches (Name # ps) [] = False"
| "matches (Name # ps) (c # s) = (c \<noteq> CHR 0x60 \<and> (matches ps s \<or> matches (Name # ps) s))"
| "matches (MaybeDot # ps) s = (matches ps s \<or> is_prefix ''.'' s \<and> matches ps (drop 1 s))"
| "matches (Eol # ps) s = ((s = [] \<or> s = [CHR 0x0A]) \<and> matches ps s)"

record traceback_pattern =
  tp_name :: string
  tp_terminal :: "piece list"
  tp_fragments :: "string list"

definition pattern_matches :: "traceback_pattern \<Rightarrow> string \<Rightarrow> string \<Rightarrow> bool" where
  "pattern_matches p text terminal \<longleftrightarrow> matches (tp_terminal p) terminal \<and> list_all (\<lambda>f. is_substring f text) (tp_fragments p)"

definition LITELLM_TRACEBACK_PATTERNS :: "traceback_pattern list" where
  "LITELLM_TRACEBACK_PATTERNS = [
  \<lparr>tp_name = ''backend_connection_refused.aiohttp_socket_connect'',
    tp_terminal = [Lit ''ConnectionRefusedError: [Errno 111] Connect call failed ''],
    tp_fragments = [''site-packages/aiohttp/connector.py'',
      ''site-packages/aiohappyeyeballs/impl.py'',
      ''uvloop/loop.pyx'']\<rparr>,
  \<lparr>tp_name = ''backend_connection_refused.aiohttp_connector'',
    tp_terminal = [Lit ''aiohttp.client_exceptions.ClientConnectorError: Cannot connect to host ''],
    tp_fragments = [''site-packages/litellm/llms/custom_httpx/aiohttp_transport.py'',
      ''site-packages/aiohttp/client.py'',
      ''site-packages/aiohttp/connector.py'']\<rparr>,
  \<lparr>tp_name = ''backend_connection_refused.httpx'',
    tp_terminal = [Lit ''httpx.ConnectError: Cannot connect to host ''],
    tp_fragments = [''site-packages/openai/_base_client.py'',
      ''site-packages/httpx/_client.py'',
      ''site-packages/litellm/llms/custom_httpx/aiohttp_transport.py'']\<rparr>,
  \<lparr>tp_name = ''backend_connection_refused.openai_sdk'',
    tp_terminal = [Lit ''openai.APIConnectionError: Connection error.'', Eol],
    tp_fragments = [''site-packages/litellm/llms/openai/openai.py'',
      ''site-packages/litellm/litellm_core_utils/logging_utils.py'',
      ''site-packages/openai/resources/chat/completions/completions.py'',
      ''site-packages/openai/_base_client.py'']\<rparr>,
  \<lparr>tp_name = ''backend_connection_refused.openai_adapter'',
    tp_terminal = [Lit ''litellm.llms.openai.common_utils.OpenAIError: Connection error.'', Eol],
    tp_fragments = [''site-packages/litellm/main.py'',
      ''site-packages/litellm/llms/openai/openai.py'']\<rparr>,
  \<lparr>tp_name = ''backend_connection_refused.router'',
    tp_terminal = [Lit ''litellm.exceptions.InternalServerError: litellm.InternalServerError: InternalServerError: OpenAIException - Connection error.'', Eol],
    tp_fragments = [''site-packages/litellm/router.py'',
      ''site-packages/litellm/utils.py'',
      ''site-packages/litellm/main.py'',
      ''site-packages/litellm/litellm_core_utils/exception_mapping_utils.py'']\<rparr>,
  \<lparr>tp_name = ''backend_connection_refused.proxy'',
    tp_terminal = [Lit ''litellm.exceptions.InternalServerError: litellm.InternalServerError: InternalServerError: OpenAIException - Connection error.'', MaybeDot, Lit '' Received Model Group=''],
    tp_fragments = [''site-packages/litellm/proxy/proxy_server.py'',
      ''site-packages/litellm/proxy/common_request_processing.py'',
      ''site-packages/litellm/router.py'',
      ''site-packages/litellm/litellm_core_utils/exception_mapping_utils.py'']\<rparr>,
  \<lparr>tp_name = ''model_not_found.openai_sdk'',
    tp_terminal = [Lit ''openai.NotFoundError: Error code: 404 - '', Anything, Lit ''The model `'', Name, Lit ''` does not exist.''],
    tp_fragments = [''site-packages/litellm/llms/openai/openai.py'',
      ''site-packages/litellm/litellm_core_utils/logging_utils.py'',
      ''site-packages/openai/resources/chat/completions/completions.py'',
      ''site-packages/openai/_base_client.py'']\<rparr>,
  \<lparr>tp_name = ''model_not_found.openai_adapter'',
    tp_terminal = [Lit ''litellm.llms.openai.common_utils.OpenAIError: Error code: 404 - '', Anything, Lit ''The model `'', Name, Lit ''` does not exist.''],
    tp_fragments = [''site-packages/litellm/main.py'',
      ''site-packages/litellm/llms/openai/openai.py'']\<rparr>,
  \<lparr>tp_name = ''model_not_found.proxy'',
    tp_terminal = [Lit ''litellm.exceptions.NotFoundError: litellm.NotFoundError: NotFoundError: OpenAIException - The model `'', Name, Lit ''` does not exist.'', MaybeDot, Lit '' Received Model Group=''],
    tp_fragments = [''site-packages/litellm/proxy/proxy_server.py'',
      ''site-packages/litellm/proxy/common_request_processing.py'',
      ''site-packages/litellm/router.py'',
      ''site-packages/litellm/utils.py'',
      ''site-packages/litellm/main.py'',
      ''site-packages/litellm/litellm_core_utils/exception_mapping_utils.py'']\<rparr>]"

section \<open>Lines and buffers\<close>

record compose_line =
  cl_raw :: string
  cl_service :: string
  cl_message :: string

datatype line_role = Header | Sideband | Scaffold | Terminal

record buffered_line =
  bl_raw :: string
  bl_message :: "string option"
  bl_role :: line_role

record trace_buffer =
  tb_service :: string
  tb_lines :: "buffered_line list"
  tb_nbytes :: nat

definition TRACEBACK_HEADER :: string where "TRACEBACK_HEADER = ''Traceback (most recent call last):''"
definition MAX_TRACEBACK_LINES :: nat where "MAX_TRACEBACK_LINES = 512"
definition MAX_TRACEBACK_BYTES :: nat where "MAX_TRACEBACK_BYTES = 256 * 1024"

text \<open>\<open>len(s.encode('utf8'))\<close>.\<close>

definition utf8_length :: "string \<Rightarrow> nat" where
  "utf8_length s = sum_list (map (\<lambda>c. if (of_char c :: nat) < 128 then 1 else 2) s)"

definition new_buffer :: "compose_line \<Rightarrow> trace_buffer" where
  "new_buffer l = \<lparr>tb_service = cl_service l,
     tb_lines = [\<lparr>bl_raw = cl_raw l, bl_message = Some (cl_message l), bl_role = Header\<rparr>], tb_nbytes = utf8_length (cl_raw l)\<rparr>"

definition add_line :: "compose_line option \<Rightarrow> string \<Rightarrow> line_role \<Rightarrow> trace_buffer \<Rightarrow> trace_buffer" where
  "add_line l raw r b = b\<lparr>tb_lines := tb_lines b @ [\<lparr>bl_raw = raw, bl_message = map_option cl_message l, bl_role = r\<rparr>],
     tb_nbytes := tb_nbytes b + utf8_length raw\<rparr>"

definition too_large :: "trace_buffer \<Rightarrow> bool" where
  "too_large b \<longleftrightarrow> MAX_TRACEBACK_LINES < length (tb_lines b) \<or> MAX_TRACEBACK_BYTES < tb_nbytes b"

definition traceback_text :: "trace_buffer \<Rightarrow> string" where
  "traceback_text b = join newline (List.map_filter bl_message (tb_lines b))"

definition raw_lines :: "trace_buffer \<Rightarrow> string list" where
  "raw_lines b = map bl_raw (tb_lines b)"

definition compacted_lines :: "trace_buffer \<Rightarrow> string list" where
  "compacted_lines b = map bl_raw (filter (\<lambda>l. bl_role l \<in> {Sideband, Terminal}) (tb_lines b))"

definition rstrip_breaks :: "string \<Rightarrow> string" where
  "rstrip_breaks s = rev (dropWhile (\<lambda>c. c = CHR 0x0D \<or> c = CHR 0x0A) (rev s))"

definition parse_compose_line :: "string \<Rightarrow> compose_line option" where
  "parse_compose_line line =
     (let clean = strip_ansi (rstrip_breaks line);
          service = py_strip (takeWhile ((\<noteq>) (CHR ''|'')) clean);
          message = tl (dropWhile ((\<noteq>) (CHR ''|'')) clean)
      in if CHR ''|'' \<notin> set clean \<or> service = [] then None
         else Some \<lparr>cl_raw = line, cl_service = service,
           cl_message = drop_timestamp (if message \<noteq> [] \<and> hd message = CHR '' '' then tl message else message)\<rparr>)"

definition is_litellm :: "compose_line \<Rightarrow> bool" where
  "is_litellm l \<longleftrightarrow> is_substring ''litellm'' (py_lower (cl_service l))"

definition match_pattern :: "traceback_pattern list \<Rightarrow> trace_buffer \<Rightarrow> string \<Rightarrow> traceback_pattern option" where
  "match_pattern ps b terminal = List.find (\<lambda>p. pattern_matches p (traceback_text b) terminal) ps"

section \<open>Compacting\<close>

record filter_state =
  fs_pending :: "trace_buffer option"
  fs_passthrough :: "string option"

text \<open>The last test of an iteration: a segment that does not end is let go.\<close>

definition let_go :: "trace_buffer \<Rightarrow> string list \<times> filter_state" where
  "let_go b = (if too_large b then (raw_lines b, \<lparr>fs_pending = None, fs_passthrough = Some (tb_service b)\<rparr>)
     else ([], \<lparr>fs_pending = Some b, fs_passthrough = None\<rparr>))"

definition indented :: "string \<Rightarrow> bool" where
  "indented message \<longleftrightarrow> message \<noteq> [] \<and> py_space (hd message)"

definition pending_line :: "traceback_pattern list \<Rightarrow> string \<Rightarrow> compose_line option \<Rightarrow> trace_buffer \<Rightarrow> string list \<times> filter_state" where
  "pending_line ps raw parsed b = (case parsed of
     None \<Rightarrow> let_go (add_line parsed raw Sideband b)
   | Some l \<Rightarrow>
       if cl_service l \<noteq> tb_service b then let_go (add_line parsed raw Sideband b)
       else let message = cl_message l in
         if message = TRACEBACK_HEADER then (raw_lines b, \<lparr>fs_pending = Some (new_buffer l), fs_passthrough = None\<rparr>)
         else if py_strip message = [] then let_go (add_line parsed raw Scaffold b)
         else if indented message then let_go (add_line parsed raw Scaffold b)
         else if is_log_record message then let_go (add_line parsed raw Sideband b)
         else let b1 = add_line parsed raw Terminal b
              in (case match_pattern ps b1 message of None \<Rightarrow> raw_lines b1 | Some _ \<Rightarrow> compacted_lines b1,
                  \<lparr>fs_pending = None, fs_passthrough = None\<rparr>))"

definition filter_line :: "traceback_pattern list \<Rightarrow> string \<Rightarrow> filter_state \<Rightarrow> string list \<times> filter_state" where
  "filter_line ps raw st =
     (let parsed = parse_compose_line raw in
      case fs_passthrough st of
        Some service \<Rightarrow> ([raw], (case parsed of
            Some l \<Rightarrow> if cl_service l = service \<and> cl_message l \<noteq> [] \<and> \<not> indented (cl_message l) \<and> \<not> is_log_record (cl_message l)
              then st\<lparr>fs_passthrough := None\<rparr> else st
          | None \<Rightarrow> st))
      | None \<Rightarrow> (case fs_pending st of
          None \<Rightarrow> (case parsed of
              Some l \<Rightarrow> if is_litellm l \<and> cl_message l = TRACEBACK_HEADER then ([], st\<lparr>fs_pending := Some (new_buffer l)\<rparr>)
                else ([raw], st)
            | None \<Rightarrow> ([raw], st))
        | Some b \<Rightarrow> pending_line ps raw parsed b))"

fun filter_lines :: "traceback_pattern list \<Rightarrow> string list \<Rightarrow> filter_state \<Rightarrow> string list \<times> filter_state" where
  "filter_lines ps [] st = ([], st)"
| "filter_lines ps (l # ls) st = (case filter_line ps l st of (out, st) \<Rightarrow>
     (case filter_lines ps ls st of (outs, st) \<Rightarrow> (out @ outs, st)))"

definition initial_filter :: filter_state where
  "initial_filter = \<lparr>fs_pending = None, fs_passthrough = None\<rparr>"

definition compact_with :: "traceback_pattern list \<Rightarrow> string list \<Rightarrow> string list" where
  "compact_with ps ls = (case filter_lines ps ls initial_filter of (out, st) \<Rightarrow>
     out @ (case fs_pending st of None \<Rightarrow> [] | Some b \<Rightarrow> raw_lines b))"

text \<open>\<open>compact_litellm_tracebacks\<close>: the filter over the registry.\<close>

definition compact_litellm_tracebacks :: "string list \<Rightarrow> string list" where
  "compact_litellm_tracebacks = compact_with LITELLM_TRACEBACK_PATTERNS"

section \<open>What the filter may drop\<close>

text \<open>A line that is traceback scaffolding of a LiteLLM service: its header, a blank or an indented line.\<close>

definition scaffolding :: "string \<Rightarrow> bool" where
  "scaffolding raw = (case parse_compose_line raw of
     Some l \<Rightarrow> is_litellm l \<and> (cl_message l = TRACEBACK_HEADER \<or> py_strip (cl_message l) = [] \<or> indented (cl_message l))
   | None \<Rightarrow> False)"

text \<open>A line that ends a registered traceback.\<close>

definition approved_end :: "traceback_pattern list \<Rightarrow> string \<Rightarrow> bool" where
  "approved_end ps raw = (case parse_compose_line raw of
     Some l \<Rightarrow> is_litellm l \<and> list_ex (\<lambda>p. matches (tp_terminal p) (cl_message l)) ps
   | None \<Rightarrow> False)"

definition held :: "filter_state \<Rightarrow> string list" where
  "held st = (case fs_pending st of None \<Rightarrow> [] | Some b \<Rightarrow> raw_lines b)"

definition buffer_ok :: "trace_buffer \<Rightarrow> bool" where
  "buffer_ok b \<longleftrightarrow> is_substring ''litellm'' (py_lower (tb_service b))
     \<and> list_all (\<lambda>l. bl_role l \<in> {Header, Scaffold} \<longrightarrow> scaffolding (bl_raw l)) (tb_lines b)"

definition filter_ok :: "filter_state \<Rightarrow> bool" where
  "filter_ok st \<longleftrightarrow> (case fs_pending st of None \<Rightarrow> True | Some b \<Rightarrow> buffer_ok b \<and> fs_passthrough st = None)"

text \<open>What one line does: the output and what is held next, against what was held and the line.\<close>

definition faithful_step :: "traceback_pattern list \<Rightarrow> string list \<Rightarrow> string \<Rightarrow> string list \<Rightarrow> bool" where
  "faithful_step ps before_it raw after_it \<longleftrightarrow>
     subseq after_it (before_it @ [raw])
     \<and> filter (\<lambda>l. \<not> scaffolding l) after_it = filter (\<lambda>l. \<not> scaffolding l) (before_it @ [raw])
     \<and> (approved_end ps raw \<or> after_it = before_it @ [raw])"

lemma raw_lines_add [simp]: "raw_lines (add_line l raw r b) = raw_lines b @ [raw]"
  by (simp add: raw_lines_def add_line_def)

lemma raw_lines_new [simp]: "raw_lines (new_buffer l) = [cl_raw l]"
  by (simp add: raw_lines_def new_buffer_def)

lemma add_line_service [simp]: "tb_service (add_line l raw r b) = tb_service b"
  by (simp add: add_line_def)

lemma parse_raw: "parse_compose_line raw = Some l \<Longrightarrow> cl_raw l = raw"
  by (auto simp: parse_compose_line_def Let_def split: if_splits)

lemma add_line_ok:
  "buffer_ok b \<Longrightarrow> r \<in> {Header, Scaffold} \<longrightarrow> scaffolding raw \<Longrightarrow> buffer_ok (add_line l raw r b)"
  by (auto simp: buffer_ok_def add_line_def)

lemma new_buffer_ok:
  "parse_compose_line raw = Some l \<Longrightarrow> is_litellm l \<Longrightarrow> cl_message l = TRACEBACK_HEADER \<Longrightarrow> buffer_ok (new_buffer l)"
  using parse_raw[of raw l] by (simp add: buffer_ok_def new_buffer_def is_litellm_def scaffolding_def)

lemma let_go_held:
  assumes "let_go b = (out, st)"
  shows "out @ held st = raw_lines b \<and> (buffer_ok b \<longrightarrow> filter_ok st)"
  using assms by (auto simp: let_go_def held_def filter_ok_def split: if_splits)

lemma compacted_subseq: "subseq (compacted_lines b) (raw_lines b)"
  by (simp add: compacted_lines_def raw_lines_def subseq_map)

lemma compacted_informative:
  assumes "buffer_ok b"
  shows "filter (\<lambda>l. \<not> scaffolding l) (compacted_lines b) = filter (\<lambda>l. \<not> scaffolding l) (raw_lines b)"
proof -
  have h: "filter (\<lambda>l. \<not> scaffolding l) (map bl_raw (filter (\<lambda>l. bl_role l \<in> {Sideband, Terminal}) ls)) = filter (\<lambda>l. \<not> scaffolding l) (map bl_raw ls)"
    if "list_all (\<lambda>l. bl_role l \<in> {Header, Scaffold} \<longrightarrow> scaffolding (bl_raw l)) ls" for ls
    using that
  proof (induction ls)
    case (Cons l ls)
    then show ?case by (cases "bl_role l") auto
  qed simp
  show ?thesis
    unfolding compacted_lines_def raw_lines_def by (rule h) (use assms in \<open>simp only: buffer_ok_def\<close>)
qed

lemma pending_line_faithful:
  assumes ok: "buffer_ok b" and p: "parse_compose_line raw = parsed" and "pending_line ps raw parsed b = (out, st)"
  shows "faithful_step ps (raw_lines b) raw (out @ held st) \<and> filter_ok st"
proof (cases parsed)
  case None
  then have "let_go (add_line parsed raw Sideband b) = (out, st)" using assms(3) by (simp add: pending_line_def)
  from let_go_held[OF this] show ?thesis using add_line_ok[OF ok, of Sideband] by (simp add: faithful_step_def)
next
  case (Some l)
  have sideband: ?thesis if "let_go (add_line parsed raw Sideband b) = (out, st)"
    using let_go_held[OF that] add_line_ok[OF ok, of Sideband] by (simp add: faithful_step_def)
  have raw: "cl_raw l = raw" using p Some parse_raw by simp
  show ?thesis
  proof (cases "cl_service l = tb_service b")
    case False
    then show ?thesis using sideband assms(3) Some by (simp add: pending_line_def)
  next
    case True
    have lite: "is_litellm l" using ok True by (simp add: buffer_ok_def is_litellm_def)
    let ?m = "cl_message l"
    consider "?m = TRACEBACK_HEADER" | "?m \<noteq> TRACEBACK_HEADER" "py_strip ?m = [] \<or> indented ?m"
      | "\<not> (?m = TRACEBACK_HEADER \<or> py_strip ?m = [] \<or> indented ?m)" by blast
    then show ?thesis
    proof cases
      case 1
      then have "buffer_ok (new_buffer l)" using new_buffer_ok p Some lite by blast
      then show ?thesis using assms(3) Some True 1 raw
        by (auto simp: pending_line_def faithful_step_def held_def filter_ok_def)
    next
      case 2
      have "scaffolding raw" using p Some lite 2 by (auto simp: scaffolding_def)
      then have "buffer_ok (add_line parsed raw Scaffold b)" using add_line_ok[OF ok] by simp
      moreover have "let_go (add_line parsed raw Scaffold b) = (out, st)"
        using assms(3) Some True 2 by (auto simp: pending_line_def Let_def split: if_splits)
      ultimately show ?thesis using let_go_held by (fastforce simp: faithful_step_def)
    next
      case 3
      show ?thesis
      proof (cases "is_log_record ?m")
        case T: True
        then show ?thesis using sideband assms(3) Some True 3 by (simp add: pending_line_def Let_def)
      next
        case F: False
        let ?b = "add_line parsed raw Terminal b"
        have bok: "buffer_ok ?b" using add_line_ok[OF ok] by simp
        have e: "out = (case match_pattern ps ?b ?m of None \<Rightarrow> raw_lines ?b | Some _ \<Rightarrow> compacted_lines ?b)"
          "st = \<lparr>fs_pending = None, fs_passthrough = None\<rparr>"
          using assms(3) Some True 3 F by (auto simp: pending_line_def Let_def)
        show ?thesis
        proof (cases "match_pattern ps ?b ?m")
          case None
          then show ?thesis using e by (simp add: faithful_step_def held_def filter_ok_def)
        next
          case (Some q)
          then have "q \<in> set ps" "matches (tp_terminal q) ?m"
            by (auto simp: match_pattern_def find_Some_iff pattern_matches_def)
          then have "approved_end ps raw" using p \<open>parsed = Some l\<close> lite by (auto simp: approved_end_def list_ex_iff)
          then show ?thesis using e Some compacted_subseq[of ?b] compacted_informative[OF bok]
            by (simp add: faithful_step_def held_def filter_ok_def)
        qed
      qed
    qed
  qed
qed

lemma faithful_same: "faithful_step ps xs raw (xs @ [raw])"
  by (simp add: faithful_step_def)

lemma filter_line_faithful:
  assumes ok: "filter_ok st" and "filter_line ps raw st = (out, st')"
  shows "faithful_step ps (held st) raw (out @ held st') \<and> filter_ok st'"
proof (cases "fs_passthrough st")
  case (Some service)
  then have "fs_pending st = None" using ok by (auto simp: filter_ok_def split: option.splits)
  then have "fs_pending st' = None" "out = [raw]" using assms(2) Some
    by (auto simp: filter_line_def Let_def split: option.splits if_splits)
  then show ?thesis using faithful_same[of ps "[]" raw] \<open>fs_pending st = None\<close> by (simp add: held_def filter_ok_def)
next
  case None
  show ?thesis
  proof (cases "fs_pending st")
    case (Some b)
    then show ?thesis using pending_line_faithful[of b raw "parse_compose_line raw" ps out st'] ok assms(2) None
      by (simp add: filter_line_def filter_ok_def held_def Let_def)
  next
    case n: None
    show ?thesis
    proof (cases "\<exists>l. parse_compose_line raw = Some l \<and> is_litellm l \<and> cl_message l = TRACEBACK_HEADER")
      case True
      then obtain l where l: "parse_compose_line raw = Some l" "is_litellm l" "cl_message l = TRACEBACK_HEADER" by blast
      then show ?thesis using assms(2) None n new_buffer_ok[OF l] parse_raw[OF l(1)] faithful_same[of ps "[]" raw]
        by (auto simp: filter_line_def held_def filter_ok_def)
    next
      case False
      then have "out = [raw]" "st' = st" using assms(2) None n by (auto simp: filter_line_def Let_def split: option.splits if_splits)
      then show ?thesis using faithful_same[of ps "[]" raw] ok n by (simp add: held_def)
    qed
  qed
qed

lemma filter_lines_faithful:
  assumes "filter_ok st" and "filter_lines ps ls st = (out, st')"
  shows "subseq (out @ held st') (held st @ ls)
     \<and> filter (\<lambda>l. \<not> scaffolding l) (out @ held st') = filter (\<lambda>l. \<not> scaffolding l) (held st @ ls)
     \<and> (list_ex (approved_end ps) ls \<or> out @ held st' = held st @ ls)"
  using assms
proof (induction ls arbitrary: st out)
  case (Cons l ls)
  obtain o1 st1 where 1: "filter_line ps l st = (o1, st1)" by fastforce
  obtain o2 where 2: "filter_lines ps ls st1 = (o2, st')" "out = o1 @ o2" using Cons.prems(2) 1 by (auto split: prod.splits)
  note S = filter_line_faithful[OF Cons.prems(1) 1]
  note R = Cons.IH[OF conjunct2[OF S] 2(1)]
  have s: "subseq (o1 @ held st1) (held st @ [l])"
    "filter (\<lambda>l. \<not> scaffolding l) (o1 @ held st1) = filter (\<lambda>l. \<not> scaffolding l) (held st @ [l])"
    "approved_end ps l \<or> o1 @ held st1 = held st @ [l]" using S by (auto simp: faithful_step_def)
  have "subseq (out @ held st') (o1 @ held st1 @ ls)" using R 2(2) by (simp add: list_emb_append_mono)
  also have "subseq (o1 @ held st1 @ ls) (held st @ l # ls)" using list_emb_append_mono[OF s(1), of ls ls] by simp
  finally have a: "subseq (out @ held st') (held st @ l # ls)" .
  have b: "filter (\<lambda>l. \<not> scaffolding l) (out @ held st') = filter (\<lambda>l. \<not> scaffolding l) (held st @ l # ls)"
    using R s(2) 2(2) by simp
  have c: "list_ex (approved_end ps) (l # ls) \<or> out @ held st' = held st @ l # ls"
    using R s(3) 2(2) by auto
  show ?case using a b c by simp
qed simp


section \<open>What the filter may hold\<close>

definition small_buffer :: "filter_state \<Rightarrow> bool" where
  "small_buffer st = (case fs_pending st of None \<Rightarrow> True
     | Some b \<Rightarrow> length (tb_lines b) \<le> MAX_TRACEBACK_LINES \<and> (tb_nbytes b \<le> MAX_TRACEBACK_BYTES \<or> length (tb_lines b) = 1))"

lemma let_go_small: "let_go b = (out, st) \<Longrightarrow> small_buffer st"
  by (auto simp: let_go_def small_buffer_def too_large_def split: if_splits)

lemma new_buffer_small: "small_buffer \<lparr>fs_pending = Some (new_buffer l), fs_passthrough = p\<rparr>"
  by (simp add: small_buffer_def new_buffer_def MAX_TRACEBACK_LINES_def)

lemma pending_line_small: "pending_line ps raw parsed b = (out, st) \<Longrightarrow> small_buffer st"
  by (auto simp: pending_line_def Let_def small_buffer_def[of "\<lparr>fs_pending = None, fs_passthrough = None\<rparr>"]
      intro: let_go_small new_buffer_small split: option.splits if_splits)

lemma filter_line_small:
  assumes "small_buffer st" and "filter_line ps raw st = (out, st')"
  shows "small_buffer st'"
proof (cases "fs_passthrough st")
  case (Some s)
  then have "fs_pending st' = fs_pending st" using assms(2) by (auto simp: filter_line_def Let_def split: option.splits if_splits)
  then show ?thesis using assms(1) by (simp add: small_buffer_def)
next
  case None
  show ?thesis
  proof (cases "fs_pending st")
    case (Some b)
    then show ?thesis using assms(2) None pending_line_small by (simp add: filter_line_def Let_def)
  next
    case n: None
    have "st' = st \<or> (\<exists>l. st' = st\<lparr>fs_pending := Some (new_buffer l)\<rparr>)"
      using assms(2) None n by (auto simp: filter_line_def Let_def split: option.splits if_splits)
    then show ?thesis using assms(1) new_buffer_small by (auto simp: small_buffer_def)
  qed
qed

lemma filter_lines_small: "small_buffer st \<Longrightarrow> filter_lines ps ls st = (out, st') \<Longrightarrow> small_buffer st'"
proof (induction ls arbitrary: st out)
  case (Cons l ls)
  obtain o1 st1 where 1: "filter_line ps l st = (o1, st1)" by fastforce
  obtain o2 where 2: "filter_lines ps ls st1 = (o2, st')" using Cons.prems(2) 1 by (auto split: prod.splits)
  show ?case using Cons.IH[OF filter_line_small[OF Cons.prems(1) 1] 2] .
qed simp

text \<open>
  The filter never holds a live stream back: after any lines it holds at most 512 lines and 256 KiB of
  a segment (or one header line, however long), and nothing at all while it is letting a segment through.
\<close>

theorem log_filter_buffer_bounded:
  "small_buffer (snd (filter_lines LITELLM_TRACEBACK_PATTERNS ls initial_filter))"
  using filter_lines_small[of initial_filter LITELLM_TRACEBACK_PATTERNS ls]
  by (cases "filter_lines LITELLM_TRACEBACK_PATTERNS ls initial_filter") (simp add: initial_filter_def small_buffer_def)

section \<open>Cutting output into display lines\<close>

text \<open>
  \<open>LogLineSplitter\<close>: a newline, a carriage return, or the two, ends a line; of the lines a carriage
  return ends, at most one per \<open>every\<close> seconds is shown. The clock is a parameter that reads (and may move)
  a world; \<open>None\<close> is \<open>-inf\<close>, before any redraw.
\<close>

record splitter =
  sp_buf :: string
  sp_last :: "rat option"

definition line_end :: "char \<Rightarrow> bool" where
  "line_end c \<longleftrightarrow> c = CHR 0x0A \<or> c = CHR 0x0D"

definition skip_newline :: "string \<Rightarrow> string" where
  "skip_newline s = (case s of c # r \<Rightarrow> if c = CHR 0x0A then r else s | [] \<Rightarrow> [])"

lemma skip_newline_length: "length (skip_newline s) \<le> length s"
  by (cases s) (auto simp: skip_newline_def)

text \<open>Whether a redraw is shown, by the clock.\<close>

definition redraw :: "('w \<Rightarrow> rat \<times> 'w) \<Rightarrow> rat \<Rightarrow> rat option \<Rightarrow> 'w \<Rightarrow> bool \<times> rat option \<times> 'w" where
  "redraw clock every prev w = (case clock w of (t, w) \<Rightarrow>
     if (case prev of None \<Rightarrow> False | Some l \<Rightarrow> t - l < every) then (False, prev, w)
     else (case clock w of (t, w) \<Rightarrow> (True, Some t, w)))"

function feed_loop :: "('w \<Rightarrow> rat \<times> 'w) \<Rightarrow> rat \<Rightarrow> string \<Rightarrow> rat option \<Rightarrow> 'w \<Rightarrow> string list \<times> splitter \<times> 'w" where
  "feed_loop clock every buf prev w =
     (let line = takeWhile (\<lambda>c. \<not> line_end c) buf; rest = dropWhile (\<lambda>c. \<not> line_end c) buf
      in case rest of
        [] \<Rightarrow> ([], \<lparr>sp_buf = buf, sp_last = prev\<rparr>, w)
      | c # buf \<Rightarrow>
          if py_strip line = [] then feed_loop clock every (if c = CHR 0x0D then skip_newline buf else buf) prev w
          else if c = CHR 0x0A \<or> skip_newline buf \<noteq> buf then
            (case feed_loop clock every (if c = CHR 0x0D then skip_newline buf else buf) prev w of (out, r) \<Rightarrow> (line # out, r))
          else (case redraw clock every prev w of (shown, prev, w) \<Rightarrow>
            (case feed_loop clock every buf prev w of (out, r) \<Rightarrow> (if shown then line # out else out, r))))"
  by pat_completeness auto

lemma after_line_end: "c # r = dropWhile P s \<Longrightarrow> length r < length s"
  by (metis length_Cons length_dropWhile_le less_eq_Suc_le)

termination feed_loop
  by (relation "measure (\<lambda>(clock, every, buf, prev, w). length buf)")
    (auto simp: after_line_end le_less_trans[OF skip_newline_length after_line_end])

declare feed_loop.simps [simp del]

definition feed :: "('w \<Rightarrow> rat \<times> 'w) \<Rightarrow> rat \<Rightarrow> string \<Rightarrow> splitter \<Rightarrow> 'w \<Rightarrow> string list \<times> splitter \<times> 'w" where
  "feed clock every text s w = feed_loop clock every (sp_buf s @ text) (sp_last s) w"

definition flush :: "splitter \<Rightarrow> string list \<times> splitter" where
  "flush s = (if py_strip (sp_buf s) = [] then [] else [sp_buf s], s\<lparr>sp_buf := []\<rparr>)"

lemma skip_newline_append: "r \<noteq> [] \<or> skip_newline b = b \<Longrightarrow> skip_newline (r @ b) = skip_newline r @ b"
  by (cases r) (auto simp: skip_newline_def)

lemma skip_newline_same: "skip_newline s = s \<longleftrightarrow> (s = [] \<or> hd s \<noteq> CHR 0x0A)"
  by (cases s) (auto simp: skip_newline_def)

lemma skip_newline_suffix: "skip_newline s = s \<or> s = CHR 0x0A # skip_newline s"
  by (cases s) (auto simp: skip_newline_def)

lemma feed_loop_none:
  "dropWhile (\<lambda>c. \<not> line_end c) buf = [] \<Longrightarrow> feed_loop clock every buf prev w = ([], \<lparr>sp_buf = buf, sp_last = prev\<rparr>, w)"
  by (subst feed_loop.simps) (simp del: dropWhile_eq_Nil_conv add: Let_def)

text \<open>One line, as a function of what follows it.\<close>

definition line_step ::
    "('w \<Rightarrow> rat \<times> 'w) \<Rightarrow> rat \<Rightarrow> string \<Rightarrow> char \<Rightarrow> string \<Rightarrow> rat option \<Rightarrow> 'w \<Rightarrow> string list \<times> string \<times> rat option \<times> 'w" where
  "line_step clock every line c buf prev w =
     (if py_strip line = [] then ([], if c = CHR 0x0D then skip_newline buf else buf, prev, w)
      else if c = CHR 0x0A \<or> skip_newline buf \<noteq> buf then ([line], if c = CHR 0x0D then skip_newline buf else buf, prev, w)
      else (case redraw clock every prev w of (shown, prev, w) \<Rightarrow> (if shown then [line] else [], buf, prev, w)))"

lemma feed_loop_line:
  assumes "dropWhile (\<lambda>c. \<not> line_end c) buf = c # r"
    and "line_step clock every (takeWhile (\<lambda>c. \<not> line_end c) buf) c r prev w = (o1, buf1, prev1, w1)"
  shows "feed_loop clock every buf prev w = (case feed_loop clock every buf1 prev1 w1 of (out, s) \<Rightarrow> (o1 @ out, s))"
  using assms by (subst feed_loop.simps) (auto simp: line_step_def Let_def split: prod.splits if_splits)

lemma line_step_append:
  assumes "r \<noteq> [] \<or> c \<noteq> CHR 0x0D \<or> skip_newline b = b" and "line_end c"
    and "line_step clock every line c r prev w = (o1, buf1, prev1, w1)"
  shows "line_step clock every line c (r @ b) prev w = (o1, buf1 @ b, prev1, w1) \<and> (\<exists>p. r = p @ buf1)"
proof (cases "c = CHR 0x0D")
  case True
  then have a: "skip_newline (r @ b) = skip_newline r @ b" using assms(1) skip_newline_append by blast
  moreover have "skip_newline (r @ b) = r @ b \<longleftrightarrow> skip_newline r = r" using a by simp
  moreover have "\<exists>p. r = p @ skip_newline r" using skip_newline_suffix[of r] by (metis append_Cons append_Nil)
  ultimately show ?thesis using assms(3) True by (auto simp: line_step_def split: if_splits prod.splits)
next
  case False
  then show ?thesis using assms(2,3) by (auto simp: line_step_def line_end_def split: if_splits)
qed

lemma feed_loop_append:
  assumes "\<not> (buf \<noteq> [] \<and> List.last buf = CHR 0x0D \<and> skip_newline b \<noteq> b)"
  shows "feed_loop clock every (buf @ b) prev w = (case feed_loop clock every buf prev w of (o1, s1, w1) \<Rightarrow>
     (case feed_loop clock every (sp_buf s1 @ b) (sp_last s1) w1 of (o2, r) \<Rightarrow> (o1 @ o2, r)))"
  using assms
proof (induction "length buf" arbitrary: buf prev w rule: less_induct)
  case less
  show ?case
  proof (cases "dropWhile (\<lambda>c. \<not> line_end c) buf")
    case Nil
    then show ?thesis by (simp add: feed_loop_none)
  next
    case (Cons c r)
    obtain o1 buf1 prev1 w1 where l: "line_step clock every (takeWhile (\<lambda>c. \<not> line_end c) buf) c r prev w = (o1, buf1, prev1, w1)"
      by (metis prod_cases4)
    have c: "line_end c" using Cons by (metis dropWhile_eq_Cons_conv)
    obtain pre where pre: "pre = takeWhile (\<lambda>c. \<not> line_end c) buf" by simp
    then have b: "buf = pre @ c # r" using Cons takeWhile_dropWhile_id[of "\<lambda>c. \<not> line_end c" buf] by simp
    then have "r \<noteq> [] \<or> c \<noteq> CHR 0x0D \<or> skip_newline b = b" using less.prems by (cases r) auto
    note A = line_step_append[OF this c l]
    then obtain p where p: "r = p @ buf1" by blast
    have e: "(\<forall>x \<in> set buf. \<not> line_end x) = False" using b c by auto
    have d: "dropWhile (\<lambda>c. \<not> line_end c) (buf @ b) = c # r @ b" "takeWhile (\<lambda>c. \<not> line_end c) (buf @ b) = takeWhile (\<lambda>c. \<not> line_end c) buf"
      using Cons e by (simp_all only: dropWhile_append takeWhile_append if_False append_Cons)
    have "length buf1 < length buf" using p b by simp
    moreover have "\<not> (buf1 \<noteq> [] \<and> List.last buf1 = CHR 0x0D \<and> skip_newline b \<noteq> b)"
      using less.prems b p by (cases buf1 rule: rev_cases) auto
    ultimately have IH: "feed_loop clock every (buf1 @ b) prev1 w1 = (case feed_loop clock every buf1 prev1 w1 of (o1, s1, w1) \<Rightarrow>
       (case feed_loop clock every (sp_buf s1 @ b) (sp_last s1) w1 of (o2, r) \<Rightarrow> (o1 @ o2, r)))" by (rule less.hyps)
    have "feed_loop clock every (buf @ b) prev w = (case feed_loop clock every (buf1 @ b) prev1 w1 of (out, s) \<Rightarrow> (o1 @ out, s))"
      by (rule feed_loop_line[OF d(1)]) (use A d(2) in simp)
    then show ?thesis unfolding IH feed_loop_line[OF Cons l] by (simp split: prod.splits)
  qed
qed

text \<open>
  How the output is cut into chunks does not matter: feeding a text in one piece or in two shows the
  same lines, at the same readings of the clock, and leaves the same splitter, unless the cut falls inside
  a carriage return and newline pair (where it does matter: see \<open>splitter_loses_split_crlf\<close>).
\<close>

theorem splitter_chunks:
  assumes "\<not> (sp_buf s @ a \<noteq> [] \<and> List.last (sp_buf s @ a) = CHR 0x0D \<and> b \<noteq> [] \<and> hd b = CHR 0x0A)"
  shows "feed clock every (a @ b) s w = (case feed clock every a s w of (o1, s1, w1) \<Rightarrow>
     (case feed clock every b s1 w1 of (o2, r) \<Rightarrow> (o1 @ o2, r)))"
  using feed_loop_append[of "sp_buf s @ a" b] assms by (auto simp: feed_def skip_newline_same)

text \<open>A clock that stands still.\<close>

definition still :: "rat \<Rightarrow> rat \<times> rat" where
  "still t = (t, t)"

definition new_splitter :: splitter where
  "new_splitter = \<lparr>sp_buf = [], sp_last = None\<rparr>"

lemma splitter_chunks_witness:
  "feed still 2 (''a'' @ [CHR 0x0D] @ ''b'' @ [CHR 0x0A]) new_splitter 0
   = (case feed still 2 (''a'' @ [CHR 0x0D]) new_splitter 0 of (o1, s1, w1) \<Rightarrow>
       (case feed still 2 (''b'' @ [CHR 0x0A]) s1 w1 of (o2, r) \<Rightarrow> (o1 @ o2, r)))"
  using splitter_chunks[of new_splitter "''a'' @ [CHR 0x0D]" "''b'' @ [CHR 0x0A]" still 2 0] by simp

text \<open>
  A line that ends in carriage return and newline is a plain line, unless the chunk ends between the two:
  then it counts as a redraw, and one too soon after the last is not shown at all.
\<close>

lemma splitter_loses_split_crlf:
  "fst (feed still 2 (''a'' @ [CHR 0x0D] @ ''b'' @ [CHR 0x0D, CHR 0x0A]) new_splitter 0) = [''a'', ''b'']
   \<and> (case feed still 2 (''a'' @ [CHR 0x0D] @ ''b'' @ [CHR 0x0D]) new_splitter 0 of (o1, s1, w1) \<Rightarrow>
        o1 @ fst (feed still 2 [CHR 0x0A] s1 w1)) = [''a'']"
  by code_simp

end
