(* ===== verification/Apply.thy ===== *)
theory Apply
  imports Residency
begin

text \<open>
  The apply half of the Compose backend (\<open>leasing/compose.py\<close>, \<open>selective_apply\<close>): from one
  strict residency snapshot it decides which containers stay, which go and which services start,
  or aborts before it has changed anything; then it carries the decision out.

  The services of the render are a dictionary of JSON stanzas. What \<open>docker\<close> answers about the
  network (\<open>_network_state\<close>) is an argument. The decision is \<open>plan_apply\<close>; carrying it out is the
  list \<open>apply_actions\<close>, of which a crash or an error executes a prefix; \<open>run_action\<close> is what an
  action does to the project's containers. (A malformed \<open>depends_on\<close> stops the code when its level is
  reached, the model before the first action; the render writes none.)
\<close>

section \<open>Reading the render\<close>

fun int_list :: "json list \<Rightarrow> py_error + int list" where
  "int_list [] = Inr []"
| "int_list (raw # rest) =
     (case py_int raw of
        Inr i \<Rightarrow> bind_err (int_list rest) (\<lambda>is. Inr (i # is))
      | Inl ValueError \<Rightarrow> int_list rest
      | Inl e \<Rightarrow> Inl e)"

definition device_gpus :: "json \<Rightarrow> py_error + int list" where
  "device_gpus dev = bind_err (py_get ''device_ids'' dev) (\<lambda>ids.
     bind_err (py_iter (py_or ids (JList []))) int_list)"

definition stanza_gpus :: "json \<Rightarrow> py_error + int list" where
  "stanza_gpus service =
     bind_err (py_get_obj ''deploy'' service) (\<lambda>deploy.
     bind_err (py_get_obj ''resources'' deploy) (\<lambda>resources.
     bind_err (py_get_obj ''reservations'' resources) (\<lambda>reservations.
     bind_err (py_get ''devices'' reservations) (\<lambda>devices.
     bind_err (py_iter (py_or devices (JList []))) (\<lambda>devs.
     bind_err (map_err device_gpus devs) (\<lambda>gpus. Inr (concat gpus)))))))"

definition dep_cond :: "string \<times> json \<Rightarrow> py_error + string \<times> json" where
  "dep_cond kv = (if \<not> truthy (snd kv) then Inr (fst kv, JObj [])
     else if is_obj (snd kv) then Inr kv else Inl TypeError)"

definition str_key :: "json \<Rightarrow> py_error + string option" where
  "str_key v = (if py_hashable v then Inr (str_val v) else Inl TypeError)"

text \<open>A name in the list form that is not a string matches no service.\<close>

definition depends_on :: "json \<Rightarrow> py_error + (string, json) dict" where
  "depends_on service =
     bind_err (py_get_obj ''depends_on'' service) (\<lambda>deps.
       case deps of
         JList xs \<Rightarrow> bind_err (map_err str_key xs) (\<lambda>ks.
           Inr (map (\<lambda>k. (k, JObj [])) (fromkeys (List.map_filter id ks))))
       | JObj kvs \<Rightarrow> map_err dep_cond kvs
       | _ \<Rightarrow> Inl AttributeError)"

definition dep_names :: "json \<Rightarrow> py_error + string list" where
  "dep_names service =
     bind_err (py_get ''depends_on'' service) (\<lambda>deps.
     bind_err (py_iter (py_or deps (JList []))) (\<lambda>xs.
     bind_err (map_err str_key xs) (\<lambda>ks. Inr (List.map_filter id ks))))"

definition service_of :: "(string, json) dict \<Rightarrow> string \<Rightarrow> json" where
  "service_of services name = (case dget services name of None \<Rightarrow> JObj [] | Some s \<Rightarrow> s)"

text \<open>Start order; on a cycle everything that is left starts together.\<close>

definition startable :: "(string \<Rightarrow> string list) \<Rightarrow> string list \<Rightarrow> string list \<Rightarrow> string list" where
  "startable deps pending started =
     (let level = filter (\<lambda>n. set (deps n) \<inter> set pending \<subseteq> set started) pending
      in if level = [] then pending else level)"

function level_loop :: "(string \<Rightarrow> string list) \<Rightarrow> string list \<Rightarrow> string list \<Rightarrow> string list list" where
  "level_loop deps pending started =
     (if pending = [] then []
      else (let level = startable deps pending started; started' = started @ level
            in sort level # level_loop deps (filter (\<lambda>n. n \<notin> set started') pending) started'))"
  by pat_completeness auto

lemma startable_subset: "set (startable deps pending started) \<subseteq> set pending"
  by (auto simp: startable_def Let_def)

lemma startable_nonempty: "pending \<noteq> [] \<Longrightarrow> startable deps pending started \<noteq> []"
  by (simp add: startable_def Let_def)

termination level_loop
proof (relation "measure (\<lambda>(deps, pending, started). length pending)")
  fix deps :: "string \<Rightarrow> string list" and pending started level started' :: "string list"
  assume a: "pending \<noteq> []" "level = startable deps pending started" "started' = started @ level"
  have "level \<noteq> []" unfolding a(2) by (rule startable_nonempty[OF a(1)])
  then have "hd level \<in> set level" by (rule hd_in_set)
  then have n: "hd level \<in> set pending" "hd level \<in> set started'"
    using startable_subset[of deps pending started] unfolding a(2,3) by auto
  then have "length (filter (\<lambda>n. n \<notin> set started') pending) < length pending"
    using n by (intro length_filter_less[of "hd level"]) auto
  then show "((deps, filter (\<lambda>n. n \<notin> set started') pending, started'), deps, pending, started)
      \<in> measure (\<lambda>(deps, pending, started). length pending)" by simp
qed simp

declare level_loop.simps [simp del]

definition dependency_levels :: "(string, json) dict \<Rightarrow> string list \<Rightarrow> py_error + string list list" where
  "dependency_levels services names =
     (let pending = fromkeys names in
      bind_err (map_err (\<lambda>n. bind_err (dep_names (service_of services n)) (\<lambda>ds. Inr (n, ds))) pending) (\<lambda>table.
        Inr (level_loop (\<lambda>n. case dget table n of None \<Rightarrow> [] | Some ds \<Rightarrow> ds) pending [])))"

section \<open>The decision\<close>

datatype apply_error =
    Ambiguous string
  | StillRemoving string
  | GpuBlocked string int string bool
  | GpuKept string int string
  | AddressHeld string string string
  | ForeignAttached "string list"
  | ApplyCrash py_error

definition ap_crash :: "py_error + 'a \<Rightarrow> apply_error + 'a" where
  "ap_crash r = (case r of Inl e \<Rightarrow> Inl (ApplyCrash e) | Inr x \<Rightarrow> Inr x)"

type_synonym adopted = "(string, string \<times> string) dict"

definition unit_key :: "adopted \<Rightarrow> container \<Rightarrow> (string \<times> string) option" where
  "unit_key adopted c =
     (if c_labelled c then Some (c_service c, c_fingerprint c) else dget adopted (c_id c))"

record apply_input =
  ai_services :: "(string, json) dict"
  ai_fingerprints :: "(string, string) dict"
  ai_adopted :: adopted
  ai_degraded :: "string list"
  ai_optional :: "string list"

record apply_decision =
  ap_keep :: "container list"
  ap_departing :: "container list"
  ap_to_start :: "string list"
  ap_orphans :: "container list"

fun each_ok :: "('a \<Rightarrow> 'e + unit) \<Rightarrow> 'a list \<Rightarrow> 'e + unit" where
  "each_ok f [] = Inr ()"
| "each_ok f (x # xs) = bind_err (f x) (\<lambda>_. each_ok f xs)"

definition wanted_fingerprint :: "apply_input \<Rightarrow> string \<Rightarrow> string option" where
  "wanted_fingerprint inp name =
     (if name \<in> set (dkeys (ai_services inp)) then dget (ai_fingerprints inp) name else None)"

definition wanted_unit :: "apply_input \<Rightarrow> container \<Rightarrow> bool" where
  "wanted_unit inp c = (case unit_key (ai_adopted inp) c of
      None \<Rightarrow> False | Some (s, fp) \<Rightarrow> wanted_fingerprint inp s = Some fp)"

definition choose_units :: "apply_input \<Rightarrow> container list \<Rightarrow> apply_decision" where
  "choose_units inp containers =
     (let key = unit_key (ai_adopted inp);
          managed = filter (\<lambda>c. key c \<noteq> None) containers;
          keep = filter (\<lambda>c. wanted_unit inp c \<and> c_state c \<in> set warm_states) managed;
          kept_ids = map c_id keep;
          kept_services = map (fst \<circ> the \<circ> key) keep
      in \<lparr>ap_keep = keep,
          ap_departing = filter (\<lambda>c. c_id c \<notin> set kept_ids \<and> c_deployment c \<notin> set (ai_degraded inp)) managed,
          ap_to_start = filter (\<lambda>n. n \<notin> set kept_services \<and> n \<notin> set (ai_optional inp)) (dkeys (ai_services inp)),
          ap_orphans = filter (\<lambda>c. key c = None) containers\<rparr>)"

definition ambiguity_check :: "apply_input \<Rightarrow> container list \<Rightarrow> string \<Rightarrow> apply_error + unit" where
  "ambiguity_check inp containers name =
     (case dget (ai_fingerprints inp) name of
        None \<Rightarrow> Inr ()
      | Some fp \<Rightarrow>
          if length (filter (\<lambda>c. unit_key (ai_adopted inp) c = Some (name, fp)) containers) > 1
          then Inl (Ambiguous name) else Inr ())"

definition blocked_check :: "apply_input \<Rightarrow> apply_decision \<Rightarrow> string \<Rightarrow> int \<Rightarrow> container \<Rightarrow> apply_error + unit" where
  "blocked_check inp p name gpu c =
     (if c_id c \<in> set (map c_id (ap_keep p)) \<or> c_id c \<in> set (map c_id (ap_departing p)) then Inr ()
      else Inl (GpuBlocked (c_id c) gpu name (unit_key (ai_adopted inp) c = None)))"

definition kept_check :: "apply_input \<Rightarrow> apply_decision \<Rightarrow> string \<Rightarrow> int \<Rightarrow> container \<Rightarrow> apply_error + unit" where
  "kept_check inp p name gpu c =
     (if c_id c \<in> set (map c_id (ap_keep p))
      then (case unit_key (ai_adopted inp) c of
              None \<Rightarrow> Inl (ApplyCrash TypeError)
            | Some (s, fp) \<Rightarrow> if s \<noteq> name then Inl (GpuKept s gpu name) else Inr ())
      else Inr ())"

definition gpu_check :: "apply_input \<Rightarrow> residency \<Rightarrow> apply_decision \<Rightarrow> string \<Rightarrow> int \<Rightarrow> apply_error + unit" where
  "gpu_check inp res p name gpu =
     bind_err (each_ok (blocked_check inp p name gpu) (occupants res gpu)) (\<lambda>_.
       each_ok (kept_check inp p name gpu) (occupants res gpu))"

definition service_gpu_check :: "apply_input \<Rightarrow> residency \<Rightarrow> apply_decision \<Rightarrow> string \<Rightarrow> apply_error + unit" where
  "service_gpu_check inp res p name =
     bind_err (ap_crash (stanza_gpus (service_of (ai_services inp) name))) (\<lambda>gpus.
       each_ok (gpu_check inp res p name) gpus)"

definition fixed_address :: "string \<Rightarrow> json \<Rightarrow> py_error + json" where
  "fixed_address net service =
     bind_err (py_get_obj ''networks'' service) (\<lambda>nets.
     bind_err (py_get_obj net nets) (\<lambda>n. py_get ''ipv4_address'' n))"

definition address_check :: "string \<Rightarrow> apply_input \<Rightarrow> container list \<Rightarrow> string \<Rightarrow> apply_error + unit" where
  "address_check net inp containers name =
     bind_err (ap_crash (fixed_address net (service_of (ai_services inp) name))) (\<lambda>address.
       if \<not> truthy address then Inr ()
       else each_ok (\<lambda>c. if address \<in> set (map JStr (c_ips c)) \<and> unit_key (ai_adopted inp) c = None
              then Inl (AddressHeld (c_id c) (case address of JStr a \<Rightarrow> a | _ \<Rightarrow> []) name) else Inr ()) containers)"

text \<open>
  \<open>net_state\<close> is the subnet of the fixed network and the containers attached to it, where it
  exists; \<open>wanted_subnet\<close> is the subnet of the render, where it has one.
\<close>

definition subnet_check ::
    "string option \<Rightarrow> (string option \<times> string list) option \<Rightarrow> apply_decision \<Rightarrow> apply_error + unit" where
  "subnet_check wanted_subnet net_state p =
     (case (wanted_subnet, net_state) of
        (Some w, Some (subnet, attached)) \<Rightarrow>
          if subnet = Some w then Inr ()
          else (let foreign = filter (\<lambda>cid. cid \<notin> set (map c_id (ap_departing p))) attached
                in if foreign \<noteq> [] then Inl (ForeignAttached foreign) else Inr ())
      | _ \<Rightarrow> Inr ())"

definition plan_apply ::
    "string \<Rightarrow> apply_input \<Rightarrow> residency \<Rightarrow> string option \<Rightarrow> (string option \<times> string list) option
     \<Rightarrow> apply_error + apply_decision" where
  "plan_apply net inp res wanted_subnet net_state =
     (let containers = all_containers res; p = choose_units inp containers in
      if \<not> set (dkeys (ai_services inp)) \<subseteq> set (dkeys (ai_fingerprints inp)) then Inl (ApplyCrash KeyError)
      else
        bind_err (each_ok (ambiguity_check inp containers) (dkeys (ai_services inp))) (\<lambda>_.
        bind_err (each_ok (\<lambda>c. if c_state c = ''removing'' then Inl (StillRemoving (c_id c)) else Inr ())
                   (ap_departing p)) (\<lambda>_.
        bind_err (each_ok (service_gpu_check inp res p) (ap_to_start p)) (\<lambda>_.
        bind_err (each_ok (address_check net inp containers) (ap_to_start p)) (\<lambda>_.
        bind_err (subnet_check wanted_subnet net_state p) (\<lambda>_. Inr p))))))"

section \<open>Carrying it out\<close>

datatype action =
    Pull "string list"
  | Remove "string list"
  | AwaitGone "string list"
  | ReconcileNetwork
  | Unpause "string list"
  | AwaitHealthy "string list"
  | Up "string list"

definition healthy_deps :: "(string, json) dict \<Rightarrow> string list \<Rightarrow> py_error + string list" where
  "healthy_deps services level =
     bind_err (map_err (\<lambda>n. depends_on (service_of services n)) level) (\<lambda>tables.
       Inr (sort (remdups (map fst (filter (\<lambda>(d, cond). py_get ''condition'' cond = Inr (JStr ''service_healthy''))
         (concat tables))))))"

definition level_actions :: "(string, json) dict \<Rightarrow> string list \<Rightarrow> py_error + action list" where
  "level_actions services level =
     bind_err (healthy_deps services level) (\<lambda>deps.
       Inr ((if deps \<noteq> [] then [AwaitHealthy deps] else []) @ [Up level]))"

definition image_names :: "(json \<Rightarrow> string) \<Rightarrow> (string, json) dict \<Rightarrow> string list \<Rightarrow> py_error + string list" where
  "image_names repr services names =
     bind_err (map_err (\<lambda>n. py_get ''image'' (service_of services n)) names) (\<lambda>imgs.
       Inr (sort (remdups (map (py_str repr) (filter truthy imgs)))))"

definition apply_actions ::
    "(json \<Rightarrow> string) \<Rightarrow> apply_input \<Rightarrow> bool \<Rightarrow> apply_decision \<Rightarrow> py_error + action list" where
  "apply_actions repr inp networks p =
     (let paused = filter (\<lambda>c. c_state c = ''paused''
            \<and> (case unit_key (ai_adopted inp) c of Some (s, _) \<Rightarrow> s \<notin> set (ai_optional inp) | None \<Rightarrow> False)) (ap_keep p);
          gone = map c_id (ap_departing p) in
      bind_err (image_names repr (ai_services inp) (ap_to_start p)) (\<lambda>images.
      bind_err (dependency_levels (ai_services inp) (ap_to_start p)) (\<lambda>levels.
      bind_err (map_err (level_actions (ai_services inp)) levels) (\<lambda>ups.
        Inr ((if images \<noteq> [] then [Pull images] else [])
          @ (if gone \<noteq> [] then [Remove gone, AwaitGone gone] else [])
          @ (if networks then [ReconcileNetwork] else [])
          @ (if paused \<noteq> [] then [Unpause (map c_id paused)] else [])
          @ concat ups)))))"

text \<open>A started container, as far as later decisions see it.\<close>

definition started_unit :: "apply_input \<Rightarrow> string \<Rightarrow> container" where
  "started_unit inp name =
     \<lparr>c_id = ''new-'' @ name, c_deployment = [], c_state = ''running'',
      c_gpus = (case stanza_gpus (service_of (ai_services inp) name) of Inr gs \<Rightarrow> gs | Inl _ \<Rightarrow> []),
      c_all_gpus = False, c_service = name,
      c_fingerprint = (case dget (ai_fingerprints inp) name of Some fp \<Rightarrow> fp | None \<Rightarrow> []),
      c_labelled = True, c_ips = [], c_health = [], c_restart_count = 0, c_exit_code = None,
      c_restart_policy = [], c_restart_max = 0, c_reason = [], c_message = [], c_started = [], c_ports = []\<rparr>"

text \<open>The containers that were there and those that were started.\<close>

fun run_action :: "apply_input \<Rightarrow> action \<Rightarrow> container list \<times> container list \<Rightarrow> container list \<times> container list" where
  "run_action inp (Remove ids) (old, new) = (filter (\<lambda>c. c_id c \<notin> set ids) old, new)"
| "run_action inp (Unpause ids) (old, new) =
     (map (\<lambda>c. if c_id c \<in> set ids then c\<lparr>c_state := ''running''\<rparr> else c) old, new)"
| "run_action inp (Up names) (old, new) = (old, new @ map (started_unit inp) names)"
| "run_action inp _ w = w"

definition run_actions :: "apply_input \<Rightarrow> action list \<Rightarrow> container list \<times> container list \<Rightarrow> container list \<times> container list" where
  "run_actions inp acts w = fold (run_action inp) acts w"

section \<open>Start order\<close>

lemma startable_distinct: "distinct pending \<Longrightarrow> distinct (startable deps pending started)"
  by (simp add: startable_def Let_def)

lemma level_loop_mset:
  "distinct pending \<Longrightarrow> set pending \<inter> set started = {} \<Longrightarrow>
   mset (concat (level_loop deps pending started)) = mset pending"
proof (induction deps pending started rule: level_loop.induct)
  case (1 deps pending started)
  show ?case
  proof (cases "pending = []")
    case True
    then show ?thesis by (simp add: level_loop.simps)
  next
    case False
    let ?l = "startable deps pending started"
    let ?p = "filter (\<lambda>n. n \<notin> set (started @ ?l)) pending"
    have sub: "set ?l \<subseteq> set pending" by (rule startable_subset)
    have IH: "mset (concat (level_loop deps ?p (started @ ?l))) = mset ?p"
      by (rule 1(1)[OF False refl refl]) (use 1(2,3) sub in auto)
    obtain q where q: "?l = filter q pending"
    proof (cases "filter (\<lambda>n. set (deps n) \<inter> set pending \<subseteq> set started) pending = []")
      case True
      then have "?l = filter (\<lambda>_. True) pending" by (simp add: startable_def)
      then show ?thesis by (rule that)
    next
      case False
      then have "?l = filter (\<lambda>n. set (deps n) \<inter> set pending \<subseteq> set started) pending" by (simp add: startable_def)
      then show ?thesis by (rule that)
    qed
    have "?p = filter (\<lambda>n. \<not> q n) pending" unfolding q using 1(3) by (intro filter_cong) auto
    then have "mset ?p = filter_mset (\<lambda>n. \<not> q n) (mset pending)" by simp
    moreover have "mset ?l = filter_mset q (mset pending)" unfolding q by simp
    ultimately have "mset pending = mset ?l + mset ?p" using multiset_partition[of "mset pending" q] by (simp only:)
    moreover have "level_loop deps pending started = sort ?l # level_loop deps ?p (started @ ?l)"
      using False by (simp only: level_loop.simps[of deps pending] Let_def if_False)
    ultimately show ?thesis using IH by (simp only: concat.simps mset_append mset_sort)
  qed
qed

lemma level_loop_order:
  assumes "level_loop deps pending started = xs @ l # ys" and "n \<in> set l" and "d \<in> set (deps n)"
    and "d \<in> set pending" and "\<And>n d. n \<in> set pending \<Longrightarrow> d \<in> set (deps n) \<inter> set pending \<Longrightarrow> rank d < (rank n :: nat)"
    and "set pending \<inter> set started = {}"
  shows "d \<in> set (concat xs)"
  using assms
proof (induction deps pending started arbitrary: xs rule: level_loop.induct)
  case (1 deps pending started)
  have ne: "pending \<noteq> []" using 1(2) by (auto simp: level_loop.simps[of deps pending])
  let ?l = "startable deps pending started"
  let ?p = "filter (\<lambda>n. n \<notin> set (started @ ?l)) pending"
  have eq: "level_loop deps pending started = sort ?l # level_loop deps ?p (started @ ?l)"
    using ne by (simp add: level_loop.simps[of deps pending] Let_def)
  have first: "set ?l = {n \<in> set pending. set (deps n) \<inter> set pending = {}}"
  proof -
    obtain m where m: "m \<in> set pending" "\<forall>n \<in> set pending. rank m \<le> rank n"
      using ne ex_min_if_finite[of "rank ` set pending"] by (metis List.finite_set Min_le arg_min_if_finite(1)
        arg_min_least finite.emptyI set_empty2)
    have "set (deps m) \<inter> set pending = {}"
      using 1(6)[OF m(1)] m(2) by fastforce
    then have "filter (\<lambda>n. set (deps n) \<inter> set pending \<subseteq> set started) pending \<noteq> []"
      using m(1) by (auto simp: filter_empty_conv)
    then show ?thesis using 1(7) by (auto simp: startable_def Let_def)
  qed
  show ?case
  proof (cases xs)
    case Nil
    then have "l = sort ?l" using 1(2) unfolding eq by simp
    then show ?thesis using 1(3,4,5) first by auto
  next
    case (Cons x xs')
    then have x: "x = sort ?l" "level_loop deps ?p (started @ ?l) = xs' @ l # ys" using 1(2) unfolding eq by simp_all
    show ?thesis
    proof (cases "d \<in> set ?l")
      case True
      then show ?thesis by (simp add: Cons x(1))
    next
      case False
      then have d: "d \<in> set ?p" using 1(5,7) by auto
      have "d \<in> set (concat xs')"
        by (rule 1(1)[OF ne refl refl x(2) 1(3,4) d]) (use 1(6) in auto)
      then show ?thesis by (simp add: Cons)
    qed
  qed
qed

lemma dependency_levels_loop:
  assumes "dependency_levels services names = Inr levels"
  shows "\<exists>deps. levels = level_loop deps (fromkeys names) []
    \<and> (\<forall>n \<in> set names. dep_names (service_of services n) = Inr (deps n))"
proof -
  obtain table where t: "map_err (\<lambda>n. bind_err (dep_names (service_of services n)) (\<lambda>ds. Inr (n, ds))) (fromkeys names) = Inr table"
    and l: "levels = level_loop (\<lambda>n. case dget table n of None \<Rightarrow> [] | Some ds \<Rightarrow> ds) (fromkeys names) []"
    using assms by (auto simp: dependency_levels_def Let_def bind_err_Inr)
  have "list_all2 (\<lambda>n p. fst p = n \<and> dep_names (service_of services n) = Inr (snd p)) (fromkeys names) table"
    using t unfolding map_err_Inr by (rule list_all2_mono) (auto simp: bind_err_Inr)
  then have "dep_names (service_of services n) = Inr (case dget table n of None \<Rightarrow> [] | Some ds \<Rightarrow> ds)"
    if "n \<in> set (fromkeys names)" for n
    using that by (induction rule: list_all2_induct) (auto simp: dget_def)
  then show ?thesis using l by auto
qed

lemma start_order_levels:
  "dependency_levels services names = Inr levels \<Longrightarrow> mset (concat levels) = mset (fromkeys names)"
  using dependency_levels_loop[of services names levels] level_loop_mset[of "fromkeys names" "[]"] by auto

text \<open>
  Services start once, after what they depend on. The levels list every service to start exactly
  once; and if the dependencies among them have no cycle (some rank decreases along them), each
  service comes in a later level than every service of the render it depends on.
\<close>

theorem start_order:
  assumes "dependency_levels services names = Inr levels"
  shows "mset (concat levels) = mset (fromkeys names)
    \<and> (\<forall>(rank :: string \<Rightarrow> nat) xs l ys n ds d.
         (\<forall>n \<in> set names. \<forall>ds. dep_names (service_of services n) = Inr ds
            \<longrightarrow> (\<forall>d \<in> set ds \<inter> set names. rank d < rank n))
         \<and> levels = xs @ l # ys \<and> n \<in> set l \<and> dep_names (service_of services n) = Inr ds
         \<and> d \<in> set ds \<and> d \<in> set names \<longrightarrow> d \<in> set (concat xs))"
proof -
  obtain deps where l: "levels = level_loop deps (fromkeys names) []"
    and deps: "\<forall>n \<in> set names. dep_names (service_of services n) = Inr (deps n)"
    using dependency_levels_loop[OF assms] by blast
  have m: "mset (concat levels) = mset (fromkeys names)" by (rule start_order_levels[OF assms])
  have "d \<in> set (concat xs)"
    if r: "\<forall>n \<in> set names. \<forall>ds. dep_names (service_of services n) = Inr ds
            \<longrightarrow> (\<forall>d \<in> set ds \<inter> set names. rank d < rank n)"
      and s: "levels = xs @ lv # ys" "n \<in> set lv" "dep_names (service_of services n) = Inr ds" "d \<in> set ds" "d \<in> set names"
    for rank :: "string \<Rightarrow> nat" and xs lv ys n ds d
  proof -
    have "n \<in> set (concat levels)" using s(1,2) by simp
    moreover have "set (concat levels) = set (fromkeys names)" using m by (metis set_mset_mset)
    ultimately have "n \<in> set (fromkeys names)" by (simp only:)
    then have n: "n \<in> set names" by simp
    then have "ds = deps n" using deps s(3) by auto
    then show ?thesis
      using level_loop_order[of deps "fromkeys names" "[]" xs lv ys n d rank] s r deps unfolding l by auto
  qed
  then show ?thesis using m by blast
qed

section \<open>What is kept and removed\<close>

lemma each_ok_Inr: "each_ok f xs = Inr u \<longleftrightarrow> (\<forall>x \<in> set xs. f x = Inr ())"
proof (induction xs)
  case (Cons x xs)
  then show ?case by (cases "f x") auto
qed simp

lemma plan_apply_Inr:
  assumes "plan_apply net inp res w ns = Inr p"
  shows "p = choose_units inp (all_containers res)"
    and "\<forall>n \<in> set (dkeys (ai_services inp)). ambiguity_check inp (all_containers res) n = Inr ()"
    and "\<forall>c \<in> set (ap_departing p). c_state c \<noteq> ''removing''"
    and "\<forall>n \<in> set (ap_to_start p). service_gpu_check inp res p n = Inr ()"
    and "set (dkeys (ai_services inp)) \<subseteq> set (dkeys (ai_fingerprints inp))"
  using assms by (auto simp: plan_apply_def Let_def bind_err_Inr each_ok_Inr split: if_splits)

lemma wanted_unit_key: "wanted_unit inp c \<Longrightarrow> \<exists>s fp. unit_key (ai_adopted inp) c = Some (s, fp)
    \<and> s \<in> set (dkeys (ai_services inp)) \<and> dget (ai_fingerprints inp) s = Some fp"
  by (auto simp: wanted_unit_def wanted_fingerprint_def split: option.splits if_splits)

lemma same_unit: "distinct (map c_id cs) \<Longrightarrow> c \<in> set cs \<Longrightarrow> d \<in> set cs \<Longrightarrow> c_id c = c_id d \<Longrightarrow> c = d"
  by (auto simp: distinct_map dest: inj_onD)

text \<open>A service to start finds its GPUs occupied by departing containers only.\<close>

lemma started_gpus_free:
  assumes p: "plan_apply net inp res w ns = Inr p" and ids: "distinct (map c_id (all_containers res))"
    and n: "n \<in> set (ap_to_start p)" and c: "c \<in> set (all_containers res)"
    and gpu: "gpu \<in> set (c_gpus (started_unit inp n))" "occupies c gpu"
  shows "c \<in> set (ap_departing p)"
proof -
  note P = plan_apply_Inr[OF p]
  let ?key = "unit_key (ai_adopted inp)"
  obtain gpus where g: "stanza_gpus (service_of (ai_services inp) n) = Inr gpus"
    and chk: "\<forall>gpu \<in> set gpus. gpu_check inp res p n gpu = Inr ()"
    using bspec[OF P(4) n] by (cases "stanza_gpus (service_of (ai_services inp) n)")
      (auto simp: service_gpu_check_def each_ok_Inr ap_crash_def)
  have "gpu \<in> set gpus" using gpu(1) g by (simp add: started_unit_def)
  then have b: "\<forall>c \<in> set (occupants res gpu). blocked_check inp p n gpu c = Inr ()"
    and k: "\<forall>c \<in> set (occupants res gpu). kept_check inp p n gpu c = Inr ()"
    using chk by (auto simp: gpu_check_def bind_err_Inr each_ok_Inr)
  have co: "c \<in> set (occupants res gpu)" using c gpu(2) by (simp add: occupants_def)
  have notk: "c_id c \<notin> set (map c_id (ap_keep p))"
  proof
    assume i: "c_id c \<in> set (map c_id (ap_keep p))"
    then obtain d where d: "d \<in> set (ap_keep p)" "c_id d = c_id c" by auto
    then have "d \<in> set (all_containers res)" by (auto simp: P(1) choose_units_def Let_def)
    then have "d = c" using same_unit[OF ids _ c] d(2) by blast
    moreover obtain fp where "?key c = Some (n, fp)"
      using bspec[OF k co] i by (auto simp: kept_check_def split: option.splits if_splits)
    ultimately have "n \<in> set (map (fst \<circ> the \<circ> ?key) (ap_keep p))" using d(1) by force
    then show False using n by (simp add: P(1) choose_units_def Let_def)
  qed
  then have "c_id c \<in> set (map c_id (ap_departing p))"
    using b co by (auto simp: blocked_check_def split: if_splits)
  then obtain d where d: "d \<in> set (ap_departing p)" "c_id d = c_id c" by auto
  then have "d \<in> set (all_containers res)" by (auto simp: P(1) choose_units_def Let_def)
  then show ?thesis using same_unit[OF ids _ c] d by blast
qed

section \<open>Every prefix of the actions\<close>

fun ups_of :: "action list \<Rightarrow> string list" where
  "ups_of [] = []"
| "ups_of (Up names # acts) = names @ ups_of acts"
| "ups_of (_ # acts) = ups_of acts"

lemma ups_of_append [simp]: "ups_of (xs @ ys) = ups_of xs @ ups_of ys"
  by (induction xs rule: ups_of.induct) simp_all

lemma run_new: "snd (run_actions inp acts (old, new)) = new @ map (started_unit inp) (ups_of acts)"
  unfolding run_actions_def
proof (induction acts arbitrary: old new)
  case (Cons a acts)
  obtain old1 new1 where 1: "run_action inp a (old, new) = (old1, new1)" by fastforce
  then show ?case using Cons[of old1 new1] by (cases a) auto
qed simp

text \<open>A container that is there was there before, but for its state.\<close>

definition same_place :: "container \<Rightarrow> container \<Rightarrow> bool" where
  "same_place c d \<longleftrightarrow> c = d\<lparr>c_state := c_state c\<rparr>"

lemma same_place_iff: "same_place c d \<longleftrightarrow> (\<exists>s. c = d\<lparr>c_state := s\<rparr>)"
  by (auto simp: same_place_def)

lemma same_place_trans: "same_place c d \<Longrightarrow> same_place d e \<Longrightarrow> same_place c e"
  by (auto simp: same_place_iff)

lemma length_filter_eq: "distinct xs \<Longrightarrow> length (filter (\<lambda>m. m = n) xs) = (if n \<in> set xs then 1 else 0)"
  by (induction xs) (auto simp: filter_empty_conv)

lemma same_place_fields: "same_place c d \<Longrightarrow> c_id c = c_id d \<and> occupies c = occupies d
    \<and> unit_key adopted c = unit_key adopted d \<and> c_deployment c = c_deployment d"
proof -
  assume "same_place c d"
  then obtain s where "c = d\<lparr>c_state := s\<rparr>" by (auto simp: same_place_def)
  then show ?thesis by (simp add: occupies_def unit_key_def fun_eq_iff)
qed

lemma run_old:
  assumes "c \<in> set (fst (run_actions inp acts (old, new)))"
  shows "(\<exists>d \<in> set old. same_place c d) \<and> (\<forall>ids. Remove ids \<in> set acts \<longrightarrow> c_id c \<notin> set ids)"
  using assms unfolding run_actions_def
proof (induction acts arbitrary: old new)
  case Nil
  then show ?case by (auto simp: same_place_def intro!: bexI[of _ c])
next
  case (Cons a acts)
  obtain old1 new1 where 1: "run_action inp a (old, new) = (old1, new1)" by fastforce
  with Cons.prems have "c \<in> set (fst (fold (run_action inp) acts (old1, new1)))" by simp
  from Cons.IH[OF this] obtain d where d: "d \<in> set old1" "same_place c d"
    and r: "\<forall>ids. Remove ids \<in> set acts \<longrightarrow> c_id c \<notin> set ids" by blast
  have "\<exists>e \<in> set old. same_place d e"
  proof (cases a)
    case (Unpause ids)
    then obtain e where e: "e \<in> set old" "d = (if c_id e \<in> set ids then e\<lparr>c_state := ''running''\<rparr> else e)"
      using 1 d(1) by auto
    then have "same_place d e" by (simp add: same_place_def)
    then show ?thesis using e(1) by blast
  qed (use 1 d(1) in \<open>auto simp: same_place_def intro!: bexI[of _ d]\<close>)
  then obtain e where "e \<in> set old" "same_place d e" by blast
  moreover have "same_place c e" using d(2) \<open>same_place d e\<close> by (rule same_place_trans)
  moreover have "c_id c \<notin> set ids" if "Remove ids = a" for ids
    using 1 d that[symmetric] same_place_fields[OF d(2)] by auto
  ultimately show ?case using r by auto
qed

lemma run_keeps:
  assumes "c \<in> set old" and "\<forall>ids. Remove ids \<in> set acts \<longrightarrow> c_id c \<notin> set ids"
  shows "c_id c \<in> c_id ` set (fst (run_actions inp acts (old, new)))"
  using assms unfolding run_actions_def
proof (induction acts arbitrary: old new c)
  case (Cons a acts)
  obtain old1 new1 where 1: "run_action inp a (old, new) = (old1, new1)" by fastforce
  have "\<exists>d \<in> set old1. c_id d = c_id c"
  proof (cases a)
    case (Remove ids)
    then show ?thesis using 1 Cons.prems by auto
  next
    case (Unpause ids)
    then have "(if c_id c \<in> set ids then c\<lparr>c_state := ''running''\<rparr> else c) \<in> set old1"
      using 1 Cons.prems(1) by auto
    then show ?thesis by (rule rev_bexI) simp
  qed (use 1 Cons.prems(1) in auto)
  then obtain d where "d \<in> set old1" "c_id d = c_id c" by blast
  then show ?case using Cons.IH[of d old1 new1] Cons.prems(2) 1 by simp
qed simp

text \<open>The actions: no start before the removals are confirmed, then the levels.\<close>

lemma apply_actions_shape:
  assumes "apply_actions repr inp networks p = Inr acts"
  shows "\<exists>pre post levels. acts = pre @ post \<and> ups_of pre = []
    \<and> dependency_levels (ai_services inp) (ap_to_start p) = Inr levels \<and> ups_of post = concat levels
    \<and> (\<forall>ids. Remove ids \<in> set acts \<longleftrightarrow> ids = map c_id (ap_departing p) \<and> ids \<noteq> [])
    \<and> (\<forall>ids. Remove ids \<in> set acts \<longrightarrow> Remove ids \<in> set pre)"
proof -
  obtain images levels ups and paused :: "container list" where
    l: "dependency_levels (ai_services inp) (ap_to_start p) = Inr levels"
    and u: "map_err (level_actions (ai_services inp)) levels = Inr ups"
    and shape: "(if images \<noteq> [] then [Pull images] else [])
          @ (if map c_id (ap_departing p) \<noteq> [] then [Remove (map c_id (ap_departing p)), AwaitGone (map c_id (ap_departing p))] else [])
          @ (if networks then [ReconcileNetwork] else [])
          @ (if paused \<noteq> [] then [Unpause (map c_id paused)] else []) @ concat ups = acts"
    using assms unfolding apply_actions_def Let_def bind_err_Inr sum.inject
    by (elim exE conjE) (rule that, (assumption | rule refl)+)
  define pre where "pre = (if images \<noteq> [] then [Pull images] else [])
          @ (if map c_id (ap_departing p) \<noteq> [] then [Remove (map c_id (ap_departing p)), AwaitGone (map c_id (ap_departing p))] else [])
          @ (if networks then [ReconcileNetwork] else [])
          @ (if paused \<noteq> [] then [Unpause (map c_id paused)] else [])"
  have acts: "acts = pre @ concat ups" using shape unfolding pre_def by (simp only: append_assoc)
  have pre: "ups_of pre = []" "Remove ids \<in> set pre \<longleftrightarrow> ids = map c_id (ap_departing p) \<and> ids \<noteq> []" for ids
    by (auto simp: pre_def)
  have "list_all2 (\<lambda>level as. ups_of as = level \<and> (\<forall>ids. Remove ids \<notin> set as)) levels ups"
    using u unfolding map_err_Inr
    by (rule list_all2_mono) (auto simp: level_actions_def bind_err_Inr split: if_splits)
  then have "ups_of (concat ups) = concat levels \<and> (\<forall>ids. Remove ids \<notin> set (concat ups))"
    by (induction rule: list_all2_induct) auto
  then show ?thesis
    using l pre by (intro exI[of _ pre] exI[of _ "concat ups"] exI[of _ levels]) (auto simp: acts)
qed

lemma ups_of_take: "\<exists>more. ups_of xs = ups_of (take k xs) @ more"
  by (metis append_take_drop_id ups_of_append)

lemma prefix_state:
  assumes "apply_actions repr inp networks p = Inr acts"
    and "run_actions inp (take k acts) (old0, []) = (old, new)"
  shows "\<exists>names. new = map (started_unit inp) names \<and> distinct names \<and> set names \<subseteq> set (ap_to_start p)
    \<and> (names \<noteq> [] \<longrightarrow> (\<forall>c \<in> set old. c_id c \<notin> c_id ` set (ap_departing p)))
    \<and> (\<forall>c \<in> set old. \<exists>d \<in> set old0. same_place c d)"
proof -
  obtain pre post levels where S: "acts = pre @ post" "ups_of pre = []"
    "dependency_levels (ai_services inp) (ap_to_start p) = Inr levels" "ups_of post = concat levels"
    and R: "\<forall>ids. Remove ids \<in> set acts \<longleftrightarrow> ids = map c_id (ap_departing p) \<and> ids \<noteq> []"
    and P: "\<forall>ids. Remove ids \<in> set acts \<longrightarrow> Remove ids \<in> set pre"
    using apply_actions_shape[OF assms(1)] by blast
  let ?t = "take k acts"
  have new: "new = map (started_unit inp) (ups_of ?t)" using run_new[of inp ?t old0 "[]"] assms(2) by simp
  have old: "\<forall>c \<in> set old. (\<exists>d \<in> set old0. same_place c d) \<and> (\<forall>ids. Remove ids \<in> set ?t \<longrightarrow> c_id c \<notin> set ids)"
    using run_old[of _ inp ?t old0 "[]"] assms(2) by (metis fst_conv)
  have m: "mset (concat levels) = mset (fromkeys (ap_to_start p))" using start_order_levels[OF S(3)] .
  have "distinct (concat levels)" using m by (metis distinct_fromkeys mset_eq_imp_distinct_iff)
  moreover obtain more where more: "concat levels = ups_of ?t @ more"
    using ups_of_take[of acts k] S by auto
  moreover have "set (concat levels) = set (ap_to_start p)" using m by (metis set_fromkeys set_mset_mset)
  ultimately have names: "distinct (ups_of ?t)" "set (ups_of ?t) \<subseteq> set (ap_to_start p)" by auto
  have "\<forall>c \<in> set old. c_id c \<notin> c_id ` set (ap_departing p)" if ne: "ups_of ?t \<noteq> []"
  proof (cases "ap_departing p = []")
    case False
    have "\<not> k \<le> length pre"
    proof
      assume "k \<le> length pre"
      then have "ups_of ?t = ups_of (take k pre)" by (simp add: S(1))
      then show False using ne ups_of_take[of pre k] S(2) by auto
    qed
    then have "set pre \<subseteq> set ?t" by (simp add: S(1))
    then have "Remove (map c_id (ap_departing p)) \<in> set ?t" using R P False by auto
    then show ?thesis using old by fastforce
  qed simp
  then show ?thesis using new names old by blast
qed


text \<open>
  C18. What an apply leaves alone. At every point of an apply the containers infer-stack neither
  labelled nor adopted, those of degraded deployments and the warm ones the render wants are still
  there.
\<close>

theorem apply_spares:
  assumes "plan_apply net inp res w ns = Inr p" and "apply_actions repr inp networks p = Inr acts"
    and "distinct (map c_id (all_containers res))" and "c \<in> set (all_containers res)"
    and "unit_key (ai_adopted inp) c = None \<or> c_deployment c \<in> set (ai_degraded inp) \<or> wanted_unit inp c \<and> warm c"
    and "run_actions inp (take k acts) (all_containers res, []) = (old, new)"
  shows "c_id c \<in> c_id ` set old"
proof -
  have p: "p = choose_units inp (all_containers res)" by (rule plan_apply_Inr(1)[OF assms(1)])
  have "c_id c \<notin> c_id ` set (ap_departing p)"
  proof
    assume "c_id c \<in> c_id ` set (ap_departing p)"
    then obtain d where d: "d \<in> set (ap_departing p)" "c_id c = c_id d" by auto
    then have "d \<in> set (all_containers res)" by (auto simp: p choose_units_def Let_def)
    then have e: "c = d" using same_unit[OF assms(3,4)] d(2) by blast
    have "unit_key (ai_adopted inp) c \<noteq> None" "c_deployment c \<notin> set (ai_degraded inp)" "c \<notin> set (ap_keep p)"
      using d(1) unfolding e by (auto simp: p choose_units_def Let_def)
    then show False
      using assms(4,5) wanted_unit_key[of inp c] by (auto simp: p choose_units_def Let_def warm_def)
  qed
  then have "\<forall>ids. Remove ids \<in> set (take k acts) \<longrightarrow> c_id c \<notin> set ids"
    using apply_actions_shape[OF assms(2)] by (auto dest!: in_set_takeD)
  from run_keeps[OF assms(4) this, of inp "[]"] show ?thesis using assms(6) by simp
qed


section \<open>A small project\<close>

text \<open>
  The render wants \<open>m\<close> on GPU 0 and \<open>n\<close>, which depends on \<open>m\<close>, on GPU 1. On the host an old
  \<open>m\<close> runs on GPU 0, and an unmanaged container holds no GPU.
\<close>

definition demo_stanza :: "string \<Rightarrow> (string \<times> json) list \<Rightarrow> json" where
  "demo_stanza gpu extra = JObj ([(''image'', JStr ''img''), (''deploy'', JObj [(''resources'', JObj [(''reservations'',
     JObj [(''devices'', JList [JObj [(''device_ids'', JList [JStr gpu])]])])])])] @ extra)"

definition demo_apply :: apply_input where
  "demo_apply = \<lparr>ai_services = [(''n'', demo_stanza ''1'' [(''depends_on'', JList [JStr ''m''])]), (''m'', demo_stanza ''0'' [])],
     ai_fingerprints = [(''m'', ''f2''), (''n'', ''f'')], ai_adopted = [], ai_degraded = [], ai_optional = []\<rparr>"

definition demo_unit :: "string \<Rightarrow> string \<Rightarrow> string \<Rightarrow> int list \<Rightarrow> bool \<Rightarrow> container" where
  "demo_unit cid service fp gpus labelled =
     \<lparr>c_id = cid, c_deployment = [], c_state = ''running'', c_gpus = gpus, c_all_gpus = False,
      c_service = service, c_fingerprint = fp, c_labelled = labelled, c_ips = [], c_health = [],
      c_restart_count = 0, c_exit_code = None, c_restart_policy = [], c_restart_max = 0, c_reason = [],
      c_message = [], c_started = [], c_ports = []\<rparr>"

definition demo_host :: residency where
  "demo_host = (no_units False)\<lparr>r_others := [demo_unit ''c1'' ''m'' ''f1'' [0] True, demo_unit ''c2'' ''x'' ''f'' [] False]\<rparr>"

definition demo_decision :: apply_decision where
  "demo_decision = choose_units demo_apply (all_containers demo_host)"

definition demo_acts :: "action list" where
  "demo_acts = [Pull [''img''], Remove [''c1''], AwaitGone [''c1''], Up [''m''], Up [''n'']]"

lemma demo_apply_plan:
  "plan_apply ''net'' demo_apply demo_host None None = Inr demo_decision"
  "apply_actions dumps demo_apply False demo_decision = Inr demo_acts"
  "ap_to_start demo_decision = [''n'', ''m'']"
  "distinct (map c_id (all_containers demo_host))"
  by code_simp+

theorem start_order_witness:
  "\<exists>levels. dependency_levels (ai_services demo_apply) [''n'', ''m''] = Inr levels
     \<and> mset (concat levels) = mset (fromkeys [''n'', ''m''])"
proof -
  have l: "dependency_levels (ai_services demo_apply) [''n'', ''m''] = Inr [[''m''], [''n'']]" by code_simp
  show ?thesis using start_order[OF l] l by blast
qed


theorem apply_spares_witness:
  "''c2'' \<in> c_id ` set (fst (run_actions demo_apply (take 3 demo_acts) (all_containers demo_host, [])))"
proof -
  let ?c = "demo_unit ''c2'' ''x'' ''f'' [] False"
  have c: "?c \<in> set (all_containers demo_host)" "unit_key (ai_adopted demo_apply) ?c = None" "c_id ?c = ''c2''" by code_simp+
  from apply_spares[OF demo_apply_plan(1,2,4) c(1) disjI1[OF c(2)], of 3] c(3)
  show ?thesis by (metis prod.collapse)
qed


end
