(* ===== verification/Diagnosis.thy ===== *)
theory Diagnosis
  imports
  Residency
  EnvFile
begin

text \<open>
  Why an engine is not starting (\<open>leasing/diagnosis.py\<close>): from the crash bookkeeping of a deployment's
  units and their logs, whether waiting could still help. And the display side of the same units
  (\<open>leasing/instances.py\<close>): one row per unit, what a typed name refers to, and the commands that read a log.
\<close>

section \<open>What a log says\<close>

definition ENGINE_ERROR_HINTS :: "(string \<times> string) list" where
  "ENGINE_ERROR_HINTS = [
     (''trust_remote_code'', ''the model needs trust_remote_code=True (set `runtime.trust_remote_code: true` on the endpoint)''),
     (''does not recognize this architecture'', ''this engine cannot read the model'' @ [CHR 0x27] @ ''s architecture (it may need trust_remote_code=True)''),
     (''are not supported for now'', ''this vLLM build does not implement the model'' @ [CHR 0x27] @ ''s architecture''),
     (''is not supported'', ''this vLLM build does not implement the model'' @ [CHR 0x27] @ ''s architecture''),
     (''No supported config format'', ''the model repository has no config this engine can read''),
     (''ValidationError'', ''the engine rejected its own configuration''),
     (''error: unrecognized arguments'', ''the engine rejected a command-line flag (check `runtime.extra_args` against this vLLM version)''),
     (''401 Client Error'', ''the model is gated: set HF_TOKEN with `infer-stack env HF_TOKEN=...`''),
     (''403 Client Error'', ''the model is gated: set HF_TOKEN with `infer-stack env HF_TOKEN=...`'')]"

definition TRANSIENT_ENGINE_SIGNATURES :: "string list" where
  "TRANSIENT_ENGINE_SIGNATURES = [
     ''Max retries exceeded'',
     ''Connection reset by peer'',
     ''Connection refused'',
     ''Temporary failure in name resolution'',
     ''Failed to resolve'',
     ''Read timed out'',
     ''ReadTimeoutError'',
     ''ConnectionError'',
     ''IncompleteRead'',
     ''Consistency check failed'',
     ''429 Client Error'',
     ''500 Server Error'',
     ''502 Server Error'',
     ''503 Server Error'',
     ''504 Server Error'',
     ''Address already in use'']"

definition OOM_SIGNATURES :: "string list" where
  "OOM_SIGNATURES = [
     ''CUDA out of memory'',
     ''torch.OutOfMemoryError'',
     ''OutOfMemoryError'',
     ''cudaErrorMemoryAllocation'',
     ''is less than desired GPU memory utilization'',
     ''No available memory for the cache blocks'',
     ''Available KV cache memory is negative'']"

definition looks_like_cuda_oom :: "string \<Rightarrow> bool" where
  "looks_like_cuda_oom logs \<longleftrightarrow> list_ex (\<lambda>sig. is_substring sig logs) OOM_SIGNATURES"

datatype log_verdict = Fatal | Transient

definition classify_engine_log :: "string \<Rightarrow> log_verdict option" where
  "classify_engine_log logs =
     (if logs = [] then None
      else if list_ex (\<lambda>(needle, _). is_substring needle logs) ENGINE_ERROR_HINTS then Some Fatal
      else if looks_like_cuda_oom logs then Some Fatal
      else if list_ex (\<lambda>needle. is_substring needle logs) TRANSIENT_ENGINE_SIGNATURES then Some Transient
      else None)"

definition likely_cause :: "string \<Rightarrow> string option" where
  "likely_cause logs = (case List.find (\<lambda>(needle, _). is_substring needle logs) ENGINE_ERROR_HINTS of
     Some (_, note) \<Rightarrow> Some note
   | None \<Rightarrow> if looks_like_cuda_oom logs then Some ''the GPU ran out of memory for this configuration'' else None)"

definition last_three :: "'a list \<Rightarrow> 'a list" where
  "last_three xs = drop (length xs - 3) xs"

definition engine_error_summary :: "string \<Rightarrow> string" where
  "engine_error_summary logs =
     (if py_strip logs = [] then ''; no engine log available (`infer-stack logs` for more)''
      else let quoted = take 400 (join '' | '' (last_three (filter (\<lambda>l. l \<noteq> []) (map py_strip (splitlines logs)))));
               summary = ''; last log: '' @ quoted
           in case likely_cause logs of None \<Rightarrow> summary | Some hint \<Rightarrow> summary @ ''; likely cause: '' @ hint)"

section \<open>What a unit says\<close>

definition CRASH_LOOP_RESTARTS :: int where "CRASH_LOOP_RESTARTS = 2"

definition exited_for_good :: "container \<Rightarrow> bool" where
  "exited_for_good c \<longleftrightarrow> c_state c \<in> {''exited'', ''dead''} \<and> (case c_exit_code c of None \<Rightarrow> False | Some e \<Rightarrow> e \<noteq> 0)"

definition crashed :: "container \<Rightarrow> bool" where
  "crashed c \<longleftrightarrow> exited_for_good c \<or> 1 \<le> c_restart_count c"

definition exit_text :: "container \<Rightarrow> string" where
  "exit_text c = (case c_exit_code c of None \<Rightarrow> ''None'' | Some e \<Rightarrow> show_int e)"

definition unit_verdict :: "container \<Rightarrow> string \<Rightarrow> nat \<Rightarrow> string option" where
  "unit_verdict c logs replicas =
     (let verdict = classify_engine_log logs in
      if verdict = Some Transient \<and> will_be_restarted c then None
      else if verdict = Some Transient then
        Some (''engine is not starting (exited with code '' @ exit_text c @ '' and will not be restarted)'' @ engine_error_summary logs)
      else if verdict \<noteq> Some Fatal \<and> \<not> (exited_for_good c \<or> CRASH_LOOP_RESTARTS \<le> c_restart_count c) then None
      else Some (''engine is not starting (''
        @ (if c_restart_count c \<noteq> 0 then ''restarted '' @ show_int (c_restart_count c) @ '' time(s)''
           else ''exited with code '' @ exit_text c)
        @ (if 1 < replicas then '', all '' @ show_int (int replicas) @ '' replicas'' else [])
        @ '')'' @ engine_error_summary logs))"

definition diagnose_startup :: "container list \<Rightarrow> string \<Rightarrow> bool \<Rightarrow> (container \<Rightarrow> string) option \<Rightarrow> string option" where
  "diagnose_startup cs logs replicated unit_logs =
     (if cs = [] \<or> 1 < length cs \<and> \<not> replicated then None
      else if \<not> list_all crashed cs then None
      else case cs of
          [c] \<Rightarrow> unit_verdict c logs 1
        | _ \<Rightarrow> (case unit_logs of None \<Rightarrow> None
            | Some f \<Rightarrow> let verdicts = map (\<lambda>c. unit_verdict c (f c) (length cs)) cs
                in if list_all (\<lambda>v. v \<noteq> None \<and> v \<noteq> Some []) verdicts then hd verdicts else None))"

text \<open>Waiting cannot help a unit: its log is fatal, or transient with nobody to retry, or it keeps failing.\<close>

definition hopeless :: "container \<Rightarrow> string \<Rightarrow> bool" where
  "hopeless c logs \<longleftrightarrow> (case classify_engine_log logs of
     Some Fatal \<Rightarrow> True
   | Some Transient \<Rightarrow> \<not> will_be_restarted c
   | None \<Rightarrow> exited_for_good c \<or> CRASH_LOOP_RESTARTS \<le> c_restart_count c)"

lemma unit_verdict_hopeless: "unit_verdict c logs n \<noteq> None \<longleftrightarrow> hopeless c logs"
  by (cases "classify_engine_log logs" rule: option.exhaust)
    (auto simp: unit_verdict_def hopeless_def Let_def split: log_verdict.splits)

lemma unit_verdict_text: "unit_verdict c logs n \<noteq> Some []"
  by (simp add: unit_verdict_def Let_def)

text \<open>
  Giving up is exact: an engine is declared unable to start exactly when it has units, all of them
  crashed, and waiting cannot help any of them by its own log; with several units only for a replicated
  deployment whose units' logs can be told apart. In particular a crash whose log is transient is never
  final while something will restart the unit, and one replica that may recover keeps the whole waiting.
\<close>

theorem giving_up_is_exact:
  "diagnose_startup cs logs replicated unit_logs \<noteq> None \<longleftrightarrow>
     (case cs of
        [] \<Rightarrow> False
      | [c] \<Rightarrow> crashed c \<and> hopeless c logs
      | _ \<Rightarrow> replicated \<and> (case unit_logs of None \<Rightarrow> False
          | Some f \<Rightarrow> list_all (\<lambda>c. crashed c \<and> hopeless c (f c)) cs))"
proof (cases cs rule: remdups_adj.cases)
  case (3 c d cs')
  show ?thesis
  proof (cases unit_logs)
    case None
    then show ?thesis using 3 by (simp add: diagnose_startup_def)
  next
    case (Some f)
    have v: "(unit_verdict c l n \<noteq> None \<and> unit_verdict c l n \<noteq> Some []) = hopeless c l" for c l n
      using unit_verdict_hopeless unit_verdict_text by blast
    have "list_all (\<lambda>v. v \<noteq> None \<and> v \<noteq> Some []) (map (\<lambda>c. unit_verdict c (f c) n) cs) = list_all (\<lambda>c. hopeless c (f c)) cs" for n
      by (simp only: list.pred_map comp_def v)
    moreover have "hopeless c (f c) \<Longrightarrow> unit_verdict c (f c) n \<noteq> None" for n using unit_verdict_hopeless by blast
    ultimately show ?thesis using 3 Some by (auto simp: diagnose_startup_def Let_def list_all_iff)
  qed
qed (simp_all add: diagnose_startup_def unit_verdict_hopeless del: not_None_eq)

section \<open>Instances\<close>

definition DOCKER :: string where "DOCKER = ''docker''"
definition KUBERNETES :: string where "KUBERNETES = ''kubernetes''"

record unit_row =
  un_name :: string
  un_id :: string
  un_deployment :: string
  un_state :: string
  un_restarts :: int
  un_reason :: string
  un_health :: string
  un_gpus :: "int list"
  un_all_gpus :: bool
  un_started :: string
  un_ports :: string
  un_runtime :: string
  un_namespace :: string
  un_container :: string

definition is_engine :: "unit_row \<Rightarrow> bool" where
  "is_engine u \<longleftrightarrow> un_deployment u \<noteq> []"

definition unit_status :: "unit_row \<Rightarrow> string" where
  "unit_status u =
     (let bits = filter (\<lambda>b. b \<noteq> []) [un_reason u, if un_health u \<noteq> ''healthy'' then un_health u else []];
          bits = (if un_restarts u \<noteq> 0 then
                    bits @ [show_int (un_restarts u) @ '' restart'' @ (if un_restarts u \<noteq> 1 then ''s'' else [])] else bits)
      in if bits = [] then un_state u else un_state u @ '' ('' @ join '', '' bits @ '')'')"

definition unit_of :: "string \<Rightarrow> string \<Rightarrow> string \<Rightarrow> container \<Rightarrow> unit_row" where
  "unit_of runtime namespace engine c =
     \<lparr>un_name = (if runtime = DOCKER \<and> c_service c \<noteq> [] then c_service c else c_id c), un_id = c_id c,
      un_deployment = c_deployment c, un_state = c_state c, un_restarts = c_restart_count c, un_reason = c_reason c,
      un_health = c_health c, un_gpus = c_gpus c, un_all_gpus = c_all_gpus c, un_started = c_started c,
      un_ports = c_ports c, un_runtime = runtime, un_namespace = namespace, un_container = engine\<rparr>"

definition from_residency :: "residency \<Rightarrow> string \<Rightarrow> string \<Rightarrow> string \<Rightarrow> unit_row list" where
  "from_residency res runtime namespace engine =
     sort_key (\<lambda>u. (\<not> is_engine u, un_name u, un_id u)) (map (unit_of runtime namespace engine) (all_containers res))"

definition history_argv :: "unit_row \<Rightarrow> string option \<Rightarrow> bool \<Rightarrow> string list option" where
  "history_argv u tail timestamps =
     (let flags = (case tail of None \<Rightarrow> [] | Some n \<Rightarrow> [''--tail'', n]) @ (if timestamps then [''--timestamps''] else [])
      in if un_runtime u = DOCKER then Some ([''docker'', ''logs''] @ flags @ [un_id u])
         else if un_runtime u = KUBERNETES then
           Some ([''kubectl'', ''-n'', un_namespace u, ''logs''] @ flags @ [un_id u]
             @ (if un_container u \<noteq> [] then [''-c'', un_container u] else []))
         else None)"

definition follow_argv :: "unit_row \<Rightarrow> bool \<Rightarrow> string list option" where
  "follow_argv u timestamps =
     (if un_runtime u = DOCKER then Some [''docker'', ''attach'', ''--no-stdin'', ''--sig-proxy=false'', un_id u]
      else if un_runtime u = KUBERNETES then
        map_option (\<lambda>argv. argv @ [''--follow'']) (history_argv u (Some ''0'') timestamps)
      else None)"

section \<open>What a typed name refers to\<close>

definition refers :: "(string, string list) dict \<Rightarrow> string \<Rightarrow> unit_row \<Rightarrow> bool" where
  "refers served name u \<longleftrightarrow> name \<in> {un_name u, un_id u, un_deployment u}
     \<or> 4 \<le> length name \<and> is_prefix name (un_id u)
     \<or> un_deployment u \<noteq> [] \<and> (case dget served (un_deployment u) of None \<Rightarrow> False | Some as \<Rightarrow> name \<in> set as)"

text \<open>\<open>UnknownTarget\<close>: the name that matches nothing, and the names there are.\<close>

definition pick_name :: "unit_row list \<Rightarrow> (string, string list) dict \<Rightarrow> string \<Rightarrow> unit_row list
    \<Rightarrow> (string \<times> string list) + unit_row list" where
  "pick_name rows served name picked =
     (let found = filter (refers served name) rows
      in if found = [] then Inl (name, sort (remdups (map un_name rows)))
         else Inr (picked @ filter (\<lambda>u. u \<notin> set picked) found))"

definition resolve_names :: "unit_row list \<Rightarrow> string list \<Rightarrow> (string, string list) dict
    \<Rightarrow> (string \<times> string list) + unit_row list" where
  "resolve_names rows names served = fold_err (pick_name rows served) names []"

lemma pick_names:
  assumes "fold_err (pick_name rows served) names acc = Inr picked" and "distinct rows" and "distinct acc"
  shows "distinct picked \<and> set picked = set acc \<union> {u \<in> set rows. list_ex (\<lambda>n. refers served n u) names}
     \<and> list_all (\<lambda>n. list_ex (refers served n) rows) names"
  using assms
proof (induction names arbitrary: acc)
  case (Cons n names)
  obtain acc' where p: "pick_name rows served n acc = Inr acc'" and r': "fold_err (pick_name rows served) names acc' = Inr picked"
    using Cons.prems(1) by (auto simp: bind_err_Inr)
  from p have f: "filter (refers served n) rows \<noteq> []"
    and a: "acc' = acc @ filter (\<lambda>u. u \<notin> set acc) (filter (refers served n) rows)"
    by (auto simp: pick_name_def Let_def split: if_splits)
  note r = r'[unfolded a]
  have "distinct (acc @ filter (\<lambda>u. u \<notin> set acc) (filter (refers served n) rows))" using Cons.prems(2,3) by auto
  note IH = Cons.IH[OF r Cons.prems(2) this]
  moreover have "list_ex (refers served n) rows" using f by (auto simp: filter_empty_conv list_ex_iff)
  ultimately show ?case by auto
qed simp

lemma pick_names_unknown:
  assumes "fold_err (pick_name rows served) names acc = Inl (name, known)"
  shows "name \<in> set names \<and> \<not> list_ex (refers served name) rows"
  using assms
proof (induction names arbitrary: acc)
  case (Cons n names)
  show ?case
  proof (cases "pick_name rows served n acc")
    case (Inl e)
    then show ?thesis using Cons.prems
      by (auto simp: bind_err_def pick_name_def Let_def filter_empty_conv list_ex_iff split: if_splits)
  next
    case (Inr acc')
    then show ?thesis using Cons by (simp add: bind_err_def)
  qed
qed simp

text \<open>Names resolve to exactly the units they refer to, each once, or the first that refers to none is reported.\<close>

lemma resolve_names_exact:
  assumes "distinct rows"
  shows "case resolve_names rows names served of
     Inr picked \<Rightarrow> distinct picked \<and> set picked = {u \<in> set rows. list_ex (\<lambda>n. refers served n u) names}
   | Inl (name, known) \<Rightarrow> name \<in> set names \<and> \<not> list_ex (refers served name) rows"
proof (cases "resolve_names rows names served")
  case (Inl e)
  then show ?thesis using pick_names_unknown[of rows served names "[]"] by (cases e) (auto simp: resolve_names_def)
next
  case (Inr picked)
  then show ?thesis using pick_names[of rows served names "[]" picked] assms by (simp add: resolve_names_def)
qed

end
