(* ===== verification/ManagedEnv.thy ===== *)
theory ManagedEnv
  imports
  EnvFile
begin

text \<open>
  The managed \<open>.env\<close> file (\<open>env_utils.py\<close>) and the gateway's secrets in it (\<open>leasing/gateway.py\<close>): reading,
  non-destructive writing and removal of keys, the master key and its rotation, and the secrets a preview
  stages. A file is its text, \<open>None\<close> while it does not exist; the directory, the temporary file of the
  atomic replacement and the log line are not modelled, a fresh random token is an argument.
\<close>

section \<open>Reading and writing\<close>

definition env_pair :: "string \<Rightarrow> (string \<times> string) option" where
  "env_pair line = (let s = py_strip line
     in if s = [] \<or> hd s = CHR ''#'' \<or> CHR ''='' \<notin> set s then None
        else Some (py_strip (takeWhile (\<lambda>c. c \<noteq> CHR ''='') s), tl (dropWhile (\<lambda>c. c \<noteq> CHR ''='') s)))"

definition parse_env_file :: "string option \<Rightarrow> (string, string) dict" where
  "parse_env_file f = (case f of None \<Rightarrow> []
     | Some text \<Rightarrow> fold (\<lambda>(k, v). dput k v) (List.map_filter env_pair (splitlines text)) [])"

definition ensure_secret :: "(string, string) dict \<Rightarrow> string \<Rightarrow> string \<Rightarrow> string \<Rightarrow> string" where
  "ensure_secret env key pre token =
     (let value = py_strip (case dget env key of None \<Rightarrow> [] | Some v \<Rightarrow> v)
      in if value \<noteq> [] \<and> (pre = [] \<or> is_prefix pre value) then value else pre @ token)"

text \<open>A record is its key, if the line is a setting, and the line.\<close>

definition env_record :: "string \<Rightarrow> string option \<times> string" where
  "env_record line = (case env_pair line of None \<Rightarrow> (None, line)
     | Some (k, _) \<Rightarrow> if k = [] \<or> list_ex py_space k then (None, line) else (Some k, line))"

definition parse_env_lines :: "string \<Rightarrow> (string option \<times> string) list" where
  "parse_env_lines text = map env_record (splitlines text)"

definition env_text :: "string list \<Rightarrow> string" where
  "env_text lines = (let text = join [CHR 0x0A] lines
     in if text \<noteq> [] \<and> last text \<noteq> CHR 0x0A then text @ [CHR 0x0A] else text)"

definition setting :: "string \<Rightarrow> string \<Rightarrow> string" where
  "setting k v = k @ ''='' @ v"

definition write_env_file :: "(string, string) dict \<Rightarrow> string option \<Rightarrow> string option" where
  "write_env_file values f =
     (let records = parse_env_lines (case f of None \<Rightarrow> [] | Some text \<Rightarrow> text);
          kept = map (\<lambda>(k, raw). case Option.bind k (\<lambda>k. map_option (setting k) (dget values k)) of
                    Some line \<Rightarrow> line | None \<Rightarrow> raw) records;
          added = map (\<lambda>(k, v). setting k v) (filter (\<lambda>(k, v). Some k \<notin> set (map fst records)) values)
      in Some (env_text (kept @ added)))"

definition remove_env_keys :: "string list \<Rightarrow> string option \<Rightarrow> string option" where
  "remove_env_keys keys f = (case f of None \<Rightarrow> None
     | Some text \<Rightarrow> if keys = [] then Some text
         else Some (env_text (map snd (filter (\<lambda>(k, raw). case k of None \<Rightarrow> True | Some k \<Rightarrow> k \<notin> set keys)
           (parse_env_lines text)))))"

section \<open>The master key\<close>

definition API_KEY_ENV :: string where "API_KEY_ENV = ''LITELLM_MASTER_KEY''"
definition SALT_KEY_ENV :: string where "SALT_KEY_ENV = ''LITELLM_SALT_KEY''"

definition stripped_value :: "(string, string) dict \<Rightarrow> string \<Rightarrow> string" where
  "stripped_value env k = py_strip (case dget env k of None \<Rightarrow> [] | Some v \<Rightarrow> v)"

definition set_master_key :: "string \<Rightarrow> string option \<Rightarrow> py_error + string option" where
  "set_master_key key f =
     (if \<not> is_prefix ''sk-'' key then Inl ValueError
      else let existing = parse_env_file f; old = stripped_value existing API_KEY_ENV
        in Inr (write_env_file ([(API_KEY_ENV, key)]
             @ (if old \<noteq> [] \<and> old \<noteq> key \<and> stripped_value existing SALT_KEY_ENV = [] then [(SALT_KEY_ENV, old)] else [])) f))"

text \<open>The rotation returns the values it replaced.\<close>

definition rotate_master_key :: "string \<Rightarrow> string option \<Rightarrow> py_error + ((string, string option) dict \<times> string option)" where
  "rotate_master_key token f =
     (let before = parse_env_file f
      in bind_err (set_master_key (ensure_secret [] API_KEY_ENV ''sk-'' token) f) (\<lambda>f.
           Inr (map (\<lambda>k. (k, dget before k)) [API_KEY_ENV, SALT_KEY_ENV], f)))"

definition restore_env :: "(string, string option) dict \<Rightarrow> string option \<Rightarrow> string option" where
  "restore_env values f =
     remove_env_keys (List.map_filter (\<lambda>(k, v). if v = None then Some k else None) values)
       (write_env_file (List.map_filter (\<lambda>(k, v). map_option (\<lambda>v. (k, v)) v) values) f)"

section \<open>Secrets made on first use\<close>

record secret_state =
  ss_file :: "string option"
  ss_staged :: "(string, string) dict"
  ss_depth :: nat

definition managed_env :: "secret_state \<Rightarrow> (string, string) dict" where
  "managed_env s = fold (\<lambda>(k, v). dput k v) (parse_env_file (ss_file s)) (ss_staged s)"

definition managed_secret :: "string \<Rightarrow> string \<Rightarrow> string \<Rightarrow> secret_state \<Rightarrow> string \<times> secret_state" where
  "managed_secret name pre token s =
     (case dget (parse_env_file (ss_file s)) name of
        Some (c # v) \<Rightarrow> (c # v, s)
      | _ \<Rightarrow>
          let value = (case dget (ss_staged s) name of Some (c # v) \<Rightarrow> c # v | _ \<Rightarrow> ensure_secret [] name pre token)
          in (value, if ss_depth s \<noteq> 0 then s\<lparr>ss_staged := dput name value (ss_staged s)\<rparr>
              else s\<lparr>ss_file := write_env_file [(name, value)] (ss_file s),
                     ss_staged := filter (\<lambda>(k, v). k \<noteq> name) (ss_staged s)\<rparr>))"

section \<open>Lines and text\<close>

definition good_key :: "string \<Rightarrow> bool" where
  "good_key k \<longleftrightarrow> k \<noteq> [] \<and> hd k \<noteq> CHR ''#'' \<and> list_all (\<lambda>c. \<not> py_space c \<and> c \<noteq> CHR ''='') k"

definition good_value :: "string \<Rightarrow> bool" where
  "good_value v \<longleftrightarrow> list_all (\<lambda>c. \<not> is_break c) v \<and> (v \<noteq> [] \<longrightarrow> \<not> py_space (last v))"

lemma break_space: "is_break c \<Longrightarrow> py_space c"
  by (auto simp: is_break_def py_space_def)

lemma env_pair_setting: "good_key k \<Longrightarrow> good_value v \<Longrightarrow> env_pair (setting k v) = Some (k, v)"
proof -
  assume k: "good_key k" and v: "good_value v"
  have e: "\<not> py_space (CHR ''='')" by (simp add: py_space_def)
  have "py_strip (setting k v) = setting k v"
    using k v e by (intro py_strip_same) (auto simp: setting_def good_key_def good_value_def list_all_iff)
  moreover have "takeWhile (\<lambda>c. c \<noteq> CHR ''='') (setting k v) = k" "dropWhile (\<lambda>c. c \<noteq> CHR ''='') (setting k v) = CHR ''='' # v"
    using k by (auto simp: setting_def good_key_def list_all_iff takeWhile_append dropWhile_append)
  moreover have "py_strip k = k" using k by (intro py_strip_same) (auto simp: good_key_def list_all_iff)
  ultimately show ?thesis using k by (auto simp: env_pair_def Let_def setting_def good_key_def)
qed

lemma env_record_setting: "good_key k \<Longrightarrow> good_value v \<Longrightarrow> env_record (setting k v) = (Some k, setting k v)"
  by (auto simp: env_record_def env_pair_setting good_key_def list_ex_iff list_all_iff)

lemma py_strip_suffix: "\<exists>p q. s = p @ py_strip s @ q"
proof -
  have "s = takeWhile py_space s @ dropWhile py_space s" by simp
  moreover have "dropWhile py_space s = rev (dropWhile py_space (rev (dropWhile py_space s)))
      @ rev (takeWhile py_space (rev (dropWhile py_space s)))"
    by (metis rev_append rev_rev_ident takeWhile_dropWhile_id)
  ultimately show ?thesis unfolding py_strip_def by metis
qed

lemma py_strip_last: "py_strip s \<noteq> [] \<Longrightarrow> \<not> py_space (last (py_strip s))"
  by (simp add: py_strip_def last_rev hd_dropWhile)

lemma env_pair_good_value:
  assumes "env_pair l = Some (k, v)" and "list_all (\<lambda>c. \<not> is_break c) l"
  shows "good_value v"
proof -
  let ?s = "py_strip l"
  have s: "?s \<noteq> []" "CHR ''='' \<in> set ?s" and v: "v = tl (dropWhile (\<lambda>c. c \<noteq> CHR ''='') ?s)"
    using assms(1) by (auto simp: env_pair_def Let_def split: if_splits)
  have "dropWhile (\<lambda>c. c \<noteq> CHR ''='') ?s \<noteq> []" using s(2) by (auto simp: dropWhile_eq_Nil_conv)
  then have "dropWhile (\<lambda>c. c \<noteq> CHR ''='') ?s = CHR ''='' # v"
    using hd_dropWhile[of "\<lambda>c. c \<noteq> CHR ''=''" ?s] v by (metis list.collapse)
  then obtain p where p: "?s = p @ CHR ''='' # v" by (metis takeWhile_dropWhile_id)
  obtain q r where "l = q @ ?s @ r" using py_strip_suffix by blast
  then have "l = q @ (p @ CHR ''='' # v) @ r" using p by simp
  then have "set v \<subseteq> set l" by auto
  moreover have "\<not> py_space (last v)" if "v \<noteq> []" using that p py_strip_last[OF s(1)] by simp
  ultimately show ?thesis using assms(2) by (auto simp: good_value_def list_all_iff)
qed

definition ended :: "string list \<Rightarrow> string" where
  "ended lines = concat (map (\<lambda>l. l @ [CHR 0x0A]) lines)"

abbreviation break_free :: "string \<Rightarrow> bool" where
  "break_free l \<equiv> list_all (\<lambda>c. \<not> is_break c) l"

lemma splitlines_ended: "list_all break_free lines \<Longrightarrow> splitlines (ended lines) = lines"
proof (induction lines)
  case Nil
  then show ?case by (simp add: ended_def splitlines_unfold)
next
  case (Cons l ls)
  have b: "is_break (CHR 0x0A)" by (simp add: is_break_def)
  have "takeWhile (\<lambda>c. \<not> is_break c) (l @ CHR 0x0A # ended ls) = l"
    "dropWhile (\<lambda>c. \<not> is_break c) (l @ CHR 0x0A # ended ls) = CHR 0x0A # ended ls"
    using Cons.prems b by (auto simp: takeWhile_append dropWhile_append list_all_iff)
  moreover have "after_break (CHR 0x0A # ended ls) = ended ls" by (cases "ended ls") (simp_all add: after_break_def)
  moreover have "ended (l # ls) = l @ CHR 0x0A # ended ls" by (simp add: ended_def)
  ultimately show ?case using Cons by (subst splitlines_unfold) simp
qed

lemma join_ended: "lines \<noteq> [] \<Longrightarrow> join [CHR 0x0A] lines @ [CHR 0x0A] = ended lines"
proof (induction lines)
  case (Cons l ls)
  then show ?case by (cases ls) (simp_all add: ended_def)
qed simp

lemma env_text_lines:
  assumes "list_all break_free lines"
  shows "splitlines (env_text lines) = lines \<or> (lines \<noteq> [] \<and> last lines = [] \<and> splitlines (env_text lines) = butlast lines)"
proof (cases "lines = []")
  case True
  then show ?thesis by (simp add: env_text_def splitlines_unfold)
next
  case False
  let ?t = "join [CHR 0x0A] lines"
  note j = join_ended[OF False]
  have split: "lines = butlast lines @ [last lines]" using False by simp
  have "ended lines = ended (butlast lines) @ last lines @ [CHR 0x0A]"
    by (subst split) (simp add: ended_def)
  then have t: "?t = ended (butlast lines) @ last lines" using j by (metis append_assoc append_same_eq)
  show ?thesis
  proof (cases "?t \<noteq> [] \<and> last ?t \<noteq> CHR 0x0A")
    case True
    then show ?thesis using j splitlines_ended[OF assms] by (simp add: env_text_def Let_def)
  next
    case c: False
    have "last lines = []"
    proof (rule ccontr)
      assume l: "last lines \<noteq> []"
      then have "last ?t = last (last lines)" "?t \<noteq> []" using t by simp_all
      moreover have "last lines \<in> set lines" using False by simp
      then have "break_free (last lines)" using assms by (simp add: list_all_iff)
      then have "\<not> is_break (last (last lines))" using l by (simp add: list_all_iff)
      ultimately show False using c by (auto simp: is_break_def)
    qed
    moreover have "env_text lines = ?t" using c by (simp add: env_text_def Let_def)
    moreover have "list_all break_free (butlast lines)" using assms by (meson in_set_butlastD list_all_iff)
    ultimately show ?thesis using t splitlines_ended[of "butlast lines"] False by simp
  qed
qed

lemma env_pair_Nil: "env_pair [] = None"
  by (simp add: env_pair_def py_strip_def)

lemma map_filter_append: "List.map_filter f (xs @ ys) = List.map_filter f xs @ List.map_filter f ys"
  by (simp add: List.map_filter_def)

lemma pairs_env_text:
  assumes "list_all break_free lines"
  shows "List.map_filter env_pair (splitlines (env_text lines)) = List.map_filter env_pair lines"
  using env_text_lines[OF assms]
proof (elim disjE conjE)
  assume "lines \<noteq> []" "last lines = []" and s: "splitlines (env_text lines) = butlast lines"
  then have "lines = butlast lines @ [[]]" by (metis append_butlast_last_id)
  then have "List.map_filter env_pair lines = List.map_filter env_pair (butlast lines) @ List.map_filter env_pair [[]]"
    by (metis map_filter_append)
  then show ?thesis using s by (simp add: env_pair_Nil List.map_filter_def)
qed simp

lemma splitlines_break_free: "list_all break_free (splitlines s)"
proof (induction s rule: splitlines.induct)
  case (1 s)
  have "break_free (takeWhile (\<lambda>c. \<not> is_break c) s)" by (auto simp: list_all_iff dest: set_takeWhileD)
  then show ?case using 1 by (subst splitlines_unfold) auto
qed

section \<open>What a file sets\<close>

lemma fold_dput_get:
  "dget (fold (\<lambda>(k, v). dput k v) ps d) k = (case map_of (rev ps) k of Some v \<Rightarrow> Some v | None \<Rightarrow> dget d k)"
  by (induction ps arbitrary: d) (auto simp: map_add_def split: option.splits)

lemma parse_get:
  "dget (parse_env_file f) k = (case f of None \<Rightarrow> None | Some t \<Rightarrow> map_of (rev (List.map_filter env_pair (splitlines t))) k)"
  by (auto simp: parse_env_file_def fold_dput_get split: option.splits)

lemma map_of_key: "map_of ps k = map_of (filter (\<lambda>p. fst p = k) ps) k"
  by (induction ps) auto

lemma map_of_rev_same:
  "(\<And>p. p \<in> set ps \<Longrightarrow> fst p = k \<Longrightarrow> snd p = v) \<Longrightarrow> (k, v) \<in> set ps \<Longrightarrow> map_of (rev ps) k = Some v"
proof -
  assume a: "\<And>p. p \<in> set ps \<Longrightarrow> fst p = k \<Longrightarrow> snd p = v" and m: "(k, v) \<in> set ps"
  from m have "k \<in> fst ` set (rev ps)" by force
  then obtain w where w: "map_of (rev ps) k = Some w" by (cases "map_of (rev ps) k") (auto simp: map_of_eq_None_iff)
  then have "(k, w) \<in> set ps" using map_of_SomeD by fastforce
  then show ?thesis using w a[of "(k, w)"] by simp
qed

lemma parsed_value_good: "dget (parse_env_file f) k = Some v \<Longrightarrow> good_value v"
proof -
  assume "dget (parse_env_file f) k = Some v"
  then obtain t where "(k, v) \<in> set (rev (List.map_filter env_pair (splitlines t)))"
    by (auto simp: parse_get split: option.splits dest: map_of_SomeD)
  then obtain l where "l \<in> set (splitlines t)" "env_pair l = Some (k, v)" by (auto simp: List.map_filter_def)
  then show ?thesis using env_pair_good_value splitlines_break_free[of t] by (auto simp: list_all_iff)
qed

definition written :: "(string, string) dict \<Rightarrow> string \<Rightarrow> string" where
  "written values l = (case Option.bind (fst (env_record l)) (\<lambda>k. map_option (setting k) (dget values k)) of
     Some line \<Rightarrow> line | None \<Rightarrow> l)"

definition good_env :: "(string, string) dict \<Rightarrow> bool" where
  "good_env values \<longleftrightarrow> distinct (dkeys values) \<and> list_all (\<lambda>(k, v). good_key k \<and> good_value v) values"

lemma good_envD: "good_env values \<Longrightarrow> dget values k = Some v \<Longrightarrow> good_key k \<and> good_value v"
  by (auto simp: good_env_def list_all_iff dest!: dget_SomeD)

lemma setting_break_free: "good_key k \<Longrightarrow> good_value v \<Longrightarrow> break_free (setting k v)"
proof -
  assume k: "good_key k" and v: "good_value v"
  have "\<not> is_break (CHR ''='')" by (simp add: is_break_def)
  then show ?thesis using k v break_space by (auto simp: setting_def good_key_def good_value_def list_all_iff)
qed

lemma written_lines:
  assumes "good_env values"
  shows "parse_env_file (write_env_file values f) = fold (\<lambda>(k, v). dput k v)
    (List.map_filter env_pair (map (written values) (case f of None \<Rightarrow> [] | Some t \<Rightarrow> splitlines t))
     @ filter (\<lambda>(k, v). Some k \<notin> set (map (fst \<circ> env_record) (case f of None \<Rightarrow> [] | Some t \<Rightarrow> splitlines t))) values) []"
proof -
  let ?ls = "case f of None \<Rightarrow> [] | Some t \<Rightarrow> splitlines t"
  let ?new = "filter (\<lambda>(k, v). Some k \<notin> set (map (fst \<circ> env_record) ?ls)) values"
  have ls: "splitlines (case f of None \<Rightarrow> [] | Some text \<Rightarrow> text) = ?ls"
    by (cases f) (simp_all add: splitlines_unfold)
  have snd: "snd (env_record l) = l" for l by (auto simp: env_record_def split: option.splits)
  have w: "write_env_file values f = Some (env_text (map (written values) ?ls @ map (\<lambda>(k, v). setting k v) ?new))"
    unfolding write_env_file_def parse_env_lines_def Let_def ls
    by (simp add: written_def[abs_def] snd split_beta comp_def)
  have g: "good_key k \<and> good_value v" if "(k, v) \<in> set values" for k v
    using assms that by (auto simp: good_env_def list_all_iff)
  have "break_free (written values l)" if "l \<in> set ?ls" for l
  proof -
    have "break_free l" using that splitlines_break_free by (auto simp: list_all_iff split: option.splits)
    then show ?thesis using good_envD[OF assms] setting_break_free
      by (auto simp: written_def split: option.splits bind_splits)
  qed
  moreover have "break_free (setting k v)" if "(k, v) \<in> set values" for k v using g[OF that] setting_break_free by blast
  ultimately have "list_all break_free (map (written values) ?ls @ map (\<lambda>(k, v). setting k v) ?new)"
    by (auto simp: list_all_iff)
  note p = pairs_env_text[OF this]
  have "List.map_filter env_pair (map (\<lambda>(k, v). setting k v) ps) = ps" if "set ps \<subseteq> set values" for ps
    using that by (induction ps) (auto simp: List.map_filter_def env_pair_setting g)
  then have "List.map_filter env_pair (map (\<lambda>(k, v). setting k v) ?new) = ?new" by (metis filter_is_subset)
  then show ?thesis unfolding w parse_env_file_def option.case p map_filter_append by simp
qed

lemma written_pair:
  assumes "good_env values" and "env_pair (written values l) = Some (k, w)"
  shows "(case dget values k of Some v \<Rightarrow> w = v | None \<Rightarrow> env_pair l = Some (k, w))"
proof (cases "Option.bind (fst (env_record l)) (\<lambda>k. map_option (setting k) (dget values k))")
  case (Some line)
  then obtain j v where "fst (env_record l) = Some j" "dget values j = Some v" "written values l = setting j v"
    by (auto simp: written_def split: bind_splits)
  then show ?thesis using assms good_envD[OF assms(1)] by (auto simp: env_pair_setting)
next
  case None
  then have l: "env_pair l = Some (k, w)" using assms(2) by (simp add: written_def)
  have "dget values k = None"
  proof (rule ccontr)
    assume "dget values k \<noteq> None"
    then obtain v where v: "dget values k = Some v" by blast
    then have "fst (env_record l) = Some k" using l good_envD[OF assms(1) v]
      by (auto simp: env_record_def good_key_def list_ex_iff list_all_iff)
    then show False using None v by simp
  qed
  then show ?thesis using l by simp
qed

lemma written_other:
  assumes "good_env values" and "dget values k = None"
  shows "filter (\<lambda>p. fst p = k) (List.map_filter env_pair (map (written values) ls))
    = filter (\<lambda>p. fst p = k) (List.map_filter env_pair ls)"
proof (induction ls)
  case (Cons l ls)
  have "filter (\<lambda>p. fst p = k) (List.map_filter env_pair [written values l]) = filter (\<lambda>p. fst p = k) (List.map_filter env_pair [l])"
  proof (cases "Option.bind (fst (env_record l)) (\<lambda>k. map_option (setting k) (dget values k))")
    case (Some line)
    then obtain j v where j: "fst (env_record l) = Some j" "dget values j = Some v" "written values l = setting j v"
      by (auto simp: written_def split: bind_splits)
    then obtain w where "env_pair l = Some (j, w)" by (auto simp: env_record_def split: option.splits if_splits)
    moreover have "env_pair (written values l) = Some (j, v)" using j good_envD[OF assms(1)] by (simp add: env_pair_setting)
    moreover have "j \<noteq> k" using j assms(2) by auto
    ultimately show ?thesis by (simp add: List.map_filter_def)
  next
    case None
    then show ?thesis by (simp add: written_def)
  qed
  then show ?case using Cons map_filter_append[of env_pair "[written values l]" "map (written values) ls"]
      map_filter_append[of env_pair "[l]" ls] by simp
qed simp

lemma write_env_get:
  assumes "good_env values"
  shows "dget (parse_env_file (write_env_file values f)) k
    = (case dget values k of Some v \<Rightarrow> Some v | None \<Rightarrow> dget (parse_env_file f) k)"
proof -
  let ?ls = "case f of None \<Rightarrow> [] | Some t \<Rightarrow> splitlines t"
  let ?new = "filter (\<lambda>(k, v). Some k \<notin> set (map (fst \<circ> env_record) ?ls)) values"
  let ?ps = "List.map_filter env_pair (map (written values) ?ls) @ ?new"
  have parsed: "dget (fold (\<lambda>(k, v). dput k v) ps []) k = map_of (rev ps) k" for ps :: "(string, string) dict"
    by (simp add: fold_dput_get split: option.split)
  have g: "dget (parse_env_file (write_env_file values f)) k = map_of (rev ?ps) k"
    unfolding written_lines[OF assms] by (rule parsed)
  have d: "distinct (dkeys values)" using assms by (simp add: good_env_def)
  show ?thesis
  proof (cases "dget values k")
    case None
    have "filter (\<lambda>p. fst p = k) ?new = []" using None by (auto simp: filter_empty_conv dget_None_iff dkeys_def)
    then have "filter (\<lambda>p. fst p = k) ?ps = filter (\<lambda>p. fst p = k) (List.map_filter env_pair ?ls)"
      using written_other[OF assms None] by simp
    then have "map_of (rev ?ps) k = map_of (rev (List.map_filter env_pair ?ls)) k"
      by (metis map_of_key rev_filter)
    moreover have "map_of (rev (List.map_filter env_pair ?ls)) k = dget (parse_env_file f) k"
      by (cases f) (simp_all add: parse_get List.map_filter_def)
    ultimately show ?thesis using g None by simp
  next
    case (Some v)
    have "map_of (rev ?ps) k = Some v"
    proof (rule map_of_rev_same)
      fix p assume p: "p \<in> set ?ps" "fst p = k"
      show "snd p = v"
      proof (cases "p \<in> set ?new")
        case True
        then have "(fst p, snd p) \<in> set values" by simp
        from dget_distinct[OF d this] show ?thesis using p(2) Some by simp
      next
        case False
        then obtain l where "env_pair (written values l) = Some p" using p(1) by (auto simp: List.map_filter_def)
        then have "env_pair (written values l) = Some (k, snd p)" using p(2) by (cases p) simp
        from written_pair[OF assms this] show ?thesis using Some by simp
      qed
    next
      have kv: "(k, v) \<in> set values" using Some by (rule dget_SomeD)
      show "(k, v) \<in> set ?ps"
      proof (cases "Some k \<in> set (map (fst \<circ> env_record) ?ls)")
        case True
        then obtain l where l: "l \<in> set ?ls" "fst (env_record l) = Some k" by (auto simp del: list.set_map)
        then have "env_pair (written values l) = Some (k, v)"
          using Some good_envD[OF assms Some] by (simp add: written_def env_pair_setting)
        then show ?thesis using l(1) by (force simp: List.map_filter_def)
      qed (use kv in auto)
    qed
    then show ?thesis using g Some by simp
  qed
qed

text \<open>
  C39. Writing the managed environment is exact: after \<open>write_env_file\<close> the file sets every given variable
  to the given value and every other variable to what it was, whatever comments, blank, malformed or
  duplicate lines it holds. Names have no space, \<open>=\<close> or leading \<open>#\<close>, values no line break or trailing
  space.
\<close>

theorem env_write_roundtrip:
  assumes "good_env values"
  shows "dget (parse_env_file (write_env_file values f)) k
    = (case dget values k of Some v \<Rightarrow> Some v | None \<Rightarrow> dget (parse_env_file f) k)"
  by (rule write_env_get[OF assms])

lemma remove_env_get:
  assumes "list_all good_key keys"
  shows "dget (parse_env_file (remove_env_keys keys f)) k = (if k \<in> set keys then None else dget (parse_env_file f) k)"
proof (cases "f = None \<or> keys = []")
  case True
  then show ?thesis by (auto simp: remove_env_keys_def parse_env_file_def split: option.splits)
next
  case False
  then obtain t where t: "f = Some t" "keys \<noteq> []" by (cases f) auto
  let ?keep = "\<lambda>l. case fst (env_record l) of None \<Rightarrow> True | Some k \<Rightarrow> k \<notin> set keys"
  let ?ls = "filter ?keep (splitlines t)"
  have snd: "snd (env_record l) = l" for l by (auto simp: env_record_def split: option.splits)
  have "map snd (filter (\<lambda>(k, raw). case k of None \<Rightarrow> True | Some k \<Rightarrow> k \<notin> set keys) (map env_record ls)) = filter ?keep ls" for ls
    by (induction ls) (auto simp: snd split_beta)
  then have r: "remove_env_keys keys f = Some (env_text ?ls)" using t by (simp add: remove_env_keys_def parse_env_lines_def)
  have "list_all break_free ?ls" using splitlines_break_free[of t] by (auto simp: list_all_iff)
  note p = pairs_env_text[OF this]
  have get: "dget (parse_env_file (remove_env_keys keys f)) k = map_of (rev (List.map_filter env_pair ?ls)) k"
    using p by (simp add: r parse_get)
  have key: "fst (env_record l) = Some k" if "env_pair l = Some (k, w)" "good_key k" for l k w
    using that by (auto simp: env_record_def good_key_def list_ex_iff list_all_iff)
  show ?thesis
  proof (cases "k \<in> set keys")
    case True
    then have "good_key k" using assms by (simp add: list_all_iff)
    then have "(k, w) \<notin> set (List.map_filter env_pair ?ls)" for w
      using True key by (fastforce simp: List.map_filter_def)
    then have "map_of (rev (List.map_filter env_pair ?ls)) k = None" by (force simp: map_of_eq_None_iff)
    then show ?thesis using get True by simp
  next
    case F: False
    have "filter (\<lambda>p. fst p = k) (List.map_filter env_pair (filter ?keep ls)) = filter (\<lambda>p. fst p = k) (List.map_filter env_pair ls)" for ls
    proof (induction ls)
      case (Cons l ls)
      have "env_pair l = None \<or> fst (the (env_pair l)) \<noteq> k" if "\<not> ?keep l"
        using that F by (auto simp: env_record_def split: option.splits if_splits)
      then show ?case using Cons by (auto simp: List.map_filter_def)
    qed simp
    then have "map_of (rev (List.map_filter env_pair ?ls)) k = map_of (rev (List.map_filter env_pair (splitlines t))) k"
      by (metis map_of_key rev_filter)
    then show ?thesis using get F t(1) by (simp add: parse_get)
  qed
qed

section \<open>Rotating the master key\<close>

lemma key_names [simp]: "good_key API_KEY_ENV" "good_key SALT_KEY_ENV" "API_KEY_ENV \<noteq> SALT_KEY_ENV" "SALT_KEY_ENV \<noteq> API_KEY_ENV"
  by (simp_all add: API_KEY_ENV_def SALT_KEY_ENV_def good_key_def py_space_def)

lemma py_strip_good: "good_value v \<Longrightarrow> good_value (py_strip v)"
proof -
  assume v: "good_value v"
  obtain p q where "v = p @ py_strip v @ q" using py_strip_suffix by blast
  then have "set (py_strip v) \<subseteq> set v" by (metis Un_iff set_append subsetI)
  then show ?thesis using v py_strip_last by (auto simp: good_value_def list_all_iff)
qed

lemma stripped_good: "good_value (stripped_value (parse_env_file f) k)"
  using parsed_value_good[of f k] py_strip_good by (auto simp: stripped_value_def good_value_def py_strip_def split: option.split)

definition rotated_values :: "string \<Rightarrow> string option \<Rightarrow> (string, string) dict" where
  "rotated_values key f = (let existing = parse_env_file f; old = stripped_value existing API_KEY_ENV
     in [(API_KEY_ENV, key)] @ (if old \<noteq> [] \<and> old \<noteq> key \<and> stripped_value existing SALT_KEY_ENV = [] then [(SALT_KEY_ENV, old)] else []))"

lemma set_master_key_Inr:
  "set_master_key key f = Inr f' \<longleftrightarrow> is_prefix ''sk-'' key \<and> f' = write_env_file (rotated_values key f) f"
  by (auto simp: set_master_key_def rotated_values_def Let_def)

lemma rotated_values_good: "good_value key \<Longrightarrow> good_env (rotated_values key f)"
  using stripped_good[of f API_KEY_ENV] by (simp add: rotated_values_def good_env_def Let_def dkeys_def)

lemma rotated_get: "dget (rotated_values key f) API_KEY_ENV = Some key"
  "k \<noteq> API_KEY_ENV \<Longrightarrow> k \<noteq> SALT_KEY_ENV \<Longrightarrow> dget (rotated_values key f) k = None"
  by (simp_all add: rotated_values_def Let_def dget_def)

text \<open>
  A rotation that is taken back leaves no trace: after \<open>rotate_master_key\<close> and \<open>restore_env\<close> every
  variable of the managed environment is what it was, the salt key pinned by the rotation included (a
  variable that was not set is not set again).
\<close>

theorem rotation_restored:
  assumes "rotate_master_key token f = Inr (values, f')" and "good_value (''sk-'' @ token)"
  shows "dget (parse_env_file (restore_env values f')) k = dget (parse_env_file f) k"
proof -
  let ?e = "parse_env_file f" and ?key = "''sk-'' @ token"
  have "ensure_secret [] API_KEY_ENV ''sk-'' token = ?key" by (simp add: ensure_secret_def py_strip_def)
  then have v: "values = [(API_KEY_ENV, dget ?e API_KEY_ENV), (SALT_KEY_ENV, dget ?e SALT_KEY_ENV)]"
    and f': "f' = write_env_file (rotated_values ?key f) f"
    using assms(1) by (auto simp: rotate_master_key_def bind_err_Inr set_master_key_Inr Let_def)
  let ?some = "List.map_filter (\<lambda>(k, v). map_option (\<lambda>v. (k, v)) v) values"
  let ?none = "List.map_filter (\<lambda>(k, v). if v = None then Some k else None) values"
  have some: "good_env ?some"
    using parsed_value_good[of f API_KEY_ENV] parsed_value_good[of f SALT_KEY_ENV] unfolding v
    by (cases "dget ?e API_KEY_ENV"; cases "dget ?e SALT_KEY_ENV") (simp_all add: List.map_filter_def good_env_def dkeys_def)
  have none: "list_all good_key ?none" unfolding v by (simp add: List.map_filter_def)
  have "dget (parse_env_file (restore_env values f')) k
      = (if k \<in> set ?none then None else case dget ?some k of Some v \<Rightarrow> Some v | None \<Rightarrow> dget (parse_env_file f') k)"
    unfolding restore_env_def remove_env_get[OF none] write_env_get[OF some] ..
  moreover have "dget (parse_env_file f') k = dget ?e k" if "k \<noteq> API_KEY_ENV" "k \<noteq> SALT_KEY_ENV"
    unfolding f' write_env_get[OF rotated_values_good[OF assms(2)]] using rotated_get(2)[OF that] by simp
  ultimately show ?thesis unfolding v
    by (cases "dget ?e API_KEY_ENV"; cases "dget ?e SALT_KEY_ENV"; cases "k = API_KEY_ENV"; cases "k = SALT_KEY_ENV")
      (simp_all add: List.map_filter_def dget_def[of "_ # _"])
qed

text \<open>What LiteLLM encrypts the credentials of its database with: the salt key, or the master key without one.\<close>

definition encryption_key :: "(string, string) dict \<Rightarrow> string" where
  "encryption_key env = (let salt = stripped_value env SALT_KEY_ENV in if salt \<noteq> [] then salt else stripped_value env API_KEY_ENV)"

text \<open>
  Changing the master key never loses the stored credentials: the key they are encrypted with is the
  same before and after, however often the master key is changed.
\<close>

theorem encryption_key_stable:
  assumes "set_master_key key f = Inr f'" and "good_value key" and "encryption_key (parse_env_file f) \<noteq> []"
  shows "encryption_key (parse_env_file f') = encryption_key (parse_env_file f)"
proof -
  let ?e = "parse_env_file f" and ?e' = "parse_env_file f'"
  have get: "dget ?e' k = (case dget (rotated_values key f) k of Some v \<Rightarrow> Some v | None \<Rightarrow> dget ?e k)" for k
    using assms(1) write_env_get[OF rotated_values_good[OF assms(2)]] by (simp add: set_master_key_Inr)
  have same: "stripped_value ?e' SALT_KEY_ENV = stripped_value ?e SALT_KEY_ENV"
    if "dget (rotated_values key f) SALT_KEY_ENV = None"
    using that get[of SALT_KEY_ENV] by (simp add: stripped_value_def)
  have strip: "py_strip (py_strip s) = py_strip s" for s
  proof (cases "py_strip s = []")
    case False
    let ?t = "dropWhile py_space s"
    have "?t \<noteq> []" using False by (metis py_strip_def dropWhile.simps(1) rev.simps(1))
    then obtain c r where t: "?t = c # r" "\<not> py_space c" by (metis hd_dropWhile list.exhaust_sel)
    then obtain q where "?t = py_strip s @ q" using py_strip_prefix[of c r] by (metis dropWhile.simps(2) py_strip_def)
    then have "hd (py_strip s) = c" using t False by (metis hd_append2 list.sel(1))
    then show ?thesis using t(2) False py_strip_last py_strip_same by blast
  next
    case True
    moreover have "py_strip [] = []" by (simp add: py_strip_def)
    ultimately show ?thesis by simp
  qed
  show ?thesis
  proof (cases "stripped_value ?e SALT_KEY_ENV = []")
    case False
    then have "dget (rotated_values key f) SALT_KEY_ENV = None" by (simp add: rotated_values_def Let_def dget_def)
    then show ?thesis using same False by (simp add: encryption_key_def)
  next
    case salt: True
    let ?old = "stripped_value ?e API_KEY_ENV"
    have old: "?old \<noteq> []" using assms(3) salt by (simp add: encryption_key_def)
    show ?thesis
    proof (cases "?old = key")
      case True
      then have "dget (rotated_values key f) SALT_KEY_ENV = None" by (simp add: rotated_values_def Let_def dget_def)
      moreover have "stripped_value ?e' API_KEY_ENV = py_strip key" using get[of API_KEY_ENV] by (simp add: rotated_get stripped_value_def)
      moreover have "py_strip key = ?old" using True strip by (metis stripped_value_def)
      ultimately show ?thesis using same salt by (simp add: encryption_key_def)
    next
      case False
      then have "dget (rotated_values key f) SALT_KEY_ENV = Some ?old" using old salt by (simp add: rotated_values_def Let_def dget_def)
      then have "stripped_value ?e' SALT_KEY_ENV = ?old" using get[of SALT_KEY_ENV] strip by (simp add: stripped_value_def)
      then show ?thesis using old salt by (simp add: encryption_key_def)
    qed
  qed
qed

section \<open>A previewed secret is the one the commit writes\<close>

definition stage :: "secret_state \<Rightarrow> secret_state" where
  "stage s = s\<lparr>ss_depth := Suc (ss_depth s)\<rparr>"

definition unstage :: "secret_state \<Rightarrow> secret_state" where
  "unstage s = s\<lparr>ss_depth := ss_depth s - 1\<rparr>"

text \<open>
  What a preview renders with is what the commit renders with, and the preview writes nothing: a secret
  that does not exist is made in memory while staging, the next writing call writes that same value,
  whatever its own random token, and every later call reads it back.
\<close>

lemma previewed_secret_is_written:
  assumes "managed_secret name pre token (stage s) = (v, s1)" and "ss_depth s = 0"
    and "managed_secret name pre token' (unstage s1) = (v', s2)" and "good_key name"
    and "v \<noteq> []" and "good_value v"
  shows "ss_file s1 = ss_file s \<and> v' = v \<and> dget (parse_env_file (ss_file s2)) name = Some v
    \<and> fst (managed_secret name pre token'' s2) = v"
proof -
  have d: "ss_depth (stage s) \<noteq> 0" "ss_file (stage s) = ss_file s" "ss_staged (stage s) = ss_staged s" by (simp_all add: stage_def)
  have w: "dget (parse_env_file (write_env_file [(name, v)] f)) name = Some v" for f
    using write_env_get[of "[(name, v)]" f name] assms(4,6) by (simp add: good_env_def dkeys_def dget_def)
  show ?thesis
  proof (cases "\<exists>c x. dget (parse_env_file (ss_file s)) name = Some (c # x)")
    case True
    then obtain c x where x: "dget (parse_env_file (ss_file s)) name = Some (c # x)" by blast
    then have "v = c # x" "s1 = stage s" using assms(1) d by (simp_all add: managed_secret_def)
    moreover have "v' = c # x" "s2 = unstage s1" using assms(3) x calculation(2) by (simp_all add: managed_secret_def unstage_def stage_def)
    ultimately show ?thesis using x by (simp add: unstage_def stage_def managed_secret_def)
  next
    case False
    then have c: "(case dget (parse_env_file (ss_file s)) name of Some (c # v) \<Rightarrow> A c v | _ \<Rightarrow> B) = B" for A and B :: "string \<times> secret_state"
      by (auto split: option.splits list.splits)
    have 1: "s1 = (stage s)\<lparr>ss_staged := dput name v (ss_staged s)\<rparr>"
      using assms(1) d unfolding managed_secret_def d(2,3) c by (auto simp: Let_def)
    obtain a b where ab: "v = a # b" using assms(5) by (cases v) auto
    have "dget (ss_staged (unstage s1)) name = Some (a # b)" "ss_file (unstage s1) = ss_file s" "ss_depth (unstage s1) = 0"
      using assms(2) ab by (simp_all add: 1 unstage_def stage_def)
    then have 2: "v' = v" "ss_file s2 = write_env_file [(name, v)] (ss_file s)"
      using assms(3) ab unfolding managed_secret_def by (auto simp: c Let_def)
    then have "fst (managed_secret name pre token'' s2) = v" using w ab by (simp add: managed_secret_def)
    then show ?thesis using 1 2 w by (simp add: stage_def)
  qed
qed

section \<open>A key pinned by hand\<close>

definition demo_file :: "string option" where
  "demo_file = Some (''# keys'' @ [CHR 0x0A] @ setting API_KEY_ENV ''sk-a'' @ [CHR 0x0A])"

lemma demo_file_keys:
  "dget (parse_env_file demo_file) API_KEY_ENV = Some ''sk-a''" "encryption_key (parse_env_file demo_file) = ''sk-a''"
  by code_simp+

theorem env_write_roundtrip_witness:
  "dget (parse_env_file (write_env_file [(''X'', ''1'')] demo_file)) API_KEY_ENV = Some ''sk-a''"
proof -
  have "good_env [(''X'', ''1'')]" by code_simp
  from env_write_roundtrip[OF this, of demo_file API_KEY_ENV] show ?thesis
    by (simp add: demo_file_keys dget_def[of "_ # _"]) (simp add: API_KEY_ENV_def)
qed

theorem rotation_restored_witness:
  "\<exists>vs f. rotate_master_key ''b'' demo_file = Inr (vs, f)
    \<and> dget (parse_env_file (restore_env vs f)) API_KEY_ENV = Some ''sk-a''"
proof -
  have "ensure_secret [] API_KEY_ENV ''sk-'' ''b'' = ''sk-b''" by (simp add: ensure_secret_def py_strip_def)
  then obtain vs f where r: "rotate_master_key ''b'' demo_file = Inr (vs, f)"
    by (simp add: rotate_master_key_def set_master_key_def Let_def)
  have "good_value (''sk-'' @ ''b'')" by (simp add: good_value_def is_break_def py_space_def)
  from rotation_restored[OF r this, of API_KEY_ENV] show ?thesis using r demo_file_keys by auto
qed

theorem encryption_key_stable_witness:
  "\<exists>f. set_master_key ''sk-b'' demo_file = Inr f \<and> encryption_key (parse_env_file f) = ''sk-a''"
proof -
  obtain f where f: "set_master_key ''sk-b'' demo_file = Inr f" by (simp add: set_master_key_def Let_def)
  have "good_value ''sk-b''" by (simp add: good_value_def is_break_def py_space_def)
  from encryption_key_stable[OF f this] show ?thesis using f demo_file_keys by simp
qed

end
