(* ===== verification/Operations.thy ===== *)
theory Operations
  imports
  Transactions
  Gateway
  ManagedEnv
begin

text \<open>
  The operator's commands (\<open>leasing/controller.py\<close>): moving the project to stable addresses, rotating the
  gateway's master key, publishing endpoints or a profile, an explicit apply, seeding and pruning the
  published routes. With the transactions they are the steps of a session; every step is a run of the
  publication protocol (\<open>operation_refines_protocol\<close>), so an absent marker means a complete apply
  wherever a session stops. A seed is compare and swap, a prune spares what is used.

  What a command uses of the backend beyond \<open>serving\<close> is a record of functions on its runtime, too:
  \<open>host_ops\<close> the containers of this host, \<open>door\<close> the LiteLLM gateway's registry file and managed
  \<open>.env\<close>. A command is given \<open>None\<close> for a gateway that is not there or has \<open>litellm\<close> off. A subnet is
  normalised text, a key's random token an argument.
\<close>

section \<open>What the commands use\<close>

record ('r, 'e) host_ops =
  ho_clashes :: "string \<Rightarrow> 'r \<Rightarrow> 'e + string list"
  ho_table :: "'r \<Rightarrow> (json \<times> (string, string) dict) option"
  ho_remove :: "string list \<Rightarrow> 'r \<Rightarrow> ('e + unit) \<times> 'r"

record 'r door =
  dr_registry :: "'r \<Rightarrow> json"
  dr_write_registry :: "json \<Rightarrow> 'r \<Rightarrow> 'r"
  dr_env :: "'r \<Rightarrow> string option"
  dr_write_env :: "string option \<Rightarrow> 'r \<Rightarrow> 'r"
  dr_catalog_routes :: "catalog union option \<Rightarrow> route list"

definition act_refuse :: "command_refusal \<Rightarrow> ('r, 'e, 'a) act" where
  "act_refuse x = act_raise (CommandRefused x)"

text \<open>\<open>try: m / finally: f\<close>, for an \<open>f\<close> that does not raise.\<close>

definition act_finally :: "('r, 'e, 'a) act \<Rightarrow> ('r ctl \<Rightarrow> 'r ctl) \<Rightarrow> ('r, 'e, 'a) act" where
  "act_finally m f = (\<lambda>c. case m c of (v, c') \<Rightarrow> (v, f c'))"

definition active_leases :: "rat \<Rightarrow> store \<Rightarrow> string list" where
  "active_leases now st = map lease_id (filter (\<lambda>le. lease_state le = Active) (fst (status True now st)))"

definition preview_approved :: "('r, 'e) serving \<Rightarrow> residency option \<Rightarrow> ('r, 'e, string option) act" where
  "preview_approved B res = act_lift (\<lambda>c.
     case admission_view (sv_reclaim B) True (ct_now c) (ct_store c) res None of (desired, i) \<Rightarrow>
       backend_raises (case sv_preview B (ct_runtime c) True desired i of
         Inl e \<Rightarrow> Inl e | Inr (_, _, digest) \<Rightarrow> Inr digest))"

section \<open>Stable addresses\<close>

definition network_subnet :: "store \<Rightarrow> json" where
  "network_subnet st = (case meta_json st ''network_config'' of Some (JObj kvs) \<Rightarrow> rt_get kvs ''subnet'' | _ \<Rightarrow> JNull)"

definition network_migrate ::
    "('r, 'e) serving \<Rightarrow> ('r, 'e) host_ops \<Rightarrow> string \<Rightarrow> bool \<Rightarrow> ('r, 'e, reconcile_result) act" where
  "network_migrate B H subnet force =
     (if \<not> sv_host B then act_refuse NoHostRuntime
      else act_bind (act_get (\<lambda>c. active_leases (ct_now c) (ct_store c))) (\<lambda>active.
        if active \<noteq> [] \<and> \<not> force then act_refuse (LeasesActive active)
        else act_bind (act_lift (\<lambda>c. backend_raises (ho_clashes H subnet (ct_runtime c)))) (\<lambda>clash.
          if clash \<noteq> [] then act_refuse (SubnetOverlaps clash)
          else
            act_bind (act_get (\<lambda>c. meta_json (ct_store c) ''network_config'' \<noteq> None
                \<and> network_subnet (ct_store c) \<noteq> JStr subnet)) (\<lambda>reset.
            act_bind (sync_profile B) (\<lambda>_.
            act_bind (read_residency B) (\<lambda>res.
            act_bind (act_get (\<lambda>c. ho_table H (ct_runtime c))) (\<lambda>saved.
            act_bind (\<lambda>c. (Inr (), c\<lparr>ct_runtime := sv_configure_network B
                (Some (JObj [(''subnet'', JStr subnet)], if reset then [] else st_addresses (ct_store c))) (ct_runtime c)\<rparr>)) (\<lambda>_.
            act_bind (act_finally (preview_approved B (Some res))
                (\<lambda>c. c\<lparr>ct_runtime := sv_configure_network B saved (ct_runtime c)\<rparr>)) (\<lambda>digest.
            act_bind take_fresh_profile (\<lambda>fresh.
            act_bind (act_ledger (\<lambda>_ st. (migrate_network subnet reset digest fresh st, ()))) (\<lambda>_.
              publish B))))))))))) "

section \<open>The master key\<close>

definition write_env :: "'r door \<Rightarrow> string option \<Rightarrow> 'r ctl \<Rightarrow> 'r ctl" where
  "write_env D f c = c\<lparr>ct_runtime := dr_write_env D f (ct_runtime c)\<rparr>"

definition act_rotate :: "'r door \<Rightarrow> string \<Rightarrow> ('r, 'e, (string, string option) dict) act" where
  "act_rotate D token = (\<lambda>c. case rotate_master_key token (dr_env D (ct_runtime c)) of
     Inl _ \<Rightarrow> (Inl (CommandRefused BadMasterKey), c)
   | Inr (replaced, f) \<Rightarrow> (Inr replaced, (write_env D f c)\<lparr>ct_began := False\<rparr>))"

definition act_restore :: "'r door \<Rightarrow> (string, string option) dict \<Rightarrow> ('r, 'e, unit) act" where
  "act_restore D replaced = (\<lambda>c. (Inr (), write_env D (restore_env replaced (dr_env D (ct_runtime c))) c))"

text \<open>A publication that fails before the apply began, or an apply that reached nothing, takes the key back.\<close>

definition publish_rotated :: "('r, 'e) serving \<Rightarrow> 'r door \<Rightarrow> (string, string option) dict \<Rightarrow> ('r, 'e, reconcile_result) act" where
  "publish_rotated B D replaced =
     act_bind (act_catch (publish B) (\<lambda>e.
         act_bind (act_get ct_began) (\<lambda>began.
         act_bind (if began then act_ret () else act_restore D replaced) (\<lambda>_. act_raise e)))) (\<lambda>rec.
       if rc_applied rec \<and> \<not> rc_runtime_applied rec then
         act_bind (act_restore D replaced) (\<lambda>_. act_refuse (GatewayNotRecreated (rc_detail rec)))
       else act_ret rec)"

definition rotate_gateway_key ::
    "('r, 'e) serving \<Rightarrow> 'r door option \<Rightarrow> bool \<Rightarrow> string \<Rightarrow> ('r, 'e, reconcile_result) act" where
  "rotate_gateway_key B door force token = (case door of None \<Rightarrow> act_refuse NoGateway
     | Some D \<Rightarrow>
         act_bind (act_get (\<lambda>c. active_leases (ct_now c) (ct_store c))) (\<lambda>active.
           if active \<noteq> [] \<and> \<not> force then act_refuse (LeasesActive active)
           else
             act_bind (mark_pending B True) (\<lambda>_.
             act_bind (act_rotate D token) (\<lambda>replaced.
               publish_rotated B D replaced))))"

section \<open>Publishing endpoints and profiles\<close>

definition act_publish_profile :: "json \<Rightarrow> string option \<Rightarrow> ('r, 'e, unit) act" where
  "act_publish_profile p digest = act_ledger (\<lambda>_ st. (publish_profile p digest st, ()))"

definition publish_endpoints :: "('r, 'e) serving \<Rightarrow> (string \<Rightarrow> string) \<Rightarrow> ('r, 'e, reconcile_result) act" where
  "publish_endpoints B sha =
     act_bind (sync_profile B) (\<lambda>_.
     act_bind (try_residency B) (\<lambda>res.
     act_bind (profile_candidate B sha res) (\<lambda>candidate.
       case (if sv_render_profile B = None then None else candidate) of
         None \<Rightarrow> act_bind (mark_pending B True) (\<lambda>_. publish B)
       | Some p \<Rightarrow>
           act_bind (act_get (\<lambda>c. profile (ct_store c))) (\<lambda>stored.
           act_bind (act_runtime (sv_use_profile B p)) (\<lambda>_.
           act_bind (act_catch (act_bind (prepare_network B) (\<lambda>_. preview_approved B res))
               (\<lambda>e. act_bind (restore_stored_profile B stored) (\<lambda>_. act_raise e))) (\<lambda>digest.
           act_bind (act_publish_profile p digest) (\<lambda>_.
           act_bind (\<lambda>c. (Inr (), c\<lparr>ct_fresh := None, ct_profile_error := False, ct_profile := Some p\<rparr>)) (\<lambda>_.
             publish B))))))))"

definition apply_now :: "('r, 'e) serving \<Rightarrow> (string \<Rightarrow> string) \<Rightarrow> ('r, 'e, reconcile_result) act" where
  "apply_now B sha =
     act_bind (\<lambda>c. (Inr (), c\<lparr>ct_explicit := True\<rparr>)) (\<lambda>_.
       act_finally
         (act_bind (act_get (\<lambda>c. sv_render_profile B \<noteq> None \<and> profile (ct_store c) = None)) (\<lambda>first.
            if first then publish_endpoints B sha else reconcile B True))
         (\<lambda>c. c\<lparr>ct_explicit := False\<rparr>))"

definition running_deployments :: "residency \<Rightarrow> string list" where
  "running_deployments res = sort (remdups (filter (\<lambda>d. d \<noteq> []) (map c_deployment (all_containers res))))"

definition config_publish :: "('r, 'e) serving \<Rightarrow> (string, json) dict \<Rightarrow> ('r, 'e, reconcile_result) act" where
  "config_publish B p =
     (if sv_render_profile B = None then act_refuse NoPublishableProfile
      else act_bind (act_get (\<lambda>c. case profile (ct_store c) of Some (JObj s) \<Rightarrow>
              canonical (rt_get s ''backend'') \<noteq> canonical (rt_get p ''backend'') | _ \<Rightarrow> False)) (\<lambda>moved.
        if moved then act_raise (ProfileRefused BackendChanged)
        else act_bind (act_get (\<lambda>c. active_leases (ct_now c) (ct_store c))) (\<lambda>active.
          if active \<noteq> [] then act_refuse (LeasesActive active)
          else act_bind (try_residency B) (\<lambda>res. case res of
              None \<Rightarrow> act_refuse ResidencyNotConfirmed
            | Some snap \<Rightarrow>
                if running_deployments snap \<noteq> [] then act_refuse (ContainersExist (running_deployments snap))
                else
                  act_bind (act_get ct_profile) (\<lambda>previous.
                  act_bind (act_runtime (sv_use_profile B (JObj p))) (\<lambda>_.
                  act_bind (act_catch
                      (act_bind (read_residency B) (\<lambda>res. act_bind (prepare_network B) (\<lambda>_. preview_approved B (Some res))))
                      (\<lambda>e. act_bind (case previous of None \<Rightarrow> act_ret () | Some q \<Rightarrow> act_runtime (sv_use_profile B q))
                         (\<lambda>_. act_raise e))) (\<lambda>digest.
                  act_bind (act_publish_profile (JObj p) digest) (\<lambda>_.
                  act_bind (\<lambda>c. (Inr (), c\<lparr>ct_profile_error := False, ct_profile := Some (JObj p),
                      ct_invocation := Some (JObj p)\<rparr>)) (\<lambda>_.
                    publish B)))))))))"

section \<open>Seeding and pruning the published routes\<close>

text \<open>Desired state outside the ledger: the check comes before the marker, the change after it.\<close>

definition publish_change ::
    "('r, 'e) serving \<Rightarrow> ('r, 'e, unit) act \<Rightarrow> ('r, 'e, 'a) act \<Rightarrow> ('r, 'e, 'a \<times> reconcile_result) act" where
  "publish_change B preflight change =
     act_bind preflight (\<lambda>_.
     act_bind (mark_pending B True) (\<lambda>_.
     act_bind change (\<lambda>x.
     act_bind (publish B) (\<lambda>rec. act_ret (x, rec)))))"

definition published_sources :: "store \<Rightarrow> json list" where
  "published_sources st = (case profile st of Some (JObj p) \<Rightarrow> sources_in p | _ \<Rightarrow> [])"

definition catalog_checked :: "union_error + 'a \<Rightarrow> 'e ctl_error + 'a" where
  "catalog_checked v = (case v of Inl e \<Rightarrow> Inl (ProfileRefused (CatalogRaised e)) | Inr x \<Rightarrow> Inr x)"

text \<open>\<open>_meanings\<close>: an endpoint that does not resolve has none.\<close>

definition route_meanings ::
    "('r, 'e) serving \<Rightarrow> (string \<Rightarrow> string) \<Rightarrow> 'r door \<Rightarrow> catalog union option \<Rightarrow> union_error + (string, meaning) dict" where
  "route_meanings B sha D uni = (case uni of None \<Rightarrow> Inr []
     | Some u \<Rightarrow>
         let routes = fold (\<lambda>r t. dput (gr_alias r) r t) (dr_catalog_routes D uni) []
         in bind_err (map_err (\<lambda>(n, cat). case endpoint_key sha (sv_repr B) cat n of
                Inl e \<Rightarrow> Inl (BadCatalog (PyRaised e))
              | Inr (Inl _) \<Rightarrow> Inr []
              | Inr (Inr k) \<Rightarrow> Inr [(n, \<lparr>me_route = dget routes n, me_key = Some k\<rparr>)])
              (sort_key fst (un_owner u))) (\<lambda>rows. Inr (concat rows)))"

definition published_meanings ::
    "('r, 'e) serving \<Rightarrow> (string \<Rightarrow> string) \<Rightarrow> 'r door \<Rightarrow> 'r ctl \<Rightarrow> union_error + (string, meaning) dict" where
  "published_meanings B sha D c =
     bind_err (union_or_none sha (sv_repr B) (sv_valid_url B) (published_sources (ct_store c))) (\<lambda>u.
     bind_err (route_meanings B sha D u) (\<lambda>over.
       Inr (fold (\<lambda>(n, m). dput n m) over
         (map (\<lambda>r. (gr_alias r, \<lparr>me_route = Some r, me_key = None\<rparr>))
           (registry_routes (sv_repr B) (dr_registry D (ct_runtime c)))))))"

definition require_keys ::
    "('r, 'e) serving \<Rightarrow> (string \<Rightarrow> string) \<Rightarrow> 'r door \<Rightarrow> catalog union option \<Rightarrow> ('r, 'e, unit) act" where
  "require_keys B sha D uni = act_lift (\<lambda>c.
     bind_err (catalog_checked (union_or_none sha (sv_repr B) (sv_valid_url B) (published_sources (ct_store c)))) (\<lambda>known.
       let missing = missing_route_keys (sv_repr B) (parse_env_file (dr_env D (ct_runtime c)))
             (dr_catalog_routes D known @ dr_catalog_routes D uni)
       in if missing = [] then Inr () else Inl (CommandRefused (RouteKeysMissing missing))))"

definition plan_now ::
    "('r, 'e) serving \<Rightarrow> (string \<Rightarrow> string) \<Rightarrow> 'r door \<Rightarrow> (string, meaning) dict \<Rightarrow> ('r, 'e, route_plan) act" where
  "plan_now B sha D incoming = act_lift (\<lambda>c.
     bind_err (catalog_checked (published_meanings B sha D c)) (\<lambda>m. Inr (plan_seed m incoming)))"

definition plan_route_seed ::
    "('r, 'e) serving \<Rightarrow> (string \<Rightarrow> string) \<Rightarrow> 'r door option \<Rightarrow> json list \<Rightarrow> ('r, 'e, route_plan) act" where
  "plan_route_seed B sha door sources = (case door of None \<Rightarrow> act_refuse NoGateway
     | Some D \<Rightarrow>
         act_bind (act_lift (\<lambda>_. catalog_checked (union_or_none sha (sv_repr B) (sv_valid_url B) sources))) (\<lambda>u.
         act_bind (require_keys B sha D u) (\<lambda>_.
         act_bind (act_lift (\<lambda>_. catalog_checked (route_meanings B sha D u))) (\<lambda>incoming.
           plan_now B sha D incoming))))"

text \<open>Compare and swap: only what the confirmed plan showed is replaced.\<close>

definition moved_conflicts :: "route_plan \<Rightarrow> route_plan \<Rightarrow> string list" where
  "moved_conflicts shown now = sort (map fst (filter (\<lambda>(n, old, _).
     case dget (rp_conflicted shown) n of None \<Rightarrow> True | Some (was, _) \<Rightarrow> \<not> same_meaning was old) (rp_conflicted now)))"

definition conflict_check :: "route_plan \<Rightarrow> bool \<Rightarrow> route_plan \<Rightarrow> ('r, 'e, unit) act" where
  "conflict_check shown replace now =
     (if rp_conflicted now \<noteq> [] \<and> \<not> replace then act_refuse (RoutesConflict (sort (dkeys (rp_conflicted now))) False)
      else if replace \<and> moved_conflicts shown now \<noteq> [] then act_refuse (RoutesConflict (moved_conflicts shown now) True)
      else act_ret ())"

definition seed_preflight ::
    "('r, 'e) serving \<Rightarrow> (string \<Rightarrow> string) \<Rightarrow> 'r door \<Rightarrow> route_plan \<Rightarrow> json list \<Rightarrow> bool \<Rightarrow> ('r, 'e, unit) act" where
  "seed_preflight B sha D plan sources replace =
     act_bind (plan_now B sha D (rp_incoming plan)) (\<lambda>now.
     act_bind (conflict_check plan replace now) (\<lambda>_.
     act_bind (act_lift (\<lambda>_. catalog_checked (union_or_none sha (sv_repr B) (sv_valid_url B) sources))) (\<lambda>u.
     act_bind (require_keys B sha D u) (\<lambda>_.
     act_bind (try_residency B) (\<lambda>res.
     act_bind (act_lift (\<lambda>c. catalog_checked
         (bind_err (adopt sha (sv_repr B) (sv_valid_url B) (published_sources (ct_store c)) sources {}) (\<lambda>after.
            pinned_changes sha (sv_repr B) (sv_valid_url B) (pinned_deployments res (ct_now c) (ct_store c))
              (published_sources (ct_store c)) after)))) (\<lambda>blocked.
       if blocked \<noteq> [] then act_raise (ProfileRefused (Redefines blocked)) else act_ret ()))))))"

definition invocation_profile :: "('r, 'e) serving \<Rightarrow> 'r ctl \<Rightarrow> json option" where
  "invocation_profile B c = (case ct_invocation c of Some p \<Rightarrow> Some p
     | None \<Rightarrow> map_option (\<lambda>render. render (ct_runtime c)) (sv_render_profile B))"

definition store_catalogs :: "('r, 'e) serving \<Rightarrow> json list \<Rightarrow> ('r, 'e, unit) act" where
  "store_catalogs B catalogs =
     act_bind (act_get (\<lambda>c. case profile (ct_store c) of
           Some (JObj (kv # s)) \<Rightarrow> Some (JObj (kv # s))
         | _ \<Rightarrow> invocation_profile B c)) (\<lambda>stored.
       case stored of
         Some (JObj s) \<Rightarrow>
           let p = JObj (dput ''catalogs'' (JList catalogs) s)
           in if canonical p = canonical (JObj s) then act_ret ()
              else act_bind (act_ledger (\<lambda>_ st. (write_profile p st, ()))) (\<lambda>_.
                   (\<lambda>c. (Inr (), c\<lparr>ct_runtime := sv_use_profile B p (ct_runtime c),
                      ct_profile_error := False, ct_profile := Some p\<rparr>)))
       | _ \<Rightarrow> act_ret ())"

text \<open>\<open>route_entries\<close> and \<open>replace_route_entries\<close>: the rows of the registry file, whose version is kept.\<close>

definition route_entries :: "json \<Rightarrow> (string, json) dict" where
  "route_entries registry = (case registry of JObj kvs \<Rightarrow> (case rt_get kvs ''entries'' of JObj rows \<Rightarrow> rows | _ \<Rightarrow> []) | _ \<Rightarrow> [])"

definition with_entries :: "(string, json) dict \<Rightarrow> json \<Rightarrow> json" where
  "with_entries rows registry = JObj [(''version'', (case registry of
       JObj kvs \<Rightarrow> (case dget kvs ''version'' of None \<Rightarrow> JInt 1 | Some v \<Rightarrow> v) | _ \<Rightarrow> JInt 1)),
     (''entries'', JObj rows)]"

definition drop_entries :: "'r door \<Rightarrow> string list \<Rightarrow> ('r, 'e, unit) act" where
  "drop_entries D names = act_runtime (\<lambda>r.
     let legacy = route_entries (dr_registry D r); kept = filter (\<lambda>(n, row). n \<notin> set names) legacy
     in if kept = legacy then r else dr_write_registry D (with_entries kept (dr_registry D r)) r)"

definition seed_change ::
    "('r, 'e) serving \<Rightarrow> (string \<Rightarrow> string) \<Rightarrow> 'r door \<Rightarrow> route_plan \<Rightarrow> json list \<Rightarrow> ('r, 'e, route_plan) act" where
  "seed_change B sha D plan sources =
     act_bind (plan_now B sha D (rp_incoming plan)) (\<lambda>now.
     act_bind (try_residency B) (\<lambda>res.
     act_bind (act_lift (\<lambda>c. case adopted_sources sha (sv_repr B) (sv_valid_url B) (published_sources (ct_store c)) sources
         (set (pinned_endpoints res (ct_now c) (ct_store c))) of Inl e \<Rightarrow> Inl (ProfileRefused e) | Inr ss \<Rightarrow> Inr ss)) (\<lambda>catalogs.
     act_bind (store_catalogs B catalogs) (\<lambda>_.
     act_bind (drop_entries D (dkeys (rp_incoming plan))) (\<lambda>_. act_ret now)))))"

definition commit_route_seed ::
    "('r, 'e) serving \<Rightarrow> (string \<Rightarrow> string) \<Rightarrow> 'r door option \<Rightarrow> route_plan \<Rightarrow> json list \<Rightarrow> bool
     \<Rightarrow> ('r, 'e, route_plan \<times> reconcile_result) act" where
  "commit_route_seed B sha door plan sources replace = (case door of None \<Rightarrow> act_refuse NoGateway
     | Some D \<Rightarrow>
         act_bind (plan_now B sha D (rp_incoming plan)) (\<lambda>fresh.
           if rp_conflicted fresh \<noteq> [] \<and> \<not> replace
           then act_refuse (RoutesConflict (sort (dkeys (rp_conflicted fresh))) False)
           else publish_change B (seed_preflight B sha D plan sources replace) (seed_change B sha D plan sources)))"

definition union_names :: "catalog union option \<Rightarrow> string list" where
  "union_names uni = (case uni of None \<Rightarrow> [] | Some u \<Rightarrow> dkeys (un_owner u))"

definition prune_keep :: "('r, 'e) serving \<Rightarrow> (string \<Rightarrow> string) \<Rightarrow> 'r ctl \<Rightarrow> union_error + string list" where
  "prune_keep B sha c =
     (let mine = (case invocation_profile B c of Some (JObj p) \<Rightarrow> sources_in p | _ \<Rightarrow> []);
          res = (case sv_residency B (ct_runtime c) of Inl _ \<Rightarrow> None | Inr r \<Rightarrow> Some r);
          desired = fst (admission_view (sv_reclaim B) True (ct_now c) (ct_store c) res None)
      in bind_err (union_or_none sha (sv_repr B) (sv_valid_url B) mine) (\<lambda>u.
           Inr (union_names u @ concat (map (\<lambda>d. dkeys (dep_served d)) desired)
             @ pinned_endpoints res (ct_now c) (ct_store c))))"

definition prunable :: "('r, 'e) serving \<Rightarrow> (string \<Rightarrow> string) \<Rightarrow> 'r door \<Rightarrow> 'r ctl \<Rightarrow> union_error + string list" where
  "prunable B sha D c =
     bind_err (union_or_none sha (sv_repr B) (sv_valid_url B) (published_sources (ct_store c))) (\<lambda>u.
     bind_err (prune_keep B sha c) (\<lambda>keep.
       Inr (rp_dropped (plan_prune (dkeys (route_entries (dr_registry D (ct_runtime c))) @ union_names u) (set keep)))))"

definition prune_change ::
    "('r, 'e) serving \<Rightarrow> (string \<Rightarrow> string) \<Rightarrow> 'r door \<Rightarrow> string list \<Rightarrow> ('r, 'e, string list) act" where
  "prune_change B sha D confirmed =
     act_bind (act_lift (\<lambda>c. catalog_checked (prunable B sha D c))) (\<lambda>free.
       let gone = sort (filter (\<lambda>n. n \<in> set free) (remdups confirmed)) in
       if gone = [] then act_ret gone
       else
         act_bind (drop_entries D gone) (\<lambda>_.
         act_bind (act_lift (\<lambda>c. catalog_checked (drop_catalog_names (set gone) (published_sources (ct_store c))))) (\<lambda>catalogs.
         act_bind (store_catalogs B catalogs) (\<lambda>_. act_ret gone))))"

definition commit_route_prune ::
    "('r, 'e) serving \<Rightarrow> (string \<Rightarrow> string) \<Rightarrow> 'r door option \<Rightarrow> string list
     \<Rightarrow> ('r, 'e, string list \<times> reconcile_result) act" where
  "commit_route_prune B sha door confirmed = (case door of None \<Rightarrow> act_refuse NoGateway
     | Some D \<Rightarrow> publish_change B (act_ret ()) (prune_change B sha D confirmed))"

section \<open>The commands follow the publication protocol\<close>

lemma silent_bind_if: "silent m \<Longrightarrow> silent m' \<Longrightarrow> silent (if b then m else m')"
  by simp

lemma silent_commands [simp]:
  "silent (act_refuse x)" "silent (preview_approved B res)" "silent (act_rotate D token)" "silent (act_restore D replaced)"
  "silent (restore_stored_profile B stored)" "silent (plan_now B sha D incoming)" "silent (require_keys B sha D u)"
  "silent (drop_entries D names)" "silent (conflict_check shown replace now)"
  by (auto simp: silent_def act_refuse_def preview_approved_def act_rotate_def act_restore_def write_env_def act_lift_def
      act_raise_def restore_stored_profile_def plan_now_def require_keys_def drop_entries_def act_runtime_def conflict_check_def
      act_ret_def split: sum.split option.split prod.split)

lemma silent_update: "(\<And>c. ct_store (f c) = ct_store c \<and> ct_calls (f c) = ct_calls c) \<Longrightarrow> silent (\<lambda>c. (Inr x, f c))"
  by (simp add: silent_def)

lemma runs_finally:
  fixes m :: "('r, 'e, 'a) act"
  assumes "runs p m q" and f: "\<And>c. ct_store (f c) = ct_store c \<and> ct_calls (f c) = ct_calls c"
  shows "runs p (act_finally m f) q"
  unfolding runs_def
proof (intro allI impI)
  fix c :: "'r ctl" assume c: "ledger_ok (ct_store c) \<and> p (ct_store c) (ct_calls c)"
  obtain v c1 where m: "m c = (v, c1)" by (cases "m c")
  note M = runsD[OF assms(1), of c, unfolded m fst_conv snd_conv]
  have "pub_step c1 (f c1)" using f by (intro pub_step.environment) simp_all
  then have "pub_reachable c (f c1)" using M(1) c by (blast intro: pub_reachable.step)
  then show "pub_reachable c (snd (act_finally m f c)) \<and> (\<forall>x. fst (act_finally m f c) = Inr x \<longrightarrow>
      q x (ct_store (snd (act_finally m f c))) (ct_calls (snd (act_finally m f c))))"
    using M(3) c m f by (simp add: act_finally_def)
qed

lemma silent_finally:
  assumes "silent m" "\<And>c. ct_store (f c) = ct_store c \<and> ct_calls (f c) = ct_calls c"
  shows "silent (act_finally m f)"
  using assms unfolding silent_def act_finally_def by (simp add: split_beta)

lemma runs_intent:
  assumes "\<And>t st. same_tables st (f t st)" "\<And>t st. ledger_ok st \<Longrightarrow> ledger_ok (f t st)" "\<And>t st. pending (f t st)"
  shows "runs anything (act_ledger (\<lambda>t st. (f t st, ()))) (\<lambda>_. marked)"
  unfolding runs_def
proof (intro allI impI)
  fix c :: "'r ctl" assume "ledger_ok (ct_store c) \<and> True"
  then have "pub_step c (c\<lparr>ct_store := f (ct_now c) (ct_store c)\<rparr>)" using assms by (intro pub_step.record_intent) simp_all
  then show "pub_reachable c (snd (act_ledger (\<lambda>t st. (f t st, ())) c)) \<and>
      (\<forall>x. fst (act_ledger (\<lambda>t st. (f t st, ())) c) = Inr x \<longrightarrow> pending (ct_store (snd (act_ledger (\<lambda>t st. (f t st, ())) c))))"
    using assms(3) by (auto simp: act_ledger_def intro: pub_reachable.step[OF pub_reachable.start])
qed

lemma same_write_profile: "same_tables st (write_profile p st)" "st_addresses (write_profile p st) = st_addresses st"
  by (simp_all add: write_profile_def set_meta_json_def same_tables_def)

lemma runs_publish_profile: "runs anything (act_publish_profile p digest) (\<lambda>_. marked)"
  unfolding act_publish_profile_def
proof (rule runs_intent)
  fix t :: rat and st :: store
  show "same_tables st (publish_profile p digest st)"
    using marker_frame(1)[of "write_profile p st" True False None digest] same_write_profile(1)[of st p]
    by (simp add: publish_profile_def same_tables_def)
  then show "ledger_ok st \<Longrightarrow> ledger_ok (publish_profile p digest st)"
    using ledger_ok_same[of st "publish_profile p digest st"] marker_frame(2) same_write_profile(2)
    by (simp add: publish_profile_def)
  show "pending (publish_profile p digest st)" by (simp add: publish_profile_def marker_frame(3))
qed

lemma runs_migrate: "runs anything (act_ledger (\<lambda>_ st. (migrate_network subnet reset digest fresh st, ()))) (\<lambda>_. marked)"
proof (rule runs_intent)
  fix t :: rat and st :: store
  let ?st = "migrate_network subnet reset digest fresh st"
  show t: "same_tables st ?st" and "pending ?st"
    by (auto simp: migrate_network_def write_marker_def write_profile_def set_meta_json_def same_tables_def pending_def Let_def
        split: option.split)
  have a: "st_addresses ?st = (if reset then [] else st_addresses st)"
    by (simp add: migrate_network_def write_marker_def write_profile_def set_meta_json_def Let_def split: option.split)
  assume ok: "ledger_ok st"
  let ?s = "st\<lparr>st_addresses := st_addresses ?st\<rparr>"
  have "ledger_ok ?s"
    using ok a by (simp add: ledger_ok_def refs_ok_def alloc_ok_def live_claimed_def lease_ids_def dep_ids_def dep_at_def
        lease_at_def live_at_def dkeys_def dvals_def)
  moreover have "same_tables ?s ?st" using t by (simp add: same_tables_def)
  ultimately show "ledger_ok ?st" using ledger_ok_same[of ?s ?st] by simp
qed

lemmas runs_quiet = runs_bind[OF runs_silent]

lemma runs_network_migrate: "runs anything (network_migrate B H subnet force) (\<lambda>_. anything)"
proof -
  have s: "silent (act_finally (preview_approved B res)
      (\<lambda>c. c\<lparr>ct_runtime := sv_configure_network B saved (ct_runtime c)\<rparr>))" for res saved
    by (rule silent_finally) simp_all
  show ?thesis
    unfolding network_migrate_def
    by (rule runs_if, rule runs_any[OF runs_silent], simp, rule runs_quiet, simp,
        rule runs_if, rule runs_any[OF runs_silent], simp, rule runs_quiet, simp,
        rule runs_if, rule runs_any[OF runs_silent], simp, rule runs_quiet, simp, rule runs_quiet, simp, rule runs_quiet, simp,
        rule runs_quiet, simp, rule runs_quiet, rule silent_update, simp, rule runs_quiet, rule s,
        rule runs_quiet, simp, rule runs_bind[OF runs_migrate runs_publish])
qed

lemma runs_raises: "silent m \<Longrightarrow> runs p (act_bind m (\<lambda>_. act_raise e)) q"
  by (rule runs_bind[OF runs_silent runs_raise])

lemma runs_refuse: "runs p (act_refuse x) q"
  unfolding act_refuse_def by (rule runs_raise)

lemma runs_publish_rotated: "runs marked (publish_rotated B D replaced) (\<lambda>_. anything)"
proof -
  have failed: "runs anything (act_bind (act_get ct_began) (\<lambda>began.
      act_bind (if began then act_ret () else act_restore D replaced) (\<lambda>_. act_raise e))) (\<lambda>_. anything)" for e
    by (rule runs_quiet, simp, rule runs_raises, simp)
  show ?thesis
    unfolding publish_rotated_def
    by (rule runs_bind[OF runs_catch[OF runs_publish failed]], rule runs_if, rule runs_quiet, simp, rule runs_refuse,
        rule runs_ret, simp)
qed

lemma runs_rotate_gateway_key: "runs anything (rotate_gateway_key B door force token) (\<lambda>_. anything)"
proof (cases door)
  case None
  then show ?thesis by (simp add: rotate_gateway_key_def runs_refuse)
next
  case (Some D)
  show ?thesis
    unfolding rotate_gateway_key_def Some option.case
    by (rule runs_quiet, simp, rule runs_if, rule runs_refuse, rule runs_bind[OF runs_mark_pending],
        rule runs_quiet, simp, rule runs_publish_rotated)
qed

lemma runs_publish_endpoints: "runs anything (publish_endpoints B sha) (\<lambda>_. anything)"
proof -
  have switched: "runs anything (act_bind (act_get (\<lambda>c. profile (ct_store c))) (\<lambda>stored.
           act_bind (act_runtime (sv_use_profile B p)) (\<lambda>_.
           act_bind (act_catch (act_bind (prepare_network B) (\<lambda>_. preview_approved B res))
               (\<lambda>e. act_bind (restore_stored_profile B stored) (\<lambda>_. act_raise e))) (\<lambda>digest.
           act_bind (act_publish_profile p digest) (\<lambda>_.
           act_bind (\<lambda>c. (Inr (), c\<lparr>ct_fresh := None, ct_profile_error := False, ct_profile := Some p\<rparr>)) (\<lambda>_.
             publish B)))))) (\<lambda>_. anything)" for p res
    by (rule runs_quiet, simp, rule runs_quiet, simp, rule runs_bind[OF runs_catch[OF runs_silent runs_raises]],
        rule silent_bind, simp, simp, simp, rule runs_bind[OF runs_publish_profile], rule runs_quiet, rule silent_update, simp,
        rule runs_publish)
  show ?thesis
    unfolding publish_endpoints_def
    by (rule runs_quiet, simp, rule runs_quiet, simp, rule runs_quiet, simp)
       (auto intro: switched runs_bind[OF runs_mark_pending runs_publish] split: option.split)
qed

lemma runs_apply_now: "runs anything (apply_now B sha) (\<lambda>_. anything)"
  unfolding apply_now_def
  by (rule runs_quiet, rule silent_update, simp, rule runs_finally, rule runs_quiet, simp, rule runs_if,
      rule runs_publish_endpoints, rule runs_reconcile, simp)

lemma runs_confirmed:
  assumes "runs anything k (\<lambda>_. anything)"
  shows "runs anything (case res of None \<Rightarrow> act_refuse ResidencyNotConfirmed
      | Some snap \<Rightarrow> if running_deployments snap \<noteq> [] then act_refuse (ContainersExist (running_deployments snap)) else k)
      (\<lambda>_. anything)"
  using assms by (auto intro: runs_refuse split: option.split)

lemma runs_config_publish: "runs anything (config_publish B p) (\<lambda>_. anything)"
proof -
  have s: "silent (act_bind (read_residency B) (\<lambda>res. act_bind (prepare_network B) (\<lambda>_. preview_approved B (Some res))))"
    by (intro silent_bind) simp_all
  have undo: "silent (case previous of None \<Rightarrow> act_ret () | Some q \<Rightarrow> act_runtime (sv_use_profile B q))" for previous
    by (simp split: option.split)
  have switched: "runs anything (act_bind (act_get ct_profile) (\<lambda>previous.
      act_bind (act_runtime (sv_use_profile B (JObj p))) (\<lambda>_.
      act_bind (act_catch
          (act_bind (read_residency B) (\<lambda>res. act_bind (prepare_network B) (\<lambda>_. preview_approved B (Some res))))
          (\<lambda>e. act_bind (case previous of None \<Rightarrow> act_ret () | Some q \<Rightarrow> act_runtime (sv_use_profile B q))
             (\<lambda>_. act_raise e))) (\<lambda>digest.
      act_bind (act_publish_profile (JObj p) digest) (\<lambda>_.
      act_bind (\<lambda>c. (Inr (), c\<lparr>ct_profile_error := False, ct_profile := Some (JObj p), ct_invocation := Some (JObj p)\<rparr>)) (\<lambda>_.
        publish B)))))) (\<lambda>_. anything)"
    by (rule runs_quiet, simp, rule runs_quiet, simp, rule runs_bind[OF runs_catch[OF runs_silent[OF s] runs_raises[OF undo]]],
        rule runs_bind[OF runs_publish_profile], rule runs_quiet, rule silent_update, simp, rule runs_publish)
  show ?thesis
    unfolding config_publish_def
    by (rule runs_if, rule runs_refuse, rule runs_quiet, simp, rule runs_if, rule runs_raise, rule runs_quiet, simp,
        rule runs_if, rule runs_refuse, rule runs_quiet, simp, rule runs_confirmed, rule switched)
qed

section \<open>Route changes\<close>

lemma runs_publish_change:
  assumes "silent pre" and "runs marked change (\<lambda>_. marked)"
  shows "runs anything (publish_change B pre change) (\<lambda>_. anything)"
  unfolding publish_change_def
  by (rule runs_quiet[OF assms(1)], rule runs_bind[OF runs_mark_pending], rule runs_bind[OF assms(2)],
      rule runs_then_ret, rule runs_publish)

lemma silent_seed_preflight: "silent (seed_preflight B sha D plan sources replace)"
  unfolding seed_preflight_def by (intro silent_bind) simp_all

lemma runs_stored:
  "(\<And>s. runs p (k s) q) \<Longrightarrow> runs p m q \<Longrightarrow> runs p (case stored of Some (JObj s) \<Rightarrow> k s | _ \<Rightarrow> m) q"
  by (auto split: option.split json.split)

lemma runs_store_catalogs: "runs marked (store_catalogs B catalogs) (\<lambda>_. marked)"
proof -
  have w: "runs marked (act_ledger (\<lambda>_ st. (write_profile p st, ()))) (\<lambda>_. marked)" for p
    unfolding marked_reads by (rule runs_facts) (simp add: same_write_profile, simp add: write_profile_def set_meta_json_def)
  have s: "runs marked (if canonical p = q then act_ret ()
      else act_bind (act_ledger (\<lambda>_ st. (write_profile p st, ()))) (\<lambda>_.
         (\<lambda>c. (Inr (), c\<lparr>ct_runtime := sv_use_profile B p (ct_runtime c), ct_profile_error := False, ct_profile := Some p\<rparr>))))
      (\<lambda>_. marked)" for p q
    by (rule runs_if, rule runs_silent, simp, rule runs_bind[OF w], rule runs_silent, rule silent_update, simp)
  show ?thesis
    unfolding store_catalogs_def Let_def
    by (rule runs_quiet, simp, rule runs_stored, rule s, rule runs_silent, simp)
qed

lemma runs_seed_change: "runs marked (seed_change B sha D plan sources) (\<lambda>_. marked)"
  unfolding seed_change_def
  by (rule runs_quiet, simp, rule runs_quiet, simp, rule runs_quiet, simp, rule runs_bind[OF runs_store_catalogs],
      rule runs_quiet, simp, rule runs_silent, simp)

lemma runs_prune_change: "runs marked (prune_change B sha D confirmed) (\<lambda>_. marked)"
  unfolding prune_change_def Let_def
  by (rule runs_quiet, simp, rule runs_if, rule runs_silent, simp, rule runs_quiet, simp, rule runs_quiet, simp,
      rule runs_bind[OF runs_store_catalogs], rule runs_silent, simp)

lemma runs_route_seed: "runs anything (commit_route_seed B sha door plan sources replace) (\<lambda>_. anything)"
proof (cases door)
  case None
  then show ?thesis by (simp add: commit_route_seed_def runs_refuse)
next
  case (Some D)
  show ?thesis
    unfolding commit_route_seed_def Some option.case
    by (rule runs_quiet, simp, rule runs_if, rule runs_refuse,
        rule runs_publish_change[OF silent_seed_preflight runs_seed_change])
qed

lemma runs_route_prune: "runs anything (commit_route_prune B sha door confirmed) (\<lambda>_. anything)"
  unfolding commit_route_prune_def
  by (cases door) (auto intro: runs_refuse runs_publish_change runs_prune_change)

section \<open>Sessions\<close>

inductive operation :: "('r, 'e) serving \<Rightarrow> 'r ctl \<Rightarrow> 'r ctl \<Rightarrow> bool" for B where
  transacting: "transaction B c c' \<Longrightarrow> operation B c c'"
| migrating: "operation B c (snd (network_migrate B H subnet force c))"
| rotating: "operation B c (snd (rotate_gateway_key B door force token c))"
| publishing: "operation B c (snd (publish_endpoints B sha c))"
| applying: "operation B c (snd (apply_now B sha c))"
| configuring: "operation B c (snd (config_publish B p c))"
| seeding: "operation B c (snd (commit_route_seed B sha door plan sources replace c))"
| pruning: "operation B c (snd (commit_route_prune B sha door confirmed c))"

inductive session :: "('r, 'e) serving \<Rightarrow> 'r ctl \<Rightarrow> 'r ctl \<Rightarrow> bool" for B c where
  opened: "session B c c"
| continued: "session B c c' \<Longrightarrow> operation B c' c'' \<Longrightarrow> session B c c''"

lemma operation_run: "operation B c c' \<Longrightarrow> ledger_ok (ct_store c) \<Longrightarrow> pub_reachable c c'"
  by (induction rule: operation.induct)
     (blast intro: transaction_run runs_reachable runs_network_migrate runs_rotate_gateway_key runs_publish_endpoints
        runs_apply_now runs_config_publish runs_route_seed runs_route_prune)+

lemma session_run: "session B c c' \<Longrightarrow> ledger_ok (ct_store c) \<Longrightarrow> pub_reachable c c'"
  by (induction rule: session.induct)
     (blast intro: pub_reachable.start pub_reachable_trans operation_run pub_reachable_ledger_ok)+

text \<open>
  C5. Every command is a run of the publication protocol. Whatever the backend answers or raises, each
  transaction and each operator command (migrating the addresses, rotating the master key, publishing
  endpoints or a profile, seeding or pruning routes, an explicit apply) proceeds only by the steps of
  the protocol: it records intent before it changes desired state, renders exactly the committed
  allocations, applies only that render and only on request, and removes the marker only right after a
  complete apply. The ledger stays well formed at every point, so a crash anywhere leaves a state of
  the protocol.
\<close>

theorem operation_refines_protocol:
  assumes "operation B c c'" and "ledger_ok (ct_store c)"
  shows "pub_reachable c c' \<and> ledger_ok (ct_store c')"
  using operation_run[OF assms] pub_reachable_ledger_ok assms(2) by blast

text \<open>
  C6. Nothing pending means everything applied. Starting from an empty ledger, at every point a session
  of transactions and commands can reach (their ends, and anywhere inside them that an exception or a
  crash stops them), the absence of a publication marker means that the last call to the backend
  was a complete apply of a render whose committed GPUs are exactly those the ledger holds now, or
  that nothing was ever allocated.
\<close>

theorem no_marker_means_applied:
  assumes "session B c c1" and "ct_store c = empty_store" and "ct_calls c = []"
    and "pub_reachable c1 c2" and "st_pending (ct_store c2) = None"
  shows "(\<exists>ds i rest. ct_calls c2 = Applied True # Converged ds i # rest \<and> set (pi_hard i) = committed (ct_store c2))
    \<or> ct_calls c2 = [] \<and> committed (ct_store c2) = {}"
proof -
  have "ledger_ok (ct_store c)" using assms(2) empty_ok(1) by simp
  then have "pub_reachable c c2" using session_run[OF assms(1)] pub_reachable_trans[OF assms(4)] by blast
  moreover have "up_to_date (ct_store c) (ct_calls c)"
    using assms(2,3) by (simp add: up_to_date_def committed_def allocation_def empty_store_def dep_at_def)
  ultimately have "up_to_date (ct_store c2) (ct_calls c2)" by (rule pub_reachable_up_to_date)
  then show ?thesis using assms(5) by (auto simp: up_to_date_def pending_def applied_now_def)
qed

section \<open>How a route change ends\<close>

abbreviation ready_to_publish :: "'r ctl \<Rightarrow> bool" where
  "ready_to_publish \<equiv> \<lambda>c. ledger_ok (ct_store c) \<and> requested (ct_store c)"

lemma ends_publish: "ends ready_to_publish (publish B) settled_after"
  unfolding ends_def
proof (intro allI impI)
  fix c :: "'a ctl" assume "ready_to_publish c"
  then show "case publish B c of (Inl e, c') \<Rightarrow> requested (ct_store c') | (Inr rec, c') \<Rightarrow> settled_after rec c'"
    using publish_settles[of c B] by (cases "publish B c") (force split: sum.split)
qed

lemma ends_quiet: "silent m \<Longrightarrow> ends ready_to_publish m (\<lambda>_. ready_to_publish)"
  by (rule ends_silent) simp_all

lemmas ends_quietly = ends_bind[OF ends_quiet]

lemma ends_store_catalogs: "ends ready_to_publish (store_catalogs B catalogs) (\<lambda>_. ready_to_publish)"
proof -
  have w: "ends ready_to_publish (act_ledger (\<lambda>_ st. (write_profile p st, ()))) (\<lambda>_. ready_to_publish)" for p
    by (rule ends_ledger) (simp add: ledger_ok_same[OF same_write_profile])
  have s: "ends ready_to_publish (if canonical p = q then act_ret ()
      else act_bind (act_ledger (\<lambda>_ st. (write_profile p st, ()))) (\<lambda>_.
         (\<lambda>c. (Inr (), c\<lparr>ct_runtime := sv_use_profile B p (ct_runtime c), ct_profile_error := False, ct_profile := Some p\<rparr>))))
      (\<lambda>_. ready_to_publish)" for p q
    by (rule ends_if, rule ends_quiet, simp, rule ends_bind[OF w], rule ends_quiet, rule silent_update, simp)
  have cases: "ends P (case stored of Some (JObj s) \<Rightarrow> k s | _ \<Rightarrow> m) q"
    if "\<And>s. ends P (k s) q" "ends P m q" for P m q stored and k :: "(string, json) dict \<Rightarrow> ('a, 'b, unit) act"
    using that by (auto split: option.split json.split)
  show ?thesis
    unfolding store_catalogs_def Let_def
    by (rule ends_quietly, simp, rule cases, rule s, rule ends_quiet, simp)
qed

lemma ends_seed_change: "ends ready_to_publish (seed_change B sha D plan sources) (\<lambda>_. ready_to_publish)"
  unfolding seed_change_def
  by (rule ends_quietly, simp, rule ends_quietly, simp, rule ends_quietly, simp, rule ends_bind[OF ends_store_catalogs],
      rule ends_quietly, simp, rule ends_quiet, simp)

lemma ends_prune_change: "ends ready_to_publish (prune_change B sha D confirmed) (\<lambda>_. ready_to_publish)"
  unfolding prune_change_def Let_def
  by (rule ends_quietly, simp, rule ends_if, rule ends_quiet, simp, rule ends_quietly, simp, rule ends_quietly, simp,
      rule ends_bind[OF ends_store_catalogs], rule ends_quiet, simp)

lemma act_bind_Inr: "act_bind m k c = (Inr y, c') \<longleftrightarrow> (\<exists>x c1. m c = (Inr x, c1) \<and> k x c1 = (Inr y, c'))"
  by (auto simp: act_bind_def split: prod.split sum.split)

lemma act_bind_Inl: "act_bind m k c = (Inl e, c') \<longleftrightarrow> m c = (Inl e, c') \<or> (\<exists>x c1. m c = (Inr x, c1) \<and> k x c1 = (Inl e, c'))"
  by (auto simp: act_bind_def split: prod.split sum.split)

lemma publish_change_outcome:
  assumes "silent pre" and "ends ready_to_publish change (\<lambda>_. ready_to_publish)" and "ledger_ok (ct_store c)"
    and r: "publish_change B pre change c = (v, c')"
  shows "case v of Inl e \<Rightarrow> (ct_store c' = ct_store c \<and> ct_calls c' = ct_calls c) \<or> requested (ct_store c')
    | Inr (x, rec) \<Rightarrow> settled_after rec c'"
proof -
  obtain u c1 where p: "pre c = (u, c1)" by fastforce
  have same: "ct_store c1 = ct_store c" "ct_calls c1 = ct_calls c" using assms(1) p unfolding silent_def by (metis snd_conv)+
  obtain u2 c2 where m: "mark_pending B True c1 = (u2, c2)" by fastforce
  have e: "ends ready_to_publish (act_bind change (\<lambda>x. act_bind (publish B) (\<lambda>rec. act_ret (x, rec)))) (\<lambda>(x, rec). settled_after rec)"
    by (rule ends_bind[OF assms(2)], rule ends_bind[OF ends_publish], rule ends_ret) simp
  show ?thesis
  proof (cases u)
    case (Inl e)
    then show ?thesis using r p same by (auto simp: publish_change_def act_bind_def)
  next
    case ok: (Inr _)
    show ?thesis
    proof (cases u2)
      case (Inl e)
      then show ?thesis using r p ok m same mark_raised[of B True c1 e] by (auto simp: publish_change_def act_bind_def)
    next
      case (Inr z)
      have "ready_to_publish c2"
        using runsD(2)[OF runs_mark_pending, of c1 B True] mark_ct(2)[of B True c1 z] m Inr same assms(3) by simp
      moreover have "act_bind change (\<lambda>x. act_bind (publish B) (\<lambda>rec. act_ret (x, rec))) c2 = (v, c')"
        using r p ok m Inr by (simp add: publish_change_def act_bind_def)
      ultimately show ?thesis using endsD[OF e, of c2] by (auto split: sum.splits)
    qed
  qed
qed

lemma act_lift_Inr: "act_lift f c = (Inr x, c') \<longleftrightarrow> f c = Inr x \<and> c' = c"
  by (auto simp: act_lift_def)

lemma conflict_check_Inr: "conflict_check shown replace now c = (Inr u, c') \<Longrightarrow>
    rp_conflicted now = [] \<or> replace \<and> moved_conflicts shown now = []"
  by (auto simp: conflict_check_def act_refuse_def act_raise_def split: if_splits)



section \<open>A gateway with one remembered route\<close>

definition demo_door :: "nat door" where
  "demo_door = \<lparr>dr_registry = (\<lambda>_. JObj [(''version'', JInt 1), (''entries'', JObj [(''a'',
       JObj [(''engine'', JStr ''upstream''), (''api_base'', JStr ''u'')])])]),
     dr_write_registry = (\<lambda>_ r. r), dr_env = (\<lambda>_. None), dr_write_env = (\<lambda>_ r. r), dr_catalog_routes = (\<lambda>_. [])\<rparr>"

definition demo_shown :: route_plan where
  "demo_shown = (case published_meanings demo_serving (\<lambda>s. s) demo_door (demo_ctl empty_store) of
     Inr m \<Rightarrow> plan_seed m [(''a'', \<lparr>me_route = None, me_key = Some ''k''\<rparr>)] | Inl _ \<Rightarrow> plan_seed [] [])"

definition demo_seeded :: "(string ctl_error + route_plan \<times> reconcile_result) \<times> nat ctl" where
  "demo_seeded = commit_route_seed demo_serving (\<lambda>s. s) (Some demo_door) demo_shown [] True (demo_ctl empty_store)"

definition demo_pruned :: "(string ctl_error + string list \<times> reconcile_result) \<times> nat ctl" where
  "demo_pruned = commit_route_prune demo_serving (\<lambda>s. s) (Some demo_door) [''a'', ''b''] (demo_ctl empty_store)"

lemma demo_seeded_finished: "case fst demo_seeded of Inr (p, rec) \<Rightarrow> \<not> rc_pending rec \<and> dkeys (rp_conflicted p) = [''a''] | _ \<Rightarrow> False"
  by code_simp

lemma demo_pruned_finished: "case fst demo_pruned of Inr (gone, rec) \<Rightarrow> \<not> rc_pending rec \<and> gone = [''a''] | _ \<Rightarrow> False"
  by code_simp

theorem operation_refines_protocol_witness: "ledger_ok (ct_store (snd demo_seeded))"
  using operation_refines_protocol[OF operation.seeding[of demo_serving "demo_ctl empty_store" "\<lambda>s. s" "Some demo_door" demo_shown "[]" True]]
    empty_ok(1) by (simp add: demo_seeded_def)

theorem no_marker_means_applied_witness:
  "\<exists>ds i rest. ct_calls (snd demo_pruned) = Applied True # Converged ds i # rest
     \<and> set (pi_hard i) = committed (ct_store (snd demo_pruned))"
proof -
  have h: "session demo_serving (demo_ctl empty_store) (snd demo_pruned)"
    unfolding demo_pruned_def by (rule session.continued[OF session.opened operation.pruning])
  have "st_pending (ct_store (snd demo_pruned)) = None" "ct_calls (snd demo_pruned) \<noteq> []" by code_simp+
  then show ?thesis
    using no_marker_means_applied[OF h _ _ pub_reachable.start] by simp
qed



end
