(* ===== verification/InProcess.thy ===== *)
theory InProcess
  imports
  Operations
  Diagnosis
begin

text \<open>
  The in-process backends (\<open>SimpleAdmission\<close>, \<open>MemoryBackend\<close>, \<open>NullBackend\<close> of \<open>leasing/backend.py\<close>): no
  GPUs, no containers; an apply realizes what the last converge recorded and tears down the rest.
  \<open>simple\<close> holds what \<open>SimpleAdmission\<close> keeps, \<open>si_state\<close> what its subclass keeps; the subclass's
  primitives are a \<open>realizer\<close>. \<open>memory_serving\<close> is the backend as the controller calls it: its runs
  are runs of the publication protocol, and a complete publication realizes every LIVE deployment.
\<close>

section \<open>A backend over three primitives\<close>

record 's realizer =
  rz_realize :: "deployment \<Rightarrow> 's \<Rightarrow> 's"
  rz_teardown :: "deployment \<Rightarrow> 's \<Rightarrow> 's"
  rz_observe :: "'s \<Rightarrow> string list"
  rz_probe :: "deployment \<Rightarrow> string \<Rightarrow> 's \<Rightarrow> readiness"

record 's simple =
  si_state :: 's
  si_rendered :: "(string, deployment) dict"
  si_known :: "(string, deployment) dict"
  si_unplaced :: "string list"
  si_errors :: "string list"
  si_assignments :: "(string, int list) dict"
  si_digest :: "string option"

definition simple_plan :: "deployment list \<Rightarrow> gpu_plan" where
  "simple_plan desired = empty_plan\<lparr>gp_assignments := fold (\<lambda>d. dput (dep_id d) []) desired []\<rparr>"

definition simple_refuse :: "deployment list \<Rightarrow> (string, string) dict" where
  "simple_refuse desired = []"

definition simple_render :: "deployment list \<Rightarrow> gpu_plan \<times> rendered" where
  "simple_render desired = (simple_plan desired,
     \<lparr>rn_unrenderable = dkeys (simple_refuse desired),
      rn_errors = map (\<lambda>(g, why). g @ '': '' @ why) (simple_refuse desired)\<rparr>)"

text \<open>\<open>repr\<close> of the sorted list of (id, gpus) pairs.\<close>

definition simple_digest :: "(json \<Rightarrow> string) \<Rightarrow> gpu_plan \<Rightarrow> rendered \<Rightarrow> string" where
  "simple_digest repr plan rendered = ''['' @ join '', ''
     (map (\<lambda>(g, gpus). ''('' @ repr (JStr g) @ '', '' @ repr (JList (map JInt gpus)) @ '')'')
       (sort (filter (\<lambda>(g, gpus). g \<notin> set (rn_unrenderable rendered)) (gp_assignments plan)))) @ '']''"

definition simple_preview ::
    "(json \<Rightarrow> string) \<Rightarrow> 's simple \<Rightarrow> bool \<Rightarrow> deployment list \<Rightarrow> placement_inputs \<Rightarrow> unit + (gpu_plan \<times> rendered \<times> string option)" where
  "simple_preview repr b approve desired i = (case simple_render desired of (plan, rendered) \<Rightarrow>
     Inr (plan, rendered, Some (simple_digest repr plan rendered)))"

definition simple_unplaced :: "deployment list \<Rightarrow> string list" where
  "simple_unplaced desired = (case simple_render desired of (plan, rendered) \<Rightarrow>
     filter (\<lambda>g. dget (gp_assignments plan) g = None \<or> g \<in> set (rn_unrenderable rendered)) (map dep_id desired))"

definition index_by_id :: "deployment list \<Rightarrow> (string, deployment) dict \<Rightarrow> (string, deployment) dict" where
  "index_by_id ds = fold (\<lambda>d. dput (dep_id d) d) ds"

definition simple_converge ::
    "(json \<Rightarrow> string) \<Rightarrow> deployment list \<Rightarrow> placement_inputs \<Rightarrow> 's simple \<Rightarrow> (unit + (string \<times> string) list) \<times> 's simple" where
  "simple_converge repr desired i b = (case simple_render desired of (plan, rendered) \<Rightarrow>
     (Inr [], b\<lparr>si_digest := Some (simple_digest repr plan rendered), si_errors := rn_errors rendered,
        si_unplaced := simple_unplaced desired, si_assignments := [],
        si_rendered := index_by_id (filter (\<lambda>d. dep_id d \<notin> set (simple_unplaced desired)) desired) [],
        si_known := index_by_id desired (si_known b)\<rparr>))"

definition over_state :: "('s \<Rightarrow> 's) \<Rightarrow> 's simple \<Rightarrow> 's simple" where
  "over_state f b = b\<lparr>si_state := f (si_state b)\<rparr>"

definition tear_down_rest :: "'s realizer \<Rightarrow> 's simple \<Rightarrow> 's simple" where
  "tear_down_rest R b = fold (\<lambda>g b. case dget (si_known b) g of None \<Rightarrow> b | Some d \<Rightarrow> over_state (rz_teardown R d) b)
     (sort (remdups (filter (\<lambda>g. g \<notin> set (dkeys (si_rendered b))) (rz_observe R (si_state b))))) b"

definition realize_rendered :: "'s realizer \<Rightarrow> 's simple \<Rightarrow> 's simple" where
  "realize_rendered R b = fold (\<lambda>(g, d) b. if g \<in> set (rz_observe R (si_state b)) then b
     else over_state (rz_realize R d) b) (si_rendered b) b"

definition simple_apply :: "'s realizer \<Rightarrow> 's simple \<Rightarrow> (unit + apply_value) \<times> 's simple" where
  "simple_apply R b = (Inr ApplyNone, realize_rendered R (tear_down_rest R b))"

definition in_process_container :: "string \<Rightarrow> container" where
  "in_process_container gid = \<lparr>c_id = gid, c_deployment = gid, c_state = ''running'', c_gpus = [], c_all_gpus = False,
     c_service = [], c_fingerprint = [], c_labelled = True, c_ips = [], c_health = [], c_restart_count = 0,
     c_exit_code = None, c_restart_policy = [], c_restart_max = 0, c_reason = [], c_message = [], c_started = [], c_ports = []\<rparr>"

definition simple_residency :: "'s realizer \<Rightarrow> 's simple \<Rightarrow> unit + residency" where
  "simple_residency R b = Inr \<lparr>r_by_deployment = map (\<lambda>g. (g, [in_process_container g]))
       (sort (remdups (rz_observe R (si_state b)))), r_others = [], r_replicated = False\<rparr>"

definition simple_instances :: "'s realizer \<Rightarrow> 's simple \<Rightarrow> unit_row list" where
  "simple_instances R b = (case simple_residency R b of Inl _ \<Rightarrow> [] | Inr res \<Rightarrow> from_residency res ''memory'' [] [])"

definition simple_serving :: "(json \<Rightarrow> string) \<Rightarrow> (string \<Rightarrow> bool) \<Rightarrow> 's realizer \<Rightarrow> ('s simple, unit) serving" where
  "simple_serving repr valid_url R = \<lparr>sv_allocates = False, sv_reclaim = KEEP_WARM, sv_host = False, sv_render_profile = None,
     sv_use_profile = (\<lambda>_ b. b), sv_repr = repr, sv_valid_url = valid_url, sv_validate = (\<lambda>_ _. None),
     sv_configure_network = (\<lambda>_ b. b), sv_set_adopted = (\<lambda>_ b. b), sv_rendered_services = (\<lambda>_. []),
     sv_residency = simple_residency R, sv_observe = (\<lambda>b. Inr (rz_observe R (si_state b))),
     sv_preview = simple_preview repr, sv_converge = simple_converge repr,
     sv_report = (\<lambda>b. \<lparr>rr_unplaced = si_unplaced b, rr_errors = si_errors b, rr_assignments = si_assignments b,
        rr_displaced = [], rr_degraded = []\<rparr>),
     sv_digest = si_digest, sv_settle_snapshot = (\<lambda>_. Inr None), sv_passes = (\<lambda>_ b. b), sv_apply = simple_apply R,
     sv_idle_plan = (\<lambda>ds _. Inr (gp_assignments (simple_plan ds), [])),
     sv_probe = (\<lambda>d ep b. Inr (rz_probe R d ep (si_state b))),
     sv_reclaim_candidates = (\<lambda>d idle _. Inr (map dep_id idle)),
     sv_apply_aborted = (\<lambda>_. False), sv_converge_aborted = (\<lambda>_. False)\<rparr>"

section \<open>In memory\<close>

datatype override_key = ForDeployment string | ForEndpoint string string

record memory =
  me_ready_default :: bool
  me_realized :: "(string, deployment) dict"
  me_overrides :: "(override_key, bool) dict"
  me_realize_calls :: "string list"
  me_teardown_calls :: "string list"

definition memory_init :: "bool \<Rightarrow> memory" where
  "memory_init ready = \<lparr>me_ready_default = ready, me_realized = [], me_overrides = [], me_realize_calls = [], me_teardown_calls = []\<rparr>"

definition memory_realize :: "deployment \<Rightarrow> memory \<Rightarrow> memory" where
  "memory_realize d m = m\<lparr>me_realized := dput (dep_id d) d (me_realized m), me_realize_calls := me_realize_calls m @ [dep_id d]\<rparr>"

definition memory_teardown :: "deployment \<Rightarrow> memory \<Rightarrow> memory" where
  "memory_teardown d m = m\<lparr>me_realized := filter (\<lambda>(g, x). g \<noteq> dep_id d) (me_realized m),
     me_teardown_calls := me_teardown_calls m @ [dep_id d]\<rparr>"

definition memory_observe :: "memory \<Rightarrow> string list" where
  "memory_observe m = dkeys (me_realized m)"

definition memory_probe :: "deployment \<Rightarrow> string \<Rightarrow> memory \<Rightarrow> readiness" where
  "memory_probe d ep m =
     (if dep_id d \<notin> set (dkeys (me_realized m)) then \<lparr>rd_ready = False, rd_detail = ''not realized'', rd_fatal = False, rd_needs_room = False\<rparr>
      else let ready = (case dget (me_overrides m) (ForEndpoint (dep_id d) ep) of Some r \<Rightarrow> r
             | None \<Rightarrow> (case dget (me_overrides m) (ForDeployment (dep_id d)) of Some r \<Rightarrow> r | None \<Rightarrow> me_ready_default m))
        in \<lparr>rd_ready = ready, rd_detail = (if ready then ''ok'' else ''warming up''), rd_fatal = False, rd_needs_room = False\<rparr>)"

definition set_ready :: "bool \<Rightarrow> string option \<Rightarrow> string option \<Rightarrow> memory \<Rightarrow> memory" where
  "set_ready ready gid ep m = (case gid of None \<Rightarrow> m\<lparr>me_ready_default := ready\<rparr>
     | Some g \<Rightarrow> m\<lparr>me_overrides := dput (case ep of None \<Rightarrow> ForDeployment g | Some e \<Rightarrow> ForEndpoint g e) ready (me_overrides m)\<rparr>)"

definition memory_backend :: "memory realizer" where
  "memory_backend = \<lparr>rz_realize = memory_realize, rz_teardown = memory_teardown, rz_observe = memory_observe, rz_probe = memory_probe\<rparr>"

section \<open>Nothing at all\<close>

definition null_backend :: "unit realizer" where
  "null_backend = \<lparr>rz_realize = (\<lambda>_ s. s), rz_teardown = (\<lambda>_ s. s), rz_observe = (\<lambda>_. []),
     rz_probe = (\<lambda>_ _ _. \<lparr>rd_ready = True, rd_detail = ''dry-run'', rd_fatal = False, rd_needs_room = False\<rparr>)\<rparr>"

definition simple_start :: "'s \<Rightarrow> 's simple" where
  "simple_start s = \<lparr>si_state = s, si_rendered = [], si_known = [], si_unplaced = [], si_errors = [], si_assignments = [], si_digest = None\<rparr>"

section \<open>What an apply leaves\<close>

definition keyed :: "(string, deployment) dict \<Rightarrow> bool" where
  "keyed t \<longleftrightarrow> (\<forall>(g, d) \<in> set t. dep_id d = g)"

lemma keyed_dput: "keyed t \<Longrightarrow> keyed (dput (dep_id d) d t)"
proof (induction t)
  case (Cons p t)
  then show ?case by (cases p) (auto simp: keyed_def dput_def)
qed (simp add: keyed_def dput_def)

lemma keyed_index: "keyed t \<Longrightarrow> keyed (index_by_id ds t)"
  unfolding index_by_id_def by (induction ds arbitrary: t) (auto intro: keyed_dput)

lemma keys_index: "set (dkeys (index_by_id ds t)) = dep_id ` set ds \<union> set (dkeys t)"
  unfolding index_by_id_def by (induction ds arbitrary: t) auto

lemma keyed_get: "keyed t \<Longrightarrow> dget t g = Some d \<Longrightarrow> dep_id d = g"
  by (auto simp: keyed_def dest: dget_SomeD)

text \<open>What runs was announced, as was what was rendered: the in-process backend's own invariant.\<close>

definition well_kept :: "'s realizer \<Rightarrow> 's simple \<Rightarrow> bool" where
  "well_kept R b \<longleftrightarrow> keyed (si_known b) \<and> keyed (si_rendered b) \<and> set (rz_observe R (si_state b)) \<subseteq> set (dkeys (si_known b))
     \<and> set (dkeys (si_rendered b)) \<subseteq> set (dkeys (si_known b))"

text \<open>What the controller relies on: realizing and tearing down change what is observed by that deployment.\<close>

locale realizing =
  fixes R :: "'s realizer"
  assumes observe_realize: "set (rz_observe R (rz_realize R d s)) = insert (dep_id d) (set (rz_observe R s))"
    and observe_teardown: "set (rz_observe R (rz_teardown R d s)) = set (rz_observe R s) - {dep_id d}"
begin

abbreviation observed :: "'s simple \<Rightarrow> string set" where
  "observed b \<equiv> set (rz_observe R (si_state b))"

lemma over_state_simps [simp]:
  "si_known (over_state f b) = si_known b" "si_rendered (over_state f b) = si_rendered b"
  "si_state (over_state f b) = f (si_state b)" "si_digest (over_state f b) = si_digest b"
  by (simp_all add: over_state_def)

lemma torn_down:
  assumes "keyed (si_known b)" "set gs \<subseteq> set (dkeys (si_known b))"
  shows "observed (fold (\<lambda>g b. case dget (si_known b) g of None \<Rightarrow> b | Some d \<Rightarrow> over_state (rz_teardown R d) b) gs b)
      = observed b - set gs
    \<and> si_known (fold (\<lambda>g b. case dget (si_known b) g of None \<Rightarrow> b | Some d \<Rightarrow> over_state (rz_teardown R d) b) gs b) = si_known b
    \<and> si_rendered (fold (\<lambda>g b. case dget (si_known b) g of None \<Rightarrow> b | Some d \<Rightarrow> over_state (rz_teardown R d) b) gs b) = si_rendered b"
  using assms
proof (induction gs arbitrary: b)
  case (Cons g gs)
  obtain d where d: "dget (si_known b) g = Some d" using Cons.prems(2) in_dkeysE[of g "si_known b"] by auto
  then have "dep_id d = g" using keyed_get[OF Cons.prems(1)] by blast
  then show ?case using Cons.IH[of "over_state (rz_teardown R d) b"] Cons.prems d by (auto simp: observe_teardown)
qed simp

lemma realized:
  assumes "keyed t"
  shows "observed (fold (\<lambda>(g, d) b. if g \<in> observed b then b else over_state (rz_realize R d) b) t b) = observed b \<union> set (dkeys t)
    \<and> si_known (fold (\<lambda>(g, d) b. if g \<in> observed b then b else over_state (rz_realize R d) b) t b) = si_known b
    \<and> si_rendered (fold (\<lambda>(g, d) b. if g \<in> observed b then b else over_state (rz_realize R d) b) t b) = si_rendered b"
  using assms
proof (induction t arbitrary: b)
  case (Cons p t)
  obtain g d where p: "p = (g, d)" by (cases p)
  have g: "dep_id d = g" and t: "keyed t" using Cons.prems by (simp_all add: keyed_def p)
  show ?case
  proof (cases "g \<in> observed b")
    case True
    then show ?thesis using Cons.IH[OF t, of b] by (auto simp: p dkeys_def)
  next
    case False
    then show ?thesis using Cons.IH[OF t, of "over_state (rz_realize R d) b"] by (auto simp: p g dkeys_def observe_realize)
  qed
qed (simp add: dkeys_def)

text \<open>After an apply exactly what was rendered runs.\<close>

lemma apply_exact:
  assumes "well_kept R b"
  shows "observed (snd (simple_apply R b)) = set (dkeys (si_rendered b))"
    and "well_kept R (snd (simple_apply R b))" and "si_rendered (snd (simple_apply R b)) = si_rendered b"
proof -
  let ?b = "tear_down_rest R b"
  have t: "observed ?b = observed b \<inter> set (dkeys (si_rendered b))" "si_known ?b = si_known b" "si_rendered ?b = si_rendered b"
    using torn_down[of b "sort (remdups (filter (\<lambda>g. g \<notin> set (dkeys (si_rendered b))) (rz_observe R (si_state b))))"] assms
    by (auto simp: tear_down_rest_def well_kept_def)
  have r: "observed (realize_rendered R ?b) = set (dkeys (si_rendered b))" "si_known (realize_rendered R ?b) = si_known b"
    "si_rendered (realize_rendered R ?b) = si_rendered b"
    using realized[of "si_rendered ?b" ?b] assms t by (auto simp: realize_rendered_def well_kept_def)
  then show "observed (snd (simple_apply R b)) = set (dkeys (si_rendered b))"
    "well_kept R (snd (simple_apply R b))" "si_rendered (snd (simple_apply R b)) = si_rendered b"
    using assms by (auto simp: simple_apply_def well_kept_def)
qed

lemma planned_all: "g \<in> dep_id ` set desired \<longleftrightarrow> dget (gp_assignments (simple_plan desired)) g \<noteq> None"
proof -
  have "dget (fold (\<lambda>d. dput (dep_id d) []) ds t) g \<noteq> None \<longleftrightarrow> g \<in> dep_id ` set ds \<or> dget t g \<noteq> None" for ds and t :: "(string, int list) dict"
    by (induction ds arbitrary: t) auto
  from this[of desired "[]"] show ?thesis by (simp add: simple_plan_def)
qed

lemma unplaced_none: "simple_unplaced desired = []"
  using planned_all by (fastforce simp: simple_unplaced_def simple_render_def simple_refuse_def filter_empty_conv)

lemma converge_exact:
  assumes "well_kept R b"
  shows "fst (simple_converge repr desired i b) = Inr []"
    "set (dkeys (si_rendered (snd (simple_converge repr desired i b)))) = dep_id ` set desired"
    "well_kept R (snd (simple_converge repr desired i b))"
proof -
  have "si_rendered (snd (simple_converge repr desired i b)) = index_by_id desired []"
    "si_known (snd (simple_converge repr desired i b)) = index_by_id desired (si_known b)"
    "si_state (snd (simple_converge repr desired i b)) = si_state b"
    by (simp_all add: simple_converge_def simple_render_def unplaced_none)
  then show "set (dkeys (si_rendered (snd (simple_converge repr desired i b)))) = dep_id ` set desired"
    "well_kept R (snd (simple_converge repr desired i b))"
    using assms keyed_index[of "si_known b" desired] keyed_index[of "[]" desired]
    by (auto simp: well_kept_def keys_index) (auto simp: keyed_def)
  show "fst (simple_converge repr desired i b) = Inr []" by (simp add: simple_converge_def simple_render_def)
qed

lemma start_kept: "rz_observe R s = [] \<Longrightarrow> well_kept R (simple_start s)"
  by (simp add: well_kept_def simple_start_def keyed_def)

end

interpretation mem: realizing memory_backend
  by unfold_locales (auto simp: memory_backend_def memory_observe_def memory_realize_def memory_teardown_def dkeys_filter)

section \<open>Partial correctness of a statement\<close>

text \<open>\<open>gives p m q\<close>: from a well-formed ledger and \<open>p\<close>, if \<open>m\<close> returns, the ledger is well formed and \<open>q\<close> holds.\<close>

definition gives :: "('r ctl \<Rightarrow> bool) \<Rightarrow> ('r, 'e, 'a) act \<Rightarrow> ('a \<Rightarrow> 'r ctl \<Rightarrow> bool) \<Rightarrow> bool" where
  "gives p m q \<longleftrightarrow> (\<forall>c x c'. ledger_ok (ct_store c) \<and> p c \<and> m c = (Inr x, c') \<longrightarrow> ledger_ok (ct_store c') \<and> q x c')"

lemma gives_bind:
  fixes m :: "('r, 'e, 'a) act"
  shows "gives p m r \<Longrightarrow> (\<And>x. gives (r x) (k x) q) \<Longrightarrow> gives p (act_bind m k) q"
  unfolding gives_def act_bind_Inr by blast

lemma gives_ret: "(\<And>c. p c \<Longrightarrow> q x c) \<Longrightarrow> gives p (act_ret x) q"
  by (auto simp: gives_def act_ret_def)

lemma gives_raise: "gives p (act_raise e) q"
  by (simp add: gives_def act_raise_def)

lemma gives_if: "(b \<Longrightarrow> gives p m q) \<Longrightarrow> (\<not> b \<Longrightarrow> gives p m' q) \<Longrightarrow> gives p (if b then m else m') q"
  by simp

lemma gives_get: "(\<And>c. ledger_ok (ct_store c) \<Longrightarrow> p c \<Longrightarrow> q (f c) c) \<Longrightarrow> gives p (act_get f) q"
  by (auto simp: gives_def act_get_def)

lemma gives_lift: "(\<And>c x. f c = Inr x \<Longrightarrow> p c \<Longrightarrow> q x c) \<Longrightarrow> gives p (act_lift f) q"
  by (auto simp: gives_def act_lift_def)

lemma gives_conseq: "gives p m q \<Longrightarrow> (\<And>c. p' c \<Longrightarrow> p c) \<Longrightarrow> (\<And>x c. q x c \<Longrightarrow> q' x c) \<Longrightarrow> gives p' m q'"
  unfolding gives_def by blast

text \<open>A statement of the ledger keeps what is said of the runtime, and what the tables decide if it keeps them.\<close>

lemma gives_ledger:
  assumes "runs r (act_ledger f :: ('r, 'e, 'a) act) q" and "\<And>c. p c \<Longrightarrow> r (ct_store c) (ct_calls c)"
  shows "gives (\<lambda>c. p c \<and> P (ct_runtime c)) (act_ledger f :: ('r, 'e, 'a) act) (\<lambda>x c. q x (ct_store c) (ct_calls c) \<and> P (ct_runtime c))"
  unfolding gives_def
proof (intro allI impI)
  fix c :: "'r ctl" and x c'
  assume a: "ledger_ok (ct_store c) \<and> (p c \<and> P (ct_runtime c)) \<and> (act_ledger f :: ('r, 'e, 'a) act) c = (Inr x, c')"
  then have "ct_runtime c' = ct_runtime c" by (auto simp: act_ledger_def split: prod.splits)
  moreover have "ledger_ok (ct_store c')" "q x (ct_store c') (ct_calls c')"
    using runsD(2,3)[OF assms(1), of c] a assms(2)[of c] by auto
  ultimately show "ledger_ok (ct_store c') \<and> q x (ct_store c') (ct_calls c') \<and> P (ct_runtime c')" using a by simp
qed

section \<open>What the controller has the backend run\<close>

text \<open>\<open>serves st D\<close>: \<open>D\<close> has every deployment with committed GPUs, and beyond them only idle ones kept warm.\<close>

definition serves :: "store \<Rightarrow> string set \<Rightarrow> bool" where
  "serves st D \<longleftrightarrow> fst ` committed st \<subseteq> D \<and>
     (\<forall>g \<in> D. g \<in> fst ` committed st \<or> (\<exists>d. dep_at st g = Some d \<and> dep_state d = Idle \<and> keeps_up KEEP_WARM d))"

lemma serves_same_tables: "same_tables st st' \<Longrightarrow> serves st' D = serves st D"
proof -
  assume t: "same_tables st st'"
  then have "dep_at st' = dep_at st" by (auto simp: same_tables_def dep_at_def)
  then show ?thesis using committed_same_tables[OF t] by (simp add: serves_def)
qed

lemma view_serves:
  assumes ok: "ledger_ok st"
  shows "serves st (dep_id ` set (fst (admission_view KEEP_WARM False now st res None)))"
proof -
  let ?b = "by_id (snd (status False now st)) None"
  have d: "distinct (dep_ids st)" and a: "alloc_ok st" using ok by (simp_all add: ledger_ok_def refs_ok_def)
  have g: "dget ?b g = map_option (\<lambda>d. d\<lparr>dep_demand := demand st g now\<rparr>) (dep_at st g)" for g
    using by_id_dget[OF status_find(2)[OF d], of None now g] status_find(1)[OF d] by simp
  have m: "(g, e) \<in> set ?b \<longleftrightarrow> dget ?b g = Some e" for g e
    using dget_distinct[OF by_id_distinct] dget_SomeD by fastforce
  have id: "dep_id e = k" if "(k, e) \<in> set ?b" for k e
    using that unfolding m g by (auto dest: dep_at_id)
  have eq: "fst (admission_view KEEP_WARM False now st res None)
      = map snd (filter (required_of []) ?b) @ map snd (filter (optional_of KEEP_WARM res) ?b)"
    by (simp add: admission_view_def Let_def view_fold empty_view_def)
  have D: "k \<in> dep_id ` set (fst (admission_view KEEP_WARM False now st res None)) \<longleftrightarrow>
      (\<exists>e. dget ?b k = Some e \<and> (required_of [] (k, e) \<or> optional_of KEEP_WARM res (k, e)))" for k
    unfolding eq using id by (force simp: image_iff m[symmetric])
  have c: "k \<in> fst ` committed st \<longleftrightarrow> (\<exists>d. dep_at st k = Some d \<and> dep_assigned_gpus d \<noteq> None)" for k
    by (cases "dep_at st k") (auto simp: committed_def allocation_def image_iff)
  have live: "dep_at st k = Some d \<Longrightarrow> dep_assigned_gpus d \<noteq> None \<Longrightarrow> dep_state d = Live" for k d
    using a by (auto simp: alloc_ok_def)
  have keep: "keeps_up KEEP_WARM (d\<lparr>dep_demand := n\<rparr>) = keeps_up KEEP_WARM d" for d n by (simp add: keeps_up_def)
  show ?thesis
    unfolding serves_def
  proof (intro conjI subsetI ballI)
    fix k assume "k \<in> fst ` committed st"
    then show "k \<in> dep_id ` set (fst (admission_view KEEP_WARM False now st res None))"
      unfolding c D g using live by (auto simp: required_of_def)
  next
    fix k assume "k \<in> dep_id ` set (fst (admission_view KEEP_WARM False now st res None))"
    then show "k \<in> fst ` committed st \<or> (\<exists>d. dep_at st k = Some d \<and> dep_state d = Idle \<and> keeps_up KEEP_WARM d)"
      unfolding c D g by (auto simp: required_of_def optional_of_def keep)
  qed
qed

section \<open>From the render to the apply\<close>

lemma gives_facts:
  assumes "\<And>t st. same_tables st (fst (f t st)) \<and> st_addresses (fst (f t st)) = st_addresses st"
  shows "gives (\<lambda>c. serves (ct_store c) D \<and> Q (ct_runtime c)) (act_ledger f) (\<lambda>_ c. serves (ct_store c) D \<and> Q (ct_runtime c))"
proof -
  have "ledger_ok (fst (f t st)) = ledger_ok st" "serves (fst (f t st)) D = serves st D" for t st
    using assms[of st t] ledger_ok_same serves_same_tables by blast+
  then show ?thesis by (auto simp: gives_def act_ledger_def split: prod.splits) (metis fst_conv)+
qed

lemma gives_digests:
  "gives (\<lambda>c. serves (ct_store c) D \<and> Q (ct_runtime c)) (act_ledger (\<lambda>_ st. (set_approved_digest h st, ()))) (\<lambda>_ c. serves (ct_store c) D \<and> Q (ct_runtime c))"
  "gives (\<lambda>c. serves (ct_store c) D \<and> Q (ct_runtime c)) (act_ledger (\<lambda>_ st. (clear_approved_digest st, ()))) (\<lambda>_ c. serves (ct_store c) D \<and> Q (ct_runtime c))"
  "gives (\<lambda>c. serves (ct_store c) D \<and> Q (ct_runtime c)) (act_ledger (\<lambda>_. clear_publication_pending v)) (\<lambda>_ c. serves (ct_store c) D \<and> Q (ct_runtime c))"
  by (rule gives_facts, simp add: marker_frame, rule gives_facts, simp add: clear_approved_digest_def marker_frame,
      rule gives_facts) (simp add: clear_publication_pending_def same_tables_def split: option.split)


lemma gives_ex: "(\<And>D. gives (p D) m q) \<Longrightarrow> gives (\<lambda>c. \<exists>D. p D c) m q"
  unfolding gives_def by blast

lemma gives_catch:
  "gives p m q \<Longrightarrow> (\<And>e c x c'. h e c \<noteq> (Inr x, c')) \<Longrightarrow> gives p (act_catch m h) q"
  by (auto simp: gives_def act_catch_def split: prod.splits sum.splits)

context realizing
begin

abbreviation serving :: "(json \<Rightarrow> string) \<Rightarrow> (string \<Rightarrow> bool) \<Rightarrow> ('s simple, unit) serving" where
  "serving repr valid_url \<equiv> simple_serving repr valid_url R"

abbreviation ready :: "string set \<Rightarrow> 's simple ctl \<Rightarrow> bool" where
  "ready D \<equiv> \<lambda>c. serves (ct_store c) D \<and> (well_kept R (ct_runtime c) \<and> set (dkeys (si_rendered (ct_runtime c))) = D)"

abbreviation running :: "string set \<Rightarrow> 's simple ctl \<Rightarrow> bool" where
  "running D \<equiv> \<lambda>c. serves (ct_store c) D \<and> (well_kept R (ct_runtime c) \<and> observed (ct_runtime c) = D)"

lemma serving_simps:
  "sv_host (serving repr v) = False" "sv_render_profile (serving repr v) = None" "sv_reclaim (serving repr v) = KEEP_WARM"
  "sv_settle_snapshot (serving repr v) = (\<lambda>_. Inr None)" "sv_apply (serving repr v) = simple_apply R"
  "sv_converge (serving repr v) = simple_converge repr"
  by (simp_all add: simple_serving_def)

lemma gives_observe: "gives p (observe (serving repr v)) (\<lambda>_. p)"
  unfolding observe_def by (rule gives_lift)

lemma gives_check: "gives (ready D) (check_approval (serving repr v) m) (\<lambda>_. ready D)"
  unfolding check_approval_def
  by (rule gives_bind[where r = "\<lambda>_. ready D"], rule gives_get, assumption)
     (auto intro!: gives_ret gives_raise gives_bind[where r = "\<lambda>_. ready D"] gives_digests(1) split: option.split)

lemma gives_call: "gives (ready D) (act_catch (call_apply (serving repr v)) (apply_raised (serving repr v)))
    (\<lambda>outcome. running D)"
proof (rule gives_catch)
  show "gives (ready D) (call_apply (serving repr v)) (\<lambda>outcome. running D)"
    using apply_exact by (auto simp: gives_def call_apply_def serving_simps simple_apply_def split: prod.splits)
  show "apply_raised (serving repr v) e c \<noteq> (Inr x, c')" for e c x c'
    by (simp add: apply_raised_def act_bind_Inr act_raise_def)
qed

lemma gives_apply_marked: "gives (ready D) (apply_marked (serving repr v) m rec) (\<lambda>_. running D)"
proof -
  have w: "gives (ready D) (if b then wait_for_settled_runtime (serving repr v) else act_ret ()) (\<lambda>_. ready D)" for b
    by (rule gives_if)
       (auto simp: gives_def wait_for_settled_runtime_def settle_loop.simps[of "serving repr v"] serving_simps act_ret_def)
  have f: "gives (running D) (finish_apply m approved outcome rec) (\<lambda>_. running D)" for approved outcome rec
    unfolding finish_apply_def
    by (rule gives_if, rule gives_ret, assumption, rule gives_bind[where r = "\<lambda>_. running D"], rule gives_if,
        rule gives_digests(2), rule gives_ret, assumption, rule gives_bind[where r = "\<lambda>_. running D"],
        rule gives_digests(3), rule gives_ret, assumption)
  have b: "gives (ready D) apply_begins (\<lambda>_. ready D)" by (simp add: gives_def apply_begins_def)
  show ?thesis
    unfolding apply_marked_def
    by (rule gives_bind[OF gives_check], rule gives_bind[OF w], rule gives_bind[OF gives_observe], rule gives_bind[OF b],
        rule gives_bind[OF gives_call], rule gives_bind[OF gives_observe], rule f)
qed

lemma gives_converge:
  "gives (\<lambda>c. serves (ct_store c) (dep_id ` set desired) \<and> well_kept R (ct_runtime c)) (converge (serving repr v) desired i)
     (\<lambda>_. ready (dep_id ` set desired))"
  unfolding gives_def
proof (intro allI impI)
  fix c :: "'s simple ctl" and x c'
  assume a: "ledger_ok (ct_store c) \<and> (serves (ct_store c) (dep_id ` set desired) \<and> well_kept R (ct_runtime c)) \<and>
      converge (serving repr v) desired i c = (Inr x, c')"
  obtain b where b: "simple_converge repr desired i (ct_runtime c) = (Inr [], b)"
    using converge_exact(1)[of "ct_runtime c" repr desired i] a by (metis prod.collapse)
  have "add_service_addresses [] (ct_store c) = Inr (ct_store c)"
    by (simp add: add_service_addresses_def)
  then have "ct_store c' = ct_store c" "ct_runtime c' = b" using a b by (auto simp: converge_def serving_simps)
  then show "ledger_ok (ct_store c') \<and> ready (dep_id ` set desired) c'"
    using converge_exact(2,3)[of "ct_runtime c" repr desired i] a b by simp
qed

lemma gives_render:
  "gives (\<lambda>c. pending (ct_store c) \<and> well_kept R (ct_runtime c)) (render_project (serving repr v)) (\<lambda>_ c. \<exists>D. ready D c)"
proof -
  have view: "gives (\<lambda>c. pending (ct_store c) \<and> well_kept R (ct_runtime c))
      (act_get (\<lambda>c. admission_view (sv_reclaim (serving repr v)) False (ct_now c) (ct_store c) (Some res) None))
      (\<lambda>(desired, i) c. serves (ct_store c) (dep_id ` set desired) \<and> well_kept R (ct_runtime c))" for res
    by (rule gives_get) (simp add: serving_simps split_beta view_serves)
  have adm: "gives (\<lambda>c. serves (ct_store c) (dep_id ` set desired) \<and> well_kept R (ct_runtime c))
      (render_admitted (serving repr v) res desired i) (\<lambda>_ c. \<exists>D. ready D c)" for res desired i
    unfolding render_admitted_def serving_simps if_False
    by (rule gives_bind, rule gives_ret, assumption, rule gives_bind[OF gives_observe], rule gives_bind[OF gives_converge],
        rule gives_bind[OF gives_observe], rule gives_bind, rule gives_get, assumption, rule gives_bind, rule gives_ret, assumption,
        rule gives_ret, blast)
  have adm': "gives ((\<lambda>(desired, i) c. serves (ct_store c) (dep_id ` set desired) \<and> well_kept R (ct_runtime c)) x)
      (case x of (desired, i) \<Rightarrow> render_admitted (serving repr v) res desired i) (\<lambda>_ c. \<exists>D. ready D c)" for x res
    by (cases x) (simp only: prod.case adm)
  have l: "gives (\<lambda>c. pending (ct_store c) \<and> well_kept R (ct_runtime c)) (act_ledger sweep)
      (\<lambda>_ c. pending (ct_store c) \<and> well_kept R (ct_runtime c))"
    "gives (\<lambda>c. pending (ct_store c) \<and> well_kept R (ct_runtime c)) (act_ledger (backfill_allocations a res))
      (\<lambda>_ c. pending (ct_store c) \<and> well_kept R (ct_runtime c))" for a res
    by (rule gives_ledger[OF runs_ops(1)], assumption, rule gives_ledger[OF runs_backfill], assumption)
  show ?thesis
    unfolding render_project_def prepare_network_def read_residency_def serving_simps if_True simp_thms
    by (rule gives_bind[OF l(1)], rule gives_bind, rule gives_lift, assumption, rule gives_bind[OF l(2)],
        rule gives_bind, rule gives_ret, assumption, rule gives_bind[OF view[unfolded serving_simps] adm'])
qed

text \<open>A reconcile that has nothing pending left has the backend run what the ledger says.\<close>

lemma reconcile_serves:
  assumes ok: "ledger_ok (ct_store c)" and kept: "well_kept R (ct_runtime c)"
    and r: "reconcile (serving repr v) True c = (Inr rec, c')"
  shows "\<exists>D. running D c'"
proof -
  let ?B = "serving repr v"
  obtain x c1 where m: "mark_pending ?B True c = (Inr x, c1)" and p: "publish ?B c1 = (Inr rec, c')"
    using r by (auto simp: reconcile_def act_bind_Inr)
  have rt: "ct_runtime c1 = ct_runtime c"
    using m by (auto simp: mark_pending_def sync_profile_def serving_simps act_bind_Inr act_ret_def act_ledger_def
        take_fresh_profile_def split: prod.splits)
  have ok1: "ledger_ok (ct_store c1)" using runsD(2)[OF runs_mark_pending, of c ?B True] ok m by simp
  have req: "requested (ct_store c1)" using mark_ct(2)[of ?B True c x] m by simp
  obtain rec1 c2 where q: "render_project ?B c1 = (Inr rec1, c2)" and a: "apply_pending ?B rec1 c2 = (Inr rec, c')"
    using p by (auto simp: publish_def act_bind_Inr)
  have "st_pending (ct_store c2) = st_pending (ct_store c1)"
    using preserves_render[OF pending_render_safe, of "st_pending (ct_store c1)" ?B] q unfolding preserves_def by (metis snd_conv)
  then have "apply_pending ?B rec1 c2 = apply_marked ?B (the (st_pending (ct_store c2))) rec1 c2"
    using req by (auto simp: apply_pending_def act_bind_def act_get_def requested_def)
  moreover have "well_kept R (ct_runtime c1)" using kept rt by simp
  then obtain D where "ready D c2" "ledger_ok (ct_store c2)"
    using gives_render[of repr v] q ok1 requested_pending[OF req] unfolding gives_def by blast
  ultimately show ?thesis using gives_apply_marked[of D repr v] a unfolding gives_def by metis
qed

end



definition demo_memory_ctl :: "store \<Rightarrow> memory simple ctl" where
  "demo_memory_ctl st = \<lparr>ct_store = st, ct_runtime = simple_start (memory_init True), ct_now = 0, ct_fresh = None, ct_invocation = None,
     ct_profile = None, ct_profile_error = False, ct_explicit = False, ct_began = False, ct_calls = []\<rparr>"

definition demo_reconciled :: "(unit ctl_error + reconcile_result) \<times> memory simple ctl" where
  "demo_reconciled = reconcile (simple_serving (\<lambda>_. []) (\<lambda>_. True) memory_backend) True (demo_memory_ctl demo_st2)"

lemma demo_reconciled_facts:
  "\<not> isl (fst demo_reconciled)" "allocation (ct_store (snd demo_reconciled)) ''g'' \<noteq> None"
  by code_simp+


end
