(* ===== verification/KubeModels.thy ===== *)
theory KubeModels
  imports
  Render
  Residency
begin

text \<open>
  The Kubernetes backend's render half (\<open>backends/kubeai.py\<close>): one KubeAI \<open>Model\<close> per desired vLLM
  deployment, named after what it serves, with the resource profile its endpoint names or its memory
  needs pick. GPU facts come from the nodes' labels.

  A deployment is a \<open>gw_deployment\<close> and the one float of its specification, \<open>placement.min_vram_gib\<close>.
  A node is what the code reads of the API's object, whose labels and quantities are strings.
\<close>

section \<open>Names\<close>

definition MODEL_NAME_MAX_LENGTH :: nat where "MODEL_NAME_MAX_LENGTH = 40"

definition UNSUPPORTED_RUNTIME_FIELDS :: "string list" where
  "UNSUPPORTED_RUNTIME_FIELDS = [''image'', ''command'', ''mounts'']"

definition unsupported_runtime_fields :: "(string, json) dict \<Rightarrow> py_error + string list" where
  "unsupported_runtime_fields rt = bind_err (translate_legacy rt) (\<lambda>translated.
     Inr (filter (\<lambda>k. truthy (rt_get translated k)) UNSUPPORTED_RUNTIME_FIELDS))"

definition rstrip_char :: "char \<Rightarrow> string \<Rightarrow> string" where
  "rstrip_char c s = rev (dropWhile ((=) c) (rev s))"

definition model_name_for :: "(string \<Rightarrow> string) \<Rightarrow> string \<Rightarrow> string option \<Rightarrow> string" where
  "model_name_for sha served did =
     (let suffix = (case did of None \<Rightarrow> [] | Some i \<Rightarrow> ''-'' @ deployment_tail i);
          slug = dns_slug served;
          budget = MODEL_NAME_MAX_LENGTH - length suffix
      in (if budget < length slug then
            let digest = take 8 (sha served)
            in rstrip_char (CHR ''-'') (take (budget - length digest - 1) slug) @ ''-'' @ digest
          else slug) @ suffix)"

definition model_name :: "(string \<Rightarrow> string) \<Rightarrow> (json \<Rightarrow> string) \<Rightarrow> gw_deployment \<Rightarrow> bool \<Rightarrow> string" where
  "model_name sha repr d unique =
     model_name_for sha (py_str repr (gd_served_name d)) (if unique then Some (gd_id d) else None)"

text \<open>Observed \<open>(all, ready)\<close> replicas; a count that is missing or no number is unknown.\<close>

definition replica_count :: "json \<Rightarrow> int option" where
  "replica_count v = (if v = JNull then None else case py_int v of Inr i \<Rightarrow> Some (max 0 i) | Inl _ \<Rightarrow> None)"

definition model_replica_counts :: "json \<Rightarrow> py_error + int option \<times> int option" where
  "model_replica_counts model =
     bind_err (py_get_obj ''status'' model) (\<lambda>status.
     bind_err (py_get ''replicas'' status) (\<lambda>replicas.
     bind_err (py_get ''readyReplicas'' status) (\<lambda>flat.
       case replicas of
         JObj kvs \<Rightarrow> Inr (replica_count (rt_get kvs ''all''), replica_count (get_default kvs ''ready'' flat))
       | _ \<Rightarrow> Inr (replica_count replicas, replica_count flat))))"

section \<open>One Model\<close>

definition kube_gpu_count :: "gw_deployment \<Rightarrow> py_error + int" where
  "kube_gpu_count d =
     (let reserved = rt_get (gd_spec d) ''reserved_gpu_count'' in
      if truthy reserved then bind_err (py_int reserved) (\<lambda>n. Inr (max 1 n))
      else bind_err (as_dict (rt_get (gd_spec d) ''runtime'')) (\<lambda>rt.
        if truthy (rt_get rt ''simulator'') \<or> truthy (rt_get rt ''cpu_only'') then Inr 1
        else bind_err (world_size rt ''tensor_parallel_size'') (\<lambda>tp.
             bind_err (world_size rt ''pipeline_parallel_size'') (\<lambda>pp.
             bind_err (world_size rt ''data_parallel_size'') (\<lambda>dp. Inr (max 1 (tp * pp * dp)))))))"

definition with_units :: "gw_deployment \<Rightarrow> string \<Rightarrow> py_error + string" where
  "with_units d profile = (if CHR '':'' \<in> set profile then Inr profile
     else bind_err (kube_gpu_count d) (\<lambda>n. Inr (profile @ '':'' @ show_int n)))"

definition model_env :: "(json \<Rightarrow> string) \<Rightarrow> vllm_serve \<Rightarrow> (string, json) dict" where
  "model_env repr s =
     (let env = map (\<lambda>(k, v). (k, JStr (fill repr s (env_string repr v)))) (vs_env s)
      in if truthy (vs_attention s) then dput ''VLLM_ATTENTION_BACKEND'' (JStr (py_str repr (vs_attention s))) env else env)"

definition spec_item :: "gw_deployment \<Rightarrow> string \<Rightarrow> py_error + json" where
  "spec_item d k = (case dget (gd_spec d) k of None \<Rightarrow> Inl KeyError | Some v \<Rightarrow> Inr v)"

definition model_metadata :: "string \<Rightarrow> string \<Rightarrow> string \<Rightarrow> json" where
  "model_metadata name namespace did = JObj [(''name'', JStr name), (''namespace'', JStr namespace),
     (''labels'', JObj [(pod_managed_label, JStr ''true''), (pod_deployment_label, JStr did)])]"

definition model_doc :: "(json \<Rightarrow> string) \<Rightarrow> string \<Rightarrow> gw_deployment \<Rightarrow> string \<Rightarrow> string \<Rightarrow> py_error + json" where
  "model_doc repr namespace d profile name =
     bind_err (vllm_service_dict d) (\<lambda>s.
     let s = s\<lparr>vs_served := JStr name\<rparr> in
     bind_err (with_units d profile) (\<lambda>profile.
     bind_err (as_dict (rt_get (gd_spec d) ''runtime'')) (\<lambda>rt.
     bind_err (world_size rt ''min_replicas'') (\<lambda>min_replicas.
     bind_err (world_size rt ''max_replicas'') (\<lambda>max_replicas.
     bind_err (spec_item d ''hf_model_id'') (\<lambda>hf.
       let env = model_env repr s in
       Inr (JObj [(''apiVersion'', JStr ''kubeai.org/v1''), (''kind'', JStr ''Model''),
         (''metadata'', model_metadata name namespace (gd_id d)),
         (''spec'', JObj ([(''features'', JList [JStr ''TextGeneration'']), (''url'', JStr (''hf://'' @ py_str repr hf)),
            (''engine'', JStr ''VLLM''), (''resourceProfile'', JStr profile), (''minReplicas'', JInt min_replicas),
            (''maxReplicas'', JInt (max min_replicas max_replicas)), (''args'', JList (vllm_flags repr False s))]
            @ (if env = [] then [] else [(''env'', JObj env)])))])))))))"

section \<open>The GPUs of the nodes\<close>

record kube_node =
  nd_name :: string
  nd_labels :: "(string, string) dict"
  nd_allocatable :: "(string, string) dict"

record node_facts =
  nf_product :: "string option"
  nf_memory :: "rat option"
  nf_gpus :: nat
  nf_labels :: "(string, string) dict"

definition GPU_PRODUCT_LABEL :: string where "GPU_PRODUCT_LABEL = ''nvidia.com/gpu.product''"
definition GPU_MEMORY_LABEL :: string where "GPU_MEMORY_LABEL = ''nvidia.com/gpu.memory''"
definition GPU_RESOURCE :: string where "GPU_RESOURCE = ''nvidia.com/gpu''"

text \<open>\<open>round(mib / 1024, 2)\<close>: half to even.\<close>

definition gib_of_mib :: "int \<Rightarrow> rat" where
  "gib_of_mib mib = (let q = (mib * 100) div 1024; r = (mib * 100) mod 1024;
     n = (if r < 512 \<or> r = 512 \<and> even q then q else q + 1) in of_int n / 100)"

text \<open>\<open>str.isdigit\<close> also takes the superscripts, which \<open>int\<close> then refuses.\<close>

definition isdigit :: "string \<Rightarrow> bool" where
  "isdigit s \<longleftrightarrow> s \<noteq> [] \<and> list_all (\<lambda>c. is_digit c \<or> (of_char c :: nat) \<in> {178, 179, 185}) s"

definition node_fact :: "kube_node \<Rightarrow> py_error + node_facts" where
  "node_fact n =
     (let memory = (case dget (nd_labels n) GPU_MEMORY_LABEL of None \<Rightarrow> None
            | Some m \<Rightarrow> if m = [] then None else map_option gib_of_mib (int_of_string m));
          count = (case dget (nd_allocatable n) GPU_RESOURCE of None \<Rightarrow> [] | Some c \<Rightarrow> c)
      in bind_err (if isdigit count then (case int_of_string count of Some i \<Rightarrow> Inr (nat i) | None \<Rightarrow> Inl ValueError) else Inr 0) (\<lambda>k.
         Inr \<lparr>nf_product = dget (nd_labels n) GPU_PRODUCT_LABEL, nf_memory = memory, nf_gpus = k, nf_labels = nd_labels n\<rparr>))"

definition node_gpus :: "kube_node list \<Rightarrow> py_error + (string, node_facts) dict" where
  "node_gpus nodes = fold_err (\<lambda>n out. bind_err (node_fact n) (\<lambda>f. Inr (dput (nd_name n) f out))) nodes []"

definition gpu_profile :: "string option \<Rightarrow> string \<Rightarrow> json" where
  "gpu_profile runtime_class product = JObj (
     [(''imageName'', JStr ''nvidia-gpu''), (''requests'', JObj [(GPU_RESOURCE, JStr ''1'')]),
      (''limits'', JObj [(GPU_RESOURCE, JStr ''1'')]), (''nodeSelector'', JObj [(GPU_PRODUCT_LABEL, JStr product)])]
     @ (if given runtime_class then [(''runtimeClassName'', JStr (the runtime_class))] else []))"

definition gpu_profile_name :: "string \<Rightarrow> string" where
  "gpu_profile_name product = (let slug = dns_slug product in if is_prefix ''nvidia-'' slug then slug else ''nvidia-'' @ slug)"

definition product_of :: "node_facts \<Rightarrow> string" where
  "product_of f = (case nf_product f of None \<Rightarrow> [] | Some p \<Rightarrow> p)"

definition resource_profiles_for_nodes :: "kube_node list \<Rightarrow> string option \<Rightarrow> py_error + (string, json) dict" where
  "resource_profiles_for_nodes nodes runtime_class =
     bind_err (node_gpus nodes) (\<lambda>facts.
       Inr (fold (\<lambda>f out. dput (gpu_profile_name (product_of f)) (gpu_profile runtime_class (product_of f)) out)
         (sort_key (\<lambda>f. (or_rat (nf_memory f) 0, product_of f))
            (filter (\<lambda>f. nf_gpus f \<noteq> 0 \<and> given (nf_product f)) (dvals facts))) []))"

text \<open>The memory of a profile: the least among the nodes its selector selects.\<close>

definition selects :: "(json \<Rightarrow> string) \<Rightarrow> (string, json) dict \<Rightarrow> node_facts \<Rightarrow> bool" where
  "selects repr selector f \<longleftrightarrow> list_all (\<lambda>(k, v). dget (nf_labels f) k = Some (py_str repr v)) selector"

definition profile_sizes :: "(json \<Rightarrow> string) \<Rightarrow> (string, json) dict \<Rightarrow> (string, node_facts) dict \<Rightarrow> rat list" where
  "profile_sizes repr selector nodes =
     List.map_filter (\<lambda>f. if or_rat (nf_memory f) 0 \<noteq> 0 \<and> selects repr selector f then nf_memory f else None) (dvals nodes)"

fun minimum :: "rat list \<Rightarrow> rat" where
  "minimum [] = 0"
| "minimum [x] = x"
| "minimum (x # xs) = min x (minimum xs)"

definition sized_profiles :: "(json \<Rightarrow> string) \<Rightarrow> (string, json) dict \<Rightarrow> (string, node_facts) dict \<Rightarrow> py_error + (string, rat) dict" where
  "sized_profiles repr profiles nodes =
     fold_err (\<lambda>(name, profile) sizes.
       bind_err (py_get_obj ''nodeSelector'' (py_or profile (JObj []))) (\<lambda>selector.
         if \<not> truthy selector then Inr sizes
         else bind_err (if list_all (\<lambda>f. or_rat (nf_memory f) 0 = 0) (dvals nodes) then Inr [] else py_items selector) (\<lambda>selector.
           let found = profile_sizes repr selector nodes
           in Inr (if found = [] then sizes else dput name (minimum found) sizes))))
       (sort_key fst profiles) []"

section \<open>Which profile\<close>

datatype profile_reason = ByEndpoint | BySize rat string rat | NoneThatLarge rat "(string, rat) dict" | ByDefault

definition pick_profile :: "json \<Rightarrow> rat option \<Rightarrow> (string, rat) dict \<Rightarrow> string option \<Rightarrow> json \<times> profile_reason" where
  "pick_profile explicit vram sized dflt =
     (let fallback = (case dflt of None \<Rightarrow> JNull | Some p \<Rightarrow> JStr p) in
      if truthy explicit then (explicit, ByEndpoint)
      else if or_rat vram 0 \<noteq> 0 then
        (case sort (map (\<lambda>(n, gib). (gib, n)) (filter (\<lambda>(n, gib). the vram \<le> gib) sized)) of
           (gib, name) # _ \<Rightarrow> (JStr name, BySize (the vram) name gib)
         | [] \<Rightarrow> if given dflt then (fallback, ByDefault) else (JNull, NoneThatLarge (the vram) (sort_key fst sized)))
      else (fallback, ByDefault))"

section \<open>The render\<close>

record kube_deployment =
  kd_base :: gw_deployment
  kd_vram :: "rat option"

abbreviation kd_id :: "kube_deployment \<Rightarrow> string" where
  "kd_id d \<equiv> gd_id (kd_base d)"

datatype model_problem = EngineUnsupported string string | CustomLaunch string string
  | NoProfile string "profile_reason option" | NameTaken string string string

record rendered_models =
  rm_docs :: "json list"
  rm_models :: "(string, string) dict"
  rm_requests :: "(string, string) dict"
  rm_unrenderable :: "string list"
  rm_errors :: "model_problem list"
  rm_reasons :: "(string, profile_reason) dict"

definition no_models :: rendered_models where
  "no_models = \<lparr>rm_docs = [], rm_models = [], rm_requests = [], rm_unrenderable = [], rm_errors = [], rm_reasons = []\<rparr>"

definition leave_out :: "string \<Rightarrow> model_problem \<Rightarrow> rendered_models \<Rightarrow> rendered_models" where
  "leave_out did why out = out\<lparr>rm_unrenderable := rm_unrenderable out @ (if did \<in> set (rm_unrenderable out) then [] else [did]),
     rm_errors := rm_errors out @ [why]\<rparr>"

text \<open>\<open>str(profile or '').strip()\<close> is empty.\<close>

definition blank :: "(json \<Rightarrow> string) \<Rightarrow> json \<Rightarrow> bool" where
  "blank repr profile \<longleftrightarrow> py_strip (py_str repr (py_or profile (JStr []))) = []"

definition render_named :: "(string \<Rightarrow> string) \<Rightarrow> (json \<Rightarrow> string) \<Rightarrow> string \<Rightarrow> bool \<Rightarrow> gw_deployment \<Rightarrow> json
    \<Rightarrow> rendered_models \<Rightarrow> py_error + rendered_models" where
  "render_named sha repr namespace unique d profile out =
     (let name = model_name sha repr d unique in
      case dget (rm_models out) name of
        Some other \<Rightarrow> Inr (leave_out (gd_id d) (NameTaken (gd_id d) name other) out)
      | None \<Rightarrow> bind_err (model_doc repr namespace d (py_str repr profile) name) (\<lambda>doc.
          Inr (out\<lparr>rm_docs := rm_docs out @ [doc], rm_models := dput name (gd_id d) (rm_models out),
            rm_requests := fold (\<lambda>e rs. dput e name rs) (dkeys (gd_served d)) (rm_requests out)\<rparr>)))"

definition render_model :: "(string \<Rightarrow> string) \<Rightarrow> (json \<Rightarrow> string) \<Rightarrow> string \<Rightarrow> string option \<Rightarrow> bool \<Rightarrow> (string, rat) dict
    \<Rightarrow> kube_deployment \<Rightarrow> rendered_models \<Rightarrow> py_error + rendered_models" where
  "render_model sha repr namespace dflt unique sized k out =
     (let d = kd_base k in
      if gd_engine d \<noteq> ''vllm'' then Inr (leave_out (gd_id d) (EngineUnsupported (gd_id d) (gd_engine d)) out)
      else bind_err (as_dict (rt_get (gd_spec d) ''runtime'')) (\<lambda>rt.
        bind_err (translate_legacy rt) (\<lambda>rt.
        bind_err (unsupported_runtime_fields rt) (\<lambda>custom.
          if custom \<noteq> [] then Inr (leave_out (gd_id d) (CustomLaunch (gd_id d) (hd custom)) out)
          else (case pick_profile (rt_get rt ''resource_profile'') (kd_vram k) sized dflt of (profile, why) \<Rightarrow>
            if blank repr profile then
              Inr (leave_out (gd_id d) (NoProfile (gd_id d) (if or_rat (kd_vram k) 0 \<noteq> 0 then Some why else None)) out)
            else render_named sha repr namespace unique d profile (out\<lparr>rm_reasons := dput (gd_id d) why (rm_reasons out)\<rparr>))))))"

definition render_models :: "(string \<Rightarrow> string) \<Rightarrow> (json \<Rightarrow> string) \<Rightarrow> string \<Rightarrow> string option \<Rightarrow> bool \<Rightarrow> (string, rat) dict
    \<Rightarrow> kube_deployment list \<Rightarrow> py_error + rendered_models" where
  "render_models sha repr namespace dflt unique sized ds =
     fold_err (render_model sha repr namespace dflt unique sized)
       (sort_key (\<lambda>k. (gd_created_at (kd_base k), kd_id k)) ds) no_models"

section \<open>Names the cluster accepts\<close>

lemma length_squeeze: "length (squeeze p c s) \<le> length s"
proof (induction p c s rule: squeeze.induct)
  case (2 keep sep c s)
  then show ?case using length_dropWhile_le[of "\<lambda>d. \<not> keep d" s] by auto
qed simp

lemma length_strip_char: "length (strip_char c s) \<le> length s"
  unfolding strip_char_def by (metis length_dropWhile_le length_rev order_trans)

lemma length_dns_slug: "length (dns_slug t) \<le> max 5 (length t)"
proof -
  have "length (strip_char (CHR ''-'') (squeeze is_lower_alnum (CHR ''-'') (py_lower t))) \<le> length t"
    by (rule order_trans[OF length_strip_char order_trans[OF length_squeeze]]) (simp add: py_lower_def)
  then show ?thesis by (auto simp: dns_slug_def split: list.split)
qed

lemma length_deployment_tail: "length (deployment_tail i) \<le> 8"
  using length_dns_slug[of "if take 8 (after_last_dash i) = [] then ''x'' else take 8 (after_last_dash i)"]
  by (auto simp: deployment_tail_def Let_def)

lemma rstrip_label:
  assumes "dns_label s" and "0 < n"
  shows "dns_label (rstrip_char (CHR ''-'') (take n s)) \<and> length (rstrip_char (CHR ''-'') (take n s)) \<le> n"
proof -
  obtain c t where s: "s = c # t" and c: "c \<noteq> CHR ''-''" using assms(1) by (cases s) (auto simp: dns_label_def)
  obtain m where n: "n = Suc m" using assms(2) by (cases n) auto
  let ?d = "dropWhile ((=) (CHR ''-'')) (rev (take m t) @ [c])"
  have d: "?d \<noteq> []" "last ?d = c" using c by (auto simp: dropWhile_append)
  have "hd ?d \<noteq> CHR ''-''" using hd_dropWhile[OF d(1)] by metis
  moreover have "set ?d \<subseteq> set (rev (take m t) @ [c])" using set_dropWhileD by fast
  then have "set ?d \<subseteq> set s" unfolding s using set_take_subset[of m t] by auto
  moreover have "length ?d \<le> n" using length_dropWhile_le[of "(=) (CHR ''-'')" "rev (take m t) @ [c]"] n by simp
  ultimately show ?thesis
    using assms(1) d c by (auto simp: dns_label_def rstrip_char_def s n hd_rev last_rev list_all_iff)
qed

text \<open>
  Every KubeAI Model gets a name the cluster accepts: whatever is served and whatever the deployment is called, the
  name is a DNS label of at most 40 characters (SHA-256 being 64 hexadecimal digits).
\<close>

theorem kube_names_are_accepted:
  assumes "\<And>s. length (sha s) = 64 \<and> list_all is_lower_alnum (sha s)"
  shows "dns_label (model_name_for sha served did) \<and> length (model_name_for sha served did) \<le> MODEL_NAME_MAX_LENGTH"
proof -
  define suffix where "suffix = (case did of None \<Rightarrow> [] | Some i \<Rightarrow> ''-'' @ deployment_tail i)"
  have l: "length suffix \<le> 9" using length_deployment_tail by (auto simp: suffix_def split: option.split)
  have ext: "dns_label (s @ suffix)" if "dns_label s" for s
    using dns_label_append[OF that dns_label_slug] that
    by (auto simp: suffix_def deployment_tail_def Let_def split: option.split)
  let ?b = "MODEL_NAME_MAX_LENGTH - length suffix" and ?s = "dns_slug served"
  let ?r = "rstrip_char (CHR ''-'') (take (?b - 8 - 1) ?s)" and ?g = "take 8 (sha served)"
  have b: "0 < ?b - 8 - 1" using l by (simp add: MODEL_NAME_MAX_LENGTH_def)
  have g: "length ?g = 8" "list_all is_lower_alnum ?g"
    using assms[of served] by (auto simp: list_all_iff dest: in_set_takeD)
  then have "?g \<noteq> []" by (cases ?g) auto
  moreover have "\<not> is_lower_alnum (CHR ''-'')" by (simp add: is_lower_alnum_def)
  ultimately have "dns_label ?g"
    using g(2) hd_in_set[of ?g] last_in_set[of ?g] unfolding dns_label_def list_all_iff by metis
  note r = rstrip_label[OF dns_label_slug[of served] b]
  have "dns_label (?r @ ''-'' @ ?g)" using dns_label_append[OF conjunct1[OF r] \<open>dns_label ?g\<close>] .
  moreover have "length (?r @ ''-'' @ ?g) \<le> ?b" using conjunct2[OF r] b g(1) by simp
  moreover have "model_name_for sha served did = (if ?b < length ?s then ?r @ ''-'' @ ?g else ?s) @ suffix"
    using g(1) by (simp add: model_name_for_def suffix_def Let_def)
  ultimately show ?thesis
    using ext[OF dns_label_slug] ext[of "?r @ ''-'' @ ?g"] l by (auto simp: MODEL_NAME_MAX_LENGTH_def)
qed

lemma kube_names_are_accepted_witness:
  "length (model_name_for (\<lambda>_. replicate 64 (CHR ''a'')) (replicate 60 (CHR ''q'')) (Some ''grp-0123456789ab'')) \<le> 40"
  using conjunct2[OF kube_names_are_accepted[of "\<lambda>_. replicate 64 (CHR ''a'')"]] unfolding MODEL_NAME_MAX_LENGTH_def
  by (simp add: list_all_iff is_lower_alnum_def)

section \<open>A profile picked by size is large enough\<close>

lemma minimum_le: "x \<in> set xs \<Longrightarrow> minimum xs \<le> x"
  by (induction xs rule: minimum.induct) auto

lemma sized_profiles_sound:
  assumes "sized_profiles repr profiles nodes = Inr sized" and "(name, gib) \<in> set sized"
  shows "\<exists>profile selector. (name, profile) \<in> set profiles \<and> py_get_obj ''nodeSelector'' (py_or profile (JObj [])) = Inr (JObj selector)
    \<and> selector \<noteq> [] \<and> gib = minimum (profile_sizes repr selector nodes) \<and> profile_sizes repr selector nodes \<noteq> []"
  (is "?ok name gib")
proof -
  have "\<forall>(n, g) \<in> set sized. ?ok n g"
  proof (rule fold_err_invariant[OF assms(1)[unfolded sized_profiles_def], where I = "\<lambda>sizes. \<forall>(n, g) \<in> set sizes. ?ok n g"])
    fix x sizes sizes'
    assume x: "x \<in> set (sort_key fst profiles)" and ok: "\<forall>(n, g) \<in> set sizes. ?ok n g"
      and st: "(case x of (name, profile) \<Rightarrow> \<lambda>sizes.
       bind_err (py_get_obj ''nodeSelector'' (py_or profile (JObj []))) (\<lambda>selector.
         if \<not> truthy selector then Inr sizes
         else bind_err (if list_all (\<lambda>f. or_rat (nf_memory f) 0 = 0) (dvals nodes) then Inr [] else py_items selector) (\<lambda>selector.
           let found = profile_sizes repr selector nodes
           in Inr (if found = [] then sizes else dput name (minimum found) sizes)))) sizes = Inr sizes'"
    obtain n p where xp: "x = (n, p)" by (cases x)
    have sub: "set (dput n g sizes) \<subseteq> insert (n, g) (set sizes)" for g
      by (induction sizes) (auto simp: dput_def)
    have none: "profile_sizes repr s nodes = []" if "list_all (\<lambda>f. or_rat (nf_memory f) 0 = 0) (dvals nodes)" for s
      using that by (induction "dvals nodes" arbitrary: nodes) (auto simp: profile_sizes_def List.map_filter_def list_all_iff filter_empty_conv)
    show "\<forall>(n, g) \<in> set sizes'. ?ok n g"
      using st ok x sub none unfolding xp
      by (force simp: bind_err_Inr Let_def py_items_def truthy_def split: if_splits json.splits)
  qed simp
  then show ?thesis using assms(2) by blast
qed


lemma in_profile_sizes:
  "f \<in> set (dvals nodes) \<Longrightarrow> selects repr selector f \<Longrightarrow> nf_memory f = Some g \<Longrightarrow> g \<noteq> 0 \<Longrightarrow> g \<in> set (profile_sizes repr selector nodes)"
  by (force simp: profile_sizes_def List.map_filter_def or_rat_def)


definition demo_nodes :: "(string, node_facts) dict" where
  "demo_nodes = [(''a'', \<lparr>nf_product = None, nf_memory = Some 24, nf_gpus = 1, nf_labels = [(''gpu'', ''small'')]\<rparr>),
     (''b'', \<lparr>nf_product = None, nf_memory = Some 80, nf_gpus = 1, nf_labels = [(''gpu'', ''big'')]\<rparr>)]"

definition demo_profiles :: "(string, json) dict" where
  "demo_profiles = [(''small'', JObj [(''nodeSelector'', JObj [(''gpu'', JStr ''small'')])]),
     (''big'', JObj [(''nodeSelector'', JObj [(''gpu'', JStr ''big'')])]), (''anywhere'', JObj [])]"

lemma demo_sized: "sized_profiles (\<lambda>_. []) demo_profiles demo_nodes = Inr [(''big'', 80), (''small'', 24)]"
  by code_simp


section \<open>Every deployment is a Model or refused\<close>

lemma fold_err_prefix:
  assumes "fold_err f xs s = Inr s'" and "P [] s"
    and "\<And>pre x post t t'. xs = pre @ x # post \<Longrightarrow> P pre t \<Longrightarrow> f x t = Inr t' \<Longrightarrow> P (pre @ [x]) t'"
  shows "P xs s'"
proof -
  have "fold_err f post t = Inr s' \<Longrightarrow> xs = pre @ post \<Longrightarrow> P pre t \<Longrightarrow> P xs s'" for pre post t
  proof (induction post arbitrary: pre t)
    case (Cons x post)
    then obtain t' where "f x t = Inr t'" "fold_err f post t' = Inr s'" by (auto simp: bind_err_Inr)
    then show ?case using Cons.IH[of t' "pre @ [x]"] Cons.prems assms(3) by simp
  qed simp
  from this[of xs s "[]"] assms(1,2) show ?thesis by simp
qed

definition doc_metadata :: "json \<Rightarrow> json" where
  "doc_metadata doc = (case doc of JObj kvs \<Rightarrow> rt_get kvs ''metadata'' | _ \<Rightarrow> JNull)"

text \<open>What a render has done with the deployments it has seen.\<close>

definition accounted :: "(string \<Rightarrow> string) \<Rightarrow> (json \<Rightarrow> string) \<Rightarrow> string \<Rightarrow> bool \<Rightarrow> kube_deployment list \<Rightarrow> rendered_models \<Rightarrow> bool" where
  "accounted sha repr namespace unique ds out \<longleftrightarrow>
     mset (dvals (rm_models out)) + mset (rm_unrenderable out) = mset (map kd_id ds)
     \<and> distinct (dkeys (rm_models out))
     \<and> map doc_metadata (rm_docs out) = map (\<lambda>(n, g). model_metadata n namespace g) (rm_models out)
     \<and> (\<forall>(n, g) \<in> set (rm_models out). \<exists>k \<in> set ds. g = kd_id k \<and> n = model_name sha repr (kd_base k) unique)
     \<and> length (rm_errors out) = length (rm_unrenderable out)
     \<and> snd ` set (rm_requests out) \<subseteq> set (dkeys (rm_models out))"

lemma doc_of_model:
  "model_doc repr namespace d profile name = Inr doc \<Longrightarrow> doc_metadata doc = model_metadata name namespace (gd_id d)"
  by (auto simp: model_doc_def bind_err_Inr Let_def doc_metadata_def rt_get_def dget_Cons)

lemma requests_named: "snd ` set (fold (\<lambda>e rs. dput e n rs) es rs) \<subseteq> insert n (snd ` set rs)"
proof (induction es arbitrary: rs)
  case (Cons e es)
  have "set (dput e n rs) \<subseteq> insert (e, n) (set rs)" by (induction rs) (auto simp: dput_def)
  then have "snd ` set (dput e n rs) \<subseteq> insert n (snd ` set rs)" by force
  then show ?case using Cons[of "dput e n rs"] by (simp only: fold.simps o_apply) blast
qed auto

lemma accounted_leave_out:
  assumes "accounted sha repr ns unique ds out" and "kd_id k \<notin> set (map kd_id ds)"
  shows "accounted sha repr ns unique (ds @ [k]) (leave_out (kd_id k) why out)"
proof -
  have "set_mset (mset (dvals (rm_models out)) + mset (rm_unrenderable out)) = set (map kd_id ds)"
    using assms(1) unfolding accounted_def by (metis set_mset_mset)
  then have "kd_id k \<notin> set (rm_unrenderable out)" using assms(2) by auto
  then show ?thesis using assms(1) by (auto simp: accounted_def leave_out_def)
qed

lemma accounted_reasons: "accounted sha repr ns unique ds (out\<lparr>rm_reasons := r\<rparr>) = accounted sha repr ns unique ds out"
  by (simp add: accounted_def)

lemma accounted_named:
  assumes "accounted sha repr ns unique ds out" and "kd_id k \<notin> set (map kd_id ds)"
    and "render_named sha repr ns unique (kd_base k) profile out = Inr out'"
  shows "accounted sha repr ns unique (ds @ [k]) out'"
proof (cases "dget (rm_models out) (model_name sha repr (kd_base k) unique)")
  case (Some other)
  then show ?thesis using assms accounted_leave_out by (auto simp: render_named_def Let_def)
next
  case None
  let ?n = "model_name sha repr (kd_base k) unique"
  obtain doc where doc: "model_doc repr ns (kd_base k) (py_str repr profile) ?n = Inr doc"
    and o: "out' = out\<lparr>rm_docs := rm_docs out @ [doc], rm_models := dput ?n (kd_id k) (rm_models out),
            rm_requests := fold (\<lambda>e rs. dput e ?n rs) (dkeys (gd_served (kd_base k))) (rm_requests out)\<rparr>"
    using assms(3) None by (auto simp: render_named_def Let_def bind_err_Inr)
  have new: "?n \<notin> set (dkeys (rm_models out))" using None by (simp add: dget_None_iff)
  then have put: "dput ?n (kd_id k) (rm_models out) = rm_models out @ [(?n, kd_id k)]" by (rule dput_new)
  have "snd ` set (rm_requests out') \<subseteq> insert ?n (snd ` set (rm_requests out))"
    unfolding o by (simp add: requests_named)
  also have "\<dots> \<subseteq> set (dkeys (rm_models out'))"
    using assms(1) by (auto simp: o put accounted_def dkeys_def)
  finally have "snd ` set (rm_requests out') \<subseteq> set (dkeys (rm_models out'))" .
  moreover have "distinct (dkeys (rm_models out @ [(?n, kd_id k)]))"
    using new assms(1) by (simp add: accounted_def dkeys_def)
  ultimately show ?thesis
    using assms(1) doc_of_model[OF doc] by (auto simp: accounted_def o put dvals_def)
qed

lemma accounted_step:
  assumes "accounted sha repr ns unique ds out" and "kd_id k \<notin> set (map kd_id ds)"
    and "render_model sha repr ns dflt unique sized k out = Inr out'"
  shows "accounted sha repr ns unique (ds @ [k]) out'"
  using assms(3) accounted_leave_out[OF assms(1,2)] accounted_named[OF iffD2[OF accounted_reasons assms(1)] assms(2)]
  by (auto simp: render_model_def Let_def bind_err_Inr split: if_splits prod.splits)

text \<open>A deployment refused for its name came after the one that has it.\<close>

definition keepers :: "kube_deployment list \<Rightarrow> rendered_models \<Rightarrow> bool" where
  "keepers ds out \<longleftrightarrow> (\<forall>i n holder. NameTaken i n holder \<in> set (rm_errors out) \<longrightarrow>
     (n, holder) \<in> set (rm_models out) \<and> (\<exists>xs ys zs. map kd_id ds = xs @ holder # ys @ i # zs))"

lemma keepers_later: "keepers ds out \<Longrightarrow> rm_errors out' = rm_errors out \<Longrightarrow> set (rm_models out) \<subseteq> set (rm_models out')
   \<Longrightarrow> keepers (ds @ [k]) out'"
proof -
  assume a: "keepers ds out" "rm_errors out' = rm_errors out" "set (rm_models out) \<subseteq> set (rm_models out')"
  have "map kd_id (ds @ [k]) = xs @ h # ys @ i # (zs @ [kd_id k])" if "map kd_id ds = xs @ h # ys @ i # zs" for xs h ys i zs
    using that by simp
  then show ?thesis using a(1,3) unfolding keepers_def a(2) by (meson subsetD)
qed

lemma keepers_leave_out:
  assumes "keepers ds out" and "\<And>i n h. why \<noteq> NameTaken i n h"
  shows "keepers (ds @ [k]) (leave_out g why out)"
proof -
  have "NameTaken i n h \<in> set (rm_errors (leave_out g why out)) \<longleftrightarrow> NameTaken i n h \<in> set (rm_errors out)" for i n h
    using assms(2)[of i n h] by (auto simp: leave_out_def)
  moreover have "rm_models (leave_out g why out) = rm_models out" by (simp add: leave_out_def)
  ultimately show ?thesis using keepers_later[OF assms(1), of out k] unfolding keepers_def by simp
qed

lemma keepers_named:
  assumes "keepers ds out" and "accounted sha repr ns unique ds out"
    and "render_named sha repr ns unique (kd_base k) profile out = Inr out'"
  shows "keepers (ds @ [k]) out'"
proof (cases "dget (rm_models out) (model_name sha repr (kd_base k) unique)")
  case (Some other)
  let ?n = "model_name sha repr (kd_base k) unique"
  have o: "out' = leave_out (kd_id k) (NameTaken (kd_id k) ?n other) out" and m: "(?n, other) \<in> set (rm_models out)"
    using assms(3) Some by (auto simp: render_named_def Let_def dget_SomeD)
  obtain d where "d \<in> set ds" "other = kd_id d" using assms(2) m by (fastforce simp: accounted_def)
  then obtain xs ys where "ds = xs @ d # ys" by (meson split_list)
  then have "map kd_id (ds @ [k]) = map kd_id xs @ other # map kd_id ys @ kd_id k # []" using \<open>other = kd_id d\<close> by simp
  then show ?thesis using keepers_later[OF assms(1), of out k] m unfolding keepers_def o leave_out_def
    by simp metis
next
  case None
  let ?n = "model_name sha repr (kd_base k) unique"
  have "set (rm_models out) \<subseteq> set (rm_models out')" "rm_errors out' = rm_errors out"
    using assms(3) None dput_new[of ?n "rm_models out"]
    by (auto simp: render_named_def Let_def bind_err_Inr dget_None_iff)
  then show ?thesis using keepers_later[OF assms(1)] by blast
qed

lemma keepers_step:
  assumes "keepers ds out" and "accounted sha repr ns unique ds out"
    and "render_model sha repr ns dflt unique sized k out = Inr out'"
  shows "keepers (ds @ [k]) out'"
proof -
  have r: "keepers ds (out\<lparr>rm_reasons := r\<rparr>)" "accounted sha repr ns unique ds (out\<lparr>rm_reasons := r\<rparr>)" for r
    using assms(1,2) by (simp_all add: keepers_def accounted_reasons)
  show ?thesis
    using assms(3) keepers_leave_out[OF assms(1)] keepers_named[OF r]
    by (auto simp: render_model_def Let_def bind_err_Inr split: if_splits prod.splits)
qed

lemma split_ids:
  assumes "map f ds = xs @ a # ys @ b # zs"
  obtains p k q k' r where "ds = p @ k # q @ k' # r" and "f k = a" and "f k' = b"
proof -
  obtain p u where u: "ds = p @ u" "map f u = a # ys @ b # zs"
    using assms by (auto simp: map_eq_append_conv)
  then obtain k v where v: "u = k # v" "f k = a" "map f v = ys @ b # zs" by (auto simp: map_eq_Cons_conv)
  then obtain q w where w: "v = q @ w" "map f w = b # zs" by (auto simp: map_eq_append_conv)
  then obtain k' r where "w = k' # r" "f k' = b" by (auto simp: map_eq_Cons_conv)
  then show thesis using that u v w by simp
qed

lemma render_models_invariants:
  assumes "render_models sha repr namespace dflt unique sized ds = Inr out" and "distinct (map kd_id ds)"
  shows "accounted sha repr namespace unique ds out \<and> keepers (sort_key (\<lambda>k. (gd_created_at (kd_base k), kd_id k)) ds) out"
proof -
  define key where "key = (\<lambda>k. (gd_created_at (kd_base k), kd_id k))"
  let ?ds = "sort_key key ds"
  have d: "distinct (map kd_id ?ds)"
    using assms(2) by (metis distinct_map distinct_sort set_sort)
  have "accounted sha repr namespace unique ?ds out \<and> keepers ?ds out"
  proof (rule fold_err_prefix[OF assms(1)[unfolded render_models_def, folded key_def]])
    show "accounted sha repr namespace unique [] no_models \<and> keepers [] no_models"
      by (simp add: accounted_def keepers_def no_models_def dkeys_def dvals_def)
    show "accounted sha repr namespace unique (pre @ [k]) t' \<and> keepers (pre @ [k]) t'"
      if "?ds = pre @ k # post" "accounted sha repr namespace unique pre t \<and> keepers pre t"
        "render_model sha repr namespace dflt unique sized k t = Inr t'" for pre k post t t'
    proof -
      have "kd_id k \<notin> set (map kd_id pre)" using d that(1) by auto
      then show ?thesis using accounted_step keepers_step that(2,3) by blast
    qed
  qed
  moreover have "accounted sha repr namespace unique ?ds out = accounted sha repr namespace unique ds out"
    by (simp add: accounted_def)
  ultimately show ?thesis by (simp add: key_def)
qed

text \<open>
  C22. A render loses no deployment and overwrites none. Every deployment is either the Model of its own name,
  whose document carries its id, or left out with one reason; no two are Models of one name, the earlier
  created keeps a contested one, and clients are only told names of rendered Models.
\<close>

theorem kube_render_accounts:
  assumes "render_models sha repr namespace dflt unique sized ds = Inr out" and "distinct (map kd_id ds)"
  shows "accounted sha repr namespace unique ds out
    \<and> (\<forall>i n holder. NameTaken i n holder \<in> set (rm_errors out) \<longrightarrow> (n, holder) \<in> set (rm_models out)
        \<and> (\<exists>k k'. k \<in> set ds \<and> k' \<in> set ds \<and> kd_id k = holder \<and> kd_id k' = i
             \<and> (gd_created_at (kd_base k), holder) \<le> (gd_created_at (kd_base k'), i)))"
proof -
  let ?key = "\<lambda>k. (gd_created_at (kd_base k), kd_id k)" and ?ds = "sort_key (\<lambda>k. (gd_created_at (kd_base k), kd_id k)) ds"
  have "\<exists>k k'. k \<in> set ds \<and> k' \<in> set ds \<and> kd_id k = a \<and> kd_id k' = b \<and> ?key k \<le> ?key k'"
    if eq: "map kd_id ?ds = xs @ a # ys @ b # zs" for xs ys zs a b
  proof -
    from split_ids[OF eq] obtain p k q k' r where s: "?ds = p @ k # q @ k' # r" "kd_id k = a" "kd_id k' = b" .
    have "sorted (map ?key ?ds)" by simp
    then have "?key k \<le> ?key k'" unfolding s(1) by (simp add: sorted_append)
    moreover have "k \<in> set ?ds" "k' \<in> set ?ds" unfolding s(1) by auto
    then have "k \<in> set ds" "k' \<in> set ds" by simp_all
    ultimately show ?thesis using s(2,3) by blast
  qed
  then show ?thesis using render_models_invariants[OF assms] unfolding keepers_def by (metis (no_types, lifting))
qed

definition demo_kube :: "string \<Rightarrow> rat \<Rightarrow> string \<Rightarrow> kube_deployment" where
  "demo_kube did created engine = \<lparr>kd_base = \<lparr>gd_id = did, gd_created_at = created, gd_engine = engine,
     gd_spec = [(''hf_model_id'', JStr ''Qwen/Qwen3-8B''), (''runtime'', JObj [(''resource_profile'', JStr ''gpu'')])],
     gd_served = [(''chat'', JObj [])]\<rparr>, kd_vram = None\<rparr>"

definition demo_kube_render :: "py_error + rendered_models" where
  "demo_kube_render = render_models id (\<lambda>_. []) ''ns'' None False [] [demo_kube ''g2'' 5 ''vllm'', demo_kube ''g1'' 3 ''vllm'', demo_kube ''g3'' 1 ''ollama'']"

lemma demo_doc: "\<exists>doc. model_doc (\<lambda>_. []) ''ns'' (kd_base (demo_kube g c e)) ''gpu'' n = Inr doc"
  by (simp add: model_doc_def vllm_service_dict_def demo_kube_def rt_get_def as_dict_def py_or_def truthy_def translate_legacy_def
      hash_get_def py_hashable_def world_size_def get_default_def py_int_def py_iter_def effective_max_model_len_def with_units_def
      kube_gpu_count_def spec_item_def Let_def dget_Cons)

lemma demo_kube_render:
  obtains out where "demo_kube_render = Inr out" and "NameTaken ''g2'' ''chat'' ''g1'' \<in> set (rm_errors out)"
proof -
  have n: "model_name id (\<lambda>_. []) (kd_base (demo_kube g c e)) False = ''chat''" for g c e by code_simp
  obtain doc where doc: "model_doc (\<lambda>_. []) ''ns'' (kd_base (demo_kube ''g1'' 3 ''vllm'')) ''gpu'' ''chat'' = Inr doc" using demo_doc by blast
  have e: "unsupported_runtime_fields [(''resource_profile'', JStr ''gpu'')] = Inr []"
    "translate_legacy [(''resource_profile'', JStr ''gpu'')] = Inr [(''resource_profile'', JStr ''gpu'')]"
    "as_dict (rt_get (gd_spec (kd_base (demo_kube g c e))) ''runtime'') = Inr [(''resource_profile'', JStr ''gpu'')]"
    "pick_profile (rt_get [(''resource_profile'', JStr ''gpu'')] ''resource_profile'') None [] None = (JStr ''gpu'', ByEndpoint)"
    "blank (\<lambda>_. []) (JStr ''gpu'') = False" for g c e
    by code_simp+
  let ?r = "render_model id (\<lambda>_. []) ''ns'' None False []"
  have f: "kd_vram (demo_kube g c e) = None" "gd_engine (kd_base (demo_kube g c e)) = e" "kd_id (demo_kube g c e) = g"
    "gd_created_at (kd_base (demo_kube g c e)) = c" for g c e by (simp_all add: demo_kube_def)
  have "sort_key (\<lambda>k. (gd_created_at (kd_base k), kd_id k)) [demo_kube ''g2'' 5 ''vllm'', demo_kube ''g1'' 3 ''vllm'', demo_kube ''g3'' 1 ''ollama'']
      = [demo_kube ''g3'' 1 ''ollama'', demo_kube ''g1'' 3 ''vllm'', demo_kube ''g2'' 5 ''vllm'']"
    by (simp add: f less_eq_prod_def)
  then show thesis
    using that by (auto simp: demo_kube_render_def render_models_def render_model_def Let_def e f render_named_def n doc no_models_def
        leave_out_def dput_def py_str_def dget_Cons)
qed

lemma kube_render_accounts_witness:
  "\<exists>out. demo_kube_render = Inr out \<and> NameTaken ''g2'' ''chat'' ''g1'' \<in> set (rm_errors out)
    \<and> length (rm_errors out) = length (rm_unrenderable out)"
proof -
  obtain out where o: "demo_kube_render = Inr out" "NameTaken ''g2'' ''chat'' ''g1'' \<in> set (rm_errors out)"
    by (rule demo_kube_render)
  have "distinct (map kd_id [demo_kube ''g2'' 5 ''vllm'', demo_kube ''g1'' 3 ''vllm'', demo_kube ''g3'' 1 ''ollama''])"
    by (simp add: demo_kube_def)
  from kube_render_accounts[OF o(1)[unfolded demo_kube_render_def] this] o show ?thesis by (auto simp: accounted_def)
qed

end
