(* ===== verification/Scaffold.thy ===== *)
theory Scaffold
  imports
  Render
  Admission
begin

text \<open>
  What the backends that render files share (\<open>ConvergeScaffold\<close> of \<open>leasing/backend.py\<close>): the files of
  the state directory, the sidecar beside them, and the approval of a change before it is written.

  A file is its path and text; the sidecar is its decoded value (\<open>None\<close> when it is absent or corrupt). \<open>confirm\<close>
  is the operator's answer to the changes shown, \<open>sc_asked\<close> what was shown so far.
\<close>

section \<open>Statements over a state\<close>

text \<open>A method: it may raise, and changes its object either way.\<close>

type_synonym ('b, 'e, 'a) meth = "'b \<Rightarrow> ('e + 'a) \<times> 'b"

definition mt_bind :: "('b, 'e, 'a) meth \<Rightarrow> ('a \<Rightarrow> ('b, 'e, 'c) meth) \<Rightarrow> ('b, 'e, 'c) meth" where
  "mt_bind m k b = (case m b of (Inl e, b') \<Rightarrow> (Inl e, b') | (Inr x, b') \<Rightarrow> k x b')"

definition mt_return :: "'a \<Rightarrow> ('b, 'e, 'a) meth" where "mt_return x b = (Inr x, b)"
definition mt_raise :: "'e \<Rightarrow> ('b, 'e, 'a) meth" where "mt_raise e b = (Inl e, b)"
definition mt_modify :: "('b \<Rightarrow> 'b) \<Rightarrow> ('b, 'e, unit) meth" where "mt_modify f b = (Inr (), f b)"
definition mt_get :: "('b \<Rightarrow> 'a) \<Rightarrow> ('b, 'e, 'a) meth" where "mt_get f b = (Inr (f b), b)"
definition mt_lift :: "('b \<Rightarrow> 'e + 'a) \<Rightarrow> ('b, 'e, 'a) meth" where "mt_lift f b = (f b, b)"

fun mt_each :: "('x \<Rightarrow> ('b, 'e, unit) meth) \<Rightarrow> 'x list \<Rightarrow> ('b, 'e, unit) meth" where
  "mt_each f [] = mt_return ()"
| "mt_each f (x # xs) = mt_bind (f x) (\<lambda>_. mt_each f xs)"

lemma mt_bind_Inr: "mt_bind m k b = (Inr y, b') \<longleftrightarrow> (\<exists>x b1. m b = (Inr x, b1) \<and> k x b1 = (Inr y, b'))"
  by (auto simp: mt_bind_def split: prod.splits sum.splits)

lemma mt_run_Inr:
  "mt_return x b = (Inr y, b') \<longleftrightarrow> y = x \<and> b' = b" "mt_raise e b = (Inr z, b') \<longleftrightarrow> False"
  "mt_modify f b = (Inr u, b') \<longleftrightarrow> b' = f b" "mt_get g b = (Inr v, b') \<longleftrightarrow> v = g b \<and> b' = b"
  "mt_lift h b = (Inr w, b') \<longleftrightarrow> h b = Inr w \<and> b' = b"
  by (auto simp: mt_return_def mt_raise_def mt_modify_def mt_get_def mt_lift_def)

text \<open>What every statement keeps, the method keeps, whether it returns or raises.\<close>

definition keeps :: "('b \<Rightarrow> 'p) \<Rightarrow> ('b, 'e, 'a) meth \<Rightarrow> bool" where
  "keeps f m \<longleftrightarrow> (\<forall>b. f (snd (m b)) = f b)"

lemma keeps_bind: "keeps f m \<Longrightarrow> (\<And>x. keeps f (k x)) \<Longrightarrow> keeps f (mt_bind m k)"
  unfolding keeps_def mt_bind_def by (auto split: prod.split sum.split) (metis snd_conv)+

lemma keeps_basic: "keeps f (mt_return x)" "keeps f (mt_raise e)" "keeps f (mt_get g)" "keeps f (mt_lift h)"
  by (simp_all add: keeps_def mt_return_def mt_raise_def mt_get_def mt_lift_def)

lemma keeps_modify: "(\<And>b. f (u b) = f b) \<Longrightarrow> keeps f (mt_modify u)"
  by (simp add: keeps_def mt_modify_def)

lemma keeps_if: "keeps f m \<Longrightarrow> keeps f m' \<Longrightarrow> keeps f (if c then m else m')"
  by simp

lemma keeps_each: "(\<And>x. keeps f (g x)) \<Longrightarrow> keeps f (mt_each g xs)"
  by (induction xs) (auto intro: keeps_bind keeps_basic)

section \<open>Files and approvals\<close>

record 's scaffold =
  sc_files :: "(string, string) dict"
  sc_sidecar :: "'s option"
  sc_assume_yes :: bool
  sc_preapproved :: "string option"
  sc_planned :: "string option"
  sc_preview :: "string option"
  sc_asked :: "(string, string) dict list"

definition read_text :: "(string, string) dict \<Rightarrow> string \<Rightarrow> string" where
  "read_text files p = (case dget files p of None \<Rightarrow> [] | Some t \<Rightarrow> t)"

definition atomic_write :: "string \<Rightarrow> string \<Rightarrow> 's scaffold \<Rightarrow> 's scaffold" where
  "atomic_write p t s = s\<lparr>sc_files := dput p t (sc_files s)\<rparr>"

definition load_sidecar :: "'s \<Rightarrow> 's scaffold \<Rightarrow> 's" where
  "load_sidecar absent s = (case sc_sidecar s of None \<Rightarrow> absent | Some x \<Rightarrow> x)"

definition save_sidecar :: "'s \<Rightarrow> 's scaffold \<Rightarrow> 's scaffold" where
  "save_sidecar x s = s\<lparr>sc_sidecar := Some x\<rparr>"

definition planned_digest :: "(string \<Rightarrow> string) \<Rightarrow> (string, string) dict \<Rightarrow> string" where
  "planned_digest sha writes = sha (dump_spaced (canonical (JObj (map (\<lambda>(p, t). (p, JStr t)) writes))))"

definition changed_files :: "(string, string) dict \<Rightarrow> (string, string) dict \<Rightarrow> (string, string) dict" where
  "changed_files files writes = filter (\<lambda>(p, t). read_text files p \<noteq> t) writes"

text \<open>\<open>True\<close> when the changes may be written; \<open>False\<close> is \<open>ConvergeAborted\<close>.\<close>

definition approve_changes ::
    "(string \<Rightarrow> string) \<Rightarrow> ((string, string) dict \<Rightarrow> bool) \<Rightarrow> (string, string) dict \<Rightarrow> 's scaffold \<Rightarrow> bool \<times> 's scaffold" where
  "approve_changes sha confirm writes s =
     (let s' = s\<lparr>sc_preapproved := None\<rparr>; changed = changed_files (sc_files s) writes in
      if sc_preapproved s \<noteq> None \<and> Some (planned_digest sha writes) = sc_preapproved s then (True, s')
      else if changed = [] then (True, s')
      else if sc_assume_yes s then (True, s')
      else (confirm changed, s'\<lparr>sc_asked := sc_asked s @ [changed]\<rparr>))"

definition preview_approval ::
    "(string \<Rightarrow> string) \<Rightarrow> ((string, string) dict \<Rightarrow> bool) \<Rightarrow> bool \<Rightarrow> (string, string) dict \<Rightarrow> 's scaffold \<Rightarrow> bool \<times> 's scaffold" where
  "preview_approval sha confirm approve writes s =
     (let s1 = s\<lparr>sc_preview := Some (planned_digest sha writes)\<rparr> in
      if \<not> approve then (True, s1)
      else (case approve_changes sha confirm writes s1 of
          (False, s2) \<Rightarrow> (False, s2)
        | (True, s2) \<Rightarrow> (True, s2\<lparr>sc_preapproved := sc_preview s2\<rparr>)))"

definition write_files :: "(string, string) dict \<Rightarrow> 's scaffold \<Rightarrow> 's scaffold" where
  "write_files writes s = fold (\<lambda>(p, t). atomic_write p t) writes s"

section \<open>What approving means\<close>

text \<open>Somebody approved these changes: now or in a preview of the same files, or nothing changes.\<close>

definition approved :: "(string \<Rightarrow> string) \<Rightarrow> ((string, string) dict \<Rightarrow> bool) \<Rightarrow> (string, string) dict \<Rightarrow> 's scaffold \<Rightarrow> bool" where
  "approved sha confirm writes s \<longleftrightarrow> sc_assume_yes s \<or> sc_preapproved s = Some (planned_digest sha writes)
     \<or> changed_files (sc_files s) writes = [] \<or> confirm (changed_files (sc_files s) writes)"

lemma approve_changes_approved: "fst (approve_changes sha confirm writes s) = approved sha confirm writes s"
  by (auto simp: approve_changes_def approved_def Let_def)

lemma approve_changes_frame:
  "sc_files (snd (approve_changes sha confirm writes s)) = sc_files s"
  "sc_sidecar (snd (approve_changes sha confirm writes s)) = sc_sidecar s"
  "sc_assume_yes (snd (approve_changes sha confirm writes s)) = sc_assume_yes s"
  "sc_preapproved (snd (approve_changes sha confirm writes s)) = None"
  by (simp_all add: approve_changes_def Let_def)

lemma preview_approval_frame:
  "sc_files (snd (preview_approval sha confirm approve writes s)) = sc_files s"
  "sc_sidecar (snd (preview_approval sha confirm approve writes s)) = sc_sidecar s"
  "sc_assume_yes (snd (preview_approval sha confirm approve writes s)) = sc_assume_yes s"
  using approve_changes_frame[of sha confirm writes "s\<lparr>sc_preview := Some (planned_digest sha writes)\<rparr>"]
  by (auto simp: preview_approval_def Let_def split: prod.split bool.split)

lemma write_files_frame:
  "sc_sidecar (write_files writes s) = sc_sidecar s" "sc_planned (write_files writes s) = sc_planned s"
  "sc_preapproved (write_files writes s) = sc_preapproved s" "sc_asked (write_files writes s) = sc_asked s"
  unfolding write_files_def by (induction writes arbitrary: s) (auto simp: atomic_write_def)

lemma write_files_text:
  assumes "distinct (dkeys writes)"
  shows "dget (sc_files (write_files writes s)) p = (case dget writes p of None \<Rightarrow> dget (sc_files s) p | Some t \<Rightarrow> Some t)"
  using assms unfolding write_files_def
proof (induction writes arbitrary: s)
  case (Cons q writes)
  obtain k t where q: "q = (k, t)" by (cases q)
  then have "dget writes k = None" using Cons.prems by (simp add: dget_None_iff dkeys_def)
  then show ?case using Cons q by (auto simp: atomic_write_def dget_Cons dkeys_def split: option.split)
qed (simp add: dget_def)

text \<open>The render that follows an approved preview of the same files asks nothing.\<close>

lemma preview_then_render_asks_once:
  assumes "preview_approval sha confirm True writes s = (True, s')" and "sc_preapproved s'' = sc_preapproved s'"
  shows "approve_changes sha confirm' writes s'' = (True, s''\<lparr>sc_preapproved := None\<rparr>)"
proof -
  have "sc_preview (snd (approve_changes sha confirm writes t)) = sc_preview t" for t :: "'a scaffold"
    by (simp add: approve_changes_def Let_def)
  then have "sc_preapproved s' = Some (planned_digest sha writes)"
    using assms(1) by (auto simp: preview_approval_def Let_def split: prod.splits bool.splits) (metis snd_conv scaffold.select_convs(6) scaffold.surjective scaffold.update_convs(6))
  then show ?thesis using assms(2) by (simp add: approve_changes_def Let_def)
qed

end
