(* ===== verification/KubeCluster.thy ===== *)
theory KubeCluster
  imports
  KubeModels
  Scaffold
  Diagnosis
  Publish
  Profile
begin

text \<open>
  The Kubernetes backend (\<open>KubeaiBackend\<close> of \<open>backends/kubeai.py\<close>): what frees room for a pod that cannot be
  scheduled, rendering the Models and the gateway in front of them, applying the render and pruning the rest.

  The cluster is a parameter: a record of \<open>kubectl\<close>'s answers on its state, each of which may fail. So is the
  gateway (a Compose project on this host, or objects in the cluster). Objects of the API are what the
  code reads of them, a field that may be missing an option; labels and quantities are strings.
\<close>

section \<open>Making room for a pod\<close>

record taint =
  tt_key :: "string option"
  tt_value :: "string option"
  tt_effect :: "string option"

record toleration =
  to_key :: "string option"
  to_operator :: "string option"
  to_value :: "string option"
  to_effect :: "string option"

record pod_spec =
  ps_scheduler :: "string option"
  ps_affinity :: "(string, (string, json) dict) dict"
  ps_spread :: "string option list"
  ps_selector :: "(string, string) dict"
  ps_tolerations :: "toleration list"
  ps_node :: "string option"
  ps_requests :: "string list list"
  ps_limits :: "string list list"
  ps_images :: "string list"

record pod_condition =
  cn_type :: "string option"
  cn_status :: "string option"
  cn_reason :: "string option"
  cn_message :: "string option"

record pod =
  pd_deployment :: "string option"
  pd_spec :: pod_spec
  pd_conditions :: "pod_condition list"
  pd_statuses :: "(string option \<times> bool) list"

record sched_node =
  sn_name :: string
  sn_labels :: "(string, string) dict"
  sn_unschedulable :: bool
  sn_taints :: "taint list"

text \<open>\<open>re.findall(r'Insufficient ([A-Za-z0-9./_-]+?)[,.]?(?:\s|$)', message)\<close>: the shortest name an end follows.\<close>

definition resource_char :: "char \<Rightarrow> bool" where
  "resource_char c \<longleftrightarrow> is_alpha c \<or> is_digit c \<or> c \<in> {CHR ''.'', CHR ''/'', CHR ''_'', CHR ''-''}"

definition name_end :: "string \<Rightarrow> string option" where
  "name_end s = (case s of [] \<Rightarrow> Some []
     | c # t \<Rightarrow> if py_space c then Some t
         else if c = CHR '','' \<or> c = CHR ''.'' then
           (case t of [] \<Rightarrow> Some [] | d # u \<Rightarrow> if py_space d then Some u else None)
         else None)"

fun resource_name :: "string \<Rightarrow> string \<Rightarrow> (string \<times> string) option" where
  "resource_name acc [] = None"
| "resource_name acc (c # s) = (if \<not> resource_char c then None
     else case name_end s of Some rest \<Rightarrow> Some (acc @ [c], rest) | None \<Rightarrow> resource_name (acc @ [c]) s)"

lemma name_end_shorter: "name_end s = Some rest \<Longrightarrow> length rest \<le> length s"
  by (auto simp: name_end_def split: list.splits if_splits)

lemma resource_name_shorter: "resource_name acc s = Some (n, rest) \<Longrightarrow> length rest < length s"
  by (induction acc s rule: resource_name.induct) (auto dest: name_end_shorter split: if_splits option.splits)

function insufficient_resources :: "string \<Rightarrow> string list" where
  "insufficient_resources [] = []"
| "insufficient_resources (c # s) =
     (if is_prefix ''Insufficient '' (c # s) then
        (case resource_name [] (drop 12 s) of
           Some (n, rest) \<Rightarrow> n # insufficient_resources rest
         | None \<Rightarrow> insufficient_resources s)
      else insufficient_resources s)"
  by pat_completeness auto
termination
  by (relation "measure length") (auto dest: resource_name_shorter)

definition tolerated_by :: "taint \<Rightarrow> toleration \<Rightarrow> bool" where
  "tolerated_by taint t \<longleftrightarrow>
     \<not> (given (to_effect t) \<and> to_effect t \<noteq> tt_effect taint) \<and>
     (if to_operator t = Some ''Exists'' then \<not> given (to_key t) \<or> to_key t = tt_key taint
      else to_key t = tt_key taint \<and> to_value t = tt_value taint)"

definition tolerates :: "toleration list \<Rightarrow> taint \<Rightarrow> bool" where
  "tolerates ts taint \<longleftrightarrow> tt_effect taint \<notin> {Some ''NoSchedule'', Some ''NoExecute''} \<or> list_ex (tolerated_by taint) ts"

definition required_affinity :: "pod_spec \<Rightarrow> bool" where
  "required_affinity p \<longleftrightarrow> list_ex (\<lambda>kind. truthy (rt_get (case dget (ps_affinity p) kind of None \<Rightarrow> [] | Some a \<Rightarrow> a)
     ''requiredDuringSchedulingIgnoredDuringExecution'')) [''nodeAffinity'', ''podAffinity'', ''podAntiAffinity'']"

definition spread_forbids :: "pod_spec \<Rightarrow> bool" where
  "spread_forbids p \<longleftrightarrow> list_ex (\<lambda>w. w = None \<or> w = Some ''DoNotSchedule'') (ps_spread p)"

definition node_admits :: "pod_spec \<Rightarrow> sched_node \<Rightarrow> bool" where
  "node_admits p n \<longleftrightarrow> \<not> sn_unschedulable n \<and> list_all (\<lambda>(k, v). dget (sn_labels n) k = Some v) (ps_selector p)
     \<and> list_all (tolerates (ps_tolerations p)) (sn_taints n)"

text \<open>\<open>None\<close>: other filters apply, so the answer is not known.\<close>

definition eligible_nodes :: "pod_spec \<Rightarrow> sched_node list \<Rightarrow> string list option" where
  "eligible_nodes p nodes =
     (if ps_scheduler p \<notin> {None, Some [], Some ''default-scheduler''} \<or> required_affinity p \<or> spread_forbids p then None
      else Some (map sn_name (filter (node_admits p) nodes)))"

definition pod_requests :: "pod \<Rightarrow> string list" where
  "pod_requests p = concat (ps_requests (pd_spec p)) @ concat (ps_limits (pd_spec p))"

definition shortage :: "pod_condition \<Rightarrow> string list" where
  "shortage cond = (if cn_reason cond = Some ''Unschedulable'' \<and> cn_status cond = Some ''False''
     then insufficient_resources (case cn_message cond of None \<Rightarrow> [] | Some m \<Rightarrow> m) else [])"

definition shortage_step :: "sched_node list \<Rightarrow> pod \<times> pod_condition \<Rightarrow> string list \<times> string list option \<Rightarrow> string list \<times> string list option" where
  "shortage_step nodes pc acc = (case (pc, acc) of ((p, cond), (short, places)) \<Rightarrow>
     let found = shortage cond in
     if found = [] then (short, places)
     else (short @ found, (case eligible_nodes (pd_spec p) nodes of None \<Rightarrow> None
             | Some ns \<Rightarrow> map_option (\<lambda>w. w @ ns) places)))"

definition shortages :: "string \<Rightarrow> pod list \<Rightarrow> sched_node list \<Rightarrow> string list \<times> string list option" where
  "shortages did pods nodes = fold (shortage_step nodes)
     (concat (map (\<lambda>p. map (Pair p) (pd_conditions p)) (filter (\<lambda>p. pd_deployment p = Some did) pods))) ([], Some [])"

text \<open>\<open>None\<close> for what cannot be read.\<close>

definition reclaim_candidates :: "string \<Rightarrow> string list \<Rightarrow> (pod list \<times> sched_node list) option \<Rightarrow> string list" where
  "reclaim_candidates blocked idle cluster = (case cluster of
     None \<Rightarrow> []
   | Some (pods, nodes) \<Rightarrow> (case shortages blocked pods nodes of
       (short, Some places) \<Rightarrow>
         if short = [] \<or> places = [] then []
         else filter (\<lambda>g. list_ex (\<lambda>p. pd_deployment p = Some g
             \<and> (case ps_node (pd_spec p) of None \<Rightarrow> False | Some n \<Rightarrow> n \<in> set places)
             \<and> list_ex (\<lambda>r. r \<in> set short) (pod_requests p)) pods) idle
     | (short, None) \<Rightarrow> []))"

section \<open>How far a Model is\<close>

datatype pod_progress = NotScheduled "string option" | WaitingOn string "string list" "string list" | Creating string "string list"
  | Verifying string | Loading string

definition one_progress :: "pod \<Rightarrow> pod_progress" where
  "one_progress p = (case ps_node (pd_spec p) of
     Some (c # n) \<Rightarrow>
       (let node = c # n; waiting = List.map_filter (\<lambda>(w, _). if given w then w else None) (pd_statuses p) in
        if waiting \<noteq> [] then WaitingOn node waiting (ps_images (pd_spec p))
        else if pd_statuses p = [] then Creating node (ps_images (pd_spec p))
        else if list_all snd (pd_statuses p) then Verifying node else Loading node)
   | _ \<Rightarrow> NotScheduled (case find (\<lambda>c. cn_type c = Some ''PodScheduled'') (pd_conditions p) of
       None \<Rightarrow> None
     | Some c \<Rightarrow> if given (cn_message c) then cn_message c else if given (cn_reason c) then cn_reason c else None))"

text \<open>Ready replicas, replicas, and the different states they are in; \<open>None\<close> without a pod.\<close>

definition model_startup_progress :: "pod list \<Rightarrow> (nat \<times> nat \<times> pod_progress list) option" where
  "model_startup_progress pods = (if pods = [] then None else Some
     (length (filter (\<lambda>p. list_ex (\<lambda>c. cn_type c = Some ''Ready'' \<and> cn_status c = Some ''True'') (pd_conditions p)) pods),
      length pods, remdups (map one_progress pods)))"

section \<open>The backend\<close>

record kube_sidecar =
  ks_models :: "(string, string) dict"
  ks_requests :: "(string, string) dict"

definition no_kube_sidecar :: kube_sidecar where "no_kube_sidecar = \<lparr>ks_models = [], ks_requests = []\<rparr>"

text \<open>\<open>kubectl\<close>'s answers: the managed Models with their deployment labels, the service's address, pods and nodes.\<close>

record ('c, 'e) kubectl =
  kc_models :: "'c \<Rightarrow> 'e + (string \<times> string option) list"
  kc_apply :: "string \<Rightarrow> ('c, 'e, unit) meth"
  kc_delete :: "string \<Rightarrow> ('c, 'e, unit) meth"
  kc_address :: "'c \<Rightarrow> 'e + string"
  kc_pods_json :: "'c \<Rightarrow> 'e + json option"
  kc_pods :: "'c \<Rightarrow> 'e + pod list"
  kc_nodes :: "'c \<Rightarrow> 'e + sched_node list"
  kc_gpu_nodes :: "'c \<Rightarrow> 'e + kube_node list"
  kc_profiles :: "'c \<Rightarrow> 'e + (string, json) dict"

text \<open>The gateway in front: its inputs are the static and the dynamic routes; a render gives its digest.\<close>

record ('g, 'e) kube_gateway =
  kg_in_cluster :: bool
  kg_dynamic :: bool
  kg_preview :: "route list \<times> route list \<Rightarrow> bool \<Rightarrow> ('g, 'e, string option) meth"
  kg_converge :: "route list \<times> route list \<Rightarrow> ('g, 'e, string option) meth"
  kg_retire :: "('g, 'e, bool) meth"
  kg_apply :: "('g, 'e, apply_value) meth"
  kg_down :: "('g, 'e, unit) meth"

record ('c, 'g) kube =
  kb_namespace :: string
  kb_base_url :: string
  kb_default_profile :: "string option"
  kb_upstream :: "string option"
  kb_catalog :: "gw_catalog option"
  kb_measured :: "gw_deployment \<Rightarrow> rat option"
  kb_scaffold :: "kube_sidecar scaffold"
  kb_errors :: "model_problem list"
  kb_unplaced :: "string list"
  kb_cluster :: 'c
  kb_gateway :: "'g option"

datatype 'e kube_error = NotApproved | NoClusterAddress | KubectlFailed 'e | GatewayFailed 'e | RenderFailed py_error
  | PodsUnknown residency_error

type_synonym ('c, 'g, 'e, 'a) kube_step = "(('c, 'g) kube, 'e kube_error, 'a) meth"

definition ask_cluster :: "('c \<Rightarrow> 'e + 'a) \<Rightarrow> ('c, 'g, 'e, 'a) kube_step" where
  "ask_cluster f b = (case f (kb_cluster b) of Inl e \<Rightarrow> (Inl (KubectlFailed e), b) | Inr x \<Rightarrow> (Inr x, b))"

definition run_cluster :: "('c, 'e, 'a) meth \<Rightarrow> ('c, 'g, 'e, 'a) kube_step" where
  "run_cluster m b = (case m (kb_cluster b) of
     (Inl e, c) \<Rightarrow> (Inl (KubectlFailed e), b\<lparr>kb_cluster := c\<rparr>) | (Inr x, c) \<Rightarrow> (Inr x, b\<lparr>kb_cluster := c\<rparr>))"

text \<open>What the gateway says if there is one.\<close>

definition run_gateway :: "'a \<Rightarrow> ('g, 'e, 'a) meth \<Rightarrow> ('c, 'g, 'e, 'a) kube_step" where
  "run_gateway absent m b = (case kb_gateway b of None \<Rightarrow> (Inr absent, b)
     | Some g \<Rightarrow> (case m g of (Inl e, g') \<Rightarrow> (Inl (GatewayFailed e), b\<lparr>kb_gateway := Some g'\<rparr>)
         | (Inr x, g') \<Rightarrow> (Inr x, b\<lparr>kb_gateway := Some g'\<rparr>)))"

definition kube_dynamic :: "('g, 'e) kube_gateway \<Rightarrow> ('c, 'g) kube \<Rightarrow> bool" where
  "kube_dynamic G b \<longleftrightarrow> kb_gateway b \<noteq> None \<and> kg_dynamic G"

section \<open>The routes of the front door\<close>

definition rstrip_slash :: "string \<Rightarrow> string" where "rstrip_slash = rstrip_char (CHR ''/'')"

definition upstream_url :: "('c, 'e) kubectl \<Rightarrow> ('g, 'e) kube_gateway \<Rightarrow> ('c, 'g, 'e, string) kube_step" where
  "upstream_url K G =
     mt_bind (mt_get (\<lambda>b. b)) (\<lambda>b.
       if \<not> given (kb_upstream b) \<and> kb_gateway b \<noteq> None \<and> kg_in_cluster G then
         mt_return (''http://kubeai.'' @ kb_namespace b @ ''.svc.cluster.local/openai/v1'')
       else if \<not> given (kb_upstream b) then
         mt_bind (ask_cluster (kc_address K)) (\<lambda>ip.
           if py_strip ip = [] then mt_raise NoClusterAddress
           else let url = ''http://'' @ py_strip ip @ ''/openai/v1'' in
             mt_bind (mt_modify (\<lambda>b. b\<lparr>kb_upstream := Some url\<rparr>)) (\<lambda>_. mt_return (rstrip_slash url)))
       else mt_return (rstrip_slash (the (kb_upstream b))))"

definition kube_catalog_route :: "(string \<Rightarrow> string) \<Rightarrow> (json \<Rightarrow> string) \<Rightarrow> string \<Rightarrow> string \<Rightarrow> json \<Rightarrow> py_error + route option" where
  "kube_catalog_route sha repr base alias req =
     bind_err (py_get ''engine'' req) (\<lambda>engine.
       if engine \<noteq> JStr ''vllm'' then Inr None
       else bind_err (bind_err (py_get ''served'' req) (py_get ''served_model_name'')) (\<lambda>name.
         bind_err (bind_err (bind_err (py_get ''spec'' req) (py_get ''runtime'')) window_of) (\<lambda>window.
           Inr (Some \<lparr>gr_alias = alias, gr_kind = ''openai'',
             gr_model = JStr (model_name_for sha (py_str repr (py_or name (JStr alias))) None), gr_base = base,
             gr_key_env = JNull, gr_id = None, gr_origin = ''catalog'', gr_window = window\<rparr>))))"

definition kube_catalog_routes :: "(string \<Rightarrow> string) \<Rightarrow> (json \<Rightarrow> string) \<Rightarrow> string \<Rightarrow> gw_catalog option \<Rightarrow> route list" where
  "kube_catalog_routes sha repr base cat = catalog_routes sha (kube_catalog_route sha repr base) False cat"

definition find_deployment :: "kube_deployment list \<Rightarrow> string \<Rightarrow> gw_deployment option" where
  "find_deployment desired g = map_option kd_base (find (\<lambda>k. kd_id k = g) (rev desired))"

definition dynamic_model_routes :: "(string \<Rightarrow> string) \<Rightarrow> gw_catalog option \<Rightarrow> kube_deployment list \<Rightarrow> string \<Rightarrow> string \<times> string
    \<Rightarrow> py_error + route list" where
  "dynamic_model_routes sha cat desired base m = (case m of (name, g) \<Rightarrow>
     (case find_deployment desired g of None \<Rightarrow> Inl KeyError
      | Some d \<Rightarrow> map_err (\<lambda>endpoint. bind_err (deployment_route_max_input_tokens d endpoint cat) (\<lambda>window.
            Inr (upstream_route sha g endpoint (JStr name) base window))) (sort (dkeys (gd_served d)))))"

definition static_model_route :: "gw_catalog option \<Rightarrow> kube_deployment list \<Rightarrow> rendered_models \<Rightarrow> string list \<Rightarrow> string
    \<Rightarrow> string \<times> string \<Rightarrow> py_error + route" where
  "static_model_route cat desired out defined base request = (case request of (alias, name) \<Rightarrow>
     bind_err (case find_deployment desired (case dget (rm_models out) name of None \<Rightarrow> [] | Some g \<Rightarrow> g) of
         None \<Rightarrow> Inr JNull | Some d \<Rightarrow> deployment_route_max_input_tokens d alias cat) (\<lambda>window.
       Inr \<lparr>gr_alias = alias, gr_kind = ''openai'', gr_model = JStr name, gr_base = base, gr_key_env = JNull, gr_id = None,
         gr_origin = (if alias \<in> set defined then ''catalog'' else ''upstream''), gr_window = window\<rparr>))"

definition model_routes :: "(string \<Rightarrow> string) \<Rightarrow> (json \<Rightarrow> string) \<Rightarrow> bool \<Rightarrow> gw_catalog option \<Rightarrow> kube_deployment list
    \<Rightarrow> rendered_models \<Rightarrow> string \<Rightarrow> py_error + (route list \<times> route list)" where
  "model_routes sha repr dynamic cat desired out base =
     (if dynamic then
        bind_err (map_err (dynamic_model_routes sha cat desired base) (sort (rm_models out))) (\<lambda>rss.
          Inr ([], concat rss @ catalog_routes sha (compose_catalog_route repr) True cat))
      else let catalog = kube_catalog_routes sha repr base cat in
        bind_err (map_err (static_model_route cat desired out (map gr_alias catalog) base) (rm_requests out)) (\<lambda>models.
          Inr (route_table [catalog, models], [])))"

definition render_error :: "py_error + 'a \<Rightarrow> 'e kube_error + 'a" where
  "render_error r = (case r of Inl e \<Rightarrow> Inl (RenderFailed e) | Inr x \<Rightarrow> Inr x)"

definition front_door_inputs :: "('c, 'e) kubectl \<Rightarrow> ('g, 'e) kube_gateway \<Rightarrow> (string \<Rightarrow> string) \<Rightarrow> (json \<Rightarrow> string)
    \<Rightarrow> kube_deployment list \<Rightarrow> rendered_models \<Rightarrow> ('c, 'g, 'e, route list \<times> route list) kube_step" where
  "front_door_inputs K G sha repr desired out =
     mt_bind (mt_get (\<lambda>b. kb_gateway b = None)) (\<lambda>absent.
       if absent then mt_return ([], [])
       else mt_bind (upstream_url K G) (\<lambda>base.
         mt_lift (\<lambda>b. render_error (model_routes sha repr (kube_dynamic G b) (kb_catalog b) desired out base))))"

section \<open>The render\<close>

text \<open>A declared size stays; a missing one is what was measured.\<close>

definition enrich_min_vram :: "(gw_deployment \<Rightarrow> rat option) \<Rightarrow> kube_deployment \<Rightarrow> kube_deployment" where
  "enrich_min_vram measured k =
     (if gd_engine (kd_base k) \<noteq> ''vllm'' \<or> or_rat (kd_vram k) 0 \<noteq> 0 \<or> or_rat (measured (kd_base k)) 0 = 0 then k
      else k\<lparr>kd_vram := measured (kd_base k)\<rparr>)"

fun needs_sizing :: "kube_deployment list \<Rightarrow> py_error + bool" where
  "needs_sizing [] = Inr False"
| "needs_sizing (k # ks) =
     (if or_rat (kd_vram k) 0 = 0 then needs_sizing ks
      else bind_err (as_dict (rt_get (gd_spec (kd_base k)) ''runtime'')) (\<lambda>rt.
        if \<not> truthy (rt_get rt ''resource_profile'') then Inr True else needs_sizing ks))"

text \<open>Reading the GPUs is best effort: what cannot be read has no size.\<close>

definition gpu_facts :: "('c, 'e) kubectl \<Rightarrow> (json \<Rightarrow> string) \<Rightarrow> 'c \<Rightarrow> (string, node_facts) dict \<times> (string, rat) dict" where
  "gpu_facts K repr c =
     (let facts = (case kc_gpu_nodes K c of Inl _ \<Rightarrow> [] | Inr nodes \<Rightarrow> (case node_gpus nodes of Inl _ \<Rightarrow> [] | Inr f \<Rightarrow> f))
      in (facts, case kc_profiles K c of Inl _ \<Rightarrow> []
        | Inr profiles \<Rightarrow> (case sized_profiles repr profiles facts of Inl _ \<Rightarrow> [] | Inr sized \<Rightarrow> sized)))"

definition MODELS_FILENAME :: string where "MODELS_FILENAME = ''models.yaml''"

definition models_text :: "(json \<Rightarrow> string) \<Rightarrow> json list \<Rightarrow> string" where
  "models_text yaml docs = join (''---'' @ [CHR 0x0A]) (map yaml docs)"

definition kube_render :: "('c, 'e) kubectl \<Rightarrow> ('g, 'e) kube_gateway \<Rightarrow> (string \<Rightarrow> string) \<Rightarrow> (json \<Rightarrow> string)
    \<Rightarrow> kube_deployment list \<Rightarrow> ('c, 'g) kube \<Rightarrow> py_error + rendered_models" where
  "kube_render K G sha repr desired b =
     (let ds = map (enrich_min_vram (kb_measured b)) desired in
      bind_err (needs_sizing ds) (\<lambda>sizing.
        render_models sha repr (kb_namespace b) (kb_default_profile b) (kube_dynamic G b)
          (if sizing then snd (gpu_facts K repr (kb_cluster b)) else []) ds))"

text \<open>The plan gives every renderable deployment no GPUs.\<close>

definition kube_plan :: "kube_deployment list \<Rightarrow> rendered_models \<Rightarrow> (string, int list) dict" where
  "kube_plan desired out =
     fold (\<lambda>k. dput (kd_id k) []) (filter (\<lambda>k. kd_id k \<notin> set (rm_unrenderable out)) desired) []"

definition on_scaffold :: "(kube_sidecar scaffold \<Rightarrow> bool \<times> kube_sidecar scaffold) \<Rightarrow> ('c, 'g, 'e, unit) kube_step" where
  "on_scaffold f b = (case f (kb_scaffold b) of
     (True, s) \<Rightarrow> (Inr (), b\<lparr>kb_scaffold := s\<rparr>) | (False, s) \<Rightarrow> (Inl NotApproved, b\<lparr>kb_scaffold := s\<rparr>))"

definition combined_digest :: "(string \<Rightarrow> string) \<Rightarrow> string option \<Rightarrow> string option \<Rightarrow> string option" where
  "combined_digest sha models gateway = (case gateway of None \<Rightarrow> models
     | Some g \<Rightarrow> Some (planned_digest sha [(''models'', case models of None \<Rightarrow> [] | Some m \<Rightarrow> m), (''gateway'', g)]))"

definition set_front_door :: "('c, 'e) kubectl \<Rightarrow> ('g, 'e) kube_gateway \<Rightarrow> (string \<Rightarrow> string) \<Rightarrow> (json \<Rightarrow> string)
    \<Rightarrow> kube_deployment list \<Rightarrow> rendered_models \<Rightarrow> (route list \<times> route list \<Rightarrow> ('g, 'e, string option) meth)
    \<Rightarrow> ('c, 'g, 'e, string option) kube_step" where
  "set_front_door K G sha repr desired out m =
     mt_bind (front_door_inputs K G sha repr desired out) (\<lambda>routes. run_gateway None (m routes))"

definition kube_preview :: "('c, 'e) kubectl \<Rightarrow> ('g, 'e) kube_gateway \<Rightarrow> (string \<Rightarrow> string) \<Rightarrow> (json \<Rightarrow> string) \<Rightarrow> (json \<Rightarrow> string)
    \<Rightarrow> ((string, string) dict \<Rightarrow> bool) \<Rightarrow> bool \<Rightarrow> kube_deployment list
    \<Rightarrow> ('c, 'g, 'e, (string, int list) dict \<times> rendered_models) kube_step" where
  "kube_preview K G sha repr yaml confirm approve desired =
     mt_bind (mt_lift (\<lambda>b. render_error (kube_render K G sha repr desired b))) (\<lambda>out.
     mt_bind (on_scaffold (preview_approval sha confirm approve [(MODELS_FILENAME, models_text yaml (rm_docs out))])) (\<lambda>_.
     mt_bind (set_front_door K G sha repr desired out (\<lambda>routes. kg_preview G routes approve)) (\<lambda>gateway.
     mt_bind (mt_modify (\<lambda>b. b\<lparr>kb_scaffold := (kb_scaffold b)\<lparr>sc_preview := combined_digest sha (sc_preview (kb_scaffold b)) gateway\<rparr>\<rparr>)) (\<lambda>_.
       mt_return (kube_plan desired out, out)))))"

definition kube_converge :: "('c, 'e) kubectl \<Rightarrow> ('g, 'e) kube_gateway \<Rightarrow> (string \<Rightarrow> string) \<Rightarrow> (json \<Rightarrow> string) \<Rightarrow> (json \<Rightarrow> string)
    \<Rightarrow> ((string, string) dict \<Rightarrow> bool) \<Rightarrow> kube_deployment list \<Rightarrow> ('c, 'g, 'e, unit) kube_step" where
  "kube_converge K G sha repr yaml confirm desired =
     mt_bind (mt_lift (\<lambda>b. render_error (kube_render K G sha repr desired b))) (\<lambda>out.
     let writes = [(MODELS_FILENAME, models_text yaml (rm_docs out))]; digest = planned_digest sha writes in
     mt_bind (mt_modify (\<lambda>b. b\<lparr>kb_errors := rm_errors out, kb_unplaced := rm_unrenderable out,
         kb_scaffold := (kb_scaffold b)\<lparr>sc_planned := Some digest\<rparr>\<rparr>)) (\<lambda>_.
     mt_bind (on_scaffold (approve_changes sha confirm writes)) (\<lambda>_.
     mt_bind (mt_modify (\<lambda>b. b\<lparr>kb_scaffold := save_sidecar \<lparr>ks_models = rm_models out, ks_requests = rm_requests out\<rparr>
         (write_files writes (kb_scaffold b))\<rparr>)) (\<lambda>_.
     mt_bind (set_front_door K G sha repr desired out (kg_converge G)) (\<lambda>gateway.
       mt_modify (\<lambda>b. b\<lparr>kb_scaffold := (kb_scaffold b)\<lparr>sc_planned := combined_digest sha (Some digest) gateway\<rparr>\<rparr>))))))"

section \<open>Applying the render\<close>

text \<open>A dictionary of the managed Models: of two items of one name the later.\<close>

definition cluster_models :: "('c, 'e) kubectl \<Rightarrow> ('c, 'g, 'e, (string, string option) dict) kube_step" where
  "cluster_models K = mt_bind (ask_cluster (kc_models K)) (\<lambda>items.
     mt_return (fold (\<lambda>(n, g). dput n g) (filter (\<lambda>(n, g). n \<noteq> []) items) []))"

definition delete_models :: "('c, 'e) kubectl \<Rightarrow> string list \<Rightarrow> ('c, 'g, 'e, unit) kube_step" where
  "delete_models K names = mt_each (\<lambda>n. run_cluster (kc_delete K n)) names"

definition applied_fully :: apply_result where "applied_fully = \<lparr>ar_runtime = True, ar_routes = True, ar_detail = []\<rparr>"

definition routes_stay :: apply_result where
  "routes_stay = \<lparr>ar_runtime = False, ar_routes = False,
     ar_detail = ''routes to departing Models could not be removed; nothing was deleted''\<rparr>"

definition wanted_models :: "('c, 'g) kube \<Rightarrow> string list" where
  "wanted_models b = dkeys (ks_models (load_sidecar no_kube_sidecar (kb_scaffold b)))"

definition kube_apply :: "('c, 'e) kubectl \<Rightarrow> ('g, 'e) kube_gateway \<Rightarrow> ('c, 'g, 'e, apply_result) kube_step" where
  "kube_apply K G =
     mt_bind (mt_get (\<lambda>b. (dget (sc_files (kb_scaffold b)) MODELS_FILENAME, wanted_models b))) (\<lambda>(file, wanted).
       case file of None \<Rightarrow> mt_return applied_fully
       | Some text \<Rightarrow>
           mt_bind (if py_strip text = [] then mt_return () else run_cluster (kc_apply K text)) (\<lambda>_.
           mt_bind (cluster_models K) (\<lambda>models.
           let stale = filter (\<lambda>n. n \<notin> set wanted) (dkeys models) in
           mt_bind (if stale = [] then mt_return True else run_gateway True (kg_retire G)) (\<lambda>retired.
             if \<not> retired then mt_return routes_stay
             else mt_bind (delete_models K (sort stale)) (\<lambda>_.
               mt_bind (run_gateway ApplyNone (kg_apply G)) (\<lambda>v.
                 mt_return (ar_and applied_fully (apply_result_of v))))))))"

definition kube_down :: "('c, 'e) kubectl \<Rightarrow> ('g, 'e) kube_gateway \<Rightarrow> ('c, 'g, 'e, unit) kube_step" where
  "kube_down K G = mt_bind (cluster_models K) (\<lambda>models.
     mt_bind (delete_models K (sort (dkeys models))) (\<lambda>_. run_gateway () (kg_down G)))"

section \<open>Reading the cluster\<close>

definition kube_observe :: "('c, 'e) kubectl \<Rightarrow> ('c, 'g) kube \<Rightarrow> string list" where
  "kube_observe K b = (case cluster_models K b of
     (Inl _, _) \<Rightarrow> [] | (Inr models, _) \<Rightarrow> remdups (List.map_filter (\<lambda>g. if given g then g else None) (dvals models)))"

definition kube_residency :: "('c, 'e) kubectl \<Rightarrow> (json \<Rightarrow> string) \<Rightarrow> ('c, 'g) kube \<Rightarrow> 'e kube_error + residency" where
  "kube_residency K repr b = (case kc_pods_json K (kb_cluster b) of
     Inl e \<Rightarrow> Inl (KubectlFailed e)
   | Inr data \<Rightarrow> (case residency_from_pods repr data of Inl e \<Rightarrow> Inl (PodsUnknown e) | Inr res \<Rightarrow> Inr res))"

definition kube_startup_failure :: "('c, 'e) kubectl \<Rightarrow> (json \<Rightarrow> string) \<Rightarrow> (string \<Rightarrow> container \<Rightarrow> string) \<Rightarrow> string
    \<Rightarrow> ('c, 'g) kube \<Rightarrow> string option" where
  "kube_startup_failure K repr logs did b = (case kube_residency K repr b of
     Inl _ \<Rightarrow> None
   | Inr res \<Rightarrow> diagnose_startup (units res did) (join [CHR 0x0A] (filter (\<lambda>t. t \<noteq> []) (map (logs did) (units res did))))
       (r_replicated res) (Some (logs did)))"

text \<open>A request name: the alias behind a gateway, else the rendered Model's or the one it would have.\<close>

definition kube_request_names :: "(string \<Rightarrow> string) \<Rightarrow> ('c, 'g) kube \<Rightarrow> string list \<Rightarrow> (string, string) dict" where
  "kube_request_names sha b endpoints = fold (\<lambda>e. dput e (if kb_gateway b \<noteq> None then e
     else case dget (ks_requests (load_sidecar no_kube_sidecar (kb_scaffold b))) e of
       Some n \<Rightarrow> n | None \<Rightarrow> model_name_for sha e None)) endpoints []"

definition recovery_blockers :: "('c, 'e) kubectl \<Rightarrow> (json \<Rightarrow> string) \<Rightarrow> ('c, 'g, 'e, string list) kube_step" where
  "recovery_blockers K repr = mt_bind (cluster_models K) (\<lambda>models.
     mt_bind (mt_lift (kube_residency K repr)) (\<lambda>res.
     mt_bind (mt_get kb_namespace) (\<lambda>ns.
       mt_return (map (\<lambda>n. ''Model/'' @ n) (dkeys models) @ map un_name (from_residency res KUBERNETES ns [])))))"

section \<open>Evicting only what helps\<close>

lemma shortage_fold:
  "fold (shortage_step nodes) pcs (short, places) = (short @ concat (map (shortage \<circ> snd) pcs),
     if list_ex (\<lambda>(p, c). shortage c \<noteq> [] \<and> eligible_nodes (pd_spec p) nodes = None) pcs then None
     else map_option (\<lambda>w. w @ concat (map (\<lambda>(p, c). if shortage c = [] then [] else the (eligible_nodes (pd_spec p) nodes)) pcs)) places)"
proof (induction pcs arbitrary: short places)
  case Nil
  then show ?case by (cases places) auto
next
  case (Cons pc pcs)
  then show ?case
    by (cases pc) (auto simp: shortage_step_def Let_def option.map_comp comp_def split: option.split)
qed

text \<open>A pod of the blocked deployment the scheduler refused for lack of room.\<close>

definition short_pod :: "string \<Rightarrow> pod list \<Rightarrow> pod \<Rightarrow> string \<Rightarrow> bool" where
  "short_pod did pods p r \<longleftrightarrow> p \<in> set pods \<and> pd_deployment p = Some did \<and> (\<exists>c \<in> set (pd_conditions p). r \<in> set (shortage c))"

lemma shortages_known:
  assumes "shortages did pods nodes = (short, Some places)"
  shows "r \<in> set short \<longleftrightarrow> (\<exists>p. short_pod did pods p r)"
    and "n \<in> set places \<longleftrightarrow> (\<exists>p r node. short_pod did pods p r \<and> node \<in> set nodes \<and> node_admits (pd_spec p) node \<and> sn_name node = n)"
    and "short_pod did pods p r' \<Longrightarrow> eligible_nodes (pd_spec p) nodes \<noteq> None"
proof -
  let ?pcs = "concat (map (\<lambda>p. map (Pair p) (pd_conditions p)) (filter (\<lambda>p. pd_deployment p = Some did) pods))"
  have m: "(p, c) \<in> set ?pcs \<longleftrightarrow> p \<in> set pods \<and> pd_deployment p = Some did \<and> c \<in> set (pd_conditions p)" for p c by auto
  have known: "shortage c \<noteq> [] \<Longrightarrow> (p, c) \<in> set ?pcs \<Longrightarrow> eligible_nodes (pd_spec p) nodes \<noteq> None" for p c
    using assms unfolding shortages_def shortage_fold by (auto simp: list_ex_iff split: if_splits)
  have s: "short = concat (map (shortage \<circ> snd) ?pcs)"
    and pl: "places = concat (map (\<lambda>(p, c). if shortage c = [] then [] else the (eligible_nodes (pd_spec p) nodes)) ?pcs)"
    using assms unfolding shortages_def shortage_fold by (auto split: if_splits)
  show "r \<in> set short \<longleftrightarrow> (\<exists>p. short_pod did pods p r)"
    unfolding s short_pod_def set_concat set_map using m by (force simp: comp_def)
  show "eligible_nodes (pd_spec p) nodes \<noteq> None" if sp: "short_pod did pods p r'"
  proof -
    obtain c where c: "c \<in> set (pd_conditions p)" "r' \<in> set (shortage c)" "p \<in> set pods" "pd_deployment p = Some did"
      using sp unfolding short_pod_def by blast
    then have "shortage c \<noteq> []" "(p, c) \<in> set ?pcs" using m by auto
    then show ?thesis by (rule known)
  qed
  have e: "eligible_nodes q nodes \<noteq> None \<Longrightarrow> the (eligible_nodes q nodes) = map sn_name (filter (node_admits q) nodes)" for q
    by (auto simp: eligible_nodes_def split: if_splits)
  show "n \<in> set places \<longleftrightarrow> (\<exists>p r node. short_pod did pods p r \<and> node \<in> set nodes \<and> node_admits (pd_spec p) node \<and> sn_name node = n)"
  proof
    assume "n \<in> set places"
    then obtain p c where pc: "(p, c) \<in> set ?pcs" "shortage c \<noteq> []" "n \<in> set (the (eligible_nodes (pd_spec p) nodes))"
      unfolding pl by (auto split: if_splits)
    then obtain r where "r \<in> set (shortage c)" by (cases "shortage c") auto
    then show "\<exists>p r node. short_pod did pods p r \<and> node \<in> set nodes \<and> node_admits (pd_spec p) node \<and> sn_name node = n"
      using pc e[OF known[OF pc(2,1)]] m unfolding short_pod_def by auto
  next
    assume "\<exists>p r node. short_pod did pods p r \<and> node \<in> set nodes \<and> node_admits (pd_spec p) node \<and> sn_name node = n"
    then obtain p r c node where a: "p \<in> set pods" "pd_deployment p = Some did" "c \<in> set (pd_conditions p)" "r \<in> set (shortage c)"
      "node \<in> set nodes" "node_admits (pd_spec p) node" "sn_name node = n" unfolding short_pod_def by blast
    then have pc: "(p, c) \<in> set ?pcs" "shortage c \<noteq> []" using m by auto
    have "n \<in> set (the (eligible_nodes (pd_spec p) nodes))" using e[OF known[OF pc(2,1)]] a by auto
    then show "n \<in> set places" unfolding pl using pc by (auto intro!: bexI[of _ "(p, c)"])
  qed
qed

text \<open>
  C24. A warm Model is evicted only where that can help. What is offered for eviction is exactly the idle
  deployments with a pod that requests a resource the blocked deployment's pods are short of, on a node one of those pods is
  admitted to; nothing is offered when the cluster cannot be read, or when one of those pods has constraints
  the code does not evaluate.
\<close>

theorem evictions_can_help:
  "set (reclaim_candidates blocked idle cluster) = (case cluster of None \<Rightarrow> {}
     | Some (pods, nodes) \<Rightarrow>
         if \<exists>q r. short_pod blocked pods q r \<and> eligible_nodes (pd_spec q) nodes = None then {}
         else {g \<in> set idle. \<exists>p r q r' q' node. p \<in> set pods \<and> pd_deployment p = Some g
             \<and> r \<in> set (pod_requests p) \<and> short_pod blocked pods q r
             \<and> node \<in> set nodes \<and> ps_node (pd_spec p) = Some (sn_name node)
             \<and> short_pod blocked pods q' r' \<and> node_admits (pd_spec q') node})"
proof (cases cluster)
  case (Some pn)
  obtain pods nodes where pn: "pn = (pods, nodes)" by (cases pn)
  obtain short places where s: "shortages blocked pods nodes = (short, places)" by (cases "shortages blocked pods nodes")
  show ?thesis
  proof (cases places)
    case None
    then have "\<exists>q r. short_pod blocked pods q r \<and> eligible_nodes (pd_spec q) nodes = None"
      using s unfolding shortages_def shortage_fold short_pod_def
      by (auto simp: list_ex_iff split: if_splits) (metis hd_in_set)
    then show ?thesis using None s by (simp add: Some pn reclaim_candidates_def)
  next
    case (Some ws)
    note k = shortages_known[OF s[unfolded Some]]
    have none: "\<not> (\<exists>q r. short_pod blocked pods q r \<and> eligible_nodes (pd_spec q) nodes = None)" using k(3) by blast
    have "g \<in> set (reclaim_candidates blocked idle cluster) \<longleftrightarrow> g \<in> set idle \<and> (\<exists>p r n. p \<in> set pods \<and> pd_deployment p = Some g
        \<and> r \<in> set (pod_requests p) \<and> r \<in> set short \<and> ps_node (pd_spec p) = Some n \<and> n \<in> set ws)" for g
      unfolding \<open>cluster = Some pn\<close> pn reclaim_candidates_def option.case prod.case s Some
      by (auto simp: list_ex_iff split: option.splits) blast
    then show ?thesis
      unfolding k(1,2) \<open>cluster = Some pn\<close> pn option.case prod.case if_not_P[OF none] by blast
  qed
qed (simp add: reclaim_candidates_def)

section \<open>The profile\<close>

text \<open>The render inputs as a published dictionary, and taking one over. \<open>None\<close> of \<open>use\<close> is \<open>ProfileMismatch\<close>,
  the gateway's own part is its record.\<close>

definition json_of_option :: "string option \<Rightarrow> json" where
  "json_of_option s = (case s of None \<Rightarrow> JNull | Some t \<Rightarrow> JStr t)"

definition option_of_json :: "json \<Rightarrow> string option" where
  "option_of_json v = (case v of JStr t \<Rightarrow> Some t | _ \<Rightarrow> None)"

definition kube_render_profile :: "json \<Rightarrow> json list \<Rightarrow> ('c, 'g) kube \<Rightarrow> json" where
  "kube_render_profile gateway sources b = JObj
     [(''version'', JInt 1), (''backend'', JStr ''kubeai''), (''namespace'', JStr (kb_namespace b)),
      (''base_url'', JStr (kb_base_url b)), (''resource_profile'', json_of_option (kb_default_profile b)),
      (''gateway'', gateway), (''gateway_upstream'', json_of_option (kb_upstream b)), (''catalogs'', JList sources)]"

datatype use_error = ProfileMismatch | BadProfile py_error

definition profile_item :: "(string, json) dict \<Rightarrow> string \<Rightarrow> use_error + json" where
  "profile_item p k = (case dget p k of None \<Rightarrow> Inl (BadProfile KeyError) | Some v \<Rightarrow> Inr v)"

text \<open>The settings taken over; what the gateway is told and the catalogs' sources are returned.\<close>

definition kube_use_profile :: "json \<Rightarrow> ('c, 'g) kube \<Rightarrow> use_error + (('c, 'g) kube \<times> json \<times> json)" where
  "kube_use_profile snapshot b = (case snapshot of
     JObj p \<Rightarrow>
       if rt_get p ''backend'' \<noteq> JStr ''kubeai'' then Inl ProfileMismatch
       else bind_err (profile_item p ''namespace'') (\<lambda>ns.
         bind_err (profile_item p ''base_url'') (\<lambda>url.
         bind_err (profile_item p ''resource_profile'') (\<lambda>rp.
           let upstream = option_of_json (rt_get p ''gateway_upstream'') in
           Inr (b\<lparr>kb_namespace := (case ns of JStr s \<Rightarrow> s | _ \<Rightarrow> []), kb_base_url := (case url of JStr s \<Rightarrow> s | _ \<Rightarrow> []),
                  kb_default_profile := option_of_json rp, kb_upstream := (if given upstream then upstream else kb_upstream b)\<rparr>,
                rt_get p ''gateway'', py_or (rt_get p ''catalogs'') (JList [])))))
   | _ \<Rightarrow> Inl (BadProfile AttributeError))"

text \<open>A process that takes over a published profile renders as the process that published it.\<close>

lemma kube_profile_roundtrip:
  assumes "given (kb_upstream b)"
  shows "\<exists>b2. kube_use_profile (kube_render_profile gateway sources b) b' = Inr (b2, gateway, JList sources)
    \<and> kb_namespace b2 = kb_namespace b \<and> kb_base_url b2 = kb_base_url b \<and> kb_default_profile b2 = kb_default_profile b
    \<and> kb_upstream b2 = kb_upstream b"
proof -
  have o: "option_of_json (json_of_option x) = x" for x by (simp add: option_of_json_def json_of_option_def split: option.split)
  have s: "py_or (JList sources) (JList []) = JList sources" by (simp add: py_or_def truthy_def)
  show ?thesis using assms
    by (simp add: kube_use_profile_def kube_render_profile_def profile_item_def rt_get_def dget_Cons o s)
qed

section \<open>Is a Model ready\<close>

text \<open>\<open>generates\<close> is what a generation through the gateway, or through KubeAI itself, answered: with what it was asked
  (base, model, protocol, headers sent or not), whether it was served, and the reason. Readiness details carry what their text shows.\<close>

datatype ready_detail = NotOnCluster | Served string | WhyNot string | Progress "(nat \<times> nat \<times> pod_progress list) option" | CannotInspect string

record model_readiness =
  mr_ready :: bool
  mr_detail :: ready_detail
  mr_fatal :: bool
  mr_needs_room :: bool

definition served_protocol :: "json \<Rightarrow> json" where
  "served_protocol payload = (case payload of JObj kvs \<Rightarrow> py_or (rt_get kvs ''protocol'') (JStr ''chat'') | _ \<Rightarrow> JStr ''chat'')"

definition asks_for :: "(string \<Rightarrow> string) \<Rightarrow> (json \<Rightarrow> string) \<Rightarrow> string \<Rightarrow> ('c, 'g) kube \<Rightarrow> gw_deployment \<Rightarrow> string \<Rightarrow> string \<times> string \<times> json \<times> bool" where
  "asks_for sha repr gateway_base b d endpoint =
     (let payload = (case dget (gd_served d) endpoint of None \<Rightarrow> JObj [] | Some p \<Rightarrow> p); protocol = served_protocol payload in
      if kb_gateway b \<noteq> None then (gateway_base @ ''/v1'', endpoint, protocol, True)
      else (kb_base_url b, model_name sha repr d False, protocol, False))"

definition pods_readiness :: "('c, 'e) kubectl \<Rightarrow> (json \<Rightarrow> string) \<Rightarrow> (string \<Rightarrow> container \<Rightarrow> string) \<Rightarrow> string \<Rightarrow> string
    \<Rightarrow> ('c, 'g) kube \<Rightarrow> model_readiness" where
  "pods_readiness K repr logs did reason b = (case (kube_residency K repr b, kc_pods K (kb_cluster b)) of
     (Inr res, Inr pods) \<Rightarrow> (case kube_startup_failure K repr logs did b of
         Some why \<Rightarrow> \<lparr>mr_ready = False, mr_detail = WhyNot why, mr_fatal = True, mr_needs_room = False\<rparr>
       | None \<Rightarrow> \<lparr>mr_ready = False, mr_detail = Progress (model_startup_progress (filter (\<lambda>p. pd_deployment p = Some did) pods)),
             mr_fatal = False, mr_needs_room = list_ex (\<lambda>c. c_reason c = ''Unschedulable'' \<and> insufficient_resources (c_message c) \<noteq> [])
               (units res did)\<rparr>)
   | _ \<Rightarrow> \<lparr>mr_ready = False, mr_detail = CannotInspect reason, mr_fatal = False, mr_needs_room = False\<rparr>)"

definition kube_probe_ready :: "('c, 'e) kubectl \<Rightarrow> (string \<Rightarrow> string) \<Rightarrow> (json \<Rightarrow> string) \<Rightarrow> (string \<Rightarrow> container \<Rightarrow> string)
    \<Rightarrow> (string \<times> string \<times> json \<times> bool \<Rightarrow> bool \<times> string) \<Rightarrow> string \<Rightarrow> gw_deployment \<Rightarrow> string \<Rightarrow> ('c, 'g) kube \<Rightarrow> model_readiness" where
  "kube_probe_ready K sha repr logs generates gateway_base d endpoint b =
     (if gd_id d \<notin> set (kube_observe K b) then
        \<lparr>mr_ready = False, mr_detail = NotOnCluster, mr_fatal = False, mr_needs_room = False\<rparr>
      else (case generates (asks_for sha repr gateway_base b d endpoint) of
          (True, reason) \<Rightarrow> \<lparr>mr_ready = True, mr_detail = Served reason, mr_fatal = False, mr_needs_room = False\<rparr>
        | (False, reason) \<Rightarrow> pods_readiness K repr logs (gd_id d) reason b))"

text \<open>Ready means served: nothing else makes a Model ready, and it is ready only if the cluster has its Model.\<close>

lemma kube_ready_means_served:
  "mr_ready (kube_probe_ready K sha repr logs generates gateway_base d endpoint b) \<longleftrightarrow>
     gd_id d \<in> set (kube_observe K b) \<and> fst (generates (asks_for sha repr gateway_base b d endpoint))"
  by (auto simp: kube_probe_ready_def pods_readiness_def split: prod.split bool.split sum.split option.split)

end
