(* ===== verification/KubeApply.thy ===== *)
theory KubeApply
  imports
  KubeCluster
begin

text \<open>
  Applying on a cluster: what the Kubernetes backend relies on of \<open>kubectl\<close>, that its files change only as
  approved, and that after an apply the cluster serves exactly the last render.
\<close>

section \<open>Applying makes the cluster what was rendered\<close>

text \<open>What the code relies on of \<open>kubectl\<close>, \<open>M c\<close> being the managed Models of the cluster and their deployment labels.\<close>

definition doc_name :: "json \<Rightarrow> string" where
  "doc_name doc = (case doc_metadata doc of JObj kvs \<Rightarrow> (case rt_get kvs ''name'' of JStr n \<Rightarrow> n | _ \<Rightarrow> []) | _ \<Rightarrow> [])"

definition doc_deployment :: "json \<Rightarrow> string option" where
  "doc_deployment doc = (case doc_metadata doc of JObj kvs \<Rightarrow> (case rt_get kvs ''labels'' of
       JObj ls \<Rightarrow> (case dget ls pod_deployment_label of Some (JStr g) \<Rightarrow> Some g | _ \<Rightarrow> None) | _ \<Rightarrow> None) | _ \<Rightarrow> None)"

definition kubectl_laws :: "(json \<Rightarrow> string) \<Rightarrow> ('c, 'e) kubectl \<Rightarrow> ('c \<Rightarrow> string \<Rightarrow> string option option) \<Rightarrow> bool" where
  "kubectl_laws yaml K M \<longleftrightarrow>
     (\<forall>doc. \<not> list_all py_space (yaml doc))
     \<and> (\<forall>c items. kc_models K c = Inr items \<longrightarrow> distinct (map fst items) \<and> map_of items = M c \<and> [] \<notin> set (map fst items))
     \<and> (\<forall>docs c c'. kc_apply K (models_text yaml docs) c = (Inr (), c')
          \<longrightarrow> M c' = M c ++ map_of (map (\<lambda>doc. (doc_name doc, doc_deployment doc)) docs))
     \<and> (\<forall>n c c'. kc_delete K n c = (Inr (), c') \<longrightarrow> M c' = (M c)(n := None))"

lemma cluster_models_read:
  assumes "kubectl_laws yaml K M" and "cluster_models K b = (Inr ms, b')"
  shows "b' = b \<and> dget ms = M (kb_cluster b)"
proof -
  obtain items where i: "kc_models K (kb_cluster b) = Inr items" and b: "b' = b"
    and ms: "ms = fold (\<lambda>(n, g). dput n g) (filter (\<lambda>(n, g). n \<noteq> []) items) []"
    using assms(2) by (auto simp: cluster_models_def ask_cluster_def mt_bind_Inr mt_run_Inr split: sum.splits)
  have l: "distinct (map fst items)" "map_of items = M (kb_cluster b)" "[] \<notin> set (map fst items)"
    using assms(1) i unfolding kubectl_laws_def by blast+
  have "filter (\<lambda>(n, g). n \<noteq> []) items = items" using l(3) by (force simp: filter_id_conv)
  moreover have "dget (fold (\<lambda>(n, g). dput n g) xs d) k = (case map_of xs k of None \<Rightarrow> dget d k | Some v \<Rightarrow> Some v)"
    if "distinct (map fst xs)" for xs :: "(string \<times> string option) list" and d k
    using that
  proof (induction xs arbitrary: d)
    case (Cons x xs)
    obtain a v where x: "x = (a, v)" by (cases x)
    have n: "map_of xs a = None" and d: "distinct (map fst xs)" using Cons.prems x by (simp_all add: map_of_eq_None_iff)
    show ?case using Cons.IH[OF d, of "dput a v d"] n by (auto simp: x split: option.splits)
  qed simp
  ultimately have "dget ms k = M (kb_cluster b) k" for k
    using l(1,2) by (auto simp: ms split: option.split)
  then show ?thesis using b by auto
qed

lemma delete_models_run:
  assumes "kubectl_laws yaml K M" and "delete_models K ns b = (Inr (), b')"
  shows "M (kb_cluster b') = M (kb_cluster b) |` (- set ns) \<and> kb_scaffold b' = kb_scaffold b"
  using assms(2) unfolding delete_models_def
proof (induction ns arbitrary: b)
  case (Cons n ns)
  then obtain b1 where b1: "run_cluster (kc_delete K n) b = (Inr (), b1)"
    and r: "mt_each (\<lambda>n. run_cluster (kc_delete K n)) ns b1 = (Inr (), b')" by (auto simp: mt_bind_Inr)
  from b1 have "kc_delete K n (kb_cluster b) = (Inr (), kb_cluster b1)" "kb_scaffold b1 = kb_scaffold b"
    by (auto simp: run_cluster_def split: prod.splits sum.splits)
  moreover have "M (kb_cluster b1) = (M (kb_cluster b))(n := None)"
    using assms(1) calculation(1) unfolding kubectl_laws_def by blast
  moreover note Cons.IH[OF r]
  ultimately show ?case by (auto simp: restrict_map_def fun_eq_iff)
qed (simp add: mt_run_Inr restrict_map_def)

lemma run_gateway_frame:
  "run_gateway a m b = (v, b') \<Longrightarrow> kb_cluster b' = kb_cluster b \<and> kb_scaffold b' = kb_scaffold b"
  by (auto simp: run_gateway_def split: option.splits prod.splits sum.splits)

lemma blank_text: "py_strip s = [] \<Longrightarrow> list_all py_space s"
proof -
  assume b: "py_strip s = []"
  have "dropWhile py_space s = []"
  proof (rule ccontr)
    assume n: "dropWhile py_space s \<noteq> []"
    then have "\<not> py_space (hd (dropWhile py_space s))" by (rule hd_dropWhile)
    moreover have "\<forall>x \<in> set (dropWhile py_space s). py_space x" using b by (simp add: py_strip_def dropWhile_eq_Nil_conv)
    ultimately show False using n by (meson hd_in_set)
  qed
  then show ?thesis by (simp add: dropWhile_eq_Nil_conv list_all_iff)
qed

lemma blank_models_text: "(\<And>doc. \<not> list_all py_space (yaml doc)) \<Longrightarrow> py_strip (models_text yaml docs) = [] \<Longrightarrow> docs = []"
proof -
  assume y: "\<And>doc. \<not> list_all py_space (yaml doc)" and b: "py_strip (models_text yaml docs) = []"
  have "set (yaml doc) \<subseteq> set (join s (map yaml (doc # ds)))" for s doc ds by (cases ds) auto
  then show "docs = []" using blank_text[OF b] y unfolding models_text_def list_all_iff by (cases docs) blast+
qed

text \<open>The render on disk: the manifest and the sidecar that belong together.\<close>

definition rendered_on_disk :: "(json \<Rightarrow> string) \<Rightarrow> rendered_models \<Rightarrow> kube_sidecar scaffold \<Rightarrow> bool" where
  "rendered_on_disk yaml out s \<longleftrightarrow> dget (sc_files s) MODELS_FILENAME = Some (models_text yaml (rm_docs out))
     \<and> sc_sidecar s = Some \<lparr>ks_models = rm_models out, ks_requests = rm_requests out\<rparr>"

definition model_labels :: "rendered_models \<Rightarrow> string \<Rightarrow> string option option" where
  "model_labels out = map_of (map (\<lambda>(n, g). (n, Some g)) (rm_models out))"

lemma doc_labels:
  assumes "map doc_metadata docs = map (\<lambda>(n, g). model_metadata n ns g) ms"
  shows "map (\<lambda>doc. (doc_name doc, doc_deployment doc)) docs = map (\<lambda>(n, g). (n, Some g)) ms"
  using assms
proof (induction docs arbitrary: ms)
  case (Cons doc docs)
  then obtain n g rest where "ms = (n, g) # rest" "doc_metadata doc = model_metadata n ns g"
    "map doc_metadata docs = map (\<lambda>(n, g). model_metadata n ns g) rest" by (cases ms) auto
  then show ?case using Cons.IH
    by (simp add: doc_name_def doc_deployment_def model_metadata_def rt_get_def dget_Cons pod_managed_label_def pod_deployment_label_def)
qed simp

lemma kube_apply_on:
  assumes "dget (sc_files (kb_scaffold b)) MODELS_FILENAME = Some text"
  shows "kube_apply K G b = mt_bind (if py_strip text = [] then mt_return () else run_cluster (kc_apply K text)) (\<lambda>_.
     mt_bind (cluster_models K) (\<lambda>ms.
     let stale = filter (\<lambda>n. n \<notin> set (wanted_models b)) (dkeys ms) in
     mt_bind (if stale = [] then mt_return True else run_gateway True (kg_retire G)) (\<lambda>retired.
       if \<not> retired then mt_return routes_stay
       else mt_bind (delete_models K (sort stale)) (\<lambda>_.
         mt_bind (run_gateway ApplyNone (kg_apply G)) (\<lambda>v. mt_return (ar_and applied_fully (apply_result_of v))))))) b"
  unfolding kube_apply_def by (subst mt_bind_def) (simp only: mt_get_def prod.case sum.case option.case assms)

lemma kube_apply_converges:
  assumes laws: "kubectl_laws yaml K M" and disk: "rendered_on_disk yaml out (kb_scaffold b)"
    and acc: "accounted sha repr ns unique ds out" and run: "kube_apply K G b = (Inr r, b')"
  shows "M (kb_cluster b') = model_labels out \<or> r = routes_stay \<and> M (kb_cluster b') = M (kb_cluster b) ++ model_labels out"
proof -
  let ?text = "models_text yaml (rm_docs out)" and ?wanted = "dkeys (rm_models out)"
  have disk_text: "dget (sc_files (kb_scaffold b)) MODELS_FILENAME = Some ?text" and w: "wanted_models b = ?wanted"
    using disk by (simp_all add: rendered_on_disk_def wanted_models_def load_sidecar_def)
  obtain b1 ms b2 retired b3 where
      a: "(if py_strip ?text = [] then mt_return () else run_cluster (kc_apply K ?text)) b = (Inr (), b1)"
    and m: "cluster_models K b1 = (Inr ms, b2)"
    and g: "(if filter (\<lambda>n. n \<notin> set ?wanted) (dkeys ms) = [] then mt_return True else run_gateway True (kg_retire G)) b2 = (Inr retired, b3)"
    and k: "(if \<not> retired then mt_return routes_stay
             else mt_bind (delete_models K (sort (filter (\<lambda>n. n \<notin> set ?wanted) (dkeys ms)))) (\<lambda>_.
               mt_bind (run_gateway ApplyNone (kg_apply G)) (\<lambda>v. mt_return (ar_and applied_fully (apply_result_of v))))) b3 = (Inr r, b')"
    using run unfolding kube_apply_on[OF disk_text] w Let_def mt_bind_Inr by (elim exE conjE) (rule that; simp)
  have "map doc_metadata (rm_docs out) = map (\<lambda>(n, g). model_metadata n ns g) (rm_models out)"
    using acc unfolding accounted_def by blast
  from doc_labels[OF this] have docs: "map_of (map (\<lambda>doc. (doc_name doc, doc_deployment doc)) (rm_docs out)) = model_labels out"
    unfolding model_labels_def by (rule arg_cong)
  have dom: "dom (model_labels out) = set ?wanted"
    by (force simp: model_labels_def dom_map_of_conv_image_fst dkeys_def)
  have M1: "M (kb_cluster b1) = M (kb_cluster b) ++ model_labels out"
  proof (cases "py_strip ?text = []")
    case True
    then have "rm_docs out = []" using blank_models_text laws unfolding kubectl_laws_def by blast
    then show ?thesis using a True docs by (auto simp: mt_run_Inr model_labels_def)
  next
    case False
    then have "kc_apply K ?text (kb_cluster b) = (Inr (), kb_cluster b1)"
      using a by (auto simp: run_cluster_def split: prod.splits sum.splits)
    then show ?thesis using laws docs unfolding kubectl_laws_def by metis
  qed
  have b2: "b2 = b1" and ms: "dget ms = M (kb_cluster b1)" using cluster_models_read[OF laws m] by simp_all
  have M3: "kb_cluster b3 = kb_cluster b1"
    using g run_gateway_frame[of True "kg_retire G" b2] by (auto simp: b2 mt_run_Inr split: if_splits)
  show ?thesis
  proof (cases retired)
    case False
    then show ?thesis using k M1 M3 by (simp add: mt_run_Inr)
  next
    case True
    let ?stale = "filter (\<lambda>n. n \<notin> set ?wanted) (dkeys ms)"
    obtain b4 v where d: "delete_models K (sort ?stale) b3 = (Inr (), b4)" and v: "run_gateway ApplyNone (kg_apply G) b4 = (Inr v, b')"
      using k True by (auto simp: mt_bind_Inr mt_run_Inr)
    have "M (kb_cluster b') = M (kb_cluster b1) |` (- set ?stale)"
      using delete_models_run[OF laws d] run_gateway_frame[OF v] M3 by simp
    also have "\<dots> = model_labels out"
    proof
      fix n
      have "n \<in> set (dkeys ms) \<longleftrightarrow> M (kb_cluster b1) n \<noteq> None" using ms dget_None_iff[of ms n] by (metis (full_types))
      then show "(M (kb_cluster b1) |` (- set ?stale)) n = model_labels out n"
        using dom M1 by (auto simp: restrict_map_def map_add_def split: option.splits)
    qed
    finally show ?thesis ..
  qed
qed

section \<open>The render on disk\<close>

definition kube_planned :: "(json \<Rightarrow> string) \<Rightarrow> rendered_models \<Rightarrow> (string, string) dict" where
  "kube_planned yaml out = [(MODELS_FILENAME, models_text yaml (rm_docs out))]"

abbreviation kb_disk :: "('c, 'g) kube \<Rightarrow> (string, string) dict \<times> kube_sidecar option" where
  "kb_disk b \<equiv> (sc_files (kb_scaffold b), sc_sidecar (kb_scaffold b))"

text \<open>Handing the gateway its routes neither touches the cluster nor the files, and asks nobody.\<close>

lemma ask_cluster_frame: "keeps (\<lambda>b. (kb_cluster b, kb_disk b)) (ask_cluster f)"
  by (simp add: keeps_def ask_cluster_def split: sum.split)

lemma run_gateway_keeps: "keeps (\<lambda>b. (kb_cluster b, kb_disk b)) (run_gateway x m)"
  unfolding keeps_def using run_gateway_frame by (metis prod.collapse)

lemma front_door_frame: "keeps (\<lambda>b. (kb_cluster b, kb_disk b)) (set_front_door K G sha repr desired out m)"
  unfolding set_front_door_def front_door_inputs_def upstream_url_def Let_def
  by (intro keeps_bind keeps_basic ask_cluster_frame run_gateway_keeps keeps_if keeps_modify) simp

lemma front_door_asks_nobody: "fst (set_front_door K G sha repr desired out m b) \<noteq> Inl NotApproved"
  by (auto simp: set_front_door_def front_door_inputs_def upstream_url_def mt_bind_def mt_get_def mt_return_def mt_raise_def
      mt_modify_def mt_lift_def ask_cluster_def run_gateway_def render_error_def Let_def
      split: sum.splits prod.splits option.splits if_splits)

lemma converge_cases:
  assumes "kube_converge K G sha repr yaml confirm desired b = (v, b')"
  obtains (failed) e where "v = Inl (RenderFailed e)" and "b' = b"
  | (declined) out where "kube_render K G sha repr desired b = Inr out" and "\<not> approved sha confirm (kube_planned yaml out) (kb_scaffold b)"
      and "v = Inl NotApproved" and "kb_disk b' = kb_disk b" and "kb_gateway b' = kb_gateway b" and "kb_cluster b' = kb_cluster b"
  | (written) out where "kube_render K G sha repr desired b = Inr out" and "approved sha confirm (kube_planned yaml out) (kb_scaffold b)"
      and "v \<noteq> Inl NotApproved" and "rendered_on_disk yaml out (kb_scaffold b')" and "kb_cluster b' = kb_cluster b"
proof (cases "kube_render K G sha repr desired b")
  case (Inl e)
  then show thesis using assms failed by (auto simp: kube_converge_def mt_bind_def mt_lift_def render_error_def)
next
  case (Inr out)
  let ?w = "kube_planned yaml out" and ?d = "planned_digest sha (kube_planned yaml out)"
  define b1 where "b1 = b\<lparr>kb_errors := rm_errors out, kb_unplaced := rm_unrenderable out,
         kb_scaffold := (kb_scaffold b)\<lparr>sc_planned := Some ?d\<rparr>\<rparr>"
  obtain ok s where s: "approve_changes sha confirm ?w (kb_scaffold b1) = (ok, s)" by fastforce
  have ok: "ok = approved sha confirm ?w (kb_scaffold b)"
    using approve_changes_approved[of sha confirm ?w "kb_scaffold b1"] s by (simp add: b1_def approved_def)
  have fr: "sc_files s = sc_files (kb_scaffold b)" "sc_sidecar s = sc_sidecar (kb_scaffold b)"
    using approve_changes_frame(1,2)[of sha confirm ?w "kb_scaffold b1"] s by (simp_all add: b1_def)
  show thesis
  proof (cases ok)
    case False
    then have "v = Inl NotApproved" "b' = b1\<lparr>kb_scaffold := s\<rparr>"
      using assms Inr s[unfolded b1_def kube_planned_def]
      by (auto simp: kube_converge_def mt_bind_def mt_lift_def mt_modify_def render_error_def on_scaffold_def b1_def kube_planned_def Let_def)
    then show thesis using declined[OF Inr] False ok fr by (simp add: b1_def)
  next
    case True
    define b2 where "b2 = b1\<lparr>kb_scaffold := save_sidecar \<lparr>ks_models = rm_models out, ks_requests = rm_requests out\<rparr> (write_files ?w s)\<rparr>"
    obtain v3 b3 where f: "set_front_door K G sha repr desired out (kg_converge G) b2 = (v3, b3)" by fastforce
    have disk: "kb_cluster b3 = kb_cluster b2" "kb_disk b3 = kb_disk b2"
      using front_door_frame[of K G sha repr desired out "kg_converge G"] f unfolding keeps_def by (metis prod.inject snd_conv)+
    have "v3 \<noteq> Inl NotApproved" using front_door_asks_nobody[of K G sha repr desired out "kg_converge G" b2] f by simp
    moreover have "(v, b') = (case v3 of Inl e \<Rightarrow> (Inl e, b3)
        | Inr g \<Rightarrow> (Inr (), b3\<lparr>kb_scaffold := (kb_scaffold b3)\<lparr>sc_planned := combined_digest sha (Some ?d) g\<rparr>\<rparr>))"
      using assms Inr s[unfolded b1_def kube_planned_def] f[unfolded b2_def b1_def kube_planned_def] True
      by (auto simp: kube_converge_def mt_bind_def mt_lift_def mt_modify_def render_error_def on_scaffold_def b1_def kube_planned_def Let_def
          split: sum.splits)
    ultimately have r: "v \<noteq> Inl NotApproved" "kb_cluster b' = kb_cluster b3" "kb_disk b' = kb_disk b3"
      by (auto split: sum.splits)
    have "rendered_on_disk yaml out (kb_scaffold b')"
      using r(3) disk(2) write_files_text[of ?w s MODELS_FILENAME]
      by (simp add: rendered_on_disk_def b2_def save_sidecar_def kube_planned_def dget_Cons dkeys_def)
    then show thesis using written[OF Inr] True ok r disk by (simp add: b2_def b1_def)
  qed
qed

text \<open>
  The files of the Kubernetes backend change only as approved. A converge never touches the cluster; if it changes the
  manifest or the sidecar, then the operator approved that manifest (now, or in the preview that showed it), or assumed
  yes; and if the operator declines, neither the files nor the gateway change.
\<close>

theorem kube_files_change_as_approved:
  assumes "kube_converge K G sha repr yaml confirm desired b = (v, b')"
  shows "kb_cluster b' = kb_cluster b
    \<and> (kb_disk b' = kb_disk b \<or> (\<exists>out. kube_render K G sha repr desired b = Inr out
          \<and> approved sha confirm (kube_planned yaml out) (kb_scaffold b) \<and> rendered_on_disk yaml out (kb_scaffold b')))
    \<and> (v = Inl NotApproved \<longrightarrow> kb_disk b' = kb_disk b \<and> kb_gateway b' = kb_gateway b)"
  using assms by (cases rule: converge_cases) auto

lemma render_accounted:
  assumes "kube_render K G sha repr desired b = Inr out" and "distinct (map kd_id desired)"
  shows "accounted sha repr (kb_namespace b) (kube_dynamic G b) (map (enrich_min_vram (kb_measured b)) desired) out"
proof -
  have "map kd_id (map (enrich_min_vram (kb_measured b)) desired) = map kd_id desired"
    by (simp add: enrich_min_vram_def)
  moreover obtain sized where "render_models sha repr (kb_namespace b) (kb_default_profile b) (kube_dynamic G b) sized
      (map (enrich_min_vram (kb_measured b)) desired) = Inr out"
    using assms(1) by (auto simp: kube_render_def bind_err_Inr Let_def)
  ultimately show ?thesis using render_models_invariants assms(2) by metis
qed


section \<open>A cluster to try it on\<close>

definition demo_kubectl :: "((string \<times> string option) list, unit) kubectl" where
  "demo_kubectl = \<lparr>kc_models = (\<lambda>c. Inr (AList.clearjunk (filter (\<lambda>(n, g). n \<noteq> []) c))), kc_apply = (\<lambda>text c. (Inl (), c)),
     kc_delete = (\<lambda>n c. (Inr (), filter (\<lambda>(m, g). m \<noteq> n) c)), kc_address = (\<lambda>c. Inl ()), kc_pods_json = (\<lambda>c. Inl ()),
     kc_pods = (\<lambda>c. Inl ()), kc_nodes = (\<lambda>c. Inl ()), kc_gpu_nodes = (\<lambda>c. Inl ()), kc_profiles = (\<lambda>c. Inl ())\<rparr>"

definition no_kube_gateway :: "(unit, unit) kube_gateway" where
  "no_kube_gateway = \<lparr>kg_in_cluster = False, kg_dynamic = False, kg_preview = (\<lambda>_ _. mt_raise ()), kg_converge = (\<lambda>_. mt_raise ()),
     kg_retire = mt_raise (), kg_apply = mt_raise (), kg_down = mt_raise ()\<rparr>"

text \<open>A cluster with a Model of an earlier render, and a manifest on disk.\<close>

definition demo_kube_backend :: "((string \<times> string option) list, unit) kube" where
  "demo_kube_backend = \<lparr>kb_namespace = ''kubeai'', kb_base_url = [], kb_default_profile = None, kb_upstream = None, kb_catalog = None,
     kb_measured = (\<lambda>_. None),
     kb_scaffold = \<lparr>sc_files = [(MODELS_FILENAME, ''old'')], sc_sidecar = None, sc_assume_yes = False, sc_preapproved = None,
       sc_planned = None, sc_preview = None, sc_asked = []\<rparr>,
     kb_errors = [], kb_unplaced = [], kb_cluster = [(''old'', Some ''g0'')], kb_gateway = None\<rparr>"

definition demo_kube_converge :: "bool \<Rightarrow> (unit kube_error + unit) \<times> ((string \<times> string option) list, unit) kube" where
  "demo_kube_converge answer = kube_converge demo_kubectl no_kube_gateway id (\<lambda>_. []) (\<lambda>_. ''a'') (\<lambda>_. answer) [] demo_kube_backend"

definition demo_kube_apply :: "(unit kube_error + apply_result) \<times> ((string \<times> string option) list, unit) kube" where
  "demo_kube_apply = kube_apply demo_kubectl no_kube_gateway (snd (demo_kube_converge True))"

lemma demo_kube_runs:
  "fst (demo_kube_converge True) = Inr ()" "fst (demo_kube_converge False) = Inl NotApproved" "fst demo_kube_apply = Inr applied_fully"
  by code_simp+

lemma demo_kube_render_empty:
  "kube_render demo_kubectl no_kube_gateway id (\<lambda>_. []) [] demo_kube_backend = Inr no_models" by code_simp

lemma demo_kubectl_laws: "kubectl_laws (\<lambda>_. ''a'') demo_kubectl (\<lambda>c. map_of (filter (\<lambda>(n, g). n \<noteq> []) c))"
proof -
  have "map_of (filter (\<lambda>(k, v). k \<noteq> []) (filter (\<lambda>(m, g). m \<noteq> n) c)) = (map_of (filter (\<lambda>(k, v). k \<noteq> []) c))(n := None)"
    for n and c :: "(string \<times> string option) list"
    by (induction c) auto
  moreover have "[] \<notin> set (map fst (AList.clearjunk (filter (\<lambda>(n, g). n \<noteq> []) c)))" for c :: "(string \<times> string option) list"
    using clearjunk_keys_set[of "filter (\<lambda>(n, g). n \<noteq> []) c"] by auto
  ultimately show ?thesis
    by (simp add: kubectl_laws_def demo_kubectl_def py_space_def distinct_clearjunk map_of_clearjunk)
qed

lemma kube_files_change_as_approved_witness:
  "kb_disk (snd (demo_kube_converge False)) = ([(MODELS_FILENAME, ''old'')], None)"
proof -
  have c: "kube_converge demo_kubectl no_kube_gateway id (\<lambda>_. []) (\<lambda>_. ''a'') (\<lambda>_. False) [] demo_kube_backend = (Inl NotApproved, snd (demo_kube_converge False))"
    using demo_kube_runs(2) unfolding demo_kube_converge_def by (metis prod.collapse)
  show ?thesis using kube_files_change_as_approved[OF c] by (simp add: demo_kube_backend_def)
qed


end
