(* ===== verification/ComposeProject.thy ===== *)
theory ComposeProject
  imports
  Scaffold
  ManagedEnv
  Network
  Profile
  Publish
begin

text \<open>
  The Compose backend (\<open>ComposeBackend\<close> of \<open>leasing/compose.py\<close>): its settings and the profile that publishes them,
  placing and rendering the whole project in memory, writing it once approved, and applying what was written.

  \<open>host\<close> holds what the code gets from elsewhere: SHA-256, the YAML writer and reader, \<open>json.dumps\<close> with
  indentation, a specification as the dictionary it is stored as, the published union as the gateway asks it, what is
  measured of a model, the GPUs, fresh random tokens, the user Open WebUI runs as and reading a subnet.
  The files of the host that the code reads or writes are \<open>sc_files\<close>.
\<close>

section \<open>The backend\<close>

record compose_host =
  hs_sha :: "string \<Rightarrow> string"
  hs_yaml :: "json \<Rightarrow> string"
  hs_load :: "string \<Rightarrow> json option"
  hs_repr :: "json \<Rightarrow> string"
  hs_indent :: "json \<Rightarrow> string"
  hs_spec :: "deployment \<Rightarrow> (string, json) dict"
  hs_catalog :: "json list \<Rightarrow> gw_catalog option"
  hs_measured :: "deployment \<Rightarrow> rat option"
  hs_floor :: "deployment \<Rightarrow> rat option"
  hs_gpus :: placement_config
  hs_tokens :: "string \<Rightarrow> string"
  hs_run_as :: "string \<Rightarrow> string option"
  hs_subnet :: "string \<Rightarrow> subnet"
  hs_ports :: "(string, int) dict"
  hs_state :: "(string, string) dict"

record compose_sidecar =
  cs_assignments :: "(string, int list) dict"
  cs_services :: "(string, string) dict"
  cs_fingerprints :: "(string, string) dict option"
  cs_degraded :: "string list"
  cs_displaced :: "string list"
  cs_optional :: "string list"

definition no_compose_sidecar :: compose_sidecar where
  "no_compose_sidecar = \<lparr>cs_assignments = [], cs_services = [], cs_fingerprints = None, cs_degraded = [], cs_displaced = [], cs_optional = []\<rparr>"

record compose_settings =
  se_project :: string
  se_litellm :: bool
  se_ui :: bool
  se_dynamic :: bool
  se_skip_display :: bool
  se_proxy :: bool
  se_proxy_port :: int
  se_images :: "(string, string) dict"
  se_ports :: "(string, int) dict"
  se_state :: "(string, string) dict"
  se_sources :: "json list"

record compose =
  cb_dir :: string
  cb_settings :: compose_settings
  cb_proxy_config :: "string option"
  cb_proxy_text :: "string option"
  cb_network :: "(string \<times> (string, string) dict) option"
  cb_scaffold :: "compose_sidecar scaffold"
  cb_secrets :: secret_state
  cb_registry :: json
  cb_extra :: "route list"
  cb_extra_dynamic :: "route list"
  cb_adopted :: adopted
  cb_addresses :: "(string, string) dict option"
  cb_plan_errors :: "plan_error list"
  cb_render_errors :: "(string \<times> string \<times> string) list"
  cb_unplaced :: "string list"
  cb_assignments :: "(string, int list) dict"

datatype compose_error = NotApproved | RouteKeysMissing "(string, string list) dict" | RenderCrash py_error | NetworkFailed network_error

type_synonym 'a compose_step = "(compose, compose_error, 'a) meth"

definition in_dir :: "compose \<Rightarrow> string \<Rightarrow> string" where "in_dir b n = cb_dir b @ ''/'' @ n"

definition COMPOSE_FILENAME :: string where "COMPOSE_FILENAME = ''docker-compose.yml''"
definition LITELLM_CONFIG_FILENAME :: string where "LITELLM_CONFIG_FILENAME = ''litellm_config.yaml''"
definition NGINX_CONFIG_FILENAME :: string where "NGINX_CONFIG_FILENAME = ''nginx.conf''"
definition LITELLM_ROUTES_FILENAME :: string where "LITELLM_ROUTES_FILENAME = ''litellm_routes.json''"
definition REVERSE_PROXY_SNAPSHOT :: string where "REVERSE_PROXY_SNAPSHOT = ''reverse-proxy.conf''"
definition DB_PASSWORD_ENV :: string where "DB_PASSWORD_ENV = ''LITELLM_DB_PASSWORD''"
definition WEBUI_SECRET_ENV :: string where "WEBUI_SECRET_ENV = ''WEBUI_SECRET_KEY''"

definition gateway_port :: "compose_host \<Rightarrow> compose_settings \<Rightarrow> string \<Rightarrow> int" where
  "gateway_port H s name = (case dget (se_ports s) name of Some p \<Rightarrow> p
     | None \<Rightarrow> (case dget (hs_ports H) name of Some p \<Rightarrow> p | None \<Rightarrow> 0))"

section \<open>The published profile\<close>

definition str_dict :: "(string, string) dict \<Rightarrow> json" where "str_dict d = JObj (map (\<lambda>(k, v). (k, JStr v)) (sort d))"
definition int_dict :: "(string, int) dict \<Rightarrow> json" where "int_dict d = JObj (map (\<lambda>(k, v). (k, JInt v)) (sort d))"

definition text_or_null :: "string option \<Rightarrow> json" where
  "text_or_null s = (case s of None \<Rightarrow> JNull | Some t \<Rightarrow> JStr t)"

text \<open>A proxy configuration is captured by content; \<open>None\<close> when its file cannot be read, which raises.\<close>

definition proxy_text :: "compose \<Rightarrow> string option option" where
  "proxy_text b = (if \<not> given (cb_proxy_config b) then Some None
     else case cb_proxy_text b of Some t \<Rightarrow> Some (Some t)
     | None \<Rightarrow> map_option Some (dget (sc_files (cb_scaffold b)) (the (cb_proxy_config b))))"

definition compose_render_profile :: "compose \<Rightarrow> json option" where
  "compose_render_profile b = map_option (\<lambda>text. let s = cb_settings b in JObj
     [(''version'', JInt 1), (''backend'', JStr ''compose''), (''project'', JStr (se_project s)), (''litellm'', JBool (se_litellm s)),
      (''ui'', JBool (se_ui s)), (''dynamic_routing'', JBool (se_dynamic s)), (''skip_display'', JBool (se_skip_display s)),
      (''reverse_proxy'', JObj [(''enabled'', JBool (se_proxy s)), (''port'', JInt (se_proxy_port s)), (''config_text'', text_or_null text)]),
      (''images'', str_dict (se_images s)), (''ports'', int_dict (se_ports s)), (''state'', str_dict (se_state s)),
      (''catalogs'', JList (se_sources s))]) (proxy_text b)"

text \<open>A published profile has the types a render gives it; \<open>ProfileMismatch\<close> is another backend's.\<close>

datatype profile_use = Mismatch | Malformed py_error

definition snapshot_item :: "(string, json) dict \<Rightarrow> string \<Rightarrow> (json \<Rightarrow> 'a option) \<Rightarrow> profile_use + 'a" where
  "snapshot_item p k f = (case dget p k of None \<Rightarrow> Inl (Malformed KeyError)
     | Some v \<Rightarrow> (case f v of None \<Rightarrow> Inl (Malformed TypeError) | Some x \<Rightarrow> Inr x))"

definition as_text :: "json \<Rightarrow> string option" where "as_text v = (case v of JStr s \<Rightarrow> Some s | _ \<Rightarrow> None)"
definition as_bool :: "json \<Rightarrow> bool option" where "as_bool v = (case v of JBool s \<Rightarrow> Some s | _ \<Rightarrow> None)"
definition as_num :: "json \<Rightarrow> int option" where "as_num v = (case v of JInt s \<Rightarrow> Some s | _ \<Rightarrow> None)"
definition as_obj :: "json \<Rightarrow> (string, json) dict option" where "as_obj v = (case v of JObj s \<Rightarrow> Some s | _ \<Rightarrow> None)"

fun typed_dict :: "(json \<Rightarrow> 'a option) \<Rightarrow> (string, json) dict \<Rightarrow> (string, 'a) dict option" where
  "typed_dict f [] = Some []"
| "typed_dict f ((k, v) # d) = (case (f v, typed_dict f d) of (Some x, Some r) \<Rightarrow> Some ((k, x) # r) | _ \<Rightarrow> None)"

definition as_dict_of :: "(json \<Rightarrow> 'a option) \<Rightarrow> json \<Rightarrow> (string, 'a) dict option" where
  "as_dict_of f v = Option.bind (as_obj v) (typed_dict f)"

definition compose_use_profile :: "json \<Rightarrow> compose \<Rightarrow> profile_use + compose" where
  "compose_use_profile snapshot b = (case snapshot of
     JObj p \<Rightarrow>
       if rt_get p ''backend'' \<noteq> JStr ''compose'' then Inl Mismatch
       else bind_err (snapshot_item p ''project'' as_text) (\<lambda>project.
         bind_err (snapshot_item p ''litellm'' as_bool) (\<lambda>litellm.
         bind_err (snapshot_item p ''ui'' as_bool) (\<lambda>ui.
         bind_err (snapshot_item p ''dynamic_routing'' as_bool) (\<lambda>dynamic.
         bind_err (snapshot_item p ''skip_display'' as_bool) (\<lambda>skip.
         bind_err (snapshot_item p ''reverse_proxy'' as_obj) (\<lambda>proxy.
         bind_err (snapshot_item proxy ''enabled'' as_bool) (\<lambda>enabled.
         bind_err (snapshot_item proxy ''port'' as_num) (\<lambda>port.
         bind_err (snapshot_item p ''images'' (as_dict_of as_text)) (\<lambda>images.
         bind_err (snapshot_item p ''ports'' (as_dict_of as_num)) (\<lambda>ports.
         bind_err (snapshot_item p ''state'' (as_dict_of as_text)) (\<lambda>state.
           let text = as_text (rt_get proxy ''config_text'') in
           Inr (b\<lparr>cb_settings := \<lparr>se_project = project, se_litellm = litellm, se_ui = ui, se_dynamic = dynamic, se_skip_display = skip,
                    se_proxy = enabled, se_proxy_port = port, se_images = images, se_ports = ports, se_state = state,
                    se_sources = (case rt_get p ''catalogs'' of JList ss \<Rightarrow> ss | _ \<Rightarrow> [])\<rparr>,
                  cb_proxy_text := text,
                  cb_proxy_config := (if text = None then None else Some (in_dir b REVERSE_PROXY_SNAPSHOT))\<rparr>))))))))))))
   | _ \<Rightarrow> Inl (Malformed AttributeError))"

section \<open>The render, in memory\<close>

definition gw_of :: "compose_host \<Rightarrow> deployment \<Rightarrow> gw_deployment" where
  "gw_of H d = \<lparr>gd_id = dep_id d, gd_created_at = dep_created_at d, gd_engine = dep_engine d, gd_spec = hs_spec H d, gd_served = dep_served d\<rparr>"

text \<open>Placing: with admission's inputs, or as if nothing else ran, keeping the pins of what is asked for.\<close>

definition place_args :: "compose_host \<Rightarrow> compose_settings \<Rightarrow> (string, int list) dict \<Rightarrow> placement_inputs option \<Rightarrow> plan_args" where
  "place_args H s pinned i = (case i of
     Some i \<Rightarrow> admission_args ((hs_gpus H)\<lparr>cf_skip_display := se_skip_display s\<rparr>) pinned i
   | None \<Rightarrow> \<lparr>pa_allowed_gpus = cf_allowed (hs_gpus H), pa_reserved = cf_reserved (hs_gpus H), pa_pinned = pinned,
       pa_skip_display = se_skip_display s, pa_required_ids = None, pa_hard = None, pa_hints = None\<rparr>)"

definition project_plan :: "compose_host \<Rightarrow> compose \<Rightarrow> deployment list \<Rightarrow> placement_inputs option \<Rightarrow> gpu_plan" where
  "project_plan H b desired i =
     plan_placement (map (enrich_one (hs_measured H) (hs_floor H)) desired) (cf_inventory (hs_gpus H))
       (place_args H (cb_settings b) (cs_assignments (load_sidecar no_compose_sidecar (cb_scaffold b))) i)"

definition plan_on_idle_host :: "compose_host \<Rightarrow> compose \<Rightarrow> deployment list \<Rightarrow> gpu_plan" where
  "plan_on_idle_host H b desired =
     plan_placement (map (enrich_one (hs_measured H) (hs_floor H)) desired) (cf_inventory (hs_gpus H))
       (place_args H (cb_settings b)
         (filter (\<lambda>(g, gpus). g \<in> set (map dep_id desired)) (cs_assignments (load_sidecar no_compose_sidecar (cb_scaffold b)))) None)"

definition make_secret :: "compose_host \<Rightarrow> string \<Rightarrow> string \<Rightarrow> secret_state \<Rightarrow> secret_state" where
  "make_secret H name pre s = snd (managed_secret name pre (hs_tokens H name) s)"

text \<open>The secrets a render interpolates, in the order it asks for them.\<close>

definition render_secrets :: "compose_host \<Rightarrow> compose_settings \<Rightarrow> secret_state \<Rightarrow> secret_state" where
  "render_secrets H s = (if se_litellm s \<and> se_dynamic s then make_secret H DB_PASSWORD_ENV [] else id)"

definition webui_secrets :: "compose_host \<Rightarrow> compose_settings \<Rightarrow> secret_state \<Rightarrow> secret_state" where
  "webui_secrets H s = (if se_ui s then make_secret H WEBUI_SECRET_ENV [] else id)"

definition master_secrets :: "compose_host \<Rightarrow> compose_settings \<Rightarrow> secret_state \<Rightarrow> secret_state" where
  "master_secrets H s = (if se_litellm s then make_secret H API_KEY_ENV ''sk-'' else id)"

definition project_routes :: "compose_host \<Rightarrow> compose \<Rightarrow> gw_deployment list \<Rightarrow> string set \<Rightarrow> py_error + (route list \<times> route list)" where
  "project_routes H b ds assigned =
     (let s = cb_settings b in
      if \<not> se_litellm s then Inr ([], [])
      else front_door_routes (hs_sha H) (hs_repr H) (se_dynamic s) (hs_catalog H (se_sources s)) ds assigned
        (if se_dynamic s then [] else registry_routes (hs_repr H) (cb_registry b)) (cb_extra b) (cb_extra_dynamic b))"

definition project_rows :: "compose_host \<Rightarrow> compose \<Rightarrow> gw_deployment list \<Rightarrow> string set \<Rightarrow> py_error + (string, json) dict" where
  "project_rows H b ds assigned =
     (let s = cb_settings b in
      if \<not> se_litellm s \<or> se_dynamic s then Inr []
      else remembered_rows ds assigned (case hs_catalog H (se_sources s) of None \<Rightarrow> {} | Some c \<Rightarrow> set (gc_names c)) (cb_extra b))"

definition front_of :: "compose_host \<Rightarrow> compose \<Rightarrow> secret_state \<Rightarrow> front_door" where
  "front_of H b sec = (let s = cb_settings b in
     \<lparr>fd_litellm = se_litellm s, fd_litellm_port = gateway_port H s ''litellm'', fd_master_key = se_litellm s,
      fd_salt_key = (dget (parse_env_file (ss_file sec)) SALT_KEY_ENV \<noteq> None), fd_ui = se_ui s,
      fd_ui_port = gateway_port H s ''open_webui'', fd_proxy = se_proxy s, fd_proxy_port = se_proxy_port s,
      fd_proxy_config = cb_proxy_config b, fd_aux_dir = Some (cb_dir b), fd_dynamic = se_dynamic s,
      fd_run_as = (if se_ui s then hs_run_as H (case dget (se_state s) ''open_webui'' of None \<Rightarrow> [] | Some p \<Rightarrow> p) else None)\<rparr>)"

definition input_of :: "compose_host \<Rightarrow> compose_settings \<Rightarrow> render_input" where
  "input_of H s = \<lparr>ri_images = se_images s, ri_ports = se_ports s, ri_state = se_state s, ri_default_state = hs_state H, ri_project = se_project s\<rparr>"

record documents =
  dc_plan :: gpu_plan
  dc_rendered :: rendered_compose
  dc_doc :: "(string, json) dict"
  dc_planned :: "(string, string) dict"
  dc_fingerprints :: "(string, string) dict"
  dc_addresses :: "(string, string) dict option"
  dc_remember :: "(string, json) dict"

definition crash_of :: "py_error + 'a \<Rightarrow> compose_error + 'a" where
  "crash_of r = (case r of Inl e \<Rightarrow> Inl (RenderCrash e) | Inr x \<Rightarrow> Inr x)"

definition network_of :: "network_error + 'a \<Rightarrow> compose_error + 'a" where
  "network_of r = (case r of Inl e \<Rightarrow> Inl (NetworkFailed e) | Inr x \<Rightarrow> Inr x)"

definition services_of :: "(string, json) dict \<Rightarrow> (string, json) dict" where
  "services_of doc = (case rt_get doc ''services'' of JObj s \<Rightarrow> s | _ \<Rightarrow> [])"

text \<open>The stanzas with fixed addresses, where the project has a network.\<close>

definition address_doc :: "compose_host \<Rightarrow> compose \<Rightarrow> (string, json) dict \<Rightarrow> compose_error + ((string, json) dict \<times> (string, string) dict option)" where
  "address_doc H b doc = (case cb_network b of None \<Rightarrow> Inr (doc, None)
     | Some (subnet, table) \<Rightarrow>
         bind_err (network_of (allocate (hs_subnet H subnet) table (dkeys (services_of doc)))) (\<lambda>addresses.
         bind_err (crash_of (stamp_network doc subnet addresses)) (\<lambda>doc. Inr (doc, Some addresses))))"

definition aux_files :: "compose_host \<Rightarrow> compose \<Rightarrow> rendered_compose \<Rightarrow> (string, string) dict" where
  "aux_files H b r = fold (\<lambda>(p, t). dput p t)
     ((if se_proxy (cb_settings b) \<and> cb_proxy_text b \<noteq> None \<and> cb_proxy_config b \<noteq> None
       then [(the (cb_proxy_config b), the (cb_proxy_text b))] else [])
      @ (case rc_litellm_config r of None \<Rightarrow> [] | Some t \<Rightarrow> [(in_dir b LITELLM_CONFIG_FILENAME, t)])
      @ (case rc_nginx_config r of None \<Rightarrow> [] | Some t \<Rightarrow> [(in_dir b NGINX_CONFIG_FILENAME, t)])
      @ (case rc_litellm_routes r of None \<Rightarrow> [] | Some rs \<Rightarrow> [(in_dir b LITELLM_ROUTES_FILENAME, hs_indent H (JList rs))])) []"

definition text_for :: "(string, string) dict \<Rightarrow> (string, string) dict \<Rightarrow> string \<Rightarrow> string option" where
  "text_for writes files p = (case dget writes p of Some t \<Rightarrow> Some t | None \<Rightarrow> dget files p)"

definition fingerprint_table :: "(string \<Rightarrow> string) \<Rightarrow> (string \<Rightarrow> string option) \<Rightarrow> (string, string) dict \<Rightarrow> (string, json) dict
    \<Rightarrow> py_error + (string, string) dict" where
  "fingerprint_table sha text_at env services = map_err (\<lambda>(n, s). case s of
     JObj svc \<Rightarrow> bind_err (fingerprint sha text_at env svc) (\<lambda>f. Inr (n, f)) | _ \<Rightarrow> Inl AttributeError) services"

definition project_documents :: "compose_host \<Rightarrow> compose \<Rightarrow> secret_state \<Rightarrow> gpu_plan \<Rightarrow> (route list \<times> route list) \<Rightarrow> gw_deployment list
    \<Rightarrow> compose_error + documents" where
  "project_documents H b sec plan routes ds =
     bind_err (crash_of (render_compose (hs_sha H) (hs_yaml H) (hs_repr H) (input_of H (cb_settings b)) (front_of H b sec)
       (hs_catalog H (se_sources (cb_settings b))) (Some routes) ds (gp_assignments plan))) (\<lambda>r.
     bind_err (address_doc H b [(''name'', JStr (rc_project r)), (''services'', JObj (rc_services r))]) (\<lambda>(doc, addresses).
     let aux = aux_files H b r; text_at = text_for aux (sc_files (cb_scaffold b)); env = managed_env sec in
     bind_err (crash_of (fingerprint_table (hs_sha H) text_at env (services_of doc))) (\<lambda>table.
     bind_err (crash_of (stamp_fingerprints (hs_sha H) text_at env (services_of doc))) (\<lambda>services.
     bind_err (crash_of (project_rows H b ds (set (dkeys (gp_assignments plan))))) (\<lambda>rows.
       let doc = dput ''services'' (JObj services) doc in
       Inr \<lparr>dc_plan = plan, dc_rendered = r, dc_doc = doc,
         dc_planned = dput (in_dir b COMPOSE_FILENAME) (hs_yaml H (JObj doc)) aux,
         dc_fingerprints = table, dc_addresses = addresses, dc_remember = rows\<rparr>)))))"

text \<open>\<open>_render_documents\<close>; the secrets it makes are the backend's only change.\<close>

definition render_documents :: "compose_host \<Rightarrow> deployment list \<Rightarrow> placement_inputs option \<Rightarrow> documents compose_step" where
  "render_documents H desired i b =
     (let s = cb_settings b; plan = project_plan H b desired i; ds = map (gw_of H) desired;
          sec = webui_secrets H s (render_secrets H s (cb_secrets b)) in
      case crash_of (project_routes H b ds (set (dkeys (gp_assignments plan)))) of
        Inl e \<Rightarrow> (Inl e, b\<lparr>cb_secrets := sec\<rparr>)
      | Inr (static, dynamic) \<Rightarrow>
          let missing = missing_route_keys (hs_repr H) (managed_env sec) (static @ dynamic) in
          if se_litellm s \<and> missing \<noteq> [] then (Inl (RouteKeysMissing missing), b\<lparr>cb_secrets := sec\<rparr>)
          else let sec = master_secrets H s sec in
            (project_documents H b sec plan (static, dynamic) ds, b\<lparr>cb_secrets := sec\<rparr>))"

section \<open>Previewing and writing\<close>

definition compose_preview :: "compose_host \<Rightarrow> ((string, string) dict \<Rightarrow> bool) \<Rightarrow> bool \<Rightarrow> deployment list \<Rightarrow> placement_inputs option
    \<Rightarrow> documents compose_step" where
  "compose_preview H confirm approve desired i b =
     (case render_documents H desired i (b\<lparr>cb_secrets := stage (cb_secrets b)\<rparr>) of (v, b1) \<Rightarrow>
       let b2 = b1\<lparr>cb_secrets := unstage (cb_secrets b1)\<rparr> in
       case v of Inl e \<Rightarrow> (Inl e, b2)
       | Inr docs \<Rightarrow> (case preview_approval (hs_sha H) confirm approve (dc_planned docs) (cb_scaffold b2) of
           (True, s) \<Rightarrow> (Inr docs, b2\<lparr>cb_scaffold := s\<rparr>) | (False, s) \<Rightarrow> (Inl NotApproved, b2\<lparr>cb_scaffold := s\<rparr>)))"

definition unplaced_of :: "deployment list \<Rightarrow> documents \<Rightarrow> string list" where
  "unplaced_of desired docs =
     remdups (filter (\<lambda>g. g \<notin> set (dkeys (gp_assignments (dc_plan docs))) \<and> g \<notin> set (gp_displaced (dc_plan docs))) (map dep_id desired)
       @ rc_unrenderable (dc_rendered docs))"

definition sidecar_of :: "placement_inputs option \<Rightarrow> documents \<Rightarrow> compose_sidecar" where
  "sidecar_of i docs = \<lparr>cs_assignments = gp_assignments (dc_plan docs), cs_services = rc_map (dc_rendered docs),
     cs_fingerprints = Some (dc_fingerprints docs), cs_degraded = gp_degraded (dc_plan docs), cs_displaced = gp_displaced (dc_plan docs),
     cs_optional = sort (map fst (filter (\<lambda>(svc, g). case i of None \<Rightarrow> False | Some x \<Rightarrow> g \<in> set (dkeys (pi_hints x)))
       (rc_map (dc_rendered docs))))\<rparr>"

definition LITELLM_REGISTRY_VERSION :: int where "LITELLM_REGISTRY_VERSION = 1"

text \<open>The auxiliary files first, then the compose file; addresses and remembered routes before either.\<close>

definition write_documents :: "placement_inputs option \<Rightarrow> documents \<Rightarrow> compose \<Rightarrow> compose" where
  "write_documents i docs b =
     b\<lparr>cb_addresses := (case dc_addresses docs of None \<Rightarrow> cb_addresses b | Some a \<Rightarrow> Some a),
       cb_registry := remember LITELLM_REGISTRY_VERSION (cb_registry b) (dc_remember docs),
       cb_scaffold := save_sidecar (sidecar_of i docs)
         (let p = in_dir b COMPOSE_FILENAME; main = the (dget (dc_planned docs) p)
          in atomic_write p main (write_files (filter (\<lambda>(q, t). q \<noteq> p) (dc_planned docs)) (cb_scaffold b)))\<rparr>"

definition compose_converge :: "compose_host \<Rightarrow> ((string, string) dict \<Rightarrow> bool) \<Rightarrow> deployment list \<Rightarrow> placement_inputs option
    \<Rightarrow> gpu_plan compose_step" where
  "compose_converge H confirm desired i =
     mt_bind (render_documents H desired i) (\<lambda>docs.
     mt_bind (mt_modify (\<lambda>b. b\<lparr>cb_assignments := gp_assignments (dc_plan docs), cb_plan_errors := gp_errors (dc_plan docs),
         cb_render_errors := rc_errors (dc_rendered docs), cb_unplaced := unplaced_of desired docs,
         cb_scaffold := (cb_scaffold b)\<lparr>sc_planned := Some (planned_digest (hs_sha H) (dc_planned docs))\<rparr>\<rparr>)) (\<lambda>_.
     mt_bind (\<lambda>b. case approve_changes (hs_sha H) confirm (dc_planned docs) (cb_scaffold b) of
         (True, s) \<Rightarrow> (Inr (), b\<lparr>cb_scaffold := s\<rparr>) | (False, s) \<Rightarrow> (Inl NotApproved, b\<lparr>cb_scaffold := s\<rparr>)) (\<lambda>_.
     mt_bind (mt_modify (write_documents i docs)) (\<lambda>_. mt_return (dc_plan docs)))))"

section \<open>What the last render says\<close>

definition rendered_services :: "compose \<Rightarrow> (string, string \<times> string) dict" where
  "rendered_services b = (let s = load_sidecar no_compose_sidecar (cb_scaffold b) in
     map (\<lambda>(n, fp). (n, (fp, case dget (cs_services s) n of None \<Rightarrow> [] | Some g \<Rightarrow> g)))
       (case cs_fingerprints s of None \<Rightarrow> [] | Some f \<Rightarrow> f))"

definition compose_routes :: "compose_host \<Rightarrow> compose \<Rightarrow> deployment list \<Rightarrow> placement_inputs option \<Rightarrow> py_error + route list" where
  "compose_routes H b desired i =
     bind_err (project_routes H b (map (gw_of H) desired) (set (dkeys (gp_assignments (project_plan H b desired i))))) (\<lambda>(static, dynamic).
       Inr (if se_dynamic (cb_settings b) then dynamic else static))"

definition compose_request_names :: "compose \<Rightarrow> string list \<Rightarrow> (string, string) dict" where
  "compose_request_names b endpoints = (if se_litellm (cb_settings b) then fold (\<lambda>e. dput e e) endpoints [] else [])"

definition compose_argv :: "compose \<Rightarrow> string list" where
  "compose_argv b = [''docker'', ''compose'']
     @ (if ss_file (cb_secrets b) \<noteq> None then [''--env-file'', in_dir b ''.env''] else [])
     @ [''-p'', se_project (cb_settings b), ''-f'', in_dir b COMPOSE_FILENAME]"

section \<open>Applying what was written\<close>

datatype on_disk = NothingRendered | RenderUnreadable | RenderStale | Rendered apply_input json

definition rendered_input :: "compose_host \<Rightarrow> compose \<Rightarrow> py_error + on_disk" where
  "rendered_input H b = (case dget (sc_files (cb_scaffold b)) (in_dir b COMPOSE_FILENAME) of None \<Rightarrow> Inr NothingRendered
     | Some text \<Rightarrow> (case hs_load H text of None \<Rightarrow> Inr RenderUnreadable
     | Some v \<Rightarrow> bind_err (as_dict v) (\<lambda>doc. bind_err (as_dict (rt_get doc ''services'')) (\<lambda>services.
         let s = load_sidecar no_compose_sidecar (cb_scaffold b)
         in (case cs_fingerprints s of None \<Rightarrow> Inr RenderStale
            | Some fps \<Rightarrow> if set (dkeys fps) \<noteq> set (dkeys services) then Inr RenderStale
                else Inr (Rendered \<lparr>ai_services = services, ai_fingerprints = fps, ai_adopted = cb_adopted b,
                       ai_degraded = cs_degraded s, ai_optional = cs_optional s\<rparr> (py_or (rt_get doc ''networks'') (JObj []))))))))"

definition unapplied :: "bool \<Rightarrow> bool \<Rightarrow> string \<Rightarrow> apply_result" where
  "unapplied runtime routes detail = \<lparr>ar_runtime = runtime, ar_routes = routes, ar_detail = detail\<rparr>"

text \<open>
  \<open>apply\<close>: \<open>selective\<close> is \<open>selective_apply\<close>, returning the kept services, \<open>retire\<close> and \<open>verify\<close> what the gateway
  answers; \<open>verify\<close> is told whether the gateway was kept (the short budget) or just started.
\<close>

definition compose_apply :: "compose_host \<Rightarrow> (apply_input \<Rightarrow> json \<Rightarrow> apply_error + string list) \<Rightarrow> (apply_error + bool)
    \<Rightarrow> (bool \<Rightarrow> apply_error + bool) \<Rightarrow> compose \<Rightarrow> apply_error + apply_result" where
  "compose_apply H selective retire verify b = bind_err (ap_crash (rendered_input H b)) (\<lambda>r. case r of
       NothingRendered \<Rightarrow> Inr (unapplied True True [])
     | RenderUnreadable \<Rightarrow> Inr (unapplied False True ''the rendered compose file is unreadable'')
     | RenderStale \<Rightarrow> Inr (unapplied False True ''the render predates fingerprints'')
     | Rendered inp networks \<Rightarrow>
         let s = cb_settings b; dynamic = (se_litellm s \<and> se_dynamic s \<and> LITELLM_SERVICE \<in> set (dkeys (ai_services inp))) in
         bind_err (if dynamic then retire else Inr True) (\<lambda>gone.
           if \<not> gone then Inr (unapplied False False ''routes to departing upstreams could not be removed; nothing was torn down'')
           else bind_err (selective inp networks) (\<lambda>kept_services.
             bind_err (if dynamic then verify (LITELLM_SERVICE \<in> set kept_services) else Inr True) (\<lambda>ok.
               Inr (if ok then unapplied True True [] else unapplied True False ''the gateway routes were not verified'')))))"

end
