(* ===== verification/ComposeConverge.thy ===== *)
theory ComposeConverge
  imports
  ComposeProject
begin

text \<open>
  What converging a Compose project does: the secrets a preview stages and the commit writes, that files change only as
  approved, that what was written can be applied, and that a commit writes exactly what its preview showed.
\<close>

section \<open>The secrets of a preview and of the commit\<close>

lemma managed_env_get:
  "dget (managed_env s) k = (case dget (parse_env_file (ss_file s)) k of Some v \<Rightarrow> Some v | None \<Rightarrow> dget (ss_staged s) k)"
proof -
  have d: "distinct (dkeys (fold (\<lambda>(k, v). dput k v) ps d))" if "distinct (dkeys d)" for ps d :: "(string, string) dict"
    using that by (induction ps arbitrary: d) auto
  let ?d = "parse_env_file (ss_file s)"
  have "distinct (map fst ?d)" using d[of "[]"] by (auto simp: parse_env_file_def dkeys_def split: option.split)
  then have "map_of (rev ?d) = map_of ?d" by (intro map_of_inject_set[THEN iffD2]) (simp_all add: rev_map[symmetric])
  then have "map_of (rev ?d) k = dget ?d k" by (simp add: dget_def)
  then show ?thesis by (simp add: managed_env_def fold_dput_get)
qed

definition settled :: "secret_state \<Rightarrow> string \<Rightarrow> bool" where
  "settled s name \<longleftrightarrow> (case dget (parse_env_file (ss_file s)) name of Some v \<Rightarrow> v \<noteq> []
     | None \<Rightarrow> (case dget (ss_staged s) name of Some v \<Rightarrow> v \<noteq> [] \<and> good_value v | None \<Rightarrow> False))"

definition staged_ok :: "secret_state \<Rightarrow> bool" where
  "staged_ok s \<longleftrightarrow> (\<forall>k. case dget (ss_staged s) k of Some v \<Rightarrow> v \<noteq> [] \<and> good_value v | None \<Rightarrow> True)"

lemma make_secret_staging:
  assumes "ss_depth s \<noteq> 0" and "staged_ok s" and "dget (parse_env_file (ss_file s)) name \<noteq> Some []"
    and "pre @ hs_tokens H name \<noteq> []" and "good_value (pre @ hs_tokens H name)" and "make_secret H name pre s = s'"
  shows "ss_file s' = ss_file s \<and> ss_depth s' = ss_depth s \<and> staged_ok s' \<and> settled s' name \<and> (\<forall>k. settled s k \<longrightarrow> settled s' k)
    \<and> (\<forall>k v. v \<noteq> [] \<longrightarrow> dget (managed_env s) k = Some v \<longrightarrow> dget (managed_env s') k = Some v)"
proof (cases "dget (parse_env_file (ss_file s)) name")
  case (Some v)
  then obtain c x where "dget (parse_env_file (ss_file s)) name = Some (c # x)" using assms(3) by (cases v) auto
  then have "s' = s" "settled s name" using assms(6) by (auto simp: make_secret_def managed_secret_def settled_def)
  then show ?thesis using assms(2) by simp
next
  case None
  have e: "ensure_secret [] name pre t = pre @ t" for t by (simp add: ensure_secret_def py_strip_def)
  let ?val = "case dget (ss_staged s) name of Some (c # v) \<Rightarrow> c # v | _ \<Rightarrow> pre @ hs_tokens H name"
  have v: "?val \<noteq> [] \<and> good_value ?val"
    using assms(2,4,5) unfolding staged_ok_def by (auto split: option.splits list.splits dest!: spec[of _ name])
  have s': "s' = s\<lparr>ss_staged := dput name ?val (ss_staged s)\<rparr>"
    using assms(1,6) None unfolding make_secret_def managed_secret_def e by (auto simp: Let_def)
  have keep: "?val = w" if "dget (ss_staged s) name = Some w" "w \<noteq> []" for w
    using that by (cases w) auto
  show ?thesis
    using v None assms(2) keep
    by (auto simp: s' staged_ok_def settled_def managed_env_get split: option.splits)
qed

lemma make_secret_writing:
  assumes "ss_depth s = 0" and "settled s name" and "good_key name" and "make_secret H name pre s = s'"
  shows "ss_depth s' = 0 \<and> dget (managed_env s') = dget (managed_env s) \<and> (\<forall>k. settled s k \<longrightarrow> settled s' k)
    \<and> (\<forall>k. k \<noteq> name \<longrightarrow> dget (parse_env_file (ss_file s')) k = dget (parse_env_file (ss_file s)) k)"
proof (cases "dget (parse_env_file (ss_file s)) name")
  case (Some v)
  then obtain c x where "dget (parse_env_file (ss_file s)) name = Some (c # x)"
    using assms(2) by (cases v) (auto simp: settled_def)
  then have "s' = s" using assms(4) by (simp add: make_secret_def managed_secret_def)
  then show ?thesis using assms(1) by simp
next
  case None
  then obtain c x where st: "dget (ss_staged s) name = Some (c # x)" and g: "good_value (c # x)"
    using assms(2) by (auto simp: settled_def neq_Nil_conv split: option.splits)
  have s': "s' = s\<lparr>ss_file := write_env_file [(name, c # x)] (ss_file s), ss_staged := filter (\<lambda>(k, v). k \<noteq> name) (ss_staged s)\<rparr>"
    using assms(1,4) None st by (auto simp: make_secret_def managed_secret_def Let_def)
  have env: "good_env [(name, c # x)]" using assms(3) g by (simp add: good_env_def dkeys_def)
  have w: "dget (parse_env_file (ss_file s')) k = (if k = name then Some (c # x) else dget (parse_env_file (ss_file s)) k)" for k
    using write_env_get[OF env, of "ss_file s" k] by (simp add: s' dget_Cons)
  have f: "dget (filter (\<lambda>(k, v). k \<noteq> name) d) k = (if k = name then None else dget d k)" for d :: "(string, string) dict" and k
    by (induction d) (auto simp: dget_Cons)
  then have t: "dget (ss_staged s') k = (if k = name then None else dget (ss_staged s) k)" for k by (simp add: s')
  have "dget (managed_env s') k = dget (managed_env s) k" for k
    using None st by (auto simp: managed_env_get w t split: option.split)
  moreover have "settled s' k" if "settled s k" for k
    using that by (auto simp: settled_def w t split: option.splits)
  ultimately show ?thesis using assms(1) w by (auto simp: s')
qed


text \<open>The three secrets a render may ask for, and the ones it does.\<close>

definition managed_names :: "(string \<times> string) list" where
  "managed_names = [(DB_PASSWORD_ENV, []), (WEBUI_SECRET_ENV, []), (API_KEY_ENV, ''sk-'')]"

definition early_names :: "compose_settings \<Rightarrow> (string \<times> string) list" where
  "early_names s = (if se_litellm s \<and> se_dynamic s then [(DB_PASSWORD_ENV, [])] else []) @ (if se_ui s then [(WEBUI_SECRET_ENV, [])] else [])"

definition late_names :: "compose_settings \<Rightarrow> (string \<times> string) list" where
  "late_names s = (if se_litellm s then [(API_KEY_ENV, ''sk-'')] else [])"

definition make_secrets :: "compose_host \<Rightarrow> (string \<times> string) list \<Rightarrow> secret_state \<Rightarrow> secret_state" where
  "make_secrets H ns s = fold (\<lambda>(n, p). make_secret H n p) ns s"

lemma secrets_as_list:
  "webui_secrets H s (render_secrets H s sec) = make_secrets H (early_names s) sec"
  "master_secrets H s sec = make_secrets H (late_names s) sec"
  by (simp_all add: webui_secrets_def render_secrets_def master_secrets_def make_secrets_def early_names_def late_names_def)

lemma managed_names_set: "set (early_names s) \<subseteq> set managed_names" "set (late_names s) \<subseteq> set managed_names"
  by (auto simp: early_names_def late_names_def managed_names_def)

lemma managed_names_good: "(n, p) \<in> set managed_names \<Longrightarrow> good_key n" "(n, p) \<in> set managed_names \<Longrightarrow> n \<noteq> SALT_KEY_ENV"
  by (auto simp: managed_names_def DB_PASSWORD_ENV_def WEBUI_SECRET_ENV_def API_KEY_ENV_def SALT_KEY_ENV_def good_key_def py_space_def)

definition good_tokens :: "compose_host \<Rightarrow> bool" where
  "good_tokens H \<longleftrightarrow> (\<forall>n. hs_tokens H n \<noteq> [] \<and> good_value (hs_tokens H n))"

lemma good_tokens_value: "good_tokens H \<Longrightarrow> (n, p) \<in> set managed_names \<Longrightarrow> p @ hs_tokens H n \<noteq> [] \<and> good_value (p @ hs_tokens H n)"
  by (auto simp: good_tokens_def managed_names_def good_value_def is_break_def)

definition no_empty_secret :: "secret_state \<Rightarrow> bool" where
  "no_empty_secret s \<longleftrightarrow> (\<forall>(n, p) \<in> set managed_names. dget (parse_env_file (ss_file s)) n \<noteq> Some [])"

lemma make_secrets_staging:
  assumes "good_tokens H" and "set ns \<subseteq> set managed_names"
    and "ss_depth s \<noteq> 0" and "staged_ok s" and "no_empty_secret s"
  shows "ss_file (make_secrets H ns s) = ss_file s \<and> ss_depth (make_secrets H ns s) = ss_depth s \<and> staged_ok (make_secrets H ns s)
    \<and> (\<forall>(n, p) \<in> set ns. settled (make_secrets H ns s) n) \<and> (\<forall>k. settled s k \<longrightarrow> settled (make_secrets H ns s) k)
    \<and> (\<forall>k v. v \<noteq> [] \<longrightarrow> dget (managed_env s) k = Some v \<longrightarrow> dget (managed_env (make_secrets H ns s)) k = Some v)"
  using assms(2-)
proof (induction ns arbitrary: s)
  case Nil
  then show ?case by (simp add: make_secrets_def)
next
  case (Cons x ns)
  obtain n p where x: "x = (n, p)" by (cases x)
  then have m: "(n, p) \<in> set managed_names" using Cons.prems by simp
  let ?s = "make_secret H n p s"
  have "dget (parse_env_file (ss_file s)) n \<noteq> Some []" using Cons.prems(4) m by (auto simp: no_empty_secret_def)
  from make_secret_staging[OF Cons.prems(2,3) this _ _ refl] good_tokens_value[OF assms(1) m]
  have one: "ss_file ?s = ss_file s \<and> ss_depth ?s = ss_depth s \<and> staged_ok ?s \<and> settled ?s n \<and> (\<forall>k. settled s k \<longrightarrow> settled ?s k)
    \<and> (\<forall>k v. v \<noteq> [] \<longrightarrow> dget (managed_env s) k = Some v \<longrightarrow> dget (managed_env ?s) k = Some v)" by blast
  have ns: "set ns \<subseteq> set managed_names" using Cons.prems(1) by simp
  have "ss_depth ?s \<noteq> 0" "staged_ok ?s" "no_empty_secret ?s" using one Cons.prems(2,4) by (simp_all add: no_empty_secret_def)
  note rest = Cons.IH[OF ns this]
  have "make_secrets H (x # ns) s = make_secrets H ns ?s" by (simp add: x make_secrets_def)
  then show ?case using one rest by (simp add: x)
qed

lemma make_secrets_writing:
  assumes "set ns \<subseteq> set managed_names" and "ss_depth s = 0" and "\<forall>(n, p) \<in> set ns. settled s n"
  shows "ss_depth (make_secrets H ns s) = 0 \<and> dget (managed_env (make_secrets H ns s)) = dget (managed_env s)
    \<and> (\<forall>k. settled s k \<longrightarrow> settled (make_secrets H ns s) k)
    \<and> dget (parse_env_file (ss_file (make_secrets H ns s))) SALT_KEY_ENV = dget (parse_env_file (ss_file s)) SALT_KEY_ENV"
  using assms
proof (induction ns arbitrary: s)
  case Nil
  then show ?case by (simp add: make_secrets_def)
next
  case (Cons x ns)
  obtain n p where x: "x = (n, p)" by (cases x)
  then have m: "(n, p) \<in> set managed_names" and sn: "settled s n" using Cons.prems by auto
  let ?s = "make_secret H n p s"
  have one: "ss_depth ?s = 0 \<and> dget (managed_env ?s) = dget (managed_env s) \<and> (\<forall>k. settled s k \<longrightarrow> settled ?s k)
    \<and> (\<forall>k. k \<noteq> n \<longrightarrow> dget (parse_env_file (ss_file ?s)) k = dget (parse_env_file (ss_file s)) k)"
    using make_secret_writing[OF Cons.prems(2) sn _ refl] managed_names_good(1)[OF m] by blast
  have ns: "set ns \<subseteq> set managed_names" using Cons.prems(1) by simp
  have "ss_depth ?s = 0" "\<forall>(n, p) \<in> set ns. settled ?s n" using one Cons.prems(3) by auto
  note rest = Cons.IH[OF ns this]
  have "make_secrets H (x # ns) s = make_secrets H ns ?s" by (simp add: x make_secrets_def)
  then show ?case using one rest managed_names_good(2)[OF m] by simp
qed

section \<open>What a preview approved is what the commit writes\<close>

lemma dput_not_Nil [simp]: "dput k v d \<noteq> []"
  by (cases d) (auto simp: dput_def)

lemma fold_dput_Nil: "fold (\<lambda>r u. if c r then dput (f r) (g r u) u else u) rs d = [] \<longleftrightarrow> d = [] \<and> (\<forall>r \<in> set rs. \<not> c r)"
  by (induction rs arbitrary: d) auto

lemma missing_keys_mono:
  assumes "missing_route_keys repr env rs = []" and "\<And>k v. v \<noteq> [] \<Longrightarrow> dget env k = Some v \<Longrightarrow> dget env' k = Some v"
  shows "missing_route_keys repr env' rs = []"
proof -
  have "(case dget env n of Some v \<Rightarrow> v = [] | None \<Rightarrow> True)" if "(case dget env' n of Some v \<Rightarrow> v = [] | None \<Rightarrow> True)" for n
    using that assms(2)[of "the (dget env n)" n] by (cases "dget env n") (auto split: option.splits)
  then show ?thesis using assms(1) unfolding missing_route_keys_def Let_def fold_dput_Nil by auto
qed

lemma fingerprint_cong: "dget env = dget env' \<Longrightarrow> fingerprint sha text_at env = fingerprint sha text_at env'"
  by (intro ext) (simp only: fingerprint_def)

lemma stamped_cong:
  assumes "dget env = dget env'"
  shows "stamp_fingerprints sha text_at env = stamp_fingerprints sha text_at env'"
    and "fingerprint_table sha text_at env = fingerprint_table sha text_at env'"
proof -
  note f = fingerprint_cong[OF assms, of sha text_at]
  have "stamp_fingerprint sha text_at env = stamp_fingerprint sha text_at env'" by (intro ext) (simp only: stamp_fingerprint_def f)
  then show "stamp_fingerprints sha text_at env = stamp_fingerprints sha text_at env'"
    by (intro ext) (simp only: stamp_fingerprints_def)
  show "fingerprint_table sha text_at env = fingerprint_table sha text_at env'" by (intro ext) (simp only: fingerprint_table_def f)
qed

text \<open>A render does not depend on how the secrets came about, only on their values.\<close>

abbreviation retoken :: "compose_host \<Rightarrow> (string \<Rightarrow> string) \<Rightarrow> compose_host" where
  "retoken H t \<equiv> H\<lparr>hs_tokens := t\<rparr>"

lemma retoken_reads:
  "hs_sha (retoken H t) = hs_sha H" "hs_yaml (retoken H t) = hs_yaml H" "hs_repr (retoken H t) = hs_repr H"
  "hs_indent (retoken H t) = hs_indent H" "hs_spec (retoken H t) = hs_spec H" "hs_catalog (retoken H t) = hs_catalog H"
  "hs_measured (retoken H t) = hs_measured H" "hs_floor (retoken H t) = hs_floor H" "hs_gpus (retoken H t) = hs_gpus H"
  "hs_run_as (retoken H t) = hs_run_as H" "hs_subnet (retoken H t) = hs_subnet H" "hs_ports (retoken H t) = hs_ports H"
  "hs_state (retoken H t) = hs_state H"
  by simp_all

abbreviation rebase :: "compose \<Rightarrow> secret_state \<Rightarrow> compose_sidecar scaffold \<Rightarrow> compose" where
  "rebase b x s \<equiv> b\<lparr>cb_secrets := x, cb_scaffold := s\<rparr>"

lemma rebase_reads:
  "cb_dir (rebase b x s) = cb_dir b" "cb_settings (rebase b x s) = cb_settings b" "cb_proxy_config (rebase b x s) = cb_proxy_config b"
  "cb_proxy_text (rebase b x s) = cb_proxy_text b" "cb_network (rebase b x s) = cb_network b" "cb_registry (rebase b x s) = cb_registry b"
  "cb_extra (rebase b x s) = cb_extra b" "cb_extra_dynamic (rebase b x s) = cb_extra_dynamic b" "cb_scaffold (rebase b x s) = s"
  by simp_all

lemmas project_defs = project_plan_def place_args_def project_routes_def gw_of_def project_documents_def front_of_def input_of_def
  aux_files_def address_doc_def project_rows_def in_dir_def gateway_port_def load_sidecar_def

lemma project_documents_cong:
  assumes "dget (managed_env sec) = dget (managed_env sec')"
    and "dget (parse_env_file (ss_file sec)) SALT_KEY_ENV = dget (parse_env_file (ss_file sec')) SALT_KEY_ENV"
    and "sc_files s = sc_files (cb_scaffold b)"
  shows "project_documents (retoken H t) (rebase b x s) sec plan routes ds = project_documents H b sec' plan routes ds"
  unfolding project_defs retoken_reads rebase_reads assms(2,3) stamped_cong[OF assms(1)] Let_def ..

lemma project_reads:
  assumes "sc_sidecar s = sc_sidecar (cb_scaffold b)"
  shows "project_plan (retoken H t) (rebase b x s) desired i = project_plan H b desired i"
    and "project_routes (retoken H t) (rebase b x s) ds a = project_routes H b ds a"
    and "gw_of (retoken H t) = gw_of H"
  unfolding project_defs retoken_reads rebase_reads assms by (rule refl | rule ext, simp only: project_defs retoken_reads)+

lemma render_documents_Inr:
  "render_documents H desired i b = (Inr docs, b') \<longleftrightarrow>
     (\<exists>static dynamic. let s = cb_settings b; plan = project_plan H b desired i; sec = make_secrets H (early_names s) (cb_secrets b);
          sec' = make_secrets H (late_names s) sec in
        project_routes H b (map (gw_of H) desired) (set (dkeys (gp_assignments plan))) = Inr (static, dynamic)
        \<and> (se_litellm s \<longrightarrow> missing_route_keys (hs_repr H) (managed_env sec) (static @ dynamic) = [])
        \<and> project_documents H b sec' plan (static, dynamic) (map (gw_of H) desired) = Inr docs
        \<and> b' = b\<lparr>cb_secrets := sec'\<rparr>)"
  unfolding render_documents_def secrets_as_list Let_def crash_of_def
  by (auto split: sum.splits prod.splits if_splits)

lemma render_documents_frame:
  "render_documents H desired i b = (v, b') \<Longrightarrow> \<exists>sec. b' = b\<lparr>cb_secrets := sec\<rparr>"
  unfolding render_documents_def Let_def by (auto split: sum.splits prod.splits if_splits)

lemma unstage_reads:
  "ss_file (unstage s) = ss_file s" "managed_env (unstage s) = managed_env s" "settled (unstage s) = settled s"
proof -
  have r: "ss_file (unstage s) = ss_file s" "ss_staged (unstage s) = ss_staged s" by (simp_all add: unstage_def)
  show "ss_file (unstage s) = ss_file s" by (rule r(1))
  show "managed_env (unstage s) = managed_env s" by (simp add: managed_env_def r)
  show "settled (unstage s) = settled s" unfolding settled_def[abs_def] r ..
qed

lemma previewed_render:
  assumes t: "good_tokens H" and st: "staged_ok (cb_secrets b)" "no_empty_secret (cb_secrets b)" "ss_depth (cb_secrets b) = 0"
    and r: "render_documents H desired i (b\<lparr>cb_secrets := stage (cb_secrets b)\<rparr>) = (Inr docs, b1)"
    and s: "sc_files s = sc_files (cb_scaffold b)" "sc_sidecar s = sc_sidecar (cb_scaffold b)"
  shows "ss_file (cb_secrets b1) = ss_file (cb_secrets b)
    \<and> (\<exists>sec. render_documents (retoken H tk) desired i (b1\<lparr>cb_secrets := unstage (cb_secrets b1), cb_scaffold := s\<rparr>)
        = (Inr docs, b1\<lparr>cb_secrets := sec, cb_scaffold := s\<rparr>))"
proof -
  let ?sc = "cb_settings b" and ?s0 = "stage (cb_secrets b)"
  let ?E = "early_names ?sc" and ?L = "late_names ?sc"
  let ?plan = "project_plan H b desired i" and ?ds = "map (gw_of H) desired"
  define p1 where "p1 = make_secrets H ?E ?s0"
  define p2 where "p2 = make_secrets H ?L p1"
  have eq: "rebase b x (cb_scaffold b) = b\<lparr>cb_secrets := x\<rparr>" "retoken H (hs_tokens H) = H" for x by simp_all
  have reads: "project_plan H (b\<lparr>cb_secrets := x\<rparr>) desired i = ?plan"
    "project_routes H (b\<lparr>cb_secrets := x\<rparr>) ds a = project_routes H b ds a"
    "project_documents H (b\<lparr>cb_secrets := x\<rparr>) sec plan routes ds = project_documents H b sec plan routes ds" for x ds a sec plan routes
    using project_reads(1)[of "cb_scaffold b" b "hs_tokens H" H x desired i] project_reads(2)[of "cb_scaffold b" b "hs_tokens H" H x ds a]
      project_documents_cong[of sec sec "cb_scaffold b" b "hs_tokens H" H x plan routes ds] unfolding eq by simp_all
  obtain static dynamic where q: "project_routes H b ?ds (set (dkeys (gp_assignments ?plan))) = Inr (static, dynamic)"
    and m: "se_litellm ?sc \<Longrightarrow> missing_route_keys (hs_repr H) (managed_env p1) (static @ dynamic) = []"
    and d: "project_documents H b p2 ?plan (static, dynamic) ?ds = Inr docs" and b1: "b1 = b\<lparr>cb_secrets := p2\<rparr>"
    using r unfolding render_documents_Inr Let_def by (auto simp: reads p1_def p2_def)
  have 0: "ss_depth ?s0 \<noteq> 0" "staged_ok ?s0" "no_empty_secret ?s0" using st(1,2) by (simp_all add: stage_def staged_ok_def no_empty_secret_def)
  note P1 = make_secrets_staging[OF t managed_names_set(1)[of ?sc] 0, folded p1_def]
  have 1: "ss_depth p1 \<noteq> 0" "staged_ok p1" "no_empty_secret p1" using P1 0 by (simp_all add: no_empty_secret_def)
  note P2 = make_secrets_staging[OF t managed_names_set(2)[of ?sc] 1, folded p2_def]
  have files: "ss_file p2 = ss_file (cb_secrets b)" using P1 P2 by (simp add: stage_def)
  define c0 where "c0 = unstage p2"
  define c1 where "c1 = make_secrets (retoken H tk) ?E c0"
  define c2 where "c2 = make_secrets (retoken H tk) ?L c1"
  have d0: "ss_depth c0 = 0" using P1 P2 st(3) by (simp add: c0_def unstage_def stage_def)
  have e0: "managed_env c0 = managed_env p2" "ss_file c0 = ss_file p2" "settled c0 = settled p2"
    unfolding c0_def by (rule unstage_reads)+
  have P1s: "\<forall>(n, p) \<in> set ?E. settled p1 n" and P2s: "\<forall>(n, p) \<in> set ?L. settled p2 n" and mono: "\<And>k. settled p1 k \<Longrightarrow> settled p2 k"
    using P1 P2 by blast+
  have sE: "\<forall>(n, p) \<in> set ?E. settled c0 n" and sL: "\<forall>(n, p) \<in> set ?L. settled c0 n"
    using P1s P2s mono unfolding e0(3) by blast+
  note W1 = make_secrets_writing[OF managed_names_set(1)[of ?sc] d0 sE, of "retoken H tk", folded c1_def]
  have sL1: "\<forall>(n, p) \<in> set ?L. settled c1 n" using sL W1 by blast
  have C1: "ss_depth c1 = 0" "dget (managed_env c1) = dget (managed_env c0)"
    "dget (parse_env_file (ss_file c1)) SALT_KEY_ENV = dget (parse_env_file (ss_file c0)) SALT_KEY_ENV" using W1 by blast+
  note C2 = make_secrets_writing[OF managed_names_set(2)[of ?sc] C1(1) sL1, of "retoken H tk", folded c2_def]
  have env: "dget (managed_env c2) = dget (managed_env p2)" "dget (managed_env c1) = dget (managed_env p2)"
    "dget (parse_env_file (ss_file c2)) SALT_KEY_ENV = dget (parse_env_file (ss_file p2)) SALT_KEY_ENV"
    using C1 C2 e0 by simp_all
  have m2: "se_litellm ?sc \<Longrightarrow> missing_route_keys (hs_repr H) (managed_env c1) (static @ dynamic) = []"
    using m missing_keys_mono[of "hs_repr H" "managed_env p1" "static @ dynamic" "managed_env c1"] P2 unfolding env(2) by blast
  have b2: "b1\<lparr>cb_secrets := unstage (cb_secrets b1), cb_scaffold := s\<rparr> = b\<lparr>cb_secrets := c0, cb_scaffold := s\<rparr>"
    by (simp add: b1 c0_def)
  have "render_documents (retoken H tk) desired i (b\<lparr>cb_secrets := c0, cb_scaffold := s\<rparr>)
      = (Inr docs, b\<lparr>cb_secrets := c2, cb_scaffold := s\<rparr>)"
    unfolding render_documents_Inr Let_def project_reads[OF s(2)]
    using q m2 project_documents_cong[OF env(1,3) s(1)] d by (auto simp: c1_def[symmetric] c2_def[symmetric])
  then show ?thesis unfolding b2 using files by (auto simp: b1)
qed

section \<open>What a converge does\<close>

abbreviation cb_disk :: "compose \<Rightarrow> (string, string) dict \<times> compose_sidecar option \<times> json \<times> (string, string) dict option" where
  "cb_disk b \<equiv> (sc_files (cb_scaffold b), sc_sidecar (cb_scaffold b), cb_registry b, cb_addresses b)"

lemma bind_err_raise: "bind_err m k = Inl e \<longleftrightarrow> m = Inl e \<or> (\<exists>x. m = Inr x \<and> k x = Inl e)"
  by (cases m) auto

lemma crash_of_run [simp]: "crash_of r = Inr x \<longleftrightarrow> r = Inr x" "crash_of r \<noteq> Inl NotApproved" "network_of n \<noteq> Inl NotApproved"
  by (auto simp: crash_of_def network_of_def split: sum.split)

lemma render_documents_crash: "fst (render_documents H desired i b) \<noteq> Inl NotApproved"
proof -
  have "address_doc H b doc \<noteq> Inl NotApproved" for doc
    by (auto simp: address_doc_def bind_err_raise split: option.split)
  then have "project_documents H b sec plan routes ds \<noteq> Inl NotApproved" for sec plan routes ds
    by (auto simp: project_documents_def bind_err_raise Let_def)
  then show ?thesis unfolding render_documents_def Let_def
    by (auto split: sum.splits prod.splits if_splits)
qed

lemma write_files_files: "sc_files (write_files ws s) = fold (\<lambda>(p, t). dput p t) ws (sc_files s)"
  unfolding write_files_def by (induction ws arbitrary: s) (auto simp: atomic_write_def)

lemma dget_filter_other: "p \<noteq> c \<Longrightarrow> dget (filter (\<lambda>(q, t). q \<noteq> c) d) p = dget d p"
  by (induction d) (auto simp: dget_Cons)

lemma write_documents_disk:
  "cb_disk b = cb_disk b' \<Longrightarrow> cb_dir b = cb_dir b' \<Longrightarrow> cb_disk (write_documents i docs b) = cb_disk (write_documents i docs b')"
proof -
  assume d: "cb_disk b = cb_disk b'" and p: "cb_dir b = cb_dir b'"
  show ?thesis using d p by (auto simp: write_files_files write_documents_def save_sidecar_def atomic_write_def in_dir_def Let_def split: option.split)
qed

lemma compose_converge_cases:
  assumes "compose_converge H confirm desired i b = (v, b')"
  obtains (failed) e where "v = Inl e" and "fst (render_documents H desired i b) = Inl e" and "e \<noteq> NotApproved" and "cb_disk b' = cb_disk b"
  | (declined) docs b1 where "render_documents H desired i b = (Inr docs, b1)"
      and "\<not> approved (hs_sha H) confirm (dc_planned docs) (cb_scaffold b)" and "v = Inl NotApproved" and "cb_disk b' = cb_disk b"
  | (written) docs b1 where "render_documents H desired i b = (Inr docs, b1)"
      and "approved (hs_sha H) confirm (dc_planned docs) (cb_scaffold b)" and "v = Inr (dc_plan docs)"
      and "cb_disk b' = cb_disk (write_documents i docs b)" and "cb_dir b' = cb_dir b"
      and "sc_asked (cb_scaffold b') = sc_asked (snd (approve_changes (hs_sha H) confirm (dc_planned docs) (cb_scaffold b)))"
proof -
  obtain r b1 where r: "render_documents H desired i b = (r, b1)" by fastforce
  then obtain sec where b1: "b1 = b\<lparr>cb_secrets := sec\<rparr>" using render_documents_frame by blast
  show thesis
  proof (cases r)
    case (Inl e)
    then have "v = Inl e" "b' = b1" using assms r by (simp_all add: compose_converge_def mt_bind_def)
    moreover have "e \<noteq> NotApproved" using render_documents_crash[of H desired i b] r Inl by auto
    ultimately show thesis using failed b1 r Inl by simp
  next
    case (Inr docs)
    let ?w = "dc_planned docs"
    define b2 where "b2 = b1\<lparr>cb_assignments := gp_assignments (dc_plan docs), cb_plan_errors := gp_errors (dc_plan docs),
         cb_render_errors := rc_errors (dc_rendered docs), cb_unplaced := unplaced_of desired docs,
         cb_scaffold := (cb_scaffold b1)\<lparr>sc_planned := Some (planned_digest (hs_sha H) ?w)\<rparr>\<rparr>"
    obtain ok s where s: "approve_changes (hs_sha H) confirm ?w (cb_scaffold b2) = (ok, s)" by fastforce
    have ok: "ok = approved (hs_sha H) confirm ?w (cb_scaffold b)"
      using approve_changes_approved[of "hs_sha H" confirm ?w "cb_scaffold b2"] s by (simp add: b1 b2_def approved_def)
    have fr: "sc_files s = sc_files (cb_scaffold b)" "sc_sidecar s = sc_sidecar (cb_scaffold b)"
      using approve_changes_frame(1,2)[of "hs_sha H" confirm ?w "cb_scaffold b2"] s by (simp_all add: b1 b2_def)
    have asked: "sc_asked s = sc_asked (snd (approve_changes (hs_sha H) confirm ?w (cb_scaffold b)))"
      using s by (auto simp: b1 b2_def approve_changes_def Let_def split: if_splits)
    have run: "(v, b') = (if ok then (Inr (dc_plan docs), write_documents i docs (b2\<lparr>cb_scaffold := s\<rparr>)) else (Inl NotApproved, b2\<lparr>cb_scaffold := s\<rparr>))"
      using assms r s unfolding b2_def Inr by (auto simp: compose_converge_def mt_bind_def mt_modify_def mt_return_def)
    have base: "cb_disk (b2\<lparr>cb_scaffold := s\<rparr>) = cb_disk b" "cb_dir (b2\<lparr>cb_scaffold := s\<rparr>) = cb_dir b"
      using fr by (simp_all add: b1 b2_def)
    have keep: "cb_dir (write_documents i docs x) = cb_dir x" "sc_asked (cb_scaffold (write_documents i docs x)) = sc_asked (cb_scaffold x)" for x
      using write_files_frame(4) by (simp_all add: write_documents_def save_sidecar_def atomic_write_def Let_def)
    show thesis
    proof (cases ok)
      case False
      then show thesis using declined[OF r[unfolded Inr]] run ok base(1) by simp
    next
      case True
      then show thesis using written[OF r[unfolded Inr]] run ok write_documents_disk[OF base] base(2) asked by (simp add: keep)
    qed
  qed
qed


section \<open>What the documents hold\<close>

lemma fold_dput_keys_distinct: "distinct (dkeys d) \<Longrightarrow> distinct (dkeys (fold (\<lambda>(p, t). dput p t) ps d))"
  by (induction ps arbitrary: d) auto

lemma rendered_documents:
  assumes "render_documents H desired i b = (Inr docs, b1)"
  shows "distinct (dkeys (dc_planned docs)) \<and> dget (dc_planned docs) (in_dir b COMPOSE_FILENAME) = Some (hs_yaml H (JObj (dc_doc docs)))
    \<and> (\<exists>text_at env services stamped. rt_get (dc_doc docs) ''services'' = JObj stamped
        \<and> fingerprint_table (hs_sha H) text_at env services = Inr (dc_fingerprints docs)
        \<and> stamp_fingerprints (hs_sha H) text_at env services = Inr stamped)"
proof -
  obtain sec plan routes ds where d: "project_documents H b sec plan routes ds = Inr docs"
    using assms unfolding render_documents_Inr Let_def by blast
  have a: "distinct (dkeys (aux_files H b r))" for r unfolding aux_files_def by (rule fold_dput_keys_distinct) simp
  obtain r doc addresses table services rows where
      t: "fingerprint_table (hs_sha H) (text_for (aux_files H b r) (sc_files (cb_scaffold b))) (managed_env sec) (services_of doc) = Inr table"
    and st: "stamp_fingerprints (hs_sha H) (text_for (aux_files H b r) (sc_files (cb_scaffold b))) (managed_env sec) (services_of doc) = Inr services"
    and e: "docs = \<lparr>dc_plan = plan, dc_rendered = r, dc_doc = dput ''services'' (JObj services) doc,
         dc_planned = dput (in_dir b COMPOSE_FILENAME) (hs_yaml H (JObj (dput ''services'' (JObj services) doc))) (aux_files H b r),
         dc_fingerprints = table, dc_addresses = addresses, dc_remember = rows\<rparr>"
    using d unfolding project_documents_def Let_def bind_err_Inr split_beta crash_of_run(1) sum.inject by (elim exE conjE) (rule that, assumption, assumption, erule sym)
  have "rt_get (dc_doc docs) ''services'' = JObj services" "dc_fingerprints docs = table" by (simp_all add: e rt_get_def)
  then show ?thesis using t st a by (auto simp: e)
qed

lemma written_texts:
  assumes "distinct (dkeys (dc_planned docs))" and "dget (dc_planned docs) (in_dir b COMPOSE_FILENAME) = Some t0"
  shows "dget (sc_files (cb_scaffold (write_documents i docs b))) p
    = (case dget (dc_planned docs) p of Some t \<Rightarrow> Some t | None \<Rightarrow> dget (sc_files (cb_scaffold b)) p)"
proof -
  let ?c = "in_dir b COMPOSE_FILENAME"
  let ?ws = "filter (\<lambda>(q, t). q \<noteq> ?c) (dc_planned docs)"
  have "distinct (dkeys ?ws)" using assms(1) by (simp add: dkeys_def distinct_map_filterI)
  note w = write_files_text[OF this, of "cb_scaffold b" p]
  have "dget ?ws p = dget (dc_planned docs) p" if "p \<noteq> ?c"
    using that by (rule dget_filter_other)
  then show ?thesis using w assms(2) by (simp add: write_documents_def save_sidecar_def atomic_write_def Let_def split: option.split)
qed

lemma dput_labels: "dget (dput k v d) k = Some v" by simp

lemma stamped_table:
  assumes "fingerprint_table sha text_at env services = Inr table" and "stamp_fingerprints sha text_at env services = Inr stamped"
  shows "dkeys table = dkeys stamped \<and> (\<forall>n \<in> set (dkeys stamped). \<exists>svc labels f. dget stamped n = Some (JObj svc)
      \<and> dget svc ''labels'' = Some (JObj labels) \<and> dget labels FINGERPRINT_LABEL = Some (JStr f) \<and> dget table n = Some f
      \<and> fingerprint sha text_at env svc = Inr f)"
  using assms
proof (induction services arbitrary: table stamped)
  case Nil
  then show ?case by (simp add: fingerprint_table_def stamp_fingerprints_def)
next
  case (Cons x services)
  obtain n s where x: "x = (n, s)" by (cases x)
  obtain svc where s: "s = JObj svc" using Cons.prems(1) by (cases s) (auto simp: x fingerprint_table_def bind_err_Inr)
  obtain f table' where f: "fingerprint sha text_at env svc = Inr f" and t: "table = (n, f) # table'"
    and t': "fingerprint_table sha text_at env services = Inr table'"
    using Cons.prems(1) by (auto simp: x s fingerprint_table_def bind_err_Inr)
  obtain svc' stamped' where st: "stamp_fingerprint sha text_at env svc = Inr svc'" and sd: "stamped = (n, JObj svc') # stamped'"
    and sd': "stamp_fingerprints sha text_at env services = Inr stamped'"
    using Cons.prems(2) by (auto simp: x s stamp_fingerprints_def bind_err_Inr)
  obtain labels where "svc' = dput ''labels'' (JObj (dput FINGERPRINT_LABEL (JStr f) labels)) svc"
    using st f by (auto simp: stamp_fingerprint_def bind_err_Inr split: json.splits)
  then have "dget svc' ''labels'' = Some (JObj (dput FINGERPRINT_LABEL (JStr f) labels))" by simp
  then show ?case using Cons.IH[OF t' sd'] stamp_fingerprint_again[OF st] f
    by (auto simp: t sd dkeys_def dget_Cons)
qed

text \<open>
  C19. A render can be applied. The compose file a converge writes is read back with its sidecar as one apply input whose
  services are the rendered ones: each has a fingerprint, the same in the sidecar and as the label of its stanza (the
  containers started from it carry it), and it is the fingerprint of the stanza as it was written. No apply of a finished
  converge stops at an unreadable or outdated render.
\<close>

theorem compose_render_is_applicable:
  assumes "render_documents H desired i b = (Inr docs, b0)"
    and "hs_load H (hs_yaml H (JObj (dc_doc docs))) = Some (JObj (dc_doc docs))"
    and "compose_converge H confirm desired i b = (Inr plan, b1)"
    and "cb_scaffold b2 = cb_scaffold b1" and "cb_dir b2 = cb_dir b1"
  shows "\<exists>inp networks text_at env. rendered_input H b2 = Inr (Rendered inp networks)
    \<and> rt_get (dc_doc docs) ''services'' = JObj (ai_services inp)
    \<and> (\<forall>n \<in> set (dkeys (ai_services inp)). \<exists>svc labels f. service_of (ai_services inp) n = JObj svc
        \<and> dget svc ''labels'' = Some (JObj labels) \<and> dget labels FINGERPRINT_LABEL = Some (JStr f)
        \<and> dget (ai_fingerprints inp) n = Some f \<and> fingerprint (hs_sha H) text_at env svc = Inr f)"
  using assms(3)
proof (cases rule: compose_converge_cases)
  case (written docs' b1')
  then have docs': "docs' = docs" using assms(1) by simp
  note R = rendered_documents[OF assms(1)]
  obtain text_at env services stamped where st: "rt_get (dc_doc docs) ''services'' = JObj stamped"
    and f: "fingerprint_table (hs_sha H) text_at env services = Inr (dc_fingerprints docs)"
      "stamp_fingerprints (hs_sha H) text_at env services = Inr stamped" using R by blast
  note T = stamped_table[OF f]
  have dir: "in_dir b2 COMPOSE_FILENAME = in_dir b COMPOSE_FILENAME" using written(5) assms(5) by (simp add: in_dir_def)
  have files: "sc_files (cb_scaffold b2) = sc_files (cb_scaffold (write_documents i docs b))"
    and side: "load_sidecar no_compose_sidecar (cb_scaffold b2) = sidecar_of i docs"
    using written(4) assms(4) by (simp_all add: docs' write_documents_def save_sidecar_def load_sidecar_def)
  have content: "dget (sc_files (cb_scaffold b2)) (in_dir b2 COMPOSE_FILENAME) = Some (hs_yaml H (JObj (dc_doc docs)))"
    using written_texts[of docs b] R by (simp add: files dir)
  have ne: "dc_doc docs \<noteq> []" using st by (auto simp: rt_get_def)
  then have "as_dict (JObj (dc_doc docs)) = Inr (dc_doc docs)" "as_dict (JObj stamped) = Inr stamped"
    by (auto simp: as_dict_def py_or_def truthy_def)
  moreover have "cs_fingerprints (sidecar_of i docs) = Some (dc_fingerprints docs)" by (simp add: sidecar_of_def)
  ultimately obtain inp networks where "rendered_input H b2 = Inr (Rendered inp networks)" "ai_services inp = stamped"
    "ai_fingerprints inp = dc_fingerprints docs"
    using T by (simp add: rendered_input_def content assms(2) st side Let_def)
  then show ?thesis using T st by (fastforce simp: service_of_def)
qed auto


section \<open>A project to try it on\<close>

definition demo_compose_host :: compose_host where
  "demo_compose_host = \<lparr>hs_sha = (\<lambda>_. ''0''), hs_yaml = (\<lambda>_. ''doc''), hs_load = (\<lambda>_. None), hs_repr = (\<lambda>_. []), hs_indent = (\<lambda>_. []),
     hs_spec = (\<lambda>_. []), hs_catalog = (\<lambda>_. None), hs_measured = (\<lambda>_. None), hs_floor = (\<lambda>_. None),
     hs_gpus = \<lparr>cf_inventory = [], cf_allowed = None, cf_reserved = [], cf_skip_display = False\<rparr>,
     hs_tokens = (\<lambda>_. ''t''), hs_run_as = (\<lambda>_. None), hs_subnet = (\<lambda>_. \<lparr>net_base = 0, net_prefix = 24\<rparr>), hs_ports = [], hs_state = [(''open_webui'', ''/w'')]\<rparr>"

definition demo_compose :: compose where
  "demo_compose = \<lparr>cb_dir = ''/s'', cb_settings = \<lparr>se_project = ''p'', se_litellm = False, se_ui = True, se_dynamic = False,
       se_skip_display = False, se_proxy = False, se_proxy_port = 80, se_images = [(''open_webui'', ''ui'')],
       se_ports = [(''open_webui'', 1)], se_state = [(''open_webui'', ''/w'')], se_sources = []\<rparr>,
     cb_proxy_config = None, cb_proxy_text = None, cb_network = None,
     cb_scaffold = \<lparr>sc_files = [(''/s/docker-compose.yml'', ''old'')], sc_sidecar = None, sc_assume_yes = False, sc_preapproved = None,
       sc_planned = None, sc_preview = None, sc_asked = []\<rparr>,
     cb_secrets = \<lparr>ss_file = None, ss_staged = [], ss_depth = 0\<rparr>, cb_registry = JObj [], cb_extra = [], cb_extra_dynamic = [],
     cb_adopted = [], cb_addresses = None, cb_plan_errors = [], cb_render_errors = [], cb_unplaced = [], cb_assignments = []\<rparr>"

definition demo_compose_preview :: "(compose_error + documents) \<times> compose" where
  "demo_compose_preview = compose_preview demo_compose_host (\<lambda>_. True) True [] None demo_compose"

definition demo_documents :: documents where
  "demo_documents = projr (fst (render_documents demo_compose_host [] None demo_compose))"

text \<open>The YAML reader of a host that has only this project.\<close>

definition demo_reading_host :: compose_host where
  "demo_reading_host = demo_compose_host\<lparr>hs_load := (\<lambda>_. Some (JObj (dc_doc demo_documents)))\<rparr>"

lemma demo_compose_runs:
  "isl (fst demo_compose_preview) = False" "isl (fst (compose_converge demo_compose_host (\<lambda>_. True) [] None demo_compose)) = False"
  "fst (compose_converge demo_compose_host (\<lambda>_. False) [] None demo_compose) = Inl NotApproved"
  "isl (fst (render_documents demo_compose_host [] None demo_compose)) = False"
  by code_simp+

lemma demo_reading_runs:
  "isl (fst (compose_converge demo_reading_host (\<lambda>_. True) [] None demo_compose)) = False"
  "fst (render_documents demo_reading_host [] None demo_compose) = Inr (projr (fst (render_documents demo_compose_host [] None demo_compose)))"
  by code_simp+



lemma compose_render_is_applicable_witness:
  "\<exists>inp networks. rendered_input demo_reading_host (snd (compose_converge demo_reading_host (\<lambda>_. True) [] None demo_compose)) = Inr (Rendered inp networks)
    \<and> JObj (ai_services inp) = rt_get (dc_doc demo_documents) ''services''"
proof -
  have r: "render_documents demo_reading_host [] None demo_compose = (Inr demo_documents, snd (render_documents demo_reading_host [] None demo_compose))"
    "compose_converge demo_reading_host (\<lambda>_. True) [] None demo_compose
      = (Inr (projr (fst (compose_converge demo_reading_host (\<lambda>_. True) [] None demo_compose))), snd (compose_converge demo_reading_host (\<lambda>_. True) [] None demo_compose))"
    using demo_reading_runs unfolding demo_documents_def by (metis prod.collapse sum.collapse(2))+
  have "hs_load demo_reading_host (hs_yaml demo_reading_host (JObj (dc_doc demo_documents))) = Some (JObj (dc_doc demo_documents))"
    by (simp add: demo_reading_host_def)
  from compose_render_is_applicable[OF r(1) this r(2) refl refl] show ?thesis by metis
qed

end
