(* ===== verification/ComposeReady.thy ===== *)
theory ComposeReady
  imports
  ComposeProject
  Diagnosis
begin

text \<open>
  What the Compose backend can say of a running project: the services \<open>docker compose ps\<close> lists, and whether an endpoint is
  ready, which only a generation answers (\<open>probe_ready\<close> of \<open>leasing/compose.py\<close>, \<open>openai_ready\<close> of \<open>probe.py\<close>).

  \<open>probes\<close> are the answers of the world: an HTTP call that raises is \<open>Inl\<close> with its text, \<open>pr_loads\<close> is \<open>json.jloads\<close>,
  \<open>pr_ps\<close> the output of \<open>docker compose ps\<close> or \<open>None\<close> when it failed, \<open>pr_pull\<close> the error of an Ollama pull.
\<close>

section \<open>One probe of an OpenAI server\<close>

record response =
  rs_status :: int
  rs_text :: string
  rs_json :: "json option"

record probes =
  pr_get :: "string \<Rightarrow> string + response"
  pr_post :: "string \<Rightarrow> json \<Rightarrow> string + response"
  pr_loads :: "string \<Rightarrow> json option"
  pr_ps :: "string option"
  pr_pull :: "string \<Rightarrow> string \<Rightarrow> string option"
  pr_residency :: "residency option"
  pr_logs :: string

definition refused_by :: "string \<Rightarrow> response \<Rightarrow> string" where
  "refused_by url r = url @ '' returned HTTP '' @ show_int (rs_status r) @ '': '' @ take 300 (py_strip (rs_text r))"

definition probe_payload :: "json \<Rightarrow> json \<Rightarrow> string \<times> json" where
  "probe_payload protocol model = (if protocol = JStr ''completions''
     then (''/completions'', JObj [(''model'', model), (''prompt'', JStr ''Reply with ready.''), (''max_tokens'', JInt 1)])
     else (''/chat/completions'', JObj [(''model'', model),
       (''messages'', JList [JObj [(''role'', JStr ''user''), (''content'', JStr ''Reply with ready.'')]]), (''max_tokens'', JInt 1)]))"

text \<open>The models a server advertises, and what to ask for: the model wanted, or the first.\<close>

definition advertised :: "json \<Rightarrow> py_error + json list" where
  "advertised doc = bind_err (py_get ''data'' doc) (\<lambda>d. if \<not> truthy d then Inr [] else
     bind_err (py_iter d) (map_err (py_get ''id'')))"

definition model_asked :: "json \<Rightarrow> json list \<Rightarrow> json" where
  "model_asked model ids = (if truthy model then model else case ids of [] \<Rightarrow> JNull | i # _ \<Rightarrow> i)"

definition openai_ready :: "probes \<Rightarrow> (json \<Rightarrow> string) \<Rightarrow> string \<Rightarrow> json \<Rightarrow> json \<Rightarrow> bool \<Rightarrow> bool \<Rightarrow> py_error + (bool \<times> string)" where
  "openai_ready W repr base model protocol generation listed = (case pr_get W (base @ ''/models'') of
     Inl ex \<Rightarrow> Inr (False, ''/models not reachable yet: '' @ ex)
   | Inr r \<Rightarrow> if rs_status r \<ge> 400 then Inr (False, refused_by ''/models'' r)
     else (case rs_json r of None \<Rightarrow> Inr (False, ''/models returned non-JSON response'')
     | Some doc \<Rightarrow> bind_err (advertised doc) (\<lambda>ids. let name = model_asked model ids in
         if \<not> truthy name then Inr (False, ''/models is reachable but no models are advertised'')
         else if listed \<and> model \<noteq> JNull \<and> ids \<noteq> [] \<and> model \<notin> set ids
         then Inr (False, py_str repr model @ '' is not advertised by the gateway yet'')
         else if \<not> generation then Inr (True, ''/models is ready; selected model '' @ py_str repr name)
         else (case probe_payload protocol name of (path, payload) \<Rightarrow> (case pr_post W (base @ path) payload of
             Inl ex \<Rightarrow> Inr (False, base @ path @ '' not serving yet: '' @ ex)
           | Inr r \<Rightarrow> if rs_status r \<ge> 400 then Inr (False, refused_by (base @ path) r)
               else Inr (True, py_str repr name @ '' served a '' @ py_str repr protocol @ '' probe''))))))"

section \<open>What runs\<close>

definition ps_rows :: "(string \<Rightarrow> json option) \<Rightarrow> string \<Rightarrow> json list" where
  "ps_rows jloads text = (let s = py_strip text in if s = [] then [] else case jloads s of
       Some (JList rows) \<Rightarrow> rows
     | Some row \<Rightarrow> [row]
     | None \<Rightarrow> List.map_filter jloads (filter (\<lambda>l. l \<noteq> []) (map py_strip (splitlines s))))"

definition running_row :: "(json \<Rightarrow> string) \<Rightarrow> json \<Rightarrow> py_error + string option" where
  "running_row repr row = (case row of
     JObj kvs \<Rightarrow>
       if is_prefix ''running'' (py_lower (py_str repr (get_default kvs ''State'' (JStr []))))
       then let name = py_or (rt_get kvs ''Service'') (rt_get kvs ''Name'') in Inr (if truthy name then Some (py_str repr name) else None)
       else Inr None
   | _ \<Rightarrow> Inl AttributeError)"

definition parse_ps :: "(json \<Rightarrow> string) \<Rightarrow> (string \<Rightarrow> json option) \<Rightarrow> string \<Rightarrow> py_error + string list" where
  "parse_ps repr jloads text = bind_err (map_err (running_row repr) (ps_rows jloads text)) (\<lambda>names.
     Inr (remdups (List.map_filter (\<lambda>x. x) names)))"

definition compose_observe :: "probes \<Rightarrow> (json \<Rightarrow> string) \<Rightarrow> compose \<Rightarrow> py_error + string list" where
  "compose_observe W repr b =
     (if dget (sc_files (cb_scaffold b)) (in_dir b COMPOSE_FILENAME) = None then Inr []
      else case pr_ps W of None \<Rightarrow> Inr []
      | Some out \<Rightarrow> bind_err (parse_ps repr (pr_loads W) out) (\<lambda>running.
          Inr (remdups (List.map_filter (dget (cs_services (load_sidecar no_compose_sidecar (cb_scaffold b)))) running))))"

definition compose_startup_failure :: "probes \<Rightarrow> string \<Rightarrow> string option" where
  "compose_startup_failure W gid = (case pr_residency W of None \<Rightarrow> None
     | Some res \<Rightarrow> diagnose_startup (units res gid) (pr_logs W) (r_replicated res) None)"

section \<open>Ready\<close>

text \<open>The endpoint's Ollama tag is pulled once per process; \<open>pulled\<close> are the pairs done.\<close>

definition payload_of :: "gw_deployment \<Rightarrow> string \<Rightarrow> (string, json) dict" where
  "payload_of d endpoint = (case dget (gd_served d) endpoint of Some (JObj p) \<Rightarrow> p | _ \<Rightarrow> [])"

definition ensure_ollama_tag :: "probes \<Rightarrow> (json \<Rightarrow> string) \<Rightarrow> gw_deployment \<Rightarrow> string \<Rightarrow> string list \<Rightarrow> string option \<times> string list" where
  "ensure_ollama_tag W repr d endpoint pulled = (let tag = rt_get (payload_of d endpoint) ''model'' in
     if \<not> truthy tag then (None, pulled)
     else let name = py_str repr tag; k = gd_id d @ '':'' @ name in
       if k \<in> set pulled then (None, pulled)
       else (case pr_pull W (ollama_service_name_for (py_str repr (gd_host d))) name of
           Some ex \<Rightarrow> (Some (''pulling '' @ name @ '': '' @ ex), pulled)
         | None \<Rightarrow> (None, pulled @ [k])))"

text \<open>The host side of a port mapping of the deployment's service, as rendered.\<close>

definition host_port :: "(json \<Rightarrow> string) \<Rightarrow> json \<Rightarrow> string" where
  "host_port repr mapping = takeWhile (\<lambda>c. c \<noteq> CHR '':'') (py_str repr mapping)"

definition first_port :: "(json \<Rightarrow> string) \<Rightarrow> json list \<Rightarrow> string option" where
  "first_port repr mappings = find (\<lambda>p. p \<noteq> []) (map (host_port repr) mappings)"

fun port_of :: "(json \<Rightarrow> string) \<Rightarrow> string \<Rightarrow> json list \<Rightarrow> py_error + string option" where
  "port_of repr gid [] = Inr None"
| "port_of repr gid (svc # services) =
     bind_err (py_get_obj ''labels'' svc) (\<lambda>labels. bind_err (py_get DEPLOYMENT_LABEL labels) (\<lambda>owner.
       if owner \<noteq> JStr gid then port_of repr gid services
       else bind_err (bind_err (py_get ''ports'' svc) (\<lambda>p. if truthy p then py_iter p else Inr [])) (\<lambda>mappings.
         case first_port repr mappings of Some p \<Rightarrow> Inr (Some p) | None \<Rightarrow> port_of repr gid services)))"

definition published_v1_url :: "compose_host \<Rightarrow> compose \<Rightarrow> string \<Rightarrow> py_error + string option" where
  "published_v1_url H b gid = (case dget (sc_files (cb_scaffold b)) (in_dir b COMPOSE_FILENAME) of None \<Rightarrow> Inr None
     | Some content \<Rightarrow> (case hs_load H content of None \<Rightarrow> Inl ValueError
       | Some v \<Rightarrow> bind_err (as_dict v) (\<lambda>doc. bind_err (as_dict (rt_get doc ''services'')) (\<lambda>services.
           bind_err (port_of (hs_repr H) gid (dvals services)) (\<lambda>p.
             Inr (map_option (\<lambda>p. ''http://127.0.0.1:'' @ p @ ''/v1'') p))))))"

definition not_ready :: "string \<Rightarrow> readiness" where
  "not_ready why = \<lparr>rd_ready = False, rd_detail = why, rd_fatal = False, rd_needs_room = False\<rparr>"

definition answered :: "bool \<times> string \<Rightarrow> readiness" where
  "answered r = \<lparr>rd_ready = fst r, rd_detail = snd r, rd_fatal = False, rd_needs_room = False\<rparr>"

definition gateway_base :: "compose_host \<Rightarrow> compose \<Rightarrow> string" where
  "gateway_base H b = ''http://127.0.0.1:'' @ show_int (gateway_port H (cb_settings b) ''litellm'') @ ''/v1''"

text \<open>The protocol of a probe (Ollama's OpenAI surface is chat) and the name an engine serves the endpoint under.\<close>

definition probe_protocol :: "gw_deployment \<Rightarrow> string \<Rightarrow> json" where
  "probe_protocol d endpoint = (if gd_engine d = ''ollama'' then JStr ''chat''
     else py_or (rt_get (payload_of d endpoint) ''protocol'') (JStr ''chat''))"

definition name_served :: "gw_deployment \<Rightarrow> string \<Rightarrow> json" where
  "name_served d endpoint = py_or (rt_get (payload_of d endpoint) ''served_model_name'') (JStr endpoint)"

text \<open>Asking the deployment that runs: through the gateway, or the engine's own published server.\<close>

definition probe_running :: "compose_host \<Rightarrow> probes \<Rightarrow> gw_deployment \<Rightarrow> string \<Rightarrow> compose \<Rightarrow> py_error + readiness" where
  "probe_running H W d endpoint b =
     (if se_litellm (cb_settings b)
      then bind_err (openai_ready W (hs_repr H) (gateway_base H b) (JStr endpoint) (probe_protocol d endpoint) True True) (\<lambda>r. Inr (answered r))
      else if gd_engine d = ''ollama'' then Inr (answered (True, ''ollama tag pulled''))
      else bind_err (published_v1_url H b (gd_id d)) (\<lambda>url. case url of
          None \<Rightarrow> Inr (not_ready ''vLLM upstream has no published port yet'')
        | Some url \<Rightarrow> bind_err (openai_ready W (hs_repr H) url
            (name_served d endpoint) (probe_protocol d endpoint) True False) (\<lambda>r. Inr (answered r))))"

definition compose_probe_ready :: "compose_host \<Rightarrow> probes \<Rightarrow> gw_deployment \<Rightarrow> string \<Rightarrow> compose \<Rightarrow> string list
    \<Rightarrow> (py_error + readiness) \<times> string list" where
  "compose_probe_ready H W d endpoint b pulled =
     (if is_reservation_engine (gd_engine d) then (Inr (answered (True, ''gpu reserved (no server to probe)'')), pulled)
      else case compose_observe W (hs_repr H) b of Inl e \<Rightarrow> (Inl e, pulled)
      | Inr running \<Rightarrow>
          if gd_id d \<notin> set running then
            (Inr (case compose_startup_failure W (gd_id d) of
                Some why \<Rightarrow> \<lparr>rd_ready = False, rd_detail = why, rd_fatal = True, rd_needs_room = False\<rparr>
              | None \<Rightarrow> not_ready ''container not running''), pulled)
          else (case if gd_engine d = ''ollama'' then ensure_ollama_tag W (hs_repr H) d endpoint pulled else (None, pulled) of
              (Some why, pulled) \<Rightarrow> (Inr (not_ready why), pulled)
            | (None, pulled) \<Rightarrow> (probe_running H W d endpoint b, pulled)))"

section \<open>Ready means served\<close>

text \<open>A generation was answered: a POST of a one-token request for some model to a completion URL under \<open>base\<close>.\<close>

definition generated :: "probes \<Rightarrow> string \<Rightarrow> json \<Rightarrow> json \<Rightarrow> bool" where
  "generated W base protocol model \<longleftrightarrow>
     (case pr_post W (base @ fst (probe_payload protocol model)) (snd (probe_payload protocol model)) of
        Inl _ \<Rightarrow> False | Inr r \<Rightarrow> rs_status r < 400)"

lemma openai_ready_generated:
  assumes "openai_ready W repr base m protocol True listed = Inr (True, why)" and "truthy m"
  shows "generated W base protocol m"
  using assms
  by (auto simp: openai_ready_def generated_def model_asked_def Let_def bind_err_Inr split_beta
      split: sum.splits if_splits option.splits)


section \<open>A project that answers\<close>

definition demo_probes :: probes where
  "demo_probes = \<lparr>pr_get = (\<lambda>_. Inr \<lparr>rs_status = 200, rs_text = [], rs_json = Some (JObj [(''data'', JList [JObj [(''id'', JStr ''m'')]])])\<rparr>),
     pr_post = (\<lambda>_ _. Inr \<lparr>rs_status = 200, rs_text = [], rs_json = None\<rparr>), pr_loads = (\<lambda>_. Some (JList [JObj [(''State'', JStr ''running''), (''Service'', JStr ''vllm-m'')]])),
     pr_ps = Some ''[]'', pr_pull = (\<lambda>_ _. None), pr_residency = None, pr_logs = []\<rparr>"

definition demo_ready_compose :: compose where
  "demo_ready_compose = \<lparr>cb_dir = ''/s'', cb_settings = \<lparr>se_project = ''p'', se_litellm = True, se_ui = False, se_dynamic = False,
       se_skip_display = False, se_proxy = False, se_proxy_port = 80, se_images = [], se_ports = [(''litellm'', 4000)], se_state = [], se_sources = []\<rparr>,
     cb_proxy_config = None, cb_proxy_text = None, cb_network = None,
     cb_scaffold = \<lparr>sc_files = [(''/s/docker-compose.yml'', ''doc'')], sc_sidecar = Some (no_compose_sidecar\<lparr>cs_services := [(''vllm-m'', ''g'')]\<rparr>),
       sc_assume_yes = False, sc_preapproved = None, sc_planned = None, sc_preview = None, sc_asked = []\<rparr>,
     cb_secrets = \<lparr>ss_file = None, ss_staged = [], ss_depth = 0\<rparr>, cb_registry = JObj [], cb_extra = [], cb_extra_dynamic = [],
     cb_adopted = [], cb_addresses = None, cb_plan_errors = [], cb_render_errors = [], cb_unplaced = [], cb_assignments = []\<rparr>"

definition demo_ready_host :: compose_host where
  "demo_ready_host = \<lparr>hs_sha = id, hs_yaml = (\<lambda>_. ''doc''), hs_load = (\<lambda>_. None), hs_repr = (\<lambda>_. []), hs_indent = (\<lambda>_. []),
     hs_spec = (\<lambda>_. []), hs_catalog = (\<lambda>_. None), hs_measured = (\<lambda>_. None), hs_floor = (\<lambda>_. None),
     hs_gpus = \<lparr>cf_inventory = [], cf_allowed = None, cf_reserved = [], cf_skip_display = False\<rparr>,
     hs_tokens = (\<lambda>_. ''t''), hs_run_as = (\<lambda>_. None), hs_subnet = (\<lambda>_. \<lparr>net_base = 0, net_prefix = 24\<rparr>), hs_ports = [], hs_state = []\<rparr>"

definition demo_asked :: gw_deployment where
  "demo_asked = \<lparr>gd_id = ''g'', gd_created_at = 0, gd_engine = ''vllm'', gd_spec = [], gd_served = [(''m'', JObj [])]\<rparr>"

lemma demo_probe:
  "compose_probe_ready demo_ready_host demo_probes demo_asked ''m'' demo_ready_compose []
     = (Inr \<lparr>rd_ready = True, rd_detail = ''m served a chat probe'', rd_fatal = False, rd_needs_room = False\<rparr>, [])"
  by code_simp


end
