(* ===== verification/Rotation.thy ===== *)
theory Rotation
  imports
  Adoption
  Ledger
begin

text \<open>
  Rotating the ledger to another backend (\<open>leasing/transition.py\<close>): the old backend must be quiescent, the history is
  archived, and a new epoch starts in the same database.

  \<open>rw_store\<close> is the ledger, \<open>rw_archives\<close> the database files beside it, \<open>rw_used\<close> the profiles the new backend was told to
  render from. The lock held over a rotation makes it one step. \<open>ob_running\<close> is what the old backend still runs
  (\<open>recovery_blockers\<close>, or the names of its instances) and may raise; \<open>stamp\<close> is the clock's value in the archive entry,
  \<open>ledger_file\<close> the directory and stem of the database, \<open>None\<close> for one in memory.
\<close>

section \<open>The transition\<close>

record 'e old_backend =
  ob_use :: "json \<Rightarrow> 'e option"
  ob_running :: "'e + string list"

record rotation_world =
  rw_store :: store
  rw_archives :: "(string, store) dict"
  rw_used :: "json list"

datatype 'e rotation_error =
    NoRotationTarget
  | CatalogRefused union_error
  | NothingToRotate
  | LeasesRemain "string list" string
  | OldBackendUnknown
  | BackendRaised 'e
  | NotQuiescent 'e
  | StillOwned "string list" string
  | NoArchiveFile
  | LedgerMoved ledger_error
  | RotationCrash py_error

record rotation =
  ro_from :: json
  ro_to :: json
  ro_changed :: bool
  ro_archive :: "string option"
  ro_archives :: "json list"
  ro_leases :: "nat option"
  ro_deployments :: "nat option"
  ro_detail :: string

definition backend_name :: "(json \<Rightarrow> string) \<Rightarrow> (string, json) dict \<Rightarrow> 'e rotation_error + string" where
  "backend_name repr p = (case dget p ''backend'' of None \<Rightarrow> Inl (RotationCrash KeyError) | Some b \<Rightarrow> Inr (py_str repr b))"

definition rotation_target :: "(string \<Rightarrow> string) \<Rightarrow> (json \<Rightarrow> string) \<Rightarrow> (string \<Rightarrow> bool) \<Rightarrow> json option
    \<Rightarrow> 'e rotation_error + (string, json) dict" where
  "rotation_target sha repr valid_url target = (case target of
     Some (JObj t) \<Rightarrow>
       if rt_get t ''backend'' \<notin> {JStr ''compose'', JStr ''kubeai''} then Inl NoRotationTarget
       else if \<not> truthy (rt_get t ''catalogs'') then Inr t
       else (case rt_get t ''catalogs'' of
           JList ss \<Rightarrow> (case union_of sha repr valid_url ss of Inl e \<Rightarrow> Inl (CatalogRefused e) | Inr _ \<Rightarrow> Inr t)
         | _ \<Rightarrow> Inl (RotationCrash TypeError))
   | None \<Rightarrow> Inl NoRotationTarget
   | Some _ \<Rightarrow> Inl (RotationCrash AttributeError))"

definition leases_now :: "rat \<Rightarrow> store \<Rightarrow> string list" where
  "leases_now now st = map lease_id (filter (\<lambda>le. lease_state le = Active) (fst (status True now st)))"

definition quiescence_check :: "(json \<Rightarrow> string) \<Rightarrow> 'e old_backend option \<Rightarrow> (string, json) dict \<Rightarrow> 'e rotation_error + unit" where
  "quiescence_check repr old current = (case old of None \<Rightarrow> Inl OldBackendUnknown
     | Some ob \<Rightarrow> (case ob_use ob (JObj current) of Some e \<Rightarrow> Inl (BackendRaised e)
       | None \<Rightarrow> (case ob_running ob of Inl e \<Rightarrow> Inl (NotQuiescent e)
         | Inr names \<Rightarrow> if names = [] then Inr () else bind_err (backend_name repr current) (\<lambda>b. Inl (StillOwned names b)))))"

definition archives_of :: "store \<Rightarrow> json list" where
  "archives_of st = (case meta_json st ''ledger_archives'' of Some (JList xs) \<Rightarrow> xs | _ \<Rightarrow> [])"

definition archive_file :: "(string \<Rightarrow> string) \<Rightarrow> (string \<times> string) option \<Rightarrow> string \<Rightarrow> (string, json) dict \<Rightarrow> store
    \<Rightarrow> 'e rotation_error + string" where
  "archive_file sha ledger_file name current st = (case ledger_file of None \<Rightarrow> Inl NoArchiveFile
     | Some (dir, stem) \<Rightarrow>
         let signature = take 16 (canonical_digest sha (JObj [(''profile'', JObj current), (''state_version'', JInt (admission_state_version st))]))
         in Inr (dir @ ''/archives/'' @ stem @ ''-'' @ name @ ''-'' @ signature @ ''.db''))"

text \<open>Everything a rotation checks before it changes anything: \<open>None\<close> when there is nothing to rotate.\<close>

definition rotation_checks :: "(string \<Rightarrow> string) \<Rightarrow> (json \<Rightarrow> string) \<Rightarrow> (string \<Rightarrow> bool) \<Rightarrow> rat \<Rightarrow> (string \<times> string) option
    \<Rightarrow> (string, json) dict \<Rightarrow> 'e old_backend option \<Rightarrow> store \<Rightarrow> 'e rotation_error + ((string, json) dict \<times> string \<times> string) option" where
  "rotation_checks sha repr valid_url now ledger_file t old st = (case profile st of
     None \<Rightarrow> Inl NothingToRotate
   | Some (JObj current) \<Rightarrow>
       if rt_get current ''backend'' = rt_get t ''backend'' then Inr None
       else if leases_now now st \<noteq> [] then bind_err (backend_name repr current) (\<lambda>b. Inl (LeasesRemain (leases_now now st) b))
       else bind_err (quiescence_check repr old current) (\<lambda>_.
         bind_err (if ledger_file = None then Inl NoArchiveFile else backend_name repr current) (\<lambda>b.
         bind_err (archive_file sha ledger_file b current st) (\<lambda>path. Inr (Some (current, b, path)))))
   | Some _ \<Rightarrow> Inl (RotationCrash AttributeError))"

definition rotate_backend :: "(string \<Rightarrow> string) \<Rightarrow> (json \<Rightarrow> string) \<Rightarrow> (string \<Rightarrow> bool) \<Rightarrow> rat \<Rightarrow> json \<Rightarrow> (string \<times> string) option
    \<Rightarrow> (json \<Rightarrow> 'e option) \<Rightarrow> json option \<Rightarrow> 'e old_backend option \<Rightarrow> bool \<Rightarrow> rotation_world
    \<Rightarrow> ('e rotation_error + rotation) \<times> rotation_world" where
  "rotate_backend sha repr valid_url now stamp ledger_file candidate target old commit w = (let st = rw_store w in
     case rotation_target sha repr valid_url target of Inl e \<Rightarrow> (Inl e, w)
     | Inr t \<Rightarrow> (case rotation_checks sha repr valid_url now ledger_file t old st of Inl e \<Rightarrow> (Inl e, w)
       | Inr None \<Rightarrow> (Inr \<lparr>ro_from = rt_get t ''backend'', ro_to = rt_get t ''backend'', ro_changed = False, ro_archive = None,
             ro_archives = archives_of st, ro_leases = None, ro_deployments = None,
             ro_detail = ''Recovery backend already matches the configured backend; no rotation needed''\<rparr>, w)
       | Inr (Some (current, b, path)) \<Rightarrow>
           let leases = length (fst (status True now st)); deployments = length (snd (status True now st));
               found = \<lparr>ro_from = rt_get current ''backend'', ro_to = rt_get t ''backend'', ro_changed = False, ro_archive = Some path,
                 ro_archives = archives_of st, ro_leases = Some leases, ro_deployments = Some deployments,
                 ro_detail = ''Old runtime is quiescent; archive history and start a new recovery epoch''\<rparr>;
               fresh = JObj (dput ''catalogs'' (JList []) t);
               archive = JObj [(''path'', JStr path), (''backend'', rt_get current ''backend''), (''next_backend'', rt_get t ''backend''),
                 (''leases'', JInt (int leases)), (''deployments'', JInt (int deployments)), (''created_at'', stamp)]
           in if \<not> commit then (Inr found, w)
              else (case candidate fresh of Some e \<Rightarrow> (Inl (BackendRaised e), w)
                | None \<Rightarrow> let w = w\<lparr>rw_used := rw_used w @ [fresh], rw_archives := dput path st (rw_archives w)\<rparr> in
                    (case start_backend_epoch fresh archive (JObj current) (admission_state_version st) st of
                        Inl e \<Rightarrow> (Inl (LedgerMoved e), w)
                      | Inr st' \<Rightarrow> (Inr (found\<lparr>ro_changed := True, ro_archives := archives_of st @ [archive]\<rparr>), w\<lparr>rw_store := st'\<rparr>)))))"

section \<open>A rotation loses nothing\<close>

lemma fresh_epoch:
  assumes "start_backend_epoch prof archive (JObj current) v st = Inr st'"
  shows "st_leases st' = [] \<and> st_deployments st' = [] \<and> st_claims st' = [] \<and> st_addresses st' = [] \<and> st_pending st' = None
    \<and> profile st' = Some (canonical prof) \<and> archives_of st' = map canonical (archives_of st @ [archive])
    \<and> admission_state_version st' = admission_state_version st + 1"
  using assms
  by (auto simp: start_backend_epoch_def profile_def meta_json_def archives_of_def set_meta_json_def write_profile_def
      bump_desired_generation_def bump_admission_state_version_def admission_state_version_def bump_def counter_def Let_def
      split: if_splits option.splits)

lemma status_active:
  "leases_now now st = [] \<longleftrightarrow> (\<forall>le \<in> set (list_leases st []). \<not> (lease_state le = Active \<and> is_protecting le now))"
  by (auto simp: leases_now_def status_def Let_def filter_empty_conv split: if_splits)

lemma rotation_checks_Some:
  assumes "rotation_checks sha repr valid_url now ledger_file t old st = Inr (Some (current, b, path))"
  shows "profile st = Some (JObj current) \<and> rt_get current ''backend'' \<noteq> rt_get t ''backend'' \<and> leases_now now st = []
    \<and> (\<exists>ob. old = Some ob \<and> ob_use ob (JObj current) = None \<and> ob_running ob = Inr [])"
  using assms
  by (auto simp: rotation_checks_def quiescence_check_def bind_err_Inr split: option.splits json.splits if_splits sum.splits)

text \<open>
  C25. A rotation loses nothing. A preview, a refusal and a repeated rotation leave the ledger as it is; a rotation that
  changes it found no protecting lease and an old backend that could be asked and runs nothing, has the whole old ledger in the
  archive it names, and starts an empty epoch with the new backend's snapshot, the archive listed, and a higher admission
  version, so that every overlay planned before is refused.
\<close>

theorem rotation_loses_nothing:
  assumes "rotate_backend sha repr valid_url now stamp ledger_file candidate target old commit w = (r, w')"
  shows "(case r of
       Inr res \<Rightarrow> if ro_changed res then commit
           \<and> (\<forall>le \<in> set (list_leases (rw_store w) []). \<not> (lease_state le = Active \<and> is_protecting le now))
           \<and> (\<exists>ob. old = Some ob \<and> ob_running ob = Inr [])
           \<and> (\<exists>path. ro_archive res = Some path \<and> dget (rw_archives w') path = Some (rw_store w))
           \<and> butlast (ro_archives res) = archives_of (rw_store w) \<and> archives_of (rw_store w') = map canonical (ro_archives res)
           \<and> st_leases (rw_store w') = [] \<and> st_deployments (rw_store w') = [] \<and> st_pending (rw_store w') = None
           \<and> (\<exists>t. target = Some (JObj t) \<and> profile (rw_store w') = Some (canonical (JObj (dput ''catalogs'' (JList []) t))))
           \<and> admission_state_version (rw_store w') = admission_state_version (rw_store w) + 1
         else w' = w
     | Inl e \<Rightarrow> rw_store w' = rw_store w)"
proof (cases "rotation_target sha repr valid_url target :: 'a rotation_error + (string, json) dict")
  case (Inl e)
  then show ?thesis using assms by (auto simp: rotate_backend_def)
next
  case T: (Inr t)
  then have t: "target = Some (JObj t)"
    by (auto simp: rotation_target_def split: option.splits json.splits if_splits sum.splits)
  show ?thesis
  proof (cases "rotation_checks sha repr valid_url now ledger_file t old (rw_store w)")
    case (Inl e)
    then show ?thesis using assms T by (auto simp: rotate_backend_def)
  next
    case C: (Inr found)
    show ?thesis
    proof (cases found)
      case None
      then show ?thesis using assms T C by (auto simp: rotate_backend_def)
    next
      case (Some x)
      obtain current b path where x: "x = (current, b, path)" by (cases x) auto
      note checks = rotation_checks_Some[OF C[unfolded Some x]]
      have nl: "leases_now now (rw_store w) = []" using checks by blast
      show ?thesis using assms T C Some x checks t nl[unfolded status_active]
        by (auto simp: rotate_backend_def Let_def dest!: fresh_epoch split: if_splits option.splits sum.splits)
    qed
  qed
qed

lemma rotation_loses_nothing_witness:
  "\<exists>(res :: rotation) (w' :: rotation_world) (old :: string old_backend).
     rotate_backend (\<lambda>s. s) (\<lambda>j. []) (\<lambda>s. True) 0 JNull (Some (''/d'', ''ledger'')) (\<lambda>p. None)
       (Some (JObj [(''backend'', JStr ''kubeai'')])) (Some old) True
       \<lparr>rw_store = write_profile (JObj [(''backend'', JStr ''compose'')]) empty_store, rw_archives = [], rw_used = []\<rparr> = (Inr res, w')
     \<and> ro_changed res \<and> st_leases (rw_store w') = []
     \<and> profile (rw_store w') = Some (canonical (JObj [(''backend'', JStr ''kubeai''), (''catalogs'', JList [])]))
     \<and> archives_of (rw_store w') = map canonical (ro_archives res)"
proof -
  define old :: "string old_backend" where "old = \<lparr>ob_use = (\<lambda>p. None), ob_running = Inr []\<rparr>"
  define w where "w = \<lparr>rw_store = write_profile (JObj [(''backend'', JStr ''compose'')]) empty_store, rw_archives = [], rw_used = []\<rparr>"
  let ?r = "rotate_backend (\<lambda>s. s) (\<lambda>j. []) (\<lambda>s. True) 0 JNull (Some (''/d'', ''ledger'')) (\<lambda>p. None)
       (Some (JObj [(''backend'', JStr ''kubeai'')])) (Some old) True w"
  have "case fst ?r of Inl e \<Rightarrow> False | Inr res \<Rightarrow> ro_changed res"
    unfolding old_def w_def by code_simp
  then obtain res w' where r: "?r = (Inr res, w')" and c: "ro_changed res" by (cases ?r) (auto split: sum.splits)
  show ?thesis
    using r c rotation_loses_nothing[OF r] by (auto simp: w_def dput_def)
qed

end
